(* ===== verification/Prelude.thy ===== *)
theory Prelude
  imports Main "HOL-Library.Word"
begin

text \<open>
  Shared vocabulary of the development: the machine integer types, Rust's \<open>Result\<close> and its
  question-mark operator, \<open>clamp\<close>, saturating arithmetic, the byte-order conversions of
  \<open>u32\<close>, and the list lemmas about splitting and fixed-capacity vectors which several
  components use.
\<close>

unbundle bit_operations_syntax

section \<open>Machine integers\<close>

type_synonym u8 = "8 word"
type_synonym u16 = "16 word"
type_synonym u32 = "32 word"
type_synonym u64 = "64 word"

text \<open>The fact collections that component proofs feed to the simplifier.\<close>

named_theorems const_defs \<open>definitions of the named constants of the source\<close>
named_theorems step_defs \<open>definitions of the operations of a component\<close>
named_theorems inv_intros \<open>introduction rules for invariants\<close>

section \<open>Results\<close>

definition result_bind :: "'e + 'a \<Rightarrow> ('a \<Rightarrow> 'e + 'b) \<Rightarrow> 'e + 'b" where
  "result_bind m f = (case m of Inl e \<Rightarrow> Inl e | Inr x \<Rightarrow> f x)"

lemma result_bind_simps [simp]:
  "result_bind (Inl e) f = Inl e"
  "result_bind (Inr x) f = f x"
  by (simp_all add: result_bind_def)

lemma result_bind_Inr_iff:
  "result_bind m f = Inr y \<longleftrightarrow> (\<exists>x. m = Inr x \<and> f x = Inr y)"
  by (cases m) auto

lemma result_bind_Inl_iff:
  "result_bind m f = Inl e \<longleftrightarrow> m = Inl e \<or> (\<exists>x. m = Inr x \<and> f x = Inl e)"
  by (cases m) auto

definition ensure :: "bool \<Rightarrow> 'e \<Rightarrow> 'e + unit" where
  "ensure b e = (if b then Inr () else Inl e)"

lemma ensure_simps [simp]:
  "ensure True e = Inr ()"
  "ensure False e = Inl e"
  by (simp_all add: ensure_def)

lemma ensure_Inr_iff [simp]: "ensure b e = Inr u \<longleftrightarrow> b"
  by (simp add: ensure_def)

lemma ensure_Inl_iff [simp]: "ensure b e = Inl e' \<longleftrightarrow> \<not> b \<and> e' = e"
  by (auto simp: ensure_def)

definition result_map_err :: "('e \<Rightarrow> 'f) \<Rightarrow> 'e + 'a \<Rightarrow> 'f + 'a" where
  "result_map_err g m = (case m of Inl e \<Rightarrow> Inl (g e) | Inr x \<Rightarrow> Inr x)"

lemma result_map_err_simps [simp]:
  "result_map_err g (Inl e) = Inl (g e)"
  "result_map_err g (Inr x) = Inr x"
  by (simp_all add: result_map_err_def)

lemma result_map_err_Inr_iff [simp]: "result_map_err g m = Inr x \<longleftrightarrow> m = Inr x"
  by (cases m) auto

definition is_ok :: "'e + 'a \<Rightarrow> bool" where
  "is_ok m = (case m of Inl _ \<Rightarrow> False | Inr _ \<Rightarrow> True)"

lemma is_ok_simps [simp]: "is_ok (Inl e) = False" "is_ok (Inr x) = True"
  by (simp_all add: is_ok_def)

lemma is_ok_iff: "is_ok m \<longleftrightarrow> (\<exists>x. m = Inr x)"
  by (cases m) auto

text \<open>
  The question-mark operator where a computation also changes a state: the state is returned with
  the error, as the changes made so far persist.
\<close>

definition st_bind :: "('e + 'a) \<times> 's \<Rightarrow> ('a \<Rightarrow> 's \<Rightarrow> ('e + 'b) \<times> 's) \<Rightarrow> ('e + 'b) \<times> 's" where
  "st_bind m k = (case m of (Inl e, s) \<Rightarrow> (Inl e, s) | (Inr x, s) \<Rightarrow> k x s)"

lemma st_bind_simps [simp]:
  "st_bind (Inl e, s) k = (Inl e, s)"
  "st_bind (Inr x, s) k = k x s"
  by (simp_all add: st_bind_def)

lemma st_bind_assoc: "st_bind (st_bind m f) g = st_bind m (\<lambda>x s. st_bind (f x s) g)"
  by (cases m; cases "fst m") auto

lemma st_bind_unit [simp]: "st_bind m (\<lambda>u s. (Inr (), s)) = m"
  by (cases m; cases "fst m") auto

lemma st_bind_Inr_iff:
  "st_bind m k = (Inr y, s') \<longleftrightarrow> (\<exists>x s. m = (Inr x, s) \<and> k x s = (Inr y, s'))"
  by (auto simp: st_bind_def split: prod.splits sum.splits)

lemma st_bind_InrE:
  assumes "st_bind m k = (Inr y, s')"
  obtains x s where "m = (Inr x, s)" "k x s = (Inr y, s')"
  using assms by (auto simp: st_bind_Inr_iff)

lemma st_bindE:
  assumes "st_bind m k = (res, s')"
  obtains e where "m = (Inl e, s')" "res = Inl e"
        | x s where "m = (Inr x, s)" "k x s = (res, s')"
  using assms by (auto simp: st_bind_def split: prod.splits sum.splits)

lemma st_bind_Inl_iff:
  "st_bind m k = (Inl e, s') \<longleftrightarrow>
     m = (Inl e, s') \<or> (\<exists>x s. m = (Inr x, s) \<and> k x s = (Inl e, s'))"
  by (auto simp: st_bind_def split: prod.splits sum.splits)

section \<open>Clamping and saturation\<close>

text \<open>
  \<open>Ord::clamp\<close> panics when the lower bound exceeds the upper one; \<open>clamp_checked\<close> carries
  that panic as \<open>None\<close>, and \<open>clamp_ord\<close> is its value where the bounds are constants of the
  source in the right order.
\<close>

definition clamp_ord :: "'a::linorder \<Rightarrow> 'a \<Rightarrow> 'a \<Rightarrow> 'a" where
  "clamp_ord lo hi x = (if x < lo then lo else if hi < x then hi else x)"

definition clamp_checked :: "'a::linorder \<Rightarrow> 'a \<Rightarrow> 'a \<Rightarrow> 'a option" where
  "clamp_checked lo hi x = (if lo \<le> hi then Some (clamp_ord lo hi x) else None)"

lemma clamp_ord_bounds: "lo \<le> hi \<Longrightarrow> lo \<le> clamp_ord lo hi x \<and> clamp_ord lo hi x \<le> hi"
  by (auto simp: clamp_ord_def)

lemma clamp_ord_id [simp]: "lo \<le> x \<Longrightarrow> x \<le> hi \<Longrightarrow> clamp_ord lo hi x = x"
  by (auto simp: clamp_ord_def)

lemma clamp_ord_idem [simp]: "lo \<le> hi \<Longrightarrow> clamp_ord lo hi (clamp_ord lo hi x) = clamp_ord lo hi x"
  by (auto simp: clamp_ord_def)

definition u64_max :: nat where "u64_max = 18446744073709551615"
definition u32_max :: nat where "u32_max = 4294967295"

definition sat_add_u64 :: "nat \<Rightarrow> nat \<Rightarrow> nat" where
  "sat_add_u64 a b = min (a + b) u64_max"

definition sat_add_u32 :: "nat \<Rightarrow> nat \<Rightarrow> nat" where
  "sat_add_u32 a b = min (a + b) u32_max"

section \<open>Slices\<close>

text \<open>\<open>copy_from_slice\<close> into a part of a buffer.\<close>

definition splice :: "'a list \<Rightarrow> nat \<Rightarrow> 'a list \<Rightarrow> 'a list" where
  "splice xs off ys = take off xs @ ys @ drop (off + length ys) xs"

lemma length_splice [simp]: "off + length ys \<le> length xs \<Longrightarrow> length (splice xs off ys) = length xs"
  by (simp add: splice_def)

section \<open>Byte order\<close>

definition u32_from_le_bytes :: "u8 \<times> u8 \<times> u8 \<times> u8 \<Rightarrow> u32" where
  "u32_from_le_bytes = (\<lambda>(b0, b1, b2, b3).
     ucast b0 OR push_bit 8 (ucast b1) OR push_bit 16 (ucast b2) OR push_bit 24 (ucast b3))"

definition u32_to_le_bytes :: "u32 \<Rightarrow> u8 \<times> u8 \<times> u8 \<times> u8" where
  "u32_to_le_bytes w =
     (ucast w, ucast (drop_bit 8 w), ucast (drop_bit 16 w), ucast (drop_bit 24 w))"

definition u32_from_be_bytes :: "u8 \<times> u8 \<times> u8 \<times> u8 \<Rightarrow> u32" where
  "u32_from_be_bytes = (\<lambda>(b0, b1, b2, b3). u32_from_le_bytes (b3, b2, b1, b0))"

definition u32_to_be_bytes :: "u32 \<Rightarrow> u8 list" where
  "u32_to_be_bytes w = (case u32_to_le_bytes w of (b0, b1, b2, b3) \<Rightarrow> [b3, b2, b1, b0])"

lemma u32_le_bytes_roundtrip [simp]: "u32_to_le_bytes (u32_from_le_bytes bs) = bs"
proof -
  obtain a b c d where bs: "bs = (a, b, c, d)" by (cases bs)
  show ?thesis
    unfolding bs u32_to_le_bytes_def u32_from_le_bytes_def prod.case
    by (intro prod.inject [THEN iffD2] conjI; rule bit_word_eqI)
       (auto simp: bit_simps dest: bit_imp_le_length)
qed

lemma u32_bytes_le_roundtrip [simp]: "u32_from_le_bytes (u32_to_le_bytes w) = w"
proof (rule bit_word_eqI)
  fix n assume "n < LENGTH(32)"
  then consider "n < 8" | "8 \<le> n" "n < 16" | "16 \<le> n" "n < 24" | "24 \<le> n" "n < 32"
    by fastforce
  then show "bit (u32_from_le_bytes (u32_to_le_bytes w)) n = bit w n"
    by cases (auto simp: u32_to_le_bytes_def u32_from_le_bytes_def bit_simps)
qed

lemma u32_from_le_bytes_inj [simp]: "u32_from_le_bytes a = u32_from_le_bytes b \<longleftrightarrow> a = b"
  by (metis u32_le_bytes_roundtrip)

text \<open>The number that bytes are in big-endian order.\<close>

definition be_value :: "u8 list \<Rightarrow> nat" where
  "be_value bs = foldl (\<lambda>v b. v * 256 + unat b) 0 bs"

lemma be_value_append: "be_value (xs @ ys) = be_value xs * 256 ^ length ys + be_value ys"
proof -
  have "foldl (\<lambda>v b. v * 256 + unat b) a ys = a * 256 ^ length ys + be_value ys" for a
  proof (induction ys rule: rev_induct)
    case (snoc y ys)
    then show ?case by (simp add: be_value_def algebra_simps)
  qed (simp add: be_value_def)
  from this [of "be_value xs"] show ?thesis by (simp add: be_value_def)
qed

lemma be_value_simps [simp]:
  "be_value [] = 0"
  "be_value (b # bs) = unat b * 256 ^ length bs + be_value bs"
  using be_value_append [of "[b]" bs] by (simp_all add: be_value_def)

lemma unat_byte: "unat (ucast (drop_bit k (w :: u32)) :: u8) = unat w div 2 ^ k mod 256"
proof -
  have "unat w < 4294967296" using unsigned_less [where w = w and 'a = nat] by simp
  then have "unat w mod 4294967296 = unat w" by simp
  then show ?thesis
    by (simp add: unsigned_ucast_eq unsigned_drop_bit_eq take_bit_eq_mod) (simp add: drop_bit_eq_div)
qed

lemma be_value_u32 [simp]: "be_value (u32_to_be_bytes w) = unat w"
proof -
  define x where "x = unat w"
  have "x < 4294967296" using unsigned_less [where w = w and 'a = nat] by (simp add: x_def)
  then have "x div 16777216 mod 256 = x div 16777216" by simp
  moreover have "x div 16777216 * 16777216 + x mod 16777216 = x" by (rule div_mult_mod_eq)
  moreover have "x mod 16777216 = x div 65536 mod 256 * 65536 + x mod 65536"
    "x mod 65536 = x div 256 mod 256 * 256 + x mod 256"
    using mod_mult2_eq' [of x 65536 256] mod_mult2_eq' [of x 256 256] by (simp_all add: mult.commute)
  ultimately show ?thesis
    using unat_byte [of 0 w] by (simp add: u32_to_be_bytes_def u32_to_le_bytes_def unat_byte flip: x_def)
qed

section \<open>Bytes bit by bit\<close>

lemma u8_eqI:
  assumes "bit a 0 = bit b 0" "bit a 1 = bit b 1" "bit a 2 = bit b 2" "bit a 3 = bit b 3"
    "bit a 4 = bit b 4" "bit a 5 = bit b 5" "bit a 6 = bit b 6" "bit a 7 = bit b 7"
  shows "a = (b :: u8)"
proof (rule bit_word_eqI)
  fix n assume "n < LENGTH(8)"
  then have "n \<in> {0, 1, 2, 3, 4, 5, 6, 7}" by auto
  then show "bit a n = bit b n" using assms by auto
qed

lemma top_bit_u8: "(x :: u8) AND 0x80 \<noteq> 0 \<longleftrightarrow> bit x 7"
proof -
  have "(0x80 :: u8) = push_bit 7 1" by simp
  then show ?thesis by (metis and_exp_eq_0_iff_not_bit push_bit_of_1)
qed

lemma and_mask_u8:
  "x AND 0x7F = x \<longleftrightarrow> x \<le> (127 :: u8)" "x AND 7 = x \<longleftrightarrow> x \<le> (7 :: u8)" "x AND 3 = x \<longleftrightarrow> x \<le> (3 :: u8)"
  using mask_eq_iff [of x 7] mask_eq_iff [of x 3] mask_eq_iff [of x 2]
  by (auto simp: mask_eq_exp_minus_1 word_le_def)

end
