(* ===== verification/Eu_Dst.thy ===== *)
theory Eu_Dst
  imports Prelude
begin

text \<open>
  Local time with the daylight saving rules of the European Union, \<open>crates/eu-dst/src/lib.rs\<close>.
  The \<open>u32\<close> quantities of the source (years, months, days) stay far below their bound: the
  number of days is clamped to \<open>u32::MAX\<close> first, so a year is at most some twelve million. They
  are naturals here; offsets and local seconds are the source's \<open>i64\<close>, with its saturation.
\<close>

section \<open>Operations\<close>

definition DST_OFFSET_SECS :: int where [const_defs]: "DST_OFFSET_SECS = 3600"

record Timezone =
  tz_base_offset_secs :: int

definition timezone_new :: "int \<Rightarrow> Timezone" where
  "timezone_new base_offset_secs = \<lparr>tz_base_offset_secs = base_offset_secs\<rparr>"

definition WET :: Timezone where "WET = timezone_new 0"
definition CET :: Timezone where "CET = timezone_new 3600"
definition EET :: Timezone where "EET = timezone_new (2 * 3600)"

definition is_leap_year :: "nat \<Rightarrow> bool" where
  "is_leap_year year \<longleftrightarrow> (year mod 4 = 0 \<and> year mod 100 \<noteq> 0) \<or> year mod 400 = 0"

function year_loop :: "nat \<Rightarrow> nat \<Rightarrow> nat \<times> nat" where
  "year_loop remaining_days year =
     (let days_in_year = (if is_leap_year year then 366 else 365)
      in if remaining_days < days_in_year then (year, remaining_days)
         else year_loop (remaining_days - days_in_year) (year + 1))"
  by pat_completeness auto
termination
  by (relation "measure fst") auto

fun month_loop :: "nat list \<Rightarrow> nat \<Rightarrow> nat \<Rightarrow> nat \<times> nat" where
  "month_loop [] remaining_days month = (month, remaining_days)"
| "month_loop (days_in_month # ms) remaining_days month =
     (if remaining_days < days_in_month then (month, remaining_days)
      else month_loop ms (remaining_days - days_in_month) (month + 1))"

definition days_in_months :: "bool \<Rightarrow> nat list" where
  "days_in_months leap =
     (if leap then [31, 29, 31, 30, 31, 30, 31, 31, 30, 31, 30, 31]
      else [31, 28, 31, 30, 31, 30, 31, 31, 30, 31, 30, 31])"

definition unix_to_date :: "nat \<Rightarrow> nat \<times> nat \<times> nat \<times> nat" where
  "unix_to_date unix_secs =
     (let days = (if unix_secs div 86400 \<le> u32_max then unix_secs div 86400 else u32_max);
          hour = (unix_secs mod 86400) div 3600;
          (year, remaining_days) = year_loop days 1970;
          (month, remaining_days) = month_loop (days_in_months (is_leap_year year)) remaining_days 1;
          day = remaining_days + 1
      in (year, month, day, hour))"

definition last_sunday_of_month :: "nat \<Rightarrow> nat \<Rightarrow> nat" where
  "last_sunday_of_month year month =
     (let days_in_month =
            (if month \<in> {1, 3, 5, 7, 8, 10, 12} then 31
             else if month = 2 then (if is_leap_year year then 29 else 28) else 30);
          day = days_in_month;
          m = (if month < 3 then month + 12 else month);
          y = (if month < 3 then year - 1 else year);
          k = y mod 100;
          j = y div 100;
          h = (day + (13 * (m + 1)) div 5 + k + k div 4 + j div 4 + 5 * j) mod 7;
          dow = (h + 6) mod 7
      in if dow = 0 then days_in_month else days_in_month - dow)"

definition is_dst_active :: "nat \<Rightarrow> bool" where
  "is_dst_active unix_secs =
     (case unix_to_date unix_secs of (year, month, day, hour) \<Rightarrow>
        let march_last_sunday = last_sunday_of_month year 3;
            october_last_sunday = last_sunday_of_month year 10
        in if 3 < month \<and> month < 10 then True
           else if month = 3 then march_last_sunday < day \<or> (day = march_last_sunday \<and> 1 \<le> hour)
           else if month = 10 then day < october_last_sunday \<or> (day = october_last_sunday \<and> hour < 1)
           else False)"

definition offset_secs :: "Timezone \<Rightarrow> nat \<Rightarrow> int" where
  "offset_secs tz unix_secs =
     (if is_dst_active unix_secs then tz_base_offset_secs tz + DST_OFFSET_SECS
      else tz_base_offset_secs tz)"

definition is_dst :: "Timezone \<Rightarrow> nat \<Rightarrow> bool" where
  "is_dst tz unix_secs = is_dst_active unix_secs"

definition i64_max :: int where "i64_max = 9223372036854775807"
definition i64_min :: int where "i64_min = - 9223372036854775808"

definition to_local_hms :: "Timezone \<Rightarrow> nat \<Rightarrow> nat \<times> nat \<times> nat" where
  "to_local_hms tz unix_secs =
     (let offset = offset_secs tz unix_secs;
          unix_secs = (if int unix_secs \<le> i64_max then int unix_secs else i64_max);
          local_secs = clamp_ord i64_min i64_max (unix_secs + offset);
          secs_today = local_secs mod 86400
      in (nat (secs_today div 3600), nat ((secs_today mod 3600) div 60), nat (secs_today mod 60)))"

section \<open>The calendar as day numbers\<close>

definition year_days :: "nat \<Rightarrow> nat" where
  "year_days y = (if is_leap_year y then 366 else 365)"

definition days_before_year :: "nat \<Rightarrow> nat" where
  "days_before_year y = (\<Sum>i\<in>{1970..<y}. year_days i)"

definition day_number :: "nat \<Rightarrow> nat \<Rightarrow> nat \<Rightarrow> nat" where
  "day_number y m d = days_before_year y + sum_list (take (m - 1) (days_in_months (is_leap_year y))) + (d - 1)"

definition month_days :: "nat \<Rightarrow> nat \<Rightarrow> nat" where
  "month_days y m = days_in_months (is_leap_year y) ! (m - 1)"

definition valid_date :: "nat \<Rightarrow> nat \<Rightarrow> nat \<Rightarrow> bool" where
  "valid_date y m d \<longleftrightarrow> 1970 \<le> y \<and> 1 \<le> m \<and> m \<le> 12 \<and> 1 \<le> d \<and> d \<le> month_days y m"

text \<open>Day 0, the first of January 1970, was a Thursday; Sunday is weekday 0.\<close>

definition weekday :: "nat \<Rightarrow> nat" where
  "weekday n = (n + 4) mod 7"

definition is_last_sunday :: "nat \<Rightarrow> nat \<Rightarrow> nat \<Rightarrow> bool" where
  "is_last_sunday y m d \<longleftrightarrow> valid_date y m d \<and> weekday (day_number y m d) = 0 \<and> month_days y m < d + 7"

lemma days_before_year_Suc: "1970 \<le> y \<Longrightarrow> days_before_year (Suc y) = days_before_year y + year_days y"
  by (simp add: days_before_year_def)

declare year_loop.simps [simp del]

lemma year_loop_spec:
  "year_loop r y = (y', r') \<Longrightarrow> 1970 \<le> y \<Longrightarrow>
     y \<le> y' \<and> r' < year_days y' \<and> days_before_year y + r = days_before_year y' + r'"
proof (induction r y rule: year_loop.induct)
  case (1 r y)
  show ?case
  proof (cases "r < year_days y")
    case True
    then show ?thesis using 1(2) by (subst (asm) year_loop.simps) (auto simp: year_days_def split: if_splits)
  next
    case False
    then have "year_loop (r - year_days y) (y + 1) = (y', r')"
      using 1(2) by (subst (asm) year_loop.simps) (auto simp: year_days_def split: if_splits)
    moreover have "\<not> r < (if is_leap_year y then 366 else 365)" using False by (simp add: year_days_def)
    ultimately have "y + 1 \<le> y' \<and> r' < year_days y' \<and>
        days_before_year (y + 1) + (r - year_days y) = days_before_year y' + r'"
      using 1(1) [OF refl] 1(3) by (simp add: year_days_def)
    then show ?thesis using False 1(3) by (simp add: days_before_year_Suc)
  qed
qed

lemma month_loop_spec:
  "month_loop ms r m = (m', r') \<Longrightarrow> r < sum_list ms \<Longrightarrow>
     m \<le> m' \<and> m' < m + length ms \<and> r' < ms ! (m' - m) \<and> r = sum_list (take (m' - m) ms) + r'"
proof (induction ms arbitrary: r m)
  case (Cons a ms)
  show ?case
  proof (cases "r < a")
    case True
    then show ?thesis using Cons.prems by auto
  next
    case False
    then have "Suc m \<le> m' \<and> m' < Suc m + length ms \<and> r' < ms ! (m' - Suc m) \<and>
        r - a = sum_list (take (m' - Suc m) ms) + r'"
      using Cons.prems by (intro Cons.IH) auto
    moreover from this have "m' - m = Suc (m' - Suc m)" by linarith
    ultimately show ?thesis using False by (simp, linarith)
  qed
qed simp

lemma days_in_months_facts:
  "length (days_in_months l) = 12" "sum_list (days_in_months l) = (if l then 366 else 365)"
  by (simp_all add: days_in_months_def)

lemma unix_to_date_spec:
  assumes "unix_to_date t = (y, m, d, h)" "t < 86400 * 2 ^ 32"
  shows "valid_date y m d" "day_number y m d = t div 86400" "h = t mod 86400 div 3600"
proof -
  obtain r e where r: "year_loop (t div 86400) 1970 = (y, r)"
    "month_loop (days_in_months (is_leap_year y)) r 1 = (m, e)" "d = Suc e" "h = t mod 86400 div 3600"
    using assms by (auto simp: unix_to_date_def Let_def u32_max_def split: prod.splits if_splits)
  have Y: "1970 \<le> y" "r < year_days y" "t div 86400 = days_before_year y + r"
    using year_loop_spec [OF r(1)] by (simp_all add: days_before_year_def)
  then have "r < sum_list (days_in_months (is_leap_year y))" by (simp add: days_in_months_facts year_days_def)
  from month_loop_spec [OF r(2) this] Y r(3,4)
  show "valid_date y m d" "day_number y m d = t div 86400" "h = t mod 86400 div 3600"
    by (auto simp: valid_date_def month_days_def day_number_def days_in_months_facts)
qed


section \<open>Zeller's congruence\<close>

definition leaps :: "nat \<Rightarrow> nat" where
  "leaps y = y div 4 + y div 400 - y div 100"

lemma leaps_Suc: "leaps (Suc y) = leaps y + of_bool (is_leap_year (Suc y))"
proof -
  define p q r where "p = (Suc y mod 4 = 0)" "q = (Suc y mod 100 = 0)" "r = (Suc y mod 400 = 0)"
  have "y div 100 \<le> y div 4" by (rule div_le_mono2) auto
  then have "y div 100 \<le> y div 4 + y div 400" by simp
  moreover have "q \<Longrightarrow> p" "r \<Longrightarrow> q" unfolding p_q_r_def by presburger+
  moreover have "Suc y div 4 = y div 4 + of_bool p" "Suc y div 100 = y div 100 + of_bool q"
    "Suc y div 400 = y div 400 + of_bool r"
    unfolding p_q_r_def by (simp_all add: div_Suc)
  moreover have "is_leap_year (Suc y) = (p \<and> \<not> q \<or> r)" by (simp add: is_leap_year_def p_q_r_def)
  ultimately show ?thesis unfolding leaps_def by (cases p; cases q; cases r) (simp_all add: Suc_diff_le)
qed

lemma days_before_year_closed:
  "1970 \<le> y \<Longrightarrow> days_before_year y + 365 * 1970 + leaps 1969 = 365 * y + leaps (y - 1)"
proof (induction y rule: dec_induct)
  case base
  then show ?case by (simp add: days_before_year_def)
next
  case (step y)
  have "leaps y = leaps (y - 1) + of_bool (is_leap_year y)"
    using leaps_Suc [of "y - 1"] step(1) by simp
  then show ?case using step by (simp add: days_before_year_Suc year_days_def)
qed

lemma leaps_century:
  assumes "k < 100"
  shows "leaps (100 * j + k) = 24 * j + k div 4 + j div 4"
proof -
  have "100 * j + k = k + 4 * (25 * j)" by simp
  then have "(100 * j + k) div 4 = 25 * j + k div 4" by (simp only: div_mult_self2)
  moreover have c: "(100 * j + k) div 100 = j" using assms by simp
  moreover have "(100 * j + k) div 400 = j div 4"
    using c div_mult2_eq [of "100 * j + k" 100 4] by simp
  ultimately show ?thesis by (simp add: leaps_def)
qed

lemma zeller_arith:
  assumes "N + 719527 = 36524 * j + 365 * k + a + b + (c :: nat)"
  shows "weekday N = (k + a + b + 5 * j + c) mod 7"
proof -
  have "N + 4 + 102789 * 7 = k + a + b + 5 * j + c + (5217 * j + 52 * k) * 7" using assms by simp
  then have "(N + 4 + 102789 * 7) mod 7 = (k + a + b + 5 * j + c + (5217 * j + 52 * k) * 7) mod 7" by (rule arg_cong)
  then show ?thesis by (simp only: weekday_def mod_mult_self1)
qed

text \<open>The weekday of a day of a year written as century and year of the century.\<close>

lemma weekday_century:
  assumes "N + 719527 = 365 * y + leaps y + c"
  shows "weekday N = (y mod 100 + y mod 100 div 4 + y div 100 div 4 + 5 * (y div 100) + c) mod 7"
proof (rule zeller_arith)
  have y: "y = 100 * (y div 100) + y mod 100" by simp
  have "leaps y = 24 * (y div 100) + y mod 100 div 4 + y div 100 div 4"
    using leaps_century [of "y mod 100" "y div 100"] by simp
  moreover have "365 * y = 36500 * (y div 100) + 365 * (y mod 100)" using y by linarith
  ultimately show "N + 719527 = 36524 * (y div 100) + 365 * (y mod 100) + y mod 100 div 4 + y div 100 div 4 + c"
    using assms by linarith
qed

lemma leaps_1969: "leaps 1969 = 477"
  by (simp add: leaps_def)

lemma day_number_from_march:
  assumes "1970 \<le> y"
  shows "days_before_year y + of_bool (is_leap_year y) + 719527 = 365 * y + leaps y"
  using days_before_year_closed [OF assms] leaps_Suc [of "y - 1"] assms by (simp add: leaps_1969)

text \<open>Days of the month and days before the month, as the source and as the table have them.\<close>

lemma month_cases:
  assumes "1 \<le> m" "m \<le> 12"
  shows "(m::nat) = 1 \<or> m = 2 \<or> m = 3 \<or> m = 4 \<or> m = 5 \<or> m = 6 \<or> m = 7 \<or> m = 8 \<or> m = 9 \<or> m = 10 \<or> m = 11 \<or> m = 12"
  using assms by presburger

definition century_sum :: "nat \<Rightarrow> nat" where
  "century_sum y = y mod 100 + y mod 100 div 4 + y div 100 div 4 + 5 * (y div 100)"

definition zeller_month :: "nat \<Rightarrow> nat" where
  "zeller_month m = (13 * ((if m < 3 then m + 12 else m) + 1)) div 5"

definition zeller_dow :: "nat \<Rightarrow> nat \<Rightarrow> nat" where
  "zeller_dow y m =
     ((month_days y m + zeller_month m + century_sum (if m < 3 then y - 1 else y)) mod 7 + 6) mod 7"

lemma source_month_days:
  "1 \<le> m \<Longrightarrow> m \<le> 12 \<Longrightarrow>
    (if m \<in> {1, 3, 5, 7, 8, 10, 12} then 31 else if m = 2 then (if is_leap_year y then 29 else 28) else 30)
     = month_days y m"
  by (drule (1) month_cases, elim disjE) (simp_all add: month_days_def days_in_months_def)

lemma last_sunday_of_month_zeller:
  assumes "1 \<le> m" "m \<le> 12"
  shows "last_sunday_of_month y m =
    (if zeller_dow y m = 0 then month_days y m else month_days y m - zeller_dow y m)"
  unfolding last_sunday_of_month_def Let_def source_month_days [OF assms] zeller_dow_def zeller_month_def century_sum_def
  by (simp only: add_ac)

lemma weekday_zeller_dow:
  assumes "N + 719527 = 365 * Y + leaps Y + c" "Y = (if m < 3 then y - 1 else y)"
    and "c mod 7 = (month_days y m + zeller_month m + 6) mod 7"
  shows "weekday N = zeller_dow y m"
proof -
  have "weekday N = (century_sum Y + c) mod 7"
    using weekday_century [OF assms(1)] by (simp only: century_sum_def)
  also have "\<dots> = (century_sum Y + (month_days y m + zeller_month m + 6)) mod 7"
    by (rule mod_add_cong) (simp_all only: assms(3))
  also have "\<dots> = zeller_dow y m"
    unfolding zeller_dow_def assms(2) [symmetric] mod_add_left_eq by (simp only: add_ac)
  finally show ?thesis .
qed

lemma zeller_weekday:
  assumes "1970 \<le> y" "1 \<le> m" "m \<le> 12"
  shows "weekday (day_number y m (month_days y m)) = zeller_dow y m"
proof (cases "m < 3")
  case True
  have "365 * y + leaps (y - 1) = 365 * (y - 1) + leaps (y - 1) + 365" using assms by simp
  then have e: "days_before_year y + 719527 = 365 * (y - 1) + leaps (y - 1) + 365"
    using days_before_year_closed [OF assms(1)] by (simp add: leaps_1969)
  have "m = 1 \<or> m = 2" using True assms by linarith
  then show ?thesis
  proof
    assume m: "m = 1"
    show ?thesis
      by (rule weekday_zeller_dow [where Y = "y - 1" and c = 395])
         (use e in \<open>simp_all add: m day_number_def month_days_def days_in_months_def zeller_month_def\<close>)
  next
    assume m: "m = 2"
    show ?thesis
      by (rule weekday_zeller_dow [where Y = "y - 1" and c = "395 + month_days y 2"])
         (use e in \<open>simp_all add: m day_number_def month_days_def days_in_months_def zeller_month_def\<close>)
  qed
next
  case False
  let ?c = "sum_list (take (m - 1) (days_in_months False)) + month_days y m - 1"
  have m: "m = 3 \<or> m = 4 \<or> m = 5 \<or> m = 6 \<or> m = 7 \<or> m = 8 \<or> m = 9 \<or> m = 10 \<or> m = 11 \<or> m = 12"
    using False assms(2,3) month_cases [of m] by auto
  show ?thesis
  proof (rule weekday_zeller_dow [where Y = y and c = ?c])
    show "day_number y m (month_days y m) + 719527 = 365 * y + leaps y + ?c"
      using m day_number_from_march [OF assms(1)]
      by (cases "is_leap_year y"; elim disjE) (simp_all add: day_number_def month_days_def days_in_months_def)
    show "?c mod 7 = (month_days y m + zeller_month m + 6) mod 7"
      using m by (elim disjE) (simp_all add: month_days_def days_in_months_def zeller_month_def)
    show "y = (if m < 3 then y - 1 else y)" using False by simp
  qed
qed


section \<open>Last Sundays and the summer interval\<close>

lemma day_number_minus: "j < d \<Longrightarrow> day_number y m (d - j) + j = day_number y m d"
  by (simp add: day_number_def)

lemma sunday_back: "n + w = n' \<Longrightarrow> (n' + 4) mod 7 = w \<Longrightarrow> (n + 4) mod 7 = (0::nat)"
  by presburger

lemma sundays_apart: "b = a + k \<Longrightarrow> 0 < k \<Longrightarrow> k < 7 \<Longrightarrow> (a + 4) mod 7 = (0::nat) \<Longrightarrow> (b + 4) mod 7 = 0 \<Longrightarrow> False"
  by presburger

lemma month_days_bounds: "1 \<le> m \<Longrightarrow> m \<le> 12 \<Longrightarrow> 28 \<le> month_days y m \<and> month_days y m \<le> 31"
  by (drule (1) month_cases, elim disjE) (simp_all add: month_days_def days_in_months_def)

lemma last_sunday_of_month_correct:
  assumes "1970 \<le> y" "1 \<le> m" "m \<le> 12"
  shows "is_last_sunday y m (last_sunday_of_month y m)"
proof -
  let ?dow = "zeller_dow y m" and ?n = "month_days y m"
  have b: "28 \<le> ?n" using month_days_bounds assms by blast
  have w: "?dow < 7" by (simp add: zeller_dow_def)
  have r: "last_sunday_of_month y m = ?n - ?dow"
    using last_sunday_of_month_zeller [OF assms(2,3)] by simp
  have "day_number y m (?n - ?dow) + ?dow = day_number y m ?n" using b w by (intro day_number_minus) simp
  moreover have "(day_number y m ?n + 4) mod 7 = ?dow" using zeller_weekday [OF assms] by (simp add: weekday_def)
  ultimately have "(day_number y m (?n - ?dow) + 4) mod 7 = 0" by (rule sunday_back)
  moreover have "1 \<le> ?n - ?dow" "?n < ?n - ?dow + 7" using b w by linarith+
  ultimately show ?thesis using assms by (simp add: r is_last_sunday_def valid_date_def weekday_def)
qed

lemma last_sunday_unique:
  assumes "is_last_sunday y m d" "is_last_sunday y m d'"
  shows "d = d'"
proof (rule ccontr)
  have *: False if "is_last_sunday y m a" "is_last_sunday y m b" "a < b" for a b
  proof -
    have "day_number y m b = day_number y m a + (b - a)"
      using that by (simp add: day_number_def is_last_sunday_def valid_date_def)
    moreover have "0 < b - a" "b - a < 7" using that by (auto simp: is_last_sunday_def valid_date_def)
    ultimately show False
      by (rule sundays_apart) (use that(1,2) in \<open>simp_all add: is_last_sunday_def weekday_def\<close>)
  qed
  assume "d \<noteq> d'"
  then show False using * assms by (meson linorder_neqE_nat)
qed

definition dst_start :: "nat \<Rightarrow> nat \<Rightarrow> nat" where "dst_start y d = day_number y 3 d * 86400 + 3600"
definition dst_end :: "nat \<Rightarrow> nat \<Rightarrow> nat" where "dst_end y d = day_number y 10 d * 86400 + 3600"

text \<open>The day of the year of a date, against the first of April, October and November.\<close>

lemma day_of_year_bounds:
  assumes "valid_date y m d"
  defines "doy \<equiv> day_number y m d - days_before_year y" and "l \<equiv> of_bool (is_leap_year y)"
  shows "m < 3 \<Longrightarrow> doy < 59 + l" "m = 3 \<Longrightarrow> doy + 1 = 59 + l + d" "3 < m \<Longrightarrow> m < 10 \<Longrightarrow> 90 + l \<le> doy"
    "m < 10 \<Longrightarrow> doy < 273 + l" "m = 10 \<Longrightarrow> doy + 1 = 273 + l + d" "10 < m \<Longrightarrow> 304 + l \<le> doy"
proof -
  have m: "1 \<le> m" "m \<le> 12" and d: "1 \<le> d" "d \<le> month_days y m" using assms(1) by (simp_all add: valid_date_def)
  have doy: "doy = sum_list (take (m - 1) (days_in_months (is_leap_year y))) + (d - 1)"
    by (simp add: doy_def day_number_def)
  show "m < 3 \<Longrightarrow> doy < 59 + l" "m = 3 \<Longrightarrow> doy + 1 = 59 + l + d" "3 < m \<Longrightarrow> m < 10 \<Longrightarrow> 90 + l \<le> doy"
    "m < 10 \<Longrightarrow> doy < 273 + l" "m = 10 \<Longrightarrow> doy + 1 = 273 + l + d" "10 < m \<Longrightarrow> 304 + l \<le> doy"
    using month_cases [OF m] d unfolding doy l_def
    by (cases "is_leap_year y"; elim disjE; simp add: month_days_def days_in_months_def)+
qed

lemma is_dst_active_in_year:
  assumes "unix_to_date t = (y, m, d, h)" "t < 86400 * 2 ^ 32"
    and "is_last_sunday y 3 ds" "is_last_sunday y 10 de"
  shows "is_dst_active t \<longleftrightarrow> dst_start y ds \<le> t \<and> t < dst_end y de"
proof -
  note u = unix_to_date_spec [OF assms(1,2)]
  have y: "1970 \<le> y" and m: "1 \<le> m" "m \<le> 12" using u(1) by (simp_all add: valid_date_def)
  have ls: "last_sunday_of_month y 3 = ds" "last_sunday_of_month y 10 = de"
    using last_sunday_unique [OF last_sunday_of_month_correct [OF y]] assms(3,4) by simp_all
  define s where "s = t mod 86400"
  define D l doy where "D = days_before_year y" "l = (of_bool (is_leap_year y) :: nat)" "doy = day_number y m d - days_before_year y"
  have dn: "day_number y m d = D + doy" by (simp add: D_l_doy_def day_number_def)
  have t: "t = (D + doy) * 86400 + s" using u(2) by (simp add: s_def flip: dn)
  have s: "s < 86400" by (simp add: s_def)
  have h: "1 \<le> h \<longleftrightarrow> 3600 \<le> s" using u(3) by (simp add: s_def [symmetric]) linarith
  have ds: "1 \<le> ds" "ds \<le> 31" "dst_start y ds + 86400 = (D + 59 + l + ds) * 86400 + 3600"
    and de: "1 \<le> de" "de \<le> 31" "dst_end y de + 86400 = (D + 273 + l + de) * 86400 + 3600"
    using assms(3,4) day_of_year_bounds(2) [of y 3 ds] day_of_year_bounds(5) [of y 10 de]
    by (auto simp: dst_start_def dst_end_def D_l_doy_def is_last_sunday_def valid_date_def month_days_def
        days_in_months_def day_number_def split: if_splits)
  note B = day_of_year_bounds [OF u(1), folded D_l_doy_def]
  have act: "is_dst_active t =
     (if 3 < m \<and> m < 10 then True else if m = 3 then ds < d \<or> (d = ds \<and> 1 \<le> h)
      else if m = 10 then d < de \<or> (d = de \<and> \<not> 1 \<le> h) else False)"
    by (simp add: is_dst_active_def assms(1) ls Let_def not_le)
  consider "m < 3" | "m = 3" | "3 < m" "m < 10" | "m = 10" | "10 < m" by linarith
  then show ?thesis
  proof cases
    case 1
    have "t < dst_start y ds" using B(1) [OF 1] ds s unfolding t by auto
    then show ?thesis using 1 by (simp add: act)
  next
    case 2
    have "doy < 273 + l" using 2 B(4) by simp
    then have "t < dst_end y de" using de s unfolding t by auto
    moreover have "dst_start y ds \<le> t \<longleftrightarrow> ds < d \<or> (d = ds \<and> 3600 \<le> s)"
      using B(2) [OF 2] ds s unfolding t by (cases d ds rule: linorder_cases) auto
    ultimately show ?thesis using 2 h by (simp add: act)
  next
    case 3
    have "dst_start y ds \<le> t" "t < dst_end y de" using B(3) [OF 3] B(4) [OF 3(2)] ds de s unfolding t by auto
    then show ?thesis using 3 by (simp add: act)
  next
    case 4
    have "dst_start y ds \<le> t" using B(5) [OF 4] ds de s unfolding t by auto
    moreover have "t < dst_end y de \<longleftrightarrow> d < de \<or> (d = de \<and> s < 3600)"
      using B(5) [OF 4] de s unfolding t by (cases d de rule: linorder_cases) auto
    ultimately show ?thesis using 4 h by (simp add: act not_le)
  next
    case 5
    have "dst_end y de \<le> t" using B(6) [OF 5] de s unfolding t by auto
    then show ?thesis using 5 by (simp add: act)
  qed
qed

lemma days_before_year_mono: "1970 \<le> a \<Longrightarrow> a \<le> b \<Longrightarrow> days_before_year a \<le> days_before_year b"
  unfolding days_before_year_def by (rule sum_mono2) auto

lemma day_number_in_year:
  assumes "valid_date y m d"
  shows "days_before_year y \<le> day_number y m d" "day_number y m d < days_before_year (Suc y)"
proof -
  show "days_before_year y \<le> day_number y m d" by (simp add: day_number_def)
  have m: "1 \<le> m" "m \<le> 12" "1 \<le> d" "d \<le> month_days y m" "1970 \<le> y"
    using assms by (simp_all add: valid_date_def)
  let ?ms = "days_in_months (is_leap_year y)"
  have "sum_list (take (m - 1) ?ms) + ?ms ! (m - 1) = sum_list (take (Suc (m - 1)) ?ms)"
    using m by (subst take_Suc_conv_app_nth) (simp_all add: days_in_months_facts)
  also have "\<dots> \<le> sum_list (take (Suc (m - 1)) ?ms) + sum_list (drop (Suc (m - 1)) ?ms)" by simp
  also have "\<dots> = year_days y"
    unfolding sum_list_append [symmetric] append_take_drop_id by (simp add: days_in_months_facts year_days_def)
  finally show "day_number y m d < days_before_year (Suc y)"
    using m by (simp add: day_number_def month_days_def days_before_year_Suc)
qed

lemma year_unique:
  assumes "1970 \<le> a" "1970 \<le> b" "days_before_year a \<le> n" "n < days_before_year (Suc a)"
    "days_before_year b \<le> n" "n < days_before_year (Suc b)"
  shows "a = b"
proof (rule ccontr)
  assume "a \<noteq> b"
  then have "Suc a \<le> b \<or> Suc b \<le> a" by linarith
  then show False using assms days_before_year_mono [of "Suc a" b] days_before_year_mono [of "Suc b" a] by auto
qed

section \<open>Properties\<close>

text \<open>
  C27: The calendar conversion terminates and is exact: up to the day count \<open>u32::MAX\<close>, a Unix
  time converts to a valid date whose day number, counted from the first of January 1970 with
  the leap rule, is the number of whole days, and to the hour of that day.
\<close>

theorem unix_to_date_exact:
  assumes "t < 86400 * 2 ^ 32"
  shows "case unix_to_date t of (y, m, d, h) \<Rightarrow>
    valid_date y m d \<and> day_number y m d = t div 86400 \<and> h = t mod 86400 div 3600 \<and> h < 24"
  using unix_to_date_spec [OF _ assms] by (cases "unix_to_date t") (simp add: less_mult_imp_div_less)

theorem unix_to_date_exact_witness:
  "case unix_to_date 1625140800 of (y, m, d, h) \<Rightarrow> valid_date y m d \<and> day_number y m d = 18809"
proof -
  have "(1625140800 :: nat) div 86400 = 18809" by simp
  then show ?thesis using unix_to_date_exact [of 1625140800] by auto
qed

text \<open>
  Zeller's congruence as the source uses it finds the last Sunday: for every month from
  1970 on, the computed day is a day of the month, its day number falls on a Sunday (counting
  from Thursday, the first of January 1970), and fewer than seven days of the month follow it.
\<close>

theorem last_sunday_of_month_is_last_sunday:
  assumes "1970 \<le> y" "1 \<le> m" "m \<le> 12"
  shows "is_last_sunday y m (last_sunday_of_month y m)"
  by (rule last_sunday_of_month_correct [OF assms])

theorem last_sunday_of_month_is_last_sunday_witness:
  "is_last_sunday 2021 3 28"
proof -
  have "last_sunday_of_month 2021 3 = 28" by (simp add: last_sunday_of_month_def Let_def)
  then show ?thesis using last_sunday_of_month_is_last_sunday [of 2021 3] by simp
qed

text \<open>
  C26: Summer time is active exactly in the intervals of the European rule: from 01:00 UTC on
  the last Sunday of March to 01:00 UTC on the last Sunday of October of one and the same year.
\<close>

theorem dst_active_iff_between_last_sundays:
  assumes "t < 86400 * 2 ^ 32"
  shows "is_dst_active t \<longleftrightarrow>
    (\<exists>y ds de. is_last_sunday y 3 ds \<and> is_last_sunday y 10 de \<and>
       day_number y 3 ds * 86400 + 3600 \<le> t \<and> t < day_number y 10 de * 86400 + 3600)"
proof -
  obtain y m d h where u: "unix_to_date t = (y, m, d, h)" by (cases "unix_to_date t")
  note s = unix_to_date_spec [OF u assms]
  have y: "1970 \<le> y" using s(1) by (simp add: valid_date_def)
  show ?thesis
  proof
    assume "is_dst_active t"
    then show "\<exists>y ds de. is_last_sunday y 3 ds \<and> is_last_sunday y 10 de \<and>
       day_number y 3 ds * 86400 + 3600 \<le> t \<and> t < day_number y 10 de * 86400 + 3600"
      using is_dst_active_in_year [OF u assms last_sunday_of_month_correct [OF y] last_sunday_of_month_correct [OF y]]
        last_sunday_of_month_correct [OF y, of 3] last_sunday_of_month_correct [OF y, of 10]
      unfolding dst_start_def dst_end_def by auto
  next
    assume "\<exists>y ds de. is_last_sunday y 3 ds \<and> is_last_sunday y 10 de \<and>
       day_number y 3 ds * 86400 + 3600 \<le> t \<and> t < day_number y 10 de * 86400 + 3600"
    then obtain y' ds de where w: "is_last_sunday y' 3 ds" "is_last_sunday y' 10 de"
      "day_number y' 3 ds * 86400 + 3600 \<le> t" "t < day_number y' 10 de * 86400 + 3600" by blast
    have v: "valid_date y' 3 ds" "valid_date y' 10 de" using w(1,2) by (simp_all add: is_last_sunday_def)
    have "day_number y' 3 ds \<le> t div 86400" "t div 86400 \<le> day_number y' 10 de" using w(3,4) by auto
    then have "days_before_year y' \<le> t div 86400" "t div 86400 < days_before_year (Suc y')"
      using day_number_in_year [OF v(1)] day_number_in_year [OF v(2)] by auto
    then have "y' = y"
      using year_unique [of y' y "t div 86400"] day_number_in_year [OF s(1)] s(2) y v
      by (auto simp: valid_date_def)
    then show "is_dst_active t"
      using is_dst_active_in_year [OF u assms, of ds de] w by (simp add: dst_start_def dst_end_def)
  qed
qed

theorem dst_active_iff_between_last_sundays_witness:
  "is_dst_active 1625140800"
proof -
  have D: "days_before_year 2021 = 18628"
    using days_before_year_closed [of 2021] by (simp add: leaps_def)
  have "is_last_sunday 2021 3 28" "is_last_sunday 2021 10 31"
    by (simp_all add: is_last_sunday_def valid_date_def month_days_def days_in_months_def is_leap_year_def
        day_number_def D weekday_def)
  moreover have "day_number 2021 3 28 * 86400 + 3600 \<le> 1625140800" "1625140800 < day_number 2021 10 31 * 86400 + 3600"
    by (simp_all add: day_number_def D days_in_months_def is_leap_year_def)
  ultimately show ?thesis using dst_active_iff_between_last_sundays [of 1625140800] by auto
qed

text \<open>
  Local time is in range for every time and offset, and without saturation it is the time
  of day of the shifted clock: hours, minutes and seconds add up to the local seconds modulo a day.
\<close>

theorem to_local_hms_in_range:
  "case to_local_hms tz t of (h, m, s) \<Rightarrow> h < 24 \<and> m < 60 \<and> s < 60 \<and>
    (int t \<le> i64_max \<and> i64_min \<le> int t + offset_secs tz t \<and> int t + offset_secs tz t \<le> i64_max \<longrightarrow>
      int (h * 3600 + m * 60 + s) = (int t + offset_secs tz t) mod 86400)"
proof -
  define l where "l = clamp_ord i64_min i64_max ((if int t \<le> i64_max then int t else i64_max) + offset_secs tz t)"
  define x where "x = nat (l mod 86400)"
  have lx: "l mod 86400 = int x" by (simp add: x_def)
  have x: "x < 86400" unfolding x_def by (simp add: nat_less_iff)
  have hms: "to_local_hms tz t = (x div 3600, x mod 3600 div 60, x mod 60)"
  proof -
    have "int x div 3600 = int (x div 3600)" "int x mod 3600 div 60 = int (x mod 3600 div 60)"
      "int x mod 60 = int (x mod 60)"
      by (simp_all add: zdiv_int zmod_int)
    then show ?thesis unfolding to_local_hms_def Let_def l_def [symmetric] lx by (simp only: nat_int)
  qed
  have "x div 3600 < 24" using x by (simp add: less_mult_imp_div_less)
  moreover have "x mod 3600 div 60 < 60" by (simp add: less_mult_imp_div_less)
  moreover have "x div 3600 * 3600 + x mod 3600 div 60 * 60 + x mod 60 = x"
  proof -
    have "x mod 60 = x mod 3600 mod 60" by (simp add: mod_mod_cancel)
    then show ?thesis by (metis div_mult_mod_eq add.assoc)
  qed
  ultimately show ?thesis
    using lx unfolding hms by (auto simp: l_def)
qed

theorem to_local_hms_in_range_witness:
  "case to_local_hms EET 0 of (h, m, s) \<Rightarrow> int (h * 3600 + m * 60 + s) = offset_secs EET 0 mod 86400"
proof -
  have "- 100000 \<le> offset_secs EET 0 \<and> offset_secs EET 0 \<le> 100000"
    by (simp add: offset_secs_def EET_def timezone_new_def const_defs)
  then show ?thesis using to_local_hms_in_range [of 0 EET] by (auto simp: i64_max_def i64_min_def split: prod.splits)
qed

end
