(* ===== verification/F32.thy ===== *)
theory F32
  imports Prelude Complex_Main "HOL-Library.Log_Nat"
begin

text \<open>
  The binary32 arithmetic of the language, as far as the firmware uses it: a sensor temperature
  is an \<open>i16\<close> divided by \<open>10.0\<close>, and both the display and the telemetry record multiply it by
  \<open>10.0\<close> again. A finite value is its exact rational; every operation computes exactly and
  rounds to nearest, ties to even, with 24 significant bits, gradual underflow below
  \<open>2 ^ (-126)\<close> and overflow to infinity. The two zeros are identified: no operation of the
  firmware tells them apart.
\<close>

section \<open>Values and rounding\<close>

datatype f32 = F32 rat | F32_Inf bool | F32_NaN

definition round_half_even :: "rat \<Rightarrow> int" where
  "round_half_even x =
     (let f = \<lfloor>x\<rfloor>; d = x - of_int f
      in if d < 1 / 2 then f else if 1 / 2 < d then f + 1 else if even f then f else f + 1)"

definition pow2 :: "int \<Rightarrow> rat" where
  "pow2 k = (if 0 \<le> k then 2 ^ nat k else 1 / 2 ^ nat (- k))"

definition ilog2_rat :: "rat \<Rightarrow> int" where
  "ilog2_rat x =
     (case quotient_of x of (p, q) \<Rightarrow>
        let k = int (floorlog 2 (nat p)) - int (floorlog 2 (nat q))
        in if pow2 k \<le> x then k else k - 1)"

definition f32_round :: "rat \<Rightarrow> f32" where
  "f32_round x =
     (if x = 0 then F32 0
      else let e = max (ilog2_rat \<bar>x\<bar> - 23) (- 149);
               v = of_int (round_half_even (x / pow2 e)) * pow2 e
           in if pow2 128 \<le> \<bar>v\<bar> then F32_Inf (v < 0) else F32 v)"

section \<open>Operations\<close>

definition f32_from_i16 :: "int \<Rightarrow> f32" where
  "f32_from_i16 i = F32 (of_int i)"

fun f32_neg :: "f32 \<Rightarrow> f32" where
  "f32_neg (F32 x) = F32 (- x)"
| "f32_neg (F32_Inf s) = F32_Inf (\<not> s)"
| "f32_neg F32_NaN = F32_NaN"

fun f32_add :: "f32 \<Rightarrow> f32 \<Rightarrow> f32" where
  "f32_add (F32 x) (F32 y) = f32_round (x + y)"
| "f32_add (F32_Inf s) (F32_Inf t) = (if s = t then F32_Inf s else F32_NaN)"
| "f32_add (F32_Inf s) (F32 y) = F32_Inf s"
| "f32_add (F32 x) (F32_Inf t) = F32_Inf t"
| "f32_add _ _ = F32_NaN"

definition f32_sub :: "f32 \<Rightarrow> f32 \<Rightarrow> f32" where
  "f32_sub a b = f32_add a (f32_neg b)"

fun f32_mul :: "f32 \<Rightarrow> f32 \<Rightarrow> f32" where
  "f32_mul (F32 x) (F32 y) = f32_round (x * y)"
| "f32_mul (F32_Inf s) (F32_Inf t) = F32_Inf (s \<noteq> t)"
| "f32_mul (F32_Inf s) (F32 y) = (if y = 0 then F32_NaN else F32_Inf (s \<noteq> (y < 0)))"
| "f32_mul (F32 x) (F32_Inf t) = (if x = 0 then F32_NaN else F32_Inf (t \<noteq> (x < 0)))"
| "f32_mul _ _ = F32_NaN"

fun f32_div :: "f32 \<Rightarrow> f32 \<Rightarrow> f32" where
  "f32_div (F32 x) (F32 y) =
     (if y = 0 then (if x = 0 then F32_NaN else F32_Inf (x < 0)) else f32_round (x / y))"
| "f32_div (F32_Inf s) (F32 y) = F32_Inf (s \<noteq> (y < 0))"
| "f32_div (F32 x) (F32_Inf t) = F32 0"
| "f32_div _ _ = F32_NaN"

text \<open>Comparisons are false when an operand is NaN.\<close>

fun f32_less :: "f32 \<Rightarrow> f32 \<Rightarrow> bool" where
  "f32_less (F32 x) (F32 y) = (x < y)"
| "f32_less (F32_Inf s) (F32_Inf t) = (s \<and> \<not> t)"
| "f32_less (F32_Inf s) (F32 y) = s"
| "f32_less (F32 x) (F32_Inf t) = (\<not> t)"
| "f32_less _ _ = False"

fun f32_eq :: "f32 \<Rightarrow> f32 \<Rightarrow> bool" where
  "f32_eq F32_NaN _ = False"
| "f32_eq _ F32_NaN = False"
| "f32_eq a b = (a = b)"

definition f32_ge :: "f32 \<Rightarrow> f32 \<Rightarrow> bool" where
  "f32_ge a b = (f32_less b a \<or> f32_eq a b)"

text \<open>The cast \<open>as i16\<close> truncates towards zero, saturates, and sends NaN to zero.\<close>

definition rat_trunc :: "rat \<Rightarrow> int" where
  "rat_trunc x = (if 0 \<le> x then \<lfloor>x\<rfloor> else - \<lfloor>- x\<rfloor>)"

fun f32_as_i16 :: "f32 \<Rightarrow> int" where
  "f32_as_i16 (F32 x) = clamp_ord (- 32768) 32767 (rat_trunc x)"
| "f32_as_i16 (F32_Inf s) = (if s then - 32768 else 32767)"
| "f32_as_i16 F32_NaN = 0"

section \<open>Rounding lemmas\<close>

lemma pow2_pos [simp]: "0 < pow2 k"
  by (simp add: pow2_def)

lemma pow2_nonzero [simp]: "pow2 k \<noteq> 0"
  using pow2_pos [of k] by linarith

lemma pow2_nonneg [simp]: "0 \<le> pow2 k"
  using pow2_pos [of k] by linarith

lemma pow2_powi: "pow2 k = 2 powi k"
  by (simp add: pow2_def power_int_def inverse_eq_divide power_one_over)

lemma pow2_add: "pow2 (a + b) = pow2 a * pow2 b"
  by (simp add: pow2_powi power_int_add)

lemma pow2_mono: "a \<le> b \<Longrightarrow> pow2 a \<le> pow2 b"
  by (simp add: pow2_powi power_int_increasing)

lemma pow2_less_iff [simp]: "pow2 a < pow2 b \<longleftrightarrow> a < b"
  by (metis linorder_not_le pow2_mono pow2_powi power_int_strict_increasing one_less_numeral_iff semiring_norm(76))

lemma pow2_nat: "0 \<le> k \<Longrightarrow> pow2 k = of_int (2 ^ nat k)"
  by (simp add: pow2_def)

lemma pow2_unique:
  assumes "pow2 k \<le> x" "x < pow2 (k + 1)" "pow2 l \<le> x" "x < pow2 (l + 1)"
  shows "k = l"
proof -
  have "pow2 k < pow2 (l + 1)" "pow2 l < pow2 (k + 1)" using assms by linarith+
  then show ?thesis by simp
qed

lemma floorlog_rat_bounds:
  assumes "0 < p"
  shows "pow2 (int (floorlog 2 (nat p)) - 1) \<le> of_int p"
    and "of_int p < pow2 (int (floorlog 2 (nat p)))"
proof -
  let ?n = "floorlog 2 (nat p)"
  have b: "2 ^ (?n - 1) \<le> nat p \<and> nat p < 2 ^ ?n"
    using assms by (intro floorlog_bounds) auto
  have n: "0 < ?n" using b assms by (cases ?n) auto
  have "(2::int) ^ (?n - 1) \<le> p" "p < 2 ^ ?n"
    using b assms by (simp_all add: le_nat_iff nat_less_iff)
  then have "(of_int (2 ^ (?n - 1)) :: rat) \<le> of_int p" "(of_int p :: rat) < of_int (2 ^ ?n)"
    by (simp_all only: of_int_le_iff of_int_less_iff)
  then show "pow2 (int ?n - 1) \<le> of_int p" "of_int p < pow2 (int ?n)"
    using n by (simp_all add: pow2_def nat_diff_distrib)
qed

lemma ilog2_rat_bounds:
  assumes "0 < x"
  shows "pow2 (ilog2_rat x) \<le> x \<and> x < pow2 (ilog2_rat x + 1)"
proof -
  obtain p q where pq: "quotient_of x = (p, q)" by (cases "quotient_of x")
  have x: "x = of_int p / of_int q" and q: "0 < q"
    using pq quotient_of_div quotient_of_denom_pos by blast+
  have p: "0 < p" using assms x q by (simp add: zero_less_divide_iff)
  let ?a = "int (floorlog 2 (nat p))" and ?b = "int (floorlog 2 (nat q))"
  note P = floorlog_rat_bounds [OF p] and Q = floorlog_rat_bounds [OF q]
  have qr: "(0 :: rat) < of_int q" using q by simp
  have hi: "x < pow2 (?a - ?b + 1)"
  proof -
    have "of_int p < pow2 (?a - ?b + 1) * pow2 (?b - 1)"
      using P(2) by (simp flip: pow2_add)
    also have "\<dots> \<le> pow2 (?a - ?b + 1) * of_int q" using Q(1) by (intro mult_left_mono) auto
    finally show ?thesis using qr by (simp add: x divide_less_eq)
  qed
  have lo: "pow2 (?a - ?b - 1) \<le> x"
  proof -
    have "pow2 (?a - ?b - 1) * of_int q \<le> pow2 (?a - ?b - 1) * pow2 ?b"
      using Q(2) by (intro mult_left_mono) auto
    also have "\<dots> = pow2 (?a - 1)" by (simp flip: pow2_add)
    also have "\<dots> \<le> of_int p" by (rule P(1))
    finally show ?thesis using qr by (simp add: x le_divide_eq)
  qed
  show ?thesis using hi lo by (auto simp: ilog2_rat_def pq Let_def)
qed

lemma ilog2_rat_unique:
  assumes "pow2 k \<le> x" "x < pow2 (k + 1)"
  shows "ilog2_rat x = k"
proof -
  have "0 < x" using assms(1) pow2_pos [of k] by linarith
  from ilog2_rat_bounds [OF this] assms show ?thesis by (metis pow2_unique)
qed

lemma round_half_even_of_int [simp]: "round_half_even (of_int n) = n"
  by (simp add: round_half_even_def)

lemma round_half_even_near_even:
  assumes "\<bar>x - of_int n\<bar> \<le> 1 / 2" "even n"
  shows "round_half_even x = n"
proof (cases "of_int n \<le> x")
  case True
  then have "\<lfloor>x\<rfloor> = n" using assms(1) by (intro floor_unique) auto
  with True assms show ?thesis by (auto simp: round_half_even_def Let_def)
next
  case False
  then have f: "\<lfloor>x\<rfloor> = n - 1" using assms(1) by (intro floor_unique) (auto simp: abs_if split: if_splits)
  with False assms show ?thesis by (auto simp: round_half_even_def Let_def abs_if split: if_splits)
qed

lemma round_half_even_error: "\<bar>of_int (round_half_even x) - x\<bar> \<le> 1 / 2"
proof -
  have l: "of_int \<lfloor>x\<rfloor> \<le> x" "x < of_int \<lfloor>x\<rfloor> + 1" by linarith+
  show ?thesis
    unfolding round_half_even_def Let_def abs_if using l by (simp del: of_int_floor_le; linarith)
qed

lemma round_half_even_lower: "of_int a \<le> x \<Longrightarrow> a \<le> round_half_even x"
  by (simp add: round_half_even_def Let_def le_floor_iff) linarith

lemma round_half_even_upper:
  assumes "x \<le> of_int b"
  shows "round_half_even x \<le> b"
proof (cases "x = of_int b")
  case False
  with assms have "\<lfloor>x\<rfloor> < b" by (simp add: floor_less_iff)
  then show ?thesis by (simp add: round_half_even_def Let_def)
qed simp

lemma round_half_even_minus: "round_half_even (- x) = - round_half_even x"
proof (cases "x = of_int \<lfloor>x\<rfloor>")
  case True
  then have "round_half_even x = \<lfloor>x\<rfloor>" "round_half_even (- x) = - \<lfloor>x\<rfloor>"
    by (metis round_half_even_of_int, metis True of_int_minus round_half_even_of_int)
  then show ?thesis by simp
next
  case False
  have l: "of_int \<lfloor>x\<rfloor> < x" "x < of_int \<lfloor>x\<rfloor> + 1"
    using False by (metis floor_correct order_le_less, linarith)
  have f: "\<lfloor>- x\<rfloor> = - \<lfloor>x\<rfloor> - 1" using l by (intro floor_unique) auto
  show ?thesis using l by (auto simp: round_half_even_def Let_def f)
qed

lemma f32_round_minus: "f32_round (- x) = f32_neg (f32_round x)"
proof -
  have "pow2 128 \<le> \<bar>v\<bar> \<Longrightarrow> (\<not> v < 0) = (0 < v)" for v
    using pow2_pos [of 128] by linarith
  then show ?thesis by (auto simp: f32_round_def Let_def round_half_even_minus)
qed

text \<open>Values with at most 24 significant bits are represented exactly.\<close>

lemma f32_round_exact:
  assumes n: "\<bar>n\<bar> < 2 ^ 24" and e: "- 149 \<le> e" "e \<le> 100"
  shows "f32_round (of_int n * pow2 e) = F32 (of_int n * pow2 e)"
proof (cases "n = 0")
  case True
  then show ?thesis by (simp add: f32_round_def)
next
  case False
  define x where "x = of_int n * pow2 e"
  have ax: "\<bar>x\<bar> = of_int \<bar>n\<bar> * pow2 e" by (simp add: x_def abs_mult)
  have x0: "x \<noteq> 0" "0 < \<bar>x\<bar>" using False by (simp_all add: x_def)
  have "(of_int \<bar>n\<bar> :: rat) < of_int (2 ^ 24)" using n by (simp only: of_int_less_iff)
  then have "\<bar>x\<bar> < pow2 24 * pow2 e"
    unfolding ax by (intro mult_strict_right_mono) (simp_all add: pow2_def)
  then have hi: "\<bar>x\<bar> < pow2 (24 + e)" by (simp add: pow2_add)
  have "pow2 (ilog2_rat \<bar>x\<bar>) < pow2 (24 + e)"
    using ilog2_rat_bounds [OF x0(2)] hi by linarith
  then have k: "ilog2_rat \<bar>x\<bar> - 23 \<le> e" by simp
  define f where "f = max (ilog2_rat \<bar>x\<bar> - 23) (- 149)"
  have f: "f \<le> e" using k e by (simp add: f_def)
  have "x / pow2 f = of_int n * pow2 (e - f)"
    using pow2_add [of f "e - f"] by (simp add: x_def field_simps)
  also have "\<dots> = of_int (n * 2 ^ nat (e - f))" using f by (simp add: pow2_nat)
  finally have xf: "x / pow2 f = of_int (n * 2 ^ nat (e - f))" .
  have "of_int (round_half_even (x / pow2 f)) * pow2 f = x / pow2 f * pow2 f"
    by (simp only: xf round_half_even_of_int)
  then have "of_int (round_half_even (x / pow2 f)) * pow2 f = x" by simp
  moreover have "\<bar>x\<bar> < pow2 128" using hi pow2_mono [of "24 + e" 128] e by simp
  ultimately show ?thesis using x0 by (simp add: f32_round_def f_def Let_def x_def [symmetric])
qed

text \<open>
  Ten is \<open>2 ^ 3 + 2\<close>, so a division by ten followed by a multiplication by ten is exact in
  binary32 although the quotient is rounded: the error of the product is at most half a unit
  in the last place of an even significand.
\<close>

lemma f32_times_ten_step:
  assumes N: "32 dvd N" and Q: "Q = round_half_even (of_int (m * N) / 10)" and d: "d = 8 \<or> d = 16"
  shows "round_half_even (of_int (10 * Q) / of_int d) = m * N div d"
proof -
  obtain c where c: "N = 32 * c" using N by blast
  have "\<bar>of_int Q - of_int (m * N) / 10\<bar> \<le> (1 / 2 :: rat)"
    unfolding Q by (rule round_half_even_error)
  then have "\<bar>of_int (10 * Q - m * N)\<bar> \<le> (of_int 5 :: rat)" by (simp add: abs_if field_simps split: if_splits)
  then have "\<bar>10 * Q - m * N\<bar> \<le> 5" by (simp only: of_int_abs [symmetric] of_int_le_iff)
  moreover have "m * N = 2 * (16 * m * c)" by (simp add: c)
  ultimately have four: "\<bar>10 * Q - m * N\<bar> \<le> 4" by presburger
  obtain w where w: "m * N = 2 * d * w" using d c by (auto intro: that [of "m * c * 2"] that [of "m * c"])
  then have q: "m * N div d = 2 * w" using d by auto
  have "\<bar>of_int (10 * Q) - of_int (m * N)\<bar> \<le> (of_int 4 :: rat)"
    using four by (simp only: of_int_abs [symmetric] of_int_diff [symmetric] of_int_le_iff)
  then have "\<bar>of_int (10 * Q) / of_int d - of_int (2 * w)\<bar> \<le> (1 / 2 :: rat)"
    unfolding w using d by (auto simp: abs_if field_simps split: if_splits)
  then show ?thesis unfolding q by (rule round_half_even_near_even) simp
qed

lemma f32_tenth_exponent:
  assumes m: "0 < m" "m \<le> 32768" and k: "k = ilog2_rat (of_int m / 10)"
  shows "- 4 \<le> k" "k \<le> 11"
    and "pow2 k \<le> of_int m / 10" "of_int m / 10 < pow2 (k + 1)"
proof -
  have mr: "(1 :: rat) \<le> of_int m" "of_int m \<le> (32768 :: rat)"
    using m by (simp_all only: of_int_1_le_iff of_int_le_numeral_iff)
  have "0 < (of_int m / 10 :: rat)" using m by simp
  from ilog2_rat_bounds [OF this]
  show kb: "pow2 k \<le> of_int m / 10" "of_int m / 10 < pow2 (k + 1)" by (simp_all add: k)
  have "pow2 (- 4) < pow2 (k + 1)" using kb(2) mr(1) by (simp add: pow2_def [of "- 4"])
  moreover have "pow2 k < pow2 12" using kb(1) mr(2) by (simp add: pow2_def [of 12])
  ultimately show "- 4 \<le> k" "k \<le> 11" by simp_all
qed

lemma pow2_cancel: "pow2 (a - b) * pow2 (b - a) = 1"
  by (simp add: pow2_def [of 0] flip: pow2_add)

text \<open>The quotient: its significand \<open>Q\<close> lies in the binade of \<open>m / 10\<close>.\<close>

lemma f32_tenth_quotient:
  assumes m: "0 < m" "m \<le> 32768" and k: "k = ilog2_rat (of_int m / 10)"
    and Q: "Q = round_half_even (of_int (m * 2 ^ nat (23 - k)) / 10)"
  shows "2 ^ 23 \<le> Q" "Q \<le> 2 ^ 24"
    and "f32_div (F32 (of_int m)) (F32 10) = F32 (of_int Q * pow2 (k - 23))"
proof -
  note kb = f32_tenth_exponent [OF m k]
  let ?x = "of_int m / 10 :: rat"
  have N: "pow2 (23 - k) = of_int (2 ^ nat (23 - k))" using kb by (simp add: pow2_nat)
  have xN: "?x / pow2 (k - 23) = of_int (m * 2 ^ nat (23 - k)) / 10"
    using pow2_cancel [of k 23] unfolding of_int_mult N [symmetric] by (simp add: field_simps)
  have "pow2 (k - 23) * pow2 23 \<le> ?x" "?x \<le> pow2 (k - 23) * pow2 24"
    using kb by (simp_all add: add.commute flip: pow2_add)
  then have "pow2 23 \<le> ?x / pow2 (k - 23)" "?x / pow2 (k - 23) \<le> pow2 24"
    by (simp_all add: pos_le_divide_eq pos_divide_le_eq mult.commute)
  then have y: "of_int (2 ^ 23) \<le> of_int (m * 2 ^ nat (23 - k)) / (10 :: rat)"
      "of_int (m * 2 ^ nat (23 - k)) / (10 :: rat) \<le> of_int (2 ^ 24)"
    unfolding xN by (simp_all add: pow2_def)
  show Qb: "2 ^ 23 \<le> Q" "Q \<le> 2 ^ 24"
    unfolding Q by (rule round_half_even_lower [OF y(1)], rule round_half_even_upper [OF y(2)])
  have "(of_int Q :: rat) \<le> of_int (2 ^ 24)" using Qb(2) by (simp only: of_int_le_iff)
  then have "of_int Q * pow2 (k - 23) \<le> pow2 24 * pow2 (k - 23)"
    by (intro mult_right_mono; simp add: pow2_def)
  also have "\<dots> < pow2 128" using kb by (simp flip: pow2_add)
  finally have "\<bar>of_int Q * pow2 (k - 23)\<bar> < pow2 128" using Qb(1) by simp
  moreover have "round_half_even (?x / pow2 (k - 23)) = Q" by (simp only: xN Q)
  moreover have "max (k - 23) (- 149) = k - 23" using kb by simp
  ultimately have "f32_round ?x = F32 (of_int Q * pow2 (k - 23))"
    using m by (simp add: f32_round_def Let_def k [symmetric])
  then show "f32_div (F32 (of_int m)) (F32 10) = F32 (of_int Q * pow2 (k - 23))" by simp
qed

text \<open>The product: whichever of the two possible binades it lies in, it rounds to \<open>m\<close>.\<close>

lemma f32_ten_product:
  assumes m: "0 < m" "m \<le> 32768" and k: "- 4 \<le> k" "k \<le> 11"
    and Q: "Q = round_half_even (of_int (m * 2 ^ nat (23 - k)) / 10)" "2 ^ 23 \<le> Q" "Q \<le> 2 ^ 24"
  shows "f32_round (of_int Q * pow2 (k - 23) * 10) = F32 (of_int m)"
proof -
  let ?N = "2 ^ nat (23 - k) :: int"
  let ?p = "of_int Q * pow2 (k - 23) * 10 :: rat"
  have "(of_int (2 ^ 23) :: rat) \<le> of_int Q" "of_int Q \<le> (of_int (2 ^ 24) :: rat)"
    using Q(2,3) by (simp_all only: of_int_le_iff)
  then have "pow2 23 * pow2 (k - 23) * 8 \<le> ?p" "?p < pow2 24 * pow2 (k - 23) * 16"
    using pow2_pos [of "k - 23"] by (simp_all add: pow2_def [of 23] pow2_def [of 24])
  then have pb: "pow2 (k + 3) \<le> ?p" "?p < pow2 (k + 5)"
    using pow2_add [of k 3] pow2_add [of "k + 1" 4]
    by (simp_all add: pow2_def [of 3] pow2_def [of 4] add.commute flip: pow2_add)
  then have p0: "0 < ?p" using pow2_pos [of "k + 3"] by linarith
  define l where "l = ilog2_rat ?p"
  have "pow2 (k + 3) < pow2 (l + 1)" "pow2 l < pow2 (k + 5)"
    using ilog2_rat_bounds [OF p0] pb unfolding l_def by linarith+
  then have l: "l = k + 3 \<or> l = k + 4" by simp linarith
  define d :: int where "d = 2 ^ nat (l - k)"
  have d: "d = 8 \<or> d = 16" using l by (auto simp: d_def)
  have ld: "pow2 (l - 23) = of_int d * pow2 (k - 23)"
    using l pow2_add [of "l - k" "k - 23"] by (auto simp: d_def pow2_nat)
  have "nat (23 - k) = 5 + nat (18 - k)" using k by simp
  then have N32: "32 dvd ?N" by (simp add: power_add)
  have "?p / pow2 (l - 23) = of_int (10 * Q) / of_int d" using d by (simp add: ld)
  then have r: "round_half_even (?p / pow2 (l - 23)) = m * ?N div d"
    using f32_times_ten_step [OF N32 Q(1) d] by simp
  have "d dvd 32" using d by auto
  then have "d dvd m * ?N" using N32 by (meson dvd_mult dvd_trans)
  then have "of_int (m * ?N div d) * pow2 (l - 23) = of_int m * (pow2 (23 - k) * pow2 (k - 23))"
    using d k by (auto simp: ld of_int_div pow2_nat)
  then have v: "of_int (m * ?N div d) * pow2 (l - 23) = of_int m" by (simp add: pow2_cancel)
  have "(of_int m :: rat) \<le> 32768" using m by (simp only: of_int_le_numeral_iff)
  then have "(of_int m :: rat) < pow2 128" by (simp add: pow2_def)
  moreover have "max (l - 23) (- 149) = l - 23" using k l by auto
  ultimately show ?thesis
    using p0 m Q(2) by (simp add: f32_round_def Let_def l_def [symmetric] r v)
qed

lemma f32_tenth_times_ten_pos:
  assumes m: "0 < m" "m \<le> 32768"
  shows "f32_mul (f32_div (F32 (of_int m)) (F32 10)) (F32 10) = F32 (of_int m)"
proof -
  note q = f32_tenth_quotient [OF m refl refl]
  show ?thesis
    unfolding q(3) f32_mul.simps
    by (rule f32_ten_product [OF m _ _ refl q(1,2)]) (use f32_tenth_exponent [OF m refl] in auto)
qed

lemma f32_tenth_times_ten:
  assumes "- 32768 \<le> m" "m \<le> 32767"
  shows "f32_mul (f32_div (f32_from_i16 m) (F32 10)) (F32 10) = F32 (of_int m)"
proof (cases m "0 :: int" rule: linorder_cases)
  case less
  have pos: "f32_mul (f32_div (F32 (of_int (- m))) (F32 10)) (F32 10) = F32 (of_int (- m))"
    using less assms by (intro f32_tenth_times_ten_pos) auto
  then obtain q where q: "f32_round (of_int (- m) / 10) = F32 q"
    by (cases "f32_round (of_int (- m) / 10)") auto
  with pos have "f32_round (q * 10) = F32 (of_int (- m))" by simp
  then have "f32_round (- q * 10) = F32 (of_int m)"
    using f32_round_minus [of "q * 10"] by simp
  moreover have "f32_round (of_int m / 10) = F32 (- q)"
    using q f32_round_minus [of "of_int (- m) / 10"] by simp
  ultimately show ?thesis by (simp add: f32_from_i16_def)
next
  case equal
  then show ?thesis by (simp add: f32_from_i16_def f32_round_def)
next
  case greater
  then show ?thesis using f32_tenth_times_ten_pos [of m] assms by (simp add: f32_from_i16_def)
qed

lemma f32_add_half_exact:
  assumes "\<bar>n\<bar> < 2 ^ 23"
  shows "f32_round (of_int n + 1 / 2) = F32 (of_int n + 1 / 2)"
    and "f32_round (of_int n - 1 / 2) = F32 (of_int n - 1 / 2)"
  using f32_round_exact [of "2 * n + 1" "- 1"] f32_round_exact [of "2 * n - 1" "- 1"] assms
  by (simp_all add: pow2_def field_simps)

lemma rat_trunc_half:
  "0 \<le> n \<Longrightarrow> rat_trunc (of_int n + 1 / 2) = n"
  "n \<le> 0 \<Longrightarrow> rat_trunc (of_int n - 1 / 2) = n"
proof -
  assume "0 \<le> n"
  then show "rat_trunc (of_int n + 1 / 2) = n"
    by (auto simp: rat_trunc_def intro!: floor_unique)
next
  assume "n \<le> 0"
  then have "\<lfloor>- (of_int n - 1 / 2 :: rat)\<rfloor> = - n" by (intro floor_unique) auto
  with \<open>n \<le> 0\<close> show "rat_trunc (of_int n - 1 / 2) = n"
    by (auto simp: rat_trunc_def)
qed

lemma rat_trunc_of_int [simp]: "rat_trunc (of_int n) = n"
  by (simp add: rat_trunc_def)

end
