(* ===== verification/Rubicson.thy ===== *)
theory Rubicson
  imports F32
begin

text \<open>
  The Rubicson sensor protocol decoder of \<open>crates/rubicson/src/lib.rs\<close>: gap timings to bits,
  bits to rows of a bit buffer, a row to a reading guarded by a CRC-8. Slice and array indexing
  panics of the source are the value \<open>None\<close> of an outer option, so that the absence of panics
  is a theorem. The encoder of the crate's own tests is modelled too and gives the round trip.
\<close>

section \<open>Data\<close>

record RubicsonReading =
  rr_id :: u8
  rr_channel :: u8
  rr_battery_ok :: bool
  rr_temperature_c :: f32
  rr_crc_ok :: bool

datatype DecodeError = InvalidLength | CrcMismatch

datatype BreakResetIgnore = Break | Reset | Ignore

definition BITS_IN_PACKET :: nat where [const_defs]: "BITS_IN_PACKET = 36"
definition BYTES_IN_PACKET :: nat where [const_defs]: "BYTES_IN_PACKET = (BITS_IN_PACKET + 7) div 8"
definition MAX_PACKETS :: nat where [const_defs]: "MAX_PACKETS = 12"

lemma BYTES_IN_PACKET_eq [simp]: "BYTES_IN_PACKET = 5"
  by (simp add: const_defs)

section \<open>Operations\<close>

definition sign_extend_nth_bit :: "u16 \<Rightarrow> nat \<Rightarrow> u16" where
  "sign_extend_nth_bit value n = signed_drop_bit (16 - n) (push_bit (16 - n) value)"

definition decode_gap :: "u32 \<Rightarrow> BreakResetIgnore + u8" where
  "decode_gap gap =
     (if 4500 < gap then Inl Reset
      else if 2500 < gap then Inl Break
      else if 1500 < gap then Inr 1
      else if 750 < gap then Inr 0
      else Inl Ignore)"

definition add_bit :: "u8 list \<Rightarrow> nat \<Rightarrow> u8 \<Rightarrow> u8 list" where
  "add_bit buf index val =
     (if length buf \<le> index div 8 then buf
      else if val \<noteq> 0
      then buf[index div 8 := buf ! (index div 8) OR push_bit (7 - index mod 8) 1]
      else buf)"

definition crc8_bit :: "u8 \<Rightarrow> u8 \<Rightarrow> u8" where
  "crc8_bit poly crc =
     (if crc AND 0x80 \<noteq> 0 then push_bit 1 crc XOR poly else push_bit 1 crc)"

definition crc8_byte :: "u8 \<Rightarrow> u8 \<Rightarrow> u8 \<Rightarrow> u8" where
  "crc8_byte poly crc byte = (crc8_bit poly ^^ 8) (crc XOR byte)"

fun calculate_crc8 :: "u8 list \<Rightarrow> u8 \<Rightarrow> u8 \<Rightarrow> u8" where
  "calculate_crc8 [] poly crc = crc"
| "calculate_crc8 (byte # data) poly crc = calculate_crc8 data poly (crc8_byte poly crc byte)"

text \<open>The five bytes over which \<open>decode_rubicson\<close> computes the CRC.\<close>

definition crc_buf :: "u8 \<Rightarrow> u8 \<Rightarrow> u8 \<Rightarrow> u8 \<Rightarrow> u8 \<Rightarrow> u8 list" where
  "crc_buf b0 b1 b2 b3 b4 =
     [b0, b1, b2, b3 AND 0xF0, push_bit 4 (b3 AND 0x0F) OR drop_bit 4 (b4 AND 0xF0)]"

definition temp_raw_of :: "u8 \<Rightarrow> u8 \<Rightarrow> u16" where
  "temp_raw_of b1 b2 =
     sign_extend_nth_bit (push_bit 8 (ucast (b1 AND 0x0F)) OR ucast b2) 12"

fun decode_rubicson :: "u8 list \<Rightarrow> (DecodeError + RubicsonReading) option" where
  "decode_rubicson (b0 # b1 # b2 # b3 # b4 # _) =
     Some (if calculate_crc8 (crc_buf b0 b1 b2 b3 b4) 0x31 0x6c \<noteq> 0 then Inl CrcMismatch
           else Inr \<lparr>rr_id = b0,
                     rr_channel = drop_bit 4 (b1 AND 0x30) + 1,
                     rr_battery_ok = (b1 AND 0x80 \<noteq> 0),
                     rr_temperature_c =
                       f32_div (f32_from_i16 (sint (temp_raw_of b1 b2))) (F32 10),
                     rr_crc_ok = True\<rparr>)"
| "decode_rubicson _ = None"

text \<open>Slices \<open>buf[a..b]\<close>, and writing a slice back.\<close>

definition slice_range :: "'a list \<Rightarrow> nat \<Rightarrow> nat \<Rightarrow> 'a list option" where
  "slice_range buf a b = (if a \<le> b \<and> b \<le> length buf then Some (take (b - a) (drop a buf)) else None)"

definition write_slice :: "'a list \<Rightarrow> nat \<Rightarrow> 'a list \<Rightarrow> 'a list" where
  "write_slice buf a s = take a buf @ s @ drop (a + length s) buf"

type_synonym decode_result = "(u8 list + nat \<times> RubicsonReading) option"

text \<open>The loop of \<open>decode_gaps_iter\<close> over the gaps, and the attempt after it.\<close>

fun decode_gaps_loop :: "u32 list \<Rightarrow> u8 list \<Rightarrow> nat \<Rightarrow> nat \<Rightarrow> decode_result" where
  "decode_gaps_loop [] bit_buffer bit_index bit_buffer_row =
     (if bit_index = BITS_IN_PACKET
      then let row_start_byte = bit_buffer_row * BYTES_IN_PACKET in
        Option.bind (slice_range bit_buffer row_start_byte (row_start_byte + BYTES_IN_PACKET)) (\<lambda>row_slice.
        Option.bind (decode_rubicson row_slice) (\<lambda>r.
        case r of Inr reading \<Rightarrow> Some (Inr (bit_buffer_row, reading))
                | Inl _ \<Rightarrow> Some (Inl bit_buffer)))
      else Some (Inl bit_buffer))"
| "decode_gaps_loop (gap # pulses) bit_buffer bit_index bit_buffer_row =
     (if MAX_PACKETS \<le> bit_buffer_row then Some (Inl bit_buffer)
      else let row_start_byte = bit_buffer_row * BYTES_IN_PACKET;
               row = slice_range bit_buffer row_start_byte (row_start_byte + BYTES_IN_PACKET) in
        case decode_gap gap of
          Inr b \<Rightarrow>
            Option.bind row (\<lambda>row_slice.
            decode_gaps_loop pulses
              (write_slice bit_buffer row_start_byte (add_bit row_slice bit_index b))
              (bit_index + 1) bit_buffer_row)
        | Inl Ignore \<Rightarrow> decode_gaps_loop pulses bit_buffer bit_index bit_buffer_row
        | Inl Break \<Rightarrow>
            Option.bind row (\<lambda>row_slice.
            Option.bind (decode_rubicson row_slice) (\<lambda>r.
            case r of Inr reading \<Rightarrow> Some (Inr (bit_buffer_row, reading))
                    | Inl _ \<Rightarrow> decode_gaps_loop pulses bit_buffer 0 (bit_buffer_row + 1)))
        | Inl Reset \<Rightarrow> Some (Inl bit_buffer))"

definition decode_gaps_iter :: "u32 list \<Rightarrow> decode_result" where
  "decode_gaps_iter pulses =
     decode_gaps_loop pulses (replicate (BYTES_IN_PACKET * MAX_PACKETS) 0) 0 0"

definition decode_gaps :: "u32 list \<Rightarrow> decode_result" where
  "decode_gaps pulses = decode_gaps_iter pulses"

text \<open>The sensor side, from the crate's tests: a payload with its CRC, and its gap timings.\<close>

definition build_payload :: "u8 \<Rightarrow> u8 \<Rightarrow> bool \<Rightarrow> u16 \<Rightarrow> u8 list" where
  "build_payload i channel battery_ok temp_raw =
     (let b1 = (if battery_ok then 0x80 else 0) OR push_bit 4 (channel - 1)
               OR ucast (drop_bit 8 temp_raw AND 0x0F);
          b2 = ucast (temp_raw AND 0xFF);
          crc_val = calculate_crc8 [i, b1, b2, 0xF0] 0x31 0x6c
      in [i, b1, b2, 0xF0 OR drop_bit 4 (crc_val AND 0xF0), push_bit 4 (crc_val AND 0x0F)])"

definition payload_bits :: "u8 list \<Rightarrow> bool list" where
  "payload_bits payload = take 36 (concat (map (\<lambda>b. map (bit b) (rev [0..<8])) payload))"

definition payload_to_gaps :: "u8 list \<Rightarrow> u32 list" where
  "payload_to_gaps payload = map (\<lambda>b. if b then 2000 else 1000) (payload_bits payload) @ [4000]"

section \<open>The CRC\<close>

lemma crc8_bit_0 [simp]: "crc8_bit poly 0 = 0"
  by (simp add: crc8_bit_def)

lemma crc8_bits_0 [simp]: "(crc8_bit poly ^^ n) 0 = 0"
  by (induction n) simp_all

lemma calculate_crc8_append:
  "calculate_crc8 (xs @ ys) poly crc = calculate_crc8 ys poly (calculate_crc8 xs poly crc)"
  by (induction xs arbitrary: crc) simp_all

lemma calculate_crc8_self: "calculate_crc8 (data @ [calculate_crc8 data poly crc]) poly crc = 0"
  by (simp add: calculate_crc8_append crc8_byte_def)

lemma bit_times_2_u8: "bit ((c :: u8) * 2) n \<longleftrightarrow> 0 < n \<and> n < 8 \<and> bit c (n - 1)"
  by (auto simp: mult.commute [of c] bit_double_iff dest: bit_imp_le_length)

lemma bit_crc8_bit:
  "bit (crc8_bit poly c) n \<longleftrightarrow> n < 8 \<and> ((0 < n \<and> bit c (n - 1)) \<noteq> (bit c 7 \<and> bit poly n))"
  by (auto simp: crc8_bit_def top_bit_u8 bit_xor_iff bit_times_2_u8 dest: bit_imp_le_length)

lemma crc8_bit_inj:
  assumes "odd poly" and eq: "crc8_bit poly a = crc8_bit poly b"
  shows "a = b"
proof -
  have e: "bit (crc8_bit poly a) n = bit (crc8_bit poly b) n" for n using eq by simp
  have "bit poly 0" using assms(1) by (simp add: bit_0)
  then have top: "bit a 7 = bit b 7" using e [of 0] by (simp only: bit_crc8_bit) simp
  then have "bit a n = bit b n" if "n < 7" for n using that e [of "Suc n"] by (auto simp: bit_crc8_bit)
  then show ?thesis using top by (intro bit_word_eqI) (auto simp: less_Suc_eq numeral_eq_Suc)
qed

lemma crc8_bits_inj: "odd poly \<Longrightarrow> (crc8_bit poly ^^ n) a = (crc8_bit poly ^^ n) b \<Longrightarrow> a = b"
  by (induction n) (auto dest: crc8_bit_inj)

lemma xor_cancel_u8 [simp]: "(a :: u8) XOR x = a XOR y \<longleftrightarrow> x = y"
  by (metis xor.left_neutral xor.assoc xor_self_eq)

lemma crc8_byte_inj:
  assumes "odd poly"
  shows "crc8_byte poly crc a = crc8_byte poly crc b \<longleftrightarrow> a = b"
    and "crc8_byte poly c a = crc8_byte poly d a \<longleftrightarrow> c = d"
proof -
  have inj: "(crc8_bit poly ^^ 8) x = (crc8_bit poly ^^ 8) y \<longleftrightarrow> x = y" for x y
    using crc8_bits_inj [OF assms] by blast
  show "crc8_byte poly crc a = crc8_byte poly crc b \<longleftrightarrow> a = b" by (simp add: crc8_byte_def inj)
  show "crc8_byte poly c a = crc8_byte poly d a \<longleftrightarrow> c = d"
    by (simp add: crc8_byte_def inj xor.commute [of _ a])
qed

lemma calculate_crc8_inj:
  "odd poly \<Longrightarrow> calculate_crc8 data poly c = calculate_crc8 data poly d \<Longrightarrow> c = d"
  by (induction data arbitrary: c d) (simp, metis calculate_crc8.simps(2) crc8_byte_inj(2))

text \<open>A change confined to one byte changes the CRC.\<close>

lemma calculate_crc8_one_byte:
  assumes "odd poly" and "calculate_crc8 (xs @ a # ys) poly c = calculate_crc8 (xs @ b # ys) poly c"
  shows "a = b"
proof -
  have "crc8_byte poly (calculate_crc8 xs poly c) a = crc8_byte poly (calculate_crc8 xs poly c) b"
    using assms(2) unfolding calculate_crc8_append calculate_crc8.simps
    by (rule calculate_crc8_inj [OF assms(1)])
  then show ?thesis by (simp only: crc8_byte_inj(1) [OF assms(1)])
qed

section \<open>Bit rows\<close>

lemma length_add_bit [simp]: "length (add_bit buf i v) = length buf"
  by (simp add: add_bit_def)

definition row_bit :: "u8 list \<Rightarrow> nat \<Rightarrow> bool" where
  "row_bit row j = bit (row ! (j div 8)) (7 - j mod 8)"

lemma row_bit_add_bit:
  assumes "j < 8 * length row" "i < 8 * length row"
  shows "row_bit (add_bit row i v) j = (row_bit row j \<or> (j = i \<and> v \<noteq> 0))"
proof (cases "j div 8 = i div 8")
  case False
  then show ?thesis by (auto simp: row_bit_def add_bit_def)
next
  case True
  have "i div 8 < length row" using assms by auto
  moreover have "(7 - i mod 8 = 7 - j mod 8) = (j = i)"
  proof -
    have "i mod 8 < 8" "j mod 8 < 8" by simp_all
    then have "(7 - i mod 8 = 7 - j mod 8) = (i mod 8 = j mod 8)" by linarith
    then show ?thesis using True by (metis div_mult_mod_eq)
  qed
  ultimately show ?thesis using True
    by (auto simp: row_bit_def add_bit_def bit_or_iff bit_exp_iff)
qed

lemma row_eqI:
  assumes "length a = length b" "\<And>j. j < 8 * length b \<Longrightarrow> row_bit a j = row_bit b j"
  shows "a = b"
proof (rule nth_equalityI)
  show "length a = length b" by (rule assms(1))
  fix k assume k: "k < length a"
  show "a ! k = b ! k"
  proof (rule bit_word_eqI)
    fix n assume "n < LENGTH(8)"
    then have "7 - n < 8" "n = 7 - (7 - n)" by simp_all
    then obtain m where m: "m < 8" "n = 7 - m" by blast
    then have "row_bit a (8 * k + m) = row_bit b (8 * k + m)"
      using k assms by (intro assms(2)) auto
    then show "bit (a ! k) n = bit (b ! k) n" using m by (simp add: row_bit_def)
  qed
qed

text \<open>Adding a list of bits, one after the other, from position \<open>i\<close>.\<close>

fun add_bits :: "u8 list \<Rightarrow> nat \<Rightarrow> u8 list \<Rightarrow> u8 list" where
  "add_bits row i [] = row"
| "add_bits row i (v # vs) = add_bits (add_bit row i v) (i + 1) vs"

lemma length_add_bits [simp]: "length (add_bits row i vs) = length row"
  by (induction vs arbitrary: row i) simp_all

lemma row_bit_add_bits:
  assumes "j < 8 * length row" "i + length vs \<le> 8 * length row"
  shows "row_bit (add_bits row i vs) j =
    (row_bit row j \<or> (i \<le> j \<and> j < i + length vs \<and> vs ! (j - i) \<noteq> 0))"
  using assms
proof (induction vs arbitrary: row i)
  case (Cons v vs)
  then show ?case
    by (auto simp: row_bit_add_bit nth_Cons' Suc_le_eq)
qed auto

lemma add_bits_zero_row:
  assumes "length row = n" "length vs \<le> 8 * n"
    and vs: "\<And>j. j < length vs \<Longrightarrow> (vs ! j \<noteq> 0) = row_bit row j"
    and rest: "\<And>j. length vs \<le> j \<Longrightarrow> j < 8 * n \<Longrightarrow> \<not> row_bit row j"
  shows "add_bits (replicate n 0) 0 vs = row"
proof (rule row_eqI)
  fix j assume j: "j < 8 * length row"
  have "row_bit (replicate n 0) j = False" using j assms(1) by (simp add: row_bit_def less_mult_imp_div_less)
  then show "row_bit (add_bits (replicate n 0) 0 vs) j = row_bit row j"
    using j assms(1,2) vs [of j] rest [of j] by (cases "j < length vs") (simp_all add: row_bit_add_bits)
qed (use assms in simp)

section \<open>Absence of panics and the accepted readings\<close>

definition reading_ok :: "RubicsonReading \<Rightarrow> bool" where
  "reading_ok r \<longleftrightarrow> rr_crc_ok r \<and> 1 \<le> rr_channel r \<and> rr_channel r \<le> 4 \<and>
     (\<exists>m. - 2048 \<le> m \<and> m \<le> 2047 \<and> rr_temperature_c r = f32_div (f32_from_i16 m) (F32 10))"

lemma sint_sign_extend_12: "sint (sign_extend_nth_bit v 12) = signed_take_bit 11 (uint v)"
proof (rule bit_eqI)
  fix n :: nat
  consider "n < 11" | "n = 11" | "11 < n" by linarith
  then show "bit (sint (sign_extend_nth_bit v 12)) n = bit (signed_take_bit 11 (uint v)) n"
    by cases (auto simp: sign_extend_nth_bit_def bit_simps min_def dest: bit_imp_le_length)
qed

lemma sign_extend_12_bounds:
  "- 2048 \<le> sint (sign_extend_nth_bit v 12)" "sint (sign_extend_nth_bit v 12) \<le> 2047"
  using signed_take_bit_int_greater_eq_minus_exp [of 11 "uint v"]
    signed_take_bit_int_less_exp [of 11 "uint v"]
  by (simp_all add: sint_sign_extend_12)

lemma channel_bounds: "1 \<le> drop_bit 4 ((b :: u8) AND 0x30) + 1" "drop_bit 4 (b AND 0x30) + 1 \<le> 4"
proof -
  have "drop_bit 4 (b AND 0x30) = drop_bit 4 b AND 3" by (simp add: drop_bit_and)
  moreover have "drop_bit 4 b AND 3 \<le> 3" by (rule word_and_le1)
  ultimately have "drop_bit 4 (b AND 0x30) \<le> 3" by simp
  then show "1 \<le> drop_bit 4 (b AND 0x30) + 1" "drop_bit 4 (b AND 0x30) + 1 \<le> 4"
    by (simp_all add: word_le_nat_alt unat_plus_simple unat_word_ariths)
qed

lemma length_eq_5E:
  assumes "length xs = 5"
  obtains a b c d e where "xs = [a, b, c, d, e]"
  using assms by (auto simp: length_Suc_conv numeral_eq_Suc)

lemma decode_rubicson_total:
  assumes "length row = 5"
  obtains e where "decode_rubicson row = Some (Inl e)"
  | r where "decode_rubicson row = Some (Inr r)" "reading_ok r"
proof -
  obtain b0 b1 b2 b3 b4 where row: "row = [b0, b1, b2, b3, b4]" using assms by (rule length_eq_5E)
  show thesis
  proof (cases "calculate_crc8 (crc_buf b0 b1 b2 b3 b4) 0x31 0x6c = 0")
    case True
    then show thesis
      using sign_extend_12_bounds channel_bounds [of b1]
      by (intro that(2) [OF _]) (simp add: row, force simp: reading_ok_def temp_raw_of_def)
  next
    case False
    then show thesis by (intro that(1)) (simp add: row)
  qed
qed

lemma slice_row:
  "length buf = 60 \<Longrightarrow> r < 12 \<Longrightarrow> slice_range buf (r * 5) (r * 5 + 5) = Some (take 5 (drop (r * 5) buf))"
  by (simp add: slice_range_def)

lemma length_slice_row: "length buf = 60 \<Longrightarrow> r < 12 \<Longrightarrow> length (take 5 (drop (r * 5) buf)) = 5"
  by simp

lemma length_write_slice: "a + length s \<le> length buf \<Longrightarrow> length (write_slice buf a s) = length buf"
  by (simp add: write_slice_def)

text \<open>What any run of the decoder returns: a full buffer, or a sound reading.\<close>

fun decode_result_ok :: "decode_result \<Rightarrow> bool" where
  "decode_result_ok None = False"
| "decode_result_ok (Some (Inl buf)) = (length buf = 60)"
| "decode_result_ok (Some (Inr (k, r))) = (k < MAX_PACKETS \<and> reading_ok r)"

lemma decode_gaps_loop_ok:
  assumes "length buf = 60" "row \<le> 12" "row = 12 \<longrightarrow> i = 0"
  shows "decode_result_ok (decode_gaps_loop gaps buf i row)"
  using assms
proof (induction gaps arbitrary: buf i row)
  case Nil
  show ?case
  proof (cases "i = 36")
    case True
    then have r: "row < 12" using Nil by (cases "row = 12") auto
    show ?thesis
      by (rule decode_rubicson_total [OF length_slice_row [OF Nil(1) r]])
         (use True Nil r in \<open>simp_all add: const_defs slice_row\<close>)
  qed (use Nil in \<open>simp add: const_defs\<close>)
next
  case (Cons gap gaps)
  show ?case
  proof (cases "row = 12")
    case True
    then show ?thesis using Cons.prems by (simp add: const_defs)
  next
    case False
    then have r: "row < 12" using Cons.prems by simp
    note sl = slice_row [OF Cons.prems(1) r]
    have len: "length (write_slice buf (row * 5) (add_bit (take 5 (drop (row * 5) buf)) i b)) = 60" for b
      using Cons.prems r by (subst length_write_slice) (simp_all add: min_def)
    show ?thesis
      by (rule decode_rubicson_total [OF length_slice_row [OF Cons.prems(1) r]])
         (use r len in \<open>auto simp: const_defs sl Let_def Cons.prems(1) split: sum.split BreakResetIgnore.split
             intro!: Cons.IH\<close>)
  qed
qed

lemma decode_gaps_ok: "decode_result_ok (decode_gaps gaps)"
  by (simp add: decode_gaps_def decode_gaps_iter_def decode_gaps_loop_ok const_defs)

section \<open>The decoder as a search for the first good packet\<close>

text \<open>The bits of a run of gaps, the row they fill, and gaps that stay inside a packet.\<close>

fun gap_bits :: "u32 list \<Rightarrow> u8 list" where
  "gap_bits [] = []"
| "gap_bits (g # gs) = (case decode_gap g of Inr b \<Rightarrow> b # gap_bits gs | Inl _ \<Rightarrow> gap_bits gs)"

definition assemble :: "u32 list \<Rightarrow> u8 list" where
  "assemble gs = add_bits (replicate 5 0) 0 (gap_bits gs)"

definition in_packet :: "u32 list \<Rightarrow> bool" where
  "in_packet gs = list_all (\<lambda>g. decode_gap g \<noteq> Inl Break \<and> decode_gap g \<noteq> Inl Reset) gs"

fun first_packet :: "nat \<Rightarrow> u32 list list \<Rightarrow> (nat \<times> RubicsonReading) option" where
  "first_packet k [] = None"
| "first_packet k (p # ps) =
     (case decode_rubicson (assemble p) of Some (Inr r) \<Rightarrow> Some (k, r) | _ \<Rightarrow> first_packet (k + 1) ps)"

lemma write_slice_id: "a + n \<le> length buf \<Longrightarrow> write_slice buf a (take n (drop a buf)) = buf"
  by (simp add: write_slice_def) (metis append_assoc append_take_drop_id take_add)

lemma write_slice_twice:
  "length s = length t \<Longrightarrow> a \<le> length buf \<Longrightarrow> write_slice (write_slice buf a s) a t = write_slice buf a t"
  by (simp add: write_slice_def min_def add.commute)

lemma take_drop_write_slice: "a \<le> length buf \<Longrightarrow> take (length s) (drop a (write_slice buf a s)) = s"
  by (simp add: write_slice_def)

lemma drop_write_slice: "a + length s \<le> length buf \<Longrightarrow> b = a + length s \<Longrightarrow> drop b (write_slice buf a s) = drop b buf"
  by (simp add: write_slice_def)

lemma decode_gaps_loop_in_packet:
  assumes "length buf = 60" "row < 12" "in_packet p"
  shows "decode_gaps_loop (p @ rest) buf i row =
    decode_gaps_loop rest (write_slice buf (row * 5) (add_bits (take 5 (drop (row * 5) buf)) i (gap_bits p)))
      (i + length (gap_bits p)) row"
  using assms
proof (induction p arbitrary: buf i)
  case Nil
  then show ?case by (simp add: write_slice_id)
next
  case (Cons g p)
  have p: "in_packet p" and g: "decode_gap g \<noteq> Inl Break" "decode_gap g \<noteq> Inl Reset"
    using Cons.prems(3) by (simp_all add: in_packet_def)
  let ?s = "take 5 (drop (row * 5) buf)"
  have s: "length ?s = 5" using Cons.prems by simp
  show ?case
  proof (cases "decode_gap g")
    case (Inl e)
    then show ?thesis using g Cons.prems p
      by (cases e) (simp_all add: const_defs Cons.IH)
  next
    case (Inr b)
    let ?buf = "write_slice buf (row * 5) (add_bit ?s i b)"
    have len: "length ?buf = 60" using Cons.prems s by (simp add: length_write_slice)
    have "take 5 (drop (row * 5) ?buf) = add_bit ?s i b"
      using take_drop_write_slice [of "row * 5" buf "add_bit ?s i b"] s Cons.prems by simp
    moreover have "write_slice ?buf (row * 5) t = write_slice buf (row * 5) t" if "length t = 5" for t
      using that s Cons.prems by (intro write_slice_twice) auto
    ultimately show ?thesis
      using Cons.prems s Inr
      by (simp add: const_defs Let_def slice_row Cons.IH [OF len Cons.prems(2) p])
  qed
qed

lemma decode_gaps_loop_packet:
  assumes buf: "length buf = 60" "row < 12" "drop (row * 5) buf = replicate (60 - row * 5) 0"
    and p: "in_packet p" and brk: "decode_gap brk = Inl Break"
  obtains buf' where "length buf' = 60" "drop ((row + 1) * 5) buf' = replicate (60 - (row + 1) * 5) 0"
    "decode_gaps_loop (p @ brk # rest) buf 0 row =
      (case decode_rubicson (assemble p) of
         Some (Inr r) \<Rightarrow> Some (Inr (row, r)) | _ \<Rightarrow> decode_gaps_loop rest buf' 0 (row + 1))"
proof -
  let ?buf = "write_slice buf (row * 5) (assemble p)"
  have s: "take 5 (drop (row * 5) buf) = replicate 5 0" using buf by (simp add: min_def)
  have a: "length (assemble p) = 5" by (simp add: assemble_def)
  have len: "length ?buf = 60" using buf a by (simp add: length_write_slice)
  have sl: "take 5 (drop (row * 5) ?buf) = assemble p"
    using take_drop_write_slice [of "row * 5" buf "assemble p"] a buf by simp
  have "drop ((row + 1) * 5) ?buf = drop ((row + 1) * 5) buf"
    using buf a by (intro drop_write_slice) auto
  also have "\<dots> = drop 5 (drop (row * 5) buf)" by (simp add: add.commute)
  finally have z: "drop ((row + 1) * 5) ?buf = replicate (60 - (row + 1) * 5) 0" by (simp add: buf(3))
  have L: "decode_gaps_loop (p @ brk # rest) buf 0 row =
      decode_gaps_loop (brk # rest) ?buf (length (gap_bits p)) row"
    using decode_gaps_loop_in_packet [OF buf(1,2) p, of "brk # rest" 0]
    unfolding s assemble_def [symmetric] by (simp del: decode_gaps_loop.simps)
  have "decode_gaps_loop (p @ brk # rest) buf 0 row =
      (case decode_rubicson (assemble p) of
         Some (Inr r) \<Rightarrow> Some (Inr (row, r)) | _ \<Rightarrow> decode_gaps_loop rest ?buf 0 (row + 1))"
    by (rule decode_rubicson_total [OF a]) (use buf(2) in \<open>simp_all add: L const_defs slice_row len sl brk\<close>)
  from that [OF len z this] show thesis .
qed

lemma decode_gaps_loop_packets:
  assumes "length buf = 60" "row + length ps \<le> 12" "drop (row * 5) buf = replicate (60 - row * 5) 0"
    and "list_all (\<lambda>(p, brk). in_packet p \<and> decode_gap brk = Inl Break) ps"
  shows "case first_packet row (map fst ps) of
      Some x \<Rightarrow> decode_gaps_loop (concat (map (\<lambda>(p, brk). p @ [brk]) ps) @ rest) buf 0 row = Some (Inr x)
    | None \<Rightarrow> \<exists>b. decode_gaps_loop (concat (map (\<lambda>(p, brk). p @ [brk]) ps) @ rest) buf 0 row =
        decode_gaps_loop rest b 0 (row + length ps)"
  using assms
proof (induction ps arbitrary: buf row)
  case Nil
  then show ?case by auto
next
  case (Cons q ps)
  obtain p brk where q: "q = (p, brk)" by (cases q)
  let ?rest = "concat (map (\<lambda>(p, brk). p @ [brk]) ps) @ rest"
  obtain buf' where b: "length buf' = 60" "drop ((row + 1) * 5) buf' = replicate (60 - (row + 1) * 5) 0"
    "decode_gaps_loop (p @ brk # ?rest) buf 0 row =
      (case decode_rubicson (assemble p) of
         Some (Inr r) \<Rightarrow> Some (Inr (row, r)) | _ \<Rightarrow> decode_gaps_loop ?rest buf' 0 (row + 1))"
    by (rule decode_gaps_loop_packet [of buf row p brk ?rest]) (use Cons.prems in \<open>simp_all add: q\<close>)
  have IH: "case first_packet (row + 1) (map fst ps) of
      Some x \<Rightarrow> decode_gaps_loop ?rest buf' 0 (row + 1) = Some (Inr x)
    | None \<Rightarrow> \<exists>b. decode_gaps_loop ?rest buf' 0 (row + 1) =
        decode_gaps_loop rest b 0 (row + 1 + length ps)"
    using Cons.prems b by (intro Cons.IH) auto
  have a: "length (assemble p) = 5" by (simp add: assemble_def)
  show ?case
    by (rule decode_rubicson_total [OF a]) (use IH b(3) in \<open>auto simp: q split: option.splits\<close>)
qed

section \<open>Round trip and error detection\<close>

lemma payload_crc_nibbles:
  "(0xF0 OR drop_bit 4 (c AND 0xF0)) AND 0xF0 = (0xF0 :: u8)"
  "push_bit 4 ((0xF0 OR drop_bit 4 (c AND 0xF0)) AND 0x0F)
     OR drop_bit 4 (push_bit 4 (c AND 0x0F) AND 0xF0) = (c :: u8)"
  by (rule u8_eqI; simp add: bit_simps)+

lemma payload_b1_fields:
  fixes ch :: u8 and t :: u16 and bat :: bool
  assumes "1 \<le> ch" "ch \<le> 4"
  defines "b1 \<equiv> (if bat then 0x80 else 0) OR push_bit 4 (ch - 1) OR ucast (drop_bit 8 t AND 0x0F)"
  shows "drop_bit 4 (b1 AND 0x30) + 1 = ch" "(b1 AND 0x80 \<noteq> 0) = bat"
    "b1 AND 0x0F = ucast (drop_bit 8 t) AND 0x0F"
proof -
  define c where "c = ch - 1"
  have c: "ch = c + 1" by (simp add: c_def)
  have "unat ch = 1 \<or> unat ch = 2 \<or> unat ch = 3 \<or> unat ch = 4"
    using assms(1,2) by (simp add: word_le_nat_alt; linarith)
  then have "ch \<in> {1, 2, 3, 4}" by (simp add: word_unat_eq_iff)
  then have "c \<in> {0, 1, 2, 3}" unfolding c_def by auto
  then have 1: "drop_bit 4 (b1 AND 0x30) = c"
    unfolding b1_def c_def [symmetric]
    by (elim insertE emptyE; intro u8_eqI; simp add: bit_simps)
  then show "drop_bit 4 (b1 AND 0x30) + 1 = ch" by (simp add: c)
  have "\<not> bit c 3" using \<open>c \<in> {0, 1, 2, 3}\<close> by auto
  then show "(b1 AND 0x80 \<noteq> 0) = bat"
    unfolding b1_def c_def [symmetric] top_bit_u8 by (simp add: bit_simps)
  show "b1 AND 0x0F = ucast (drop_bit 8 t) AND 0x0F"
    unfolding b1_def by (rule u8_eqI; simp add: bit_simps)
qed

lemma temp_raw_of_fields:
  fixes t :: u16
  assumes "b1 AND 0x0F = ucast (drop_bit 8 t) AND 0x0F"
  shows "sint (temp_raw_of b1 (ucast (t AND 0xFF))) = signed_take_bit 11 (uint t)"
proof -
  have "bit b1 n = bit t (8 + n)" if "n < 4" for n
  proof -
    have "bit (b1 AND 0x0F) n = bit (ucast (drop_bit 8 t) AND (0x0F :: u8)) n" by (simp only: assms)
    moreover have "n = 0 \<or> n = 1 \<or> n = 2 \<or> n = 3" using that by auto
    ultimately show ?thesis by (auto simp: bit_simps)
  qed
  note b1 = this
  show ?thesis unfolding temp_raw_of_def sint_sign_extend_12
  proof (rule bit_eqI)
    fix n :: nat
    let ?w = "push_bit 8 (ucast (b1 AND 0x0F)) OR ucast (ucast (t AND 0xFF) :: u8) :: u16"
    have w: "bit ?w k = bit t k" if "k < 12" for k
    proof -
      have "k = 0 \<or> k = 1 \<or> k = 2 \<or> k = 3 \<or> k = 4 \<or> k = 5 \<or> k = 6 \<or> k = 7
        \<or> k = 8 \<or> k = 9 \<or> k = 10 \<or> k = 11" using that by presburger
      then show ?thesis
        using b1 [of 0] b1 [of 1] b1 [of 2] b1 [of 3] by (elim disjE; simp add: bit_simps)
    qed
    show "bit (signed_take_bit 11 (uint ?w)) n = bit (signed_take_bit 11 (uint t)) n"
      using w [of n] w [of 11] by (simp add: bit_signed_take_bit_iff bit_uint_iff min_def)
  qed
qed

lemma decode_build_payload:
  assumes "1 \<le> ch" "ch \<le> 4"
  shows "decode_rubicson (build_payload i ch bat t) =
    Some (Inr \<lparr>rr_id = i, rr_channel = ch, rr_battery_ok = bat,
               rr_temperature_c = f32_div (f32_from_i16 (signed_take_bit 11 (uint t))) (F32 10),
               rr_crc_ok = True\<rparr>)"
proof -
  note b1 = payload_b1_fields [OF assms, of bat t]
  have crc: "calculate_crc8 [i, x, y, 0xF0, calculate_crc8 [i, x, y, 0xF0] 0x31 0x6c] 0x31 0x6c = 0" for x y
    using calculate_crc8_self [of "[i, x, y, 0xF0]" "0x31" "0x6c"] by simp
  show ?thesis
    unfolding build_payload_def Let_def decode_rubicson.simps crc_buf_def payload_crc_nibbles
      temp_raw_of_fields [OF b1(3)] b1(1,2)
    by (simp only: crc refl simp_thms if_False not_True_eq_False)
qed

lemma payload_bits_nth:
  "j < 8 * length row \<Longrightarrow> concat (map (\<lambda>b. map (bit b) (rev [0..<8])) row) ! j = row_bit row j"
proof (induction row arbitrary: j)
  case (Cons a row)
  show ?case
  proof (cases "j < 8")
    case True
    then show ?thesis by (simp add: nth_append row_bit_def rev_nth del: upt_Suc)
  next
    case False
    then obtain k where k: "j = 8 + k" by (metis le_Suc_ex linorder_not_less)
    then show ?thesis using Cons by (simp add: nth_append row_bit_def)
  qed
qed simp

lemma length_payload_bits: "length row = 5 \<Longrightarrow> length (payload_bits row) = 36"
  by (auto simp: payload_bits_def elim!: length_eq_5E)

lemma assemble_payload:
  assumes "gap_bits gs = map of_bool (payload_bits row)" "length row = 5" "row ! 4 AND 0x0F = 0"
  shows "assemble gs = row"
  unfolding assemble_def assms(1)
proof (rule add_bits_zero_row)
  note len = length_payload_bits [OF assms(2)]
  show "length row = 5" by (rule assms)
  show "length (map of_bool (payload_bits row)) \<le> 8 * 5" by (simp add: len)
  show "(map of_bool (payload_bits row) ! j \<noteq> (0 :: u8)) = row_bit row j"
    if "j < length (map of_bool (payload_bits row))" for j
    using that payload_bits_nth [of j row] assms(2) len by (simp add: payload_bits_def)
  have low: "\<not> bit (row ! 4 AND 0x0F) n" for n by (simp add: assms(3))
  have "\<not> bit (row ! 4) 0" "\<not> bit (row ! 4) 1" "\<not> bit (row ! 4) 2" "\<not> bit (row ! 4) 3"
    using low [of 0] low [of 1] low [of 2] low [of 3] by (simp_all add: bit_simps)
  moreover have "j = 36 \<or> j = 37 \<or> j = 38 \<or> j = 39" if "36 \<le> j" "j < 40" for j :: nat
    using that by presburger
  ultimately show "\<not> row_bit row j"
    if "length (map of_bool (payload_bits row)) \<le> j" "j < 8 * 5" for j
    using that len by (fastforce simp: row_bit_def)
qed


text \<open>Flipping one bit of the 36 transmitted ones.\<close>

definition flip_bit :: "u8 list \<Rightarrow> nat \<Rightarrow> u8 list" where
  "flip_bit row j = row[j div 8 := row ! (j div 8) XOR push_bit (7 - j mod 8) 1]"

lemma crc_row_changed:
  assumes "calculate_crc8 (xs @ a # ys) 0x31 0x6c = 0" "a \<noteq> b"
  shows "calculate_crc8 (xs @ b # ys) 0x31 0x6c \<noteq> 0"
  using calculate_crc8_one_byte [of "0x31" xs a ys "0x6c" b] assms by auto

lemma crc_xor_changed:
  assumes "calculate_crc8 xs 0x31 0x6c = 0" "k < length xs" "m \<noteq> 0" "ys = xs[k := xs ! k XOR m]"
  shows "calculate_crc8 ys 0x31 0x6c \<noteq> 0"
proof -
  have "xs ! k \<noteq> xs ! k XOR m" using assms(3) by (metis xor.right_neutral xor_cancel_u8)
  then show ?thesis
    using crc_row_changed [of "take k xs" "xs ! k" "drop (Suc k) xs" "xs ! k XOR m"] assms
    by (simp add: id_take_nth_drop [symmetric] upd_conv_take_nth_drop)
qed

text \<open>Where a flipped bit of the row lands in the five CRC bytes.\<close>

lemma crc_buf_flip:
  "crc_buf (b0 XOR m) b1 b2 b3 b4 = (crc_buf b0 b1 b2 b3 b4)[0 := crc_buf b0 b1 b2 b3 b4 ! 0 XOR m]"
  "crc_buf b0 (b1 XOR m) b2 b3 b4 = (crc_buf b0 b1 b2 b3 b4)[1 := crc_buf b0 b1 b2 b3 b4 ! 1 XOR m]"
  "crc_buf b0 b1 (b2 XOR m) b3 b4 = (crc_buf b0 b1 b2 b3 b4)[2 := crc_buf b0 b1 b2 b3 b4 ! 2 XOR m]"
  "m AND 0x0F = 0 \<Longrightarrow>
    crc_buf b0 b1 b2 (b3 XOR m) b4 = (crc_buf b0 b1 b2 b3 b4)[3 := crc_buf b0 b1 b2 b3 b4 ! 3 XOR m]"
  "m AND 0xF0 = 0 \<Longrightarrow> crc_buf b0 b1 b2 (b3 XOR m) b4 =
    (crc_buf b0 b1 b2 b3 b4)[4 := crc_buf b0 b1 b2 b3 b4 ! 4 XOR push_bit 4 m]"
  "m AND 0x0F = 0 \<Longrightarrow> crc_buf b0 b1 b2 b3 (b4 XOR m) =
    (crc_buf b0 b1 b2 b3 b4)[4 := crc_buf b0 b1 b2 b3 b4 ! 4 XOR drop_bit 4 m]"
proof -
  have top: "\<not> bit m n" if "8 \<le> n" for n using that by (auto dest: bit_imp_le_length)
  have x: "(a XOR m) AND c = (a AND c) XOR (m AND c)" for a c :: u8 by (rule bit_word_eqI) (auto simp: bit_simps)
  have hi: "m AND 0xF0 = m" if "m AND 0x0F = 0"
  proof -
    have "m = (m AND 0xF0) OR (m AND 0x0F)" by (rule u8_eqI; simp add: bit_simps)
    then show ?thesis using that by simp
  qed
  have lo: "m AND 0x0F = m" if "m AND 0xF0 = 0"
  proof -
    have "m = (m AND 0xF0) OR (m AND 0x0F)" by (rule u8_eqI; simp add: bit_simps)
    then show ?thesis using that by simp
  qed
  have lst: "push_bit 4 ((b3 AND 0x0F) XOR m) OR drop_bit 4 (b4 AND 0xF0)
      = (push_bit 4 (b3 AND 0x0F) OR drop_bit 4 (b4 AND 0xF0)) XOR push_bit 4 m"
    by (rule u8_eqI; simp add: bit_simps)
  have lst2: "push_bit 4 (b3 AND 0x0F) OR drop_bit 4 ((b4 AND 0xF0) XOR m)
      = (push_bit 4 (b3 AND 0x0F) OR drop_bit 4 (b4 AND 0xF0)) XOR drop_bit 4 m"
    by (rule u8_eqI; simp add: bit_simps top)
  show "m AND 0x0F = 0 \<Longrightarrow>
    crc_buf b0 b1 b2 (b3 XOR m) b4 = (crc_buf b0 b1 b2 b3 b4)[3 := crc_buf b0 b1 b2 b3 b4 ! 3 XOR m]"
    by (simp only: crc_buf_def x hi) (simp add: numeral_eq_Suc)
  show "m AND 0xF0 = 0 \<Longrightarrow> crc_buf b0 b1 b2 (b3 XOR m) b4 =
    (crc_buf b0 b1 b2 b3 b4)[4 := crc_buf b0 b1 b2 b3 b4 ! 4 XOR push_bit 4 m]"
    by (simp only: crc_buf_def x lo lst) simp
  show "m AND 0x0F = 0 \<Longrightarrow> crc_buf b0 b1 b2 b3 (b4 XOR m) =
    (crc_buf b0 b1 b2 b3 b4)[4 := crc_buf b0 b1 b2 b3 b4 ! 4 XOR drop_bit 4 m]"
    by (simp only: crc_buf_def x hi lst2) simp
qed (simp_all add: crc_buf_def)

lemma flip_bit_crc:
  assumes z: "calculate_crc8 (crc_buf b0 b1 b2 b3 b4) 0x31 0x6c = 0" and j: "j < 36"
  shows "case flip_bit [b0, b1, b2, b3, b4] j of
    [c0, c1, c2, c3, c4] \<Rightarrow> calculate_crc8 (crc_buf c0 c1 c2 c3 c4) 0x31 0x6c \<noteq> 0 | _ \<Rightarrow> False"
proof -
  note chg = crc_xor_changed [OF z _ _ crc_buf_flip(1)] crc_xor_changed [OF z _ _ crc_buf_flip(2)]
    crc_xor_changed [OF z _ _ crc_buf_flip(3)] crc_xor_changed [OF z _ _ crc_buf_flip(4)]
    crc_xor_changed [OF z _ _ crc_buf_flip(5)] crc_xor_changed [OF z _ _ crc_buf_flip(6)]
  have len: "length (crc_buf b0 b1 b2 b3 b4) = 5" by (simp add: crc_buf_def)
  have "\<forall>j\<in>set [0..<36]. case flip_bit [b0, b1, b2, b3, b4] j of
    [c0, c1, c2, c3, c4] \<Rightarrow> calculate_crc8 (crc_buf c0 c1 c2 c3 c4) 0x31 0x6c \<noteq> 0 | _ \<Rightarrow> False"
    by (simp add: upt_rec flip_bit_def chg len)
  then show ?thesis using j by simp
qed

section \<open>Properties\<close>

text \<open>
  C8: On a transmission of up to twelve packets, each a run of data gaps (with spurious short
  gaps anywhere) closed by a break gap, \<open>decode_gaps\<close> returns the index and the reading of the
  first packet that decodes, whatever follows it, and fails on the whole buffer when none does.
\<close>

theorem decode_gaps_refines_first_packet:
  assumes "length ps \<le> 12" "list_all (\<lambda>(p, brk). in_packet p \<and> decode_gap brk = Inl Break) ps"
  shows "case first_packet 0 (map fst ps) of
      Some x \<Rightarrow> decode_gaps (concat (map (\<lambda>(p, brk). p @ [brk]) ps) @ rest) = Some (Inr x)
    | None \<Rightarrow> \<exists>b. decode_gaps (concat (map (\<lambda>(p, brk). p @ [brk]) ps)) = Some (Inl b)"
  using decode_gaps_loop_packets [of "replicate 60 0" 0 ps rest]
    decode_gaps_loop_packets [of "replicate 60 0" 0 ps "[]"] assms
  by (auto simp: decode_gaps_def decode_gaps_iter_def const_defs split: option.splits)

definition junk_packet :: "u32 list" where
  "junk_packet = [1000, 2000, 500]"

lemma junk_packet_evaluates:
  "in_packet junk_packet" "decode_gap 4000 = Inl Break"
  "decode_rubicson (assemble junk_packet) = Some (Inl CrcMismatch)"
  by code_simp+

theorem decode_gaps_refines_first_packet_witness:
  "\<exists>b. decode_gaps (junk_packet @ [4000]) = Some (Inl b)"
  using decode_gaps_refines_first_packet [of "[(junk_packet, 4000)]" "[]"]
  by (simp add: junk_packet_evaluates)

lemma first_packet_after_bad:
  assumes "list_all (\<lambda>p. \<forall>r. decode_rubicson (assemble p) \<noteq> Some (Inr r)) bad"
    and "decode_rubicson (assemble p) = Some (Inr r)"
  shows "first_packet k (bad @ [p]) = Some (k + length bad, r)"
  using assms by (induction bad arbitrary: k) (auto split: option.splits sum.splits)

text \<open>A packet after packets that do not decode is found.\<close>

lemma decode_gaps_finds_packet:
  assumes "1 \<le> ch" "ch \<le> 4"
    and "length bad < 12" "list_all (\<lambda>(p, brk). in_packet p \<and> decode_gap brk = Inl Break) bad"
    and "list_all (\<lambda>p. \<forall>r. decode_rubicson (assemble p) \<noteq> Some (Inr r)) (map fst bad)"
    and "in_packet p" "gap_bits p = map of_bool (payload_bits (build_payload i ch bat t))"
    and "decode_gap brk = Inl Break"
  shows "decode_gaps (concat (map (\<lambda>(p, brk). p @ [brk]) bad) @ p @ [brk] @ rest) =
    Some (Inr (length bad, \<lparr>rr_id = i, rr_channel = ch, rr_battery_ok = bat,
      rr_temperature_c = f32_div (f32_from_i16 (signed_take_bit 11 (uint t))) (F32 10),
      rr_crc_ok = True\<rparr>))"
proof -
  let ?row = "build_payload i ch bat t"
  have "push_bit 4 (c AND 0x0F) AND 0x0F = 0" for c :: u8 by (rule u8_eqI; simp add: bit_simps)
  then have "?row ! 4 AND 0x0F = 0" by (simp only: build_payload_def Let_def nth_Cons_numeral) simp
  then have asm: "assemble p = ?row"
    using assms(7) by (intro assemble_payload) (simp_all add: build_payload_def Let_def)
  note fp = first_packet_after_bad [OF assms(5), of p, unfolded asm, OF decode_build_payload [OF assms(1,2)], of 0]
  show ?thesis
    using decode_gaps_loop_packets [of "replicate 60 0" 0 "bad @ [(p, brk)]" rest] assms(3,4,6,8) fp
    by (simp add: decode_gaps_def decode_gaps_iter_def const_defs)
qed

text \<open>
  C9: Round trip with the encoder of the crate's tests. A burst of fewer than twelve packets
  that do not decode, followed by a packet whose gaps carry the 36 bits of a payload built for
  an identifier, a channel from 1 to 4, a battery flag and a 12-bit temperature, decodes to
  exactly that reading, at the index of the good packet; the temperature is the signed 12-bit
  value divided by ten. The gap lengths only have to fall in the bands of their bits.
\<close>

theorem decode_gaps_roundtrip:
  assumes "1 \<le> ch" "ch \<le> 4"
    and "length bad < 12" "list_all (\<lambda>(p, brk). in_packet p \<and> decode_gap brk = Inl Break) bad"
    and "list_all (\<lambda>p. \<forall>r. decode_rubicson (assemble p) \<noteq> Some (Inr r)) (map fst bad)"
    and "in_packet p" "gap_bits p = map of_bool (payload_bits (build_payload i ch bat t))"
    and "decode_gap brk = Inl Break"
  shows "decode_gaps (concat (map (\<lambda>(p, brk). p @ [brk]) bad) @ p @ [brk] @ rest) =
    Some (Inr (length bad, \<lparr>rr_id = i, rr_channel = ch, rr_battery_ok = bat,
      rr_temperature_c = f32_div (f32_from_i16 (signed_take_bit 11 (uint t))) (F32 10),
      rr_crc_ok = True\<rparr>))"
  by (rule decode_gaps_finds_packet [OF assms])

lemma encoded_bits:
  "in_packet (map (\<lambda>b. if b then 2000 else 1000) bs)"
  "gap_bits (map (\<lambda>b. if b then 2000 else 1000) bs) = map of_bool bs"
  by (induction bs) (simp_all add: in_packet_def decode_gap_def)

theorem decode_gaps_roundtrip_witness:
  "decode_gaps (junk_packet @ [4000] @ payload_to_gaps (build_payload 0x12 2 True 0xFCE) @ [9000]) =
    Some (Inr (1, \<lparr>rr_id = 0x12, rr_channel = 2, rr_battery_ok = True,
      rr_temperature_c = f32_div (f32_from_i16 (- 50)) (F32 10), rr_crc_ok = True\<rparr>))"
proof -
  have t: "signed_take_bit 11 (uint (0xFCE :: u16)) = - 50" by code_simp
  show ?thesis
    using decode_gaps_roundtrip [of 2 "[(junk_packet, 4000)]" _ "0x12" True "0xFCE" 4000 "[9000]",
        OF _ _ _ _ _ encoded_bits]
    by (simp add: junk_packet_evaluates t payload_to_gaps_def)
qed

text \<open>
  The decoder returns for every sequence of gaps: no slice or index of it is out of range,
  a failure carries the whole 60-byte buffer, and a success carries a packet index below twelve
  and a reading with a channel from 1 to 4 and a temperature from -204.8 to 204.7 degrees.
\<close>

theorem decode_gaps_never_panics:
  "\<exists>r. decode_gaps gaps = Some r \<and>
    (case r of Inl buf \<Rightarrow> length buf = 60
     | Inr (k, rd) \<Rightarrow> k < MAX_PACKETS \<and> rr_crc_ok rd \<and> 1 \<le> rr_channel rd \<and> rr_channel rd \<le> 4 \<and>
        (\<exists>m. - 2048 \<le> m \<and> m \<le> 2047 \<and> rr_temperature_c rd = f32_div (f32_from_i16 m) (F32 10)))"
  using decode_gaps_ok [of gaps]
  by (cases "decode_gaps gaps" rule: decode_result_ok.cases) (auto simp: reading_ok_def)

text \<open>
  C10: Error detection. If a row of five bytes is accepted, the row with any one of its 36
  transmitted bits flipped is rejected with a CRC mismatch.
\<close>

theorem single_bit_error_rejected:
  assumes "length row = 5" "decode_rubicson row = Some (Inr r)" "j < 36"
  shows "decode_rubicson (flip_bit row j) = Some (Inl CrcMismatch)"
proof -
  obtain b0 b1 b2 b3 b4 where row: "row = [b0, b1, b2, b3, b4]" using assms(1) by (rule length_eq_5E)
  then have "calculate_crc8 (crc_buf b0 b1 b2 b3 b4) 0x31 0x6c = 0"
    using assms(2) by (auto split: if_splits)
  from flip_bit_crc [OF this assms(3)] show ?thesis
    unfolding row by (auto split: list.splits)
qed

theorem single_bit_error_rejected_witness:
  "decode_rubicson (flip_bit (build_payload 0x12 2 True 0xFCE) 17) = Some (Inl CrcMismatch)"
  using single_bit_error_rejected [OF _ decode_build_payload [of 2 "0x12" True "0xFCE"], of 17]
  by (simp add: build_payload_def Let_def)

end
