(* ===== verification/Telemetry.thy ===== *)
theory Telemetry
  imports Prelude
begin

text \<open>
  The crate \<open>crates/telemetry-core\<close>: telemetry records, the bounded queue with its drop policy
  and the deduplication cache with its time window. The capacity, a const generic of the source,
  is the first argument of the operations; the fixed-capacity containers return \<open>None\<close> where
  a push finds no room. Times and counters are \<open>u64\<close>: naturals with the wrap-around of a counter
  and the saturation of a deadline written out.
\<close>

section \<open>Records and the bounded queue\<close>

record TelemetryRecord =
  tr_sensor_id :: u8
  tr_channel :: u8
  tr_temperature_deci_c :: int
  tr_battery_ok :: bool
  tr_timestamp :: nat

definition push_within :: "nat \<Rightarrow> 'a list \<Rightarrow> 'a \<Rightarrow> 'a list option" where
  "push_within n xs x = (if length xs < n then Some (xs @ [x]) else None)"

datatype DropPolicy = DropOldest | DropNewest

datatype EnqueueOutcome = Enqueued | DroppedOldest | DroppedNewest

record TelemetryQueue =
  tq_records :: "TelemetryRecord list"
  tq_drop_policy :: DropPolicy
  tq_dropped_total :: nat

definition queue_new :: "DropPolicy \<Rightarrow> TelemetryQueue" where
  "queue_new p = \<lparr>tq_records = [], tq_drop_policy = p, tq_dropped_total = 0\<rparr>"

definition enqueue :: "nat \<Rightarrow> TelemetryQueue \<Rightarrow> TelemetryRecord \<Rightarrow> TelemetryQueue \<times> EnqueueOutcome" where
  "enqueue n q r =
     (case push_within n (tq_records q) r of
        Some rs \<Rightarrow> (q\<lparr>tq_records := rs\<rparr>, Enqueued)
      | None \<Rightarrow>
          let q = q\<lparr>tq_dropped_total := (tq_dropped_total q + 1) mod 2 ^ 64\<rparr>
          in case tq_drop_policy q of
               DropOldest \<Rightarrow>
                 let rs = tl (tq_records q);
                     rs = (case push_within n rs r of Some rs' \<Rightarrow> rs' | None \<Rightarrow> rs)
                 in (q\<lparr>tq_records := rs\<rparr>, DroppedOldest)
             | DropNewest \<Rightarrow> (q, DroppedNewest))"

definition dequeue :: "TelemetryQueue \<Rightarrow> TelemetryQueue \<times> TelemetryRecord option" where
  "dequeue q = (case tq_records q of [] \<Rightarrow> (q, None) | r # rs \<Rightarrow> (q\<lparr>tq_records := rs\<rparr>, Some r))"

definition queue_len :: "TelemetryQueue \<Rightarrow> nat" where
  "queue_len q = length (tq_records q)"

definition queue_is_empty :: "TelemetryQueue \<Rightarrow> bool" where
  "queue_is_empty q = (tq_records q = [])"

definition queue_inv :: "nat \<Rightarrow> TelemetryQueue \<Rightarrow> bool" where
  "queue_inv n q \<longleftrightarrow> length (tq_records q) \<le> n"

text \<open>
  The contract of a bounded FIFO: \<open>trim\<close> says which items of a list survive the bound; pushing
  is appending and trimming, popping takes the head.
\<close>

locale bounded_fifo =
  fixes push :: "'q \<Rightarrow> 'a \<Rightarrow> 'q" and pop :: "'q \<Rightarrow> 'q \<times> 'a option"
    and items :: "'q \<Rightarrow> 'a list" and inv :: "'q \<Rightarrow> bool" and trim :: "'a list \<Rightarrow> 'a list"
  assumes push_inv: "inv q \<Longrightarrow> inv (push q x)"
    and items_push: "inv q \<Longrightarrow> items (push q x) = trim (items q @ [x])"
    and items_pop: "inv q \<Longrightarrow> items q = (case snd (pop q) of None \<Rightarrow> [] | Some x \<Rightarrow> x # items (fst (pop q)))"
    and pop_inv: "inv q \<Longrightarrow> inv (fst (pop q))"
    and trim_trim: "trim (trim xs @ ys) = trim (xs @ ys)"
    and trim_items: "inv q \<Longrightarrow> trim (items q) = items q"
begin

lemma fold_push_inv: "inv q \<Longrightarrow> inv (fold (\<lambda>x q. push q x) xs q)"
  by (induction xs arbitrary: q) (simp_all add: push_inv)

lemma items_fold_push: "inv q \<Longrightarrow> items (fold (\<lambda>x q. push q x) xs q) = trim (items q @ xs)"
proof (induction xs arbitrary: q)
  case Nil
  then show ?case by (simp add: trim_items)
next
  case (Cons x xs)
  then show ?case using trim_trim [of "items q @ [x]" xs] by (simp add: push_inv items_push)
qed

fun drain :: "nat \<Rightarrow> 'q \<Rightarrow> 'a list" where
  "drain 0 q = []"
| "drain (Suc k) q = (case pop q of (q', None) \<Rightarrow> [] | (q', Some x) \<Rightarrow> x # drain k q')"

lemma drain_items: "inv q \<Longrightarrow> drain k q = take k (items q)"
proof (induction k arbitrary: q)
  case (Suc k)
  obtain q' o' where p: "pop q = (q', o')" by (cases "pop q")
  then show ?case
    using Suc.IH [of q'] items_pop [OF Suc.prems] pop_inv [OF Suc.prems] by (cases o') simp_all
qed simp

lemma drain_after_pushes: "inv q \<Longrightarrow> drain k (fold (\<lambda>x q. push q x) xs q) = take k (trim (items q @ xs))"
  by (simp add: drain_items fold_push_inv items_fold_push)

end

definition keep_last :: "nat \<Rightarrow> 'a list \<Rightarrow> 'a list" where
  "keep_last n xs = drop (length xs - n) xs"

lemma keep_last_rev: "keep_last n xs = rev (take n (rev xs))"
  by (simp add: keep_last_def take_rev)

lemma keep_last_absorb: "keep_last n (keep_last n xs @ ys) = keep_last n (xs @ ys)"
  by (simp add: keep_last_rev)

lemma length_keep_last [simp]: "length (keep_last n xs) = min n (length xs)"
  by (simp add: keep_last_rev)

lemma take_absorb: "take n (take n xs @ ys) = take n (xs @ ys)"
  by (cases "length xs \<le> n") simp_all

lemma keep_last_id [simp]: "length xs \<le> n \<Longrightarrow> keep_last n xs = xs"
  by (simp add: keep_last_def)

lemma enqueue_records:
  assumes "queue_inv n q"
  shows "tq_records (fst (enqueue n q r)) =
    (case tq_drop_policy q of DropOldest \<Rightarrow> keep_last n (tq_records q @ [r])
                            | DropNewest \<Rightarrow> take n (tq_records q @ [r]))"
proof (cases "length (tq_records q) < n")
  case True
  then show ?thesis by (simp add: enqueue_def push_within_def split: DropPolicy.split)
next
  case False
  then have n: "length (tq_records q) = n" using assms by (simp add: queue_inv_def)
  show ?thesis
    using n by (cases "tq_records q")
      (auto simp: enqueue_def push_within_def keep_last_def Let_def split: DropPolicy.split)
qed

lemma enqueue_policy [simp]: "tq_drop_policy (fst (enqueue n q r)) = tq_drop_policy q"
  by (simp add: enqueue_def Let_def split: option.split DropPolicy.split)

lemma enqueue_inv: "queue_inv n q \<Longrightarrow> queue_inv n (fst (enqueue n q r))"
  using enqueue_records [of n q r] by (simp add: queue_inv_def keep_last_def split: DropPolicy.splits)

text \<open>Both policies satisfy the contract, each with its own trim.\<close>

lemma dequeue_items:
  "tq_records q = (case snd (dequeue q) of None \<Rightarrow> [] | Some x \<Rightarrow> x # tq_records (fst (dequeue q)))"
  by (simp add: dequeue_def split: list.split)

lemma dequeue_keeps:
  "length (tq_records (fst (dequeue q))) \<le> length (tq_records q)"
  "tq_drop_policy (fst (dequeue q)) = tq_drop_policy q"
  by (simp_all add: dequeue_def split: list.split)

interpretation oldest: bounded_fifo "\<lambda>q r. fst (enqueue n q r)" dequeue tq_records
  "\<lambda>q. queue_inv n q \<and> tq_drop_policy q = DropOldest" "keep_last n" for n
  using dequeue_keeps(1)
  by unfold_locales
     (auto simp: enqueue_inv enqueue_records keep_last_absorb queue_inv_def dequeue_keeps(2)
        intro: dequeue_items order_trans)

interpretation newest: bounded_fifo "\<lambda>q r. fst (enqueue n q r)" dequeue tq_records
  "\<lambda>q. queue_inv n q \<and> tq_drop_policy q = DropNewest" "take n" for n
  using dequeue_keeps(1)
  by unfold_locales
     (auto simp: enqueue_inv enqueue_records queue_inv_def take_absorb dequeue_keeps(2)
        simp del: take_append intro: dequeue_items order_trans)


section \<open>The deduplication cache\<close>

datatype DedupeOutcome = New | Duplicate

record DedupeKey =
  dk_sensor_id :: u8
  dk_channel :: u8
  dk_temperature_deci_c :: int
  dk_battery_ok :: bool

record CacheEntry =
  ce_key :: DedupeKey
  ce_expires_at :: nat

record DedupeCache =
  dc_ttl_ms :: nat
  dc_entries :: "CacheEntry list"

definition dedupe_new :: "nat \<Rightarrow> DedupeCache" where
  "dedupe_new ttl_ms = \<lparr>dc_ttl_ms = ttl_ms, dc_entries = []\<rparr>"

definition key_of :: "TelemetryRecord \<Rightarrow> DedupeKey" where
  "key_of r = \<lparr>dk_sensor_id = tr_sensor_id r, dk_channel = tr_channel r,
     dk_temperature_deci_c = tr_temperature_deci_c r, dk_battery_ok = tr_battery_ok r\<rparr>"

definition prune_expired :: "DedupeCache \<Rightarrow> nat \<Rightarrow> DedupeCache" where
  "prune_expired c now_ms = c\<lparr>dc_entries := filter (\<lambda>e. now_ms < ce_expires_at e) (dc_entries c)\<rparr>"

text \<open>\<open>min_by_key\<close> returns the first of several minimal elements.\<close>

fun min_by_key_index :: "('a \<Rightarrow> nat) \<Rightarrow> 'a list \<Rightarrow> nat option" where
  "min_by_key_index f [] = None"
| "min_by_key_index f (x # xs) =
     (case min_by_key_index f xs of
        None \<Rightarrow> Some 0
      | Some i \<Rightarrow> if f (xs ! i) < f x then Some (Suc i) else Some 0)"

definition evict_oldest :: "DedupeCache \<Rightarrow> DedupeCache" where
  "evict_oldest c =
     (case min_by_key_index ce_expires_at (dc_entries c) of
        None \<Rightarrow> c
      | Some idx \<Rightarrow> c\<lparr>dc_entries := take idx (dc_entries c) @ drop (Suc idx) (dc_entries c)\<rparr>)"

definition observe :: "nat \<Rightarrow> DedupeCache \<Rightarrow> TelemetryRecord \<Rightarrow> nat \<Rightarrow> DedupeCache \<times> DedupeOutcome" where
  "observe n c r now_ms =
     (let c = prune_expired c now_ms; key = key_of r
      in if list_ex (\<lambda>e. ce_key e = key) (dc_entries c) then (c, Duplicate)
         else let entry = \<lparr>ce_key = key, ce_expires_at = sat_add_u64 now_ms (dc_ttl_ms c)\<rparr>
              in case push_within n (dc_entries c) entry of
                   Some es \<Rightarrow> (c\<lparr>dc_entries := es\<rparr>, New)
                 | None \<Rightarrow>
                     let c = evict_oldest c
                     in (case push_within n (dc_entries c) entry of
                           Some es \<Rightarrow> c\<lparr>dc_entries := es\<rparr> | None \<Rightarrow> c, New))"

text \<open>A sequence of observations, and its outcomes.\<close>

fun observe_all :: "nat \<Rightarrow> DedupeCache \<Rightarrow> (TelemetryRecord \<times> nat) list \<Rightarrow> DedupeCache \<times> DedupeOutcome list" where
  "observe_all n c [] = (c, [])"
| "observe_all n c ((r, t) # obs) =
     (let (c, x) = observe n c r t; (c, xs) = observe_all n c obs in (c, x # xs))"

text \<open>
  The invariant: within capacity, one entry per key, and the entries in the order of their
  deadlines, all of which lie within one window of the latest observation.
\<close>

definition cache_inv :: "nat \<Rightarrow> nat \<Rightarrow> DedupeCache \<Rightarrow> bool" where
  "cache_inv n now c \<longleftrightarrow> length (dc_entries c) \<le> n \<and> distinct (map ce_key (dc_entries c)) \<and>
     sorted (map ce_expires_at (dc_entries c)) \<and>
     list_all (\<lambda>e. ce_expires_at e \<le> sat_add_u64 now (dc_ttl_ms c)) (dc_entries c)"

lemma min_by_key_index_sorted: "sorted (map f xs) \<Longrightarrow> xs \<noteq> [] \<Longrightarrow> min_by_key_index f xs = Some 0"
proof (induction xs)
  case (Cons x xs)
  then show ?case by (cases xs) (auto split: option.split)
qed simp

lemma sat_add_u64_mono: "a \<le> b \<Longrightarrow> sat_add_u64 a c \<le> sat_add_u64 b c"
  by (simp add: sat_add_u64_def)

lemma sorted_map_filter: "sorted (map f xs) \<Longrightarrow> sorted (map f (filter P xs))"
  by (induction xs) auto

lemma sorted_map_tl: "sorted (map f xs) \<Longrightarrow> sorted (map f (tl xs))"
  by (cases xs) auto

lemma evict_oldest_sorted:
  "sorted (map ce_expires_at (dc_entries c)) \<Longrightarrow> evict_oldest c = c\<lparr>dc_entries := tl (dc_entries c)\<rparr>"
  by (cases "dc_entries c") (simp_all add: evict_oldest_def min_by_key_index_sorted del: min_by_key_index.simps(2))

text \<open>What \<open>observe\<close> does to the entries when the invariant holds.\<close>

lemma observe_entries:
  fixes t :: nat and r :: TelemetryRecord
  assumes "cache_inv n now c" "0 < n"
  defines "live \<equiv> filter (\<lambda>e. t < ce_expires_at e) (dc_entries c)"
    and "entry \<equiv> \<lparr>ce_key = key_of r, ce_expires_at = sat_add_u64 t (dc_ttl_ms c)\<rparr>"
  shows "observe n c r t =
    (if key_of r \<in> ce_key ` set live then (c\<lparr>dc_entries := live\<rparr>, Duplicate)
     else (c\<lparr>dc_entries := keep_last n (live @ [entry])\<rparr>, New))"
proof -
  have s: "sorted (map ce_expires_at live)" "length live \<le> n"
    using assms(1) by (auto simp: cache_inv_def live_def sorted_map_filter intro: order_trans [OF length_filter_le])
  have ex: "list_ex (\<lambda>e. ce_key e = key_of r) live \<longleftrightarrow> key_of r \<in> ce_key ` set live"
    by (auto simp: list_ex_iff image_iff intro: sym)
  show ?thesis
  proof (cases "length live < n")
    case True
    then show ?thesis
      by (simp add: observe_def prune_expired_def push_within_def ex entry_def flip: live_def)
  next
    case False
    then have "length live = n" using s by simp
    moreover from this have "tl live @ [entry] = keep_last n (live @ [entry])"
      using assms(2) by (cases live) (simp_all add: keep_last_def)
    ultimately show ?thesis using s assms(2)
      by (simp add: observe_def prune_expired_def push_within_def ex entry_def evict_oldest_sorted Let_def
          flip: live_def)
  qed
qed


lemma observe_ttl [simp]: "dc_ttl_ms (fst (observe n c r t)) = dc_ttl_ms c"
  by (simp add: observe_def evict_oldest_def prune_expired_def Let_def split: option.split)

lemma distinct_map_keep_last: "distinct (map f xs) \<Longrightarrow> distinct (map f (keep_last n xs))"
  by (simp add: keep_last_def drop_map [symmetric])

lemma sorted_map_keep_last: "sorted (map f xs) \<Longrightarrow> sorted (map f (keep_last n xs))"
  by (simp add: keep_last_def drop_map [symmetric] sorted_wrt_drop)

lemma set_keep_last: "set (keep_last n xs) \<subseteq> set xs"
  by (simp add: keep_last_def set_drop_subset)

lemma cache_inv_later: "cache_inv n now c \<Longrightarrow> now \<le> t \<Longrightarrow> cache_inv n t c"
  unfolding cache_inv_def using sat_add_u64_mono [of now t "dc_ttl_ms c"]
  by (fastforce simp: list_all_iff)

lemma cache_inv_observe:
  assumes "cache_inv n now c" "0 < n" "now \<le> t"
  shows "cache_inv n t (fst (observe n c r t))"
proof -
  have "cache_inv n t c" using assms cache_inv_later by blast
  then show ?thesis
    unfolding observe_entries [OF assms(1,2)] cache_inv_def
    by (auto simp: list_all_iff sorted_map_filter distinct_map_filter sorted_append
        intro!: distinct_map_keep_last sorted_map_keep_last order_trans [OF length_filter_le]
        dest!: set_keep_last [THEN subsetD])
qed

section \<open>The contract of a deduplication window\<close>

text \<open>
  What a client of the cache relies on: a reading is a duplicate exactly when its key is live,
  a new reading is live until its deadline, and an observation that finds a duplicate changes
  nothing about later liveness.
\<close>

locale dedupe_window =
  fixes obs :: "'c \<Rightarrow> 'r \<Rightarrow> nat \<Rightarrow> 'c \<times> DedupeOutcome" and key :: "'r \<Rightarrow> 'k"
    and inv :: "nat \<Rightarrow> 'c \<Rightarrow> bool" and live :: "nat \<Rightarrow> 'c \<Rightarrow> 'k set" and deadline :: "nat \<Rightarrow> nat"
  assumes inv_obs: "inv now c \<Longrightarrow> now \<le> t \<Longrightarrow> inv t (fst (obs c r t))"
    and dup_iff: "inv now c \<Longrightarrow> now \<le> t \<Longrightarrow> snd (obs c r t) = Duplicate \<longleftrightarrow> key r \<in> live t c"
    and live_new: "inv now c \<Longrightarrow> now \<le> t \<Longrightarrow> snd (obs c r t) = New \<Longrightarrow> t \<le> t' \<Longrightarrow> t' < deadline t
      \<Longrightarrow> key r \<in> live t' (fst (obs c r t))"
    and live_dup: "inv now c \<Longrightarrow> now \<le> t \<Longrightarrow> snd (obs c r t) = Duplicate \<Longrightarrow> t \<le> t'
      \<Longrightarrow> live t' (fst (obs c r t)) = live t' c"
begin

fun outcomes :: "'c \<Rightarrow> ('r \<times> nat) list \<Rightarrow> DedupeOutcome list" where
  "outcomes c [] = []"
| "outcomes c ((r, t) # os) = snd (obs c r t) # outcomes (fst (obs c r t)) os"

lemma live_outcomes_duplicate:
  assumes "inv now c" "sorted (now # map snd os)" "\<And>r t. (r, t) \<in> set os \<Longrightarrow> key r = k \<and> t < d"
    and "\<And>t. now \<le> t \<Longrightarrow> t < d \<Longrightarrow> k \<in> live t c"
  shows "outcomes c os = replicate (length os) Duplicate"
  using assms
proof (induction os arbitrary: now c)
  case (Cons o' os)
  obtain r t where o': "o' = (r, t)" by (cases o')
  have t: "now \<le> t" "key r = k" "t < d" using Cons.prems(2,3) by (auto simp: o')
  have dup: "snd (obs c r t) = Duplicate" using dup_iff [OF Cons.prems(1)] t Cons.prems(4) by simp
  have "outcomes (fst (obs c r t)) os = replicate (length os) Duplicate"
  proof (rule Cons.IH [of t])
    show "inv t (fst (obs c r t))" using Cons.prems(1) t by (simp add: inv_obs)
    show "sorted (t # map snd os)" using Cons.prems(2) by (simp add: o')
    show "key r = k \<and> t < d" if "(r, t) \<in> set os" for r t using that Cons.prems(3) [of r t] by simp
    show "k \<in> live t' (fst (obs c r t))" if "t \<le> t'" "t' < d" for t'
      using live_dup [OF Cons.prems(1) t(1) dup that(1)] Cons.prems(4) t that by simp
  qed
  then show ?case by (simp add: o' dup)
qed simp

lemma burst_outcomes:
  assumes "inv now c" "now \<le> t" "snd (obs c r t) = New" "sorted (t # map snd os)"
    and "\<And>r' t'. (r', t') \<in> set os \<Longrightarrow> key r' = key r \<and> t' < deadline t"
  shows "outcomes c ((r, t) # os) = New # replicate (length os) Duplicate"
  using live_outcomes_duplicate [of t "fst (obs c r t)" os "key r" "deadline t"] assms
    inv_obs [OF assms(1,2)] live_new [OF assms(1-3)]
  by simp

end

definition live_keys :: "nat \<Rightarrow> DedupeCache \<Rightarrow> DedupeKey set" where
  "live_keys t c = ce_key ` set (filter (\<lambda>e. t < ce_expires_at e) (dc_entries c))"

definition window_inv :: "nat \<Rightarrow> nat \<Rightarrow> nat \<Rightarrow> DedupeCache \<Rightarrow> bool" where
  "window_inv n ttl now c \<longleftrightarrow> 0 < n \<and> dc_ttl_ms c = ttl \<and> cache_inv n now c"

lemma in_keep_last_snoc: "0 < n \<Longrightarrow> x \<in> set (keep_last n (xs @ [x]))"
  by (simp add: keep_last_rev split: nat.split) (cases n, simp_all)

interpretation dw: dedupe_window "observe n" key_of "window_inv n ttl" live_keys "\<lambda>t. sat_add_u64 t ttl" for n ttl
proof unfold_locales
  fix now t t' c and r :: TelemetryRecord
  assume w: "window_inv n ttl now c" and t: "now \<le> t"
  note o = observe_entries [of n now c r t]
  show "window_inv n ttl t (fst (observe n c r t))"
    using w t cache_inv_observe by (auto simp: window_inv_def)
  show "snd (observe n c r t) = Duplicate \<longleftrightarrow> key_of r \<in> live_keys t c"
    using w by (simp add: window_inv_def o live_keys_def)
  show "key_of r \<in> live_keys t' (fst (observe n c r t))"
    if "snd (observe n c r t) = New" "t \<le> t'" "t' < sat_add_u64 t ttl"
    unfolding live_keys_def
    by (rule image_eqI [where x = "\<lparr>ce_key = key_of r, ce_expires_at = sat_add_u64 t ttl\<rparr>"])
       (use that w in_keep_last_snoc in \<open>auto simp: window_inv_def o split: if_splits\<close>)
  show "live_keys t' (fst (observe n c r t)) = live_keys t' c"
    if "snd (observe n c r t) = Duplicate" "t \<le> t'"
    using that w by (auto simp: window_inv_def o live_keys_def split: if_splits)
qed


section \<open>Survival and soundness of the window\<close>

lemma keep_last_append:
  "length ys \<le> n \<Longrightarrow> keep_last n (xs @ ys) = keep_last (n - length ys) xs @ ys"
  by (simp add: keep_last_rev)

fun count_new :: "DedupeOutcome list \<Rightarrow> nat" where
  "count_new [] = 0"
| "count_new (New # os) = Suc (count_new os)"
| "count_new (Duplicate # os) = count_new os"

lemma observe_keeps_entry:
  assumes "cache_inv n now c" "0 < n" "dc_entries c = pre @ e # suf" "t < ce_expires_at e"
    and "length suf + count_new [snd (observe n c r t)] < n"
  obtains pre' suf' where "dc_entries (fst (observe n c r t)) = pre' @ e # suf'"
    "length suf' \<le> length suf + count_new [snd (observe n c r t)]"
proof -
  let ?f = "filter (\<lambda>e. t < ce_expires_at e)"
  let ?x = "\<lparr>ce_key = key_of r, ce_expires_at = sat_add_u64 t (dc_ttl_ms c)\<rparr>"
  note o = observe_entries [OF assms(1,2), of r t, unfolded assms(3)]
  have l: "length (?f suf) \<le> length suf" by simp
  show thesis
  proof (cases "snd (observe n c r t)")
    case New
    have "keep_last n (?f pre @ e # ?f suf @ [?x]) =
        keep_last (n - length (e # ?f suf @ [?x])) (?f pre) @ e # ?f suf @ [?x]"
      using assms(5) l New by (intro keep_last_append) (simp del: length_filter_le)
    then show thesis using that [of _ "?f suf @ [?x]"] New assms(4) l by (auto simp: o split: if_splits)
  next
    case Duplicate
    then show thesis using that [of "?f pre" "?f suf"] assms(4) l by (auto simp: o split: if_splits)
  qed
qed

lemma observe_all_keeps_entry:
  assumes "cache_inv n now c" "0 < n" "sorted (now # map snd obs)"
    and "dc_entries c = pre @ e # suf" "\<And>r t. (r, t) \<in> set obs \<Longrightarrow> t < ce_expires_at e"
    and "length suf + count_new (snd (observe_all n c obs)) < n"
  shows "cache_inv n (last (now # map snd obs)) (fst (observe_all n c obs)) \<and>
    e \<in> set (dc_entries (fst (observe_all n c obs)))"
  using assms
proof (induction obs arbitrary: now c pre suf)
  case (Cons ob obs)
  obtain r t where ob: "ob = (r, t)" by (cases ob)
  let ?c = "fst (observe n c r t)" and ?x = "snd (observe n c r t)"
  have all: "observe_all n c (ob # obs) = (fst (observe_all n ?c obs), ?x # snd (observe_all n ?c obs))"
    by (simp add: ob split_beta Let_def)
  have cnt: "count_new (?x # os) = count_new [?x] + count_new os" for os by (cases ?x) simp_all
  have t: "t < ce_expires_at e" "now \<le> t" using Cons.prems(3,5) ob by auto
  obtain pre' suf' where e: "dc_entries ?c = pre' @ e # suf'" "length suf' \<le> length suf + count_new [?x]"
    by (rule observe_keeps_entry [OF Cons.prems(1,2,4) t(1), of r])
       (use Cons.prems(6) cnt [of "snd (observe_all n ?c obs)"] in \<open>simp_all add: all\<close>)
  have "cache_inv n (last (t # map snd obs)) (fst (observe_all n ?c obs)) \<and>
      e \<in> set (dc_entries (fst (observe_all n ?c obs)))"
  proof (rule Cons.IH [OF cache_inv_observe [OF Cons.prems(1,2) t(2)] Cons.prems(2) _ e(1)])
    show "sorted (t # map snd obs)" using Cons.prems(3) by (simp add: ob)
    show "t' < ce_expires_at e" if "(r', t') \<in> set obs" for r' t' using Cons.prems(5) [of r' t'] that by simp
    show "length suf' + count_new (snd (observe_all n ?c obs)) < n"
      using Cons.prems(6) e(2) cnt [of "snd (observe_all n ?c obs)"] by (simp add: all)
  qed
  then show ?case unfolding all by (simp add: ob split: if_splits)
qed simp

lemma observe_all_snoc:
  "observe_all n c (obs @ [(r, t)]) =
    (let (c, xs) = observe_all n c obs; (c, x) = observe n c r t in (c, xs @ [x]))"
  by (induction obs arbitrary: c) (auto simp: split_beta Let_def)

lemma length_observe_all [simp]: "length (snd (observe_all n c obs)) = length obs"
  by (induction obs arbitrary: c) (auto simp: split_beta Let_def)

lemma observe_entries_subset:
  "set (dc_entries (fst (observe n c r t))) \<subseteq> set (dc_entries c) \<union>
    (if snd (observe n c r t) = New then {\<lparr>ce_key = key_of r, ce_expires_at = sat_add_u64 t (dc_ttl_ms c)\<rparr>} else {})"
  by (auto simp: observe_def prune_expired_def push_within_def evict_oldest_def Let_def
      split: option.splits if_splits dest: in_set_takeD in_set_dropD)

lemma observe_duplicate_entry:
  "snd (observe n c r t) = Duplicate \<Longrightarrow> \<exists>e\<in>set (dc_entries c). ce_key e = key_of r \<and> t < ce_expires_at e"
  by (auto simp: observe_def prune_expired_def list_ex_iff Let_def split: option.splits if_splits)

lemma observe_all_ttl [simp]: "dc_ttl_ms (fst (observe_all n c obs)) = dc_ttl_ms c"
  by (induction obs arbitrary: c) (auto simp: split_beta Let_def)

text \<open>Every entry of the cache stems from an earlier observation that was accepted as new.\<close>

lemma observe_all_entries_justified:
  assumes "e \<in> set (dc_entries (fst (observe_all n (dedupe_new ttl) obs)))"
  shows "\<exists>j < length obs. snd (observe_all n (dedupe_new ttl) obs) ! j = New \<and>
    ce_key e = key_of (fst (obs ! j)) \<and> ce_expires_at e = sat_add_u64 (snd (obs ! j)) ttl"
  using assms
proof (induction obs arbitrary: e rule: rev_induct)
  case Nil
  then show ?case by (simp add: dedupe_new_def)
next
  case (snoc ob obs)
  obtain r t where ob: "ob = (r, t)" by (cases ob)
  let ?c = "fst (observe_all n (dedupe_new ttl) obs)"
  have e: "e \<in> set (dc_entries (fst (observe n ?c r t)))"
    using snoc.prems by (simp add: ob observe_all_snoc split_beta Let_def)
  have out: "snd (observe_all n (dedupe_new ttl) (obs @ [ob])) =
      snd (observe_all n (dedupe_new ttl) obs) @ [snd (observe n ?c r t)]"
    by (simp add: ob observe_all_snoc split_beta Let_def)
  have ttl: "dc_ttl_ms ?c = ttl" by (simp add: dedupe_new_def)
  show ?case
  proof (cases "e \<in> set (dc_entries ?c)")
    case True
    from snoc.IH [OF this] show ?thesis unfolding out by (force simp: nth_append)
  next
    case False
    then have "snd (observe n ?c r t) = New" "e = \<lparr>ce_key = key_of r, ce_expires_at = sat_add_u64 t ttl\<rparr>"
      using e observe_entries_subset [of n ?c r t] ttl by (auto split: if_splits)
    then show ?thesis unfolding out by (intro exI [of _ "length obs"]) (simp add: ob nth_append)
  qed
qed


section \<open>Properties\<close>

definition enqueue_all :: "nat \<Rightarrow> TelemetryQueue \<Rightarrow> TelemetryRecord list \<Rightarrow> TelemetryQueue" where
  "enqueue_all n q rs = fold (\<lambda>r q. fst (enqueue n q r)) rs q"

fun dequeue_upto :: "nat \<Rightarrow> TelemetryQueue \<Rightarrow> TelemetryRecord list" where
  "dequeue_upto 0 q = []"
| "dequeue_upto (Suc k) q = (case dequeue q of (q', None) \<Rightarrow> [] | (q', Some r) \<Rightarrow> r # dequeue_upto k q')"

lemma dequeue_upto_drain: "dequeue_upto k q = oldest.drain k q" "dequeue_upto k q = newest.drain k q"
  by (induction k arbitrary: q) (auto split: option.split)

lemma dropped_total_enqueue_all:
  assumes "queue_inv n q" "tq_dropped_total q < 2 ^ 64"
  shows "tq_dropped_total (enqueue_all n q rs) =
    (tq_dropped_total q + (length (tq_records q) + length rs - n)) mod 2 ^ 64"
  using assms
proof (induction rs arbitrary: q)
  case (Cons r rs)
  let ?q = "fst (enqueue n q r)"
  have len: "length (tq_records ?q) = min n (length (tq_records q) + 1)"
    using enqueue_records [OF Cons.prems(1), of r] by (simp del: take_append split: DropPolicy.splits)
  have d: "tq_dropped_total ?q = (if length (tq_records q) < n then tq_dropped_total q
      else (tq_dropped_total q + 1) mod 2 ^ 64)"
    by (simp add: enqueue_def push_within_def Let_def split: DropPolicy.split)
  have "tq_dropped_total (enqueue_all n ?q rs) =
      (tq_dropped_total ?q + (length (tq_records ?q) + length rs - n)) mod 2 ^ 64"
    using Cons.prems by (intro Cons.IH enqueue_inv) (simp_all add: d)
  then show ?case
    using Cons.prems by (simp add: enqueue_all_def len d queue_inv_def mod_simps split: if_splits)
qed (simp add: enqueue_all_def queue_inv_def)

text \<open>
  C25: The bounded telemetry queue. Records offered to a queue and then taken out come back in
  the order they were offered; when they exceed the capacity, the policy \<open>DropOldest\<close> returns
  the last ones and \<open>DropNewest\<close> the first ones, and the drop counter (modulo its 64 bits) is
  the number of records that were lost.
\<close>

theorem telemetry_queue_keeps_policy_window:
  assumes "length rs \<le> k"
  shows "dequeue_upto k (enqueue_all n (queue_new p) rs) =
      (case p of DropOldest \<Rightarrow> drop (length rs - n) rs | DropNewest \<Rightarrow> take n rs) \<and>
    tq_dropped_total (enqueue_all n (queue_new p) rs) = (length rs - n) mod 2 ^ 64"
proof (rule conjI)
  have q: "queue_inv n (queue_new p)" "tq_drop_policy (queue_new p) = p" "tq_records (queue_new p) = []"
    "tq_dropped_total (queue_new p) = 0"
    by (simp_all add: queue_inv_def queue_new_def)
  show "dequeue_upto k (enqueue_all n (queue_new p) rs) =
      (case p of DropOldest \<Rightarrow> drop (length rs - n) rs | DropNewest \<Rightarrow> take n rs)"
  proof (cases p)
    case DropOldest
    then show ?thesis
      using oldest.drain_after_pushes [of n "queue_new p" k rs] q assms
      by (simp add: dequeue_upto_drain(1) enqueue_all_def keep_last_def)
  next
    case DropNewest
    then show ?thesis
      using newest.drain_after_pushes [of n "queue_new p" k rs] q assms
      by (simp add: dequeue_upto_drain(2) enqueue_all_def min_def)
  qed
  show "tq_dropped_total (enqueue_all n (queue_new p) rs) = (length rs - n) mod 2 ^ 64"
    using dropped_total_enqueue_all [of n "queue_new p" rs] q by simp
qed

definition sample_record :: "u8 \<Rightarrow> TelemetryRecord" where
  "sample_record i = \<lparr>tr_sensor_id = i, tr_channel = 1, tr_temperature_deci_c = 215,
     tr_battery_ok = True, tr_timestamp = 0\<rparr>"

theorem telemetry_queue_keeps_policy_window_witness:
  "dequeue_upto 3 (enqueue_all 2 (queue_new DropOldest) [sample_record 1, sample_record 2, sample_record 3])
     = [sample_record 2, sample_record 3]"
  using telemetry_queue_keeps_policy_window
    [of "[sample_record 1, sample_record 2, sample_record 3]" 3 2 DropOldest]
  by simp

text \<open>
  C24: The deduplication window suppresses repeats. After a record was accepted as new at time
  \<open>t\<^sub>0\<close>, any record with the same sensor, channel, temperature and battery flag is a duplicate
  at every later time before \<open>t\<^sub>0 + ttl\<close> (saturating), as long as fewer than \<open>n\<close> other
  records, the capacity of the cache, were accepted in between.
\<close>

theorem dedupe_suppresses_within_ttl:
  assumes "0 < n" "window_inv n ttl now c" "now \<le> t0" "snd (observe n c r t0) = New"
    and "sorted (t0 # map snd obs @ [t])" "t < sat_add_u64 t0 ttl"
    and "count_new (snd (observe_all n (fst (observe n c r t0)) obs)) < n"
    and "key_of r' = key_of r"
  shows "snd (observe n (fst (observe_all n (fst (observe n c r t0)) obs)) r' t) = Duplicate"
proof -
  let ?c = "fst (observe n c r t0)" and ?e = "\<lparr>ce_key = key_of r, ce_expires_at = sat_add_u64 t0 ttl\<rparr>"
  have inv: "cache_inv n t0 ?c"
    using assms(1-3) cache_inv_observe by (auto simp: window_inv_def)
  obtain pre where "dc_entries ?c = pre @ ?e # []"
    using observe_entries [of n now c r t0] assms(1,2,4) keep_last_append [of "[?e]" n]
    by (auto simp: window_inv_def Suc_le_eq split: if_splits)
  moreover have "u < ce_expires_at ?e" if "(x, u) \<in> set obs" for x u
    using that assms(5,6) by (force simp: sorted_append)
  ultimately have "cache_inv n (last (t0 # map snd obs)) (fst (observe_all n ?c obs)) \<and>
      ?e \<in> set (dc_entries (fst (observe_all n ?c obs)))"
    using assms(1,5,7) by (intro observe_all_keeps_entry [OF inv, where suf = "[]"]) (auto simp: sorted_append)
  then show ?thesis
    using assms(1,6,8) by (force simp: observe_entries)
qed

theorem dedupe_suppresses_within_ttl_witness:
  "snd (observe 8 (fst (observe_all 8 (fst (observe 8 (dedupe_new 30000) (sample_record 7) 1000))
     [(sample_record 8, 2000)])) (sample_record 7) 20000) = Duplicate"
  by (rule dedupe_suppresses_within_ttl [where now = 0 and ttl = 30000 and r = "sample_record 7"])
     (simp_all add: window_inv_def cache_inv_def dedupe_new_def sat_add_u64_def u64_max_def observe_def
       prune_expired_def push_within_def key_of_def sample_record_def)

text \<open>
  The window suppresses nothing else. In any sequence of observations from an empty cache,
  in any order of times and at any capacity, a record is reported as a duplicate only if an
  earlier observation with the same key was accepted as new and its deadline has not passed.
\<close>

theorem dedupe_duplicate_is_justified:
  assumes "i < length obs" "snd (observe_all n (dedupe_new ttl) obs) ! i = Duplicate"
  shows "\<exists>j < i. snd (observe_all n (dedupe_new ttl) obs) ! j = New \<and>
    key_of (fst (obs ! j)) = key_of (fst (obs ! i)) \<and> snd (obs ! i) < sat_add_u64 (snd (obs ! j)) ttl"
  using assms
proof (induction obs rule: rev_induct)
  case (snoc ob obs)
  obtain r t where ob: "ob = (r, t)" by (cases ob)
  let ?c = "fst (observe_all n (dedupe_new ttl) obs)"
  have out: "snd (observe_all n (dedupe_new ttl) (obs @ [ob])) =
      snd (observe_all n (dedupe_new ttl) obs) @ [snd (observe n ?c r t)]"
    by (simp add: ob observe_all_snoc split_beta Let_def)
  show ?case
  proof (cases "i < length obs")
    case True
    then obtain j where j: "j < i" "snd (observe_all n (dedupe_new ttl) obs) ! j = New"
      "key_of (fst (obs ! j)) = key_of (fst (obs ! i))" "snd (obs ! i) < sat_add_u64 (snd (obs ! j)) ttl"
      using snoc.IH snoc.prems(2) unfolding out by (auto simp: nth_append)
    then show ?thesis using True unfolding out by (intro exI [of _ j]) (simp add: nth_append)
  next
    case False
    then have i: "i = length obs" using snoc.prems(1) by simp
    then have "snd (observe n ?c r t) = Duplicate" using snoc.prems(2) out by (simp add: nth_append)
    from observe_duplicate_entry [OF this] obtain e where
      "e \<in> set (dc_entries ?c)" "ce_key e = key_of r" "t < ce_expires_at e" by blast
    moreover from this(1) obtain j where "j < length obs" "snd (observe_all n (dedupe_new ttl) obs) ! j = New"
      "ce_key e = key_of (fst (obs ! j))" "ce_expires_at e = sat_add_u64 (snd (obs ! j)) ttl"
      using observe_all_entries_justified by blast
    ultimately show ?thesis unfolding out i by (intro exI [of _ j]) (simp add: nth_append ob)
  qed
qed simp

theorem dedupe_duplicate_is_justified_witness:
  "\<exists>j < 1. snd (observe_all 8 (dedupe_new 30000) [(sample_record 7, 1000), (sample_record 7, 2000)]) ! j = New"
proof -
  have "snd (observe_all 8 (dedupe_new 30000) [(sample_record 7, 1000), (sample_record 7, 2000)]) ! 1 = Duplicate"
    by (simp add: dedupe_new_def sat_add_u64_def u64_max_def observe_def
       prune_expired_def push_within_def key_of_def sample_record_def)
  from dedupe_duplicate_is_justified [OF _ this] show ?thesis by auto
qed

end
