(* ===== verification/Config_Rules.thy ===== *)
theory Config_Rules
  imports Prelude F32
begin

text \<open>
  The domain types and the configuration rules of \<open>crates/app-core/src/domain.rs\<close> and
  \<open>config_rules.rs\<close>, and the runtime policy of \<open>runtime_policy.rs\<close>: clamping of radio and power
  settings, the predictive sleep decision, the idle deadline of the user interface and the
  reconnect backoff. A duration is its number of nanoseconds.
\<close>

section \<open>Domain types\<close>

record SensorReading =
  sr_sensor_id :: u8
  sr_channel :: u8
  sr_battery_ok :: bool
  sr_temperature_c :: f32
  sr_rssi_dbm :: int
  sr_detection_threshold_db :: u8

record RadioConfigView =
  rc_detection_threshold_db :: u8
  rc_magn_target :: u8
  rc_channel_bandwidth_index :: u8
  rc_carrier_sense_threshold :: u8

record PowerConfigView =
  pc_predictive_sleep_enabled :: bool
  pc_sleep_duration_secs :: u8
  pc_ui_idle_timeout_secs :: u8

datatype UiScreenState = UiWaiting | UiMain | UiRadioOverview | UiRadioSettings

section \<open>Configuration rules\<close>

definition DETECTION_THRESHOLD_MIN_DB :: u8 where [const_defs]: "DETECTION_THRESHOLD_MIN_DB = 4"
definition DETECTION_THRESHOLD_MAX_DB :: u8 where [const_defs]: "DETECTION_THRESHOLD_MAX_DB = 16"
definition DETECTION_THRESHOLD_STEP_DB :: u8 where [const_defs]: "DETECTION_THRESHOLD_STEP_DB = 4"
definition MAGN_TARGET_MIN :: u8 where [const_defs]: "MAGN_TARGET_MIN = 0"
definition MAGN_TARGET_MAX :: u8 where [const_defs]: "MAGN_TARGET_MAX = 7"
definition CHANNEL_BANDWIDTH_MIN_INDEX :: u8 where [const_defs]: "CHANNEL_BANDWIDTH_MIN_INDEX = 0"
definition CHANNEL_BANDWIDTH_MAX_INDEX :: u8 where [const_defs]: "CHANNEL_BANDWIDTH_MAX_INDEX = 3"
definition CARRIER_SENSE_MIN :: u8 where [const_defs]: "CARRIER_SENSE_MIN = 0"
definition CARRIER_SENSE_MAX :: u8 where [const_defs]: "CARRIER_SENSE_MAX = 7"
definition DEFAULT_DETECTION_THRESHOLD_DB :: u8 where
  [const_defs]: "DEFAULT_DETECTION_THRESHOLD_DB = DETECTION_THRESHOLD_MIN_DB"
definition DEFAULT_MAGN_TARGET :: u8 where [const_defs]: "DEFAULT_MAGN_TARGET = 3"
definition DEFAULT_CHANNEL_BANDWIDTH_INDEX :: u8 where [const_defs]: "DEFAULT_CHANNEL_BANDWIDTH_INDEX = 1"
definition DEFAULT_CHANNEL_BANDWIDTH_HZ :: u32 where [const_defs]: "DEFAULT_CHANNEL_BANDWIDTH_HZ = 203000"
definition DEFAULT_CARRIER_SENSE_THRESHOLD :: u8 where
  [const_defs]: "DEFAULT_CARRIER_SENSE_THRESHOLD = CARRIER_SENSE_MAX"
definition POWER_SLEEP_DURATION_MIN_SECS :: u8 where [const_defs]: "POWER_SLEEP_DURATION_MIN_SECS = 1"
definition POWER_SLEEP_DURATION_MAX_SECS :: u8 where [const_defs]: "POWER_SLEEP_DURATION_MAX_SECS = 59"
definition POWER_UI_IDLE_TIMEOUT_MIN_SECS :: u8 where [const_defs]: "POWER_UI_IDLE_TIMEOUT_MIN_SECS = 5"
definition POWER_UI_IDLE_TIMEOUT_MAX_SECS :: u8 where [const_defs]: "POWER_UI_IDLE_TIMEOUT_MAX_SECS = 180"
definition POWER_DEFAULT_PREDICTIVE_SLEEP_ENABLED :: bool where
  [const_defs]: "POWER_DEFAULT_PREDICTIVE_SLEEP_ENABLED = True"
definition POWER_DEFAULT_SLEEP_DURATION_SECS :: u8 where [const_defs]: "POWER_DEFAULT_SLEEP_DURATION_SECS = 45"
definition POWER_DEFAULT_UI_IDLE_TIMEOUT_SECS :: u8 where [const_defs]: "POWER_DEFAULT_UI_IDLE_TIMEOUT_SECS = 60"

definition quantize_detection_threshold_db :: "u8 \<Rightarrow> u8" where
  "quantize_detection_threshold_db db = (if db \<le> 6 then 4 else if db \<le> 10 then 8 else if db \<le> 14 then 12 else 16)"

definition clamp_radio_config :: "RadioConfigView \<Rightarrow> RadioConfigView" where
  "clamp_radio_config s =
     \<lparr>rc_detection_threshold_db = quantize_detection_threshold_db (rc_detection_threshold_db s),
      rc_magn_target = clamp_ord MAGN_TARGET_MIN MAGN_TARGET_MAX (rc_magn_target s),
      rc_channel_bandwidth_index =
        clamp_ord CHANNEL_BANDWIDTH_MIN_INDEX CHANNEL_BANDWIDTH_MAX_INDEX (rc_channel_bandwidth_index s),
      rc_carrier_sense_threshold =
        clamp_ord CARRIER_SENSE_MIN CARRIER_SENSE_MAX (rc_carrier_sense_threshold s)\<rparr>"

definition clamp_power_config :: "PowerConfigView \<Rightarrow> PowerConfigView" where
  "clamp_power_config s =
     \<lparr>pc_predictive_sleep_enabled = pc_predictive_sleep_enabled s,
      pc_sleep_duration_secs =
        clamp_ord POWER_SLEEP_DURATION_MIN_SECS POWER_SLEEP_DURATION_MAX_SECS (pc_sleep_duration_secs s),
      pc_ui_idle_timeout_secs =
        clamp_ord POWER_UI_IDLE_TIMEOUT_MIN_SECS POWER_UI_IDLE_TIMEOUT_MAX_SECS (pc_ui_idle_timeout_secs s)\<rparr>"

definition NANOS_PER_SEC :: nat where "NANOS_PER_SEC = 1000000000"

definition predictive_sleep_window_cap_secs :: "nat \<Rightarrow> u8" where
  "predictive_sleep_window_cap_secs elapsed_ns =
     (let window_secs = 60 - elapsed_ns div NANOS_PER_SEC - 10;
          window_secs_u8 = (if window_secs < 256 then of_nat window_secs else 255)
      in min POWER_SLEEP_DURATION_MAX_SECS window_secs_u8)"

section \<open>Runtime policy\<close>

definition PREDICTIVE_SLEEP_MAX_MEASUREMENT_AGE_SECS :: nat where
  [const_defs]: "PREDICTIVE_SLEEP_MAX_MEASUREMENT_AGE_SECS = 20"
definition MQTT_MIN_BACKOFF_SECS :: nat where [const_defs]: "MQTT_MIN_BACKOFF_SECS = 1"
definition MQTT_MAX_BACKOFF_SECS :: nat where [const_defs]: "MQTT_MAX_BACKOFF_SECS = 60"
definition MQTT_RECONNECT_BEFORE_PUBLISH_IDLE_SECS :: nat where
  [const_defs]: "MQTT_RECONNECT_BEFORE_PUBLISH_IDLE_SECS = 20"

datatype PredictiveSleepDecision =
    QueueNotEmpty | MeasurementTooOld | PredictiveSleepDisabled
  | UiIdleDeadlineNotElapsed nat | OTAUpdateInProgress | Sleep u8

text \<open>\<open>None\<close> is the panic of \<open>clamp\<close> on bounds in the wrong order.\<close>

definition predictive_sleep_decision ::
  "bool \<Rightarrow> nat \<Rightarrow> bool \<Rightarrow> u8 \<Rightarrow> nat \<Rightarrow> bool \<Rightarrow> nat \<Rightarrow> PredictiveSleepDecision option" where
  "predictive_sleep_decision queue_empty elapsed_ns predictive_sleep_enabled configured_sleep_secs
     now_secs ota_update_in_progress ui_idle_deadline_secs =
     (if \<not> queue_empty then Some QueueNotEmpty
      else if PREDICTIVE_SLEEP_MAX_MEASUREMENT_AGE_SECS * NANOS_PER_SEC < elapsed_ns
      then Some MeasurementTooOld
      else if \<not> predictive_sleep_enabled then Some PredictiveSleepDisabled
      else if now_secs < ui_idle_deadline_secs
      then Some (UiIdleDeadlineNotElapsed (ui_idle_deadline_secs - now_secs))
      else if ota_update_in_progress then Some OTAUpdateInProgress
      else let max_sleep_secs = predictive_sleep_window_cap_secs elapsed_ns
           in map_option Sleep
                (clamp_checked POWER_SLEEP_DURATION_MIN_SECS max_sleep_secs configured_sleep_secs))"

definition next_ui_idle_deadline_secs :: "bool \<Rightarrow> bool \<Rightarrow> nat \<Rightarrow> nat \<Rightarrow> u8 \<Rightarrow> nat" where
  "next_ui_idle_deadline_secs predictive_sleep_enabled rearm_idle_countdown now_secs
     current_deadline_secs ui_idle_timeout_secs =
     (if \<not> predictive_sleep_enabled then 0
      else let max_deadline = sat_add_u32 now_secs (unat ui_idle_timeout_secs)
           in if rearm_idle_countdown then max_deadline else min current_deadline_secs max_deadline)"

definition should_reconnect_before_publish :: "nat \<Rightarrow> bool" where
  "should_reconnect_before_publish idle_secs \<longleftrightarrow> MQTT_RECONNECT_BEFORE_PUBLISH_IDLE_SECS < idle_secs"

definition next_mqtt_backoff_secs :: "nat \<Rightarrow> nat" where
  "next_mqtt_backoff_secs current_backoff_secs =
     min (min (current_backoff_secs * 2) u64_max) MQTT_MAX_BACKOFF_SECS"

section \<open>The contract of a clamp\<close>

locale normalising =
  fixes norm :: "'a \<Rightarrow> 'a" and valid :: "'a \<Rightarrow> bool"
  assumes valid_norm: "valid (norm x)" and norm_valid: "valid x \<Longrightarrow> norm x = x"
begin

lemma norm_idem: "norm (norm x) = norm x"
  by (simp add: norm_valid valid_norm)

lemma norm_fixed_iff: "norm x = x \<longleftrightarrow> valid x"
  by (metis norm_valid valid_norm)

end

definition valid_radio_config :: "RadioConfigView \<Rightarrow> bool" where
  "valid_radio_config s \<longleftrightarrow> rc_detection_threshold_db s \<in> {4, 8, 12, 16} \<and> rc_magn_target s \<le> 7 \<and>
     rc_channel_bandwidth_index s \<le> 3 \<and> rc_carrier_sense_threshold s \<le> 7"

definition valid_power_config :: "PowerConfigView \<Rightarrow> bool" where
  "valid_power_config s \<longleftrightarrow> 1 \<le> pc_sleep_duration_secs s \<and> pc_sleep_duration_secs s \<le> 59 \<and>
     5 \<le> pc_ui_idle_timeout_secs s \<and> pc_ui_idle_timeout_secs s \<le> 180"

interpretation radio_norm: normalising clamp_radio_config valid_radio_config
  by unfold_locales
     (auto simp: valid_radio_config_def clamp_radio_config_def quantize_detection_threshold_db_def
        const_defs clamp_ord_def not_less)

lemma u8_one_le_iff: "1 \<le> (w :: u8) \<longleftrightarrow> w \<noteq> 0"
  by (simp add: word_le_nat_alt Suc_le_eq unat_gt_0)

interpretation power_norm: normalising clamp_power_config valid_power_config
  by unfold_locales
     (auto simp: valid_power_config_def clamp_power_config_def const_defs clamp_ord_def not_less u8_one_le_iff)

section \<open>Lemmas of the policy\<close>

lemma sleep_window_cap_young:
  assumes "elapsed_ns \<le> 20 * NANOS_PER_SEC"
  shows "unat (predictive_sleep_window_cap_secs elapsed_ns) = 50 - elapsed_ns div NANOS_PER_SEC"
proof -
  define e where "e = elapsed_ns div NANOS_PER_SEC"
  have "e \<le> 20" using assms by (simp add: NANOS_PER_SEC_def e_def)
  define n where "n = 60 - e - 10"
  have n: "n < 256" "n < 59" "50 - e = n" using \<open>e \<le> 20\<close> by (simp_all add: n_def)
  then have "unat (of_nat n :: u8) = n" by (simp add: unat_of_nat take_bit_nat_eq_self)
  then have "unat (min 59 (of_nat n) :: u8) = n" using n by (simp add: min_def word_le_nat_alt)
  then show ?thesis
    unfolding predictive_sleep_window_cap_secs_def Let_def e_def [symmetric] n_def [symmetric] n(3)
    using n by (simp add: const_defs)
qed

lemma mqtt_backoff_steps: "(next_mqtt_backoff_secs ^^ k) MQTT_MIN_BACKOFF_SECS = min (2 ^ k) 60"
  by (induction k) (auto simp: next_mqtt_backoff_secs_def const_defs u64_max_def min_def)

lemma sleep_decision_cases:
  "\<exists>d. predictive_sleep_decision queue_empty age_ns enabled configured now ota deadline = Some d \<and>
    ((\<exists>s. d = Sleep s) \<longleftrightarrow>
      queue_empty \<and> age_ns \<le> 20 * NANOS_PER_SEC \<and> enabled \<and> deadline \<le> now \<and> \<not> ota) \<and>
    (\<forall>s. d = Sleep s \<longrightarrow>
      1 \<le> s \<and> s \<le> max 1 configured \<and> age_ns + unat s * NANOS_PER_SEC < 51 * NANOS_PER_SEC)"
proof (cases "queue_empty \<and> age_ns \<le> 20 * NANOS_PER_SEC \<and> enabled \<and> deadline \<le> now \<and> \<not> ota")
  case True
  let ?cap = "predictive_sleep_window_cap_secs age_ns"
  let ?s = "clamp_ord 1 ?cap configured"
  have cap: "unat ?cap = 50 - age_ns div NANOS_PER_SEC" using True by (simp add: sleep_window_cap_young)
  have "age_ns \<le> 20 * NANOS_PER_SEC" using True by blast
  then have age: "age_ns div NANOS_PER_SEC \<le> 20" by (simp add: NANOS_PER_SEC_def)
  have "1 \<le> ?cap" using cap age by (simp add: word_le_nat_alt)
  then have s: "1 \<le> ?s" "?s \<le> ?cap" "?s \<le> max 1 configured" by (auto simp: clamp_ord_def max_def not_less u8_one_le_iff)
  then have "unat ?s + age_ns div NANOS_PER_SEC \<le> 50" using cap age by (simp add: word_le_nat_alt)
  then have "age_ns + unat ?s * NANOS_PER_SEC < 51 * NANOS_PER_SEC"
    by (simp add: NANOS_PER_SEC_def)
  then show ?thesis
    using True \<open>1 \<le> ?cap\<close> s
    by (simp add: predictive_sleep_decision_def clamp_checked_def const_defs)
next
  case False
  then show ?thesis by (auto simp: predictive_sleep_decision_def const_defs)
qed


section \<open>Properties\<close>

text \<open>
  Clamping is a projection onto the valid settings: the result of clamping is always valid
  (threshold 4, 8, 12 or 16 dB, gain and carrier sense at most 7, bandwidth index at most 3;
  sleep 1 to 59 s, idle timeout 5 to 180 s), and a setting is unchanged exactly when it is valid.
\<close>

theorem config_clamps_project_onto_valid:
  "valid_radio_config (clamp_radio_config r) \<and> (clamp_radio_config r = r \<longleftrightarrow> valid_radio_config r) \<and>
   valid_power_config (clamp_power_config p) \<and> (clamp_power_config p = p \<longleftrightarrow> valid_power_config p)"
  by (simp add: radio_norm.valid_norm power_norm.valid_norm radio_norm.norm_fixed_iff power_norm.norm_fixed_iff)

text \<open>
  Predictive sleep. The decision never panics; it is to sleep exactly when the queue is
  empty, the last measurement is at most 20 s old, predictive sleep is enabled, the idle
  deadline has passed and no update is in progress; and a sleep lasts from 1 s to the configured
  length, raised to 1 s, and ends before second 51 of the 60 s cadence, so that the next
  measurement is not slept through.
\<close>

theorem predictive_sleep_decision_safe:
  "\<exists>d. predictive_sleep_decision queue_empty age_ns enabled configured now ota deadline = Some d \<and>
    ((\<exists>s. d = Sleep s) \<longleftrightarrow>
      queue_empty \<and> age_ns \<le> 20 * NANOS_PER_SEC \<and> enabled \<and> deadline \<le> now \<and> \<not> ota) \<and>
    (\<forall>s. d = Sleep s \<longrightarrow>
      1 \<le> s \<and> s \<le> max 1 configured \<and> age_ns + unat s * NANOS_PER_SEC < 51 * NANOS_PER_SEC)"
  by (rule sleep_decision_cases)

theorem predictive_sleep_decision_safe_witness:
  "\<exists>s. predictive_sleep_decision True 0 True 45 100 False 90 = Some (Sleep s) \<and> s \<le> 45"
  using predictive_sleep_decision_safe [of True 0 True 45 100 False 90]
  by (auto simp: NANOS_PER_SEC_def)

text \<open>
  The idle deadline never lies more than the idle timeout ahead, is never moved later
  unless the countdown is re-armed, and re-arming sets it to exactly that limit (saturating).
\<close>

theorem ui_idle_deadline_bounded:
  "next_ui_idle_deadline_secs enabled rearm now cur timeout \<le> sat_add_u32 now (unat timeout) \<and>
   (\<not> rearm \<longrightarrow> next_ui_idle_deadline_secs enabled rearm now cur timeout \<le> cur) \<and>
   (enabled \<and> rearm \<longrightarrow> next_ui_idle_deadline_secs enabled rearm now cur timeout = sat_add_u32 now (unat timeout))"
  by (simp add: next_ui_idle_deadline_secs_def Let_def)

theorem ui_idle_deadline_bounded_witness:
  "next_ui_idle_deadline_secs True True 100 0 60 = 160 \<and> next_ui_idle_deadline_secs True False 100 130 60 \<le> 130"
  using ui_idle_deadline_bounded [of True True 100 0 60] ui_idle_deadline_bounded [of True False 100 130 60]
  by (simp add: sat_add_u32_def u32_max_def)

text \<open>
  The reconnect backoff doubles from one second and stays at sixty: after \<open>k\<close> failures it is
  the minimum of \<open>2 ^ k\<close> and 60.
\<close>

theorem mqtt_backoff_doubles_to_cap: "(next_mqtt_backoff_secs ^^ k) MQTT_MIN_BACKOFF_SECS = min (2 ^ k) 60"
  by (rule mqtt_backoff_steps)

end
