(* ===== verification/Messages.thy ===== *)
theory Messages
  imports Rubicson Telemetry Config_Rules
begin

text \<open>
  The message types of \<open>firmware/src/messages.rs\<close> and the conversions of
  \<open>firmware/src/domain_map.rs\<close> between them and the domain types: radio readings with their
  signal metadata, radio and power settings, bandwidth options and signal quality.
\<close>

section \<open>Data\<close>

record RadioReading =
  rd_inner :: RubicsonReading
  rd_rssi :: int
  rd_detection_threshold :: u8
  rd_received_at :: nat

record RadioSettings =
  rs_detection_threshold_db :: u8
  rs_magn_target :: u8
  rs_channel_bandwidth_index :: u8
  rs_carrier_sense_threshold :: u8

record PowerSettings =
  ps_predictive_sleep_enabled :: bool
  ps_sleep_duration_secs :: u8
  ps_ui_idle_timeout_secs :: u8

datatype SignalQuality = Excellent | Good | Fair | Poor

definition DEFAULT_RADIO_SETTINGS :: RadioSettings where
  "DEFAULT_RADIO_SETTINGS =
     \<lparr>rs_detection_threshold_db = DEFAULT_DETECTION_THRESHOLD_DB,
      rs_magn_target = DEFAULT_MAGN_TARGET,
      rs_channel_bandwidth_index = DEFAULT_CHANNEL_BANDWIDTH_INDEX,
      rs_carrier_sense_threshold = DEFAULT_CARRIER_SENSE_THRESHOLD\<rparr>"

definition DEFAULT_POWER_SETTINGS :: PowerSettings where
  "DEFAULT_POWER_SETTINGS =
     \<lparr>ps_predictive_sleep_enabled = POWER_DEFAULT_PREDICTIVE_SLEEP_ENABLED,
      ps_sleep_duration_secs = POWER_DEFAULT_SLEEP_DURATION_SECS,
      ps_ui_idle_timeout_secs = POWER_DEFAULT_UI_IDLE_TIMEOUT_SECS\<rparr>"

section \<open>Operations\<close>

definition to_telemetry_record :: "RadioReading \<Rightarrow> TelemetryRecord" where
  "to_telemetry_record r =
     (let scaled_temperature = f32_mul (rr_temperature_c (rd_inner r)) (F32 10);
          rounded_temperature =
            (if f32_ge scaled_temperature (F32 0) then f32_add scaled_temperature (F32 (1 / 2))
             else f32_sub scaled_temperature (F32 (1 / 2)));
          temperature_deci_c =
            (if f32_less (f32_from_i16 32767) rounded_temperature then 32767
             else if f32_less rounded_temperature (f32_from_i16 (- 32768)) then - 32768
             else f32_as_i16 rounded_temperature)
      in \<lparr>tr_sensor_id = rr_id (rd_inner r),
          tr_channel = rr_channel (rd_inner r),
          tr_temperature_deci_c = temperature_deci_c,
          tr_battery_ok = rr_battery_ok (rd_inner r),
          tr_timestamp = rd_received_at r\<rparr>)"

definition channel_bandwidth_hz :: "u8 \<Rightarrow> u32" where
  "channel_bandwidth_hz index =
     (if index = 0 then 325000 else if index = 1 then 203000 else if index = 2 then 162000
      else if index = 3 then 135000 else DEFAULT_CHANNEL_BANDWIDTH_HZ)"

definition channel_bandwidth_index :: "u32 \<Rightarrow> u8" where
  "channel_bandwidth_index bandwidth_hz =
     (if bandwidth_hz = 325000 then 0 else if bandwidth_hz = 203000 then 1
      else if bandwidth_hz = 162000 then 2 else if bandwidth_hz = 135000 then 3
      else DEFAULT_CHANNEL_BANDWIDTH_INDEX)"

definition from_rssi :: "int \<Rightarrow> SignalQuality" where
  "from_rssi rssi =
     (if - 60 < rssi then Excellent else if - 75 < rssi then Good
      else if - 90 < rssi then Fair else Poor)"

fun signal_quality_as_str :: "SignalQuality \<Rightarrow> string" where
  "signal_quality_as_str Excellent = ''Excellent''"
| "signal_quality_as_str Good = ''Good''"
| "signal_quality_as_str Fair = ''Fair''"
| "signal_quality_as_str Poor = ''Poor''"

definition sensor_reading_from :: "RadioReading \<Rightarrow> SensorReading" where
  "sensor_reading_from r =
     \<lparr>sr_sensor_id = rr_id (rd_inner r), sr_channel = rr_channel (rd_inner r),
      sr_battery_ok = rr_battery_ok (rd_inner r), sr_temperature_c = rr_temperature_c (rd_inner r),
      sr_rssi_dbm = rd_rssi r, sr_detection_threshold_db = rd_detection_threshold r\<rparr>"

definition radio_config_from :: "RadioSettings \<Rightarrow> RadioConfigView" where
  "radio_config_from s =
     \<lparr>rc_detection_threshold_db = rs_detection_threshold_db s, rc_magn_target = rs_magn_target s,
      rc_channel_bandwidth_index = rs_channel_bandwidth_index s,
      rc_carrier_sense_threshold = rs_carrier_sense_threshold s\<rparr>"

definition radio_settings_from :: "RadioConfigView \<Rightarrow> RadioSettings" where
  "radio_settings_from c =
     \<lparr>rs_detection_threshold_db = rc_detection_threshold_db c, rs_magn_target = rc_magn_target c,
      rs_channel_bandwidth_index = rc_channel_bandwidth_index c,
      rs_carrier_sense_threshold = rc_carrier_sense_threshold c\<rparr>"

definition power_config_from :: "PowerSettings \<Rightarrow> PowerConfigView" where
  "power_config_from s =
     \<lparr>pc_predictive_sleep_enabled = ps_predictive_sleep_enabled s,
      pc_sleep_duration_secs = ps_sleep_duration_secs s,
      pc_ui_idle_timeout_secs = ps_ui_idle_timeout_secs s\<rparr>"

definition power_settings_from :: "PowerConfigView \<Rightarrow> PowerSettings" where
  "power_settings_from c =
     \<lparr>ps_predictive_sleep_enabled = pc_predictive_sleep_enabled c,
      ps_sleep_duration_secs = pc_sleep_duration_secs c,
      ps_ui_idle_timeout_secs = pc_ui_idle_timeout_secs c\<rparr>"

section \<open>Lemmas\<close>

lemma settings_conversions [simp]:
  "radio_settings_from (radio_config_from s) = s"
  "radio_config_from (radio_settings_from c) = c"
  "power_settings_from (power_config_from p) = p"
  "power_config_from (power_settings_from d) = d"
  by (simp_all add: radio_settings_from_def radio_config_from_def power_settings_from_def power_config_from_def)

definition valid_radio_settings :: "RadioSettings \<Rightarrow> bool" where
  "valid_radio_settings s = valid_radio_config (radio_config_from s)"

definition valid_power_settings :: "PowerSettings \<Rightarrow> bool" where
  "valid_power_settings s = valid_power_config (power_config_from s)"

lemma valid_defaults:
  "valid_radio_settings DEFAULT_RADIO_SETTINGS" "valid_power_settings DEFAULT_POWER_SETTINGS"
  by (simp_all add: valid_radio_settings_def valid_power_settings_def valid_radio_config_def
      valid_power_config_def radio_config_from_def power_config_from_def
      DEFAULT_RADIO_SETTINGS_def DEFAULT_POWER_SETTINGS_def const_defs)

lemma bandwidth_roundtrip: "i \<le> 3 \<Longrightarrow> channel_bandwidth_index (channel_bandwidth_hz i) = i"
proof -
  assume "i \<le> 3"
  then have "unat i = 0 \<or> unat i = 1 \<or> unat i = 2 \<or> unat i = 3" by (simp add: word_le_nat_alt; linarith)
  then have "i = 0 \<or> i = 1 \<or> i = 2 \<or> i = 3" by (simp add: word_unat_eq_iff)
  then show ?thesis by (auto simp: channel_bandwidth_index_def channel_bandwidth_hz_def const_defs)
qed

text \<open>The fixed-point temperature of a record is the integer the sensor sent.\<close>

lemma to_telemetry_record_exact:
  assumes m: "- 32768 \<le> m" "m \<le> 32767"
    and t: "rr_temperature_c (rd_inner r) = f32_div (f32_from_i16 m) (F32 10)"
  shows "tr_temperature_deci_c (to_telemetry_record r) = m"
proof -
  have s: "f32_mul (rr_temperature_c (rd_inner r)) (F32 10) = F32 (of_int m)"
    unfolding t by (rule f32_tenth_times_ten [OF m])
  show ?thesis
  proof (cases "0 \<le> m")
    case True
    have "f32_round (of_int m + 1 / 2) = F32 (of_int m + 1 / 2)"
      using m by (intro f32_add_half_exact) auto
    moreover have "(32767 :: rat) < of_int m + 1 / 2 \<longleftrightarrow> m = 32767"
    proof -
      have "m = 32767 \<or> (of_int m :: rat) \<le> of_int 32766" using m by (simp only: of_int_le_iff) linarith
      then show ?thesis by auto
    qed
    moreover have "(0 :: rat) \<le> of_int m" using True by simp
    ultimately show ?thesis using m True
      by (simp add: to_telemetry_record_def s f32_ge_def f32_from_i16_def rat_trunc_half Let_def)
  next
    case False
    have "f32_round (of_int m - 1 / 2) = F32 (of_int m - 1 / 2)"
      using m by (intro f32_add_half_exact) auto
    moreover have "of_int m - 1 / 2 < (- 32768 :: rat) \<longleftrightarrow> m = - 32768"
    proof -
      have "m = - 32768 \<or> of_int (- 32767) \<le> (of_int m :: rat)" using m by (simp only: of_int_le_iff) linarith
      then show ?thesis by auto
    qed
    moreover have "(of_int m :: rat) < 0" "of_int m \<noteq> (0 :: rat)" using False by simp_all
    ultimately show ?thesis using m False
      by (simp add: to_telemetry_record_def s f32_ge_def f32_sub_def f32_from_i16_def rat_trunc_half Let_def)
  qed
qed

end
