(* ===== verification/Rtc_Schema.thy ===== *)
theory Rtc_Schema
  imports Prelude
begin

text \<open>
  The layout of settings in retained RTC memory, \<open>crates/app-core/src/rtc_schema.rs\<close>: a magic
  byte, two payload bytes and a rotating checksum in one little-endian word, with the legacy
  layouts still accepted. The three codecs share one contract, which the persistence code of the
  firmware relies on.
\<close>

section \<open>Data\<close>

record PowerSettingsPayload =
  pp_predictive_sleep_enabled :: bool
  pp_sleep_duration_secs :: u8
  pp_ui_idle_timeout_secs :: u8

record RfProfilePayload =
  rf_profile_index :: u8

record RadioSettingsPayload =
  rp_detection_threshold_db :: u8
  rp_magn_target :: u8
  rp_channel_bandwidth_index :: u8
  rp_carrier_sense_threshold :: u8

record 'a DecodedValue =
  dv_value :: 'a
  dv_schema_version :: u8
  dv_needs_migration :: bool

datatype RtcDecodeError = UnknownSchema | UnsupportedVersion | ChecksumMismatch

definition POWER_SCHEMA_VERSION :: u8 where [const_defs]: "POWER_SCHEMA_VERSION = 1"
definition LEGACY_POWER_SCHEMA_VERSION :: u8 where [const_defs]: "LEGACY_POWER_SCHEMA_VERSION = 0"
definition RF_PROFILE_SCHEMA_VERSION :: u8 where [const_defs]: "RF_PROFILE_SCHEMA_VERSION = 2"
definition LEGACY_RF_PROFILE_SCHEMA_VERSION :: u8 where [const_defs]: "LEGACY_RF_PROFILE_SCHEMA_VERSION = 1"
definition RADIO_SETTINGS_SCHEMA_VERSION :: u8 where [const_defs]: "RADIO_SETTINGS_SCHEMA_VERSION = 1"
definition POWER_MAGIC_CURRENT :: u8 where [const_defs]: "POWER_MAGIC_CURRENT = 0xD1"
definition POWER_MAGIC_LEGACY :: u8 where [const_defs]: "POWER_MAGIC_LEGACY = 0xA5"
definition RF_PROFILE_MAGIC_CURRENT :: u8 where [const_defs]: "RF_PROFILE_MAGIC_CURRENT = 0xD2"
definition RF_PROFILE_MAGIC_LEGACY :: u8 where [const_defs]: "RF_PROFILE_MAGIC_LEGACY = 0xC7"
definition RADIO_SETTINGS_MAGIC_CURRENT :: u8 where [const_defs]: "RADIO_SETTINGS_MAGIC_CURRENT = 0xD3"
definition RF_PROFILE_VERSION_LEGACY_WORD :: u8 where [const_defs]: "RF_PROFILE_VERSION_LEGACY_WORD = 1"
definition CHECKSUM_SEED_CURRENT :: u8 where [const_defs]: "CHECKSUM_SEED_CURRENT = 0x73"
definition CHECKSUM_SEED_POWER_LEGACY :: u8 where [const_defs]: "CHECKSUM_SEED_POWER_LEGACY = 0x5C"
definition CHECKSUM_SEED_RF_LEGACY :: u8 where [const_defs]: "CHECKSUM_SEED_RF_LEGACY = 0x39"

section \<open>Operations\<close>

definition checksum :: "u8 \<Rightarrow> u8 \<times> u8 \<times> u8 \<Rightarrow> u8" where
  "checksum seed = (\<lambda>(p0, p1, p2). fold (\<lambda>byte acc. word_rotl 1 acc + byte) [p0, p1, p2] seed)"

definition encode_word :: "u8 \<times> u8 \<times> u8 \<Rightarrow> u8 \<Rightarrow> u32" where
  "encode_word payload seed =
     (let checksum_byte = checksum seed payload
      in case payload of (p0, p1, p2) \<Rightarrow> u32_from_le_bytes (p0, p1, p2, checksum_byte))"

definition validate_checksum :: "u8 \<times> u8 \<times> u8 \<Rightarrow> u8 \<Rightarrow> u8 \<Rightarrow> RtcDecodeError + unit" where
  "validate_checksum payload expected_checksum seed =
     (if checksum seed payload = expected_checksum then Inr () else Inl ChecksumMismatch)"

definition encode_power_settings :: "PowerSettingsPayload \<Rightarrow> u32" where
  "encode_power_settings s =
     (let byte0 = POWER_MAGIC_CURRENT;
          byte1 = push_bit 7 (if pp_predictive_sleep_enabled s then 1 else 0)
                  OR (pp_sleep_duration_secs s AND 0x7F);
          byte2 = pp_ui_idle_timeout_secs s
      in encode_word (byte0, byte1, byte2) CHECKSUM_SEED_CURRENT)"

definition decode_power_settings :: "u32 \<Rightarrow> RtcDecodeError + PowerSettingsPayload DecodedValue" where
  "decode_power_settings word =
     (case u32_to_le_bytes word of (byte0, byte1, byte2, byte3) \<Rightarrow>
        if byte0 = POWER_MAGIC_CURRENT
        then result_bind (validate_checksum (byte0, byte1, byte2) byte3 CHECKSUM_SEED_CURRENT) (\<lambda>_.
          Inr \<lparr>dv_value = \<lparr>pp_predictive_sleep_enabled = (byte1 AND 0x80 \<noteq> 0),
                           pp_sleep_duration_secs = byte1 AND 0x7F,
                           pp_ui_idle_timeout_secs = byte2\<rparr>,
               dv_schema_version = POWER_SCHEMA_VERSION, dv_needs_migration = False\<rparr>)
        else if byte0 = POWER_MAGIC_LEGACY
        then result_bind (validate_checksum (byte0, byte1, byte2) byte3 CHECKSUM_SEED_POWER_LEGACY) (\<lambda>_.
          Inr \<lparr>dv_value = \<lparr>pp_predictive_sleep_enabled = (byte1 AND 0x80 \<noteq> 0),
                           pp_sleep_duration_secs = byte1 AND 0x7F,
                           pp_ui_idle_timeout_secs = byte2\<rparr>,
               dv_schema_version = LEGACY_POWER_SCHEMA_VERSION, dv_needs_migration = True\<rparr>)
        else Inl UnknownSchema)"

definition encode_rf_profile :: "RfProfilePayload \<Rightarrow> u32" where
  "encode_rf_profile p =
     encode_word (RF_PROFILE_MAGIC_CURRENT, rf_profile_index p, RF_PROFILE_SCHEMA_VERSION)
       CHECKSUM_SEED_CURRENT"

definition decode_rf_profile :: "u32 \<Rightarrow> RtcDecodeError + RfProfilePayload DecodedValue" where
  "decode_rf_profile word =
     (case u32_to_le_bytes word of (byte0, byte1, byte2, byte3) \<Rightarrow>
        if byte0 = RF_PROFILE_MAGIC_CURRENT
        then result_bind (validate_checksum (byte0, byte1, byte2) byte3 CHECKSUM_SEED_CURRENT) (\<lambda>_.
          if byte2 \<noteq> RF_PROFILE_SCHEMA_VERSION then Inl UnsupportedVersion
          else Inr \<lparr>dv_value = \<lparr>rf_profile_index = byte1\<rparr>,
                    dv_schema_version = RF_PROFILE_SCHEMA_VERSION, dv_needs_migration = False\<rparr>)
        else if byte0 = RF_PROFILE_MAGIC_LEGACY
        then result_bind (validate_checksum (byte0, byte1, byte2) byte3 CHECKSUM_SEED_RF_LEGACY) (\<lambda>_.
          if byte2 \<noteq> RF_PROFILE_VERSION_LEGACY_WORD then Inl UnsupportedVersion
          else Inr \<lparr>dv_value = \<lparr>rf_profile_index = byte1\<rparr>,
                    dv_schema_version = LEGACY_RF_PROFILE_SCHEMA_VERSION, dv_needs_migration = True\<rparr>)
        else Inl UnknownSchema)"

definition encode_radio_settings :: "RadioSettingsPayload \<Rightarrow> u32" where
  "encode_radio_settings s =
     (let packed_thresholds = (rp_magn_target s AND 0x07)
            OR push_bit 3 (rp_channel_bandwidth_index s AND 0x03)
            OR push_bit 5 (rp_carrier_sense_threshold s AND 0x07)
      in encode_word (RADIO_SETTINGS_MAGIC_CURRENT, rp_detection_threshold_db s, packed_thresholds)
           CHECKSUM_SEED_CURRENT)"

definition decode_radio_settings :: "u32 \<Rightarrow> RtcDecodeError + RadioSettingsPayload DecodedValue" where
  "decode_radio_settings word =
     (case u32_to_le_bytes word of (byte0, byte1, byte2, byte3) \<Rightarrow>
        if byte0 \<noteq> RADIO_SETTINGS_MAGIC_CURRENT then Inl UnknownSchema
        else result_bind (validate_checksum (byte0, byte1, byte2) byte3 CHECKSUM_SEED_CURRENT) (\<lambda>_.
          Inr \<lparr>dv_value = \<lparr>rp_detection_threshold_db = byte1,
                           rp_magn_target = byte2 AND 0x07,
                           rp_channel_bandwidth_index = drop_bit 3 byte2 AND 0x03,
                           rp_carrier_sense_threshold = drop_bit 5 byte2 AND 0x07\<rparr>,
               dv_schema_version = RADIO_SETTINGS_SCHEMA_VERSION, dv_needs_migration = False\<rparr>))"

section \<open>The contract of a codec\<close>

text \<open>
  A codec stores representable values in a word: decoding gives the value back without asking
  for a migration, and a word with one damaged byte is refused.
\<close>

definition bytes_differ_once :: "u32 \<Rightarrow> u32 \<Rightarrow> bool" where
  "bytes_differ_once v w =
     (case (u32_to_le_bytes v, u32_to_le_bytes w) of ((a, b, c, d), (a', b', c', d')) \<Rightarrow>
        of_bool (a \<noteq> a') + of_bool (b \<noteq> b') + of_bool (c \<noteq> c') + of_bool (d \<noteq> d') = (1 :: nat))"

locale rtc_codec =
  fixes enc :: "'a \<Rightarrow> u32" and dec :: "u32 \<Rightarrow> RtcDecodeError + 'a DecodedValue"
    and representable :: "'a \<Rightarrow> bool" and version :: u8
  assumes dec_enc: "representable x \<Longrightarrow>
      dec (enc x) = Inr \<lparr>dv_value = x, dv_schema_version = version, dv_needs_migration = False\<rparr>"
    and dec_damaged: "bytes_differ_once (enc x) w \<Longrightarrow> \<not> is_ok (dec w)"
    and dec_representable: "dec w = Inr v \<Longrightarrow> representable (dv_value v)"
begin

lemma enc_inj: "representable x \<Longrightarrow> representable y \<Longrightarrow> enc x = enc y \<Longrightarrow> x = y"
  by (metis DecodedValue.ext_inject Inr_inject dec_enc)

lemma dec_reencode:
  "dec w = Inr v \<Longrightarrow> dec (enc (dv_value v)) =
     Inr \<lparr>dv_value = dv_value v, dv_schema_version = version, dv_needs_migration = False\<rparr>"
  by (simp add: dec_enc dec_representable)

text \<open>Loading and, when the layout is old, rewriting the word: afterwards the word is current.\<close>

definition migrate :: "u32 \<Rightarrow> u32" where
  "migrate w = (case dec w of Inr v \<Rightarrow> if dv_needs_migration v then enc (dv_value v) else w | Inl _ \<Rightarrow> w)"

lemma migrate_value: "dec w = Inr v \<Longrightarrow> \<exists>v'. dec (migrate w) = Inr v' \<and> dv_value v' = dv_value v \<and> \<not> dv_needs_migration v'"
  by (auto simp: migrate_def dec_reencode)

end

section \<open>The checksum\<close>

lemma word_rotl_inj [simp]: "word_rotl n (a :: u8) = word_rotl n b \<longleftrightarrow> a = b"
  by (metis word_rot_lr)

lemma checksum_eq: "checksum s (a, b, c) = word_rotl 1 (word_rotl 1 (word_rotl 1 s + a) + b) + c"
  by (simp add: checksum_def)

lemma checksum_changed:
  "checksum s (a, b, c) = checksum s (a', b, c) \<longleftrightarrow> a = a'"
  "checksum s (a, b, c) = checksum s (a, b', c) \<longleftrightarrow> b = b'"
  "checksum s (a, b, c) = checksum s (a, b, c') \<longleftrightarrow> c = c'"
  by (simp_all add: checksum_eq)

text \<open>The seeds of the old and the new layout keep a damaged magic byte from turning one into the other.\<close>

lemma checksum_seeds_apart:
  "checksum CHECKSUM_SEED_CURRENT (POWER_MAGIC_CURRENT, b, c) \<noteq> checksum CHECKSUM_SEED_POWER_LEGACY (POWER_MAGIC_LEGACY, b, c)"
  "checksum CHECKSUM_SEED_CURRENT (RF_PROFILE_MAGIC_CURRENT, b, c) \<noteq> checksum CHECKSUM_SEED_RF_LEGACY (RF_PROFILE_MAGIC_LEGACY, b, c)"
  by (simp_all add: checksum_eq const_defs, code_simp+)

lemmas checksum_seeds_apart_sym = checksum_seeds_apart [THEN not_sym]

lemma encode_word_bytes: "u32_to_le_bytes (encode_word (a, b, c) s) = (a, b, c, checksum s (a, b, c))"
  by (simp add: encode_word_def)

lemmas decode_defs = decode_power_settings_def decode_rf_profile_def decode_radio_settings_def validate_checksum_def
lemmas encode_defs = encode_power_settings_def encode_rf_profile_def encode_radio_settings_def


section \<open>The three codecs\<close>

lemma bytes_differ_once_cases:
  assumes "bytes_differ_once (encode_word (a, b, c) s) w"
  obtains (first) a' where "u32_to_le_bytes w = (a', b, c, checksum s (a, b, c))" "a' \<noteq> a"
  | (second) b' where "u32_to_le_bytes w = (a, b', c, checksum s (a, b, c))" "b' \<noteq> b"
  | (third) c' where "u32_to_le_bytes w = (a, b, c', checksum s (a, b, c))" "c' \<noteq> c"
  | (check) d' where "u32_to_le_bytes w = (a, b, c, d')" "d' \<noteq> checksum s (a, b, c)"
proof -
  obtain a' b' c' d' where w: "u32_to_le_bytes w = (a', b', c', d')" by (cases "u32_to_le_bytes w")
  show thesis
    using assms that w
    by (cases "a' = a"; cases "b' = b"; cases "c' = c"; cases "d' = checksum s (a, b, c)")
       (auto simp: bytes_differ_once_def encode_word_bytes)
qed

definition power_representable :: "PowerSettingsPayload \<Rightarrow> bool" where
  "power_representable p \<longleftrightarrow> pp_sleep_duration_secs p AND 0x7F = pp_sleep_duration_secs p"

definition radio_representable :: "RadioSettingsPayload \<Rightarrow> bool" where
  "radio_representable p \<longleftrightarrow> rp_magn_target p AND 0x07 = rp_magn_target p \<and>
     rp_channel_bandwidth_index p AND 0x03 = rp_channel_bandwidth_index p \<and>
     rp_carrier_sense_threshold p AND 0x07 = rp_carrier_sense_threshold p"

lemma power_byte1:
  "(push_bit 7 (if e then 1 else 0) OR (x AND 0x7F)) AND 0x80 \<noteq> 0 \<longleftrightarrow> e"
  "(push_bit 7 (if e then 1 else 0) OR (x AND 0x7F)) AND 0x7F = (x AND 0x7F :: u8)"
  unfolding top_bit_u8 by (auto simp: bit_simps intro!: u8_eqI)

lemma radio_byte2:
  fixes m b c :: u8
  defines "p \<equiv> (m AND 7) OR push_bit 3 (b AND 3) OR push_bit 5 (c AND 7)"
  shows "p AND 7 = m AND 7" "drop_bit 3 p AND 3 = b AND 3" "drop_bit 5 p AND 7 = c AND 7"
  unfolding p_def by (rule u8_eqI; simp add: bit_simps)+

interpretation power_codec: rtc_codec encode_power_settings decode_power_settings power_representable POWER_SCHEMA_VERSION
proof unfold_locales
  fix x y :: PowerSettingsPayload and w v
  show "power_representable x \<Longrightarrow> decode_power_settings (encode_power_settings x) =
      Inr \<lparr>dv_value = x, dv_schema_version = POWER_SCHEMA_VERSION, dv_needs_migration = False\<rparr>"
    unfolding decode_defs encode_defs Let_def encode_word_bytes prod.case power_byte1 power_representable_def
    by simp
  show "\<not> is_ok (decode_power_settings w)" if "bytes_differ_once (encode_power_settings x) w"
    using that unfolding encode_defs Let_def
    by (cases rule: bytes_differ_once_cases)
       (auto simp: decode_defs is_ok_def checksum_changed checksum_seeds_apart checksum_seeds_apart_sym)
  show "power_representable (dv_value v)" if "decode_power_settings w = Inr v"
    using that by (auto simp: decode_defs power_representable_def and.assoc result_bind_Inr_iff
        split: prod.splits if_splits)
qed

interpretation rf_codec: rtc_codec encode_rf_profile decode_rf_profile "\<lambda>_. True" RF_PROFILE_SCHEMA_VERSION
proof unfold_locales
  fix x y :: RfProfilePayload and w v
  show "decode_rf_profile (encode_rf_profile x) =
      Inr \<lparr>dv_value = x, dv_schema_version = RF_PROFILE_SCHEMA_VERSION, dv_needs_migration = False\<rparr>"
    unfolding decode_defs encode_defs Let_def encode_word_bytes prod.case by simp
  show "\<not> is_ok (decode_rf_profile w)" if "bytes_differ_once (encode_rf_profile x) w"
    using that unfolding encode_defs Let_def
    by (cases rule: bytes_differ_once_cases)
       (auto simp: decode_defs is_ok_def checksum_changed checksum_seeds_apart checksum_seeds_apart_sym)
qed simp

interpretation radio_codec: rtc_codec encode_radio_settings decode_radio_settings radio_representable RADIO_SETTINGS_SCHEMA_VERSION
proof unfold_locales
  fix x y :: RadioSettingsPayload and w v
  show "radio_representable x \<Longrightarrow> decode_radio_settings (encode_radio_settings x) =
      Inr \<lparr>dv_value = x, dv_schema_version = RADIO_SETTINGS_SCHEMA_VERSION, dv_needs_migration = False\<rparr>"
    unfolding decode_defs encode_defs Let_def encode_word_bytes prod.case radio_byte2 radio_representable_def
    by simp
  show "\<not> is_ok (decode_radio_settings w)" if "bytes_differ_once (encode_radio_settings x) w"
    using that unfolding encode_defs Let_def
    by (cases rule: bytes_differ_once_cases)
       (auto simp: decode_defs is_ok_def checksum_changed)
  show "radio_representable (dv_value v)" if "decode_radio_settings w = Inr v"
    using that by (auto simp: decode_defs radio_representable_def and.assoc result_bind_Inr_iff
        split: prod.splits if_splits)
qed


section \<open>Properties\<close>

text \<open>
  Round trip through retained memory: every representable power setting, RF profile and
  radio setting decodes from its word to itself, at the current schema version and without
  asking for a migration.
\<close>

theorem rtc_roundtrip:
  "(pp_sleep_duration_secs p \<le> 127 \<longrightarrow> decode_power_settings (encode_power_settings p) =
      Inr \<lparr>dv_value = p, dv_schema_version = 1, dv_needs_migration = False\<rparr>) \<and>
   decode_rf_profile (encode_rf_profile f) =
      Inr \<lparr>dv_value = f, dv_schema_version = 2, dv_needs_migration = False\<rparr> \<and>
   (rp_magn_target r \<le> 7 \<and> rp_channel_bandwidth_index r \<le> 3 \<and> rp_carrier_sense_threshold r \<le> 7 \<longrightarrow>
    decode_radio_settings (encode_radio_settings r) =
      Inr \<lparr>dv_value = r, dv_schema_version = 1, dv_needs_migration = False\<rparr>)"
  using power_codec.dec_enc [of p] rf_codec.dec_enc [of f] radio_codec.dec_enc [of r]
  by (simp add: power_representable_def radio_representable_def and_mask_u8 const_defs)

theorem rtc_roundtrip_witness:
  "decode_power_settings (encode_power_settings
      \<lparr>pp_predictive_sleep_enabled = True, pp_sleep_duration_secs = 45, pp_ui_idle_timeout_secs = 60\<rparr>) =
    Inr \<lparr>dv_value = \<lparr>pp_predictive_sleep_enabled = True, pp_sleep_duration_secs = 45, pp_ui_idle_timeout_secs = 60\<rparr>,
         dv_schema_version = 1, dv_needs_migration = False\<rparr>"
  using rtc_roundtrip [of "\<lparr>pp_predictive_sleep_enabled = True, pp_sleep_duration_secs = 45, pp_ui_idle_timeout_secs = 60\<rparr>"]
  by simp

text \<open>
  C39: Damage is detected: a word that differs in exactly one byte from an encoded setting, be it
  the magic, a payload byte or the checksum, is refused by the decoder of that setting; not even
  a change of the magic byte into the legacy one passes.
\<close>

theorem rtc_damaged_byte_refused:
  "(bytes_differ_once (encode_power_settings p) w \<longrightarrow> \<not> is_ok (decode_power_settings w)) \<and>
   (bytes_differ_once (encode_rf_profile f) w \<longrightarrow> \<not> is_ok (decode_rf_profile w)) \<and>
   (bytes_differ_once (encode_radio_settings r) w \<longrightarrow> \<not> is_ok (decode_radio_settings w))"
  by (simp add: power_codec.dec_damaged rf_codec.dec_damaged radio_codec.dec_damaged)

theorem rtc_damaged_byte_refused_witness:
  "\<not> is_ok (decode_rf_profile (encode_rf_profile \<lparr>rf_profile_index = 3\<rparr> + 256))"
proof -
  have "bytes_differ_once (encode_rf_profile \<lparr>rf_profile_index = 3\<rparr>) (encode_rf_profile \<lparr>rf_profile_index = 3\<rparr> + 256)"
    by code_simp
  with rtc_damaged_byte_refused show ?thesis by blast
qed

text \<open>
  The three schemas are disjoint: a word that one decoder accepts, in its current or its
  legacy layout, has an unknown schema for the other two.
\<close>

theorem rtc_schemas_disjoint:
  "(is_ok (decode_power_settings w) \<longrightarrow>
      decode_rf_profile w = Inl UnknownSchema \<and> decode_radio_settings w = Inl UnknownSchema) \<and>
   (is_ok (decode_rf_profile w) \<longrightarrow>
      decode_power_settings w = Inl UnknownSchema \<and> decode_radio_settings w = Inl UnknownSchema) \<and>
   (is_ok (decode_radio_settings w) \<longrightarrow>
      decode_power_settings w = Inl UnknownSchema \<and> decode_rf_profile w = Inl UnknownSchema)"
  by (cases "u32_to_le_bytes w") (simp add: decode_defs const_defs)

theorem rtc_schemas_disjoint_witness:
  "decode_radio_settings (encode_rf_profile \<lparr>rf_profile_index = 3\<rparr>) = Inl UnknownSchema"
  using rtc_schemas_disjoint [of "encode_rf_profile \<lparr>rf_profile_index = 3\<rparr>"] rf_codec.dec_enc
  by simp

end
