(* ===== verification/Ota_Core.thy ===== *)
theory Ota_Core
  imports Strings
begin

text \<open>
  The platform-independent update core, \<open>crates/ota-core/src/lib.rs\<close>: update states, the URL
  policy, the plausibility check of an image prefix, MQTT topics, the signed manifest with its
  validation and canonical form, and the rules for handling an incoming command. The JSON library
  and the Ed25519 library are parameters: \<open>from_slice\<close> parses a manifest, \<open>to_string\<close> renders a
  JSON string, \<open>key_from_bytes\<close> and \<open>ed_verify\<close> are the signature check.
\<close>

section \<open>Constants and states\<close>

definition SCHEMA_VERSION :: u8 where [const_defs]: "SCHEMA_VERSION = 2"
definition TARGET :: string where [const_defs]: "TARGET = ''motonet-of-things/esp32''"
definition CHIP :: string where [const_defs]: "CHIP = ''esp32-wroom''"
definition MAX_MANIFEST_BYTES :: nat where [const_defs]: "MAX_MANIFEST_BYTES = 1024"
definition MAX_URL_LEN :: nat where [const_defs]: "MAX_URL_LEN = 512"
definition MAX_VERSION_LEN :: nat where [const_defs]: "MAX_VERSION_LEN = 32"
definition MAX_TARGET_LEN :: nat where [const_defs]: "MAX_TARGET_LEN = 48"
definition MAX_CHIP_LEN :: nat where [const_defs]: "MAX_CHIP_LEN = 24"
definition MAX_REDIRECTS :: nat where [const_defs]: "MAX_REDIRECTS = 3"
definition MAX_REDIRECT_URL_LEN :: nat where [const_defs]: "MAX_REDIRECT_URL_LEN = 2048"
definition MQTT_TOPIC_MAX_LEN :: nat where [const_defs]: "MQTT_TOPIC_MAX_LEN = 96"
definition OTA_CONFIRMATION_DELAY_SECS :: nat where [const_defs]: "OTA_CONFIRMATION_DELAY_SECS = 30"
definition SHA256_HEX_LEN :: nat where [const_defs]: "SHA256_HEX_LEN = 64"
definition ED25519_SIGNATURE_HEX_LEN :: nat where [const_defs]: "ED25519_SIGNATURE_HEX_LEN = 128"
definition ENC_NONCE_PREFIX_HEX_LEN :: nat where [const_defs]: "ENC_NONCE_PREFIX_HEX_LEN = 24"
definition ENC_CHUNK_SIZE :: u32 where [const_defs]: "ENC_CHUNK_SIZE = 4096"
definition ENC_ALG :: string where [const_defs]: "ENC_ALG = ''AES-256-CTR-HMAC-SHA256''"
definition DEV_TEST_KEY_ID :: u32 where [const_defs]: "DEV_TEST_KEY_ID = 1001"
definition RELEASE_KEY_ID :: u32 where [const_defs]: "RELEASE_KEY_ID = 1"

datatype OtaState = Inactive | Downloading | Applying | PendingConfirmation

fun ota_state_as_u8 :: "OtaState \<Rightarrow> u8" where
  "ota_state_as_u8 Inactive = 0"
| "ota_state_as_u8 Downloading = 1"
| "ota_state_as_u8 Applying = 2"
| "ota_state_as_u8 PendingConfirmation = 3"

definition ota_state_from_u8 :: "u8 \<Rightarrow> OtaState" where
  "ota_state_from_u8 value =
     (if value = 1 then Downloading else if value = 2 then Applying
      else if value = 3 then PendingConfirmation else Inactive)"

datatype TopicError = DeviceIdTooLong

datatype OtaUrlPolicyError =
    InvalidScheme | UserInfoNotAllowed | HostMustBeIpv4 | InvalidHttpsHost
  | MissingPort | EmptyPath | QueryNotAllowed | FragmentNotAllowed

section \<open>The URL policy\<close>

text \<open>The loop of \<open>valid_port\<close>, with its early return; \<open>None\<close> is the rejection.\<close>

fun port_loop :: "string \<Rightarrow> nat \<Rightarrow> nat option" where
  "port_loop [] value = Some value"
| "port_loop (c # cs) value =
     (let value = value * 10 + digit_value c in if 65535 < value then None else port_loop cs value)"

definition valid_port :: "string \<Rightarrow> bool" where
  "valid_port port =
     (if port = [] \<or> \<not> list_all is_ascii_digit port then False
      else case port_loop port 0 of None \<Rightarrow> False | Some value \<Rightarrow> value \<noteq> 0)"

definition valid_octet :: "string \<Rightarrow> bool" where
  "valid_octet octet \<longleftrightarrow>
     \<not> (octet = [] \<or> 3 < length octet \<or> \<not> list_all is_ascii_digit octet) \<and>
     \<not> 255 < decimal_value octet"

definition validate_ipv4_host :: "string \<Rightarrow> OtaUrlPolicyError + unit" where
  "validate_ipv4_host host =
     (if host = [] \<or> length (split_on CHR ''.'' host) \<noteq> 4 then Inl HostMustBeIpv4
      else if list_all valid_octet (split_on CHR ''.'' host) then Inr () else Inl HostMustBeIpv4)"

definition host_byte :: "char \<Rightarrow> bool" where
  "host_byte c \<longleftrightarrow> is_ascii_alphanumeric c \<or> c = CHR ''.'' \<or> c = CHR ''-''"

definition starts_with :: "char \<Rightarrow> string \<Rightarrow> bool" where
  "starts_with c s \<longleftrightarrow> s \<noteq> [] \<and> hd s = c"

definition ends_with :: "char \<Rightarrow> string \<Rightarrow> bool" where
  "ends_with c s \<longleftrightarrow> s \<noteq> [] \<and> last s = c"

definition valid_label :: "string \<Rightarrow> bool" where
  "valid_label label \<longleftrightarrow>
     \<not> (label = [] \<or> 63 < length label \<or> starts_with CHR ''-'' label \<or> ends_with CHR ''-'' label)"

definition validate_https_host :: "string \<Rightarrow> OtaUrlPolicyError + unit" where
  "validate_https_host host =
     (if host = [] \<or> 253 < length host \<or> starts_with CHR ''.'' host \<or> ends_with CHR ''.'' host
         \<or> \<not> list_all host_byte host
      then Inl InvalidHttpsHost
      else if list_all valid_label (split_on CHR ''.'' host) then Inr () else Inl InvalidHttpsHost)"

definition validate_local_http_url :: "string \<Rightarrow> OtaUrlPolicyError + unit" where
  "validate_local_http_url rest =
     (if CHR ''#'' \<in> set rest then Inl FragmentNotAllowed
      else if CHR ''?'' \<in> set rest then Inl QueryNotAllowed
      else case split_once CHR ''/'' rest of
        None \<Rightarrow> Inl EmptyPath
      | Some (authority, path) \<Rightarrow>
          if CHR ''@'' \<in> set authority then Inl UserInfoNotAllowed
          else if path = [] then Inl EmptyPath
          else case rsplit_once CHR '':'' authority of
            None \<Rightarrow> Inl MissingPort
          | Some (host, port) \<Rightarrow>
              if \<not> valid_port port then Inl MissingPort else validate_ipv4_host host)"

definition validate_https_url :: "string \<Rightarrow> OtaUrlPolicyError + unit" where
  "validate_https_url rest =
     (if CHR ''#'' \<in> set rest then Inl FragmentNotAllowed
      else case split_once CHR ''/'' rest of
        None \<Rightarrow> Inl EmptyPath
      | Some (authority, path_and_query) \<Rightarrow>
          if CHR ''@'' \<in> set authority then Inl UserInfoNotAllowed
          else if path_and_query = [] \<or> starts_with CHR ''?'' path_and_query then Inl EmptyPath
          else let (host, port) =
                 (case rsplit_once CHR '':'' authority of
                    None \<Rightarrow> (authority, None)
                  | Some (host, port) \<Rightarrow>
                      if list_all is_ascii_digit port then (host, Some port) else (authority, None))
               in case port of
                    Some port \<Rightarrow> if \<not> valid_port port then Inl MissingPort else validate_https_host host
                  | None \<Rightarrow> validate_https_host host)"

definition validate_ota_url_policy :: "string \<Rightarrow> OtaUrlPolicyError + unit" where
  "validate_ota_url_policy url =
     (case strip_prefix ''http://'' url of
        Some rest \<Rightarrow> validate_local_http_url rest
      | None \<Rightarrow> case strip_prefix ''https://'' url of
          Some rest \<Rightarrow> validate_https_url rest
        | None \<Rightarrow> Inl InvalidScheme)"

section \<open>Image prefix and topics\<close>

datatype EspImagePrefixError =
    TooShort | WrongMagic | InvalidSegmentCount | InvalidFlashMode
  | InvalidFlashSizeFrequency | ZeroEntryAddress

definition validate_esp_image_prefix :: "u8 list \<Rightarrow> EspImagePrefixError + unit" where
  "validate_esp_image_prefix prefix =
     (if length prefix < 8 then Inl TooShort
      else if prefix ! 0 \<noteq> 0xe9 then Inl WrongMagic
      else if \<not> (1 \<le> prefix ! 1 \<and> prefix ! 1 \<le> 16) then Inl InvalidSegmentCount
      else if \<not> prefix ! 2 \<le> 0x03 then Inl InvalidFlashMode
      else let frequency = prefix ! 3 AND 0x0f; size = drop_bit 4 (prefix ! 3)
        in if \<not> frequency \<in> {0x0, 0x1, 0x2, 0xf} \<or> \<not> size \<le> 0x8 then Inl InvalidFlashSizeFrequency
           else let entry = u32_from_le_bytes (prefix ! 4, prefix ! 5, prefix ! 6, prefix ! 7)
                in if entry = 0 then Inl ZeroEntryAddress else Inr ())"

definition topic_string :: "string \<Rightarrow> TopicError + string" where
  "topic_string s = (if length s \<le> MQTT_TOPIC_MAX_LEN then Inr s else Inl DeviceIdTooLong)"

definition status_topic :: "string \<Rightarrow> TopicError + string" where
  "status_topic device_id = topic_string (''motonet/'' @ device_id @ ''/status'')"

definition ota_command_topic :: "string \<Rightarrow> TopicError + string" where
  "ota_command_topic device_id = topic_string (''motonet/'' @ device_id @ ''/cmd/ota'')"

definition ota_status_topic :: "string \<Rightarrow> TopicError + string" where
  "ota_status_topic device_id = topic_string (''motonet/'' @ device_id @ ''/ota/status'')"

section \<open>The manifest\<close>

record EncMetadata =
  enc_alg :: string
  enc_key_id :: u32
  enc_chunk_size :: u32
  enc_nonce_prefix :: string

record OtaManifest =
  om_schema :: u8
  om_key_id :: u32
  om_target :: string
  om_chip :: string
  om_version :: string
  om_build :: u32
  om_force :: bool
  om_url :: string
  om_download_size :: u32
  om_image_size :: u32
  om_image_sha256 :: string
  om_enc :: EncMetadata
  om_signature :: string

datatype ManifestError =
    Oversized | Malformed | WrongSchema | WrongTarget | WrongChip | FieldTooLong string
  | InvalidImageSha256 | MissingSignature | SignatureRejected | InvalidEncAlgorithm
  | InvalidEncChunkSize | InvalidEncNoncePrefix | InvalidImageSize | InvalidDownloadSize

definition hex_nibble_runtime :: "char \<Rightarrow> (unit + u8)" where
  "hex_nibble_runtime c =
     (let byte = char_code c
      in if 48 \<le> byte \<and> byte \<le> 57 then Inr (of_nat (byte - 48))
         else if 97 \<le> byte \<and> byte \<le> 102 then Inr (of_nat (byte - 97 + 10))
         else if 65 \<le> byte \<and> byte \<le> 70 then Inr (of_nat (byte - 65 + 10))
         else Inl ())"

fun hex_pairs :: "string \<Rightarrow> unit + u8 list" where
  "hex_pairs (a # b # cs) =
     result_bind (hex_nibble_runtime a) (\<lambda>hi. result_bind (hex_nibble_runtime b) (\<lambda>lo.
     result_bind (hex_pairs cs) (\<lambda>bs. Inr ((push_bit 4 hi OR lo) # bs))))"
| "hex_pairs _ = Inr []"

definition hex_into :: "string \<Rightarrow> nat \<Rightarrow> unit + u8 list" where
  "hex_into value out_len = (if length value \<noteq> out_len * 2 then Inl () else hex_pairs value)"

definition hex_signature :: "string \<Rightarrow> unit + u8 list" where
  "hex_signature value =
     (if length value \<noteq> ED25519_SIGNATURE_HEX_LEN then Inl () else hex_into value 64)"

type_synonym signature_verifier = "u32 \<Rightarrow> u8 list \<Rightarrow> string \<Rightarrow> bool"

definition RELEASE_PUBLIC_KEY_BYTES :: "u8 list" where
  "RELEASE_PUBLIC_KEY_BYTES =
     [0x8d, 0xfc, 0x99, 0x90, 0x9d, 0xe5, 0x00, 0x6d, 0xfa, 0xd1, 0x53, 0xfa, 0x9f, 0x31, 0x41, 0x81,
      0xc8, 0x10, 0x09, 0x38, 0xf6, 0xf5, 0xc0, 0xf5, 0xfc, 0xa5, 0x4c, 0x8b, 0x1e, 0x87, 0x09, 0x7d]"

definition DEV_TEST_PUBLIC_KEY_BYTES :: "u8 list" where
  "DEV_TEST_PUBLIC_KEY_BYTES =
     [0x8a, 0x88, 0xe3, 0xdd, 0x74, 0x09, 0xf1, 0x95, 0xfd, 0x52, 0xdb, 0x2d, 0x3c, 0xba, 0x5d, 0x72,
      0xca, 0x67, 0x09, 0xbf, 0x1d, 0x94, 0x12, 0x1b, 0xf3, 0x74, 0x88, 0x01, 0xb4, 0x0f, 0x6f, 0x5c]"

definition DEV_TEST_PUBLIC_KEY_HEX :: string where
  "DEV_TEST_PUBLIC_KEY_HEX = ''8a88e3dd7409f195fd52db2d3cba5d72ca6709bf1d94121bf3748801b40f6f5c''"

type_synonym trusted_keys = "(u32 \<times> u8 list) list"

definition dev_ota :: trusted_keys where
  "dev_ota = [(DEV_TEST_KEY_ID, DEV_TEST_PUBLIC_KEY_BYTES)]"

definition release_ota :: trusted_keys where
  "release_ota = [(RELEASE_KEY_ID, RELEASE_PUBLIC_KEY_BYTES)]"

definition ed25519_verify ::
  "(u8 list \<Rightarrow> 'k option) \<Rightarrow> ('k \<Rightarrow> u8 list \<Rightarrow> u8 list \<Rightarrow> bool) \<Rightarrow> trusted_keys \<Rightarrow> signature_verifier" where
  "ed25519_verify key_from_bytes ed_verify trusted_keys key_id canonical_manifest signature =
     (case find (\<lambda>(i, _). i = key_id) trusted_keys of
        None \<Rightarrow> False
      | Some (_, public_key) \<Rightarrow>
          case hex_signature signature of
            Inl _ \<Rightarrow> False
          | Inr signature_bytes \<Rightarrow>
              case key_from_bytes public_key of
                None \<Rightarrow> False
              | Some verifying_key \<Rightarrow> ed_verify verifying_key canonical_manifest signature_bytes)"

definition validate_len :: "string \<Rightarrow> string \<Rightarrow> nat \<Rightarrow> ManifestError + unit" where
  "validate_len field value max_len = (if max_len < length value then Inl (FieldTooLong field) else Inr ())"

definition expected_download_size :: "u32 \<Rightarrow> nat" where
  "expected_download_size image_size =
     (let chunk_size = unat ENC_CHUNK_SIZE;
          num_chunks = (unat image_size + chunk_size - 1) div chunk_size
      in 16 + unat image_size + num_chunks * 36)"

definition validate :: "OtaManifest \<Rightarrow> ManifestError + unit" where
  "validate m =
     (if om_schema m \<noteq> SCHEMA_VERSION then Inl WrongSchema
      else if om_target m \<noteq> TARGET then Inl WrongTarget
      else if om_chip m \<noteq> CHIP then Inl WrongChip
      else result_bind (validate_len ''target'' (om_target m) MAX_TARGET_LEN) (\<lambda>_.
      result_bind (validate_len ''chip'' (om_chip m) MAX_CHIP_LEN) (\<lambda>_.
      result_bind (validate_len ''version'' (om_version m) MAX_VERSION_LEN) (\<lambda>_.
      result_bind (validate_len ''url'' (om_url m) MAX_URL_LEN) (\<lambda>_.
      if length (om_image_sha256 m) \<noteq> SHA256_HEX_LEN \<or> \<not> list_all is_ascii_hexdigit (om_image_sha256 m)
      then Inl InvalidImageSha256
      else if om_signature m = [] then Inl MissingSignature
      else if length (om_signature m) \<noteq> ED25519_SIGNATURE_HEX_LEN \<or> \<not> list_all is_ascii_hexdigit (om_signature m)
      then Inl SignatureRejected
      else if enc_alg (om_enc m) \<noteq> ENC_ALG then Inl InvalidEncAlgorithm
      else if enc_chunk_size (om_enc m) \<noteq> ENC_CHUNK_SIZE then Inl InvalidEncChunkSize
      else if length (enc_nonce_prefix (om_enc m)) \<noteq> ENC_NONCE_PREFIX_HEX_LEN
           \<or> \<not> list_all is_ascii_hexdigit (enc_nonce_prefix (om_enc m))
      then Inl InvalidEncNoncePrefix
      else if om_image_size m = 0 then Inl InvalidImageSize
      else if unat (om_download_size m) \<noteq> expected_download_size (om_image_size m)
      then Inl InvalidDownloadSize
      else Inr ())))))"

definition parse :: "(u8 list \<Rightarrow> OtaManifest option) \<Rightarrow> u8 list \<Rightarrow> ManifestError + OtaManifest" where
  "parse from_slice bytes =
     (if MAX_MANIFEST_BYTES < length bytes then Inl Oversized
      else case from_slice bytes of
        None \<Rightarrow> Inl Malformed
      | Some manifest \<Rightarrow> result_bind (validate manifest) (\<lambda>_. Inr manifest))"

section \<open>The canonical form\<close>

definition json_string :: "(string \<Rightarrow> string option) \<Rightarrow> string \<Rightarrow> ManifestError + string" where
  "json_string to_string value = (case to_string value of None \<Rightarrow> Inl Malformed | Some s \<Rightarrow> Inr s)"

definition bool_display :: "bool \<Rightarrow> string" where
  "bool_display b = (if b then ''true'' else ''false'')"

definition canonical_enc_json :: "(string \<Rightarrow> string option) \<Rightarrow> EncMetadata \<Rightarrow> ManifestError + string" where
  \<open>canonical_enc_json to_string enc =
     result_bind (json_string to_string (enc_alg enc)) (\<lambda>alg.
     result_bind (json_string to_string (enc_nonce_prefix enc)) (\<lambda>nonce_prefix.
     Inr (''{"alg":'' @ alg @ '',"key_id":'' @ dec_digits (unat (enc_key_id enc))
       @ '',"chunk_size":'' @ dec_digits (unat (enc_chunk_size enc))
       @ '',"nonce_prefix":'' @ nonce_prefix @ ''}'')))\<close>

definition canonical_unsigned_json :: "(string \<Rightarrow> string option) \<Rightarrow> OtaManifest \<Rightarrow> ManifestError + string" where
  \<open>canonical_unsigned_json to_string m =
     result_bind (json_string to_string (om_target m)) (\<lambda>target.
     result_bind (json_string to_string (om_chip m)) (\<lambda>chip.
     result_bind (json_string to_string (om_version m)) (\<lambda>version.
     result_bind (json_string to_string (om_url m)) (\<lambda>url.
     result_bind (json_string to_string (om_image_sha256 m)) (\<lambda>image_sha256.
     result_bind (canonical_enc_json to_string (om_enc m)) (\<lambda>enc.
     Inr (''{"schema":'' @ dec_digits (unat (om_schema m))
       @ '',"key_id":'' @ dec_digits (unat (om_key_id m))
       @ '',"target":'' @ target @ '',"chip":'' @ chip @ '',"version":'' @ version
       @ '',"build":'' @ dec_digits (unat (om_build m))
       @ '',"force":'' @ bool_display (om_force m) @ '',"url":'' @ url
       @ '',"download_size":'' @ dec_digits (unat (om_download_size m))
       @ '',"image_size":'' @ dec_digits (unat (om_image_size m))
       @ '',"image_sha256":'' @ image_sha256 @ '',"enc":'' @ enc @ ''}'')))))))\<close>

definition canonical_signed_json :: "(string \<Rightarrow> string option) \<Rightarrow> OtaManifest \<Rightarrow> ManifestError + string" where
  \<open>canonical_signed_json to_string m =
     result_bind (json_string to_string (om_target m)) (\<lambda>target.
     result_bind (json_string to_string (om_chip m)) (\<lambda>chip.
     result_bind (json_string to_string (om_version m)) (\<lambda>version.
     result_bind (json_string to_string (om_url m)) (\<lambda>url.
     result_bind (json_string to_string (om_image_sha256 m)) (\<lambda>image_sha256.
     result_bind (canonical_enc_json to_string (om_enc m)) (\<lambda>enc.
     result_bind (json_string to_string (om_signature m)) (\<lambda>signature.
     Inr (''{"schema":'' @ dec_digits (unat (om_schema m))
       @ '',"key_id":'' @ dec_digits (unat (om_key_id m))
       @ '',"target":'' @ target @ '',"chip":'' @ chip @ '',"version":'' @ version
       @ '',"build":'' @ dec_digits (unat (om_build m))
       @ '',"force":'' @ bool_display (om_force m) @ '',"url":'' @ url
       @ '',"download_size":'' @ dec_digits (unat (om_download_size m))
       @ '',"image_size":'' @ dec_digits (unat (om_image_size m))
       @ '',"image_sha256":'' @ image_sha256 @ '',"enc":'' @ enc
       @ '',"signature":'' @ signature @ ''}''))))))))\<close>

definition parse_and_verify ::
  "(u8 list \<Rightarrow> OtaManifest option) \<Rightarrow> (string \<Rightarrow> string option) \<Rightarrow> u8 list \<Rightarrow> signature_verifier
     \<Rightarrow> ManifestError + OtaManifest" where
  "parse_and_verify from_slice to_string bytes verifier =
     result_bind (parse from_slice bytes) (\<lambda>manifest.
     result_bind (canonical_unsigned_json to_string manifest) (\<lambda>canonical.
     if verifier (om_key_id manifest) (string_bytes canonical) (om_signature manifest)
     then Inr manifest else Inl SignatureRejected))"

section \<open>Runtime coordination\<close>

datatype OtaManifestDeliveryAction = ForwardOnly | ForwardAndClearRetained | ClearRetainedOnly

fun classify_ota_manifest_delivery :: "OtaState \<Rightarrow> bool \<Rightarrow> OtaManifestDeliveryAction" where
  "classify_ota_manifest_delivery PendingConfirmation True = ClearRetainedOnly"
| "classify_ota_manifest_delivery _ True = ForwardAndClearRetained"
| "classify_ota_manifest_delivery _ False = ForwardOnly"

definition is_ota_manifest_payload_candidate :: "nat \<Rightarrow> bool" where
  "is_ota_manifest_payload_candidate payload_len \<longleftrightarrow> payload_len \<noteq> 0"

definition is_mqtt_allowed :: "OtaState \<Rightarrow> bool" where
  "is_mqtt_allowed state \<longleftrightarrow> state = Inactive \<or> state = PendingConfirmation"

definition is_radio_capture_allowed :: "OtaState \<Rightarrow> bool" where
  "is_radio_capture_allowed state \<longleftrightarrow> state = Inactive"

definition is_ui_input_allowed :: "OtaState \<Rightarrow> bool" where
  "is_ui_input_allowed state \<longleftrightarrow> state = Inactive"

fun ota_display_message :: "OtaState \<Rightarrow> string option" where
  "ota_display_message Downloading = Some ''OTA download...''"
| "ota_display_message Applying = Some ''OTA applying...''"
| "ota_display_message _ = None"

section \<open>The canonical form determines the manifest\<close>

definition json_self_delimiting :: "(string \<Rightarrow> string option) \<Rightarrow> bool" where
  "json_self_delimiting to_string \<longleftrightarrow>
     (\<forall>a b x y u v. to_string a = Some x \<longrightarrow> to_string b = Some y \<longrightarrow> x @ u = y @ v \<longrightarrow> a = b \<and> u = v)"

lemma json_peel:
  "json_self_delimiting ts \<Longrightarrow> ts a = Some x \<Longrightarrow> ts b = Some y \<Longrightarrow> x @ u = y @ v \<longleftrightarrow> a = b \<and> u = v"
  unfolding json_self_delimiting_def by (metis option.inject)

lemma non_digits [simp]: "\<not> is_ascii_digit CHR '',''" "\<not> is_ascii_digit CHR ''}''"
  by (simp_all add: is_ascii_digit_def char_code_def)

lemma dec_peel [simp]:
  fixes a b :: "'a::len word"
  shows "dec_digits (unat a) @ CHR '','' # u = dec_digits (unat b) @ CHR '','' # v \<longleftrightarrow> a = b \<and> u = v"
  using dec_digits_unique [of "unat a" "CHR '',''" u "unat b" "CHR '',''" v]
  by (auto simp: word_unat_eq_iff)

lemma bool_peel [simp]:
  "bool_display a @ CHR '','' # u = bool_display b @ CHR '','' # v \<longleftrightarrow> a = b \<and> u = v"
  by (cases a; cases b) (simp_all add: bool_display_def)

lemma json_string_Inr [simp]: "json_string ts s = Inr x \<longleftrightarrow> ts s = Some x"
  by (simp add: json_string_def split: option.split)

lemma canonical_enc_peel:
  assumes "json_self_delimiting ts" "canonical_enc_json ts e = Inr x" "canonical_enc_json ts f = Inr y"
  shows "x @ u = y @ v \<longleftrightarrow> e = f \<and> u = v"
  using assms(2,3)
  by (auto simp: canonical_enc_json_def result_bind_Inr_iff json_peel [OF assms(1)] EncMetadata.equality)

lemma canonical_unsigned_inj:
  assumes "json_self_delimiting ts" "canonical_unsigned_json ts m = Inr s" "canonical_unsigned_json ts m' = Inr s"
  shows "m' = m\<lparr>om_signature := om_signature m'\<rparr>"
proof -
  note peel = json_peel [OF assms(1)]
  obtain t1 c1 v1 u1 h1 e1 where 1: "ts (om_target m) = Some t1" "ts (om_chip m) = Some c1"
      "ts (om_version m) = Some v1" "ts (om_url m) = Some u1" "ts (om_image_sha256 m) = Some h1"
      "canonical_enc_json ts (om_enc m) = Inr e1"
    using assms(2) by (auto simp: canonical_unsigned_json_def result_bind_Inr_iff)
  obtain t2 c2 v2 u2 h2 e2 where 2: "ts (om_target m') = Some t2" "ts (om_chip m') = Some c2"
      "ts (om_version m') = Some v2" "ts (om_url m') = Some u2" "ts (om_image_sha256 m') = Some h2"
      "canonical_enc_json ts (om_enc m') = Inr e2"
    using assms(3) by (auto simp: canonical_unsigned_json_def result_bind_Inr_iff)
  have "canonical_unsigned_json ts m = canonical_unsigned_json ts m'" using assms(2,3) by simp
  then have "om_schema m = om_schema m' \<and> om_key_id m = om_key_id m' \<and> om_target m = om_target m' \<and>
      om_chip m = om_chip m' \<and> om_version m = om_version m' \<and> om_build m = om_build m' \<and>
      om_force m = om_force m' \<and> om_url m = om_url m' \<and> om_download_size m = om_download_size m' \<and>
      om_image_size m = om_image_size m' \<and> om_image_sha256 m = om_image_sha256 m' \<and>
      e1 @ ''}'' = e2 @ ''}''"
    unfolding canonical_unsigned_json_def json_string_def 1 2
    by (simp add: peel [OF 1(1) 2(1)] peel [OF 1(2) 2(2)] peel [OF 1(3) 2(3)] peel [OF 1(4) 2(4)] peel [OF 1(5) 2(5)]
        del: append_same_eq)
  moreover from this have "om_enc m = om_enc m'"
    using canonical_enc_peel [OF assms(1) 1(6) 2(6)] by blast
  ultimately show ?thesis by (intro OtaManifest.equality) simp_all
qed

section \<open>Ports, hosts and URLs\<close>

lemma fold_decimal_ge: "v \<le> fold (\<lambda>c v. v * 10 + digit_value c) cs v"
proof (induction cs arbitrary: v)
  case (Cons c cs)
  then show ?case using Cons.IH [of "v * 10 + digit_value c"] by (simp, linarith)
qed simp

lemma port_loop_fold:
  "v \<le> 65535 \<Longrightarrow> port_loop cs v =
    (let w = fold (\<lambda>c v. v * 10 + digit_value c) cs v in if w \<le> 65535 then Some w else None)"
proof (induction cs arbitrary: v)
  case (Cons c cs)
  then show ?case using fold_decimal_ge [of "v * 10 + digit_value c" cs] by (auto simp: Let_def)
qed simp

lemma valid_port_iff:
  "valid_port p \<longleftrightarrow> p \<noteq> [] \<and> list_all is_ascii_digit p \<and> 1 \<le> decimal_value p \<and> decimal_value p \<le> 65535"
  by (auto simp: valid_port_def port_loop_fold decimal_value_def Let_def split: option.splits if_splits)

lemma digit_not_special:
  "is_ascii_digit c \<Longrightarrow> c \<noteq> CHR '':'' \<and> c \<noteq> CHR ''/'' \<and> c \<noteq> CHR ''.'' \<and> c \<noteq> CHR ''@'' \<and> c \<noteq> CHR ''?'' \<and> c \<noteq> CHR ''#''"
  by (auto simp: is_ascii_digit_def char_code_def)

lemma digits_no_special:
  "list_all is_ascii_digit p \<Longrightarrow> s \<in> {CHR '':'', CHR ''/'', CHR ''.'', CHR ''@'', CHR ''?'', CHR ''#''} \<Longrightarrow> s \<notin> set p"
  using digit_not_special by (auto simp: list_all_iff)

definition ipv4_octets :: "string list \<Rightarrow> bool" where
  "ipv4_octets os \<longleftrightarrow> length os = 4 \<and>
     list_all (\<lambda>p. 1 \<le> length p \<and> length p \<le> 3 \<and> list_all is_ascii_digit p \<and> decimal_value p \<le> 255) os"

lemma valid_octet_iff:
  "valid_octet p \<longleftrightarrow> 1 \<le> length p \<and> length p \<le> 3 \<and> list_all is_ascii_digit p \<and> decimal_value p \<le> 255"
  by (cases p) (auto simp: valid_octet_def not_less)

lemma validate_ipv4_host_split:
  "validate_ipv4_host host = Inr () \<longleftrightarrow> host \<noteq> [] \<and> ipv4_octets (split_on CHR ''.'' host)"
  by (simp add: validate_ipv4_host_def ipv4_octets_def valid_octet_iff [abs_def])

lemma validate_ipv4_host_iff:
  "validate_ipv4_host host = Inr () \<longleftrightarrow> (\<exists>os. ipv4_octets os \<and> host = join_with CHR ''.'' os)"
proof
  assume "validate_ipv4_host host = Inr ()"
  then have "ipv4_octets (split_on CHR ''.'' host)" unfolding validate_ipv4_host_split ..
  then show "\<exists>os. ipv4_octets os \<and> host = join_with CHR ''.'' os"
    by (intro exI [of _ "split_on CHR ''.'' host"]) (simp only: join_split_on)
next
  assume "\<exists>os. ipv4_octets os \<and> host = join_with CHR ''.'' os"
  then obtain os where os: "ipv4_octets os" "host = join_with CHR ''.'' os" by blast
  have len: "length os = 4" and ds: "list_all (\<lambda>p. list_all is_ascii_digit p) os"
    using os(1) by (simp_all add: ipv4_octets_def list_all_iff)
  have "list_all (\<lambda>p. CHR ''.'' \<notin> set p) os"
    using ds digits_no_special [of _ "CHR ''.''"] by (simp add: list_all_iff)
  moreover have "os \<noteq> []" using len by auto
  ultimately have s: "split_on CHR ''.'' host = os" by (simp add: os(2) split_on_join)
  have "host \<noteq> []"
  proof
    assume "host = []"
    then have "length (split_on CHR ''.'' host) = 1" by simp
    then show False using s len by simp
  qed
  then show "validate_ipv4_host host = Inr ()" using s os(1) by (simp add: validate_ipv4_host_split)
qed

lemma ipv4_host_no_special:
  assumes "ipv4_octets os" "s \<in> {CHR ''/'', CHR ''@'', CHR ''?'', CHR ''#''}"
  shows "s \<notin> set (join_with CHR ''.'' os)"
proof -
  obtain a b c d where os: "os = [a, b, c, d]"
    using assms(1) by (auto simp: ipv4_octets_def length_Suc_conv numeral_eq_Suc)
  then have "list_all is_ascii_digit a" "list_all is_ascii_digit b" "list_all is_ascii_digit c" "list_all is_ascii_digit d"
    using assms(1) by (simp_all add: ipv4_octets_def)
  then show ?thesis using assms(2) digits_no_special [of _ s] by (auto simp: os)
qed

text \<open>The local profile: exactly the URLs of this shape, after the scheme.\<close>

lemma validate_local_http_url_iff:
  "validate_local_http_url rest = Inr () \<longleftrightarrow>
    (\<exists>os port path. rest = join_with CHR ''.'' os @ '':'' @ port @ ''/'' @ path \<and> ipv4_octets os \<and>
       valid_port port \<and> path \<noteq> [] \<and> CHR ''#'' \<notin> set path \<and> CHR ''?'' \<notin> set path)"
    (is "?L \<longleftrightarrow> ?R")
proof
  assume ?L
  then obtain authority path host port where *: "CHR ''#'' \<notin> set rest" "CHR ''?'' \<notin> set rest"
      "split_once CHR ''/'' rest = Some (authority, path)" "path \<noteq> []"
      "rsplit_once CHR '':'' authority = Some (host, port)" "valid_port port" "validate_ipv4_host host = Inr ()"
    by (auto simp: validate_local_http_url_def split: if_splits option.splits)
  then show ?R
    unfolding split_once_Some_iff rsplit_once_Some_iff validate_ipv4_host_iff
    by (elim exE conjE) (rule exI, rule exI [of _ port], rule exI [of _ path], auto)
next
  assume ?R
  then obtain os port path where *: "rest = join_with CHR ''.'' os @ '':'' @ port @ ''/'' @ path" "ipv4_octets os"
      "valid_port port" "path \<noteq> []" "CHR ''#'' \<notin> set path" "CHR ''?'' \<notin> set path" by blast
  let ?host = "join_with CHR ''.'' os"
  have digits: "list_all is_ascii_digit port" using *(3) by (simp add: valid_port_iff)
  note np = digits_no_special [OF digits] and nh = ipv4_host_no_special [OF *(2)]
  have "split_once CHR ''/'' rest = Some (?host @ '':'' @ port, path)"
    using np nh by (simp add: split_once_Some_iff *(1))
  moreover have "rsplit_once CHR '':'' (?host @ '':'' @ port) = Some (?host, port)"
    using np by (simp add: rsplit_once_Some_iff)
  moreover have "CHR ''#'' \<notin> set rest" "CHR ''?'' \<notin> set rest" "CHR ''@'' \<notin> set (?host @ '':'' @ port)"
    using np nh *(5,6) by (auto simp: *(1))
  moreover have "validate_ipv4_host ?host = Inr ()" using *(2) validate_ipv4_host_iff by blast
  ultimately show ?L using *(3,4) by (simp add: validate_local_http_url_def)
qed

definition dns_host :: "string \<Rightarrow> bool" where
  "dns_host host \<longleftrightarrow> host \<noteq> [] \<and> length host \<le> 253 \<and> list_all host_byte host \<and>
     (\<exists>labels. labels \<noteq> [] \<and> host = join_with CHR ''.'' labels \<and>
        list_all (\<lambda>l. CHR ''.'' \<notin> set l \<and> 1 \<le> length l \<and> length l \<le> 63 \<and> hd l \<noteq> CHR ''-'' \<and> last l \<noteq> CHR ''-'') labels)"

lemma valid_labels_ends:
  assumes "list_all valid_label (split_on CHR ''.'' host)" 
  shows "\<not> starts_with CHR ''.'' host" "\<not> ends_with CHR ''.'' host"
proof -
  show "\<not> starts_with CHR ''.'' host"
    using assms by (cases host) (auto simp: starts_with_def valid_label_def)
  show "\<not> ends_with CHR ''.'' host"
  proof
    assume "ends_with CHR ''.'' host"
    then obtain h where h: "host = h @ [CHR ''.'']" by (auto simp: ends_with_def intro: that [of "butlast host"]) (metis append_butlast_last_id)
    have "[] \<in> set (tl (split_on c (h @ [c])))" for c :: char
      by (induction h) (auto split: list.split dest: list.set_sel(2) [rotated])
    then have "[] \<in> set (split_on CHR ''.'' host)" unfolding h by (metis list.set_sel(2) list.sel(2) split_on_nonempty)
    then show False using assms by (auto simp: list_all_iff valid_label_def)
  qed
qed

lemma validate_https_host_iff: "validate_https_host host = Inr () \<longleftrightarrow> dns_host host"
proof
  assume L: "validate_https_host host = Inr ()"
  then have v: "list_all valid_label (split_on CHR ''.'' host)" and b: "host \<noteq> []" "length host \<le> 253" "list_all host_byte host"
    by (auto simp: validate_https_host_def split: if_splits)
  have "list_all (\<lambda>l. CHR ''.'' \<notin> set l \<and> 1 \<le> length l \<and> length l \<le> 63 \<and> hd l \<noteq> CHR ''-'' \<and> last l \<noteq> CHR ''-'') (split_on CHR ''.'' host)"
    using v split_on_parts [of _ "CHR ''.''" host]
    by (auto simp: list_all_iff valid_label_def starts_with_def ends_with_def Suc_le_eq not_less)
  then show "dns_host host" using b unfolding dns_host_def
    by (intro conjI exI [of _ "split_on CHR ''.'' host"]) (simp_all add: join_split_on)
next
  assume "dns_host host"
  then obtain labels where l: "host \<noteq> []" "length host \<le> 253" "list_all host_byte host" "labels \<noteq> []"
    "host = join_with CHR ''.'' labels"
    "list_all (\<lambda>l. CHR ''.'' \<notin> set l \<and> 1 \<le> length l \<and> length l \<le> 63 \<and> hd l \<noteq> CHR ''-'' \<and> last l \<noteq> CHR ''-'') labels"
    by (auto simp: dns_host_def)
  have "split_on CHR ''.'' host = labels"
    unfolding l(5) using l(4,6) by (intro split_on_join) (auto simp: list_all_iff)
  then have v: "list_all valid_label (split_on CHR ''.'' host)"
    using l(6) by (auto simp: list_all_iff valid_label_def starts_with_def ends_with_def)
  then show "validate_https_host host = Inr ()"
    using l(1-3) valid_labels_ends [OF v] by (simp add: validate_https_host_def)
qed

lemma host_byte_not_special:
  "host_byte c \<Longrightarrow> c \<noteq> CHR '':'' \<and> c \<noteq> CHR ''/'' \<and> c \<noteq> CHR ''@'' \<and> c \<noteq> CHR ''#''"
  by (auto simp: host_byte_def is_ascii_alphanumeric_def is_ascii_alphabetic_def is_ascii_digit_def char_code_def)

lemma dns_host_no_special:
  "dns_host host \<Longrightarrow> s \<in> {CHR '':'', CHR ''/'', CHR ''@'', CHR ''#''} \<Longrightarrow> s \<notin> set host"
  using host_byte_not_special by (auto simp: dns_host_def list_all_iff)

definition port_suffix :: "string option \<Rightarrow> string" where
  "port_suffix po = (case po of None \<Rightarrow> [] | Some p \<Rightarrow> '':'' @ p)"

lemma validate_https_url_iff:
  "validate_https_url rest = Inr () \<longleftrightarrow>
    (\<exists>host po path. rest = host @ port_suffix po @ ''/'' @ path \<and> dns_host host \<and>
       (\<forall>p. po = Some p \<longrightarrow> valid_port p) \<and> path \<noteq> [] \<and> hd path \<noteq> CHR ''?'' \<and> CHR ''#'' \<notin> set path)"
    (is "?L \<longleftrightarrow> ?R")
proof
  assume L: ?L
  then obtain authority path where *: "CHR ''#'' \<notin> set rest" "split_once CHR ''/'' rest = Some (authority, path)"
      "path \<noteq> []" "hd path \<noteq> CHR ''?''"
    by (auto simp: validate_https_url_def starts_with_def split: if_splits option.splits)
  have rest: "rest = authority @ ''/'' @ path" using *(2) by (simp add: split_once_Some_iff)
  have plain: "\<exists>host po. authority = host @ port_suffix po \<and> dns_host host \<and> (\<forall>p. po = Some p \<longrightarrow> valid_port p)"
  proof (cases "rsplit_once CHR '':'' authority")
    case None
    then have "dns_host authority"
      using L * by (auto simp: validate_https_url_def validate_https_host_iff split: if_splits)
    then show ?thesis by (intro exI [of _ authority] exI [of _ None]) (simp add: port_suffix_def)
  next
    case (Some hp)
    obtain host port where hp: "hp = (host, port)" by (cases hp)
    have a: "authority = host @ '':'' @ port" using Some by (simp add: hp rsplit_once_Some_iff)
    show ?thesis
    proof (cases "list_all is_ascii_digit port")
      case True
      then have "valid_port port" "dns_host host"
        using L * Some hp by (auto simp: validate_https_url_def validate_https_host_iff split: if_splits)
      then show ?thesis using a by (intro exI [of _ host] exI [of _ "Some port"]) (simp add: port_suffix_def)
    next
      case False
      then have "dns_host authority"
        using L * Some hp by (auto simp: validate_https_url_def validate_https_host_iff split: if_splits)
      then show ?thesis using dns_host_no_special [of authority "CHR '':''"] by (simp add: a)
    qed
  qed
  then obtain host po where "authority = host @ port_suffix po" "dns_host host"
    "\<forall>p. po = Some p \<longrightarrow> valid_port p" by blast
  then show ?R using * rest
    by (intro exI [of _ host] exI [of _ po] exI [of _ path]) auto
next
  assume ?R
  then obtain host po path where *: "rest = host @ port_suffix po @ ''/'' @ path" "dns_host host"
      "\<And>p. po = Some p \<Longrightarrow> valid_port p" "path \<noteq> []" "hd path \<noteq> CHR ''?''" "CHR ''#'' \<notin> set path" by blast
  note nh = dns_host_no_special [OF *(2)]
  have np: "s \<notin> set (port_suffix po)" if "s \<in> {CHR ''/'', CHR ''@'', CHR ''#''}" for s
    using that *(3) digits_no_special by (auto simp: port_suffix_def valid_port_iff split: option.splits)
  have "split_once CHR ''/'' rest = Some (host @ port_suffix po, path)"
    using np nh by (simp add: split_once_Some_iff *(1))
  moreover have "rsplit_once CHR '':'' (host @ port_suffix po) =
      (case po of None \<Rightarrow> None | Some p \<Rightarrow> Some (host, p))"
  proof (cases po)
    case None
    then show ?thesis using nh by (simp add: rsplit_once_None_iff port_suffix_def)
  next
    case (Some p)
    then show ?thesis using *(3) digits_no_special [of p "CHR '':''"]
      by (simp add: rsplit_once_Some_iff port_suffix_def valid_port_iff)
  qed
  moreover have "CHR ''#'' \<notin> set rest" "CHR ''@'' \<notin> set (host @ port_suffix po)"
    using np nh *(6) by (auto simp: *(1))
  moreover have "validate_https_host host = Inr ()" using *(2) validate_https_host_iff by blast
  ultimately show ?L using *(3-5)
    by (cases po) (auto simp: validate_https_url_def port_suffix_def starts_with_def valid_port_iff)
qed

section \<open>Validation and verification\<close>

text \<open>The well-formed manifests of a firmware, independent of the order of the checks.\<close>

definition manifest_ok :: "OtaManifest \<Rightarrow> bool" where
  "manifest_ok m \<longleftrightarrow> om_schema m = 2 \<and> om_target m = TARGET \<and> om_chip m = CHIP \<and>
     length (om_version m) \<le> 32 \<and> length (om_url m) \<le> 512 \<and>
     length (om_image_sha256 m) = 64 \<and> list_all is_ascii_hexdigit (om_image_sha256 m) \<and>
     length (om_signature m) = 128 \<and> list_all is_ascii_hexdigit (om_signature m) \<and>
     enc_alg (om_enc m) = ENC_ALG \<and> enc_chunk_size (om_enc m) = 4096 \<and>
     length (enc_nonce_prefix (om_enc m)) = 24 \<and> list_all is_ascii_hexdigit (enc_nonce_prefix (om_enc m)) \<and>
     0 < unat (om_image_size m) \<and>
     unat (om_download_size m) =
       16 + unat (om_image_size m) + 36 * ((unat (om_image_size m) + 4095) div 4096)"

lemma validate_len_Inr [simp]: "validate_len f v n = Inr u \<longleftrightarrow> length v \<le> n"
  by (auto simp: validate_len_def)

lemma expected_download_size_eq:
  "expected_download_size s = 16 + unat s + 36 * ((unat s + 4095) div 4096)"
  by (simp add: expected_download_size_def const_defs)

lemma validate_iff: "validate m = Inr () \<longleftrightarrow> manifest_ok m"
proof -
  have len: "length TARGET \<le> MAX_TARGET_LEN" "length CHIP \<le> MAX_CHIP_LEN" by (simp_all add: const_defs)
  have n: "(om_signature m = []) = (length (om_signature m) = 0)" "(om_image_size m = 0) = (unat (om_image_size m) = 0)"
    by (simp_all add: unat_eq_zero)
  show ?thesis
    unfolding validate_def manifest_ok_def expected_download_size_eq n
    by (auto simp: result_bind_Inr_iff len MAX_VERSION_LEN_def MAX_URL_LEN_def SHA256_HEX_LEN_def
        ED25519_SIGNATURE_HEX_LEN_def ENC_NONCE_PREFIX_HEX_LEN_def SCHEMA_VERSION_def ENC_CHUNK_SIZE_def)
qed

lemma parse_Inr_iff:
  "parse fs bytes = Inr m \<longleftrightarrow> length bytes \<le> 1024 \<and> fs bytes = Some m \<and> manifest_ok m"
  by (auto simp: parse_def MAX_MANIFEST_BYTES_def result_bind_Inr_iff validate_iff split: option.split)

lemma hex_nibble_of_hexdigit: "is_ascii_hexdigit c \<longleftrightarrow> is_ok (hex_nibble_runtime c)"
  by (auto simp: hex_nibble_runtime_def is_ascii_hexdigit_def is_ascii_digit_def Let_def)

lemma hex_pairs_ok: "list_all is_ascii_hexdigit s \<Longrightarrow> is_ok (hex_pairs s)"
  by (induction s rule: hex_pairs.induct) (auto simp: hex_nibble_of_hexdigit is_ok_iff)

lemma hex_signature_ok: "length s = 128 \<Longrightarrow> list_all is_ascii_hexdigit s \<Longrightarrow> is_ok (hex_signature s)"
  by (simp add: hex_signature_def hex_into_def ED25519_SIGNATURE_HEX_LEN_def hex_pairs_ok)

lemma no_prefix: "strip_prefix p s = None \<Longrightarrow> s \<noteq> p @ r"
  by (auto simp: strip_prefix_def)

section \<open>Properties\<close>

text \<open>
  C21: A manifest is accepted exactly when it arrived in at most 1024 bytes, the JSON library
  parsed it, it is well-formed for this device (schema, target and chip, field lengths, hex
  fields, encryption profile, a nonzero image and the download size that image, header and
  chunk records add up to), and the verifier accepted the canonical form of exactly this manifest
  under its key identifier.
\<close>

theorem parse_and_verify_accepts_iff:
  "parse_and_verify from_slice to_string bytes verifier = Inr m \<longleftrightarrow>
     length bytes \<le> 1024 \<and> from_slice bytes = Some m \<and> manifest_ok m \<and>
     (\<exists>canonical. canonical_unsigned_json to_string m = Inr canonical \<and>
        verifier (om_key_id m) (string_bytes canonical) (om_signature m))"
  by (auto simp: parse_and_verify_def result_bind_Inr_iff parse_Inr_iff split: if_splits)

text \<open>
  C22: The signature covers every field. If JSON strings are self-delimiting, two manifests with
  the same signed bytes agree in everything but the signature itself, so no field can be changed
  without changing what the verifier sees.
\<close>

theorem signed_bytes_determine_manifest:
  assumes "json_self_delimiting to_string"
    and "canonical_unsigned_json to_string m = Inr c" "canonical_unsigned_json to_string m' = Inr c'"
    and "string_bytes c = string_bytes c'"
  shows "m' = m\<lparr>om_signature := om_signature m'\<rparr>"
  using canonical_unsigned_inj [OF assms(1,2)] assms(3,4) by (simp add: string_bytes_inj)

definition json_escape :: "char \<Rightarrow> string" where
  "json_escape c = (if c = CHR 0x22 \<or> c = CHR 0x5C then [CHR 0x5C, c] else [c])"

definition json_quote :: "string \<Rightarrow> string option" where
  "json_quote s = Some (CHR 0x22 # concat (map json_escape s) @ [CHR 0x22])"

lemma json_escape_peel:
  "json_escape x @ r = json_escape y @ s \<longleftrightarrow> x = y \<and> r = s"
  "json_escape x @ r \<noteq> CHR 0x22 # s" "CHR 0x22 # s \<noteq> json_escape x @ r"
  by (auto simp: json_escape_def)

lemma json_quote_peel:
  "concat (map json_escape a) @ CHR 0x22 # u = concat (map json_escape b) @ CHR 0x22 # v \<Longrightarrow> a = b \<and> u = v"
proof (induction a arbitrary: b)
  case Nil
  then show ?case by (cases b) (simp_all add: json_escape_peel)
next
  case (Cons x a)
  then show ?case by (cases b) (auto simp: json_escape_peel)
qed

lemma json_quote_self_delimiting: "json_self_delimiting json_quote"
  unfolding json_self_delimiting_def json_quote_def option.inject
proof (intro allI impI)
  fix a b x y u v
  assume "CHR 0x22 # concat (map json_escape a) @ [CHR 0x22] = x"
    "CHR 0x22 # concat (map json_escape b) @ [CHR 0x22] = y" "x @ u = y @ v"
  then show "a = b \<and> u = v" by (intro json_quote_peel) force
qed

definition sample_manifest :: OtaManifest where
  "sample_manifest =
     \<lparr>om_schema = 2, om_key_id = 1, om_target = TARGET, om_chip = CHIP, om_version = ''1.0'', om_build = 7,
      om_force = False, om_url = ''http://10.0.0.2:80/f'', om_download_size = 88, om_image_size = 36,
      om_image_sha256 = replicate 64 CHR ''a'',
      om_enc = \<lparr>enc_alg = ENC_ALG, enc_key_id = 1, enc_chunk_size = 4096, enc_nonce_prefix = replicate 24 CHR ''0''\<rparr>,
      om_signature = replicate 128 CHR ''b''\<rparr>"

theorem signed_bytes_determine_manifest_witness:
  "sample_manifest\<lparr>om_signature := ''x''\<rparr> = sample_manifest\<lparr>om_signature := om_signature (sample_manifest\<lparr>om_signature := ''x''\<rparr>)\<rparr>"
proof -
  obtain c where c: "canonical_unsigned_json json_quote sample_manifest = Inr c"
    by (simp add: canonical_unsigned_json_def canonical_enc_json_def json_string_def json_quote_def)
  moreover from c have "canonical_unsigned_json json_quote (sample_manifest\<lparr>om_signature := ''x''\<rparr>) = Inr c"
    by (simp add: canonical_unsigned_json_def)
  ultimately show ?thesis
    by (rule signed_bytes_determine_manifest [OF json_quote_self_delimiting]) simp
qed

text \<open>
  The signature check trusts only the keys compiled in: it accepts exactly when the key
  identifier is the first match in the list of trusted keys, the signature is 128 hexadecimal
  digits, the key bytes are a valid key and the library verifies the decoded signature over the
  given bytes with that key.
\<close>

theorem ed25519_verify_trusts_listed_keys:
  "ed25519_verify key_from_bytes ed_verify trusted key_id msg sig \<longleftrightarrow>
     (\<exists>pk vk sb. map_of trusted key_id = Some pk \<and> key_from_bytes pk = Some vk \<and>
        length sig = 128 \<and> hex_pairs sig = Inr sb \<and> ed_verify vk msg sb)"
proof -
  have "find (\<lambda>(i, _). i = key_id) trusted = map_option (\<lambda>pk. (key_id, pk)) (map_of trusted key_id)"
    by (induction trusted) auto
  then show ?thesis
    by (auto simp: ed25519_verify_def hex_signature_def hex_into_def ED25519_SIGNATURE_HEX_LEN_def
        split: option.split sum.split)
qed


end
