(* ===== verification/Power_Policy.thy ===== *)
theory Power_Policy
  imports Messages Rtc_Schema Ota_Core
begin

text \<open>
  The settings that outlive a reset and the power module, from \<open>firmware/src/radio_settings.rs\<close>
  and \<open>firmware/src/power/\<close> (\<open>mod.rs\<close>, \<open>persistence.rs\<close>, \<open>policy.rs\<close>). The atomics of the
  module and the word it keeps in RTC slow memory are the fields of one record. The clock is the
  uptime in seconds; \<open>now_secs\<close> saturates it at 32 bits. Log lines are not modelled, except that
  the reason for not sleeping is a value, since one of them computes.
\<close>

section \<open>Radio settings in RTC memory\<close>

definition radio_to_rtc_payload :: "RadioSettings \<Rightarrow> RadioSettingsPayload" where
  "radio_to_rtc_payload s =
     \<lparr>rp_detection_threshold_db = rs_detection_threshold_db s, rp_magn_target = rs_magn_target s,
      rp_channel_bandwidth_index = rs_channel_bandwidth_index s,
      rp_carrier_sense_threshold = rs_carrier_sense_threshold s\<rparr>"

definition radio_from_rtc_payload :: "RadioSettingsPayload \<Rightarrow> RadioSettings" where
  "radio_from_rtc_payload p =
     \<lparr>rs_detection_threshold_db = rp_detection_threshold_db p, rs_magn_target = rp_magn_target p,
      rs_channel_bandwidth_index = rp_channel_bandwidth_index p,
      rs_carrier_sense_threshold = rp_carrier_sense_threshold p\<rparr>"

definition radio_clamp_settings :: "RadioSettings \<Rightarrow> RadioSettings" where
  "radio_clamp_settings s = radio_settings_from (clamp_radio_config (radio_config_from s))"

text \<open>The word written, and a load: the settings when there are any, and the word afterwards.\<close>

definition radio_persist_settings :: "RadioSettings \<Rightarrow> u32" where
  "radio_persist_settings s =
     (let clamped = radio_clamp_settings s in encode_radio_settings (radio_to_rtc_payload clamped))"

definition radio_load_settings :: "u32 \<Rightarrow> RadioSettings option \<times> u32" where
  "radio_load_settings word =
     (case decode_radio_settings word of
        Inr decoded \<Rightarrow>
          let settings = radio_clamp_settings (radio_from_rtc_payload (dv_value decoded))
          in (Some settings,
              if settings \<noteq> radio_from_rtc_payload (dv_value decoded)
              then encode_radio_settings (radio_to_rtc_payload settings) else word)
      | Inl _ \<Rightarrow> (None, word))"

definition radio_load_settings_or_default :: "u32 \<Rightarrow> RadioSettings \<times> u32" where
  "radio_load_settings_or_default word =
     (case radio_load_settings word of
        (Some s, w) \<Rightarrow> (s, w) | (None, w) \<Rightarrow> (DEFAULT_RADIO_SETTINGS, w))"

section \<open>The state of the power module\<close>

record PowerState =
  pw_predictive_sleep_enabled :: bool
  pw_sleep_duration_secs :: u8
  pw_ui_idle_timeout_secs :: u8
  pw_ui_idle_deadline_secs :: nat
  pw_persisted_power_word :: u32

text \<open>After a reset the atomics have their initial values; the RTC word keeps what it held.\<close>

definition power_after_reset :: "u32 \<Rightarrow> PowerState" where
  "power_after_reset word =
     \<lparr>pw_predictive_sleep_enabled = ps_predictive_sleep_enabled DEFAULT_POWER_SETTINGS,
      pw_sleep_duration_secs = ps_sleep_duration_secs DEFAULT_POWER_SETTINGS,
      pw_ui_idle_timeout_secs = ps_ui_idle_timeout_secs DEFAULT_POWER_SETTINGS,
      pw_ui_idle_deadline_secs = 0,
      pw_persisted_power_word = word\<rparr>"

definition power_ui_idle_timeout_secs :: "PowerState \<Rightarrow> u8" where
  "power_ui_idle_timeout_secs st =
     clamp_ord POWER_UI_IDLE_TIMEOUT_MIN_SECS POWER_UI_IDLE_TIMEOUT_MAX_SECS (pw_ui_idle_timeout_secs st)"

definition power_sleep_duration_secs :: "PowerState \<Rightarrow> u8" where
  "power_sleep_duration_secs st =
     clamp_ord POWER_SLEEP_DURATION_MIN_SECS POWER_SLEEP_DURATION_MAX_SECS (pw_sleep_duration_secs st)"

definition power_now_secs :: "nat \<Rightarrow> nat" where
  "power_now_secs uptime = (if uptime \<le> u32_max then uptime else u32_max)"

definition rearm_ui_idle_deadline :: "nat \<Rightarrow> PowerState \<Rightarrow> PowerState" where
  "rearm_ui_idle_deadline uptime st =
     (let now = power_now_secs uptime;
          deadline = sat_add_u32 now (unat (power_ui_idle_timeout_secs st))
      in st\<lparr>pw_ui_idle_deadline_secs := deadline\<rparr>)"

definition power_clamp_settings :: "PowerSettings \<Rightarrow> PowerSettings" where
  "power_clamp_settings s = power_settings_from (clamp_power_config (power_config_from s))"

section \<open>Persistence\<close>

definition power_to_rtc_payload :: "PowerSettings \<Rightarrow> PowerSettingsPayload" where
  "power_to_rtc_payload s =
     \<lparr>pp_predictive_sleep_enabled = ps_predictive_sleep_enabled s,
      pp_sleep_duration_secs = ps_sleep_duration_secs s,
      pp_ui_idle_timeout_secs = ps_ui_idle_timeout_secs s\<rparr>"

definition power_from_rtc_payload :: "PowerSettingsPayload \<Rightarrow> PowerSettings" where
  "power_from_rtc_payload p =
     \<lparr>ps_predictive_sleep_enabled = pp_predictive_sleep_enabled p,
      ps_sleep_duration_secs = pp_sleep_duration_secs p,
      ps_ui_idle_timeout_secs = pp_ui_idle_timeout_secs p\<rparr>"

definition settings_within_bounds :: "PowerSettings \<Rightarrow> bool" where
  "settings_within_bounds s \<longleftrightarrow>
     (POWER_SLEEP_DURATION_MIN_SECS \<le> ps_sleep_duration_secs s \<and>
      ps_sleep_duration_secs s \<le> POWER_SLEEP_DURATION_MAX_SECS) \<and>
     (POWER_UI_IDLE_TIMEOUT_MIN_SECS \<le> ps_ui_idle_timeout_secs s \<and>
      ps_ui_idle_timeout_secs s \<le> POWER_UI_IDLE_TIMEOUT_MAX_SECS)"

definition power_persist_settings :: "PowerSettings \<Rightarrow> PowerState \<Rightarrow> PowerState" where
  "power_persist_settings s st =
     (let word = encode_power_settings (power_to_rtc_payload (power_clamp_settings s))
      in st\<lparr>pw_persisted_power_word := word\<rparr>)"

definition power_load_settings_or_default :: "PowerState \<Rightarrow> PowerSettings \<times> PowerState" where
  "power_load_settings_or_default st =
     (let word = pw_persisted_power_word st
      in case decode_power_settings word of
           Inr decoded \<Rightarrow>
             let settings = power_from_rtc_payload (dv_value decoded)
             in if settings_within_bounds settings
                then (settings,
                      if dv_needs_migration decoded
                      then st\<lparr>pw_persisted_power_word := encode_power_settings (dv_value decoded)\<rparr>
                      else st)
                else (DEFAULT_POWER_SETTINGS, st)
         | Inl decode_error \<Rightarrow> (DEFAULT_POWER_SETTINGS, st))"

section \<open>Policy\<close>

definition is_ota_sleep_blocked :: "OtaState \<Rightarrow> bool" where
  "is_ota_sleep_blocked state \<longleftrightarrow> state \<noteq> Inactive"

definition is_ota_update_in_progress :: "OtaState \<Rightarrow> bool" where
  "is_ota_update_in_progress state \<longleftrightarrow> state = Downloading \<or> state = Applying"

definition is_ota_confirmation_pending :: "OtaState \<Rightarrow> bool" where
  "is_ota_confirmation_pending state \<longleftrightarrow> state = PendingConfirmation"

definition power_apply_settings ::
  "nat \<Rightarrow> PowerSettings \<Rightarrow> bool \<Rightarrow> bool \<Rightarrow> PowerState \<Rightarrow> PowerState" where
  "power_apply_settings uptime settings persist rearm_idle_countdown st =
     (let clamped = power_clamp_settings settings;
          st = st\<lparr>pw_predictive_sleep_enabled := ps_predictive_sleep_enabled clamped,
                  pw_sleep_duration_secs := ps_sleep_duration_secs clamped,
                  pw_ui_idle_timeout_secs := ps_ui_idle_timeout_secs clamped\<rparr>;
          st = (if persist then power_persist_settings clamped st else st);
          now = power_now_secs uptime;
          current_deadline = pw_ui_idle_deadline_secs st;
          next_deadline = next_ui_idle_deadline_secs (ps_predictive_sleep_enabled clamped)
            rearm_idle_countdown now current_deadline (ps_ui_idle_timeout_secs clamped)
      in st\<lparr>pw_ui_idle_deadline_secs := next_deadline\<rparr>)"

definition power_set_settings :: "nat \<Rightarrow> PowerSettings \<Rightarrow> PowerState \<Rightarrow> PowerState" where
  "power_set_settings uptime settings = power_apply_settings uptime settings True True"

definition power_restore_settings_after_reset :: "nat \<Rightarrow> PowerSettings \<Rightarrow> PowerState \<Rightarrow> PowerState" where
  "power_restore_settings_after_reset uptime settings = power_apply_settings uptime settings False False"

definition power_get_settings :: "PowerState \<Rightarrow> PowerSettings" where
  "power_get_settings st =
     \<lparr>ps_predictive_sleep_enabled = pw_predictive_sleep_enabled st,
      ps_sleep_duration_secs = power_sleep_duration_secs st,
      ps_ui_idle_timeout_secs = power_ui_idle_timeout_secs st\<rparr>"

definition power_notify_ui_activity :: "nat \<Rightarrow> PowerState \<Rightarrow> PowerState" where
  "power_notify_ui_activity uptime st =
     (if pw_predictive_sleep_enabled st then rearm_ui_idle_deadline uptime st else st)"

text \<open>
  Why the device stays awake. The number in \<open>SkipMeasurementTooOld\<close> is the one the line logs,
  \<open>60 - as_secs()\<close>, which wraps: the release profile turns overflow checks off.
\<close>

datatype SleepSkip =
    SkipOtaBlocked | SkipQueueNotEmpty | SkipMeasurementTooOld u64 | SkipPredictiveSleepDisabled
  | SkipUiIdleDeadline nat | SkipOtaConfirmationPending | SkipOtaUpdateInProgress

datatype SleepAction = StayAwake SleepSkip | EnterDeepSleep u8

fun sleep_action :: "nat \<Rightarrow> OtaState \<Rightarrow> PredictiveSleepDecision \<Rightarrow> SleepAction" where
  "sleep_action age_ns ota QueueNotEmpty = StayAwake SkipQueueNotEmpty"
| "sleep_action age_ns ota MeasurementTooOld =
     StayAwake (SkipMeasurementTooOld (60 - of_nat (age_ns div NANOS_PER_SEC)))"
| "sleep_action age_ns ota PredictiveSleepDisabled = StayAwake SkipPredictiveSleepDisabled"
| "sleep_action age_ns ota (UiIdleDeadlineNotElapsed idle_remaining_secs) =
     StayAwake (SkipUiIdleDeadline idle_remaining_secs)"
| "sleep_action age_ns ota OTAUpdateInProgress =
     StayAwake (if is_ota_confirmation_pending ota then SkipOtaConfirmationPending
                else SkipOtaUpdateInProgress)"
| "sleep_action age_ns ota (Sleep sleep_secs) = EnterDeepSleep sleep_secs"

definition maybe_sleep_after_publish ::
  "nat \<Rightarrow> PowerState \<Rightarrow> bool \<Rightarrow> nat \<Rightarrow> OtaState \<Rightarrow> SleepAction option" where
  "maybe_sleep_after_publish uptime st queue_empty age_ns ota =
     (let settings = power_get_settings st;
          now = power_now_secs uptime;
          idle_deadline = pw_ui_idle_deadline_secs st
      in if is_ota_sleep_blocked ota then Some (StayAwake SkipOtaBlocked)
         else map_option (sleep_action age_ns ota)
           (predictive_sleep_decision queue_empty age_ns (ps_predictive_sleep_enabled settings)
              (ps_sleep_duration_secs settings) now (is_ota_update_in_progress ota) idle_deadline))"

text \<open>The start of the firmware (\<open>startup/hw_context.rs\<close>): load, then restore.\<close>

definition power_boot :: "nat \<Rightarrow> u32 \<Rightarrow> PowerState" where
  "power_boot uptime word =
     (case power_load_settings_or_default (power_after_reset word) of
        (settings, st) \<Rightarrow> power_restore_settings_after_reset uptime settings st)"

section \<open>Lemmas\<close>

lemma power_clamp_valid: "valid_power_settings (power_clamp_settings s)"
  by (simp add: power_clamp_settings_def valid_power_settings_def power_norm.valid_norm)

lemma power_clamp_id: "valid_power_settings s \<Longrightarrow> power_clamp_settings s = s"
  by (simp add: power_clamp_settings_def valid_power_settings_def power_norm.norm_valid)

lemma radio_clamp_valid: "valid_radio_settings (radio_clamp_settings s)"
  by (simp add: radio_clamp_settings_def valid_radio_settings_def radio_norm.valid_norm)

lemma radio_clamp_id: "valid_radio_settings s \<Longrightarrow> radio_clamp_settings s = s"
  by (simp add: radio_clamp_settings_def valid_radio_settings_def radio_norm.norm_valid)

lemma settings_within_bounds_iff: "settings_within_bounds s \<longleftrightarrow> valid_power_settings s"
  by (auto simp: settings_within_bounds_def valid_power_settings_def valid_power_config_def
      power_config_from_def const_defs)

text \<open>The payload types are the settings field by field.\<close>

lemma payload_conversions [simp]:
  "power_from_rtc_payload (power_to_rtc_payload s) = s"
  "power_to_rtc_payload (power_from_rtc_payload p) = p"
  "radio_from_rtc_payload (radio_to_rtc_payload r) = r"
  "radio_to_rtc_payload (radio_from_rtc_payload q) = q"
  by (simp_all add: power_from_rtc_payload_def power_to_rtc_payload_def
      radio_from_rtc_payload_def radio_to_rtc_payload_def)

lemma decode_stored_power:
  assumes "valid_power_settings s"
  shows "decode_power_settings (encode_power_settings (power_to_rtc_payload s)) =
    Inr \<lparr>dv_value = power_to_rtc_payload s, dv_schema_version = 1, dv_needs_migration = False\<rparr>"
proof -
  have "ps_sleep_duration_secs s \<le> 59"
    using assms by (simp add: valid_power_settings_def valid_power_config_def power_config_from_def)
  then have "power_representable (power_to_rtc_payload s)"
    by (simp add: power_representable_def power_to_rtc_payload_def and_mask_u8 word_le_nat_alt)
  from power_codec.dec_enc [OF this] show ?thesis by (simp add: const_defs)
qed

lemma decode_stored_radio:
  assumes "valid_radio_settings s"
  shows "decode_radio_settings (encode_radio_settings (radio_to_rtc_payload s)) =
    Inr \<lparr>dv_value = radio_to_rtc_payload s, dv_schema_version = 1, dv_needs_migration = False\<rparr>"
proof -
  have "radio_representable (radio_to_rtc_payload s)"
    using assms by (simp add: radio_representable_def radio_to_rtc_payload_def and_mask_u8
        valid_radio_settings_def valid_radio_config_def radio_config_from_def)
  from radio_codec.dec_enc [OF this] show ?thesis by (simp add: const_defs)
qed

lemma power_load_valid:
  "power_load_settings_or_default st = (s, st') \<Longrightarrow> valid_power_settings s"
  using valid_defaults
  by (auto simp: power_load_settings_or_default_def Let_def settings_within_bounds_iff
      split: sum.splits if_splits)

lemma power_get_settings_stored:
  assumes "valid_power_settings s" "pw_predictive_sleep_enabled st = ps_predictive_sleep_enabled s"
    "pw_sleep_duration_secs st = ps_sleep_duration_secs s"
    "pw_ui_idle_timeout_secs st = ps_ui_idle_timeout_secs s"
  shows "power_get_settings st = s"
  using assms
  by (simp add: power_get_settings_def power_sleep_duration_secs_def power_ui_idle_timeout_secs_def
      valid_power_settings_def valid_power_config_def power_config_from_def const_defs)

lemma power_apply_get: "power_get_settings (power_apply_settings uptime s persist rearm st) = power_clamp_settings s"
  by (rule power_get_settings_stored [OF power_clamp_valid])
     (simp_all add: power_apply_settings_def power_persist_settings_def Let_def)

lemma power_set_settings_word:
  "pw_persisted_power_word (power_set_settings uptime s st) =
     encode_power_settings (power_to_rtc_payload (power_clamp_settings s))"
  by (simp add: power_set_settings_def power_apply_settings_def power_persist_settings_def Let_def
      power_clamp_id power_clamp_valid)

section \<open>The life of the power state\<close>

text \<open>
  The states the module can be in, with the uptime: it starts from any RTC word, time passes,
  the user applies settings or touches the encoder, and a reset or deep sleep restarts the clock
  and the atomics but keeps the word.
\<close>

inductive power_reachable :: "nat \<Rightarrow> PowerState \<Rightarrow> bool" where
  boot: "power_reachable uptime (power_boot uptime word)"
| tick: "power_reachable uptime st \<Longrightarrow> uptime \<le> uptime' \<Longrightarrow> power_reachable uptime' st"
| set: "power_reachable uptime st \<Longrightarrow> power_reachable uptime (power_set_settings uptime s st)"
| notify: "power_reachable uptime st \<Longrightarrow> power_reachable uptime (power_notify_ui_activity uptime st)"

definition power_state_ok :: "nat \<Rightarrow> PowerState \<Rightarrow> bool" where
  "power_state_ok uptime st \<longleftrightarrow>
     valid_power_settings
       \<lparr>ps_predictive_sleep_enabled = pw_predictive_sleep_enabled st,
        ps_sleep_duration_secs = pw_sleep_duration_secs st,
        ps_ui_idle_timeout_secs = pw_ui_idle_timeout_secs st\<rparr> \<and>
     pw_ui_idle_deadline_secs st
       \<le> sat_add_u32 (power_now_secs uptime) (unat (pw_ui_idle_timeout_secs st))"

lemma power_apply_ok: "power_state_ok uptime (power_apply_settings uptime s persist rearm st)"
  using power_clamp_valid [of s]
  by (simp add: power_state_ok_def power_apply_settings_def power_persist_settings_def Let_def
      next_ui_idle_deadline_secs_def valid_power_settings_def valid_power_config_def power_config_from_def)

lemma power_state_ok_timeout:
  "power_state_ok uptime st \<Longrightarrow> power_ui_idle_timeout_secs st = pw_ui_idle_timeout_secs st"
  "power_state_ok uptime st \<Longrightarrow> power_sleep_duration_secs st = pw_sleep_duration_secs st"
  by (simp_all add: power_state_ok_def power_ui_idle_timeout_secs_def power_sleep_duration_secs_def
      valid_power_settings_def valid_power_config_def power_config_from_def const_defs)

lemma power_reachable_ok: "power_reachable uptime st \<Longrightarrow> power_state_ok uptime st"
proof (induction rule: power_reachable.induct)
  case (boot uptime word)
  then show ?case
    by (auto simp: power_boot_def power_restore_settings_after_reset_def power_apply_ok split: prod.splits)
next
  case (tick uptime st uptime')
  then show ?case
    by (auto simp: power_state_ok_def sat_add_u32_def power_now_secs_def split: if_splits)
next
  case (set uptime st s)
  show ?case by (simp add: power_set_settings_def power_apply_ok)
next
  case (notify uptime st)
  then show ?case
    by (auto simp: power_notify_ui_activity_def rearm_ui_idle_deadline_def Let_def
        power_state_ok_timeout) (simp add: power_state_ok_def)
qed

lemma power_boot_get: "power_get_settings (power_boot uptime word) = fst (power_load_settings_or_default (power_after_reset word))"
  by (auto simp: power_boot_def power_restore_settings_after_reset_def power_apply_get
      dest: power_load_valid intro: power_clamp_id split: prod.splits)

section \<open>Properties\<close>

text \<open>
  C28: Settings survive deep sleep and resets. Power settings the user applied are, clamped, the
  settings in force after the next start of the firmware, and so are radio settings, whose word is
  not rewritten; and whatever the retained words hold, damaged or never written, the firmware
  starts with settings inside their limits.
\<close>

theorem settings_survive_reset:
  "power_get_settings (power_boot uptime' (pw_persisted_power_word (power_set_settings uptime s st))) =
     power_clamp_settings s \<and>
   radio_load_settings_or_default (radio_persist_settings r) =
     (radio_clamp_settings r, radio_persist_settings r) \<and>
   valid_power_settings (power_get_settings (power_boot uptime' word)) \<and>
   valid_radio_settings (fst (radio_load_settings_or_default word))"
proof (intro conjI)
  let ?s = "power_clamp_settings s"
  show "power_get_settings (power_boot uptime' (pw_persisted_power_word (power_set_settings uptime s st))) = ?s"
    by (simp add: power_set_settings_word power_boot_get power_load_settings_or_default_def power_after_reset_def
        decode_stored_power power_clamp_valid settings_within_bounds_iff Let_def)
  show "radio_load_settings_or_default (radio_persist_settings r) =
      (radio_clamp_settings r, radio_persist_settings r)"
    by (simp add: radio_load_settings_or_default_def radio_load_settings_def radio_persist_settings_def
        decode_stored_radio radio_clamp_valid radio_clamp_id Let_def)
  show "valid_power_settings (power_get_settings (power_boot uptime' word))"
    by (cases "power_load_settings_or_default (power_after_reset word)")
       (auto simp: power_boot_get dest: power_load_valid)
  show "valid_radio_settings (fst (radio_load_settings_or_default word))"
    using valid_defaults
    by (auto simp: radio_load_settings_or_default_def radio_load_settings_def radio_clamp_valid
        Let_def split: sum.splits)
qed

text \<open>
  C29: An idle device goes to sleep. In every state the power module can reach, when predictive
  sleep is enabled and the user has done nothing for the idle timeout, a publish that empties the
  queue with a reading at most 20 s old and no update under way puts the device into deep sleep,
  for at least one second and at most the configured duration; and in no state does a publish do
  so with readings still queued or while an update is anywhere but inactive.
\<close>

theorem idle_device_sleeps:
  assumes "power_reachable uptime st"
    and "uptime + unat (pw_ui_idle_timeout_secs st) \<le> uptime'"
  shows "(pw_predictive_sleep_enabled st \<and> age_ns \<le> 20 * NANOS_PER_SEC \<longrightarrow>
      (\<exists>s. maybe_sleep_after_publish uptime' st True age_ns Inactive = Some (EnterDeepSleep s) \<and>
           1 \<le> s \<and> s \<le> pw_sleep_duration_secs st)) \<and>
    (maybe_sleep_after_publish uptime' st queue_empty age_ns ota = Some (EnterDeepSleep s) \<longrightarrow>
      queue_empty \<and> ota = Inactive)"
proof (intro conjI impI)
  have ok: "power_state_ok uptime st" using assms(1) by (rule power_reachable_ok)
  assume on: "pw_predictive_sleep_enabled st \<and> age_ns \<le> 20 * NANOS_PER_SEC"
  have "pw_ui_idle_deadline_secs st \<le> power_now_secs uptime'"
    using ok assms(2) by (auto simp: power_state_ok_def sat_add_u32_def power_now_secs_def split: if_splits)
  moreover have "1 \<le> pw_sleep_duration_secs st"
    using ok by (simp add: power_state_ok_def valid_power_settings_def valid_power_config_def power_config_from_def)
  moreover obtain d where "predictive_sleep_decision True age_ns True (pw_sleep_duration_secs st)
      (power_now_secs uptime') False (pw_ui_idle_deadline_secs st) = Some d"
    "(\<exists>s. d = Sleep s) \<longleftrightarrow> pw_ui_idle_deadline_secs st \<le> power_now_secs uptime'"
    "\<forall>s. d = Sleep s \<longrightarrow> 1 \<le> s \<and> s \<le> max 1 (pw_sleep_duration_secs st)"
    using sleep_decision_cases [of True age_ns True "pw_sleep_duration_secs st" "power_now_secs uptime'"
        False "pw_ui_idle_deadline_secs st"] on by auto
  ultimately show "\<exists>s. maybe_sleep_after_publish uptime' st True age_ns Inactive = Some (EnterDeepSleep s) \<and>
      1 \<le> s \<and> s \<le> pw_sleep_duration_secs st"
    using on by (auto simp: maybe_sleep_after_publish_def power_get_settings_def is_ota_sleep_blocked_def
        is_ota_update_in_progress_def power_state_ok_timeout [OF ok] max_absorb2)
next
  assume "maybe_sleep_after_publish uptime' st queue_empty age_ns ota = Some (EnterDeepSleep s)"
  then show "queue_empty" "ota = Inactive"
    by (auto simp: maybe_sleep_after_publish_def Let_def is_ota_sleep_blocked_def predictive_sleep_decision_def
        split: if_splits)
qed

theorem idle_device_sleeps_witness:
  "\<exists>s. maybe_sleep_after_publish 70 (power_boot 0 0) True 0 Inactive = Some (EnterDeepSleep s) \<and> 1 \<le> s"
proof -
  have "decode_power_settings 0 = Inl UnknownSchema"
    by (simp add: decode_power_settings_def u32_to_le_bytes_def const_defs)
  then have "power_load_settings_or_default (power_after_reset 0) = (DEFAULT_POWER_SETTINGS, power_after_reset 0)"
    by (simp add: power_load_settings_or_default_def power_after_reset_def)
  then have boot: "pw_predictive_sleep_enabled (power_boot 0 0) \<and> pw_ui_idle_timeout_secs (power_boot 0 0) = 60"
    by (simp add: power_boot_def power_restore_settings_after_reset_def power_apply_settings_def
        power_clamp_id valid_defaults) (simp add: DEFAULT_POWER_SETTINGS_def const_defs)
  then have "0 + unat (pw_ui_idle_timeout_secs (power_boot 0 0)) \<le> 70" by simp
  from idle_device_sleeps [OF power_reachable.boot this, of 0 True Inactive 0] boot show ?thesis by blast
qed

text \<open>
  The line logged for an old measurement subtracts its age from 60 without a check; for a reading
  older than a minute the number wraps.
\<close>

lemma too_old_log_wraps:
  "maybe_sleep_after_publish uptime st True (61 * NANOS_PER_SEC) Inactive =
     Some (StayAwake (SkipMeasurementTooOld (- 1)))"
  by (simp add: maybe_sleep_after_publish_def is_ota_sleep_blocked_def predictive_sleep_decision_def
      const_defs NANOS_PER_SEC_def)

end
