(* ===== verification/App_Bus.thy ===== *)
theory App_Bus
  imports Power_Policy
begin

text \<open>
  The application bus of \<open>firmware/src/app_bus.rs\<close>: the events and commands the tasks exchange,
  their routing, and the dispatch task, which applies settings to the watches, to the power module
  and to retained memory. A watch is the last value sent through it.
\<close>

section \<open>Events and commands\<close>

datatype UiEvent = NextScreen | PrevScreen | Select

datatype UiInputEvent = Navigation UiEvent | UiApplySettings RadioSettings PowerSettings

datatype AppEvent = UiInput UiInputEvent | RadioFrameDecoded RadioReading | TimeUpdated u64

datatype AppCommand =
    ApplySettings RadioSettings PowerSettings | PublishTelemetry RadioReading | OtaConfirmed

datatype ControlDispatch = DispatchSettings RadioSettings PowerSettings | DispatchIgnore

datatype MqttHealth = Disconnected | HeartbeatPublished

definition APP_EVENT_CHANNEL_DEPTH :: nat where [const_defs]: "APP_EVENT_CHANNEL_DEPTH = 8"
definition APP_COMMAND_CHANNEL_DEPTH :: nat where [const_defs]: "APP_COMMAND_CHANNEL_DEPTH = 16"
definition MQTT_COMMAND_CHANNEL_DEPTH :: nat where [const_defs]: "MQTT_COMMAND_CHANNEL_DEPTH = 16"
definition OTA_COMMAND_CHANNEL_DEPTH :: nat where [const_defs]: "OTA_COMMAND_CHANNEL_DEPTH = 1"
definition RADIO_TELEMETRY_CHANNEL_DEPTH :: nat where [const_defs]: "RADIO_TELEMETRY_CHANNEL_DEPTH = 16"
definition OTA_MANIFEST_MAX_BYTES :: nat where [const_defs]: "OTA_MANIFEST_MAX_BYTES = MAX_MANIFEST_BYTES"

section \<open>Routing\<close>

fun route_event :: "AppEvent \<Rightarrow> AppCommand option" where
  "route_event (UiInput (UiApplySettings radio power_settings)) = Some (ApplySettings radio power_settings)"
| "route_event (RadioFrameDecoded reading) = Some (PublishTelemetry reading)"
| "route_event (UiInput (Navigation _)) = None"
| "route_event (TimeUpdated _) = None"

definition route_event_to_control_command :: "AppEvent \<Rightarrow> AppCommand option" where
  "route_event_to_control_command event =
     (case route_event event of
        Some (ApplySettings radio power_settings) \<Rightarrow> Some (ApplySettings radio power_settings)
      | Some (PublishTelemetry _) \<Rightarrow> None | Some OtaConfirmed \<Rightarrow> None | None \<Rightarrow> None)"

definition route_event_to_mqtt_command :: "AppEvent \<Rightarrow> AppCommand option" where
  "route_event_to_mqtt_command event =
     (case route_event event of
        Some (PublishTelemetry reading) \<Rightarrow> Some (PublishTelemetry reading)
      | Some OtaConfirmed \<Rightarrow> None | Some (ApplySettings _ _) \<Rightarrow> None | None \<Rightarrow> None)"

fun classify_control_dispatch :: "AppCommand \<Rightarrow> ControlDispatch" where
  "classify_control_dispatch (ApplySettings radio power_settings) = DispatchSettings radio power_settings"
| "classify_control_dispatch (PublishTelemetry _) = DispatchIgnore"
| "classify_control_dispatch OtaConfirmed = DispatchIgnore"

section \<open>The dispatch task\<close>

record DispatchState =
  ds_radio_settings_watch :: "RadioSettings option"
  ds_persisted_radio_word :: u32
  ds_power_settings_watch :: "PowerSettings option"
  ds_power :: PowerState

text \<open>One round of the loop of \<open>app_command_dispatch_task\<close>, at the given uptime.\<close>

definition app_command_dispatch_step :: "nat \<Rightarrow> AppCommand \<Rightarrow> DispatchState \<Rightarrow> DispatchState" where
  "app_command_dispatch_step uptime command ds =
     (case classify_control_dispatch command of
        DispatchSettings radio power_settings \<Rightarrow>
          let ds = ds\<lparr>ds_radio_settings_watch := Some radio\<rparr>;
              ds = ds\<lparr>ds_persisted_radio_word := radio_persist_settings radio\<rparr>;
              ds = ds\<lparr>ds_power_settings_watch := Some power_settings\<rparr>
          in ds\<lparr>ds_power := power_set_settings uptime power_settings (ds_power ds)\<rparr>
      | DispatchIgnore \<Rightarrow> ds)"

definition app_command_dispatch_run :: "(nat \<times> AppCommand) list \<Rightarrow> DispatchState \<Rightarrow> DispatchState" where
  "app_command_dispatch_run = fold (\<lambda>(uptime, command). app_command_dispatch_step uptime command)"

section \<open>Lemmas\<close>

text \<open>An event reaches the control path or the MQTT path, never both.\<close>

lemma routes_disjoint:
  "route_event_to_control_command e = None \<or> route_event_to_mqtt_command e = None"
  by (cases e rule: route_event.cases)
     (simp_all add: route_event_to_control_command_def route_event_to_mqtt_command_def)

lemma dispatch_ignores [simp]:
  "app_command_dispatch_step uptime (PublishTelemetry r) ds = ds"
  "app_command_dispatch_step uptime OtaConfirmed ds = ds"
  by (simp_all add: app_command_dispatch_step_def)

lemma dispatch_run_append:
  "app_command_dispatch_run (xs @ ys) ds = app_command_dispatch_run ys (app_command_dispatch_run xs ds)"
  by (simp add: app_command_dispatch_run_def)

lemma dispatch_run_ignored:
  "(\<forall>(t, c) \<in> set cs. classify_control_dispatch c = DispatchIgnore) \<Longrightarrow> app_command_dispatch_run cs ds = ds"
  by (induction cs) (auto simp: app_command_dispatch_run_def app_command_dispatch_step_def)

text \<open>
  The last settings applied are, clamped, those that a reset brings back, whatever commands that
  are not settings came in between.
\<close>

lemma last_settings_persist:
  fixes ds :: DispatchState and p :: PowerSettings and r :: RadioSettings and t :: nat
    and earlier later :: "(nat \<times> AppCommand) list"
  assumes "\<forall>(t, c) \<in> set later. classify_control_dispatch c = DispatchIgnore"
  defines "ds' \<equiv> app_command_dispatch_run (earlier @ (t, ApplySettings r p) # later) ds"
  shows "ds_persisted_radio_word ds' = radio_persist_settings r"
    and "pw_persisted_power_word (ds_power ds') = encode_power_settings (power_to_rtc_payload (power_clamp_settings p))"
    and "power_get_settings (ds_power ds') = power_clamp_settings p"
proof -
  let ?d = "app_command_dispatch_run earlier ds"
  have ds': "ds' = app_command_dispatch_step t (ApplySettings r p) ?d"
    using dispatch_run_ignored [OF assms(1)]
    by (simp add: ds'_def dispatch_run_append) (simp add: app_command_dispatch_run_def)
  show "ds_persisted_radio_word ds' = radio_persist_settings r"
    by (simp add: ds' app_command_dispatch_step_def Let_def)
  show "pw_persisted_power_word (ds_power ds') = encode_power_settings (power_to_rtc_payload (power_clamp_settings p))"
    by (simp add: ds' app_command_dispatch_step_def Let_def power_set_settings_word)
  show "power_get_settings (ds_power ds') = power_clamp_settings p"
    by (simp add: ds' app_command_dispatch_step_def Let_def power_set_settings_def power_apply_get)
qed

end
