(* ===== verification/Ota_Encrypted.thy ===== *)
theory Ota_Encrypted
  imports Ota_Core
begin

text \<open>
  The authenticated stream format of an update, \<open>firmware/src/ota/encrypted.rs\<close>: key derivation,
  the HMAC tag of a chunk, AES-256-CTR, the nonce prefix and the stream header. SHA-256 and the AES
  peripheral are parameters: \<open>sha\<close> maps a message to its digest, \<open>aes\<close> maps key, initial counter
  block and data to the processed data. Streaming a message into a hash context part by part and
  finalising it is the digest of the concatenation of the parts, as both hash libraries document.
\<close>

section \<open>Constants\<close>

definition USE_HARDWARE_SHA :: bool where [const_defs]: "USE_HARDWARE_SHA = True"
definition SHA256_OUTPUT_SIZE :: nat where [const_defs]: "SHA256_OUTPUT_SIZE = 32"
definition AES_KEY_SIZE :: nat where [const_defs]: "AES_KEY_SIZE = 32"
definition HMAC_KEY_SIZE :: nat where [const_defs]: "HMAC_KEY_SIZE = 32"
definition HMAC_BLOCK_SIZE :: nat where [const_defs]: "HMAC_BLOCK_SIZE = 64"
definition IPAD :: u8 where [const_defs]: "IPAD = 0x36"
definition OPAD :: u8 where [const_defs]: "OPAD = 0x5C"
definition CHUNK_HMAC_CONTEXT :: "u8 list" where
  "CHUNK_HMAC_CONTEXT = string_bytes ''MOTONET-OTA-CHUNK-v2''"
definition AES_KEY_INFO :: "u8 list" where
  "AES_KEY_INFO = string_bytes ''motonet-ota aes-256-ctr key v1''"
definition HMAC_KEY_INFO :: "u8 list" where
  "HMAC_KEY_INFO = string_bytes ''motonet-ota hmac-sha256 key v1''"
definition OTA_HEADER_MAGIC :: "u8 list" where [const_defs]:
  "OTA_HEADER_MAGIC = [0x4D, 0x4F, 0x54, 0x4F, 0x54, 0x41, 0x32, 0]"
definition OTA_V2_HEADER_VERSION :: u8 where [const_defs]: "OTA_V2_HEADER_VERSION = 2"
definition OTA_V2_HEADER_SIZE :: nat where [const_defs]: "OTA_V2_HEADER_SIZE = 16"
definition HMAC_TAG_SIZE :: nat where [const_defs]: "HMAC_TAG_SIZE = SHA256_OUTPUT_SIZE"
definition CHUNK_WIRE_OVERHEAD :: nat where [const_defs]: "CHUNK_WIRE_OVERHEAD = 4 + HMAC_TAG_SIZE"

type_synonym digest_fun = "u8 list \<Rightarrow> u8 list"
type_synonym aes_fun = "u8 list \<Rightarrow> u8 list \<Rightarrow> u8 list \<Rightarrow> u8 list"

section \<open>Hashes, key derivation and tags\<close>

definition hw_sha256_prefixed_parts :: "digest_fun \<Rightarrow> u8 list \<Rightarrow> u8 list list \<Rightarrow> u8 list" where
  "hw_sha256_prefixed_parts sha prefix parts =
     (let ctx = (if prefix \<noteq> [] then prefix else []) in sha (foldl (@) ctx parts))"

definition hw_sha256_parts :: "digest_fun \<Rightarrow> u8 list list \<Rightarrow> u8 list" where
  "hw_sha256_parts sha parts = hw_sha256_prefixed_parts sha [] parts"

definition sw_sha256_parts :: "digest_fun \<Rightarrow> u8 list list \<Rightarrow> u8 list" where
  "sw_sha256_parts sha parts = sha (foldl (@) [] parts)"

definition hmac_pad :: "u8 \<Rightarrow> u8 list \<Rightarrow> u8 list" where
  "hmac_pad pad key =
     fold (\<lambda>i k. k[i := k ! i XOR key ! i]) [0..<HMAC_KEY_SIZE] (replicate HMAC_BLOCK_SIZE pad)"

definition hmac_sha256_raw :: "digest_fun \<Rightarrow> u8 list \<Rightarrow> u8 list list \<Rightarrow> u8 list" where
  "hmac_sha256_raw sha key parts =
     (let k_inner = hmac_pad IPAD key; k_outer = hmac_pad OPAD key;
          inner = (if USE_HARDWARE_SHA then hw_sha256_prefixed_parts sha k_inner parts
                   else sw_sha256_parts sha (k_inner # parts))
      in if USE_HARDWARE_SHA then hw_sha256_parts sha [k_outer, inner]
         else sw_sha256_parts sha [k_outer, inner])"

definition hkdf_expand :: "digest_fun \<Rightarrow> u8 list \<Rightarrow> u8 list \<Rightarrow> u32 \<Rightarrow> u8 list" where
  "hkdf_expand sha prk info key_id = hmac_sha256_raw sha prk [info, u32_to_be_bytes key_id]"

definition derive_subkeys :: "digest_fun \<Rightarrow> u8 list \<Rightarrow> u32 \<Rightarrow> u8 list \<times> u8 list" where
  "derive_subkeys sha master key_id =
     (let aes_key = hkdf_expand sha master AES_KEY_INFO key_id;
          hmac_key = hkdf_expand sha master HMAC_KEY_INFO key_id
      in (aes_key, hmac_key))"

definition compute_manifest_digest :: "digest_fun \<Rightarrow> string \<Rightarrow> u8 list" where
  "compute_manifest_digest sha canonical_json =
     (if USE_HARDWARE_SHA then hw_sha256_parts sha [string_bytes canonical_json]
      else sw_sha256_parts sha [string_bytes canonical_json])"

definition sha256_digest :: "digest_fun \<Rightarrow> u8 list \<Rightarrow> u8 list" where
  "sha256_digest sha data = sw_sha256_parts sha [data]"

definition compute_chunk_hmac ::
  "digest_fun \<Rightarrow> u8 list \<Rightarrow> u8 list \<Rightarrow> u32 \<Rightarrow> u32 \<Rightarrow> u32 \<Rightarrow> u8 list \<Rightarrow> u8 list" where
  "compute_chunk_hmac sha hmac_key manifest_digest chunk_index plaintext_offset plaintext_len ciphertext =
     hmac_sha256_raw sha hmac_key
       [CHUNK_HMAC_CONTEXT, manifest_digest, u32_to_be_bytes chunk_index,
        u32_to_be_bytes plaintext_offset, u32_to_be_bytes plaintext_len, ciphertext]"

definition constant_time_eq :: "u8 list \<Rightarrow> u8 list \<Rightarrow> bool" where
  "constant_time_eq a b =
     (if length a \<noteq> length b then False
      else fold (\<lambda>(x, y) diff. diff OR (x XOR y)) (zip a b) 0 = (0 :: u8))"

definition verify_chunk_hmac ::
  "digest_fun \<Rightarrow> u8 list \<Rightarrow> u8 list \<Rightarrow> u32 \<Rightarrow> u32 \<Rightarrow> u32 \<Rightarrow> u8 list \<Rightarrow> u8 list \<Rightarrow> bool" where
  "verify_chunk_hmac sha hmac_key manifest_digest chunk_index plaintext_offset plaintext_len ciphertext tag =
     constant_time_eq
       (compute_chunk_hmac sha hmac_key manifest_digest chunk_index plaintext_offset plaintext_len ciphertext)
       tag"

section \<open>AES-256-CTR\<close>

datatype AesError = OperationFailed

definition aes_ctr_crypt_in_place ::
  "aes_fun \<Rightarrow> u8 list \<Rightarrow> u8 list \<Rightarrow> u32 \<Rightarrow> u8 list \<Rightarrow> AesError + u8 list" where
  "aes_ctr_crypt_in_place aes key nonce_prefix chunk_index data =
     (if data = [] then Inr data
      else let nonce = nonce_prefix @ u32_to_be_bytes chunk_index in Inr (aes key nonce data))"

section \<open>Nonce prefix and stream header\<close>

datatype NoncePrefixError = InvalidLength | InvalidHex

definition hex_nibble :: "char \<Rightarrow> NoncePrefixError + u8" where
  "hex_nibble c =
     (let b = char_code c
      in if 48 \<le> b \<and> b \<le> 57 then Inr (of_nat (b - 48))
         else if 97 \<le> b \<and> b \<le> 102 then Inr (of_nat (b - 97 + 10))
         else if 65 \<le> b \<and> b \<le> 70 then Inr (of_nat (b - 65 + 10))
         else Inl InvalidHex)"

text \<open>The loop over \<open>chunks(2)\<close>; a last chunk of one byte is its length error.\<close>

fun nonce_chunks :: "string \<Rightarrow> NoncePrefixError + u8 list" where
  "nonce_chunks [] = Inr []"
| "nonce_chunks [_] = Inl InvalidLength"
| "nonce_chunks (a # b # cs) =
     result_bind (hex_nibble a) (\<lambda>hi. result_bind (hex_nibble b) (\<lambda>lo.
     result_bind (nonce_chunks cs) (\<lambda>bytes. Inr ((push_bit 4 hi OR lo) # bytes))))"

definition parse_nonce_prefix :: "string \<Rightarrow> NoncePrefixError + u8 list" where
  "parse_nonce_prefix hex = (if length hex \<noteq> 24 then Inl InvalidLength else nonce_chunks hex)"

datatype OtaHeaderError = HeaderErrorTooShort | InvalidMagic | InvalidVersion | ReservedNonZero

definition validate_ota_header :: "u8 list \<Rightarrow> OtaHeaderError + unit" where
  "validate_ota_header header =
     (if length header < OTA_V2_HEADER_SIZE then Inl HeaderErrorTooShort
      else if take 8 header \<noteq> OTA_HEADER_MAGIC then Inl InvalidMagic
      else if header ! 8 \<noteq> OTA_V2_HEADER_VERSION then Inl InvalidVersion
      else if list_ex (\<lambda>b. b \<noteq> 0) (take 7 (drop 9 header)) then Inl ReservedNonZero
      else Inr ())"

section \<open>Lemmas\<close>

lemma u32_to_be_bytes_inj [simp]: "u32_to_be_bytes a = u32_to_be_bytes b \<longleftrightarrow> a = b"
proof
  assume "u32_to_be_bytes a = u32_to_be_bytes b"
  then have "u32_to_le_bytes a = u32_to_le_bytes b"
    by (simp add: u32_to_be_bytes_def split: prod.splits)
  then show "a = b" by (metis u32_bytes_le_roundtrip)
qed simp

lemma length_u32_to_be_bytes [simp]: "length (u32_to_be_bytes w) = 4"
  by (simp add: u32_to_be_bytes_def u32_to_le_bytes_def)

lemma foldl_append: "foldl (@) ys xss = ys @ concat xss"
  by (induction xss arbitrary: ys) simp_all

lemma sha256_parts_eq:
  "hw_sha256_prefixed_parts sha prefix parts = sha (prefix @ concat parts)"
  "hw_sha256_parts sha parts = sha (concat parts)"
  "sw_sha256_parts sha parts = sha (concat parts)"
  by (simp_all add: hw_sha256_parts_def hw_sha256_prefixed_parts_def sw_sha256_parts_def foldl_append Let_def)

lemma hmac_sha256_raw_eq:
  "hmac_sha256_raw sha key parts =
     sha (hmac_pad OPAD key @ sha (hmac_pad IPAD key @ concat parts))"
  by (simp add: hmac_sha256_raw_def sha256_parts_eq Let_def)

lemma fold_or_zero_iff:
  "fold (\<lambda>(x, y) diff. diff OR (x XOR y)) ps d = (0 :: u8) \<longleftrightarrow> d = 0 \<and> (\<forall>(x, y) \<in> set ps. x = y)"
proof (induction ps arbitrary: d)
  case (Cons p ps)
  have "d OR (fst p XOR snd p) = 0 \<longleftrightarrow> d = 0 \<and> fst p = snd p"
    by (metis or.right_neutral or_eq_0_iff xor_self_eq bit.xor_left_self xor.right_neutral)
  then show ?case using Cons.IH by (cases p) auto
qed simp

lemma constant_time_eq_iff: "constant_time_eq a b \<longleftrightarrow> a = b"
proof (cases "length a = length b")
  case True
  then have "(\<forall>(x, y) \<in> set (zip a b). x = y) \<longleftrightarrow> a = b"
    by (induction a b rule: list_induct2) auto
  with True show ?thesis by (simp add: constant_time_eq_def fold_or_zero_iff)
qed (auto simp: constant_time_eq_def)


section \<open>What a tag binds\<close>

definition chunk_message :: "u8 list \<Rightarrow> u32 \<Rightarrow> u32 \<Rightarrow> u32 \<Rightarrow> u8 list \<Rightarrow> u8 list" where
  "chunk_message manifest_digest chunk_index plaintext_offset plaintext_len ciphertext =
     CHUNK_HMAC_CONTEXT @ manifest_digest @ u32_to_be_bytes chunk_index @
     u32_to_be_bytes plaintext_offset @ u32_to_be_bytes plaintext_len @ ciphertext"

lemma compute_chunk_hmac_eq:
  "compute_chunk_hmac sha key d i off len ct =
     sha (hmac_pad OPAD key @ sha (hmac_pad IPAD key @ chunk_message d i off len ct))"
  by (simp add: compute_chunk_hmac_def hmac_sha256_raw_eq chunk_message_def)

lemma chunk_message_inj:
  assumes "length d = length d'" "chunk_message d i off len ct = chunk_message d' i' off' len' ct'"
  shows "d = d' \<and> i = i' \<and> off = off' \<and> len = len' \<and> ct = ct'"
  using assms by (simp add: chunk_message_def append_eq_append_conv)

text \<open>A collision of the hash function among the two message pairs an HMAC computation hashes.\<close>

definition hmac_collision :: "digest_fun \<Rightarrow> u8 list \<Rightarrow> u8 list \<Rightarrow> u8 list \<Rightarrow> bool" where
  "hmac_collision sha key m m' =
     (let x = hmac_pad IPAD key @ m; x' = hmac_pad IPAD key @ m';
          y = hmac_pad OPAD key @ sha x; y' = hmac_pad OPAD key @ sha x'
      in x \<noteq> x' \<and> sha x = sha x' \<or> y \<noteq> y' \<and> sha y = sha y')"

text \<open>
  C11: A chunk tag binds everything the stream needs about a chunk. If one tag verifies for two
  chunks under the same key, then either the manifest digests, chunk indices, flash offsets,
  lengths and ciphertexts all agree, or the two HMAC computations themselves exhibit a collision of
  the hash function. So a chunk cannot be moved, cut, reordered or taken from another image.
\<close>
theorem chunk_tag_binds_chunk:
  assumes "length d = 32" "length d' = 32"
    and "verify_chunk_hmac sha key d i off len ct tag"
    and "verify_chunk_hmac sha key d' i' off' len' ct' tag"
  shows "(d, i, off, len, ct) = (d', i', off', len', ct') \<or>
    hmac_collision sha key (chunk_message d i off len ct) (chunk_message d' i' off' len' ct')"
proof (cases "chunk_message d i off len ct = chunk_message d' i' off' len' ct'")
  case True
  then show ?thesis using chunk_message_inj [OF _ True] assms(1,2) by simp
next
  case False
  have "compute_chunk_hmac sha key d i off len ct = compute_chunk_hmac sha key d' i' off' len' ct'"
    using assms(3,4) by (simp add: verify_chunk_hmac_def constant_time_eq_iff)
  with False show ?thesis by (auto simp: compute_chunk_hmac_eq hmac_collision_def Let_def)
qed

theorem chunk_tag_binds_chunk_witness:
  "(replicate 32 1, 0, 0, 1, [7]) = (replicate 32 (1 :: u8), 0 :: u32, 0 :: u32, 1 :: u32, [7 :: u8]) \<or>
   hmac_collision id (replicate 32 2) (chunk_message (replicate 32 1) 0 0 1 [7]) (chunk_message (replicate 32 1) 0 0 1 [7])"
proof -
  have v: "verify_chunk_hmac sha k d i off len ct (compute_chunk_hmac sha k d i off len ct)"
    for sha k d i off len ct
    by (simp add: verify_chunk_hmac_def constant_time_eq_iff)
  show ?thesis by (rule chunk_tag_binds_chunk [OF _ _ v v]) (rule length_replicate)+
qed

section \<open>The key stream of consecutive chunks\<close>

text \<open>
  Counter mode as the peripheral driver documents it, and as the source's comment relies on it:
  block \<open>j\<close> of one operation is combined with the cipher \<open>E\<close> of the initial counter block advanced
  by \<open>j\<close>, the counter being the big-endian number in the block.
\<close>

definition counter_block :: "u8 list \<Rightarrow> nat \<Rightarrow> u8 list" where
  "counter_block nonce j =
     map (\<lambda>i. of_nat ((be_value nonce + j) div 256 ^ (15 - i))) [0..<16]"

definition ctr_apply :: "(u8 list \<Rightarrow> u8 list \<Rightarrow> u8 list) \<Rightarrow> aes_fun" where
  "ctr_apply E key nonce data =
     map (\<lambda>t. data ! t XOR E key (counter_block nonce (t div 16)) ! (t mod 16)) [0..<length data]"

definition ctr_mode :: "(u8 list \<Rightarrow> u8 list \<Rightarrow> u8 list) \<Rightarrow> aes_fun \<Rightarrow> bool" where
  "ctr_mode E aes \<longleftrightarrow> (\<forall>key nonce data. length nonce = 16 \<longrightarrow> aes key nonce data = ctr_apply E key nonce data)"

lemma counter_of_next_chunk:
  assumes "i \<noteq> -1"
  shows "counter_block (nonce_prefix @ u32_to_be_bytes i) (Suc j) =
    counter_block (nonce_prefix @ u32_to_be_bytes (i + 1)) j"
proof -
  have "unat (i + 1) = Suc (unat i)" using assms
    by (metis add.commute add_eq_0_iff unatSuc)
  then show ?thesis by (simp add: counter_block_def be_value_append)
qed

text \<open>
  C16: The key streams of consecutive chunks overlap. Chunk \<open>i\<close> starts its counter at
  \<open>nonce_prefix || i\<close> and advances it once per 16 bytes, so its second block uses the counter
  block with which chunk \<open>i + 1\<close> starts. Wherever both chunks are long enough, the exclusive or of
  the two ciphertexts, one shifted by 16 bytes, is the exclusive or of the plaintexts: a reader of
  the encrypted image learns it without the key.
\<close>
theorem consecutive_chunks_share_keystream:
  assumes "ctr_mode E aes" "length nonce_prefix = 12" "i \<noteq> -1"
    and "aes_ctr_crypt_in_place aes key nonce_prefix i p = Inr c"
    and "aes_ctr_crypt_in_place aes key nonce_prefix (i + 1) q = Inr d"
    and "16 + t < length p" "t < length q"
  shows "c ! (16 + t) XOR d ! t = p ! (16 + t) XOR q ! t"
proof -
  have c: "c = ctr_apply E key (nonce_prefix @ u32_to_be_bytes i) p"
    using assms by (auto simp: aes_ctr_crypt_in_place_def ctr_mode_def Let_def split: if_splits)
  have d: "d = ctr_apply E key (nonce_prefix @ u32_to_be_bytes (i + 1)) q"
    using assms by (auto simp: aes_ctr_crypt_in_place_def ctr_mode_def Let_def split: if_splits)
  have "c ! (16 + t) = p ! (16 + t) XOR E key (counter_block (nonce_prefix @ u32_to_be_bytes i) (Suc (t div 16))) ! (t mod 16)"
    using assms(6) by (simp add: c ctr_apply_def div_add_self1 [of 16 t, simplified])
  moreover have "d ! t = q ! t XOR E key (counter_block (nonce_prefix @ u32_to_be_bytes (i + 1)) (t div 16)) ! (t mod 16)"
    using assms(7) by (simp add: d ctr_apply_def)
  ultimately show ?thesis
    by (simp add: counter_of_next_chunk [OF assms(3)] ac_simps)
qed

theorem consecutive_chunks_share_keystream_witness:
  "ctr_apply (\<lambda>k b. b) [] (replicate 12 0 @ u32_to_be_bytes 0) (replicate 32 5) ! (16 + 3) XOR
   ctr_apply (\<lambda>k b. b) [] (replicate 12 0 @ u32_to_be_bytes (0 + 1)) (replicate 32 9) ! 3 =
   replicate 32 5 ! (16 + 3) XOR replicate 32 9 ! 3"
proof -
  have mode: "ctr_mode (\<lambda>k b. b) (ctr_apply (\<lambda>k b. b))" by (simp add: ctr_mode_def)
  have run: "aes_ctr_crypt_in_place (ctr_apply (\<lambda>k b. b)) [] (replicate 12 0) i (replicate 32 x) =
      Inr (ctr_apply (\<lambda>k b. b) [] (replicate 12 0 @ u32_to_be_bytes i) (replicate 32 x))" for i x
    by (simp add: aes_ctr_crypt_in_place_def)
  show ?thesis
    by (rule consecutive_chunks_share_keystream [OF mode _ _ run run]) simp_all
qed

end
