(* ===== verification/Ota_Boot.thy ===== *)
theory Ota_Boot
  imports Ota_Core
begin

text \<open>
  Boot metadata and flash regions: \<open>firmware/src/ota/boot_metadata.rs\<close> over the bootloader support
  library, whose operations are a record of parameters. The state \<open>'f\<close> is the flash with its
  partition table and boot data; a region is named by its slot \<open>'p\<close>. Operations that can change the
  flash return it also when they fail.
\<close>

typedecl PartitionError
typedecl FlashStorageError

instantiation PartitionError :: equal
begin

definition equal_PartitionError :: "PartitionError \<Rightarrow> PartitionError \<Rightarrow> bool" where
  "equal_PartitionError a b \<longleftrightarrow> a = b"

instance
  by intro_classes (simp add: equal_PartitionError_def)

end

instantiation FlashStorageError :: equal
begin

definition equal_FlashStorageError :: "FlashStorageError \<Rightarrow> FlashStorageError \<Rightarrow> bool" where
  "equal_FlashStorageError a b \<longleftrightarrow> a = b"

instance
  by intro_classes (simp add: equal_FlashStorageError_def)

end

datatype OtaImageState = New | PendingVerify | Valid | Invalid | Aborted | UndefinedState

record ('f, 'p) updater =
  updater_new :: "'f \<Rightarrow> PartitionError + unit"
  current_ota_state :: "'f \<Rightarrow> PartitionError + OtaImageState"
  updater_selected_partition :: "'f \<Rightarrow> PartitionError + 'p"
  updater_next_partition :: "'f \<Rightarrow> PartitionError + 'p"
  updater_activate_next_partition :: "'f \<Rightarrow> (PartitionError + unit) \<times> 'f"
  set_current_ota_state :: "OtaImageState \<Rightarrow> 'f \<Rightarrow> (PartitionError + unit) \<times> 'f"

definition current_state :: "('f, 'p) updater \<Rightarrow> 'f \<Rightarrow> PartitionError + OtaImageState" where
  "current_state u f = current_ota_state u f"

definition selected_partition :: "('f, 'p) updater \<Rightarrow> 'f \<Rightarrow> PartitionError + 'p" where
  "selected_partition u f = updater_selected_partition u f"

definition log_current_slot_and_state ::
  "('f, 'p) updater \<Rightarrow> 'f \<Rightarrow> PartitionError + ('p \<times> OtaImageState)" where
  "log_current_slot_and_state u f =
     result_bind (selected_partition u f) (\<lambda>slot.
     result_bind (current_state u f) (\<lambda>st. Inr (slot, st)))"

definition log_current_state :: "('f, 'p) updater \<Rightarrow> 'f \<Rightarrow> PartitionError + OtaImageState" where
  "log_current_state u f = result_bind (log_current_slot_and_state u f) (\<lambda>(_, st). Inr st)"

definition current_app_pending_confirmation :: "('f, 'p) updater \<Rightarrow> 'f \<Rightarrow> PartitionError + bool" where
  "current_app_pending_confirmation u f =
     result_bind (current_state u f) (\<lambda>st. Inr (st = New \<or> st = PendingVerify))"

definition inactive_partition :: "('f, 'p) updater \<Rightarrow> 'f \<Rightarrow> PartitionError + 'p" where
  "inactive_partition u f = updater_next_partition u f"

definition activate_next_partition :: "('f, 'p) updater \<Rightarrow> 'f \<Rightarrow> (PartitionError + unit) \<times> 'f" where
  "activate_next_partition u f = updater_activate_next_partition u f"

definition mark_current_app_new :: "('f, 'p) updater \<Rightarrow> 'f \<Rightarrow> (PartitionError + unit) \<times> 'f" where
  "mark_current_app_new u f = set_current_ota_state u New f"

definition mark_current_app_valid :: "('f, 'p) updater \<Rightarrow> 'f \<Rightarrow> (PartitionError + unit) \<times> 'f" where
  "mark_current_app_valid u f = set_current_ota_state u Valid f"

end
