(* ===== verification/Ota_Flash.thy ===== *)
theory Ota_Flash
  imports Ota_Encrypted Ota_Boot
begin

text \<open>
  Download of an encrypted image and its writing to the inactive slot,
  \<open>firmware/src/ota/flash_write.rs\<close>: error type and conversions, the redirect loop, the checks on a
  response, the chunk loop, the checks after it and the activation of the slot. Parameters are the
  network (what each HTTP request returns), the flash library and the crypto of \<open>Ota_Encrypted\<close>.
  A response body is the list of what the successive \<open>fill_buf\<close> calls deliver.
\<close>

section \<open>Errors\<close>

datatype OtaFlashWriteError =
    Partition PartitionError | Flash FlashStorageError | HttpConnect | HttpStatus u16
  | RedirectWithoutLocation | RedirectLocationTooLong | RedirectRejected | TooManyRedirects
  | MissingContentLength | ContentLengthMismatch | ChunkedRejected | ReadFailed | SizeMismatch
  | ShaMismatch | InvalidImagePrefix EspImagePrefixError | FlashVerifyFailed
  | ImageTooLargeForSlot u32 u32 | InvalidNoncePrefix | HmacMismatch | AesFailed AesError
  | HeaderTooShort | HeaderInvalidMagic | HeaderInvalidVersion | HeaderInvalidReserved
  | ChunkTruncated | OutOfMemory | ManifestCanonical ManifestError

type_synonym region_error = "PartitionError + FlashStorageError"

fun from_region_error :: "region_error \<Rightarrow> OtaFlashWriteError" where
  "from_region_error (Inl e) = Partition e"
| "from_region_error (Inr e) = Flash e"

fun from_header_error :: "OtaHeaderError \<Rightarrow> OtaFlashWriteError" where
  "from_header_error HeaderErrorTooShort = HeaderTooShort"
| "from_header_error InvalidMagic = HeaderInvalidMagic"
| "from_header_error InvalidVersion = HeaderInvalidVersion"
| "from_header_error ReservedNonZero = HeaderInvalidReserved"

datatype NetworkErrorKind = NetOutOfMemory | NetConnectionAborted | NetOther
datatype HttpError =
    DnsError | NetworkError NetworkErrorKind | CodecError | InvalidUrlError | TlsError
  | BufferTooSmall | AlreadySent | IncorrectBodyWritten | ConnectionAborted

fun from_http_error :: "HttpError \<Rightarrow> OtaFlashWriteError" where
  "from_http_error TlsError = HttpConnect"
| "from_http_error (NetworkError NetOutOfMemory) = OutOfMemory"
| "from_http_error (NetworkError kind) = HttpConnect"
| "from_http_error BufferTooSmall = HttpConnect"
| "from_http_error ConnectionAborted = ReadFailed"
| "from_http_error other = HttpConnect"

section \<open>Constants and small helpers\<close>

definition FLASH_SECTOR_SIZE :: u32 where [const_defs]: "FLASH_SECTOR_SIZE = 4096"
definition TLS_WORKSPACE_WAIT_ATTEMPTS :: nat where [const_defs]: "TLS_WORKSPACE_WAIT_ATTEMPTS = 250"
definition ESP_IMAGE_PREFIX_LEN :: nat where [const_defs]: "ESP_IMAGE_PREFIX_LEN = 64"
definition FLASH_READBACK_LEN :: nat where [const_defs]: "FLASH_READBACK_LEN = 4096"

definition ipv4_octet :: "string \<Rightarrow> u8 option" where
  "ipv4_octet part =
     (if part = [] \<or> 3 < length part \<or> \<not> list_all is_ascii_digit part then None
      else if decimal_value part \<le> 255 then Some (of_nat (decimal_value part)) else None)"

fun ipv4_octets_of :: "string list \<Rightarrow> u8 list option" where
  "ipv4_octets_of [] = Some []"
| "ipv4_octets_of (part # parts) =
     (case ipv4_octet part of None \<Rightarrow> None
      | Some v \<Rightarrow> (case ipv4_octets_of parts of None \<Rightarrow> None | Some vs \<Rightarrow> Some (v # vs)))"

definition parse_ipv4_literal :: "string \<Rightarrow> u8 list option" where
  "parse_ipv4_literal host =
     (if host = [] \<or> length (split_on CHR ''.'' host) \<noteq> 4 then None
      else ipv4_octets_of (split_on CHR ''.'' host))"

text \<open>Name resolution tries an address literal before it asks the resolver, a parameter.\<close>

definition get_host_by_name :: "(string \<Rightarrow> u8 list option) \<Rightarrow> string \<Rightarrow> u8 list option" where
  "get_host_by_name resolver host =
     (case parse_ipv4_literal host of Some addr \<Rightarrow> Some addr | None \<Rightarrow> resolver host)"

definition HEX :: string where "HEX = ''0123456789abcdef''"

definition sha256_hex :: "u8 list \<Rightarrow> string" where
  "sha256_hex digest =
     concat (map (\<lambda>byte. [HEX ! unat (drop_bit 4 byte), HEX ! unat (byte AND 0xF)]) digest)"

definition to_ascii_lowercase :: "char \<Rightarrow> char" where
  "to_ascii_lowercase c =
     (if 65 \<le> char_code c \<and> char_code c \<le> 90 then char_of (char_code c + 32) else c)"

definition eq_ignore_ascii_case :: "string \<Rightarrow> string \<Rightarrow> bool" where
  "eq_ignore_ascii_case a b \<longleftrightarrow> map to_ascii_lowercase a = map to_ascii_lowercase b"

section \<open>Flash and crypto parameters\<close>

record ('f, 'p) platform =
  sha256 :: digest_fun
  aes_ctr :: aes_fun
  boot :: "('f, 'p) updater"
  partition_size :: "'p \<Rightarrow> 'f \<Rightarrow> nat"
  region_erase :: "'p \<Rightarrow> u32 \<Rightarrow> u32 \<Rightarrow> 'f \<Rightarrow> (region_error + unit) \<times> 'f"
  region_write :: "'p \<Rightarrow> u32 \<Rightarrow> u8 list \<Rightarrow> 'f \<Rightarrow> (region_error + unit) \<times> 'f"
  region_read :: "'p \<Rightarrow> u32 \<Rightarrow> nat \<Rightarrow> 'f \<Rightarrow> region_error + u8 list"

definition div_ceil_u32 :: "u32 \<Rightarrow> u32 \<Rightarrow> u32" where
  "div_ceil_u32 a b = (let d = a div b; r = a mod b in if 0 < r then d + 1 else d)"

definition saturating_sub_u32 :: "u32 \<Rightarrow> u32 \<Rightarrow> u32" where
  "saturating_sub_u32 a b = (if b \<le> a then a - b else 0)"

definition prepare_inactive_slot ::
  "('f, 'p) platform \<Rightarrow> 'p \<Rightarrow> u32 \<Rightarrow> 'f \<Rightarrow> (OtaFlashWriteError + unit) \<times> 'f" where
  "prepare_inactive_slot pf region image_bytes f =
     (let slot_size = of_nat (partition_size pf region f) :: u32;
          max_writable = saturating_sub_u32 slot_size FLASH_SECTOR_SIZE
      in if max_writable < image_bytes then (Inl (ImageTooLargeForSlot image_bytes slot_size), f)
         else let aligned = div_ceil_u32 image_bytes FLASH_SECTOR_SIZE * FLASH_SECTOR_SIZE
              in case region_erase pf region 0 aligned f of
                   (r, f) \<Rightarrow> (result_map_err from_region_error r, f))"

text \<open>The workspace guard is polled at most 250 times; \<open>free i\<close> is whether poll \<open>i\<close> finds it free.\<close>

fun acquire_loop :: "(nat \<Rightarrow> bool) \<Rightarrow> nat \<Rightarrow> nat \<Rightarrow> OtaFlashWriteError + unit" where
  "acquire_loop free i 0 = Inl OutOfMemory"
| "acquire_loop free i (Suc n) = (if free i then Inr () else acquire_loop free (Suc i) n)"

definition acquire_ota_tls_workspace :: "(nat \<Rightarrow> bool) \<Rightarrow> OtaFlashWriteError + unit" where
  "acquire_ota_tls_workspace free = acquire_loop free 0 TLS_WORKSPACE_WAIT_ATTEMPTS"

record tls_secrets =
  OTA_TLS_ALLOW_INVALID_CA :: bool
  OTA_TLS_CA_CERT_DER :: "u8 list"
  OTA_ASSET_TLS_CA_CERT_DER :: "u8 list"

datatype TlsVerify = VerifyNone | VerifyCertificate "u8 list"

definition ota_tls_verify_for_url :: "tls_secrets \<Rightarrow> string \<Rightarrow> TlsVerify" where
  "ota_tls_verify_for_url secrets url =
     (if OTA_TLS_ALLOW_INVALID_CA secrets then VerifyNone
      else let ca = (if strip_prefix ''https://github.com/'' url \<noteq> None
                     then OTA_TLS_CA_CERT_DER secrets else OTA_ASSET_TLS_CA_CERT_DER secrets)
           in VerifyCertificate ca)"

section \<open>HTTP responses\<close>

datatype fill = Timeout | FillError | Avail "u8 list"

datatype TransferEncoding = Chunked | Compress | Deflate | Gzip

text \<open>What the client reads of a response; header values are the raw bytes.\<close>

record response =
  status :: nat
  resp_headers :: "(string \<times> string) list"
  content_length :: "nat option"
  transfer_encoding :: "TransferEncoding list"
  body :: "fill list"

definition is_redirection :: "response \<Rightarrow> bool" where
  "is_redirection r \<longleftrightarrow> 300 \<le> status r \<and> status r < 400"

text \<open>Validity of UTF-8, as \<open>core::str::from_utf8\<close> checks it.\<close>

definition cont_byte :: "char \<Rightarrow> bool" where
  "cont_byte c \<longleftrightarrow> 128 \<le> char_code c \<and> char_code c \<le> 191"

fun utf8_tail :: "string \<Rightarrow> (nat \<times> string) option" where
  "utf8_tail [] = None"
| "utf8_tail (c # cs) =
     (let b = char_code c
      in if b < 128 then Some (0, cs)
         else if 194 \<le> b \<and> b \<le> 223 then Some (1, cs)
         else if 224 \<le> b \<and> b \<le> 239 then
           (case cs of [] \<Rightarrow> None
            | d # ds \<Rightarrow> if cont_byte d \<and> (b = 224 \<longrightarrow> 160 \<le> char_code d) \<and> (b = 237 \<longrightarrow> char_code d \<le> 159)
                        then Some (1, ds) else None)
         else if 240 \<le> b \<and> b \<le> 244 then
           (case cs of [] \<Rightarrow> None
            | d # ds \<Rightarrow> if cont_byte d \<and> (b = 240 \<longrightarrow> 144 \<le> char_code d) \<and> (b = 244 \<longrightarrow> char_code d \<le> 143)
                        then Some (2, ds) else None)
         else None)"

lemma utf8_tail_shorter: "utf8_tail cs = Some (n, rest) \<Longrightarrow> length rest < length cs"
  by (cases cs) (auto simp: Let_def split: if_splits list.splits)

function from_utf8_ok :: "string \<Rightarrow> bool" where
  "from_utf8_ok cs =
     (if cs = [] then True
      else case utf8_tail cs of None \<Rightarrow> False
      | Some (n, rest) \<Rightarrow> n \<le> length rest \<and> list_all cont_byte (take n rest) \<and> from_utf8_ok (drop n rest))"
  by pat_completeness auto
termination by (relation "measure length") (auto dest!: utf8_tail_shorter)

declare from_utf8_ok.simps [simp del]

definition is_ascii_whitespace :: "char \<Rightarrow> bool" where
  "is_ascii_whitespace c \<longleftrightarrow> char_code c \<in> {9, 10, 12, 13, 32}"

definition trim_whitespace :: "string \<Rightarrow> string" where
  "trim_whitespace s = rev (dropWhile is_ascii_whitespace (rev (dropWhile is_ascii_whitespace s)))"

fun redirect_headers :: "(string \<times> string) list \<Rightarrow> OtaFlashWriteError + string" where
  "redirect_headers [] = Inl RedirectWithoutLocation"
| "redirect_headers ((name, value) # hs) =
     (if eq_ignore_ascii_case name ''location'' then
        if \<not> from_utf8_ok value then Inl RedirectRejected
        else let location = trim_whitespace value
             in if MAX_REDIRECT_URL_LEN < length location then Inl RedirectLocationTooLong else Inr location
      else redirect_headers hs)"

definition redirect_location :: "response \<Rightarrow> OtaFlashWriteError + string" where
  "redirect_location r = redirect_headers (resp_headers r)"

definition validate_response_metadata :: "response \<Rightarrow> nat \<Rightarrow> OtaFlashWriteError + unit" where
  "validate_response_metadata r expected_size =
     (if status r \<noteq> 200 then Inl (HttpStatus (of_nat (status r)))
      else case content_length r of
        None \<Rightarrow> Inl MissingContentLength
      | Some n \<Rightarrow>
          if n \<noteq> expected_size then Inl ContentLengthMismatch
          else if Chunked \<in> set (transfer_encoding r) then Inl ChunkedRejected
          else Inr ())"

section \<open>Reading the body\<close>

text \<open>
  \<open>read_exact\<close> with \<open>offset\<close> bytes still missing. \<open>consume\<close> leaves the rest of a delivery for the
  next call; a timeout, a read error and an empty delivery are failures.
\<close>

fun read_exact :: "fill list \<Rightarrow> nat \<Rightarrow> (OtaFlashWriteError + u8 list) \<times> fill list" where
  "read_exact r 0 = (Inr [], r)"
| "read_exact [] (Suc n) = (Inl ReadFailed, [])"
| "read_exact (Timeout # r) (Suc n) = (Inl ReadFailed, r)"
| "read_exact (FillError # r) (Suc n) = (Inl ReadFailed, r)"
| "read_exact (Avail available # r) (Suc n) =
     (if available = [] then (Inl ReadFailed, r)
      else let copy = min (length available) (Suc n)
           in if copy < length available then (Inr (take copy available), Avail (drop copy available) # r)
              else st_bind (read_exact r (Suc n - copy)) (\<lambda>bs r. (Inr (take copy available @ bs), r)))"

section \<open>The encrypted body\<close>

record stream_keys =
  nonce_prefix :: "u8 list"
  hmac_key :: "u8 list"
  aes_key :: "u8 list"
  manifest_digest :: "u8 list"

record EncryptedResult =
  result_total_plaintext :: u32
  digest :: "u8 list"
  result_readback_len :: nat
  readback_digest :: "u8 list"

text \<open>The local variables of the chunk loop, with the reader and the flash it works on.\<close>

record 'f body_state =
  reader :: "fill list"
  flash :: 'f
  first_bytes :: "u8 list"
  first_filled :: nat
  prefix_validated :: bool
  total_plaintext :: u32
  flash_offset :: u32
  hashed :: "u8 list"
  readback_hashed :: "u8 list"
  readback_len :: nat

text \<open>The plausibility check of the image prefix, up to the point where eight bytes are known.\<close>

definition check_prefix :: "u8 list \<Rightarrow> 'f body_state \<Rightarrow> (OtaFlashWriteError + unit) \<times> 'f body_state" where
  "check_prefix plaintext b =
     (if prefix_validated b then (Inr (), b)
      else let copy = min (length plaintext) (ESP_IMAGE_PREFIX_LEN - first_filled b);
               b = b\<lparr>first_bytes := splice (first_bytes b) (first_filled b) (take copy plaintext),
                     first_filled := first_filled b + copy\<rparr>
           in if 8 \<le> first_filled b then
                case validate_esp_image_prefix (take (first_filled b) (first_bytes b)) of
                  Inl e \<Rightarrow> (Inl (InvalidImagePrefix e), b)
                | Inr _ \<Rightarrow> (Inr (), b\<lparr>prefix_validated := True\<rparr>)
              else (Inr (), b))"

text \<open>Writing a plaintext chunk and accounting for it.\<close>

definition store_plaintext ::
  "('f, 'p) platform \<Rightarrow> 'p \<Rightarrow> u32 \<Rightarrow> u8 list \<Rightarrow> 'f body_state \<Rightarrow>
   (OtaFlashWriteError + unit) \<times> 'f body_state" where
  "store_plaintext pf region ciphertext_len plaintext b =
     (case region_write pf region (flash_offset b) plaintext (flash b) of
        (Inl e, f) \<Rightarrow> (Inl (from_region_error e), b\<lparr>flash := f\<rparr>)
      | (Inr _, f) \<Rightarrow>
          let readback_remaining = FLASH_READBACK_LEN - readback_len b;
              copy = (if 0 < readback_remaining then min (length plaintext) readback_remaining else 0)
          in (Inr (), b\<lparr>flash := f, hashed := hashed b @ plaintext,
                readback_hashed := readback_hashed b @ take copy plaintext,
                readback_len := readback_len b + copy,
                flash_offset := flash_offset b + ciphertext_len,
                total_plaintext := total_plaintext b + ciphertext_len\<rparr>))"

fun be_word :: "u8 list \<Rightarrow> u32" where
  "be_word [b0, b1, b2, b3] = u32_from_be_bytes (b0, b1, b2, b3)"
| "be_word _ = 0"

definition expected_len :: "u32 \<Rightarrow> u32 \<Rightarrow> u32 \<Rightarrow> u32" where
  "expected_len image_size num_chunks chunk_index =
     (if chunk_index = num_chunks - 1 then image_size - chunk_index * ENC_CHUNK_SIZE else ENC_CHUNK_SIZE)"

text \<open>\<open>read_exact\<close> on the reader of the loop.\<close>

definition read_body ::
  "nat \<Rightarrow> 'f body_state \<Rightarrow> (OtaFlashWriteError + u8 list) \<times> 'f body_state" where
  "read_body n b = (case read_exact (reader b) n of (res, r) \<Rightarrow> (res, b\<lparr>reader := r\<rparr>))"

text \<open>
  One iteration: length, ciphertext and tag are read, the tag is checked, then the chunk is
  decrypted and stored.
\<close>

definition store_chunk ::
  "('f, 'p) platform \<Rightarrow> 'p \<Rightarrow> stream_keys \<Rightarrow> u32 \<Rightarrow> u32 \<Rightarrow> u8 list \<Rightarrow> u8 list \<Rightarrow> 'f body_state \<Rightarrow>
   (OtaFlashWriteError + unit) \<times> 'f body_state" where
  "store_chunk pf region ks chunk_index ciphertext_len ct tag_buf b =
     (if \<not> verify_chunk_hmac (sha256 pf) (hmac_key ks) (manifest_digest ks) chunk_index
           (flash_offset b) ciphertext_len ct tag_buf
      then (Inl HmacMismatch, b)
      else st_bind (result_map_err AesFailed
             (aes_ctr_crypt_in_place (aes_ctr pf) (aes_key ks) (nonce_prefix ks) chunk_index ct), b) (\<lambda>plaintext b.
      st_bind (check_prefix plaintext b) (\<lambda>_ b.
      store_plaintext pf region ciphertext_len plaintext b)))"

definition process_chunk ::
  "('f, 'p) platform \<Rightarrow> 'p \<Rightarrow> stream_keys \<Rightarrow> u32 \<Rightarrow> u32 \<Rightarrow> u32 \<Rightarrow> 'f body_state \<Rightarrow>
   (OtaFlashWriteError + unit) \<times> 'f body_state" where
  "process_chunk pf region ks image_size num_chunks chunk_index b =
     st_bind (read_body 4 b) (\<lambda>len_buf b.
     let ciphertext_len = be_word len_buf
     in if ciphertext_len \<noteq> expected_len image_size num_chunks chunk_index then (Inl ChunkTruncated, b)
        else st_bind (read_body (unat ciphertext_len) b) (\<lambda>ct b.
        st_bind (read_body HMAC_TAG_SIZE b) (\<lambda>tag_buf b.
        store_chunk pf region ks chunk_index ciphertext_len ct tag_buf b)))"

fun chunk_loop ::
  "('f, 'p) platform \<Rightarrow> 'p \<Rightarrow> stream_keys \<Rightarrow> u32 \<Rightarrow> u32 \<Rightarrow> u32 list \<Rightarrow> 'f body_state \<Rightarrow>
   (OtaFlashWriteError + unit) \<times> 'f body_state" where
  "chunk_loop pf region ks image_size num_chunks [] b = (Inr (), b)"
| "chunk_loop pf region ks image_size num_chunks (i # is) b =
     st_bind (process_chunk pf region ks image_size num_chunks i b)
       (\<lambda>_ b. chunk_loop pf region ks image_size num_chunks is b)"

definition initial_body :: "fill list \<Rightarrow> 'f \<Rightarrow> 'f body_state" where
  "initial_body r f =
     \<lparr>reader = r, flash = f, first_bytes = replicate ESP_IMAGE_PREFIX_LEN 0, first_filled = 0,
      prefix_validated = False, total_plaintext = 0, flash_offset = 0, hashed = [],
      readback_hashed = [], readback_len = 0\<rparr>"

definition chunk_indices :: "u32 \<Rightarrow> u32 list" where
  "chunk_indices num_chunks = map of_nat [0..<unat num_chunks]"

definition process_encrypted_body ::
  "('f, 'p) platform \<Rightarrow> 'p \<Rightarrow> stream_keys \<Rightarrow> u32 \<Rightarrow> fill list \<Rightarrow> 'f \<Rightarrow>
   (OtaFlashWriteError + EncryptedResult) \<times> 'f" where
  "process_encrypted_body pf region ks image_size r f =
     (case read_exact r OTA_V2_HEADER_SIZE of (Inl e, _) \<Rightarrow> (Inl e, f) | (Inr header, r) \<Rightarrow>
      (case validate_ota_header header of Inl e \<Rightarrow> (Inl (from_header_error e), f) | Inr _ \<Rightarrow>
       let num_chunks = div_ceil_u32 image_size ENC_CHUNK_SIZE
       in case chunk_loop pf region ks image_size num_chunks (chunk_indices num_chunks) (initial_body r f) of
            (Inl e, b) \<Rightarrow> (Inl e, flash b)
          | (Inr _, b) \<Rightarrow>
              (Inr \<lparr>result_total_plaintext = total_plaintext b, digest = sha256 pf (hashed b),
                    result_readback_len = readback_len b, readback_digest = sha256 pf (readback_hashed b)\<rparr>,
               flash b)))"

section \<open>Redirects\<close>

record network =
  tls_free :: "nat \<Rightarrow> nat \<Rightarrow> bool"
  http_get :: "nat \<Rightarrow> string \<Rightarrow> TlsVerify option \<Rightarrow> HttpError + response"

definition is_https :: "string \<Rightarrow> bool" where
  "is_https url \<longleftrightarrow> strip_prefix ''https://'' url \<noteq> None"

text \<open>
  The redirect loop; the last component lists the requests made, URL and TLS configuration, as the
  log does. The number of requests bounds the recursion.
\<close>

function fetch_loop ::
  "('f, 'p) platform \<Rightarrow> tls_secrets \<Rightarrow> network \<Rightarrow> OtaManifest \<Rightarrow> 'p \<Rightarrow> stream_keys \<Rightarrow>
   string \<Rightarrow> nat \<Rightarrow> 'f \<Rightarrow>
   (OtaFlashWriteError + EncryptedResult) \<times> 'f \<times> (string \<times> TlsVerify option) list" where
  "fetch_loop pf secrets net m region ks current_url redirects f =
     (case (if is_https current_url then acquire_ota_tls_workspace (tls_free net redirects) else Inr ()) of
        Inl e \<Rightarrow> (Inl e, f, [])
      | Inr _ \<Rightarrow>
        let tls = (if is_https current_url then Some (ota_tls_verify_for_url secrets current_url) else None)
        in case http_get net redirects current_url tls of
          Inl e \<Rightarrow> (Inl HttpConnect, f, [(current_url, tls)])
        | Inr r \<Rightarrow>
          if is_redirection r then
            (case redirect_location r of
               Inl e \<Rightarrow> (Inl e, f, [(current_url, tls)])
             | Inr next_url \<Rightarrow>
                 if MAX_REDIRECTS \<le> redirects then (Inl TooManyRedirects, f, [(current_url, tls)])
                 else if \<not> is_https next_url \<or> \<not> is_ok (validate_ota_url_policy next_url)
                 then (Inl RedirectRejected, f, [(current_url, tls)])
                 else case fetch_loop pf secrets net m region ks next_url (redirects + 1) f of
                        (res, f', log) \<Rightarrow> (res, f', (current_url, tls) # log))
          else
            (case validate_response_metadata r (unat (om_download_size m)) of
               Inl e \<Rightarrow> (Inl e, f, [(current_url, tls)])
             | Inr _ \<Rightarrow>
                 (case process_encrypted_body pf region ks (om_image_size m) (body r) f of
                    (res, f') \<Rightarrow> (res, f', [(current_url, tls)]))))"
  by pat_completeness auto
termination by (relation "measure (\<lambda>(pf, secrets, net, m, region, ks, url, redirects, f). MAX_REDIRECTS - redirects)") auto

declare fetch_loop.simps [simp del]

definition fetch_and_process_encrypted ::
  "('f, 'p) platform \<Rightarrow> tls_secrets \<Rightarrow> network \<Rightarrow> OtaManifest \<Rightarrow> 'p \<Rightarrow> stream_keys \<Rightarrow> 'f \<Rightarrow>
   (OtaFlashWriteError + EncryptedResult) \<times> 'f \<times> (string \<times> TlsVerify option) list" where
  "fetch_and_process_encrypted pf secrets net m region ks f =
     (if MAX_REDIRECT_URL_LEN < length (om_url m) then (Inl RedirectLocationTooLong, f, [])
      else fetch_loop pf secrets net m region ks (om_url m) 0 f)"

section \<open>Checks after the download and activation\<close>

definition post_verify :: "EncryptedResult \<Rightarrow> OtaManifest \<Rightarrow> OtaFlashWriteError + unit" where
  "post_verify r m =
     (if result_total_plaintext r \<noteq> om_image_size m then Inl SizeMismatch
      else let digest_hex = sha256_hex (digest r)
           in if \<not> eq_ignore_ascii_case digest_hex (om_image_sha256 m) then Inl ShaMismatch else Inr ())"

definition verify_flash_readback ::
  "('f, 'p) platform \<Rightarrow> 'p \<Rightarrow> EncryptedResult \<Rightarrow> 'f \<Rightarrow> OtaFlashWriteError + unit" where
  "verify_flash_readback pf region r f =
     (case region_read pf region 0 (result_readback_len r) f of
        Inl e \<Rightarrow> Inl (from_region_error e)
      | Inr readback \<Rightarrow> if sha256 pf readback \<noteq> readback_digest r then Inl FlashVerifyFailed else Inr ())"

definition stream_keys_of ::
  "digest_fun \<Rightarrow> (string \<Rightarrow> string option) \<Rightarrow> u8 list \<Rightarrow> OtaManifest \<Rightarrow> OtaFlashWriteError + stream_keys" where
  "stream_keys_of sha to_string master_key m =
     (case derive_subkeys sha master_key (enc_key_id (om_enc m)) of (aes, hmac) \<Rightarrow>
      result_bind (result_map_err (\<lambda>_. InvalidNoncePrefix) (parse_nonce_prefix (enc_nonce_prefix (om_enc m)))) (\<lambda>nonce.
      result_bind (result_map_err ManifestCanonical (canonical_unsigned_json to_string m)) (\<lambda>canonical.
      Inr \<lparr>nonce_prefix = nonce, hmac_key = hmac, aes_key = aes,
           manifest_digest = compute_manifest_digest sha canonical\<rparr>)))"

definition without_log :: "'a \<times> 'f \<times> 'l \<Rightarrow> 'a \<times> 'f" where
  "without_log r = (fst r, fst (snd r))"

definition partition_errors ::
  "(PartitionError + unit) \<times> 'f \<Rightarrow> (OtaFlashWriteError + unit) \<times> 'f" where
  "partition_errors r = (result_map_err Partition (fst r), snd r)"

text \<open>The second half of the update: the checks on what was written, then the two boot data writes.\<close>

definition verify_and_activate ::
  "('f, 'p) platform \<Rightarrow> OtaManifest \<Rightarrow> EncryptedResult \<Rightarrow> 'f \<Rightarrow> (OtaFlashWriteError + unit) \<times> 'f" where
  "verify_and_activate pf m stream_result f =
     st_bind (post_verify stream_result m, f) (\<lambda>_ f.
     st_bind (result_map_err Partition (inactive_partition (boot pf) f), f) (\<lambda>region f.
     st_bind (verify_flash_readback pf region stream_result f, f) (\<lambda>_ f.
     st_bind (partition_errors (activate_next_partition (boot pf) f)) (\<lambda>_ f.
     partition_errors (mark_current_app_new (boot pf) f)))))"

text \<open>
  The whole update. On success the source goes on to reset the chip; the flash is returned with
  the outcome in every case.
\<close>

definition download_and_write_to_flash ::
  "('f, 'p) platform \<Rightarrow> tls_secrets \<Rightarrow> network \<Rightarrow> (string \<Rightarrow> string option) \<Rightarrow> OtaManifest \<Rightarrow>
   u8 list \<Rightarrow> 'f \<Rightarrow> (OtaFlashWriteError + unit) \<times> 'f" where
  "download_and_write_to_flash pf secrets net to_string m master_key f =
     st_bind (stream_keys_of (sha256 pf) to_string master_key m, f) (\<lambda>ks f.
     st_bind (result_map_err Partition (updater_new (boot pf) f), f) (\<lambda>_ f.
     st_bind (result_map_err Partition (inactive_partition (boot pf) f), f) (\<lambda>region f.
     st_bind (prepare_inactive_slot pf region (om_image_size m) f) (\<lambda>_ f.
     st_bind (without_log (fetch_and_process_encrypted pf secrets net m region ks f)) (\<lambda>stream_result f.
     verify_and_activate pf m stream_result f)))))"

end
