(* ===== verification/Ota_Update.thy ===== *)
theory Ota_Update
  imports Ota_Flash
begin

text \<open>
  Correctness of the update of \<open>Ota_Flash\<close>: the laws of the flash library, the invariant of the
  chunk loop, the ways the redirect loop and the whole update can end, and a concrete two-slot
  flash on which the update runs.
\<close>

section \<open>Chunk arithmetic\<close>

lemma div_ceil_nat: "(a + 4095) div 4096 = a div 4096 + (if a mod 4096 = 0 then 0 else 1)" for a :: nat
proof -
  have "(4096 * q + r + 4095) div 4096 = q + (if r = 0 then 0 else 1)" if "r < 4096" for q r :: nat
    using that by (intro div_nat_eqI) auto
  from this [of "a mod 4096" "a div 4096"] show ?thesis by simp
qed

lemma unat_div_ceil_4096:
  "unat (div_ceil_u32 s 4096) = (unat s + 4095) div 4096"
proof -
  have d: "unat (s div 4096) = unat s div 4096" "unat (s mod 4096) = unat s mod 4096"
    by (simp_all add: unat_div_distrib unat_mod_distrib)
  have "unat s div 4096 < 1048576" using unsigned_less [where w = s and 'a = nat] by simp
  then have "unat (s div 4096 + 1) = unat s div 4096 + 1"
    by (simp add: unat_word_ariths d)
  then show ?thesis
    by (auto simp: div_ceil_u32_def Let_def d word_gt_0 unat_eq_0 [symmetric] div_ceil_nat)
qed

definition chunk_count :: "u32 \<Rightarrow> nat" where
  "chunk_count s = (unat s + 4095) div 4096"

text \<open>Length of the chunk with index \<open>i\<close>, in natural numbers.\<close>

definition chunk_length :: "u32 \<Rightarrow> nat \<Rightarrow> nat" where
  "chunk_length s i = min 4096 (unat s - 4096 * i)"

lemma chunk_count_word: "chunk_count s = unat (div_ceil_u32 s ENC_CHUNK_SIZE)"
  by (simp add: chunk_count_def unat_div_ceil_4096 ENC_CHUNK_SIZE_def)

lemma chunk_count_bounds:
  assumes "i < chunk_count s"
  shows "4096 * i < unat s" "4096 * i < 4294967296" "i < 1048576"
  using assms unsigned_less [where w = s and 'a = nat] by (auto simp: chunk_count_def)

lemma unat_chunk_offset: "i < chunk_count s \<Longrightarrow> unat (of_nat i * 4096 :: u32) = 4096 * i"
  using chunk_count_bounds(2,3) [of i s] by (simp add: unat_word_ariths unat_of_nat)

lemma unat_expected_len:
  assumes "i < chunk_count s"
  shows "unat (expected_len s (div_ceil_u32 s ENC_CHUNK_SIZE) (of_nat i)) = chunk_length s i"
proof -
  note b = chunk_count_bounds [OF assms]
  have i: "unat (of_nat i :: u32) = i" using b by (simp add: unat_of_nat)
  have "unat (div_ceil_u32 s ENC_CHUNK_SIZE - 1) = chunk_count s - 1"
    using assms by (simp add: chunk_count_word unat_sub word_le_nat_alt)
  then have eq: "of_nat i = div_ceil_u32 s ENC_CHUNK_SIZE - 1 \<longleftrightarrow> i = chunk_count s - 1"
    using i by (metis word_unat_eq_iff)
  have sub: "unat (s - of_nat i * 4096) = unat s - 4096 * i"
    using unat_chunk_offset [OF assms] b by (simp add: unat_sub word_le_nat_alt)
  show ?thesis
  proof (cases "i = chunk_count s - 1")
    case True
    moreover have "unat s - 4096 * i \<le> 4096" using True assms by (auto simp: chunk_count_def)
    moreover have "expected_len s (div_ceil_u32 s ENC_CHUNK_SIZE) (of_nat i) = s - of_nat i * ENC_CHUNK_SIZE"
      using eq True by (metis expected_len_def)
    ultimately show ?thesis using sub by (simp add: chunk_length_def ENC_CHUNK_SIZE_def)
  next
    case False
    with assms have "4096 \<le> unat s - 4096 * i" by (auto simp: chunk_count_def)
    moreover have "expected_len s (div_ceil_u32 s ENC_CHUNK_SIZE) (of_nat i) = ENC_CHUNK_SIZE"
      using eq False by (metis expected_len_def)
    ultimately show ?thesis by (simp add: chunk_length_def ENC_CHUNK_SIZE_def)
  qed
qed

section \<open>What the flash library promises\<close>

text \<open>
  The documented behaviour the code relies on, over an abstraction \<open>content\<close> of each region: a
  successful write lies in the region and replaces just its bytes, an erase keeps the size, no
  operation on one region touches another, the selected slot is not touched by region operations
  and the boot operations do not touch the regions. AES keeps the length and a digest has 32 bytes.
\<close>

definition write_law :: "('f, 'p) platform \<Rightarrow> ('p \<Rightarrow> 'f \<Rightarrow> u8 list) \<Rightarrow> bool" where
  "write_law pf content \<longleftrightarrow> (\<forall>p off bs f f'. region_write pf p off bs f = (Inr (), f') \<longrightarrow>
     unat off + length bs \<le> length (content p f) \<and>
     content p f' = splice (content p f) (unat off) bs)"

definition erase_law :: "('f, 'p) platform \<Rightarrow> ('p \<Rightarrow> 'f \<Rightarrow> u8 list) \<Rightarrow> bool" where
  "erase_law pf content \<longleftrightarrow> (\<forall>p off n f f'. region_erase pf p off n f = (Inr (), f') \<longrightarrow>
     length (content p f') = length (content p f))"

definition frame_law :: "('f, 'p) platform \<Rightarrow> ('p \<Rightarrow> 'f \<Rightarrow> u8 list) \<Rightarrow> bool" where
  "frame_law pf content \<longleftrightarrow>
     (\<forall>p q off bs f. q \<noteq> p \<longrightarrow> content q (snd (region_write pf p off bs f)) = content q f) \<and>
     (\<forall>p q off n f. q \<noteq> p \<longrightarrow> content q (snd (region_erase pf p off n f)) = content q f) \<and>
     (\<forall>q f. content q (snd (updater_activate_next_partition (boot pf) f)) = content q f) \<and>
     (\<forall>q st f. content q (snd (set_current_ota_state (boot pf) st f)) = content q f)"

definition boot_law :: "('f, 'p) platform \<Rightarrow> bool" where
  "boot_law pf \<longleftrightarrow>
     (\<forall>p off bs f. updater_selected_partition (boot pf) (snd (region_write pf p off bs f)) =
        updater_selected_partition (boot pf) f) \<and>
     (\<forall>p off n f. updater_selected_partition (boot pf) (snd (region_erase pf p off n f)) =
        updater_selected_partition (boot pf) f)"

definition size_law :: "('f, 'p) platform \<Rightarrow> ('p \<Rightarrow> 'f \<Rightarrow> u8 list) \<Rightarrow> bool" where
  "size_law pf content \<longleftrightarrow> (\<forall>p f. partition_size pf p f = length (content p f))"

definition aes_law :: "('f, 'p) platform \<Rightarrow> bool" where
  "aes_law pf \<longleftrightarrow> (\<forall>k n d. length (aes_ctr pf k n d) = length d)"

definition sha_law :: "('f, 'p) platform \<Rightarrow> bool" where
  "sha_law pf \<longleftrightarrow> (\<forall>d. length (sha256 pf d) = 32)"

definition platform_laws :: "('f, 'p) platform \<Rightarrow> ('p \<Rightarrow> 'f \<Rightarrow> u8 list) \<Rightarrow> bool" where
  "platform_laws pf content \<longleftrightarrow> write_law pf content \<and> erase_law pf content \<and> size_law pf content \<and>
     frame_law pf content \<and> boot_law pf \<and> aes_law pf \<and> sha_law pf"

section \<open>Reading is independent of fragmentation\<close>

text \<open>The bytes a reader delivers before its first failure.\<close>

fun stream_of :: "fill list \<Rightarrow> u8 list" where
  "stream_of [] = []"
| "stream_of (Avail bs # r) = (if bs = [] then [] else bs @ stream_of r)"
| "stream_of (_ # r) = []"

text \<open>
  Reading depends only on the bytes, not on how the network cut them. \<open>read_exact\<close> returns the
  next bytes of the stream and leaves the rest, however deliveries are fragmented; it fails, with
  \<open>ReadFailed\<close>, exactly when the stream ends or stalls before enough bytes came.
\<close>
theorem read_exact_refines_stream:
  "(case read_exact r n of
      (Inr bs, r') \<Rightarrow> length bs = n \<and> stream_of r = bs @ stream_of r'
    | (Inl e, _) \<Rightarrow> e = ReadFailed \<and> length (stream_of r) < n)"
proof (induction r n rule: read_exact.induct)
  case (5 available r n)
  show ?case
  proof (cases "available = [] \<or> Suc n < length available")
    case True
    then show ?thesis by (auto simp: Let_def min_def split: prod.splits)
  next
    case False
    then have ne: "available \<noteq> []" and len: "min (length available) (Suc n) = length available" by auto
    have "(case read_exact r (Suc n - length available) of
        (Inr bs, r') \<Rightarrow> length bs = Suc n - length available \<and> stream_of r = bs @ stream_of r'
      | (Inl e, _) \<Rightarrow> e = ReadFailed \<and> length (stream_of r) < Suc n - length available)"
      using "5.IH" [OF ne refl, unfolded len, OF less_irrefl] .
    then show ?thesis using False ne
      by (auto simp: Let_def len st_bind_def split: prod.splits sum.splits)
  qed
qed auto

section \<open>A chunk on the wire\<close>

text \<open>
  A chunk in the body, after the header of the stream: the length of the ciphertext as four bytes,
  most significant first, the ciphertext, and its tag.
\<close>

definition chunk_frame :: "u8 list \<times> u8 list \<Rightarrow> u8 list" where
  "chunk_frame c = u32_to_be_bytes (of_nat (length (fst c))) @ fst c @ snd c"

definition wire_of :: "(u8 list \<times> u8 list) list \<Rightarrow> u8 list" where
  "wire_of cs = concat (map chunk_frame cs)"

lemma wire_of_snoc: "wire_of (cs @ [c]) = wire_of cs @ chunk_frame c"
  by (simp add: wire_of_def)

lemma be_word_bytes:
  assumes "length bs = 4"
  shows "u32_to_be_bytes (be_word bs) = bs"
proof -
  from assms obtain a b c d where "bs = [a, b, c, d]" by (auto simp: numeral_eq_Suc length_Suc_conv)
  then show ?thesis by (simp add: u32_to_be_bytes_def u32_from_be_bytes_def)
qed

lemma read_body_stream:
  assumes "read_body n b = (Inr bs, b')"
  shows "stream_of (reader b) = bs @ stream_of (reader b')"
  using assms read_exact_refines_stream [of "reader b" n] by (auto simp: read_body_def split: prod.splits)

text \<open>
  The tag of a chunk, written out from RFC 2104 for a key of 32 bytes and a hash of 64-byte blocks,
  over the context, the digest of the manifest, the index, offset and length of the chunk and its
  ciphertext.
\<close>

definition hmac_block_key :: "u8 list \<Rightarrow> u8 list" where
  "hmac_block_key key = map (\<lambda>i. if i < 32 then key ! i else 0) [0..<64]"

definition rfc2104_hmac :: "digest_fun \<Rightarrow> u8 list \<Rightarrow> u8 list \<Rightarrow> u8 list" where
  "rfc2104_hmac sha key m =
     sha (map (\<lambda>b. b XOR 0x5C) (hmac_block_key key) @
       sha (map (\<lambda>b. b XOR 0x36) (hmac_block_key key) @ m))"

lemma hmac_pad_block: "hmac_pad pad key = map (\<lambda>b. b XOR pad) (hmac_block_key key)"
proof -
  have "fold (\<lambda>i k. k[i := k ! i XOR key ! i]) [0..<n] (replicate 64 pad) =
      map (\<lambda>i. (if i < n then key ! i else 0) XOR pad) [0..<64]" if "n \<le> 64" for n
    using that
  proof (induction n)
    case (Suc n)
    have e: "map (\<lambda>i. (if i < Suc n then key ! i else 0) XOR pad) [0..<64] =
        (map (\<lambda>i. (if i < n then key ! i else 0) XOR pad) [0..<64])[n := pad XOR key ! n]"
      by (rule nth_equalityI) (auto simp: nth_list_update less_Suc_eq xor.commute)
    show ?case using Suc unfolding e by simp
  qed (simp add: map_replicate_const)
  from this [of 32] show ?thesis
    by (simp add: hmac_pad_def hmac_block_key_def HMAC_KEY_SIZE_def HMAC_BLOCK_SIZE_def comp_def)
qed

lemma verify_chunk_hmac_iff:
  "verify_chunk_hmac sha key d i off len ct tag \<longleftrightarrow> tag = rfc2104_hmac sha key (chunk_message d i off len ct)"
  by (auto simp: verify_chunk_hmac_def constant_time_eq_iff compute_chunk_hmac_eq rfc2104_hmac_def
      hmac_pad_block OPAD_def IPAD_def)

section \<open>The chunk loop\<close>

text \<open>A chunk as received, its plaintext, and the image a list of chunks stands for.\<close>

definition chunk_plain :: "('f, 'p) platform \<Rightarrow> stream_keys \<Rightarrow> nat \<Rightarrow> u8 list \<Rightarrow> u8 list" where
  "chunk_plain pf ks i ct =
     (if ct = [] then [] else aes_ctr pf (aes_key ks) (nonce_prefix ks @ u32_to_be_bytes (of_nat i)) ct)"

definition chunk_authentic :: "('f, 'p) platform \<Rightarrow> stream_keys \<Rightarrow> u32 \<Rightarrow> nat \<Rightarrow> u8 list \<times> u8 list \<Rightarrow> bool" where
  "chunk_authentic pf ks s i c \<longleftrightarrow>
     length (fst c) = chunk_length s i \<and>
     snd c = rfc2104_hmac (sha256 pf) (hmac_key ks)
       (chunk_message (manifest_digest ks) (of_nat i) (of_nat (4096 * i)) (of_nat (length (fst c))) (fst c))"

definition image_of :: "('f, 'p) platform \<Rightarrow> stream_keys \<Rightarrow> (u8 list \<times> u8 list) list \<Rightarrow> u8 list" where
  "image_of pf ks cs = concat (map (\<lambda>i. chunk_plain pf ks i (fst (cs ! i))) [0..<length cs])"

definition authentic_chunks :: "('f, 'p) platform \<Rightarrow> stream_keys \<Rightarrow> u32 \<Rightarrow> (u8 list \<times> u8 list) list \<Rightarrow> bool" where
  "authentic_chunks pf ks s cs \<longleftrightarrow>
     length cs \<le> chunk_count s \<and> (\<forall>i < length cs. chunk_authentic pf ks s i (cs ! i))"

lemma image_of_snoc:
  "image_of pf ks (cs @ [c]) = image_of pf ks cs @ chunk_plain pf ks (length cs) (fst c)"
proof -
  have "map (\<lambda>i. chunk_plain pf ks i (fst ((cs @ [c]) ! i))) [0..<length cs] =
      map (\<lambda>i. chunk_plain pf ks i (fst (cs ! i))) [0..<length cs]"
    by (auto simp: nth_append)
  from arg_cong [OF this, of concat] show ?thesis unfolding image_of_def by simp
qed

lemma authentic_snoc:
  "authentic_chunks pf ks s (cs @ [c]) \<longleftrightarrow>
     authentic_chunks pf ks s cs \<and> length cs < chunk_count s \<and> chunk_authentic pf ks s (length cs) c"
  by (auto simp: authentic_chunks_def nth_append less_Suc_eq)

lemma length_image_of:
  assumes "aes_law pf" "authentic_chunks pf ks s cs"
  shows "length (image_of pf ks cs) = min (4096 * length cs) (unat s)"
  using assms(2)
proof (induction cs rule: rev_induct)
  case (snoc c cs)
  then have "length (chunk_plain pf ks (length cs) (fst c)) = chunk_length s (length cs)"
    using assms(1) by (auto simp: authentic_snoc chunk_authentic_def chunk_plain_def aes_law_def)
  moreover have "4096 * length cs < unat s"
    using snoc.prems chunk_count_bounds(1) by (auto simp: authentic_snoc)
  ultimately show ?case using snoc by (auto simp: image_of_snoc authentic_snoc chunk_length_def)
qed (simp add: image_of_def)

lemma splice_extends:
  assumes "c = p @ drop (length p) c0" "length p + length q \<le> length c"
  shows "splice c (length p) q = (p @ q) @ drop (length (p @ q)) c0"
  using assms by (simp add: splice_def add.commute)


text \<open>
  What holds between two iterations: the chunks \<open>cs\<close> were all authentic, their plaintext is in the
  region from its start and was hashed, offsets and counters agree with its length, and its first
  bytes passed the plausibility check as soon as there were eight.
\<close>

definition prefix_ok :: "u8 list \<Rightarrow> bool" where
  "prefix_ok p \<longleftrightarrow> (8 \<le> length p \<longrightarrow> validate_esp_image_prefix (take 64 p) = Inr ())"

definition body_inv ::
  "('f, 'p) platform \<Rightarrow> ('p \<Rightarrow> 'f \<Rightarrow> u8 list) \<Rightarrow> 'p \<Rightarrow> stream_keys \<Rightarrow> u32 \<Rightarrow> u8 list \<Rightarrow>
   (u8 list \<times> u8 list) list \<Rightarrow> 'f body_state \<Rightarrow> bool" where
  "body_inv pf content region ks s c0 cs b \<longleftrightarrow>
     (let p = image_of pf ks cs
      in authentic_chunks pf ks s cs \<and>
         hashed b = p \<and> content region (flash b) = p @ drop (length p) c0 \<and>
         flash_offset b = of_nat (length p) \<and> total_plaintext b = of_nat (length p) \<and>
         readback_hashed b = take 4096 p \<and> readback_len b = min 4096 (length p) \<and> prefix_ok p \<and>
         (if cs = [] then first_bytes b = replicate 64 0 \<and> first_filled b = 0 \<and> \<not> prefix_validated b
          else 8 \<le> length p \<longrightarrow> prefix_validated b))"

lemma body_inv_initial: "body_inv pf content region ks s (content region f) [] (initial_body r f)"
  by (simp add: body_inv_def initial_body_def image_of_def authentic_chunks_def prefix_ok_def ESP_IMAGE_PREFIX_LEN_def)

lemma check_prefix_frame:
  "check_prefix p b = (res, b') \<Longrightarrow>
    reader b' = reader b \<and> flash b' = flash b \<and> total_plaintext b' = total_plaintext b \<and>
    flash_offset b' = flash_offset b \<and> hashed b' = hashed b \<and> readback_hashed b' = readback_hashed b \<and>
    readback_len b' = readback_len b"
  by (auto simp: check_prefix_def Let_def split: if_splits sum.splits)

lemma read_body_frame:
  "read_body n b = (res, b') \<Longrightarrow> b' = b\<lparr>reader := reader b'\<rparr>"
  by (auto simp: read_body_def split: prod.splits)

lemma read_exact_length: "read_exact r n = (Inr bs, r') \<Longrightarrow> length bs = n"
proof (induction r n arbitrary: bs r' rule: read_exact.induct)
  case (5 available r n)
  show ?case
  proof (cases "Suc n < length available")
    case True
    then show ?thesis using "5.prems" by (auto simp: Let_def min_def split: if_splits)
  next
    case False
    with "5.prems" have ne: "available \<noteq> []" by auto
    from False have len: "min (length available) (Suc n) = length available" by simp
    obtain cs r1 where rest: "read_exact r (Suc n - length available) = (Inr cs, r1)" "bs = available @ cs"
      using "5.prems" ne by (auto simp: Let_def len st_bind_Inr_iff)
    have "length cs = Suc n - length available"
      using "5.IH" [OF ne refl, unfolded len, OF less_irrefl rest(1)] .
    then show ?thesis using False rest(2) by simp
  qed
qed auto

lemma read_body_length: "read_body n b = (Inr bs, b') \<Longrightarrow> length bs = n"
  by (auto simp: read_body_def dest: read_exact_length split: prod.splits)

text \<open>An iteration that succeeds has read an authentic chunk and stored its plaintext.\<close>

lemma process_chunk_Inr:
  assumes "process_chunk pf region ks s n i b = (Inr u, b')"
  obtains ct tag b1 plaintext b2 where
    "reader b1 = reader b2" "b1 = b\<lparr>reader := reader b1\<rparr>"
    "stream_of (reader b) = chunk_frame (ct, tag) @ stream_of (reader b1)"
    "length ct = unat (expected_len s n i)"
    "verify_chunk_hmac (sha256 pf) (hmac_key ks) (manifest_digest ks) i (flash_offset b)
       (expected_len s n i) ct tag"
    "aes_ctr_crypt_in_place (aes_ctr pf) (aes_key ks) (nonce_prefix ks) i ct = Inr plaintext"
    "check_prefix plaintext b1 = (Inr (), b2)"
    "store_plaintext pf region (expected_len s n i) plaintext b2 = (Inr (), b')"
proof -
  from assms obtain len_buf b1 where 1: "read_body 4 b = (Inr len_buf, b1)"
    and r1: "be_word len_buf = expected_len s n i"
    and k1: "st_bind (read_body (unat (be_word len_buf)) b1) (\<lambda>ct b.
        st_bind (read_body HMAC_TAG_SIZE b) (\<lambda>tag_buf b.
        store_chunk pf region ks i (be_word len_buf) ct tag_buf b)) = (Inr u, b')"
    unfolding process_chunk_def by (auto simp: Let_def elim!: st_bind_InrE [of "read_body 4 b"] split: if_splits)
  from k1 obtain ct b2 tag b3 where 2: "read_body (unat (be_word len_buf)) b1 = (Inr ct, b2)"
    and 3: "read_body HMAC_TAG_SIZE b2 = (Inr tag, b3)"
    and k3: "store_chunk pf region ks i (expected_len s n i) ct tag b3 = (Inr u, b')"
    unfolding r1 by (auto elim!: st_bind_InrE)
  obtain r3 where b3: "b3 = b\<lparr>reader := r3\<rparr>"
    using read_body_frame [OF 1] read_body_frame [OF 2] read_body_frame [OF 3]
    by (metis body_state.fold_congs(1) body_state.update_convs(1) body_state.surjective)
  from k3 have v: "verify_chunk_hmac (sha256 pf) (hmac_key ks) (manifest_digest ks) i
              (flash_offset b) (expected_len s n i) ct tag"
    by (auto simp: store_chunk_def b3 split: if_splits)
  with k3 obtain pt b4 where 4: "aes_ctr_crypt_in_place (aes_ctr pf) (aes_key ks) (nonce_prefix ks) i ct = Inr pt"
    and 5: "check_prefix pt b3 = (Inr (), b4)"
    and 6: "store_plaintext pf region (expected_len s n i) pt b4 = (Inr (), b')"
    by (auto simp: store_chunk_def b3 elim!: st_bind_InrE)
  have "stream_of (reader b) = chunk_frame (ct, tag) @ stream_of (reader b3)"
    using read_body_stream [OF 1] read_body_stream [OF 2] read_body_stream [OF 3]
      be_word_bytes [OF read_body_length [OF 1]] read_body_length [OF 2]
    by (simp add: chunk_frame_def)
  then show thesis
    by (intro that [OF _ _ _ read_body_length [OF 2, unfolded r1] v 4 5 6]) (simp_all add: b3 check_prefix_frame [OF 5])
qed

lemma read_body_flash: "read_body n b = (res, b') \<Longrightarrow> flash b' = flash b"
  by (auto simp: read_body_def split: prod.splits)

text \<open>The only effect of an iteration on the flash is at most one write to the region.\<close>

definition is_region_error :: "(OtaFlashWriteError + 'a) \<Rightarrow> bool" where
  "is_region_error r \<longleftrightarrow> (\<exists>e. r = Inl (from_region_error e))"

definition flash_effect ::
  "('f, 'p) platform \<Rightarrow> 'p \<Rightarrow> 'f \<Rightarrow> (OtaFlashWriteError + 'a) \<Rightarrow> 'f \<Rightarrow> bool" where
  "flash_effect pf region f res f' \<longleftrightarrow>
     \<not> is_ok res \<and> f' = f \<or>
     (\<exists>off bs. f' = snd (region_write pf region off bs f)) \<and> (is_ok res \<or> is_region_error res)"

lemma flash_effect_error [simp]: "flash_effect pf region f (Inl e) f"
  by (simp add: flash_effect_def)

lemma store_plaintext_flash:
  assumes "store_plaintext pf region n pt b = (res, b')"
  shows "flash_effect pf region (flash b) res (flash b')"
proof -
  obtain r f where w: "region_write pf region (flash_offset b) pt (flash b) = (r, f)" by (cases "region_write pf region (flash_offset b) pt (flash b)")
  have "flash b' = f \<and> (is_ok res \<or> is_region_error res)"
    using w assms
    by (cases r) (auto simp: store_plaintext_def is_region_error_def Let_def)
  moreover have "\<exists>off bs. f = snd (region_write pf region off bs (flash b))"
    using w by (metis snd_conv)
  ultimately show ?thesis by (simp add: flash_effect_def)
qed

lemma store_chunk_flash:
  assumes "store_chunk pf region ks i m ct tag b = (res, b')"
  shows "flash_effect pf region (flash b) res (flash b')"
proof -
  have "flash b2 = flash b" if "check_prefix pt b = (r, b2)" for pt r b2
    using check_prefix_frame [OF that] by simp
  with assms show ?thesis
    by (auto simp: store_chunk_def split: if_splits elim!: st_bindE dest!: store_plaintext_flash)
qed

lemma process_chunk_flash:
  assumes "process_chunk pf region ks s n i b = (res, b')"
  shows "flash_effect pf region (flash b) res (flash b')"
  using assms unfolding process_chunk_def Let_def
  by (auto elim!: st_bindE split: if_splits dest!: read_body_flash store_chunk_flash)

lemma body_inv_step:
  assumes laws: "write_law pf content" "aes_law pf"
    and inv: "body_inv pf content region ks s c0 cs b"
    and more: "length cs < chunk_count s"
    and run: "process_chunk pf region ks s (div_ceil_u32 s ENC_CHUNK_SIZE) (of_nat (length cs)) b = (Inr u, b')"
  shows "\<exists>c. body_inv pf content region ks s c0 (cs @ [c]) b' \<and>
    stream_of (reader b) = chunk_frame c @ stream_of (reader b')"
proof -
  define p where "p = image_of pf ks cs"
  define n where "n = expected_len s (div_ceil_u32 s ENC_CHUNK_SIZE) (of_nat (length cs))"
  have auth: "authentic_chunks pf ks s cs" using inv by (simp add: body_inv_def Let_def)
  have lp: "length p = 4096 * length cs"
    using length_image_of [OF laws(2) auth] chunk_count_bounds(1) [OF more] by (simp add: p_def)
  have n: "unat n = chunk_length s (length cs)" by (simp add: n_def unat_expected_len [OF more])
  from run obtain ct tag b1 pt b2 where
    b1: "reader b1 = reader b2" "b1 = b\<lparr>reader := reader b1\<rparr>"
    and wire: "stream_of (reader b) = chunk_frame (ct, tag) @ stream_of (reader b1)"
    and ct: "length ct = unat n"
    and v: "verify_chunk_hmac (sha256 pf) (hmac_key ks) (manifest_digest ks) (of_nat (length cs)) (flash_offset b) n ct tag"
    and pt: "aes_ctr_crypt_in_place (aes_ctr pf) (aes_key ks) (nonce_prefix ks) (of_nat (length cs)) ct = Inr pt"
    and chk: "check_prefix pt b1 = (Inr (), b2)"
    and st: "store_plaintext pf region n pt b2 = (Inr (), b')"
    unfolding n_def by (rule process_chunk_Inr)
  have plain: "pt = chunk_plain pf ks (length cs) ct"
    using pt by (auto simp: aes_ctr_crypt_in_place_def chunk_plain_def Let_def split: if_splits)
  have len: "length pt = chunk_length s (length cs)"
    using laws(2) ct n by (auto simp: plain chunk_plain_def aes_law_def)
  have off: "flash_offset b = of_nat (length p)" using inv by (simp add: body_inv_def Let_def p_def)
  have c: "chunk_authentic pf ks s (length cs) (ct, tag)"
  proof -
    have "of_nat (length ct) = n" using ct by simp
    with v show ?thesis by (simp add: chunk_authentic_def verify_chunk_hmac_iff off lp, simp add: ct n)
  qed
  have auth': "authentic_chunks pf ks s (cs @ [(ct, tag)])"
    using auth more c by (simp add: authentic_snoc)
  have img: "image_of pf ks (cs @ [(ct, tag)]) = p @ pt"
    by (simp add: image_of_snoc p_def plain)
  have nw: "n = of_nat (length pt)"
  proof -
    have "n = of_nat (unat n)" by simp
    then show ?thesis unfolding n len .
  qed
  define r where "r = reader b1"
  have b1e: "b1 = b\<lparr>reader := r\<rparr>" using b1(2) unfolding r_def .
  have b1': "flash b2 = flash b" "flash_offset b2 = of_nat (length p)" "total_plaintext b2 = of_nat (length p)"
    "hashed b2 = p" "readback_hashed b2 = take 4096 p" "readback_len b2 = min 4096 (length p)"
    using check_prefix_frame [OF chk] inv
    by (simp_all add: b1e body_inv_def Let_def p_def)
  obtain f where w: "region_write pf region (of_nat (length p)) pt (flash b) = (Inr (), f)"
    and b'eq: "b' = b2\<lparr>flash := f, hashed := p @ pt, readback_hashed := take 4096 (p @ pt),
      readback_len := min 4096 (length (p @ pt)), flash_offset := of_nat (length (p @ pt)),
      total_plaintext := of_nat (length (p @ pt))\<rparr>"
    using st by (auto simp: store_plaintext_def b1' Let_def nw FLASH_READBACK_LEN_def min_def
        split: prod.splits sum.splits)
  have uo: "unat (of_nat (length p) :: u32) = length p"
    using unat_chunk_offset [OF more] by (simp add: lp mult.commute)
  have "content region (flash b) = p @ drop (length p) c0" using inv by (simp add: body_inv_def Let_def p_def)
  moreover have "length p + length pt \<le> length (content region (flash b))"
    "content region f = splice (content region (flash b)) (length p) pt"
    using w laws(1) uo unfolding write_law_def by metis+
  ultimately have cont: "content region f = (p @ pt) @ drop (length (p @ pt)) c0"
    by (metis splice_extends)
  have ok: "prefix_ok (p @ pt) \<and> (8 \<le> length (p @ pt) \<longrightarrow> prefix_validated b2)"
  proof (cases "cs = []")
    case True
    then have p: "p = []" by (simp add: p_def image_of_def)
    have "first_bytes b1 = replicate 64 0" "first_filled b1 = 0" "\<not> prefix_validated b1"
      using inv True by (simp_all add: b1e body_inv_def Let_def)
    with chk show ?thesis
      by (auto simp: p check_prefix_def Let_def splice_def ESP_IMAGE_PREFIX_LEN_def prefix_ok_def min_def
          split: if_splits sum.splits)
  next
    case False
    then have lp8: "64 \<le> length p" using lp by (cases cs) auto
    with inv False have "prefix_validated b" "prefix_ok p" by (simp_all add: body_inv_def Let_def p_def)
    moreover from this chk have "prefix_validated b2"
      by (auto simp: b1e check_prefix_def)
    ultimately show ?thesis using lp8 by (simp add: prefix_ok_def)
  qed
  show ?thesis
    by (rule exI [of _ "(ct, tag)"]) (simp add: body_inv_def img auth' cont ok b'eq wire b1(1))
qed

text \<open>A property of the flash that region writes keep is kept by the whole download.\<close>

lemma flash_effect_keeps:
  assumes "flash_effect pf region f res f'" "\<And>off bs f. P f \<Longrightarrow> P (snd (region_write pf region off bs f))" "P f"
  shows "P f'"
  using assms by (auto simp: flash_effect_def)

lemma chunk_loop_keeps:
  assumes keep: "\<And>off bs f. P f \<Longrightarrow> P (snd (region_write pf region off bs f))"
  shows "chunk_loop pf region ks s n is b = (res, b') \<Longrightarrow> P (flash b) \<Longrightarrow> P (flash b')"
proof (induction "is" arbitrary: b)
  case (Cons i "is")
  from Cons.prems(1) obtain r b1 where step: "process_chunk pf region ks s n i b = (r, b1)"
    and rest: "chunk_loop pf region ks s n is b1 = (res, b') \<or> b' = b1"
    by (auto elim!: st_bindE)
  have "P (flash b1)"
    by (rule flash_effect_keeps [where P = P, OF process_chunk_flash [OF step] keep Cons.prems(2)])
  with rest Cons.IH show ?case by auto
qed simp

lemma process_encrypted_body_keeps:
  assumes keep: "\<And>off bs f. P f \<Longrightarrow> P (snd (region_write pf region off bs f))" and "P f"
    and "process_encrypted_body pf region ks s r f = (res, f')"
  shows "P f'"
proof -
  have "P (flash b')" if "chunk_loop pf region ks s n is (initial_body r f) = (res', b')" for n "is" r res' b'
    using chunk_loop_keeps [where P = P, OF keep that] by (simp add: initial_body_def assms(2))
  with assms show ?thesis
    by (auto simp: process_encrypted_body_def Let_def split: prod.splits sum.splits)
qed

lemma chunk_loop_outcome:
  assumes laws: "write_law pf content" "aes_law pf"
  shows "body_inv pf content region ks s c0 cs b \<Longrightarrow> received = wire_of cs @ stream_of (reader b) \<Longrightarrow>
    chunk_loop pf region ks s (div_ceil_u32 s ENC_CHUNK_SIZE) (map of_nat [length cs..<chunk_count s]) b = (res, b') \<Longrightarrow>
    \<not> is_region_error res \<Longrightarrow>
    \<exists>cs'. authentic_chunks pf ks s cs' \<and> (\<exists>rest. received = wire_of cs' @ rest) \<and>
      content region (flash b') = image_of pf ks cs' @ drop (length (image_of pf ks cs')) c0 \<and>
      (is_ok res \<longrightarrow> length cs' = chunk_count s \<and> body_inv pf content region ks s c0 cs' b')"
proof (induction "chunk_count s - length cs" arbitrary: cs b)
  case 0
  then have inv: "authentic_chunks pf ks s cs" "content region (flash b) = image_of pf ks cs @ drop (length (image_of pf ks cs)) c0"
    by (simp_all add: body_inv_def Let_def)
  with 0(1) have "length cs = chunk_count s" by (simp add: authentic_chunks_def)
  moreover from this 0(4) have "res = Inr ()" "b' = b" by simp_all
  ultimately show ?case using inv 0(2,3) by blast
next
  case (Suc k)
  then have more: "length cs < chunk_count s" by simp
  then have idx: "[length cs..<chunk_count s] = length cs # [Suc (length cs)..<chunk_count s]"
    by (rule upt_conv_Cons)
  obtain r b1 where step: "process_chunk pf region ks s (div_ceil_u32 s ENC_CHUNK_SIZE) (of_nat (length cs)) b = (r, b1)"
    by (cases "process_chunk pf region ks s (div_ceil_u32 s ENC_CHUNK_SIZE) (of_nat (length cs)) b")
  show ?case
  proof (cases r)
    case (Inl e)
    with Suc.prems(3,4) step have "res = Inl e" "b' = b1" by (simp_all add: idx)
    with process_chunk_flash [OF step] Inl Suc.prems(4) have "flash b' = flash b"
      by (auto simp: flash_effect_def is_region_error_def)
    with Suc.prems(1,2) \<open>res = Inl e\<close> show ?thesis by (auto simp: body_inv_def Let_def)
  next
    case (Inr u)
    from body_inv_step [OF laws Suc.prems(1) more step [unfolded Inr]] obtain c where
      inv: "body_inv pf content region ks s c0 (cs @ [c]) b1"
      and "stream_of (reader b) = chunk_frame c @ stream_of (reader b1)" by blast
    then have wire: "received = wire_of (cs @ [c]) @ stream_of (reader b1)"
      using Suc.prems(2) by (simp add: wire_of_snoc)
    have loop: "chunk_loop pf region ks s (div_ceil_u32 s ENC_CHUNK_SIZE) (map of_nat [length (cs @ [c])..<chunk_count s]) b1 = (res, b')"
      using Suc.prems(3) step Inr by (simp add: idx)
    show ?thesis
      by (rule Suc.hyps(1) [OF _ inv wire loop Suc.prems(4)]) (use Suc.hyps(2) in simp)
  qed
qed

lemma complete_image_length:
  assumes "aes_law pf" "authentic_chunks pf ks s cs" "length cs = chunk_count s"
  shows "length (image_of pf ks cs) = unat s"
proof -
  have "unat s \<le> 4096 * ((unat s + 4095) div 4096)"
    using div_mult_mod_eq [of "unat s + 4095" 4096] mod_less_divisor [of 4096 "unat s + 4095"] by linarith
  then show ?thesis using length_image_of [OF assms(1,2)] assms(3) by (simp add: chunk_count_def)
qed

lemma chunk_indices_eq:
  "chunk_indices (div_ceil_u32 s ENC_CHUNK_SIZE) = map of_nat [0..<chunk_count s]"
  by (simp add: chunk_indices_def chunk_count_word)

text \<open>What the body leaves in the region, whatever its outcome.\<close>

lemma process_encrypted_body_stream:
  assumes laws: "write_law pf content" "aes_law pf"
    and run: "process_encrypted_body pf region ks s r f = (res, f')" and ne: "\<not> is_region_error res"
  obtains cs where "authentic_chunks pf ks s cs"
    "content region f' = image_of pf ks cs @ drop (length (image_of pf ks cs)) (content region f)"
    "is_ok res \<or> cs \<noteq> [] \<Longrightarrow> \<exists>header rest. length header = 16 \<and> validate_ota_header header = Inr () \<and>
       stream_of r = header @ wire_of cs @ rest"
    "\<And>x. res = Inr x \<Longrightarrow> length cs = chunk_count s \<and> prefix_ok (image_of pf ks cs) \<and>
       digest x = sha256 pf (image_of pf ks cs)"
proof -
  have none: "authentic_chunks pf ks s []" "image_of pf ks [] = []"
    by (simp_all add: authentic_chunks_def image_of_def)
  consider (early) "f' = f" "\<not> is_ok res"
    | (loop) header r' res' b' where "read_exact r OTA_V2_HEADER_SIZE = (Inr header, r')"
        "validate_ota_header header = Inr ()" "chunk_loop pf region ks s (div_ceil_u32 s ENC_CHUNK_SIZE)
          (chunk_indices (div_ceil_u32 s ENC_CHUNK_SIZE)) (initial_body r' f) = (res', b')" "f' = flash b'"
        "res' = Inr () \<and> (\<exists>x. res = Inr x \<and> digest x = sha256 pf (hashed b')) \<or> (\<exists>e. res = Inl e \<and> res' = Inl e)"
    using run by (auto simp: process_encrypted_body_def Let_def split: prod.splits sum.splits)
  then show thesis
  proof cases
    case early
    then show thesis using none by (intro that [of "[]"]) auto
  next
    case loop
    have header: "length header = 16" "stream_of r = header @ stream_of r'"
      using read_exact_refines_stream [of r OTA_V2_HEADER_SIZE] loop(1) by (simp_all add: OTA_V2_HEADER_SIZE_def)
    have "\<not> is_region_error res'" using loop(5) ne by (auto simp: is_region_error_def)
    have run': "chunk_loop pf region ks s (div_ceil_u32 s ENC_CHUNK_SIZE)
        (map of_nat [length ([] :: (u8 list \<times> u8 list) list)..<chunk_count s]) (initial_body r' f) = (res', b')"
      using loop(3) by (simp add: chunk_indices_eq)
    have start: "stream_of r' = wire_of [] @ stream_of (reader (initial_body r' f))"
      by (simp add: wire_of_def initial_body_def)
    from chunk_loop_outcome [OF laws body_inv_initial start run' \<open>\<not> is_region_error res'\<close>] obtain cs rest where
      cs: "authentic_chunks pf ks s cs" "stream_of r' = wire_of cs @ rest"
        "content region (flash b') = image_of pf ks cs @ drop (length (image_of pf ks cs)) (content region f)"
        "is_ok res' \<longrightarrow> length cs = chunk_count s \<and> body_inv pf content region ks s (content region f) cs b'"
      by blast
    show thesis
    proof (rule that [OF cs(1)])
      fix x assume "res = Inr x"
      with loop(5) have "is_ok res'" "digest x = sha256 pf (hashed b')" by auto
      with cs(4) show "length cs = chunk_count s \<and> prefix_ok (image_of pf ks cs) \<and>
          digest x = sha256 pf (image_of pf ks cs)"
        by (simp add: body_inv_def Let_def)
    qed (use cs(2,3) loop(2,4) header in auto)
  qed
qed

lemma process_encrypted_body_outcome:
  assumes laws: "write_law pf content" "aes_law pf"
    and run: "process_encrypted_body pf region ks s r f = (res, f')" and ne: "\<not> is_region_error res"
  obtains cs where "authentic_chunks pf ks s cs"
    "content region f' = image_of pf ks cs @ drop (length (image_of pf ks cs)) (content region f)"
    "\<And>x. res = Inr x \<Longrightarrow> length (image_of pf ks cs) = unat s \<and> prefix_ok (image_of pf ks cs) \<and>
       digest x = sha256 pf (image_of pf ks cs)"
  using process_encrypted_body_stream [OF assms] complete_image_length [OF laws(2)] by metis

text \<open>The ways one round of the redirect loop can go.\<close>

abbreviation request_tls :: "tls_secrets \<Rightarrow> string \<Rightarrow> TlsVerify option" where
  "request_tls secrets u \<equiv> (if is_https u then Some (ota_tls_verify_for_url secrets u) else None)"

definition redirect_allowed :: "string \<Rightarrow> bool" where
  "redirect_allowed u \<longleftrightarrow> is_https u \<and> is_ok (validate_ota_url_policy u)"

lemma fetch_loop_cases:
  assumes run: "fetch_loop pf secrets net m region ks u n f = (res, f', log)"
  obtains (stop) "f' = f" "\<not> is_ok res" "log = [] \<or> log = [(u, request_tls secrets u)]"
    | (final) r where "process_encrypted_body pf region ks (om_image_size m) (body r) f = (res, f')"
        "validate_response_metadata r (unat (om_download_size m)) = Inr ()"
        "log = [(u, request_tls secrets u)]"
    | (redirect) next_url log' where "n < MAX_REDIRECTS" "redirect_allowed next_url"
        "fetch_loop pf secrets net m region ks next_url (n + 1) f = (res, f', log')"
        "log = (u, request_tls secrets u) # log'"
proof -
  note step = run [unfolded fetch_loop.simps [of pf secrets net m region ks u n f]]
  show thesis
  proof (cases "if is_https u then acquire_ota_tls_workspace (tls_free net n) else Inr ()")
    case (Inl e)
    with step show ?thesis by (intro stop) auto
  next
    case (Inr v)
    note step = step [unfolded Inr Let_def sum.case]
    show ?thesis
    proof (cases "http_get net n u (request_tls secrets u)")
      case (Inl e)
      with step show ?thesis by (intro stop) auto
    next
      case (Inr r)
      note step = step [unfolded Inr sum.case]
      show ?thesis
      proof (cases "is_redirection r")
        case False
        with step show ?thesis by (auto split: sum.splits prod.splits intro: stop final)
      next
        case True
        note step = step [unfolded if_P [OF True]]
        show ?thesis
        proof (cases "redirect_location r")
          case (Inl e)
          with step show ?thesis by (intro stop) auto
        next
          case (Inr next_url)
          note step = step [unfolded Inr sum.case]
          show ?thesis
          proof (cases "MAX_REDIRECTS \<le> n \<or> \<not> redirect_allowed next_url")
            case True
            with step show ?thesis by (intro stop) (auto simp: redirect_allowed_def split: if_splits)
          next
            case False
            obtain res1 f1 log1 where rec: "fetch_loop pf secrets net m region ks next_url (n + 1) f = (res1, f1, log1)"
              by (cases "fetch_loop pf secrets net m region ks next_url (n + 1) f")
            with False step have "res1 = res" "f1 = f'" "log = (u, request_tls secrets u) # log1"
              by (auto simp: redirect_allowed_def)
            with rec False show ?thesis by (intro redirect [of next_url log1]) auto
          qed
        qed
      qed
    qed
  qed
qed

text \<open>The redirect loop ends in one body, or in an error before any.\<close>

lemma fetch_loop_outcome:
  "fetch_loop pf secrets net m region ks u n f = (res, f', log) \<Longrightarrow>
    f' = f \<and> \<not> is_ok res \<or>
    (\<exists>r. process_encrypted_body pf region ks (om_image_size m) r f = (res, f'))"
proof (induction "MAX_REDIRECTS - n" arbitrary: n u log rule: less_induct)
  case less
  from less.prems show ?case
  proof (cases rule: fetch_loop_cases)
    case (redirect next_url log')
    show ?thesis by (rule less.hyps [OF _ redirect(3)]) (use redirect(1) in simp)
  qed blast+
qed

lemma strip_prefix_take: "strip_prefix p s \<noteq> None \<longleftrightarrow> take (length p) s = p"
  by (simp add: strip_prefix_def)

lemma https_prefix: "is_https u \<longleftrightarrow> take 8 u = ''https://''"
  unfolding is_https_def strip_prefix_take by (simp add: numeral_eq_Suc)

lemma request_tls_eq:
  "request_tls secrets u =
     (if take 8 u \<noteq> ''https://'' then None
      else if OTA_TLS_ALLOW_INVALID_CA secrets then Some VerifyNone
      else if take 19 u = ''https://github.com/'' then Some (VerifyCertificate (OTA_TLS_CA_CERT_DER secrets))
      else Some (VerifyCertificate (OTA_ASSET_TLS_CA_CERT_DER secrets)))"
  unfolding https_prefix ota_tls_verify_for_url_def strip_prefix_take by (simp add: numeral_eq_Suc)

lemma fetch_loop_log:
  "fetch_loop pf secrets net m region ks u n f = (res, f', log) \<Longrightarrow>
    length log \<le> Suc (MAX_REDIRECTS - n) \<and>
    list_all (\<lambda>(u, tls). tls = request_tls secrets u) log \<and>
    (log \<noteq> [] \<longrightarrow> fst (hd log) = u) \<and> list_all (\<lambda>(u, _). redirect_allowed u) (tl log)"
proof (induction "MAX_REDIRECTS - n" arbitrary: n u log rule: less_induct)
  case less
  from less.prems show ?case
  proof (cases rule: fetch_loop_cases)
    case (redirect next_url log')
    have *: "length log' \<le> Suc (MAX_REDIRECTS - (n + 1)) \<and>
        list_all (\<lambda>(u, tls). tls = request_tls secrets u) log' \<and>
        (log' \<noteq> [] \<longrightarrow> fst (hd log') = next_url) \<and> list_all (\<lambda>(u, _). redirect_allowed u) (tl log')"
      by (rule less.hyps [OF _ redirect(3)]) (use redirect(1) in simp)
    then have "list_all (\<lambda>(u, _). redirect_allowed u) log'"
      using redirect(2) by (cases log') auto
    with * redirect(1,4) show ?thesis by auto
  qed auto
qed

section \<open>Hexadecimal digests\<close>

lemma HEX_nibble:
  "k < 16 \<Longrightarrow> hex_nibble_runtime (HEX ! k) = Inr (of_nat k)"
proof -
  have "list_all (\<lambda>k. hex_nibble_runtime (HEX ! k) = Inr (of_nat k)) [0..<16]"
    by (simp add: upt_rec HEX_def hex_nibble_runtime_def char_code_def)
  then show "k < 16 \<Longrightarrow> ?thesis" by (simp add: list_all_iff)
qed

lemma byte_nibbles: "push_bit 4 (drop_bit 4 b) OR (b AND 0xF) = (b :: u8)"
proof -
  have m: "b AND 0xF = take_bit 4 b" by (simp add: take_bit_eq_mask mask_eq_exp_minus_1)
  show ?thesis unfolding m by (rule bit_word_eqI) (auto simp: bit_simps)
qed

lemma nibble_bounds: "unat (drop_bit 4 (b :: u8)) < 16" "unat (b AND 0xF) < 16"
proof -
  have "unat (drop_bit 4 b) = unat b div 16"
    by (subst unat_drop_bit_eq) (simp add: drop_bit_eq_div)
  then show "unat (drop_bit 4 b) < 16" using unsigned_less [where w = b and 'a = nat] by simp
  have "b AND 0xF < 16" by (rule le_less_trans [OF word_and_le1]) simp
  then show "unat (b AND 0xF) < 16" by (simp add: word_less_nat_alt)
qed

lemma hex_pairs_sha256_hex: "hex_pairs (sha256_hex d) = Inr d"
proof (induction d)
  case (Cons b d)
  then show ?case by (simp add: sha256_hex_def HEX_nibble nibble_bounds byte_nibbles)
qed (simp add: sha256_hex_def)

lemma length_sha256_hex [simp]: "length (sha256_hex d) = 2 * length d"
  by (induction d) (simp_all add: sha256_hex_def)

lemma hex_nibble_lowercase: "hex_nibble_runtime (to_ascii_lowercase c) = hex_nibble_runtime c"
proof -
  have code: "char_code (char_of (n :: nat)) = n mod 256" for n by (simp add: char_code_def)
  show ?thesis
    by (auto simp: to_ascii_lowercase_def hex_nibble_runtime_def Let_def code)
qed

lemma hex_pairs_ignore_case: "eq_ignore_ascii_case a b \<Longrightarrow> hex_pairs a = hex_pairs b"
proof -
  have low: "hex_pairs (map to_ascii_lowercase s) = hex_pairs s" for s
    by (induction s rule: hex_pairs.induct) (simp_all add: hex_nibble_lowercase)
  assume "eq_ignore_ascii_case a b"
  then show ?thesis unfolding eq_ignore_ascii_case_def using low by metis
qed

lemma eq_ignore_case_length: "eq_ignore_ascii_case a b \<Longrightarrow> length a = length b"
  by (metis eq_ignore_ascii_case_def length_map)

section \<open>The update as a whole\<close>

text \<open>The flash states one reaches by operations on one region only.\<close>

inductive region_steps :: "('f, 'p) platform \<Rightarrow> 'p \<Rightarrow> 'f \<Rightarrow> 'f \<Rightarrow> bool" for pf region f where
  region_refl: "region_steps pf region f f"
| region_written: "region_steps pf region f g \<Longrightarrow> region_steps pf region f (snd (region_write pf region off bs g))"
| region_erased: "region_steps pf region f g \<Longrightarrow> region_steps pf region f (snd (region_erase pf region off n g))"

lemma prepare_inactive_slot_steps:
  "prepare_inactive_slot pf region s f = (res, f') \<Longrightarrow> region_steps pf region f f'"
proof -
  assume run: "prepare_inactive_slot pf region s f = (res, f')"
  define al where "al = div_ceil_u32 s FLASH_SECTOR_SIZE * FLASH_SECTOR_SIZE"
  have "f' = f \<or> f' = snd (region_erase pf region 0 al f)"
    using run unfolding prepare_inactive_slot_def Let_def al_def
    by (cases "region_erase pf region 0 (div_ceil_u32 s FLASH_SECTOR_SIZE * FLASH_SECTOR_SIZE) f") (auto split: if_splits)
  then show ?thesis using region_erased [OF region_refl] region_refl by metis
qed

lemma fetch_steps:
  assumes "fetch_and_process_encrypted pf secrets net m region ks f = (res, f', log)" "region_steps pf region f0 f"
  shows "region_steps pf region f0 f'"
proof -
  have "f' = f \<or> (\<exists>r. process_encrypted_body pf region ks (om_image_size m) r f = (res, f'))"
    using assms(1) by (auto simp: fetch_and_process_encrypted_def split: if_splits dest: fetch_loop_outcome)
  then show ?thesis
    using assms(2) process_encrypted_body_keeps [where P = "region_steps pf region f0" and region = region and pf = pf]
      region_written by metis
qed

lemma verify_and_activate_cases:
  assumes run: "verify_and_activate pf m x f = (res, f')"
  obtains (kept) "\<not> is_ok res" "f' = f"
    | (activated) g where "post_verify x m = Inr ()"
      "g = snd (updater_activate_next_partition (boot pf) f)"
      "f' = g \<or> f' = snd (set_current_ota_state (boot pf) New g)"
proof (cases "post_verify x m")
  case (Inl e)
  with run have "res = Inl e" "f' = f" by (simp_all add: verify_and_activate_def)
  then show thesis by (intro kept) simp_all
next
  case post: (Inr u)
  show thesis
  proof (cases "inactive_partition (boot pf) f")
    case (Inl e)
    with run post show thesis by (intro kept) (auto simp: verify_and_activate_def)
  next
    case region: (Inr region)
    show thesis
    proof (cases "verify_flash_readback pf region x f")
      case (Inl e)
      with run post region have "res = Inl e" "f' = f" by (simp_all add: verify_and_activate_def)
      then show thesis by (intro kept) simp_all
    next
      case (Inr v)
      obtain r g where act: "updater_activate_next_partition (boot pf) f = (r, g)"
        by (cases "updater_activate_next_partition (boot pf) f")
      with run post region Inr have "f' = g \<or> f' = snd (set_current_ota_state (boot pf) New g)"
        by (cases r) (auto simp: verify_and_activate_def partition_errors_def activate_next_partition_def
            mark_current_app_new_def)
      with post act show thesis by (intro activated [of g]) auto
    qed
  qed
qed

lemma download_cases:
  assumes run: "download_and_write_to_flash pf secrets net to_string m master_key f = (res, f')"
  obtains (unactivated) "\<not> is_ok res"
      "f' = f \<or> (\<exists>region. updater_next_partition (boot pf) f = Inr region \<and> region_steps pf region f f')"
    | (activated) ks region r x f1 f2 g where
      "stream_keys_of (sha256 pf) to_string master_key m = Inr ks"
      "updater_next_partition (boot pf) f = Inr region"
      "prepare_inactive_slot pf region (om_image_size m) f = (Inr (), f1)"
      "process_encrypted_body pf region ks (om_image_size m) r f1 = (Inr x, f2)"
      "region_steps pf region f f2"
      "post_verify x m = Inr ()"
      "g = snd (updater_activate_next_partition (boot pf) f2)"
      "f' = g \<or> f' = snd (set_current_ota_state (boot pf) New g)"
proof (cases "stream_keys_of (sha256 pf) to_string master_key m")
  case (Inl e)
  with run show thesis by (intro unactivated) (auto simp: download_and_write_to_flash_def)
next
  case keys: (Inr ks)
  show thesis
  proof (cases "updater_new (boot pf) f")
    case (Inl e)
    with run keys show thesis by (intro unactivated) (auto simp: download_and_write_to_flash_def)
  next
    case new: (Inr v)
    show thesis
    proof (cases "updater_next_partition (boot pf) f")
      case (Inl e)
      with run keys new show thesis
        by (intro unactivated) (auto simp: download_and_write_to_flash_def inactive_partition_def)
    next
      case region: (Inr region)
      obtain p f1 where prep: "prepare_inactive_slot pf region (om_image_size m) f = (p, f1)"
        by (cases "prepare_inactive_slot pf region (om_image_size m) f")
      note steps1 = prepare_inactive_slot_steps [OF prep]
      obtain y f2 log where fetch: "fetch_and_process_encrypted pf secrets net m region ks f1 = (y, f2, log)"
        by (cases "fetch_and_process_encrypted pf secrets net m region ks f1")
      note steps2 = fetch_steps [OF fetch steps1]
      note run = run [unfolded download_and_write_to_flash_def keys new region prep inactive_partition_def
          result_map_err_simps st_bind_simps]
      show thesis
      proof (cases p)
        case (Inl e)
        with run steps1 region show thesis by (intro unactivated) auto
      next
        case prep_ok: (Inr u)
        show thesis
        proof (cases y)
          case (Inl e)
          with run prep_ok fetch steps2 region show thesis
            by (intro unactivated) (auto simp: without_log_def)
        next
          case (Inr x)
          have va: "verify_and_activate pf m x f2 = (res, f')"
            using run prep_ok fetch Inr by (simp add: without_log_def)
          obtain r where body: "process_encrypted_body pf region ks (om_image_size m) r f1 = (Inr x, f2)"
            using fetch Inr
            by (auto simp: fetch_and_process_encrypted_def split: if_splits dest!: fetch_loop_outcome)
          from va show thesis
          proof (cases rule: verify_and_activate_cases)
            case kept
            with steps2 region show thesis by (intro unactivated) auto
          next
            case (activated g)
            show thesis
              by (rule that(2) [OF keys region _ body steps2 activated]) (use prep prep_ok in simp)
          qed
        qed
      qed
    qed
  qed
qed


lemma region_steps_frame:
  assumes "region_steps pf region f f'" "frame_law pf content" "q \<noteq> region"
  shows "content q f' = content q f"
  using assms by (induction rule: region_steps.induct) (auto simp: frame_law_def)

lemma region_steps_boot:
  assumes "region_steps pf region f f'" "boot_law pf"
  shows "updater_selected_partition (boot pf) f' = updater_selected_partition (boot pf) f"
  using assms by (induction rule: region_steps.induct) (auto simp: boot_law_def)

lemma prepare_inactive_slot_size:
  assumes "prepare_inactive_slot pf region s f = (Inr u, f')" "size_law pf content" "erase_law pf content"
  shows "unat s + 4096 \<le> length (content region f) \<or> unat s = 0" "length (content region f') = length (content region f)"
proof -
  let ?size = "of_nat (partition_size pf region f) :: u32"
  from assms(1) have fits: "s \<le> saturating_sub_u32 ?size FLASH_SECTOR_SIZE"
    and er: "\<exists>n. region_erase pf region 0 n f = (Inr (), f')"
    by (auto simp: prepare_inactive_slot_def Let_def split: if_splits prod.splits)
  have "unat ?size \<le> length (content region f)"
    using assms(2) by (simp add: size_law_def unat_of_nat)
  moreover have "unat s + 4096 \<le> unat ?size \<or> unat s = 0"
    using fits by (auto simp: saturating_sub_u32_def FLASH_SECTOR_SIZE_def word_le_nat_alt unat_sub split: if_splits)
  ultimately show "unat s + 4096 \<le> length (content region f) \<or> unat s = 0" by linarith
  show "length (content region f') = length (content region f)"
    using er assms(3) by (auto simp: erase_law_def)
qed

lemma post_verify_digest:
  assumes "post_verify x m = Inr ()" "length (digest x) = 32"
  shows "result_total_plaintext x = om_image_size m" "hex_into (om_image_sha256 m) 32 = Inr (digest x)"
proof -
  from assms(1) have eq: "eq_ignore_ascii_case (sha256_hex (digest x)) (om_image_sha256 m)"
    and "result_total_plaintext x = om_image_size m"
    by (auto simp: post_verify_def Let_def split: if_splits)
  then show "result_total_plaintext x = om_image_size m" by simp
  show "hex_into (om_image_sha256 m) 32 = Inr (digest x)"
    using eq_ignore_case_length [OF eq] assms(2) hex_pairs_ignore_case [OF eq]
    by (simp add: hex_into_def hex_pairs_sha256_hex)
qed

text \<open>
  What an image in a slot must be: of the size and with the digest in the manifest, put together
  from chunks whose tags verify under the key derived from the master key and the digest of the
  signed manifest, with a plausible header, and leaving the last sector of the slot alone.
\<close>

definition holds_image ::
  "('f, 'p) platform \<Rightarrow> ('p \<Rightarrow> 'f \<Rightarrow> u8 list) \<Rightarrow> (string \<Rightarrow> string option) \<Rightarrow> OtaManifest \<Rightarrow> u8 list \<Rightarrow>
   'p \<Rightarrow> 'f \<Rightarrow> bool" where
  "holds_image pf content to_string m master_key region f \<longleftrightarrow>
     (\<exists>ks cs. stream_keys_of (sha256 pf) to_string master_key m = Inr ks \<and>
        authentic_chunks pf ks (om_image_size m) cs \<and>
        (let image = image_of pf ks cs
         in length image = unat (om_image_size m) \<and>
            take (length image) (content region f) = image \<and>
            hex_into (om_image_sha256 m) 32 = Inr (sha256 pf image) \<and>
            prefix_ok image \<and> (image = [] \<or> length image + 4096 \<le> length (content region f))))"

lemma download_activates_image:
  assumes "platform_laws pf content"
    and "download_and_write_to_flash pf secrets net to_string m master_key f = (res, f')"
    and "is_ok res \<or> updater_selected_partition (boot pf) f' \<noteq> updater_selected_partition (boot pf) f"
  shows "\<exists>region. updater_next_partition (boot pf) f = Inr region \<and>
    holds_image pf content to_string m master_key region f'"
proof -
  note laws = assms(1) [unfolded platform_laws_def]
  from assms(2) show ?thesis
  proof (cases rule: download_cases)
    case unactivated
    then have "updater_selected_partition (boot pf) f' = updater_selected_partition (boot pf) f"
      using region_steps_boot laws by metis
    with unactivated(1) assms(3) show ?thesis by simp
  next
    case (activated ks region r x f1 f2 g)
    have same: "content region f' = content region f2"
      using activated(7,8) laws by (auto simp: frame_law_def)
    have "\<not> is_region_error (Inr x)" by (simp add: is_region_error_def)
    with activated(4) laws obtain cs where cs: "authentic_chunks pf ks (om_image_size m) cs"
      "content region f2 = image_of pf ks cs @ drop (length (image_of pf ks cs)) (content region f1)"
      "length (image_of pf ks cs) = unat (om_image_size m) \<and> prefix_ok (image_of pf ks cs) \<and>
         digest x = sha256 pf (image_of pf ks cs)"
      using process_encrypted_body_outcome [of pf content region ks "om_image_size m" r f1 "Inr x" f2] by blast
    have "length (digest x) = 32" using cs(3) laws by (simp add: sha_law_def)
    note dig = post_verify_digest(2) [OF activated(6) this]
    have fits: "unat (om_image_size m) + 4096 \<le> length (content region f1) \<or> unat (om_image_size m) = 0"
      using prepare_inactive_slot_size [OF activated(3), of content] laws by simp
    have "image_of pf ks cs = [] \<or> length (image_of pf ks cs) + 4096 \<le> length (content region f2)"
    proof (cases "unat (om_image_size m) = 0")
      case True
      with cs(3) show ?thesis by (metis length_0_conv)
    next
      case False
      with fits cs(2,3) show ?thesis by simp
    qed
    with cs dig activated(1,2) same show ?thesis
      by (auto simp: holds_image_def Let_def)
  qed
qed

text \<open>
  C2: An update takes effect only with the signed image in place. Whenever the update reports
  success, or has merely changed which slot the bootloader selects, the slot it wrote holds an
  image of the size and SHA-256 that the manifest states, assembled from chunks that all carried
  valid tags for their position, with a plausible header, and ending at least one sector before
  the slot does.
\<close>
theorem activated_slot_holds_signed_image:
  assumes "platform_laws pf content"
    and "download_and_write_to_flash pf secrets net to_string m master_key f = (res, f')"
    and "is_ok res \<or> updater_selected_partition (boot pf) f' \<noteq> updater_selected_partition (boot pf) f"
  shows "\<exists>region. updater_next_partition (boot pf) f = Inr region \<and>
    holds_image pf content to_string m master_key region f'"
  using assms by (rule download_activates_image)

text \<open>
  C6: An update never damages the running image. Whatever the download does and however it ends,
  every slot other than the inactive one keeps its content byte for byte.
\<close>
theorem update_confined_to_inactive_slot:
  assumes "platform_laws pf content" and "updater_next_partition (boot pf) f \<noteq> Inr q"
  shows "content q (snd (download_and_write_to_flash pf secrets net to_string m master_key f)) = content q f"
proof -
  note laws = assms(1) [unfolded platform_laws_def]
  obtain res f' where run: "download_and_write_to_flash pf secrets net to_string m master_key f = (res, f')"
    by (cases "download_and_write_to_flash pf secrets net to_string m master_key f")
  then have "content q f' = content q f"
  proof (cases rule: download_cases)
    case unactivated
    then show ?thesis using region_steps_frame [of pf] laws assms(2) by metis
  next
    case (activated ks region r x f1 f2 g)
    have "content q f' = content q f2" using activated(7,8) laws by (auto simp: frame_law_def)
    also have "\<dots> = content q f"
      using region_steps_frame [OF activated(5)] activated(2) assms(2) laws by auto
    finally show ?thesis .
  qed
  with run show ?thesis by simp
qed


section \<open>A concrete flash\<close>

text \<open>Two slots and the flag that names the selected one; hash and cipher are simple stand-ins.\<close>

type_synonym sample_flash = "u8 list \<times> u8 list \<times> bool"

fun sample_content :: "bool \<Rightarrow> sample_flash \<Rightarrow> u8 list" where
  "sample_content p (a, b, sel) = (if p then b else a)"

fun sample_put :: "bool \<Rightarrow> u8 list \<Rightarrow> sample_flash \<Rightarrow> sample_flash" where
  "sample_put p c (a, b, sel) = (if p then (a, c, sel) else (c, b, sel))"

fun sample_selected :: "sample_flash \<Rightarrow> bool" where
  "sample_selected (a, b, sel) = sel"

definition sample_boot :: "(sample_flash, bool) updater" where
  "sample_boot = \<lparr>updater_new = (\<lambda>f. Inr ()), current_ota_state = (\<lambda>f. Inr Valid),
     updater_selected_partition = (\<lambda>f. Inr (sample_selected f)),
     updater_next_partition = (\<lambda>f. Inr (\<not> sample_selected f)),
     updater_activate_next_partition = (\<lambda>(a, b, sel). (Inr (), (a, b, \<not> sel))),
     set_current_ota_state = (\<lambda>st f. (Inr (), f))\<rparr>"

definition sample_platform :: "(sample_flash, bool) platform" where
  "sample_platform = \<lparr>sha256 = (\<lambda>_. replicate 32 0), aes_ctr = (\<lambda>k n d. d), boot = sample_boot,
     partition_size = (\<lambda>p f. length (sample_content p f)),
     region_erase = (\<lambda>p off n f. (Inr (), f)),
     region_write = (\<lambda>p off bs f.
       if unat off + length bs \<le> length (sample_content p f)
       then (Inr (), sample_put p (splice (sample_content p f) (unat off) bs) f) else (Inl undefined, f)),
     region_read = (\<lambda>p off n f. Inr (take n (drop (unat off) (sample_content p f))))\<rparr>"

definition sample_image :: "u8 list" where
  "sample_image = [0xE9, 1, 0, 0, 1, 0, 0, 0]"

definition sample_body :: "fill list" where
  "sample_body = [Avail (OTA_HEADER_MAGIC @ [2] @ replicate 7 0), Avail ([0, 0, 0, 8] @ sample_image), Avail (replicate 32 0)]"

definition sample_network :: network where
  "sample_network = \<lparr>tls_free = (\<lambda>_ _. True),
     http_get = (\<lambda>_ _ _. Inr \<lparr>status = 200, resp_headers = [], content_length = Some 60,
       transfer_encoding = [], body = sample_body\<rparr>)\<rparr>"

definition sample_update :: OtaManifest where
  "sample_update = sample_manifest\<lparr>om_url := ''http://10.0.0.2:80/a'', om_image_size := 8,
     om_download_size := 60, om_image_sha256 := replicate 64 CHR ''0''\<rparr>"

definition sample_flash0 :: sample_flash where
  "sample_flash0 = (replicate 8192 1, replicate 8192 2, False)"

definition sample_secrets :: tls_secrets where
  "sample_secrets = \<lparr>OTA_TLS_ALLOW_INVALID_CA = False, OTA_TLS_CA_CERT_DER = [], OTA_ASSET_TLS_CA_CERT_DER = []\<rparr>"

lemma sample_laws: "platform_laws sample_platform sample_content"
proof -
  have put: "sample_content q (sample_put p c f) = (if q = p then c else sample_content q f)" for p q c f
    by (cases f) auto
  have sel: "sample_selected (sample_put p c f) = sample_selected f" for p c f
    by (cases f) auto
  show ?thesis
    unfolding platform_laws_def
    by (intro conjI)
       (auto simp: write_law_def erase_law_def size_law_def frame_law_def boot_law_def aes_law_def sha_law_def
          sample_platform_def sample_boot_def put sel)
qed

lemma sample_keys:
  "stream_keys_of (sha256 sample_platform) Some (replicate 32 7) sample_update =
     Inr \<lparr>nonce_prefix = replicate 12 0, hmac_key = replicate 32 0, aes_key = replicate 32 0,
          manifest_digest = replicate 32 0\<rparr>"
proof -
  have sha: "sha256 sample_platform = (\<lambda>_. replicate 32 0)" by (simp add: sample_platform_def)
  have nonce: "parse_nonce_prefix (replicate 24 CHR ''0'') = Inr (replicate 12 0)" by code_simp
  obtain c where "canonical_unsigned_json Some sample_update = Inr c"
    by (simp add: canonical_unsigned_json_def canonical_enc_json_def json_string_def)
  then show ?thesis
    using nonce by (simp add: stream_keys_of_def sample_update_def sample_manifest_def derive_subkeys_def hkdf_expand_def
        hmac_sha256_raw_eq compute_manifest_digest_def sha256_parts_eq sha)
qed

lemma sample_read:
  "read_exact sample_body 16 = (Inr (OTA_HEADER_MAGIC @ [2] @ replicate 7 0),
     [Avail (0 # 0 # 0 # 8 # sample_image), Avail (replicate 32 0)])"
  "read_exact [Avail (0 # 0 # 0 # 8 # sample_image), Avail (replicate 32 0)] 4 =
     (Inr [0, 0, 0, 8], [Avail sample_image, Avail (replicate 32 0)])"
  "read_exact [Avail sample_image, Avail (replicate 32 0)] 8 = (Inr sample_image, [Avail (replicate 32 0)])"
  "read_exact [Avail (replicate 32 0)] 32 = (Inr (replicate 32 0), [])"
  by code_simp+

abbreviation sample_keys_value :: stream_keys where
  "sample_keys_value \<equiv> \<lparr>nonce_prefix = replicate 12 0, hmac_key = replicate 32 0, aes_key = replicate 32 0,
     manifest_digest = replicate 32 0\<rparr>"

lemma sample_chunk:
  "process_chunk sample_platform True sample_keys_value 8 1 0
     (initial_body [Avail (0 # 0 # 0 # 8 # sample_image), Avail (replicate 32 0)] sample_flash0) =
   (Inr (), \<lparr>reader = [], flash = (replicate 8192 1, sample_image @ replicate 8184 2, False),
      first_bytes = sample_image @ replicate 56 0, first_filled = 8, prefix_validated = True,
      total_plaintext = 8, flash_offset = 8, hashed = sample_image, readback_hashed = sample_image,
      readback_len = 8\<rparr>)"
proof -
  have be: "u32_from_be_bytes (0, 0, 0, 8) = 8" by code_simp
  have len: "expected_len 8 1 0 = 8" by (simp add: expected_len_def)
  have pre: "validate_esp_image_prefix sample_image = Inr ()" by code_simp
  have il: "length sample_image = 8" by (simp add: sample_image_def)
  have tag: "verify_chunk_hmac (sha256 sample_platform) k d i off n ct (replicate 32 0)" for k d i off n ct
    by (simp add: verify_chunk_hmac_def constant_time_eq_iff compute_chunk_hmac_eq sample_platform_def)
  have aes: "aes_ctr_crypt_in_place (aes_ctr sample_platform) k np i ct = Inr ct" for k np i ct
    by (simp add: aes_ctr_crypt_in_place_def sample_platform_def)
  have wr: "region_write sample_platform True 0 sample_image sample_flash0 =
      (Inr (), (replicate 8192 1, sample_image @ replicate 8184 2, False))"
    by (simp add: sample_platform_def sample_flash0_def splice_def il)
  have b: "splice (replicate 64 0) 0 sample_image = sample_image @ replicate 56 0"
    by (simp add: splice_def il)
  show ?thesis
    by (simp add: process_chunk_def read_body_def sample_read be len HMAC_TAG_SIZE_def SHA256_OUTPUT_SIZE_def
        store_chunk_def tag aes initial_body_def check_prefix_def store_plaintext_def wr b pre il
        ESP_IMAGE_PREFIX_LEN_def FLASH_READBACK_LEN_def)
qed

lemma sample_body_run:
  "process_encrypted_body sample_platform True sample_keys_value 8 sample_body sample_flash0 =
     (Inr \<lparr>result_total_plaintext = 8, digest = replicate 32 0, result_readback_len = 8,
        readback_digest = replicate 32 0\<rparr>, (replicate 8192 1, sample_image @ replicate 8184 2, False))"
proof -
  have cnt: "div_ceil_u32 8 ENC_CHUNK_SIZE = 1" by (simp add: div_ceil_u32_def ENC_CHUNK_SIZE_def)
  have hd: "validate_ota_header (OTA_HEADER_MAGIC @ [2] @ replicate 7 0) = Inr ()" by code_simp
  have idx: "chunk_indices 1 = [0]" by (simp add: chunk_indices_def)
  show ?thesis
    unfolding process_encrypted_body_def OTA_V2_HEADER_SIZE_def sample_read prod.case sum.case hd Let_def cnt idx
      chunk_loop.simps sample_chunk st_bind_simps
    by (simp add: sample_platform_def)
qed

lemma sample_download:
  "download_and_write_to_flash sample_platform sample_secrets sample_network Some sample_update (replicate 32 7) sample_flash0 =
     (Inr (), (replicate 8192 1, sample_image @ replicate 8184 2, True))"
proof -
  have cnt: "div_ceil_u32 8 FLASH_SECTOR_SIZE = 1" by (simp add: div_ceil_u32_def FLASH_SECTOR_SIZE_def)
  have url: "\<not> is_https ''http://10.0.0.2:80/a''" by (simp add: is_https_def strip_prefix_def)
  have m: "om_url sample_update = ''http://10.0.0.2:80/a''" "om_download_size sample_update = 60"
    "om_image_size sample_update = 8" "om_image_sha256 sample_update = replicate 64 CHR ''0''"
    by (simp_all add: sample_update_def)
  have fetch: "without_log (fetch_and_process_encrypted sample_platform sample_secrets sample_network sample_update True
       sample_keys_value sample_flash0) =
     (Inr \<lparr>result_total_plaintext = 8, digest = replicate 32 0, result_readback_len = 8,
         readback_digest = replicate 32 0\<rparr>, (replicate 8192 1, sample_image @ replicate 8184 2, False))"
    by (simp add: fetch_and_process_encrypted_def m MAX_REDIRECT_URL_LEN_def fetch_loop.simps [of _ _ _ _ _ _ _ 0] url
        sample_network_def is_redirection_def validate_response_metadata_def sample_body_run without_log_def)
  have hex: "eq_ignore_ascii_case (sha256_hex (replicate 32 0)) (replicate 64 CHR ''0'')" by code_simp
  have prep: "prepare_inactive_slot sample_platform True 8 sample_flash0 = (Inr (), sample_flash0)"
    by (simp add: prepare_inactive_slot_def cnt sample_platform_def sample_flash0_def saturating_sub_u32_def FLASH_SECTOR_SIZE_def)
  have ops: "updater_new (boot sample_platform) f = Inr ()"
      "updater_next_partition (boot sample_platform) f = Inr (\<not> sample_selected f)"
      "set_current_ota_state (boot sample_platform) st f = (Inr (), f)"
      "updater_activate_next_partition (boot sample_platform) (a, b, sel) = (Inr (), (a, b, \<not> sel))"
      "region_read sample_platform p off n f = Inr (take n (drop (unat off) (sample_content p f)))"
      "sha256 sample_platform d = replicate 32 0" for f st a b sel p off n d
    by (simp_all add: sample_platform_def sample_boot_def)
  have sel: "\<not> sample_selected sample_flash0" by (simp add: sample_flash0_def)
  show ?thesis
    by (simp add: download_and_write_to_flash_def sample_keys ops inactive_partition_def sel m prep fetch
        verify_and_activate_def post_verify_def hex verify_flash_readback_def partition_errors_def
        activate_next_partition_def mark_current_app_new_def)
qed


theorem activated_slot_holds_signed_image_witness:
  "\<exists>region. updater_next_partition (boot sample_platform) sample_flash0 = Inr region \<and>
    holds_image sample_platform sample_content Some sample_update (replicate 32 7) region
      (replicate 8192 1, sample_image @ replicate 8184 2, True)"
  by (rule activated_slot_holds_signed_image [OF sample_laws sample_download]) simp

theorem update_confined_to_inactive_slot_witness:
  "sample_content False (snd (download_and_write_to_flash sample_platform sample_secrets sample_network Some
      sample_update (replicate 32 7) sample_flash0)) = sample_content False sample_flash0"
  by (rule update_confined_to_inactive_slot [OF sample_laws])
     (simp add: sample_platform_def sample_boot_def sample_flash0_def)

text \<open>
  C3: Only authenticated plaintext reaches the slot. However the processing of a body ends, unless
  a flash operation itself failed, the slot holds the decryption of chunks, from its start, and
  after them exactly what it held before. The chunks are those received: the bytes of the body are
  a valid header of 16 bytes and then these chunks one after the other, each with its length, its
  ciphertext and a tag that is the HMAC-SHA256 (RFC 2104) of the digest of the manifest, the
  position of the chunk and its ciphertext; and when the body is accepted they are all the chunks
  of the image.
\<close>
theorem only_authentic_plaintext_reaches_flash:
  assumes "platform_laws pf content"
    and "process_encrypted_body pf region ks s r f = (res, f')" "\<not> is_region_error res"
  shows "\<exists>cs. authentic_chunks pf ks s cs \<and>
    content region f' = image_of pf ks cs @ drop (length (image_of pf ks cs)) (content region f) \<and>
    (is_ok res \<or> cs \<noteq> [] \<longrightarrow> (\<exists>header rest. length header = 16 \<and> validate_ota_header header = Inr () \<and>
       stream_of r = header @ wire_of cs @ rest)) \<and>
    (is_ok res \<longrightarrow> length cs = chunk_count s)"
proof -
  have "write_law pf content" "aes_law pf" using assms(1) by (simp_all add: platform_laws_def)
  from this assms(2,3) show ?thesis
  proof (rule process_encrypted_body_stream)
    fix cs
    assume cs: "authentic_chunks pf ks s cs"
      "content region f' = image_of pf ks cs @ drop (length (image_of pf ks cs)) (content region f)"
      and wire: "is_ok res \<or> cs \<noteq> [] \<Longrightarrow> \<exists>header rest. length header = 16 \<and>
        validate_ota_header header = Inr () \<and> stream_of r = header @ wire_of cs @ rest"
      and ok: "\<And>x. res = Inr x \<Longrightarrow> length cs = chunk_count s \<and> prefix_ok (image_of pf ks cs) \<and>
        digest x = sha256 pf (image_of pf ks cs)"
    have "is_ok res \<longrightarrow> length cs = chunk_count s" using ok by (auto simp: is_ok_iff)
    then show ?thesis using cs wire by (intro exI [of _ cs] conjI impI) simp_all
  qed
qed

theorem only_authentic_plaintext_reaches_flash_witness:
  "\<exists>cs. length cs = 1 \<and> authentic_chunks sample_platform sample_keys_value 8 cs \<and>
    sample_image @ replicate 8184 2 = image_of sample_platform sample_keys_value cs @
      drop (length (image_of sample_platform sample_keys_value cs)) (replicate 8192 2) \<and>
    (\<exists>header rest. stream_of sample_body = header @ wire_of cs @ rest)"
proof -
  have one: "chunk_count 8 = 1" by (simp add: chunk_count_def)
  have flash: "sample_content True (replicate 8192 1, sample_image @ replicate 8184 2, False) = sample_image @ replicate 8184 2"
    "sample_content True sample_flash0 = replicate 8192 2"
    by (simp_all add: sample_flash0_def)
  have "\<not> is_region_error (Inr x :: OtaFlashWriteError + 'a)" for x by (simp add: is_region_error_def)
  from only_authentic_plaintext_reaches_flash [OF sample_laws sample_body_run this]
  obtain cs where "authentic_chunks sample_platform sample_keys_value 8 cs" "length cs = 1"
    and "sample_image @ replicate 8184 2 = image_of sample_platform sample_keys_value cs @
      drop (length (image_of sample_platform sample_keys_value cs)) (replicate 8192 2)"
    and "\<exists>header rest. stream_of sample_body = header @ wire_of cs @ rest"
    unfolding flash one is_ok_simps by blast
  then show ?thesis by blast
qed

end
