(* ===== verification/Ota_Tasks.thy ===== *)
theory Ota_Tasks
  imports App_Bus Ota_Update
begin

text \<open>
  The tasks around an update: the guard of the shared TLS buffers (\<open>firmware/src/tls_workspace.rs\<close>),
  the OTA task (\<open>tasks/ota.rs\<close>), which turns a manifest command into a download and a reset, and the
  confirmation task (\<open>tasks/ota_confirm.rs\<close>), which marks a freshly booted image valid once the
  device is healthy. What a task reads from a watch is the sequence of values it observes; waiting
  is an observation that comes later, with its time in seconds.
\<close>

section \<open>The TLS workspace\<close>

definition try_acquire :: "bool \<Rightarrow> unit option \<times> bool" where
  "try_acquire in_use = (if in_use then (None, in_use) else (Some (), True))"

definition release_workspace :: "bool \<Rightarrow> bool" where
  "release_workspace in_use = False"

section \<open>The OTA task\<close>

definition MQTT_STANDDOWN_TIMEOUT_SECS :: nat where [const_defs]: "MQTT_STANDDOWN_TIMEOUT_SECS = 30"

text \<open>
  \<open>wait_until_mqtt_disconnected\<close> on the value the watch holds and the values observed in turn before
  the timeout; \<open>False\<close> is the timeout.
\<close>

fun wait_until_mqtt_disconnected :: "MqttHealth option \<Rightarrow> MqttHealth list \<Rightarrow> bool" where
  "wait_until_mqtt_disconnected current changes =
     (if current = Some Disconnected then True
      else case changes of
        [] \<Rightarrow> False
      | h # changes \<Rightarrow> if h = Disconnected then True else wait_until_mqtt_disconnected (Some h) changes)"

declare wait_until_mqtt_disconnected.simps [simp del]

definition wait_for_mqtt_stand_down :: "MqttHealth option \<Rightarrow> (nat \<times> MqttHealth) list \<Rightarrow> nat \<Rightarrow> bool" where
  "wait_for_mqtt_stand_down current changes timeout_secs =
     wait_until_mqtt_disconnected current (map snd (takeWhile (\<lambda>(t, _). t < timeout_secs) changes))"

text \<open>
  What the task is compiled with and given: the JSON library, the manifest verifier of the build
  (the release key or the development keys), the key the device holds and its network.
\<close>

record ota_config =
  cfg_from_slice :: "u8 list \<Rightarrow> OtaManifest option"
  cfg_to_string :: "string \<Rightarrow> string option"
  ota_manifest_verifier :: signature_verifier
  OTA_ENCRYPTION_KEY_ID :: u32
  OTA_ENCRYPTION_MASTER_KEY :: "u8 list"
  cfg_tls_secrets :: tls_secrets

datatype OtaAttempt =
    ManifestRejected ManifestError | UrlRejected OtaUrlPolicyError | KeyIdRejected
  | StandDownTimeout | WriteFailed OtaFlashWriteError | SoftwareReset

text \<open>
  One round of the loop: the outcome, the states sent through the OTA state watch, and the flash.
  \<open>SoftwareReset\<close> restarts the chip, so nothing follows it.
\<close>

definition ota_task_step ::
  "ota_config \<Rightarrow> ('f, 'p) platform \<Rightarrow> network \<Rightarrow> MqttHealth option \<Rightarrow> (nat \<times> MqttHealth) list \<Rightarrow>
   u8 list \<Rightarrow> 'f \<Rightarrow> OtaAttempt \<times> OtaState list \<times> 'f" where
  "ota_task_step cfg pf net current changes manifest_bytes f =
     (case parse_and_verify (cfg_from_slice cfg) (cfg_to_string cfg) manifest_bytes (ota_manifest_verifier cfg) of
        Inl e \<Rightarrow> (ManifestRejected e, [], f)
      | Inr manifest \<Rightarrow>
          case validate_ota_url_policy (om_url manifest) of
            Inl e \<Rightarrow> (UrlRejected e, [], f)
          | Inr _ \<Rightarrow>
              if enc_key_id (om_enc manifest) \<noteq> OTA_ENCRYPTION_KEY_ID cfg then (KeyIdRejected, [], f)
              else if \<not> wait_for_mqtt_stand_down current changes MQTT_STANDDOWN_TIMEOUT_SECS
              then (StandDownTimeout, [Downloading, Inactive], f)
              else case download_and_write_to_flash pf (cfg_tls_secrets cfg) net (cfg_to_string cfg)
                          manifest (OTA_ENCRYPTION_MASTER_KEY cfg) f of
                     (Inl e, f) \<Rightarrow> (WriteFailed e, [Downloading, Applying, Inactive], f)
                   | (Inr _, f) \<Rightarrow> (SoftwareReset, [Downloading, Applying], f))"

section \<open>The confirmation task\<close>

definition CONFIRMATION_WINDOW_SECS :: nat where
  [const_defs]: "CONFIRMATION_WINDOW_SECS = OTA_CONFIRMATION_DELAY_SECS"

text \<open>
  The loop that waits for health. Time is in seconds since \<open>boot_at\<close>; \<open>health\<close> is what the watch
  holds and \<open>sends\<close> the values sent to it later, with their times. \<open>watch_until\<close> lets time pass until
  \<open>t\<close>. \<open>None\<close> is a loop that waits for ever. The result is the time at which the gate is passed.
\<close>

fun watch_until :: "nat \<Rightarrow> MqttHealth option \<Rightarrow> (nat \<times> MqttHealth) list \<Rightarrow>
    MqttHealth option \<times> (nat \<times> MqttHealth) list" where
  "watch_until t health [] = (health, [])"
| "watch_until t health ((s, h) # sends) = (if s \<le> t then watch_until t (Some h) sends else (health, (s, h) # sends))"

definition confirm_elapsed :: "nat \<Rightarrow> nat" where
  "confirm_elapsed t = (if t \<le> u32_max then t else u32_max)"

lemma watch_until_length: "length (snd (watch_until t health sends)) \<le> length sends"
  by (induction t health sends rule: watch_until.induct) (auto intro: le_SucI)

function confirm_loop :: "nat \<Rightarrow> MqttHealth option \<Rightarrow> (nat \<times> MqttHealth) list \<Rightarrow> nat option" where
  "confirm_loop t health sends =
     (let health' = (case health of Some h \<Rightarrow> h | None \<Rightarrow> Disconnected)
      in if health' = HeartbeatPublished
         then let elapsed = confirm_elapsed t
              in if CONFIRMATION_WINDOW_SECS \<le> elapsed then Some t
                 else let remaining = max (CONFIRMATION_WINDOW_SECS - elapsed) 1;
                          (health, sends) = watch_until (t + remaining) health sends
                      in confirm_loop (t + remaining) health sends
         else case sends of
                [] \<Rightarrow> None
              | (s, h) # later \<Rightarrow>
                  let (health, later) = watch_until (max t s) (Some h) later
                  in confirm_loop (max t s) health later)"
  by pat_completeness auto
termination
proof (relation "measure (\<lambda>(t, _, sends). length sends + (30 - t))", goal_cases)
  case 1
  then show ?case by simp
next
  case (2 t health sends health' elapsed remaining p health2 sends2)
  have "t < 30"
    using 2(4) unfolding 2(3) by (auto simp: confirm_elapsed_def const_defs u32_max_def split: if_splits)
  moreover have "length sends2 \<le> length sends" using watch_until_length [of "t + remaining" health sends] 2(6,7) by (metis snd_conv)
  moreover have "0 < remaining" using 2(5) by simp
  ultimately show ?case by simp
next
  case (3 t health sends health' a list s h p health2 later)
  have "watch_until (max t s) (Some h) list = (health2, later)" using 3 by metis
  then have "length later \<le> length list" using watch_until_length [of "max t s" "Some h" list] by simp
  moreover have "length sends = Suc (length list)" using 3 by simp
  ultimately show ?case by simp
qed

declare confirm_loop.simps [simp del]

text \<open>
  The task: the flash when it starts and the flash at the time the gate is passed; it returns the
  states it sends, the commands it sends to MQTT and, when it writes, the flash afterwards.
\<close>

definition boot_metadata_pending :: "('f, 'p) updater \<Rightarrow> 'f \<Rightarrow> bool" where
  "boot_metadata_pending u f =
     (case updater_new u f of
        Inr _ \<Rightarrow> (case current_app_pending_confirmation u f of Inr pending \<Rightarrow> pending | Inl _ \<Rightarrow> False)
      | Inl _ \<Rightarrow> False)"

definition ota_confirm_task ::
  "('f, 'p) updater \<Rightarrow> 'f \<Rightarrow> (nat \<Rightarrow> 'f) \<Rightarrow> MqttHealth option \<Rightarrow> (nat \<times> MqttHealth) list \<Rightarrow>
   OtaState list \<times> AppCommand list \<times> 'f option" where
  "ota_confirm_task u f flash_at health sends =
     (if \<not> boot_metadata_pending u f then ([PendingConfirmation, Inactive], [], None)
      else case confirm_loop 0 health sends of
        None \<Rightarrow> ([PendingConfirmation], [], None)
      | Some t \<Rightarrow>
          case updater_new u (flash_at t) of
            Inl _ \<Rightarrow> ([PendingConfirmation], [], None)
          | Inr _ \<Rightarrow>
              case mark_current_app_valid u (flash_at t) of
                (Inl _, f') \<Rightarrow> ([PendingConfirmation], [], Some f')
              | (Inr _, f') \<Rightarrow> ([PendingConfirmation, Inactive], [OtaConfirmed], Some f'))"

section \<open>The guard\<close>

text \<open>The flag and the number of live guards, over any interleaving of the tasks that use them.\<close>

inductive workspace_reachable :: "bool \<Rightarrow> nat \<Rightarrow> bool" where
  init: "workspace_reachable False 0"
| acquired: "workspace_reachable b n \<Longrightarrow> try_acquire b = (Some (), b') \<Longrightarrow> workspace_reachable b' (Suc n)"
| refused: "workspace_reachable b n \<Longrightarrow> try_acquire b = (None, b') \<Longrightarrow> workspace_reachable b' n"
| dropped: "workspace_reachable b (Suc n) \<Longrightarrow> workspace_reachable (release_workspace b) n"

lemma workspace_exclusive: "workspace_reachable b n \<Longrightarrow> n = (if b then 1 else 0)"
  by (induction rule: workspace_reachable.induct)
     (auto simp: try_acquire_def release_workspace_def split: if_splits)

section \<open>Stand-down\<close>

lemma stand_down_iff:
  "wait_until_mqtt_disconnected current changes \<longleftrightarrow> current = Some Disconnected \<or> Disconnected \<in> set changes"
proof (induction changes arbitrary: current)
  case Nil
  then show ?case by (simp add: wait_until_mqtt_disconnected.simps)
next
  case (Cons h changes)
  show ?case
    by (subst wait_until_mqtt_disconnected.simps) (auto simp: Cons.IH)
qed

section \<open>The confirmation loop\<close>

lemma watch_until_trans:
  "t1 \<le> t2 \<Longrightarrow> watch_until t1 health sends = (h1, s1) \<Longrightarrow> watch_until t2 h1 s1 = watch_until t2 health sends"
  by (induction t1 health sends rule: watch_until.induct) (auto split: if_splits)

lemma watch_until_fresh:
  "watch_until t health sends = (h1, s1) \<Longrightarrow> watch_until t h1 s1 = (h1, s1)"
  using watch_until_trans by fastforce

definition settles :: "MqttHealth option \<Rightarrow> (nat \<times> MqttHealth) list \<Rightarrow> MqttHealth option" where
  "settles health sends = (if sends = [] then health else Some (snd (last sends)))"

lemma watch_until_settles:
  "watch_until t health sends = (h1, s1) \<Longrightarrow> settles h1 s1 = settles health sends"
  by (induction t health sends rule: watch_until.induct) (auto simp: settles_def split: if_splits)

lemma watch_until_subset:
  "watch_until t health sends = (h1, s1) \<Longrightarrow> set s1 \<subseteq> set sends"
  by (induction t health sends rule: watch_until.induct) (auto split: if_splits)

lemma confirm_loop_safe:
  "confirm_loop t health sends = Some t' \<Longrightarrow> watch_until t health sends = (health, sends) \<Longrightarrow>
   30 \<le> t' \<and> t \<le> t' \<and> fst (watch_until t' health sends) = Some HeartbeatPublished"
proof (induction t health sends rule: confirm_loop.induct)
  case (1 t health sends)
  show ?case
  proof (cases "health = Some HeartbeatPublished")
    case hb: True
    show ?thesis
    proof (cases "CONFIRMATION_WINDOW_SECS \<le> confirm_elapsed t")
      case True
      then have "30 \<le> t" by (simp add: confirm_elapsed_def const_defs u32_max_def split: if_splits)
      moreover have "t' = t" using 1(3) hb True by (subst (asm) confirm_loop.simps) simp
      ultimately show ?thesis using 1(4) hb by simp
    next
      case False
      let ?t = "t + max (CONFIRMATION_WINDOW_SECS - confirm_elapsed t) 1"
      obtain h1 s1 where w: "watch_until ?t health sends = (h1, s1)" by fastforce
      have "confirm_loop ?t h1 s1 = Some t'"
        using 1(3) hb False w by (subst (asm) confirm_loop.simps) (simp add: Let_def)
      with 1(1) [OF refl _ refl False refl w [symmetric]] hb watch_until_fresh [OF w]
      have IH: "30 \<le> t'" "?t \<le> t'" "fst (watch_until t' h1 s1) = Some HeartbeatPublished" by auto
      then show ?thesis using watch_until_trans [OF IH(2) w] by auto
    qed
  next
    case False
    then have nb: "(case health of Some h \<Rightarrow> h | None \<Rightarrow> Disconnected) \<noteq> HeartbeatPublished"
      by (cases health) auto
    then obtain s h later where sends: "sends = (s, h) # later"
      using 1(3) by (subst (asm) confirm_loop.simps) (auto split: list.splits)
    obtain h1 s1 where w: "watch_until (max t s) (Some h) later = (h1, s1)" by fastforce
    have "confirm_loop (max t s) h1 s1 = Some t'"
      using 1(3) nb w by (subst (asm) confirm_loop.simps) (simp add: sends Let_def)
    with 1(2) [OF refl nb sends refl w [symmetric]] watch_until_fresh [OF w]
    have IH: "30 \<le> t'" "max t s \<le> t'" "fst (watch_until t' h1 s1) = Some HeartbeatPublished" by auto
    then show ?thesis using watch_until_trans [OF IH(2) w] by (auto simp: sends)
  qed
qed

lemma confirm_loop_live:
  "settles health sends = Some HeartbeatPublished \<Longrightarrow> \<forall>(s, h) \<in> set sends. s \<le> T \<Longrightarrow> t \<le> max T 30 \<Longrightarrow>
   \<exists>t'. confirm_loop t health sends = Some t' \<and> t' \<le> max T 30"
proof (induction t health sends rule: confirm_loop.induct)
  case (1 t health sends)
  show ?case
  proof (cases "health = Some HeartbeatPublished")
    case hb: True
    show ?thesis
    proof (cases "CONFIRMATION_WINDOW_SECS \<le> confirm_elapsed t")
      case True
      then show ?thesis using 1(5) hb by (subst confirm_loop.simps) simp
    next
      case False
      then have t: "t + max (CONFIRMATION_WINDOW_SECS - confirm_elapsed t) 1 = 30"
        by (auto simp: confirm_elapsed_def const_defs u32_max_def split: if_splits)
      let ?t = "t + max (CONFIRMATION_WINDOW_SECS - confirm_elapsed t) 1"
      obtain h1 s1 where w: "watch_until ?t health sends = (h1, s1)" by fastforce
      have "confirm_loop t health sends = confirm_loop ?t h1 s1"
        using hb False w by (subst confirm_loop.simps) (simp add: Let_def)
      moreover have "\<exists>t'. confirm_loop ?t h1 s1 = Some t' \<and> t' \<le> max T 30"
        using 1(1) [OF refl _ refl False refl w [symmetric]] hb watch_until_settles [OF w]
          watch_until_subset [OF w] 1(3,4) t by fastforce
      ultimately show ?thesis by simp
    qed
  next
    case False
    then have nb: "(case health of Some h \<Rightarrow> h | None \<Rightarrow> Disconnected) \<noteq> HeartbeatPublished"
      by (cases health) auto
    obtain s h later where sends: "sends = (s, h) # later"
      using 1(3) False by (cases sends) (auto simp: settles_def)
    obtain h1 s1 where w: "watch_until (max t s) (Some h) later = (h1, s1)" by fastforce
    have "confirm_loop t health sends = confirm_loop (max t s) h1 s1"
      using nb w by (subst confirm_loop.simps) (simp add: sends Let_def)
    moreover have "settles h1 s1 = Some HeartbeatPublished"
      using watch_until_settles [OF w] 1(3) by (auto simp: sends settles_def split: if_splits)
    then have "\<exists>t'. confirm_loop (max t s) h1 s1 = Some t' \<and> t' \<le> max T 30"
      using 1(2) [OF refl nb sends refl w [symmetric]] watch_until_subset [OF w] 1(4,5)
      by (fastforce simp: sends)
    ultimately show ?thesis by simp
  qed
qed

text \<open>
  A finding: the task sends \<open>Inactive\<close> after every failed attempt, without regard to the state it
  started from. A manifest command that arrives while a new image awaits confirmation and then
  fails ends \<open>PendingConfirmation\<close> early, and with it the block on deep sleep.
\<close>

lemma failed_attempt_ends_pending_confirmation:
  assumes "ota_task_step cfg pf net current changes bytes f = (attempt, sends, f')"
    and "attempt \<noteq> SoftwareReset" "sends \<noteq> []"
  shows "last sends = Inactive" "is_ota_sleep_blocked PendingConfirmation" "\<not> is_ota_sleep_blocked (last sends)"
  using assms
  by (auto simp: ota_task_step_def is_ota_sleep_blocked_def split: sum.splits if_splits prod.splits)

section \<open>Properties\<close>

text \<open>
  C1: The OTA task resets only into a signed image. Whenever a round of the task resets the chip,
  or merely leaves another slot selected, the command was a manifest that the build's verifier
  accepts, with an allowed URL and the key this device holds, MQTT had stood down in time, and the
  slot that was inactive holds the image which that manifest describes; and a round that does not
  reset either sent nothing and left the flash alone or ended by sending \<open>Inactive\<close>.
\<close>

theorem ota_task_resets_only_into_signed_image:
  assumes "platform_laws pf content"
    and "ota_task_step cfg pf net current changes bytes f = (attempt, sends, f')"
  shows "(attempt = SoftwareReset \<or> updater_selected_partition (boot pf) f' \<noteq> updater_selected_partition (boot pf) f \<longrightarrow>
      (\<exists>m region. parse_and_verify (cfg_from_slice cfg) (cfg_to_string cfg) bytes (ota_manifest_verifier cfg) = Inr m \<and>
         validate_ota_url_policy (om_url m) = Inr () \<and> enc_key_id (om_enc m) = OTA_ENCRYPTION_KEY_ID cfg \<and>
         (current = Some Disconnected \<or> (\<exists>t < 30. (t, Disconnected) \<in> set changes)) \<and>
         updater_next_partition (boot pf) f = Inr region \<and>
         holds_image pf content (cfg_to_string cfg) m (OTA_ENCRYPTION_MASTER_KEY cfg) region f')) \<and>
    (attempt \<noteq> SoftwareReset \<longrightarrow> sends = [] \<and> f' = f \<or> sends \<noteq> [] \<and> last sends = Inactive)"
proof (intro conjI impI)
  assume "attempt = SoftwareReset \<or> updater_selected_partition (boot pf) f' \<noteq> updater_selected_partition (boot pf) f"
  then obtain m res where m: "parse_and_verify (cfg_from_slice cfg) (cfg_to_string cfg) bytes (ota_manifest_verifier cfg) = Inr m"
      "validate_ota_url_policy (om_url m) = Inr ()" "enc_key_id (om_enc m) = OTA_ENCRYPTION_KEY_ID cfg"
      "wait_for_mqtt_stand_down current changes MQTT_STANDDOWN_TIMEOUT_SECS"
      "download_and_write_to_flash pf (cfg_tls_secrets cfg) net (cfg_to_string cfg) m (OTA_ENCRYPTION_MASTER_KEY cfg) f = (res, f')"
      "is_ok res \<or> updater_selected_partition (boot pf) f' \<noteq> updater_selected_partition (boot pf) f"
    using assms(2) by (auto simp: ota_task_step_def split: sum.splits if_splits prod.splits)
  have "current = Some Disconnected \<or> (\<exists>t < 30. (t, Disconnected) \<in> set changes)"
    using m(4) by (auto simp: wait_for_mqtt_stand_down_def stand_down_iff const_defs dest: set_takeWhileD)
  with m download_activates_image [OF assms(1) m(5,6)]
  show "\<exists>m region. parse_and_verify (cfg_from_slice cfg) (cfg_to_string cfg) bytes (ota_manifest_verifier cfg) = Inr m \<and>
         validate_ota_url_policy (om_url m) = Inr () \<and> enc_key_id (om_enc m) = OTA_ENCRYPTION_KEY_ID cfg \<and>
         (current = Some Disconnected \<or> (\<exists>t < 30. (t, Disconnected) \<in> set changes)) \<and>
         updater_next_partition (boot pf) f = Inr region \<and>
         holds_image pf content (cfg_to_string cfg) m (OTA_ENCRYPTION_MASTER_KEY cfg) region f'"
    by blast
next
  assume "attempt \<noteq> SoftwareReset"
  then show "sends = [] \<and> f' = f \<or> sends \<noteq> [] \<and> last sends = Inactive"
    using assms(2) by (auto simp: ota_task_step_def split: sum.splits if_splits prod.splits)
qed

definition sample_config :: ota_config where
  "sample_config = \<lparr>cfg_from_slice = (\<lambda>_. Some sample_update), cfg_to_string = Some,
     ota_manifest_verifier = (\<lambda>_ _ _. True), OTA_ENCRYPTION_KEY_ID = enc_key_id (om_enc sample_update),
     OTA_ENCRYPTION_MASTER_KEY = replicate 32 7, cfg_tls_secrets = sample_secrets\<rparr>"

lemma sample_step:
  "ota_task_step sample_config sample_platform sample_network (Some HeartbeatPublished) [(3, Disconnected)] [0] sample_flash0 =
     (SoftwareReset, [Downloading, Applying], (replicate 8192 1, sample_image @ replicate 8184 2, True))"
proof -
  have "parse_and_verify (\<lambda>_. Some sample_update) Some [0] (\<lambda>_ _ _. True) = Inr sample_update"
  proof -
    have "validate sample_update = Inr ()" by code_simp
    moreover obtain c where "canonical_unsigned_json Some sample_update = Inr c"
      by (simp add: canonical_unsigned_json_def canonical_enc_json_def json_string_def)
    ultimately show ?thesis by (simp add: parse_and_verify_def parse_def MAX_MANIFEST_BYTES_def)
  qed
  moreover have "validate_ota_url_policy (om_url sample_update) = Inr ()"
  proof -
    have "ipv4_octets [''10'', ''0'', ''0'', ''2'']" "valid_port ''80''"
      by (simp_all add: ipv4_octets_def valid_port_iff is_ascii_digit_def char_code_def decimal_value_def digit_value_def)
    then have "validate_local_http_url ''10.0.0.2:80/a'' = Inr ()"
      unfolding validate_local_http_url_iff
      by (intro exI [of _ "[''10'', ''0'', ''0'', ''2'']"] exI [of _ "''80''"] exI [of _ "''a''"]) simp
    moreover have "strip_prefix ''http://'' ''http://10.0.0.2:80/a'' = Some ''10.0.0.2:80/a''" by (simp add: strip_prefix_def)
    ultimately show ?thesis by (simp add: validate_ota_url_policy_def sample_update_def)
  qed
  ultimately show ?thesis
    by (simp add: ota_task_step_def sample_config_def sample_download wait_for_mqtt_stand_down_def stand_down_iff const_defs)
qed

theorem ota_task_resets_only_into_signed_image_witness:
  "\<exists>region. updater_next_partition (boot sample_platform) sample_flash0 = Inr region \<and>
    holds_image sample_platform sample_content Some sample_update (replicate 32 7) region
      (replicate 8192 1, sample_image @ replicate 8184 2, True)"
  using ota_task_resets_only_into_signed_image [OF sample_laws sample_step]
  by (auto simp: sample_config_def parse_and_verify_def parse_def result_bind_Inr_iff split: if_splits)

text \<open>
  C7: A healthy image is confirmed, and only a healthy one. When a new image awaits confirmation,
  MQTT publishes a heartbeat at some time up to \<open>T\<close> and does not disconnect after that, and the boot
  data can be written, the confirmation task marks the image valid at a time between 30 s and
  \<open>max T 30\<close>, returns the device to \<open>Inactive\<close> and announces it. Conversely the task writes to the
  boot data only when an image awaits confirmation and at a time from 30 s on at which the last
  health signal is a heartbeat, so an image that never gets that far is left to the rollback.
\<close>

theorem healthy_image_is_confirmed:
  assumes "\<forall>(s, h) \<in> set sends. 0 < s \<and> s \<le> T"
    and "\<forall>g. updater_new u g = Inr () \<and> (\<exists>g'. set_current_ota_state u Valid g = (Inr (), g'))"
  shows "(boot_metadata_pending u f \<and> settles health sends = Some HeartbeatPublished \<longrightarrow>
      (\<exists>t f'. 30 \<le> t \<and> t \<le> max T 30 \<and> set_current_ota_state u Valid (flash_at t) = (Inr (), f') \<and>
         ota_confirm_task u f flash_at health sends =
           ([PendingConfirmation, Inactive], [OtaConfirmed], Some f'))) \<and>
    (ota_confirm_task u f flash_at health sends = (states, commands, Some f') \<longrightarrow>
      boot_metadata_pending u f \<and>
      (\<exists>t \<ge> 30. fst (watch_until t health sends) = Some HeartbeatPublished \<and>
         f' = snd (set_current_ota_state u Valid (flash_at t))))"
proof (intro conjI impI)
  have fresh: "watch_until 0 health sends = (health, sends)"
    using assms(1) by (cases sends) auto
  {
    assume pending: "boot_metadata_pending u f \<and> settles health sends = Some HeartbeatPublished"
    then obtain t where t: "confirm_loop 0 health sends = Some t" "t \<le> max T 30"
      using confirm_loop_live [of health sends T 0] assms(1) by auto
    moreover have "30 \<le> t" using confirm_loop_safe [OF t(1) fresh] by simp
    moreover obtain g where "set_current_ota_state u Valid (flash_at t) = (Inr (), g)" using assms(2) by blast
    ultimately show "\<exists>t f'. 30 \<le> t \<and> t \<le> max T 30 \<and> set_current_ota_state u Valid (flash_at t) = (Inr (), f') \<and>
         ota_confirm_task u f flash_at health sends = ([PendingConfirmation, Inactive], [OtaConfirmed], Some f')"
      using pending assms(2) by (auto simp: ota_confirm_task_def mark_current_app_valid_def)
  next
    assume run: "ota_confirm_task u f flash_at health sends = (states, commands, Some f')"
    then show "boot_metadata_pending u f" by (auto simp: ota_confirm_task_def split: if_splits)
    from run obtain t where t: "confirm_loop 0 health sends = Some t"
      and f': "f' = snd (set_current_ota_state u Valid (flash_at t))"
      by (auto simp: ota_confirm_task_def mark_current_app_valid_def split: if_splits option.splits sum.splits prod.splits)
    from confirm_loop_safe [OF t fresh] f'
    show "\<exists>t \<ge> 30. fst (watch_until t health sends) = Some HeartbeatPublished \<and>
         f' = snd (set_current_ota_state u Valid (flash_at t))" by blast
  }
qed

definition sample_updater :: "(bool, unit) updater" where
  "sample_updater = \<lparr>updater_new = (\<lambda>f. Inr ()), current_ota_state = (\<lambda>f. Inr (if f then Valid else PendingVerify)),
     updater_selected_partition = (\<lambda>f. Inr ()), updater_next_partition = (\<lambda>f. Inr ()),
     updater_activate_next_partition = (\<lambda>f. (Inr (), f)), set_current_ota_state = (\<lambda>st f. (Inr (), st = Valid))\<rparr>"

theorem healthy_image_is_confirmed_witness:
  "\<exists>f'. ota_confirm_task sample_updater False (\<lambda>_. False) None [(5, HeartbeatPublished)] =
     ([PendingConfirmation, Inactive], [OtaConfirmed], Some f')"
proof -
  have "\<forall>(s, h) \<in> set [(5, HeartbeatPublished)]. 0 < s \<and> s \<le> (5 :: nat)" by simp
  moreover have "\<forall>g. updater_new sample_updater g = Inr () \<and> (\<exists>g'. set_current_ota_state sample_updater Valid g = (Inr (), g'))"
    by (auto simp: sample_updater_def)
  moreover have "boot_metadata_pending sample_updater False \<and> settles None [(5, HeartbeatPublished)] = Some HeartbeatPublished"
    by (simp add: boot_metadata_pending_def sample_updater_def current_app_pending_confirmation_def current_state_def settles_def)
  ultimately show ?thesis
    using healthy_image_is_confirmed [of "[(5, HeartbeatPublished)]" 5 sample_updater False None "\<lambda>_. False"]
    by metis
qed

end
