(* ===== verification/Rsa_Verify.thy ===== *)
theory Rsa_Verify
  imports Prelude
begin

text \<open>
  Signature checks for the TLS certificates of the download hosts, \<open>crates/rsa-verify-core/src/lib.rs\<close>:
  conversions between byte strings and the little-endian words of the RSA peripheral, the
  Montgomery constants, the PKCS#1 v1.5 and PSS encoding checks and the DER parser of public keys.
  SHA-256 is the parameter \<open>sha\<close>; the modular exponentiation is done by the peripheral and is not
  part of this crate. \<open>usize\<close> has the 32 bits of the target.
\<close>

section \<open>Constants\<close>

definition RSA_2048_LEN :: nat where [const_defs]: "RSA_2048_LEN = 256"
definition SHA256_LEN :: nat where [const_defs]: "SHA256_LEN = 32"
definition PSS_TRAILER_FIELD :: u8 where [const_defs]: "PSS_TRAILER_FIELD = 0xbc"
definition PSS_EM_LEN :: nat where [const_defs]: "PSS_EM_LEN = RSA_2048_LEN"
definition PSS_MASKED_DB_LEN :: nat where [const_defs]: "PSS_MASKED_DB_LEN = PSS_EM_LEN - SHA256_LEN - 1"
definition PSS_SALT_LEN :: nat where [const_defs]: "PSS_SALT_LEN = SHA256_LEN"
definition PSS_PS_LEN :: nat where [const_defs]: "PSS_PS_LEN = PSS_MASKED_DB_LEN - PSS_SALT_LEN - 1"
definition SHA256_DIGEST_INFO_PREFIX :: "u8 list" where
  "SHA256_DIGEST_INFO_PREFIX =
     [0x30, 0x31] @ [0x30, 0x0d] @ [0x06, 0x09] @ [0x60, 0x86, 0x48, 0x01, 0x65, 0x03, 0x04, 0x02, 0x01] @
     [0x05, 0x00] @ [0x04, 0x20]"

datatype RsaVerifyError = MalformedDer | UnsupportedKey | InvalidSignature

record Rsa2048PublicKey =
  modulus_be :: "u8 list"
  exponent_be :: "u8 list"

section \<open>Words of the peripheral\<close>

definition rsa2048_be_bytes_to_le_words :: "u8 list \<Rightarrow> u32 list" where
  "rsa2048_be_bytes_to_le_words bytes =
     map (\<lambda>index. let byte_offset = RSA_2048_LEN - (index + 1) * 4
                  in u32_from_be_bytes (bytes ! byte_offset, bytes ! (byte_offset + 1),
                       bytes ! (byte_offset + 2), bytes ! (byte_offset + 3))) [0..<64]"

definition rsa2048_le_words_to_be_bytes :: "u32 list \<Rightarrow> u8 list" where
  "rsa2048_le_words_to_be_bytes words =
     fold (\<lambda>index bytes. let byte_offset = RSA_2048_LEN - (index + 1) * 4
                          in splice bytes byte_offset (u32_to_be_bytes (words ! index)))
       [0..<64] (replicate RSA_2048_LEN 0)"

definition rsa2048_exponent_be_to_le_words :: "u8 list \<Rightarrow> u32 list" where
  "rsa2048_exponent_be_to_le_words bytes =
     (replicate 64 0)[0 := u32_from_be_bytes (bytes ! 0, bytes ! 1, bytes ! 2, bytes ! 3)]"

section \<open>Montgomery constants\<close>

definition compute_m_prime :: "u32 list \<Rightarrow> u32" where
  "compute_m_prime modulus_le =
     (let modulus_limb = modulus_le ! 0;
          inverse = ((\<lambda>inverse. inverse * (2 - modulus_limb * inverse)) ^^ 5) 1
      in - inverse)"

text \<open>The loop of \<open>double_mod\<close> from the current index on, with its carry.\<close>

fun double_words :: "u32 list \<Rightarrow> u64 \<Rightarrow> u32 list \<times> u64" where
  "double_words [] carry = ([], carry)"
| "double_words (w # ws) carry =
     (let doubled = push_bit 1 (ucast w) OR carry
      in case double_words ws (drop_bit 32 doubled) of (ws', carry') \<Rightarrow> (ucast doubled # ws', carry'))"

datatype cmp = Less | Equal | Greater

fun cmp_loop :: "u32 list \<Rightarrow> u32 list \<Rightarrow> nat \<Rightarrow> cmp" where
  "cmp_loop left right 0 = Equal"
| "cmp_loop left right (Suc index) =
     (if left ! index < right ! index then Less
      else if right ! index < left ! index then Greater
      else cmp_loop left right index)"

definition cmp_le_words :: "u32 list \<Rightarrow> u32 list \<Rightarrow> cmp" where
  "cmp_le_words left right = cmp_loop left right 64"

fun sub_words :: "u32 list \<Rightarrow> u32 list \<Rightarrow> u64 \<Rightarrow> u32 list" where
  "sub_words (l # ls) (r # rs) borrow =
     (let rhs = ucast r + borrow; lhs = ucast l :: u64
      in ucast (lhs - rhs) # sub_words ls rs (if lhs < rhs then 1 else 0))"
| "sub_words ls _ borrow = ls"

definition sub_assign_le_words :: "u32 list \<Rightarrow> u32 list \<Rightarrow> u32 list" where
  "sub_assign_le_words left right = sub_words left right 0"

definition double_mod :: "u32 list \<Rightarrow> u32 list \<Rightarrow> u32 list" where
  "double_mod value modulus =
     (case double_words value 0 of (value, carry) \<Rightarrow>
        if carry \<noteq> 0 \<or> cmp_le_words value modulus \<noteq> Less then sub_assign_le_words value modulus else value)"

definition compute_r_squared_mod_n :: "u32 list \<Rightarrow> u32 list" where
  "compute_r_squared_mod_n modulus_le =
     ((\<lambda>value. double_mod value modulus_le) ^^ (RSA_2048_LEN * 16)) ((replicate 64 0)[0 := 1])"

section \<open>Encoded messages\<close>

function mgf1_sha256 :: "(u8 list \<Rightarrow> u8 list) \<Rightarrow> u8 list \<Rightarrow> u32 \<Rightarrow> nat \<Rightarrow> u8 list" where
  "mgf1_sha256 sha seed counter len =
     (if len = 0 then []
      else let digest = sha (seed @ u32_to_be_bytes counter); copy_len = min SHA256_LEN len
           in take copy_len digest @ mgf1_sha256 sha seed (counter + 1) (len - copy_len))"
  by pat_completeness auto
termination by (relation "measure (\<lambda>(sha, seed, counter, len). len)") (auto simp: SHA256_LEN_def)

declare mgf1_sha256.simps [simp del]

definition verify_pss_sha256_encoded_message ::
  "(u8 list \<Rightarrow> u8 list) \<Rightarrow> u8 list \<Rightarrow> u8 list \<Rightarrow> RsaVerifyError + unit" where
  "verify_pss_sha256_encoded_message sha message em =
     (if em ! (RSA_2048_LEN - 1) \<noteq> PSS_TRAILER_FIELD then Inl InvalidSignature
      else if em ! 0 AND 0x80 \<noteq> 0 then Inl InvalidSignature
      else let masked_db = take PSS_MASKED_DB_LEN em;
               h = take (RSA_2048_LEN - 1 - PSS_MASKED_DB_LEN) (drop PSS_MASKED_DB_LEN em);
               db_mask = mgf1_sha256 sha h 0 PSS_MASKED_DB_LEN;
               db = map2 (XOR) masked_db db_mask;
               db = db[0 := db ! 0 AND 0x7f]
           in if \<not> list_all (\<lambda>byte. byte = 0) (take PSS_PS_LEN db) \<or> db ! PSS_PS_LEN \<noteq> 1
              then Inl InvalidSignature
              else let salt = drop (PSS_PS_LEN + 1) db;
                       message_hash = sha message;
                       expected_h = sha (replicate 8 0 @ message_hash @ salt)
                   in if expected_h = h then Inr () else Inl InvalidSignature)"

definition verify_pkcs1v15_sha256_encoded_message ::
  "(u8 list \<Rightarrow> u8 list) \<Rightarrow> u8 list \<Rightarrow> u8 list \<Rightarrow> RsaVerifyError + unit" where
  "verify_pkcs1v15_sha256_encoded_message sha message em =
     (if em ! 0 \<noteq> 0 \<or> em ! 1 \<noteq> 1 then Inl InvalidSignature
      else let separator_index = RSA_2048_LEN - length SHA256_DIGEST_INFO_PREFIX - SHA256_LEN - 1
           in if \<not> list_all (\<lambda>byte. byte = 0xff) (take (separator_index - 2) (drop 2 em)) \<or> em ! separator_index \<noteq> 0
              then Inl InvalidSignature
              else let prefix_start = separator_index + 1;
                       digest_start = prefix_start + length SHA256_DIGEST_INFO_PREFIX
                   in if take (digest_start - prefix_start) (drop prefix_start em) \<noteq> SHA256_DIGEST_INFO_PREFIX
                      then Inl InvalidSignature
                      else if drop digest_start em = sha message then Inr () else Inl InvalidSignature)"

section \<open>DER public keys\<close>

definition USIZE_MAX :: nat where "USIZE_MAX = 4294967295"
definition USIZE_BYTES :: nat where "USIZE_BYTES = 4"

record DerReader =
  der_bytes :: "u8 list"
  der_offset :: nat

definition der_new :: "u8 list \<Rightarrow> DerReader" where
  "der_new bytes = \<lparr>der_bytes = bytes, der_offset = 0\<rparr>"

definition der_is_empty :: "DerReader \<Rightarrow> bool" where
  "der_is_empty r \<longleftrightarrow> der_offset r = length (der_bytes r)"

definition read_byte :: "DerReader \<Rightarrow> RsaVerifyError + u8 \<times> DerReader" where
  "read_byte r =
     (if der_offset r < length (der_bytes r)
      then Inr (der_bytes r ! der_offset r, r\<lparr>der_offset := der_offset r + 1\<rparr>)
      else Inl MalformedDer)"

fun read_len_loop :: "nat \<Rightarrow> nat \<Rightarrow> DerReader \<Rightarrow> RsaVerifyError + nat \<times> DerReader" where
  "read_len_loop 0 len r = Inr (len, r)"
| "read_len_loop (Suc n) len r =
     result_bind (read_byte r) (\<lambda>(b, r). read_len_loop n (len * 256 mod 2 ^ (8 * USIZE_BYTES) + unat b) r)"

definition read_len :: "DerReader \<Rightarrow> RsaVerifyError + nat \<times> DerReader" where
  "read_len r =
     result_bind (read_byte r) (\<lambda>(first, r).
     if first AND 0x80 = 0 then Inr (unat first, r)
     else let len_len = unat (first AND 0x7f)
          in if len_len = 0 \<or> USIZE_BYTES < len_len then Inl MalformedDer
             else read_len_loop len_len 0 r)"

definition read_tlv :: "u8 \<Rightarrow> DerReader \<Rightarrow> RsaVerifyError + u8 list \<times> DerReader" where
  "read_tlv tag r =
     result_bind (read_byte r) (\<lambda>(b, r).
     if b \<noteq> tag then Inl MalformedDer
     else result_bind (read_len r) (\<lambda>(len, r).
       if USIZE_MAX < der_offset r + len then Inl MalformedDer
       else let end = der_offset r + len
            in if length (der_bytes r) < end then Inl MalformedDer
               else Inr (take (end - der_offset r) (drop (der_offset r) (der_bytes r)), r\<lparr>der_offset := end\<rparr>)))"

definition parse_rsa2048_modulus :: "u8 list \<Rightarrow> RsaVerifyError + u8 list" where
  "parse_rsa2048_modulus integer =
     (if integer \<noteq> [] \<and> hd integer = 0 \<and> length (tl integer) = RSA_2048_LEN then Inr (tl integer)
      else if length integer = RSA_2048_LEN then Inr integer
      else Inl UnsupportedKey)"

definition parse_rsa_exponent :: "u8 list \<Rightarrow> RsaVerifyError + u8 list" where
  "parse_rsa_exponent integer =
     (if integer = [] \<or> 4 < length integer then Inl UnsupportedKey
      else let start = 4 - length integer; exponent = splice (replicate 4 0) start integer
           in if exponent = replicate 4 0 \<or> exponent ! 3 AND 1 = 0 then Inl UnsupportedKey
              else Inr exponent)"

definition parse_pkcs1_rsa2048_public_key_der :: "u8 list \<Rightarrow> RsaVerifyError + Rsa2048PublicKey" where
  "parse_pkcs1_rsa2048_public_key_der der =
     result_bind (read_tlv 0x30 (der_new der)) (\<lambda>(sequence, reader).
     if \<not> der_is_empty reader then Inl MalformedDer
     else result_bind (read_tlv 0x02 (der_new sequence)) (\<lambda>(modulus_integer, sr).
     result_bind (read_tlv 0x02 sr) (\<lambda>(exponent_integer, sr).
     if \<not> der_is_empty sr then Inl MalformedDer
     else result_bind (parse_rsa2048_modulus modulus_integer) (\<lambda>modulus.
     result_bind (parse_rsa_exponent exponent_integer) (\<lambda>exponent.
     Inr \<lparr>modulus_be = modulus, exponent_be = exponent\<rparr>)))))"

section \<open>Multi-word arithmetic\<close>

text \<open>The number that little-endian words stand for.\<close>

fun le_value :: "u32 list \<Rightarrow> nat" where
  "le_value [] = 0"
| "le_value (w # ws) = unat w + 4294967296 * le_value ws"

abbreviation base_power :: "nat \<Rightarrow> nat" where
  "base_power n \<equiv> 4294967296 ^ n"

lemma le_value_less: "le_value ws < base_power (length ws)"
proof (induction ws)
  case (Cons w ws)
  have "unat w < 4294967296" using unsigned_less [where w = w and 'a = nat] by simp
  then have "le_value (w # ws) < 4294967296 * Suc (le_value ws)" by simp
  also have "\<dots> \<le> 4294967296 * base_power (length ws)"
    using Cons.IH by (intro mult_le_mono2) simp
  finally show ?case by simp
qed simp

lemma le_value_append: "le_value (xs @ ys) = le_value xs + base_power (length xs) * le_value ys"
  by (induction xs) (simp_all add: algebra_simps)

lemma double_step:
  assumes "c \<le> (1 :: u64)"
  shows "unat (push_bit 1 (ucast (w :: u32)) OR c) = 2 * unat w + unat c"
proof -
  have "push_bit 1 (ucast w) AND c = 0"
  proof -
    have "c = 0 \<or> c = 1" using assms by (metis linorder_not_less word_gt_0 order_antisym word_less_1)
    moreover have "even (push_bit 1 (ucast w :: u64))" by (simp add: push_bit_eq_mult)
    ultimately show ?thesis by (auto simp: and_one_eq mod_2_eq_odd)
  qed
  then have "push_bit 1 (ucast w) OR c = push_bit 1 (ucast w) + c" by (simp flip: disjunctive_add_eq_or)
  moreover have "unat w < 4294967296" "unat c \<le> 1"
    using unsigned_less [where w = w and 'a = nat] assms by (simp_all add: word_le_nat_alt)
  ultimately show ?thesis
    by (simp add: push_bit_eq_mult unat_word_ariths unsigned_ucast_eq take_bit_nat_eq_self)
qed

lemma double_words_value:
  assumes "c \<le> 1" "double_words ws c = (ws', c')"
  shows "length ws' = length ws \<and> c' \<le> 1 \<and>
    le_value ws' + base_power (length ws) * unat c' = 2 * le_value ws + unat c"
  using assms
proof (induction ws arbitrary: c ws')
  case (Cons w ws)
  define d where "d = push_bit 1 (ucast w) OR c"
  have d: "unat d = 2 * unat w + unat c" unfolding d_def by (rule double_step [OF Cons.prems(1)])
  obtain vs where rec: "double_words ws (drop_bit 32 d) = (vs, c')" "ws' = ucast d # vs"
    using Cons.prems(2) by (auto simp: d_def Let_def split: prod.splits)
  have "unat w < 4294967296" "unat c \<le> 1"
    using unsigned_less [where w = w and 'a = nat] Cons.prems(1) by (simp_all add: word_le_nat_alt)
  then have "unat (drop_bit 32 d) \<le> 1" by (subst unat_drop_bit_eq) (simp add: drop_bit_eq_div d)
  then have c1: "drop_bit 32 d \<le> 1" by (simp add: word_le_nat_alt)
  note IH = Cons.IH [OF c1 rec(1)]
  have "unat (ucast d :: u32) = unat d mod 4294967296"
    by (simp add: unsigned_ucast_eq take_bit_eq_mod)
  moreover have "unat (drop_bit 32 d) = unat d div 4294967296"
    by (subst unat_drop_bit_eq) (simp add: drop_bit_eq_div)
  ultimately have "unat (ucast d :: u32) + 4294967296 * unat (drop_bit 32 d) = 2 * unat w + unat c"
    using d by simp
  moreover have "4294967296 * (le_value vs + base_power (length ws) * unat c') =
      4294967296 * (2 * le_value ws + unat (drop_bit 32 d))"
    using IH by simp
  ultimately have "unat (ucast d :: u32) + 4294967296 * le_value vs + 4294967296 * (base_power (length ws) * unat c') =
      2 * unat w + unat c + 4294967296 * (2 * le_value ws)"
    unfolding distrib_left by linarith
  then show ?case using IH rec(2) by (simp add: mult.assoc)
qed auto

lemma sub_words_value:
  assumes "b \<le> 1" "length ls = length rs"
  shows "length (sub_words ls rs b) = length ls \<and>
    (\<exists>k. le_value (sub_words ls rs b) + le_value rs + unat b = le_value ls + base_power (length ls) * k)"
  using assms
proof (induction ls rs b rule: sub_words.induct)
  case (1 l ls r rs b)
  define rhs where "rhs = ucast r + b"
  define lhs where "lhs = (ucast l :: u64)"
  have b: "unat b \<le> 1" using "1.prems"(1) by (simp add: word_le_nat_alt)
  have bounds: "unat l < 4294967296" "unat r < 4294967296"
    using unsigned_less [where w = l and 'a = nat] unsigned_less [where w = r and 'a = nat] by simp_all
  have rhs: "unat rhs = unat r + unat b" using b bounds by (simp add: rhs_def unat_word_ariths unsigned_ucast_eq take_bit_nat_eq_self)
  have lhs: "unat lhs = unat l" using bounds by (simp add: lhs_def unsigned_ucast_eq take_bit_nat_eq_self)
  have nb: "(if lhs < rhs then 1 else 0 :: u64) \<le> 1" by simp
  from "1.IH" [OF refl refl] "1.prems" nb obtain k where
    k: "length (sub_words ls rs (if lhs < rhs then 1 else 0)) = length ls"
      "le_value (sub_words ls rs (if lhs < rhs then 1 else 0)) + le_value rs + (if lhs < rhs then 1 else 0) =
         le_value ls + base_power (length ls) * k"
    by (auto simp: rhs_def lhs_def split: if_splits)
  have digit: "unat (ucast (lhs - rhs) :: u32) + unat r + unat b = unat l + 4294967296 * (if lhs < rhs then 1 else 0)"
  proof (cases "lhs < rhs")
    case True
    then have lt: "unat l < unat r + unat b" using lhs rhs by (simp add: word_less_nat_alt)
    have "unat (lhs - rhs) = 18446744073709551616 + unat l - (unat r + unat b)"
      using True lt by (auto simp: unat_sub_if' word_le_nat_alt lhs rhs)
    then have "unat (ucast (lhs - rhs) :: u32) = (18446744073709551616 + unat l - (unat r + unat b)) mod 4294967296"
      by (simp add: unsigned_ucast_eq take_bit_eq_mod)
    also have "\<dots> = 4294967296 + unat l - (unat r + unat b)"
    proof -
      have "18446744073709551616 + unat l - (unat r + unat b) =
          (4294967296 + unat l - (unat r + unat b)) + 4294967295 * 4294967296"
        using bounds b by simp
      then show ?thesis using lt bounds b by (simp only: mod_mult_self1) (simp add: )
    qed
    finally show ?thesis using True bounds b lt by simp
  next
    case False
    then have le: "unat r + unat b \<le> unat l" using lhs rhs by (simp add: word_less_nat_alt)
    have "unat (lhs - rhs) = unat l - (unat r + unat b)"
      using False by (simp add: unat_sub_if' word_le_nat_alt lhs rhs le)
    then have "unat (ucast (lhs - rhs) :: u32) = unat l - (unat r + unat b)"
      using bounds by (simp add: unsigned_ucast_eq take_bit_eq_mod)
    with False le show ?thesis by simp
  qed
  have "le_value (sub_words (l # ls) (r # rs) b) + le_value (r # rs) + unat b =
      le_value (l # ls) + base_power (length (l # ls)) * k"
    using k(2) digit by (simp add: rhs_def lhs_def Let_def algebra_simps split: if_splits)
  with k(1) show ?case by (auto simp: rhs_def lhs_def Let_def)
qed auto


lemma cmp_loop_value:
  assumes "n \<le> length xs" "n \<le> length ys"
  shows "(cmp_loop xs ys n = Less \<longleftrightarrow> le_value (take n xs) < le_value (take n ys)) \<and>
    (cmp_loop xs ys n = Equal \<longleftrightarrow> le_value (take n xs) = le_value (take n ys))"
  using assms
proof (induction n)
  case (Suc n)
  then have IH: "(cmp_loop xs ys n = Less \<longleftrightarrow> le_value (take n xs) < le_value (take n ys)) \<and>
    (cmp_loop xs ys n = Equal \<longleftrightarrow> le_value (take n xs) = le_value (take n ys))" and n: "n < length xs" "n < length ys"
    by simp_all
  have val: "le_value (take (Suc n) zs) = le_value (take n zs) + base_power n * unat (zs ! n)" if "n < length zs" for zs
    using that by (simp add: take_Suc_conv_app_nth le_value_append)
  have small: "le_value (take n xs) < base_power n" "le_value (take n ys) < base_power n"
    using le_value_less [of "take n xs"] le_value_less [of "take n ys"] n by simp_all
  have top: "x + base_power n * a < y + base_power n * b" if "x < base_power n" "a < b" for x y a b
  proof -
    have "base_power n * a + base_power n \<le> base_power n * b"
      using that(2) mult_le_mono2 [of "Suc a" b "base_power n"] by simp
    with that(1) show ?thesis by linarith
  qed
  consider "xs ! n < ys ! n" | "ys ! n < xs ! n" | "xs ! n = ys ! n" by (rule linorder_cases)
  then show ?case
  proof cases
    case 1
    then have "unat (xs ! n) < unat (ys ! n)" by (simp add: word_less_nat_alt)
    from top [OF small(1) this, of "le_value (take n ys)"] 1 show ?thesis
      by (simp only: val n cmp_loop.simps) simp
  next
    case 2
    then have "unat (ys ! n) < unat (xs ! n)" by (simp add: word_less_nat_alt)
    from top [OF small(2) this, of "le_value (take n xs)"] 2 show ?thesis
      by (simp only: val n cmp_loop.simps) auto
  next
    case 3
    then show ?thesis using IH by (simp only: val n cmp_loop.simps) simp
  qed
qed simp

lemma double_mod_value:
  assumes "length v = 64" "length m = 64" "le_value v < le_value m"
  shows "length (double_mod v m) = 64 \<and> le_value (double_mod v m) = 2 * le_value v mod le_value m"
proof -
  obtain w c where dw: "double_words v 0 = (w, c)" by (cases "double_words v 0")
  from double_words_value [OF _ dw] assms(1) have w: "length w = 64" "c \<le> 1"
    "le_value w + base_power 64 * unat c = 2 * le_value v" by simp_all
  have mb: "le_value m < base_power 64" and wb: "le_value w < base_power 64"
    using le_value_less [of m] le_value_less [of w] assms(2) w(1) by simp_all
  have ge: "cmp_le_words w m \<noteq> Less \<longleftrightarrow> le_value m \<le> le_value w"
    using cmp_loop_value [of 64 w m] w(1) assms(2) by (auto simp: cmp_le_words_def not_less)
  show ?thesis
  proof (cases "c \<noteq> 0 \<or> le_value m \<le> le_value w")
    case False
    then have "le_value w = 2 * le_value v" "le_value w < le_value m" using w(3) by auto
    with False show ?thesis using w(1) dw ge by (simp add: double_mod_def)
  next
    case True
    define d where "d = sub_words w m 0"
    have d: "length d = 64 \<and> (\<exists>k. le_value d + le_value m = le_value w + base_power 64 * k)"
      using sub_words_value [of 0 w m] w(1) assms(2) by (simp add: d_def)
    then have db: "le_value d < base_power 64" using le_value_less [of d] by simp
    have ge2: "le_value m \<le> 2 * le_value v"
    proof (cases "c = 0")
      case True
      with \<open>c \<noteq> 0 \<or> le_value m \<le> le_value w\<close> w(3) show ?thesis by simp
    next
      case False
      then have "unat c \<noteq> 0" by (simp add: unsigned_eq_0_iff)
      then have "base_power 64 * 1 \<le> base_power 64 * unat c" by (intro mult_le_mono2) simp
      with w(3) mb show ?thesis by linarith
    qed
    from d obtain k where k: "le_value d + le_value m = le_value w + base_power 64 * k" by blast
    have x: "2 * le_value v - le_value m < base_power 64" using assms(3) mb by linarith
    have "le_value d + base_power 64 * unat c = (2 * le_value v - le_value m) + base_power 64 * k"
      using k w(3) ge2 by linarith
    then have "(le_value d + base_power 64 * unat c) mod base_power 64 =
        ((2 * le_value v - le_value m) + base_power 64 * k) mod base_power 64" by (rule arg_cong)
    then have "le_value d = 2 * le_value v - le_value m"
      unfolding mod_mult_self2 mod_less [OF db] mod_less [OF x] .
    moreover have "2 * le_value v - le_value m < le_value m" using assms(3) by simp
    moreover have "2 * le_value v mod le_value m = (2 * le_value v - le_value m) mod le_value m"
      using ge2 by (simp add: le_mod_geq)
    ultimately show ?thesis using True d dw ge by (simp add: double_mod_def sub_assign_le_words_def d_def)
  qed
qed


lemma r_squared_value:
  assumes "length m = 64" "1 < le_value m"
  shows "length (compute_r_squared_mod_n m) = 64 \<and> le_value (compute_r_squared_mod_n m) = 2 ^ 4096 mod le_value m"
proof -
  have zero: "le_value (replicate n 0) = 0" for n by (induction n) simp_all
  have "length (((\<lambda>value. double_mod value m) ^^ n) ((replicate 64 0)[0 := 1])) = 64 \<and>
      le_value (((\<lambda>value. double_mod value m) ^^ n) ((replicate 64 0)[0 := 1])) = 2 ^ n mod le_value m" for n
  proof (induction n)
    case 0
    have "(replicate 64 0)[0 := 1] = (1 :: u32) # replicate 63 0"
      by (simp add: numeral_eq_Suc)
    then show ?case using assms(2) by (simp add: zero)
  next
    case (Suc n)
    define v where "v = ((\<lambda>value. double_mod value m) ^^ n) ((replicate 64 0)[0 := 1])"
    have v: "length v = 64" "le_value v = 2 ^ n mod le_value m" using Suc.IH by (simp_all add: v_def)
    then have "le_value v < le_value m" using assms(2) by simp
    from double_mod_value [OF v(1) assms(1) this] show ?case
      by (simp add: v_def [symmetric] v(2) mod_mult_right_eq)
  qed
  from this [of "RSA_2048_LEN * 16"] show ?thesis
    unfolding compute_r_squared_mod_n_def by (simp add: RSA_2048_LEN_def)
qed

lemma m_prime_inverse:
  assumes "odd (m ! 0)"
  shows "m ! 0 * compute_m_prime m = -1"
proof -
  define n where "n = m ! 0"
  define step where "step = (\<lambda>x. x * (2 - n * x))"
  have sq: "1 - n * step x = (1 - n * x) * (1 - n * x)" for x
    by (simp add: step_def algebra_simps)
  have err: "1 - n * (step ^^ k) 1 = (1 - n) ^ (2 ^ k)" for k
  proof (induction k)
    case (Suc k)
    have "1 - n * (step ^^ Suc k) 1 = (1 - n * (step ^^ k) 1) * (1 - n * (step ^^ k) 1)"
      using sq [of "(step ^^ k) 1"] by simp
    also have "\<dots> = (1 - n) ^ (2 ^ k + 2 ^ k)" by (simp add: Suc.IH power_add)
    finally show ?case by (simp add: mult_2)
  qed simp
  from assms have "even (1 - n)" by (simp add: n_def)
  then obtain e where e: "1 - n = 2 * e" by (rule evenE)
  have two: "(2 :: u32) ^ 32 = 0" by simp
  have "(1 - n) ^ (2 ^ 5) = (2 * e) ^ 32" by (simp only: e) simp
  also have "\<dots> = 0" by (simp only: power_mult_distrib two mult_zero_left)
  finally have "(1 - n) ^ (2 ^ 5) = 0" .
  with err [of 5] have "n * (step ^^ 5) 1 = 1" by simp
  then show ?thesis by (simp add: compute_m_prime_def Let_def flip: n_def step_def)
qed

text \<open>
  The Montgomery constants for the RSA peripheral are right for every odd modulus above one:
  the Newton iteration yields \<open>-1/m\<close> modulo \<open>2^32\<close> after its five rounds, and 4096 modular doublings
  with their carry handling yield \<open>R\<^sup>2\<close> modulo \<open>m\<close> for \<open>R = 2^2048\<close>.
\<close>
theorem montgomery_constants_correct:
  assumes "length m = 64" "odd (m ! 0)" "1 < le_value m"
  shows "m ! 0 * compute_m_prime m = -1 \<and>
    le_value (compute_r_squared_mod_n m) = (2 ^ 2048) ^ 2 mod le_value m"
proof -
  have "(2 ^ 2048 :: nat) ^ 2 = 2 ^ 4096" by (simp flip: power_mult)
  with m_prime_inverse [OF assms(2)] r_squared_value [OF assms(1,3)] show ?thesis by simp
qed

theorem montgomery_constants_correct_witness:
  "(3 # replicate 63 0) ! 0 * compute_m_prime (3 # replicate 63 0) = -1 \<and>
   le_value (compute_r_squared_mod_n (3 # replicate 63 0)) = (2 ^ 2048) ^ 2 mod le_value (3 # replicate 63 0)"
proof -
  have "le_value (replicate n 0) = 0" for n by (induction n) simp_all
  then show ?thesis by (intro montgomery_constants_correct) simp_all
qed

section \<open>Encodings\<close>

lemma list_all_eq_replicate: "list_all (\<lambda>x. x = a) xs \<longleftrightarrow> xs = replicate (length xs) a"
  by (induction xs) auto

text \<open>
  The encoding of RFC 8017 (9.2): the padding and the DER of the digest info, a sequence of the
  algorithm (the object identifier of SHA-256 with a null) and the digest. All lengths are short.
\<close>

definition der_element :: "u8 \<Rightarrow> u8 list \<Rightarrow> u8 list" where
  "der_element tag content = tag # of_nat (length content) # content"

definition sha256_algorithm :: "u8 list" where
  "sha256_algorithm = der_element 48 (der_element 6 [96, 134, 72, 1, 101, 3, 4, 2, 1] @ der_element 5 [])"

definition pkcs1v15_encode :: "(u8 list \<Rightarrow> u8 list) \<Rightarrow> u8 list \<Rightarrow> u8 list" where
  "pkcs1v15_encode sha message =
     [0, 1] @ replicate 202 255 @ [0] @ der_element 48 (sha256_algorithm @ der_element 4 (sha message))"

lemma pkcs1v15_encode_prefix:
  "length (sha message) = 32 \<Longrightarrow>
   pkcs1v15_encode sha message = [0, 1] @ replicate 202 0xff @ [0] @ SHA256_DIGEST_INFO_PREFIX @ sha message"
  by (simp add: pkcs1v15_encode_def der_element_def sha256_algorithm_def SHA256_DIGEST_INFO_PREFIX_def)

lemma length_prefix [simp]: "length SHA256_DIGEST_INFO_PREFIX = 19"
  by (simp add: SHA256_DIGEST_INFO_PREFIX_def)

lemma pkcs1v15_fields:
  assumes "length em = 256"
  shows "em = [em ! 0, em ! 1] @ take 202 (drop 2 em) @ [em ! 204] @ take 19 (drop 205 em) @ drop 224 em"
proof -
  have "em = em ! 0 # em ! 1 # drop 2 em"
    using assms Cons_nth_drop_Suc [of 0 em] Cons_nth_drop_Suc [of 1 em] by (simp add: numeral_2_eq_2)
  moreover have "drop 2 em = take 202 (drop 2 em) @ drop 204 em"
    using append_take_drop_id [of 202 "drop 2 em"] by simp
  moreover have "drop 204 em = em ! 204 # drop 205 em"
    using assms Cons_nth_drop_Suc [of 204 em] by simp
  moreover have "drop 205 em = take 19 (drop 205 em) @ drop 224 em"
    using append_take_drop_id [of 19 "drop 205 em"] by simp
  ultimately show ?thesis by (metis append_Cons append_Nil)
qed

text \<open>
  The PKCS#1 v1.5 check accepts exactly one encoded message for each message, the padded digest
  info of its SHA-256: no byte of the 256 is left unchecked.
\<close>
theorem pkcs1v15_accepts_only_encoding:
  assumes "length em = 256" "length (sha message) = 32"
  shows "verify_pkcs1v15_sha256_encoded_message sha message em = Inr () \<longleftrightarrow> em = pkcs1v15_encode sha message"
proof -
  have "verify_pkcs1v15_sha256_encoded_message sha message em = Inr () \<longleftrightarrow>
      em ! 0 = 0 \<and> em ! 1 = 1 \<and> list_all (\<lambda>b. b = 0xff) (take 202 (drop 2 em)) \<and> em ! 204 = 0 \<and>
      take 19 (drop 205 em) = SHA256_DIGEST_INFO_PREFIX \<and> drop 224 em = sha message"
    by (auto simp: verify_pkcs1v15_sha256_encoded_message_def RSA_2048_LEN_def SHA256_LEN_def Let_def)
  also have "\<dots> \<longleftrightarrow> em = pkcs1v15_encode sha message"
  proof
    assume f: "em ! 0 = 0 \<and> em ! 1 = 1 \<and> list_all (\<lambda>b. b = 0xff) (take 202 (drop 2 em)) \<and> em ! 204 = 0 \<and>
      take 19 (drop 205 em) = SHA256_DIGEST_INFO_PREFIX \<and> drop 224 em = sha message"
    moreover from f have "take 202 (drop 2 em) = replicate 202 0xff"
      using assms(1) by (simp add: list_all_eq_replicate)
    ultimately show "em = pkcs1v15_encode sha message"
      using pkcs1v15_fields [OF assms(1)] by (simp add: pkcs1v15_encode_prefix assms(2))
  next
    assume "em = pkcs1v15_encode sha message"
    then show "em ! 0 = 0 \<and> em ! 1 = 1 \<and> list_all (\<lambda>b. b = 0xff) (take 202 (drop 2 em)) \<and> em ! 204 = 0 \<and>
      take 19 (drop 205 em) = SHA256_DIGEST_INFO_PREFIX \<and> drop 224 em = sha message"
      by (simp add: pkcs1v15_encode_prefix assms(2) nth_append list_all_eq_replicate)
  qed
  finally show ?thesis .
qed

theorem pkcs1v15_accepts_only_encoding_witness:
  "verify_pkcs1v15_sha256_encoded_message (\<lambda>_. replicate 32 9) [1, 2]
     (pkcs1v15_encode (\<lambda>_. replicate 32 9) [1, 2]) = Inr () \<longleftrightarrow>
   pkcs1v15_encode (\<lambda>_. replicate 32 9) [1, 2] = pkcs1v15_encode (\<lambda>_. replicate 32 9) [1, 2]"
  by (rule pkcs1v15_accepts_only_encoding) (simp_all add: pkcs1v15_encode_prefix)

text \<open>
  The mask generation function of RFC 8017 (B.2.1) with SHA-256: the digests of the seed with the
  counters from 0 on, four bytes each and most significant first, cut to the length.
\<close>

definition mgf1 :: "(u8 list \<Rightarrow> u8 list) \<Rightarrow> u8 list \<Rightarrow> nat \<Rightarrow> u8 list" where
  "mgf1 sha seed len =
     take len (concat (map (\<lambda>counter. sha (seed @ map (\<lambda>k. of_nat (counter div 256 ^ (3 - k))) [0..<4])) [0..<(len + 31) div 32]))"

lemma counter_bytes: "u32_to_be_bytes (of_nat n) = map (\<lambda>k. of_nat (n div 256 ^ (3 - k))) [0..<4]"
proof -
  have "(ucast (drop_bit k (of_nat n :: u32)) :: u8) = of_nat (n div 2 ^ k)" if "k \<le> 24" for k
  proof (rule bit_word_eqI)
    fix i assume "i < LENGTH(8)"
    with that show "bit (ucast (drop_bit k (of_nat n :: u32)) :: u8) i = bit (of_nat (n div 2 ^ k) :: u8) i"
      by (simp add: bit_simps flip: drop_bit_eq_div)
  qed
  from this [of 24] this [of 16] this [of 8] this [of 0] show ?thesis
    by (simp add: u32_to_be_bytes_def u32_to_le_bytes_def upt_rec)
qed

lemma mgf1_from:
  assumes "\<And>x. length (sha x) = 32"
  shows "mgf1_sha256 sha seed (of_nat c) n =
    take n (concat (map (\<lambda>i. sha (seed @ u32_to_be_bytes (of_nat i))) [c..<c + (n + 31) div 32]))"
proof (induction n arbitrary: c rule: less_induct)
  case (less n)
  show ?case
  proof (cases "n = 0")
    case False
    define k where "k = (n - 32 + 31) div 32"
    have "(n + 31) div 32 = Suc k"
    proof (cases "32 \<le> n")
      case True
      then have "n + 31 = 32 + (n - 32 + 31)" by simp
      then show ?thesis by (simp only: k_def div_add_self1)
    qed (use False in \<open>auto simp: k_def intro!: div_nat_eqI\<close>)
    then have idx: "[c..<c + (n + 31) div 32] = c # [Suc c..<Suc c + k]" by (simp add: upt_conv_Cons)
    have rec: "mgf1_sha256 sha seed (of_nat (Suc c)) (n - 32) =
        take (n - 32) (concat (map (\<lambda>i. sha (seed @ u32_to_be_bytes (of_nat i))) [Suc c..<Suc c + k]))"
      unfolding k_def by (rule less.IH) (use False in simp)
    have "n - min 32 n = n - 32" by simp
    then have "mgf1_sha256 sha seed (of_nat c) n =
        take n (sha (seed @ u32_to_be_bytes (of_nat c))) @ mgf1_sha256 sha seed (of_nat (Suc c)) (n - 32)"
      using False assms by (subst mgf1_sha256.simps) (simp add: Let_def SHA256_LEN_def add.commute min_def)
    then show ?thesis unfolding idx rec using assms by simp
  qed (simp add: mgf1_sha256.simps)
qed

lemma mgf1_sha256_eq:
  assumes "\<And>x. length (sha x) = 32"
  shows "mgf1_sha256 sha seed 0 n = mgf1 sha seed n"
  using mgf1_from [of sha seed 0 n, OF assms] by (simp add: mgf1_def counter_bytes)

text \<open>The PSS encoding of a message with a given salt.\<close>

definition clear_top :: "u8 list \<Rightarrow> u8 list" where
  "clear_top bs = bs[0 := bs ! 0 AND 0x7f]"

definition pss_encode :: "(u8 list \<Rightarrow> u8 list) \<Rightarrow> u8 list \<Rightarrow> u8 list \<Rightarrow> u8 list" where
  "pss_encode sha message salt =
     (let h = sha (replicate 8 0 @ sha message @ salt);
          db = replicate 190 0 @ [1] @ salt
      in clear_top (map2 (XOR) db (mgf1 sha h 223)) @ h @ [0xbc])"

lemma length_mgf1 [simp]: "(\<And>x. length (sha x) = 32) \<Longrightarrow> length (mgf1_sha256 sha seed c n) = n"
proof (induction n arbitrary: c rule: less_induct)
  case (less n)
  show ?case
  proof (cases "n = 0")
    case False
    have "length (mgf1_sha256 sha seed (c + 1) (n - min 32 n)) = n - min 32 n"
      using less False by auto
    then show ?thesis using False less.prems
      by (subst mgf1_sha256.simps) (simp add: Let_def SHA256_LEN_def)
  qed (simp add: mgf1_sha256.simps)
qed

lemma pss_encode_code:
  assumes "\<And>x. length (sha x) = 32"
  shows "pss_encode sha message salt =
     (let h = sha (replicate 8 0 @ sha message @ salt);
          db = replicate 190 0 @ [1] @ salt
      in clear_top (map2 (XOR) db (mgf1_sha256 sha h 0 223)) @ h @ [0xbc])"
  by (simp add: pss_encode_def mgf1_sha256_eq [OF assms])

lemma length_pss_encode:
  assumes "\<And>x. length (sha x) = 32" "length salt = 32"
  shows "length (pss_encode sha message salt) = 256"
  using assms(2) length_mgf1 [of sha, OF assms(1)] by (simp add: pss_encode_code [OF assms(1)] Let_def clear_top_def assms(1))

lemma map2_xor_twice:
  "length xs = length ks \<Longrightarrow> map2 (XOR) (map2 (XOR) xs ks) ks = (xs :: u8 list)"
  by (induction xs ks rule: list_induct2) (simp_all add: xor.assoc)

lemma top_clear: "(b :: u8) AND 0x80 = 0 \<longleftrightarrow> b AND 0x7f = b"
proof -
  have m: "b AND 0x7f = take_bit 7 b" by (simp add: take_bit_eq_mask mask_eq_exp_minus_1)
  have "take_bit 7 b = b \<longleftrightarrow> \<not> bit b 7"
  proof
    assume "take_bit 7 b = b"
    then show "\<not> bit b 7" by (metis bit_take_bit_iff less_irrefl)
  next
    assume top: "\<not> bit b 7"
    show "take_bit 7 b = b"
    proof (rule bit_word_eqI)
      fix n assume "n < LENGTH(8)"
      then have "n < 7 \<or> n = 7" by auto
      then show "bit (take_bit 7 b) n = bit b n" using top by (auto simp: bit_simps)
    qed
  qed
  then show ?thesis using top_bit_u8 [of b] m by auto
qed

lemma clear_top_xor:
  assumes "length xs = length ks" "0 < length xs"
  shows "clear_top (map2 (XOR) (clear_top (map2 (XOR) xs ks)) ks) = clear_top xs"
proof -
  obtain x xs' k ks' where c: "xs = x # xs'" "ks = k # ks'" "length xs' = length ks'"
    using assms by (cases xs; cases ks) auto
  have "((x XOR k) AND 0x7f XOR k) AND 0x7f = x AND 0x7f"
    by (rule bit_word_eqI) (auto simp: bit_simps)
  then show ?thesis using map2_xor_twice [OF c(3)] by (simp add: c clear_top_def)
qed

lemma clear_top_id: "bs ! 0 AND 0x80 = 0 \<Longrightarrow> clear_top bs = bs"
  by (cases bs) (auto simp: clear_top_def top_clear)

lemma length_clear_top [simp]: "length (clear_top bs) = length bs"
  by (simp add: clear_top_def)

text \<open>
  The PSS check is equivalent to the encoding: it accepts an encoded message exactly when that
  is the PSS encoding of the message under some salt of 32 bytes.
\<close>
theorem pss_accepts_iff_encoding:
  assumes "length em = 256" "\<And>x. length (sha x) = 32"
  shows "verify_pss_sha256_encoded_message sha message em = Inr () \<longleftrightarrow>
    (\<exists>salt. length salt = 32 \<and> em = pss_encode sha message salt)"
proof -
  define masked where "masked = take 223 em"
  define h where "h = take 32 (drop 223 em)"
  define mask where "mask = mgf1_sha256 sha h 0 223"
  define db where "db = clear_top (map2 (XOR) masked mask)"
  have len: "length masked = 223" "length mask = 223" "length h = 32" "length db = 223"
    using assms by (simp_all add: masked_def h_def mask_def db_def)
  have em: "em = masked @ h @ [em ! 255]"
  proof -
    have "drop 255 em = [em ! 255]" using assms(1) Cons_nth_drop_Suc [of 255 em] by simp
    moreover have "drop 223 em = h @ drop 255 em" using append_take_drop_id [of 32 "drop 223 em"] by (simp add: h_def)
    ultimately show ?thesis by (metis append_take_drop_id masked_def)
  qed
  have "verify_pss_sha256_encoded_message sha message em = Inr () \<longleftrightarrow>
      em ! 255 = 0xbc \<and> em ! 0 AND 0x80 = 0 \<and> list_all (\<lambda>b. b = 0) (take 190 db) \<and> db ! 190 = 1 \<and>
      sha (replicate 8 0 @ sha message @ drop 191 db) = h"
    by (auto simp: verify_pss_sha256_encoded_message_def const_defs Let_def masked_def h_def mask_def db_def clear_top_def)
  also have "\<dots> \<longleftrightarrow> (\<exists>salt. length salt = 32 \<and> em = pss_encode sha message salt)"
  proof
    assume a: "em ! 255 = 0xbc \<and> em ! 0 AND 0x80 = 0 \<and> list_all (\<lambda>b. b = 0) (take 190 db) \<and> db ! 190 = 1 \<and>
      sha (replicate 8 0 @ sha message @ drop 191 db) = h"
    have "masked ! 0 = em ! 0" using assms(1) by (simp add: masked_def)
    with a have "clear_top masked = masked" by (intro clear_top_id) simp
    then have "masked = clear_top (map2 (XOR) db mask)"
      using clear_top_xor [of masked mask] len by (simp add: db_def)
    moreover have "db = replicate 190 0 @ [1] @ drop 191 db"
    proof -
      have "take 190 db = replicate 190 0" using a len by (simp add: list_all_eq_replicate)
      moreover have "drop 190 db = 1 # drop 191 db" using a len Cons_nth_drop_Suc [of 190 db] by simp
      ultimately show ?thesis by (metis append_Cons append_Nil append_take_drop_id)
    qed
    ultimately have "em = pss_encode sha message (drop 191 db)"
      using a em by (simp add: pss_encode_code [OF assms(2)] Let_def mask_def)
    then show "\<exists>salt. length salt = 32 \<and> em = pss_encode sha message salt"
      using len by (intro exI [of _ "drop 191 db"]) simp
  next
    assume "\<exists>salt. length salt = 32 \<and> em = pss_encode sha message salt"
    then obtain salt where salt: "length salt = 32" "em = pss_encode sha message salt" by blast
    define h' where "h' = sha (replicate 8 0 @ sha message @ salt)"
    define d where "d = replicate 190 0 @ [1] @ salt"
    define m where "m = clear_top (map2 (XOR) d (mgf1_sha256 sha h' 0 223))"
    have e: "em = m @ h' @ [0xbc]" by (simp add: salt(2) pss_encode_code [OF assms(2)] h'_def d_def m_def Let_def)
    have lm: "length d = 223" "length m = 223" "length h' = 32" using salt(1) assms(2) by (simp_all add: d_def m_def h'_def)
    then have "masked = m" "h = h'" by (simp_all add: masked_def h_def e)
    then have "db = clear_top d"
      using clear_top_xor [of d "mgf1_sha256 sha h' 0 223"] lm assms(2) by (simp add: db_def mask_def m_def)
    also have "\<dots> = d" by (rule clear_top_id) (simp add: d_def nth_append)
    finally have db: "db = d" .
    have "em ! 0 = (map2 (XOR) d (mgf1_sha256 sha h' 0 223)) ! 0 AND 0x7f"
      using lm assms(2) by (simp add: e m_def clear_top_def nth_append)
    then have "em ! 0 AND 0x80 = 0" by (simp add: and.assoc)
    moreover have "em ! 255 = 0xbc" using lm by (simp add: e nth_append)
    ultimately show "em ! 255 = 0xbc \<and> em ! 0 AND 0x80 = 0 \<and> list_all (\<lambda>b. b = 0) (take 190 db) \<and> db ! 190 = 1 \<and>
      sha (replicate 8 0 @ sha message @ drop 191 db) = h"
      using \<open>h = h'\<close> by (simp add: db d_def nth_append list_all_eq_replicate h'_def)
  qed
  finally show ?thesis .
qed

theorem pss_accepts_iff_encoding_witness:
  "verify_pss_sha256_encoded_message (\<lambda>_. replicate 32 0) [] (pss_encode (\<lambda>_. replicate 32 0) [] (replicate 32 5)) = Inr () \<longleftrightarrow>
   (\<exists>salt. length salt = 32 \<and> pss_encode (\<lambda>_. replicate 32 0) [] (replicate 32 5) = pss_encode (\<lambda>_. replicate 32 0) [] salt)"
  by (rule pss_accepts_iff_encoding) (simp_all add: length_pss_encode)

section \<open>DER\<close>

definition der_length :: "nat \<Rightarrow> u8 list" where
  "der_length n = (if n < 128 then [of_nat n] else if n < 256 then [0x81, of_nat n]
     else [0x82, of_nat (n div 256), of_nat (n mod 256)])"

definition der_tlv :: "u8 \<Rightarrow> u8 list \<Rightarrow> u8 list" where
  "der_tlv tag bs = tag # der_length (length bs) @ bs"

text \<open>A reader in front of \<open>rest\<close>, after \<open>pre\<close>.\<close>

abbreviation reader_at :: "u8 list \<Rightarrow> u8 list \<Rightarrow> DerReader" where
  "reader_at pre rest \<equiv> \<lparr>der_bytes = pre @ rest, der_offset = length pre\<rparr>"

lemma read_byte_at [simp]: "read_byte (reader_at pre (b # rest)) = Inr (b, reader_at (pre @ [b]) rest)"
  by (simp add: read_byte_def)

lemma read_len_loop_2:
  "read_len_loop 2 len r = result_bind (read_byte r) (\<lambda>(b, r). result_bind (read_byte r) (\<lambda>(c, r).
     Inr ((len * 256 mod 4294967296 + unat b) * 256 mod 4294967296 + unat c, r)))"
proof -
  have "read_len_loop (Suc (Suc 0)) len r = result_bind (read_byte r) (\<lambda>(b, r). result_bind (read_byte r) (\<lambda>(c, r).
     Inr ((len * 256 mod 4294967296 + unat b) * 256 mod 4294967296 + unat c, r)))"
    by (simp add: USIZE_BYTES_def case_prod_unfold)
  then show ?thesis by (simp only: numeral_2_eq_2)
qed

lemma read_len_at:
  assumes "n < 65536"
  shows "read_len (reader_at pre (der_length n @ rest)) = Inr (n, reader_at (pre @ der_length n) rest)"
proof -
  consider "n < 128" | "128 \<le> n" "n < 256" | "256 \<le> n" by linarith
  then show ?thesis
  proof cases
    case 1
    have "(of_nat n :: u8) AND 0x80 = 0"
    proof -
      have "take_bit 7 (of_nat n :: u8) = of_nat n"
        using 1 by (simp add: take_bit_of_nat take_bit_nat_eq_self)
      then have "\<not> bit (of_nat n :: u8) 7" by (metis bit_take_bit_iff less_irrefl)
      then show ?thesis using top_bit_u8 by blast
    qed
    moreover have "unat (of_nat n :: u8) = n" using 1 by (simp add: unat_of_nat)
    ultimately show ?thesis using 1 by (simp add: read_len_def der_length_def)
  next
    case 2
    then have "unat (of_nat n :: u8) = n" by (simp add: unat_of_nat)
    moreover have "read_byte (reader_at (pre @ [0x81]) (of_nat n # rest)) = Inr (of_nat n, reader_at ((pre @ [0x81]) @ [of_nat n]) rest)"
      by (rule read_byte_at)
    moreover have "read_byte (reader_at pre (0x81 # of_nat n # rest)) = Inr (0x81, reader_at (pre @ [0x81]) (of_nat n # rest))"
      by (rule read_byte_at)
    ultimately show ?thesis using 2
      by (simp add: read_len_def der_length_def USIZE_BYTES_def numeral_eq_Suc [of "num.One"])
  next
    case 3
    then have "unat (of_nat (n div 256) :: u8) = n div 256" "unat (of_nat (n mod 256) :: u8) = n mod 256"
      using assms by (simp_all add: unat_of_nat)
    then show ?thesis using 3 assms
      by (simp add: read_len_def der_length_def USIZE_BYTES_def read_byte_def nth_append read_len_loop_2)
  qed
qed


lemma read_tlv_at:
  assumes "length bs < 65536" "length pre + length (der_tlv tag bs) \<le> USIZE_MAX"
  shows "read_tlv tag (reader_at pre (der_tlv tag bs @ rest)) = Inr (bs, reader_at (pre @ der_tlv tag bs) rest)"
proof -
  have "read_byte (reader_at pre (der_tlv tag bs @ rest)) =
      Inr (tag, reader_at (pre @ [tag]) (der_length (length bs) @ bs @ rest))"
    using read_byte_at by (simp add: der_tlv_def)
  moreover have "read_len (reader_at (pre @ [tag]) (der_length (length bs) @ bs @ rest)) =
      Inr (length bs, reader_at ((pre @ [tag]) @ der_length (length bs)) (bs @ rest))"
    by (rule read_len_at [OF assms(1)])
  ultimately show ?thesis using assms(2)
    by (simp add: read_tlv_def der_tlv_def)
qed

definition rsa_public_key_der :: "u8 list \<Rightarrow> u8 list \<Rightarrow> u8 list" where
  "rsa_public_key_der modulus exponent = der_tlv 0x30 (der_tlv 0x02 modulus @ der_tlv 0x02 exponent)"

lemma length_der_length: "length (der_length n) \<le> 3"
  by (simp add: der_length_def)

text \<open>
  Public keys survive their encoding: the parser reads back modulus and exponent of every DER
  encoding of a 2048-bit key, with or without the leading zero byte of the modulus and with an odd
  exponent of one to four bytes, which it pads to four.
\<close>
theorem rsa_public_key_der_roundtrip:
  assumes "length modulus = 256" "lead = [] \<or> lead = [0]"
    and "1 \<le> length exponent" "length exponent \<le> 4" "last exponent AND 1 \<noteq> 0"
  shows "parse_pkcs1_rsa2048_public_key_der (rsa_public_key_der (lead @ modulus) exponent) =
    Inr \<lparr>modulus_be = modulus, exponent_be = replicate (4 - length exponent) 0 @ exponent\<rparr>"
proof -
  define seq where "seq = der_tlv 0x02 (lead @ modulus) @ der_tlv 0x02 exponent"
  have ll: "length lead \<le> 1" using assms(2) by auto
  have ls: "length (der_tlv t bs) \<le> 4 + length bs" for t bs
    using length_der_length [of "length bs"] by (simp add: der_tlv_def)
  have lseq: "length seq \<le> 300"
    using ls [of 2 "lead @ modulus"] ls [of 2 exponent] ll assms(1,4) by (simp add: seq_def)
  have outer: "read_tlv 0x30 (der_new (der_tlv 0x30 seq)) = Inr (seq, reader_at (der_tlv 0x30 seq) [])"
    using read_tlv_at [of seq "[]" "0x30" "[]"] lseq ls [of "0x30" seq]
    by (simp add: der_new_def USIZE_MAX_def)
  have m: "read_tlv 0x02 (der_new seq) =
      Inr (lead @ modulus, reader_at (der_tlv 0x02 (lead @ modulus)) (der_tlv 0x02 exponent))"
    using read_tlv_at [of "lead @ modulus" "[]" "0x02" "der_tlv 0x02 exponent"] ll assms(1) ls [of 2 "lead @ modulus"]
    by (simp add: der_new_def seq_def USIZE_MAX_def)
  have e: "read_tlv 0x02 (reader_at (der_tlv 0x02 (lead @ modulus)) (der_tlv 0x02 exponent)) =
      Inr (exponent, reader_at (der_tlv 0x02 (lead @ modulus) @ der_tlv 0x02 exponent) [])"
    using read_tlv_at [of exponent "der_tlv 0x02 (lead @ modulus)" "0x02" "[]"] lseq assms(4)
    by (simp add: seq_def USIZE_MAX_def)
  have pm: "parse_rsa2048_modulus (lead @ modulus) = Inr modulus"
    using assms(1,2) by (auto simp: parse_rsa2048_modulus_def RSA_2048_LEN_def)
  have pe: "parse_rsa_exponent exponent = Inr (replicate (4 - length exponent) 0 @ exponent)"
  proof -
    have sp: "splice (replicate 4 0) (4 - length exponent) exponent = replicate (4 - length exponent) 0 @ exponent"
      using assms(4) by (simp add: splice_def min_def)
    have "(replicate (4 - length exponent) 0 @ exponent) ! 3 = last exponent"
    proof -
      have "exponent \<noteq> []" using assms(3) by auto
      moreover have "\<not> 3 < 4 - length exponent" "3 - (4 - length exponent) = length exponent - 1"
        using assms(3,4) by linarith+
      ultimately show ?thesis by (simp add: nth_append last_conv_nth)
    qed
    moreover from this assms(5) have "replicate (4 - length exponent) 0 @ exponent \<noteq> replicate 4 0"
      by (auto dest: arg_cong [of _ _ "\<lambda>xs. xs ! 3"])
    ultimately show ?thesis using assms(3,4,5) by (auto simp: parse_rsa_exponent_def sp Let_def)
  qed
  show ?thesis
    unfolding parse_pkcs1_rsa2048_public_key_der_def rsa_public_key_der_def seq_def [symmetric]
    by (simp add: outer m e pm pe der_is_empty_def)
qed

theorem rsa_public_key_der_roundtrip_witness:
  "parse_pkcs1_rsa2048_public_key_der (rsa_public_key_der ([0] @ replicate 256 0xC3) [1, 0, 1]) =
    Inr \<lparr>modulus_be = replicate 256 0xC3, exponent_be = replicate (4 - length [1, 0, 1 :: u8]) 0 @ [1, 0, 1]\<rparr>"
  by (rule rsa_public_key_der_roundtrip) simp_all

end
