(* ===== verification/Radio_433.thy ===== *)
theory Radio_433
  imports App_Bus
begin

text \<open>
  The CC1101 radio, \<open>firmware/src/radio_433.rs\<close>, and the task that prepares it,
  \<open>tasks/radio_433.rs\<close>, with \<open>pulse_capture.rs\<close>. The driver library is a parameter: one function
  that executes a command on the chip state \<open>'c\<close> and may fail. What the task reads from the chip
  while it samples the signal is an input.
\<close>

section \<open>The driver\<close>

datatype DecisionBoundary = Db4 | Db8 | Db12 | Db16
datatype TargetAmplitude = Db24 | Db27 | Db30 | Db33 | Db36 | Db38 | Db40 | Db42
datatype RadioMode = Idle | Receive
datatype GdoCfg = SERIAL_DATA_OUT | CLK_XOSC_192

datatype DriverCmd =
    ResetChip | WhiteDataEnable bool | SetFreqIf nat | SetAutocalibrationFromIdle
  | SetMaxLnaGainBelowMax9_2 | SetFrequency nat | SetModulationAskOok | SetSyncModeDisabled
  | SetPacketLengthInfinite | SetDataRate nat | SetChannelBandwidth nat
  | SetMagnTarget TargetAmplitude | SetFilterLength DecisionBoundary
  | SetCarrierSenseThreshold u8 | SetGdo0Config GdoCfg | SetRawMode | SetRadioMode RadioMode

datatype RadioError = Spi | NotResponding | ConfigError

type_synonym 'c driver = "DriverCmd \<Rightarrow> 'c \<Rightarrow> (unit + unit) \<times> 'c"

record 'c Cc1101Radio =
  chip :: 'c
  data_pin :: bool
  r_detection_threshold_db :: u8
  r_filter_level :: u8
  r_channel_bandwidth_index :: u8
  r_carrier_sense_threshold :: u8

text \<open>One command, its failure mapped to \<open>ConfigError\<close>.\<close>

definition command :: "'c driver \<Rightarrow> DriverCmd \<Rightarrow> 'c Cc1101Radio \<Rightarrow> (RadioError + unit) \<times> 'c Cc1101Radio" where
  "command drv cmd r =
     (case drv cmd (chip r) of (res, c) \<Rightarrow> (result_map_err (\<lambda>_. ConfigError) res, r\<lparr>chip := c\<rparr>))"

section \<open>The radio\<close>

definition decision_boundary_for_threshold :: "u8 \<Rightarrow> DecisionBoundary" where
  "decision_boundary_for_threshold db =
     (let q = quantize_detection_threshold_db db
      in if q = 4 then Db4 else if q = 8 then Db8 else if q = 12 then Db12 else Db16)"

definition target_amplitude_for_level :: "u8 \<Rightarrow> TargetAmplitude" where
  "target_amplitude_for_level level =
     (if level = 0 then Db24 else if level = 1 then Db27 else if level = 2 then Db30
      else if level = 3 then Db33 else if level = 4 then Db36 else if level = 5 then Db38
      else if level = 6 then Db40 else Db42)"

definition radio_new :: "'c \<Rightarrow> 'c Cc1101Radio" where
  "radio_new c =
     \<lparr>chip = c, data_pin = True,
      r_detection_threshold_db = rs_detection_threshold_db DEFAULT_RADIO_SETTINGS,
      r_filter_level = rs_magn_target DEFAULT_RADIO_SETTINGS,
      r_channel_bandwidth_index = rs_channel_bandwidth_index DEFAULT_RADIO_SETTINGS,
      r_carrier_sense_threshold = rs_carrier_sense_threshold DEFAULT_RADIO_SETTINGS\<rparr>"

definition radio_restore_settings_after_reset :: "RadioSettings \<Rightarrow> 'c Cc1101Radio \<Rightarrow> 'c Cc1101Radio" where
  "radio_restore_settings_after_reset s r =
     r\<lparr>r_detection_threshold_db := quantize_detection_threshold_db (rs_detection_threshold_db s),
       r_filter_level := min (rs_magn_target s) MAGN_TARGET_MAX,
       r_channel_bandwidth_index := min (rs_channel_bandwidth_index s) CHANNEL_BANDWIDTH_MAX_INDEX,
       r_carrier_sense_threshold := min (rs_carrier_sense_threshold s) CARRIER_SENSE_MAX\<rparr>"

definition get_detection_threshold :: "'c Cc1101Radio \<Rightarrow> u8" where
  "get_detection_threshold r = quantize_detection_threshold_db (r_detection_threshold_db r)"

definition set_detection_threshold ::
  "'c driver \<Rightarrow> u8 \<Rightarrow> 'c Cc1101Radio \<Rightarrow> (RadioError + unit) \<times> 'c Cc1101Radio" where
  "set_detection_threshold drv db r =
     (let quantized_db = quantize_detection_threshold_db db
      in st_bind (command drv (SetRadioMode Idle) r) (\<lambda>_ r.
         st_bind (command drv (SetFilterLength (decision_boundary_for_threshold quantized_db)) r) (\<lambda>_ r.
         st_bind (command drv (SetRadioMode Receive) r) (\<lambda>_ r.
         (Inr (), r\<lparr>r_detection_threshold_db := quantized_db\<rparr>)))))"

definition set_filter_level ::
  "'c driver \<Rightarrow> u8 \<Rightarrow> 'c Cc1101Radio \<Rightarrow> (RadioError + unit) \<times> 'c Cc1101Radio" where
  "set_filter_level drv level r =
     (let clamped_level = min level MAGN_TARGET_MAX
      in st_bind (command drv (SetRadioMode Idle) r) (\<lambda>_ r.
         st_bind (command drv (SetMagnTarget (target_amplitude_for_level clamped_level)) r) (\<lambda>_ r.
         st_bind (command drv (SetRadioMode Receive) r) (\<lambda>_ r.
         (Inr (), r\<lparr>r_filter_level := clamped_level\<rparr>)))))"

definition set_channel_bandwidth_index ::
  "'c driver \<Rightarrow> u8 \<Rightarrow> 'c Cc1101Radio \<Rightarrow> (RadioError + unit) \<times> 'c Cc1101Radio" where
  "set_channel_bandwidth_index drv index r =
     (let clamped_index = min index CHANNEL_BANDWIDTH_MAX_INDEX
      in st_bind (command drv (SetRadioMode Idle) r) (\<lambda>_ r.
         st_bind (command drv (SetChannelBandwidth (unat (channel_bandwidth_hz clamped_index))) r) (\<lambda>_ r.
         st_bind (command drv (SetRadioMode Receive) r) (\<lambda>_ r.
         (Inr (), r\<lparr>r_channel_bandwidth_index := clamped_index\<rparr>)))))"

definition set_carrier_sense_threshold ::
  "'c driver \<Rightarrow> u8 \<Rightarrow> 'c Cc1101Radio \<Rightarrow> (RadioError + unit) \<times> 'c Cc1101Radio" where
  "set_carrier_sense_threshold drv threshold r =
     (let clamped_threshold = min threshold CARRIER_SENSE_MAX
      in st_bind (command drv (SetRadioMode Idle) r) (\<lambda>_ r.
         st_bind (command drv (SetCarrierSenseThreshold clamped_threshold) r) (\<lambda>_ r.
         st_bind (command drv (SetRadioMode Receive) r) (\<lambda>_ r.
         (Inr (), r\<lparr>r_carrier_sense_threshold := clamped_threshold\<rparr>)))))"

definition apply_settings ::
  "'c driver \<Rightarrow> RadioSettings \<Rightarrow> 'c Cc1101Radio \<Rightarrow> (RadioError + unit) \<times> 'c Cc1101Radio" where
  "apply_settings drv s r =
     st_bind (set_detection_threshold drv (rs_detection_threshold_db s) r) (\<lambda>_ r.
     st_bind (set_filter_level drv (rs_magn_target s) r) (\<lambda>_ r.
     st_bind (set_channel_bandwidth_index drv (rs_channel_bandwidth_index s) r) (\<lambda>_ r.
     st_bind (set_carrier_sense_threshold drv (rs_carrier_sense_threshold s) r) (\<lambda>_ r.
     (Inr (), r)))))"

fun commands :: "'c driver \<Rightarrow> DriverCmd list \<Rightarrow> 'c Cc1101Radio \<Rightarrow> (RadioError + unit) \<times> 'c Cc1101Radio" where
  "commands drv [] r = (Inr (), r)"
| "commands drv (cmd # cmds) r = st_bind (command drv cmd r) (\<lambda>_ r. commands drv cmds r)"

definition radio_init :: "'c driver \<Rightarrow> 'c Cc1101Radio \<Rightarrow> (RadioError + unit) \<times> 'c Cc1101Radio" where
  "radio_init drv r =
     st_bind (commands drv
       [ResetChip, WhiteDataEnable False, SetFreqIf 203125, SetAutocalibrationFromIdle,
        SetMaxLnaGainBelowMax9_2, SetFrequency 433920000, SetModulationAskOok, SetSyncModeDisabled,
        SetPacketLengthInfinite, SetDataRate 4800,
        SetChannelBandwidth (unat (channel_bandwidth_hz (r_channel_bandwidth_index r))),
        SetMagnTarget (target_amplitude_for_level (r_filter_level r))] r) (\<lambda>_ r.
     let detection_threshold_db = quantize_detection_threshold_db (r_detection_threshold_db r)
     in st_bind (command drv (SetFilterLength (decision_boundary_for_threshold detection_threshold_db)) r) (\<lambda>_ r.
        let r = r\<lparr>r_detection_threshold_db := detection_threshold_db\<rparr>
        in commands drv
             [SetCarrierSenseThreshold (r_carrier_sense_threshold r), SetGdo0Config SERIAL_DATA_OUT, SetRawMode] r))"

definition apply_rf_profile ::
  "'c driver \<Rightarrow> u32 \<Rightarrow> u32 \<Rightarrow> 'c Cc1101Radio \<Rightarrow> (RadioError + unit) \<times> 'c Cc1101Radio" where
  "apply_rf_profile drv freq_hz bandwidth_hz r =
     st_bind (command drv (SetRadioMode Idle) r) (\<lambda>_ r.
     st_bind (command drv (SetFrequency (unat freq_hz)) r) (\<lambda>_ r.
     st_bind (command drv (SetChannelBandwidth (unat bandwidth_hz)) r) (\<lambda>_ r.
     st_bind (command drv (SetRadioMode Receive) r) (\<lambda>_ r.
     (Inr (), r\<lparr>r_channel_bandwidth_index := channel_bandwidth_index bandwidth_hz\<rparr>)))))"

text \<open>Whether an edge arrives within 20 ms is an input.\<close>

definition probe_gdo0_edge_path ::
  "'c driver \<Rightarrow> bool \<Rightarrow> 'c Cc1101Radio \<Rightarrow> (RadioError + bool) \<times> 'c Cc1101Radio" where
  "probe_gdo0_edge_path drv edge_arrives r =
     st_bind (command drv (SetGdo0Config CLK_XOSC_192) r) (\<lambda>_ r.
     let edge_seen = (if data_pin r then edge_arrives else False)
     in st_bind (command drv (SetGdo0Config SERIAL_DATA_OUT) r) (\<lambda>_ r. (Inr edge_seen, r)))"

definition take_data_pin :: "'c Cc1101Radio \<Rightarrow> bool \<times> 'c Cc1101Radio" where
  "take_data_pin r = (data_pin r, r\<lparr>data_pin := False\<rparr>)"

definition current_radio_settings :: "'c Cc1101Radio \<Rightarrow> RadioSettings" where
  "current_radio_settings r =
     \<lparr>rs_detection_threshold_db = get_detection_threshold r, rs_magn_target = r_filter_level r,
      rs_channel_bandwidth_index = r_channel_bandwidth_index r,
      rs_carrier_sense_threshold = r_carrier_sense_threshold r\<rparr>"

text \<open>\<open>apply_pending_settings\<close>: each setting that differs is set, failures are only logged.\<close>

definition set_if_differs ::
  "(u8 \<Rightarrow> 'c Cc1101Radio \<Rightarrow> (RadioError + unit) \<times> 'c Cc1101Radio) \<Rightarrow> ('c Cc1101Radio \<Rightarrow> u8) \<Rightarrow> u8
   \<Rightarrow> 'c Cc1101Radio \<Rightarrow> 'c Cc1101Radio" where
  "set_if_differs setter getter v r = (if v \<noteq> getter r then snd (setter v r) else r)"

definition apply_pending_settings :: "'c driver \<Rightarrow> RadioSettings option \<Rightarrow> 'c Cc1101Radio \<Rightarrow> 'c Cc1101Radio" where
  "apply_pending_settings drv pending r =
     (case pending of
        None \<Rightarrow> r
      | Some s \<Rightarrow>
          let r = set_if_differs (set_detection_threshold drv) get_detection_threshold (rs_detection_threshold_db s) r;
              r = set_if_differs (set_filter_level drv) r_filter_level (rs_magn_target s) r;
              r = set_if_differs (set_channel_bandwidth_index drv) r_channel_bandwidth_index
                    (rs_channel_bandwidth_index s) r
          in set_if_differs (set_carrier_sense_threshold drv) r_carrier_sense_threshold
               (rs_carrier_sense_threshold s) r)"

section \<open>Sampling the signal\<close>

definition RF_SWEEP_DWELL_SAMPLES :: nat where [const_defs]: "RF_SWEEP_DWELL_SAMPLES = 24"

record RfSweepCandidate =
  cand_name :: string
  cand_freq_hz :: u32
  cand_bandwidth_hz :: u32

definition RF_SWEEP_CANDIDATES :: "RfSweepCandidate list" where
  "RF_SWEEP_CANDIDATES =
     map (\<lambda>(n, f, b). \<lparr>cand_name = n, cand_freq_hz = f, cand_bandwidth_hz = b\<rparr>)
       [(''f0-bw325'', 433920000, 325000), (''f0-bw203'', 433920000, 203000),
        (''f0-bw162'', 433920000, 162000), (''f0-bw135'', 433920000, 135000),
        (''fm100-bw203'', 433820000, 203000), (''fp100-bw203'', 434020000, 203000),
        (''fm50-bw162'', 433870000, 162000), (''fp50-bw162'', 433970000, 162000)]"

record SignalSnapshot =
  carrier_sense :: bool
  preamble_quality_reached :: bool
  pktstatus_gdo0 :: bool
  pktstatus_gdo2 :: bool
  pin_gdo0 :: bool
  pin_gdo2 :: bool

record SignalStats =
  sample_count :: nat
  carrier_sense_samples :: nat
  pqt_samples :: nat
  pkt_gdo0_high_samples :: nat
  pkt_gdo2_high_samples :: nat
  pin_gdo0_high_samples :: nat
  pin_gdo2_high_samples :: nat
  pin_gdo0_toggles :: nat
  min_rssi :: int
  max_rssi :: int

definition stats_new :: SignalStats where
  "stats_new = \<lparr>sample_count = 0, carrier_sense_samples = 0, pqt_samples = 0, pkt_gdo0_high_samples = 0,
     pkt_gdo2_high_samples = 0, pin_gdo0_high_samples = 0, pin_gdo2_high_samples = 0,
     pin_gdo0_toggles = 0, min_rssi = 0, max_rssi = - 128\<rparr>"

definition stats_score :: "SignalStats \<Rightarrow> nat" where
  "stats_score st = pin_gdo0_toggles st * 100 + pin_gdo0_high_samples st * 10 + pkt_gdo0_high_samples st"

text \<open>One sample: the signal strength and the snapshot, each unless its read fails.\<close>

type_synonym sample = "int option \<times> SignalSnapshot option"

definition sample_step :: "sample \<Rightarrow> SignalStats \<times> bool option \<Rightarrow> SignalStats \<times> bool option" where
  "sample_step smp = (\<lambda>(stats, previous_pin_gdo0).
     let stats = (case fst smp of
           None \<Rightarrow> stats
         | Some rssi \<Rightarrow>
             let stats = (if rssi < min_rssi stats then stats\<lparr>min_rssi := rssi\<rparr> else stats)
             in if max_rssi stats < rssi then stats\<lparr>max_rssi := rssi\<rparr> else stats)
     in case snd smp of
          None \<Rightarrow> (stats, previous_pin_gdo0)
        | Some snapshot \<Rightarrow>
            (stats\<lparr>sample_count := sample_count stats + 1,
                   carrier_sense_samples := carrier_sense_samples stats + of_bool (carrier_sense snapshot),
                   pqt_samples := pqt_samples stats + of_bool (preamble_quality_reached snapshot),
                   pkt_gdo0_high_samples := pkt_gdo0_high_samples stats + of_bool (pktstatus_gdo0 snapshot),
                   pkt_gdo2_high_samples := pkt_gdo2_high_samples stats + of_bool (pktstatus_gdo2 snapshot),
                   pin_gdo0_high_samples := pin_gdo0_high_samples stats + of_bool (pin_gdo0 snapshot),
                   pin_gdo2_high_samples := pin_gdo2_high_samples stats + of_bool (pin_gdo2 snapshot),
                   pin_gdo0_toggles := pin_gdo0_toggles stats +
                     (case previous_pin_gdo0 of
                        None \<Rightarrow> 0 | Some previous \<Rightarrow> of_bool (previous \<noteq> pin_gdo0 snapshot))\<rparr>,
             Some (pin_gdo0 snapshot)))"

text \<open>\<open>samples\<close> is what the chip would deliver; the first \<open>n\<close> are read.\<close>

definition sample_signal_stats :: "sample list \<Rightarrow> nat \<Rightarrow> SignalStats" where
  "sample_signal_stats samples n = fst (fold sample_step (take n samples) (stats_new, None))"

section \<open>The sweep\<close>

text \<open>For each candidate the samples it would show. The best so far is an index and its score.\<close>

fun sweep_loop ::
  "'c driver \<Rightarrow> (nat \<times> RfSweepCandidate \<times> sample list) list \<Rightarrow> (nat \<times> RfSweepCandidate \<times> nat) option \<Rightarrow>
   'c Cc1101Radio \<Rightarrow> (nat \<times> RfSweepCandidate \<times> nat) option \<times> 'c Cc1101Radio" where
  "sweep_loop drv [] best r = (best, r)"
| "sweep_loop drv ((index, candidate, samples) # rest) best r =
     (case apply_rf_profile drv (cand_freq_hz candidate) (cand_bandwidth_hz candidate) r of
        (Inl _, r) \<Rightarrow> sweep_loop drv rest best r
      | (Inr _, r) \<Rightarrow>
          let score = stats_score (sample_signal_stats samples RF_SWEEP_DWELL_SAMPLES);
              better = (case best of None \<Rightarrow> True | Some (_, _, best_score) \<Rightarrow> best_score < score)
          in sweep_loop drv rest (if better then Some (index, candidate, score) else best) r)"

definition run_rf_sweep ::
  "'c driver \<Rightarrow> (nat \<Rightarrow> sample list) \<Rightarrow> 'c Cc1101Radio \<Rightarrow> nat option \<times> 'c Cc1101Radio" where
  "run_rf_sweep drv signal r =
     (let candidates = map (\<lambda>(i, c). (i, c, signal i)) (enumerate 0 RF_SWEEP_CANDIDATES)
      in case sweep_loop drv candidates None r of
           (None, r) \<Rightarrow> (None, r)
         | (Some (index, candidate, _), r) \<Rightarrow>
             case apply_rf_profile drv (cand_freq_hz candidate) (cand_bandwidth_hz candidate) r of
               (Inl _, r) \<Rightarrow> (None, r)
             | (Inr _, r) \<Rightarrow> (Some index, r))"

text \<open>The chosen profile in RTC memory, as the word before and after.\<close>

definition persist_rf_profile_index :: "nat \<Rightarrow> u32 \<Rightarrow> u32" where
  "persist_rf_profile_index index word =
     (if 256 \<le> index then word else encode_rf_profile \<lparr>rf_profile_index = of_nat index\<rparr>)"

definition load_persisted_rf_profile_index :: "u32 \<Rightarrow> nat option \<times> u32" where
  "load_persisted_rf_profile_index word =
     (case decode_rf_profile word of
        Inr decoded \<Rightarrow>
          let index = unat (rf_profile_index (dv_value decoded))
          in if length RF_SWEEP_CANDIDATES \<le> index then (None, word)
             else (Some index, if dv_needs_migration decoded then encode_rf_profile (dv_value decoded) else word)
      | Inl _ \<Rightarrow> (None, word))"

section \<open>Preparing for capture\<close>

text \<open>
  The state that outlives the radio: the two RTC words. \<open>hw_info\<close> is the chip's answer and
  \<open>cold_boot\<close> the class of the wake-up.
\<close>

record RtcWords =
  w_rf_profile :: u32
  w_radio_settings :: u32

definition prepare_radio_for_capture ::
  "'c driver \<Rightarrow> (unit + u8 \<times> u8) \<Rightarrow> bool \<Rightarrow> (nat \<Rightarrow> sample list) \<Rightarrow> 'c Cc1101Radio \<Rightarrow> RtcWords \<Rightarrow>
   (unit + RadioSettings) \<times> 'c Cc1101Radio \<times> RtcWords" where
  "prepare_radio_for_capture drv hw_info cold_boot signal r w =
     (case hw_info of
        Inl _ \<Rightarrow> (Inl (), r, w)
      | Inr _ \<Rightarrow>
          case command drv (SetRadioMode Receive) r of
            (Inl _, r) \<Rightarrow> (Inl (), r, w)
          | (Inr _, r) \<Rightarrow>
              let (r, w) =
                    (if cold_boot
                     then case run_rf_sweep drv signal r of
                            (Some index, r) \<Rightarrow> (r, w\<lparr>w_rf_profile := persist_rf_profile_index index (w_rf_profile w)\<rparr>)
                          | (None, r) \<Rightarrow> (r, w)
                     else case load_persisted_rf_profile_index (w_rf_profile w) of
                            (Some index, word) \<Rightarrow>
                              let candidate = RF_SWEEP_CANDIDATES ! index
                              in (snd (apply_rf_profile drv (cand_freq_hz candidate) (cand_bandwidth_hz candidate) r),
                                  w\<lparr>w_rf_profile := word\<rparr>)
                          | (None, word) \<Rightarrow> (r, w\<lparr>w_rf_profile := word\<rparr>));
                  (r, w) =
                    (case radio_load_settings (w_radio_settings w) of
                       (Some settings, word) \<Rightarrow> (snd (apply_settings drv settings r), w\<lparr>w_radio_settings := word\<rparr>)
                     | (None, word) \<Rightarrow> (r, w\<lparr>w_radio_settings := word\<rparr>))
              in (Inr (current_radio_settings r), r, w))"

text \<open>
  One round of the event router: while capture is not allowed it waits; otherwise the next reading
  becomes a command to MQTT.
\<close>

definition event_router_step :: "OtaState option \<Rightarrow> RadioReading list \<Rightarrow> RadioReading list \<times> AppCommand list" where
  "event_router_step ota_watch telemetry =
     (if \<not> is_radio_capture_allowed (case ota_watch of Some s \<Rightarrow> s | None \<Rightarrow> Inactive) then (telemetry, [])
      else case telemetry of
        [] \<Rightarrow> ([], [])
      | reading # rest \<Rightarrow>
          (rest, case route_event_to_mqtt_command (RadioFrameDecoded reading) of
                   Some cmd \<Rightarrow> [cmd] | None \<Rightarrow> []))"

section \<open>The cached settings\<close>

definition radio_ok :: "'c Cc1101Radio \<Rightarrow> bool" where
  "radio_ok r \<longleftrightarrow> r_filter_level r \<le> 7 \<and> r_channel_bandwidth_index r \<le> 3 \<and> r_carrier_sense_threshold r \<le> 7"

lemma quantized: "quantize_detection_threshold_db db \<in> {4, 8, 12, 16}"
  by (simp add: quantize_detection_threshold_db_def)

lemma quantize_idem [simp]:
  "quantize_detection_threshold_db (quantize_detection_threshold_db db) = quantize_detection_threshold_db db"
  by (simp add: quantize_detection_threshold_db_def)

lemma radio_ok_valid: "radio_ok r \<longleftrightarrow> valid_radio_settings (current_radio_settings r)"
  using quantized [of "r_detection_threshold_db r"]
  by (auto simp: radio_ok_def valid_radio_settings_def valid_radio_config_def radio_config_from_def
      current_radio_settings_def get_detection_threshold_def)

lemma clamp_as_min:
  "radio_clamp_settings s =
     \<lparr>rs_detection_threshold_db = quantize_detection_threshold_db (rs_detection_threshold_db s),
      rs_magn_target = min (rs_magn_target s) 7, rs_channel_bandwidth_index = min (rs_channel_bandwidth_index s) 3,
      rs_carrier_sense_threshold = min (rs_carrier_sense_threshold s) 7\<rparr>"
  by (auto simp: radio_clamp_settings_def clamp_radio_config_def radio_settings_from_def radio_config_from_def
      clamp_ord_def const_defs min_def)

lemma command_frame:
  assumes "command drv cmd r = (res, r')"
  obtains c where "r' = r\<lparr>chip := c\<rparr>"
  using assms by (auto simp: command_def split: prod.splits)

lemma commands_frame: "commands drv cmds r = (res, r') \<Longrightarrow> \<exists>c. r' = r\<lparr>chip := c\<rparr>"
proof (induction cmds arbitrary: r)
  case Nil
  then show ?case by (auto intro: exI [of _ "chip r"])
next
  case (Cons cmd cmds)
  from Cons.prems obtain m r1 where "command drv cmd r = (m, r1)" "st_bind (m, r1) (\<lambda>_. commands drv cmds) = (res, r')"
    by (cases "command drv cmd r") simp
  then show ?case
    using Cons.IH by (cases m) (auto elim!: command_frame, fastforce)
qed

lemma radio_ok_chip [simp]: "radio_ok (r\<lparr>chip := c\<rparr>) \<longleftrightarrow> radio_ok r"
  by (simp add: radio_ok_def)

lemma bandwidth_index_le: "channel_bandwidth_index hz \<le> 3"
  by (simp add: channel_bandwidth_index_def const_defs word_le_nat_alt)

lemma min_le_const [simp]: "min x (7 :: u8) \<le> 7" "min x (3 :: u8) \<le> 3"
  by simp_all

text \<open>
  A command sequence in idle mode and its last update: the shape of every setter. It fails with the
  cached settings unchanged, or succeeds after all three commands.
\<close>

definition reconfigure ::
  "'c driver \<Rightarrow> DriverCmd list \<Rightarrow> ('c Cc1101Radio \<Rightarrow> 'c Cc1101Radio) \<Rightarrow> 'c Cc1101Radio \<Rightarrow>
   (RadioError + unit) \<times> 'c Cc1101Radio" where
  "reconfigure drv cmds upd r =
     st_bind (commands drv (SetRadioMode Idle # cmds @ [SetRadioMode Receive]) r) (\<lambda>_ r. (Inr (), upd r))"

lemma setters_reconfigure:
  "set_detection_threshold drv db r = reconfigure drv
     [SetFilterLength (decision_boundary_for_threshold (quantize_detection_threshold_db db))]
     (r_detection_threshold_db_update (\<lambda>_. quantize_detection_threshold_db db)) r"
  "set_filter_level drv db r = reconfigure drv [SetMagnTarget (target_amplitude_for_level (min db 7))]
     (r_filter_level_update (\<lambda>_. min db 7)) r"
  "set_channel_bandwidth_index drv db r = reconfigure drv
     [SetChannelBandwidth (unat (channel_bandwidth_hz (min db 3)))]
     (r_channel_bandwidth_index_update (\<lambda>_. min db 3)) r"
  "set_carrier_sense_threshold drv db r = reconfigure drv [SetCarrierSenseThreshold (min db 7)]
     (r_carrier_sense_threshold_update (\<lambda>_. min db 7)) r"
  "apply_rf_profile drv f b r = reconfigure drv [SetFrequency (unat f), SetChannelBandwidth (unat b)]
     (r_channel_bandwidth_index_update (\<lambda>_. channel_bandwidth_index b)) r"
  by (simp_all add: set_detection_threshold_def set_filter_level_def set_channel_bandwidth_index_def
      set_carrier_sense_threshold_def apply_rf_profile_def reconfigure_def st_bind_assoc const_defs Let_def)

lemma reconfigure_cases:
  assumes "reconfigure drv cmds upd r = (res, r')"
  obtains (failed) e c where "res = Inl e" "r' = r\<lparr>chip := c\<rparr>"
  | (complete) c where "res = Inr ()" "r' = upd (r\<lparr>chip := c\<rparr>)"
      "commands drv (SetRadioMode Idle # cmds @ [SetRadioMode Receive]) r = (Inr (), r\<lparr>chip := c\<rparr>)"
proof -
  obtain m r1 where m: "commands drv (SetRadioMode Idle # cmds @ [SetRadioMode Receive]) r = (m, r1)" by fastforce
  then obtain c where "r1 = r\<lparr>chip := c\<rparr>" using commands_frame by blast
  with m assms that show thesis by (cases m) (auto simp: reconfigure_def)
qed

lemma reconfigure_ok:
  assumes "reconfigure drv cmds upd r = (res, r')" "radio_ok r" "\<And>x. radio_ok x \<Longrightarrow> radio_ok (upd x)"
  shows "radio_ok r'"
  using assms by (cases rule: reconfigure_cases) auto

lemma setters_ok:
  assumes "radio_ok r"
  shows "radio_ok (snd (set_detection_threshold drv v r))" "radio_ok (snd (set_filter_level drv v r))"
    "radio_ok (snd (set_channel_bandwidth_index drv v r))" "radio_ok (snd (set_carrier_sense_threshold drv v r))"
    "radio_ok (snd (apply_rf_profile drv f b r))"
  unfolding setters_reconfigure
  by (rule reconfigure_ok [OF _ assms], rule prod.collapse [symmetric],
      simp add: radio_ok_def bandwidth_index_le)+

text \<open>The settings the radio reports are valid from its construction on, whatever fails.\<close>

inductive radio_reachable :: "'c driver \<Rightarrow> 'c Cc1101Radio \<Rightarrow> bool" for drv where
  new: "radio_reachable drv (radio_new c)"
| restore: "radio_reachable drv r \<Longrightarrow> radio_reachable drv (radio_restore_settings_after_reset s r)"
| init: "radio_reachable drv r \<Longrightarrow> radio_reachable drv (snd (radio_init drv r))"
| apply_all: "radio_reachable drv r \<Longrightarrow> radio_reachable drv (snd (apply_settings drv s r))"
| pending: "radio_reachable drv r \<Longrightarrow> radio_reachable drv (apply_pending_settings drv p r)"
| profile: "radio_reachable drv r \<Longrightarrow> radio_reachable drv (snd (apply_rf_profile drv f b r))"
| probe: "radio_reachable drv r \<Longrightarrow> radio_reachable drv (snd (probe_gdo0_edge_path drv e r))"
| take_pin: "radio_reachable drv r \<Longrightarrow> radio_reachable drv (snd (take_data_pin r))"

lemma radio_ok_threshold [simp]: "radio_ok (r\<lparr>r_detection_threshold_db := t\<rparr>) \<longleftrightarrow> radio_ok r"
  by (simp add: radio_ok_def)

lemma commands_ok [simp]: "radio_ok r \<Longrightarrow> radio_ok (snd (commands drv cmds r))"
  using commands_frame [of drv cmds r "fst (commands drv cmds r)" "snd (commands drv cmds r)"] by auto

lemma st_bind_ok:
  "radio_ok (snd m) \<Longrightarrow> (\<And>x s. radio_ok s \<Longrightarrow> radio_ok (snd (k x s))) \<Longrightarrow> radio_ok (snd (st_bind m k))"
  by (cases m; cases "fst m") auto

lemma command_ok: "radio_ok r \<Longrightarrow> radio_ok (snd (command drv cmd r))"
  by (simp add: command_def split: prod.splits)

lemma radio_init_ok: "radio_ok r \<Longrightarrow> radio_ok (snd (radio_init drv r))"
  unfolding radio_init_def Let_def by (intro st_bind_ok command_ok commands_ok) auto

lemma apply_settings_ok: "radio_ok r \<Longrightarrow> radio_ok (snd (apply_settings drv s r))"
  unfolding apply_settings_def by (intro st_bind_ok setters_ok) auto

lemma radio_reachable_ok: "radio_reachable drv r \<Longrightarrow> radio_ok r"
proof (induction rule: radio_reachable.induct)
  case (new c)
  show ?case by (simp add: radio_ok_def radio_new_def DEFAULT_RADIO_SETTINGS_def const_defs word_le_nat_alt)
next
  case (restore r s)
  show ?case by (simp add: radio_ok_def radio_restore_settings_after_reset_def const_defs)
next
  case (pending r p)
  then show ?case
    by (auto simp: apply_pending_settings_def set_if_differs_def Let_def setters_ok split: option.splits)
next
  case (probe r e)
  then show ?case
    unfolding probe_gdo0_edge_path_def Let_def by (intro st_bind_ok command_ok) auto
next
  case (take_pin r)
  then show ?case by (simp add: take_data_pin_def radio_ok_def)
qed (simp_all add: radio_init_ok apply_settings_ok setters_ok)

section \<open>What the chip is set to\<close>

text \<open>
  What is relied on of the driver: a tuning command that succeeds has its effect on the registers,
  seen through \<open>obs\<close>, and no other.
\<close>

record ChipRegs =
  reg_mode :: RadioMode
  reg_freq :: nat
  reg_bandwidth :: nat
  reg_magn :: TargetAmplitude
  reg_filter :: DecisionBoundary
  reg_cs :: u8

fun effect :: "DriverCmd \<Rightarrow> (ChipRegs \<Rightarrow> ChipRegs) option" where
  "effect (SetRadioMode m) = Some (reg_mode_update (\<lambda>_. m))"
| "effect (SetFrequency f) = Some (reg_freq_update (\<lambda>_. f))"
| "effect (SetChannelBandwidth b) = Some (reg_bandwidth_update (\<lambda>_. b))"
| "effect (SetMagnTarget t) = Some (reg_magn_update (\<lambda>_. t))"
| "effect (SetFilterLength d) = Some (reg_filter_update (\<lambda>_. d))"
| "effect (SetCarrierSenseThreshold t) = Some (reg_cs_update (\<lambda>_. t))"
| "effect _ = None"

definition driver_law :: "'c driver \<Rightarrow> ('c \<Rightarrow> ChipRegs) \<Rightarrow> bool" where
  "driver_law drv obs \<longleftrightarrow>
     (\<forall>cmd g c u c'. effect cmd = Some g \<longrightarrow> drv cmd c = (Inr u, c') \<longrightarrow> obs c' = g (obs c))"

lemma command_effect:
  assumes "driver_law drv obs" "command drv cmd r = (Inr u, r')" "effect cmd = Some g"
  shows "obs (chip r') = g (obs (chip r))"
proof -
  obtain m c where "drv cmd (chip r) = (m, c)" by fastforce
  with assms show ?thesis by (cases m) (auto simp: command_def driver_law_def)
qed

lemma commands_effect:
  assumes law: "driver_law drv obs"
  shows "commands drv cmds r = (Inr u, r') \<Longrightarrow> map effect cmds = map Some gs \<Longrightarrow>
    obs (chip r') = fold (\<lambda>g. g) gs (obs (chip r))"
proof (induction cmds arbitrary: r gs)
  case (Cons cmd cmds)
  then obtain g hs where gs: "gs = g # hs" "effect cmd = Some g" "map effect cmds = map Some hs"
    by (cases gs) auto
  from Cons.prems(1) obtain v r1 where r1: "command drv cmd r = (Inr v, r1)" "commands drv cmds r1 = (Inr u, r')"
    by (auto elim!: st_bind_InrE)
  show ?case using Cons.IH [OF r1(2) gs(3)] command_effect [OF law r1(1) gs(2)] by (simp add: gs(1))
qed simp

lemma reconfigure_effect:
  assumes "driver_law drv obs" "reconfigure drv cmds upd r = (Inr u, r')"
    and "\<And>x. chip (upd x) = chip x" "map effect cmds = map Some gs"
  shows "obs (chip r') = fold (\<lambda>g. g) gs (obs (chip r)\<lparr>reg_mode := Idle\<rparr>)\<lparr>reg_mode := Receive\<rparr>"
    and "\<exists>c. r' = upd (r\<lparr>chip := c\<rparr>)"
proof -
  from assms(2) obtain c where c: "r' = upd (r\<lparr>chip := c\<rparr>)"
    "commands drv (SetRadioMode Idle # cmds @ [SetRadioMode Receive]) r = (Inr (), r\<lparr>chip := c\<rparr>)"
    by (cases rule: reconfigure_cases) auto
  with commands_effect [OF assms(1) c(2), of "reg_mode_update (\<lambda>_. Idle) # gs @ [reg_mode_update (\<lambda>_. Receive)]"] assms(3,4)
  show "obs (chip r') = fold (\<lambda>g. g) gs (obs (chip r)\<lparr>reg_mode := Idle\<rparr>)\<lparr>reg_mode := Receive\<rparr>" by simp
  show "\<exists>c. r' = upd (r\<lparr>chip := c\<rparr>)" using c(1) by blast
qed

lemma setters_effect:
  assumes law: "driver_law drv obs"
  shows "set_detection_threshold drv v r = (Inr u, r') \<Longrightarrow>
      obs (chip r') = obs (chip r)\<lparr>reg_filter := decision_boundary_for_threshold v, reg_mode := Receive\<rparr> \<and>
      (\<exists>c. r' = r\<lparr>chip := c, r_detection_threshold_db := quantize_detection_threshold_db v\<rparr>)"
    and "set_filter_level drv v r = (Inr u, r') \<Longrightarrow>
      obs (chip r') = obs (chip r)\<lparr>reg_magn := target_amplitude_for_level (min v 7), reg_mode := Receive\<rparr> \<and>
      (\<exists>c. r' = r\<lparr>chip := c, r_filter_level := min v 7\<rparr>)"
    and "set_channel_bandwidth_index drv v r = (Inr u, r') \<Longrightarrow>
      obs (chip r') = obs (chip r)\<lparr>reg_bandwidth := unat (channel_bandwidth_hz (min v 3)), reg_mode := Receive\<rparr> \<and>
      (\<exists>c. r' = r\<lparr>chip := c, r_channel_bandwidth_index := min v 3\<rparr>)"
    and "set_carrier_sense_threshold drv v r = (Inr u, r') \<Longrightarrow>
      obs (chip r') = obs (chip r)\<lparr>reg_cs := min v 7, reg_mode := Receive\<rparr> \<and>
      (\<exists>c. r' = r\<lparr>chip := c, r_carrier_sense_threshold := min v 7\<rparr>)"
    and "apply_rf_profile drv f b r = (Inr u, r') \<Longrightarrow>
      obs (chip r') = obs (chip r)\<lparr>reg_freq := unat f, reg_bandwidth := unat b, reg_mode := Receive\<rparr> \<and>
      (\<exists>c. r' = r\<lparr>chip := c, r_channel_bandwidth_index := channel_bandwidth_index b\<rparr>)"
  unfolding setters_reconfigure
  using reconfigure_effect [OF law, where gs = "[reg_filter_update (\<lambda>_. decision_boundary_for_threshold (quantize_detection_threshold_db v))]"]
  apply (force simp: decision_boundary_for_threshold_def)
  using reconfigure_effect [OF law, where gs = "[reg_magn_update (\<lambda>_. target_amplitude_for_level (min v 7))]"]
  apply force
  using reconfigure_effect [OF law, where gs = "[reg_bandwidth_update (\<lambda>_. unat (channel_bandwidth_hz (min v 3)))]"]
  apply force
  using reconfigure_effect [OF law, where gs = "[reg_cs_update (\<lambda>_. min v 7)]"]
  apply force
  using reconfigure_effect [OF law, where gs = "[reg_freq_update (\<lambda>_. unat f), reg_bandwidth_update (\<lambda>_. unat b)]"]
  apply force
  done

text \<open>A setter whose command fails midway leaves the chip idle: it does not listen any more.\<close>

lemma failed_setter_leaves_chip_idle:
  assumes "driver_law drv obs" "drv (SetRadioMode Idle) (chip r) = (Inr (), c)"
    and "drv (SetMagnTarget (target_amplitude_for_level (min v 7))) c = (Inl (), c)"
  shows "fst (set_filter_level drv v r) = Inl ConfigError"
    and "reg_mode (obs (chip (snd (set_filter_level drv v r)))) = Idle"
proof -
  have "effect (SetRadioMode Idle) = Some (reg_mode_update (\<lambda>_. Idle))" by simp
  with assms(1,2) have "obs c = obs (chip r)\<lparr>reg_mode := Idle\<rparr>" unfolding driver_law_def by blast
  with assms(2,3) show "fst (set_filter_level drv v r) = Inl ConfigError"
    "reg_mode (obs (chip (snd (set_filter_level drv v r)))) = Idle"
    by (simp_all add: setters_reconfigure reconfigure_def command_def)
qed

section \<open>The best candidate\<close>

text \<open>The candidates whose profile could be applied, with the scores they showed.\<close>

fun measured ::
  "'c driver \<Rightarrow> (nat \<times> RfSweepCandidate \<times> sample list) list \<Rightarrow> 'c Cc1101Radio \<Rightarrow>
   (nat \<times> RfSweepCandidate \<times> nat) list" where
  "measured drv [] r = []"
| "measured drv ((i, cand, samples) # rest) r =
     (case apply_rf_profile drv (cand_freq_hz cand) (cand_bandwidth_hz cand) r of
        (Inl _, r) \<Rightarrow> measured drv rest r
      | (Inr _, r) \<Rightarrow>
          (i, cand, stats_score (sample_signal_stats samples RF_SWEEP_DWELL_SAMPLES)) # measured drv rest r)"

definition pick :: "(nat \<times> RfSweepCandidate \<times> nat) \<Rightarrow> (nat \<times> RfSweepCandidate \<times> nat) option \<Rightarrow>
    (nat \<times> RfSweepCandidate \<times> nat) option" where
  "pick x best = (if (case best of None \<Rightarrow> True | Some b \<Rightarrow> snd (snd b) < snd (snd x)) then Some x else best)"

lemma pick_simps [simp]:
  "pick x None = Some x"
  "pick x (Some b) = (if snd (snd b) < snd (snd x) then Some x else Some b)"
  by (simp_all add: pick_def)

lemma sweep_loop_pick: "fst (sweep_loop drv cs best r) = fold pick (measured drv cs r) best"
  by (induction drv cs best r rule: sweep_loop.induct)
     (auto simp: pick_def Let_def split: prod.splits sum.splits option.splits)

lemma fold_pick_Some:
  "fold pick xs (Some b) = Some m \<Longrightarrow>
     (m = b \<and> (\<forall>x \<in> set xs. snd (snd x) \<le> snd (snd b))) \<or>
     (snd (snd b) < snd (snd m) \<and>
       (\<exists>ys zs. xs = ys @ m # zs \<and> (\<forall>y \<in> set ys. snd (snd y) < snd (snd m)) \<and> (\<forall>z \<in> set zs. snd (snd z) \<le> snd (snd m))))"
proof (induction xs arbitrary: b)
  case (Cons x xs)
  show ?case
  proof (cases "snd (snd b) < snd (snd x)")
    case True
    then have "fold pick xs (Some x) = Some m" using Cons.prems by simp
    from Cons.IH [OF this] True show ?thesis
    proof (elim disjE conjE exE)
      assume "m = x" "\<forall>y \<in> set xs. snd (snd y) \<le> snd (snd x)"
      with True show ?thesis by (intro disjI2 conjI exI [of _ "[]"] exI [of _ xs]) auto
    next
      fix ys zs
      assume "snd (snd x) < snd (snd m)" "xs = ys @ m # zs" "\<forall>y \<in> set ys. snd (snd y) < snd (snd m)"
        "\<forall>z \<in> set zs. snd (snd z) \<le> snd (snd m)"
      with True show ?thesis by (intro disjI2 conjI exI [of _ "x # ys"] exI [of _ zs]) auto
    qed
  next
    case False
    then have "fold pick xs (Some b) = Some m" using Cons.prems by simp
    from Cons.IH [OF this] False show ?thesis
    proof (elim disjE conjE exE)
      fix ys zs
      assume "snd (snd b) < snd (snd m)" "xs = ys @ m # zs" "\<forall>y \<in> set ys. snd (snd y) < snd (snd m)"
        "\<forall>z \<in> set zs. snd (snd z) \<le> snd (snd m)"
      with False show ?thesis by (intro disjI2 conjI exI [of _ "x # ys"] exI [of _ zs]) auto
    qed auto
  qed
qed simp

lemma fold_pick_None:
  assumes "fold pick xs None = Some m"
  shows "\<exists>ys zs. xs = ys @ m # zs \<and> (\<forall>y \<in> set ys. snd (snd y) < snd (snd m)) \<and> (\<forall>z \<in> set zs. snd (snd z) \<le> snd (snd m))"
proof (cases xs)
  case (Cons x rest)
  then have "fold pick rest (Some x) = Some m" using assms by (simp add: Cons)
  from fold_pick_Some [OF this] show ?thesis
  proof (elim disjE conjE exE)
    assume "m = x" "\<forall>y \<in> set rest. snd (snd y) \<le> snd (snd x)"
    then show ?thesis by (intro exI [of _ "[]"] exI [of _ rest]) (simp add: Cons)
  next
    fix ys zs
    assume "snd (snd x) < snd (snd m)" "rest = ys @ m # zs" "\<forall>y \<in> set ys. snd (snd y) < snd (snd m)"
      "\<forall>z \<in> set zs. snd (snd z) \<le> snd (snd m)"
    then show ?thesis by (intro exI [of _ "x # ys"] exI [of _ zs]) (simp add: Cons)
  qed
qed (use assms in simp)

lemma fold_pick_empty: "fold pick xs None = None \<longleftrightarrow> xs = []"
proof -
  have "fold pick ys (Some b) \<noteq> None" for ys b by (induction ys arbitrary: b) auto
  then show ?thesis by (cases xs) auto
qed

lemma measured_subset:
  "(i, c, s) \<in> set (measured drv cs r) \<Longrightarrow>
    \<exists>smps. (i, c, smps) \<in> set cs \<and> s = stats_score (sample_signal_stats smps RF_SWEEP_DWELL_SAMPLES)"
proof (induction drv cs r rule: measured.induct)
  case (2 drv j cand samples rest r)
  obtain m r1 where m: "apply_rf_profile drv (cand_freq_hz cand) (cand_bandwidth_hz cand) r = (m, r1)" by fastforce
  show ?case
  proof (cases m)
    case (Inl e)
    with 2(1) [OF m [symmetric] Inl] 2(3) m show ?thesis by auto
  next
    case (Inr u)
    with 2(2) [OF m [symmetric] Inr] 2(3) m show ?thesis by auto
  qed
qed simp

definition sweep_candidates :: "(nat \<Rightarrow> sample list) \<Rightarrow> (nat \<times> RfSweepCandidate \<times> sample list) list" where
  "sweep_candidates signal = map (\<lambda>(i, c). (i, c, signal i)) (enumerate 0 RF_SWEEP_CANDIDATES)"

lemma sweep_candidates_mem:
  "(i, c, smps) \<in> set (sweep_candidates signal) \<longleftrightarrow> i < 8 \<and> c = RF_SWEEP_CANDIDATES ! i \<and> smps = signal i"
proof -
  have len: "length RF_SWEEP_CANDIDATES = 8" by (simp add: RF_SWEEP_CANDIDATES_def)
  show ?thesis
    by (auto simp: sweep_candidates_def in_set_enumerate_eq len image_iff intro!: bexI [of _ "(i, RF_SWEEP_CANDIDATES ! i)"])
qed

section \<open>Properties\<close>

text \<open>
  C32: The sweep tunes the radio to the best candidate. When it returns an index, that candidate's
  profile could be applied, its score is at least that of every candidate measured and greater
  than that of every earlier one, and the chip is left receiving on its frequency and bandwidth.
\<close>

theorem sweep_picks_best:
  assumes "driver_law drv obs" and "run_rf_sweep drv signal r = (Some i, r')"
  shows "i < 8 \<and> obs (chip r') = obs (chip (snd (sweep_loop drv (sweep_candidates signal) None r)))
      \<lparr>reg_freq := unat (cand_freq_hz (RF_SWEEP_CANDIDATES ! i)),
       reg_bandwidth := unat (cand_bandwidth_hz (RF_SWEEP_CANDIDATES ! i)), reg_mode := Receive\<rparr> \<and>
    (\<exists>ys zs s. measured drv (sweep_candidates signal) r = ys @ (i, RF_SWEEP_CANDIDATES ! i, s) # zs \<and>
       s = stats_score (sample_signal_stats (signal i) 24) \<and>
       (\<forall>(_, _, t) \<in> set ys. t < s) \<and> (\<forall>(_, _, t) \<in> set zs. t \<le> s))"
proof -
  obtain best r1 where loop: "sweep_loop drv (sweep_candidates signal) None r = (best, r1)" by fastforce
  with assms(2) obtain c s u where best: "best = Some (i, c, s)"
    "apply_rf_profile drv (cand_freq_hz c) (cand_bandwidth_hz c) r1 = (Inr u, r')"
    by (auto simp: run_rf_sweep_def sweep_candidates_def [symmetric] split: option.splits prod.splits sum.splits)
  have "fold pick (measured drv (sweep_candidates signal) r) None = Some (i, c, s)"
    using sweep_loop_pick [of drv "sweep_candidates signal" None r] loop best(1) by simp
  from fold_pick_None [OF this] obtain ys zs where split:
    "measured drv (sweep_candidates signal) r = ys @ (i, c, s) # zs"
    "\<forall>y \<in> set ys. snd (snd y) < s" "\<forall>z \<in> set zs. snd (snd z) \<le> s" by auto
  then have "(i, c, s) \<in> set (measured drv (sweep_candidates signal) r)" by simp
  from measured_subset [OF this] have i: "i < 8" "c = RF_SWEEP_CANDIDATES ! i"
    "s = stats_score (sample_signal_stats (signal i) 24)"
    by (auto simp: sweep_candidates_mem const_defs)
  moreover have "obs (chip r') = obs (chip r1)\<lparr>reg_freq := unat (cand_freq_hz c),
      reg_bandwidth := unat (cand_bandwidth_hz c), reg_mode := Receive\<rparr>"
    using setters_effect(5) [OF assms(1) best(2)] by simp
  moreover have "\<forall>(_, _, t) \<in> set ys. t < s" "\<forall>(_, _, t) \<in> set zs. t \<le> s" using split(2,3) by auto
  ultimately show ?thesis using loop split(1) by auto
qed

definition sample_driver :: "ChipRegs driver" where
  "sample_driver cmd c = (Inr (), case effect cmd of Some g \<Rightarrow> g c | None \<Rightarrow> c)"

lemma sample_driver_law: "driver_law sample_driver id"
  by (simp add: driver_law_def sample_driver_def)

definition sample_chip :: ChipRegs where
  "sample_chip = \<lparr>reg_mode = Idle, reg_freq = 0, reg_bandwidth = 0, reg_magn = Db24, reg_filter = Db4, reg_cs = 0\<rparr>"

theorem sweep_picks_best_witness:
  "\<exists>i r'. run_rf_sweep sample_driver (\<lambda>_. []) (radio_new sample_chip) = (Some i, r') \<and> i < 8 \<and>
     reg_mode (chip r') = Receive"
proof -
  obtain best r1 where loop: "sweep_loop sample_driver (sweep_candidates (\<lambda>_. [])) None (radio_new sample_chip) = (best, r1)"
    by fastforce
  have ok: "apply_rf_profile sample_driver f b x = (Inr (), snd (apply_rf_profile sample_driver f b x))" for f b x
    by (simp add: setters_reconfigure reconfigure_def command_def sample_driver_def)
  obtain c0 cs where "sweep_candidates (\<lambda>_. []) = (0, c0, []) # cs"
    by (simp add: sweep_candidates_def RF_SWEEP_CANDIDATES_def)
  then have "measured sample_driver (sweep_candidates (\<lambda>_. [])) (radio_new sample_chip) \<noteq> []"
    using ok [of "cand_freq_hz c0" "cand_bandwidth_hz c0" "radio_new sample_chip"]
    by (auto split: prod.splits sum.splits)
  then have "best \<noteq> None"
    using sweep_loop_pick [of sample_driver "sweep_candidates (\<lambda>_. [])" None "radio_new sample_chip"] loop
    by (simp add: fold_pick_empty)
  then obtain i c s where "best = Some (i, c, s)" by (cases best) auto
  moreover obtain r' where "apply_rf_profile sample_driver (cand_freq_hz c) (cand_bandwidth_hz c) r1 = (Inr (), r')"
    using ok by blast
  ultimately have run: "run_rf_sweep sample_driver (\<lambda>_. []) (radio_new sample_chip) = (Some i, r')"
    using loop by (simp add: run_rf_sweep_def sweep_candidates_def [symmetric])
  from sweep_picks_best [OF sample_driver_law run] run show ?thesis by auto
qed

text \<open>
  C31: Settings reach the chip. When \<open>apply_settings\<close> succeeds, the chip receives with the decision
  boundary, target amplitude, bandwidth and carrier-sense level of the settings clamped to their
  limits, on the frequency it had, and the radio reports exactly those clamped settings; and
  whether it succeeds or not, and after any other operations on the radio, the settings it reports
  are within their limits.
\<close>

theorem settings_reach_chip:
  assumes "driver_law drv obs" and "radio_reachable drv r"
  shows "(apply_settings drv s r = (Inr (), r') \<longrightarrow>
      current_radio_settings r' = radio_clamp_settings s \<and>
      obs (chip r') = \<lparr>reg_mode = Receive, reg_freq = reg_freq (obs (chip r)),
        reg_bandwidth = unat (channel_bandwidth_hz (rs_channel_bandwidth_index (radio_clamp_settings s))),
        reg_magn = target_amplitude_for_level (rs_magn_target (radio_clamp_settings s)),
        reg_filter = decision_boundary_for_threshold (rs_detection_threshold_db s),
        reg_cs = rs_carrier_sense_threshold (radio_clamp_settings s)\<rparr>) \<and>
    valid_radio_settings (current_radio_settings (snd (apply_settings drv s r)))"
proof (intro conjI impI)
  assume "apply_settings drv s r = (Inr (), r')"
  then obtain u1 r1 u2 r2 u3 r3 u4 where
    "set_detection_threshold drv (rs_detection_threshold_db s) r = (Inr u1, r1)"
    "set_filter_level drv (rs_magn_target s) r1 = (Inr u2, r2)"
    "set_channel_bandwidth_index drv (rs_channel_bandwidth_index s) r2 = (Inr u3, r3)"
    "set_carrier_sense_threshold drv (rs_carrier_sense_threshold s) r3 = (Inr u4, r')"
    by (auto simp: apply_settings_def elim!: st_bind_InrE)
  note eff = setters_effect(1) [OF assms(1) this(1)] setters_effect(2) [OF assms(1) this(2)]
    setters_effect(3) [OF assms(1) this(3)] setters_effect(4) [OF assms(1) this(4)]
  show "current_radio_settings r' = radio_clamp_settings s"
    using eff by (auto simp: current_radio_settings_def clamp_as_min get_detection_threshold_def)
  show "obs (chip r') = \<lparr>reg_mode = Receive, reg_freq = reg_freq (obs (chip r)),
        reg_bandwidth = unat (channel_bandwidth_hz (rs_channel_bandwidth_index (radio_clamp_settings s))),
        reg_magn = target_amplitude_for_level (rs_magn_target (radio_clamp_settings s)),
        reg_filter = decision_boundary_for_threshold (rs_detection_threshold_db s),
        reg_cs = rs_carrier_sense_threshold (radio_clamp_settings s)\<rparr>"
    using eff by (simp add: clamp_as_min ChipRegs.equality)
next
  show "valid_radio_settings (current_radio_settings (snd (apply_settings drv s r)))"
    using apply_settings_ok [OF radio_reachable_ok [OF assms(2)]] by (simp add: radio_ok_valid)
qed

theorem settings_reach_chip_witness:
  "valid_radio_settings (current_radio_settings (snd (apply_settings sample_driver
      \<lparr>rs_detection_threshold_db = 200, rs_magn_target = 9, rs_channel_bandwidth_index = 7,
       rs_carrier_sense_threshold = 8\<rparr> (radio_new sample_chip))))"
  using settings_reach_chip [OF sample_driver_law radio_reachable.new] by blast

end
