(* ===== verification/Pipeline.thy ===== *)
theory Pipeline
  imports Messages
begin

text \<open>
  The telemetry pipeline adapter of \<open>firmware/src/telemetry.rs\<close>: a reading passes the
  deduplication cache and is then offered to a bounded channel. The channel is not code of this
  repository: it is the argument \<open>try_send\<close> of the operations, which returns the channel's new
  state and whether the reading was accepted.
\<close>

section \<open>State and operations\<close>

datatype TelemetryEnqueueOutcome = Queued | DroppedByPolicy | RejectedAsDuplicate

record TelemetryPipelineAdapter =
  ta_dedupe :: DedupeCache
  ta_dropped_total :: nat
  ta_rejected_duplicates_total :: nat
  ta_drop_log_interval_ms :: nat
  ta_next_drop_log_ms :: nat

definition DEFAULT_DEDUPE_TTL_MS :: nat where [const_defs]: "DEFAULT_DEDUPE_TTL_MS = 30000"
definition DEFAULT_DROP_LOG_INTERVAL_MS :: nat where [const_defs]: "DEFAULT_DROP_LOG_INTERVAL_MS = 60000"

definition with_windows :: "nat \<Rightarrow> nat \<Rightarrow> TelemetryPipelineAdapter" where
  "with_windows dedupe_ttl_ms drop_log_interval_ms =
     \<lparr>ta_dedupe = dedupe_new dedupe_ttl_ms, ta_dropped_total = 0, ta_rejected_duplicates_total = 0,
      ta_drop_log_interval_ms = drop_log_interval_ms, ta_next_drop_log_ms = 0\<rparr>"

definition adapter_new :: TelemetryPipelineAdapter where
  "adapter_new = with_windows DEFAULT_DEDUPE_TTL_MS DEFAULT_DROP_LOG_INTERVAL_MS"

definition map_radio_reading_to_record :: "RadioReading \<Rightarrow> TelemetryRecord" where
  "map_radio_reading_to_record reading = to_telemetry_record reading"

text \<open>The second component is the log line, the two counters, when one is written.\<close>

definition maybe_log_drop_metrics ::
  "TelemetryPipelineAdapter \<Rightarrow> nat \<Rightarrow> TelemetryPipelineAdapter \<times> (nat \<times> nat) option" where
  "maybe_log_drop_metrics a now_ms =
     (if now_ms < ta_next_drop_log_ms a then (a, None)
      else (a\<lparr>ta_next_drop_log_ms := sat_add_u64 now_ms (ta_drop_log_interval_ms a)\<rparr>,
            Some (ta_dropped_total a, ta_rejected_duplicates_total a)))"

record 'q enqueue_result =
  er_adapter :: TelemetryPipelineAdapter
  er_channel :: 'q
  er_outcome :: TelemetryEnqueueOutcome
  er_log :: "(nat \<times> nat) option"

definition enqueue_with ::
  "nat \<Rightarrow> TelemetryPipelineAdapter \<Rightarrow> RadioReading \<Rightarrow> nat \<Rightarrow> ('q \<Rightarrow> RadioReading \<Rightarrow> 'q \<times> bool) \<Rightarrow> 'q
     \<Rightarrow> 'q enqueue_result" where
  "enqueue_with n a reading now_ms enq q =
     (let (dedupe, outcome) = observe n (ta_dedupe a) (map_radio_reading_to_record reading) now_ms;
          a = a\<lparr>ta_dedupe := dedupe\<rparr>
      in if outcome = Duplicate
         then \<lparr>er_adapter = a\<lparr>ta_rejected_duplicates_total := (ta_rejected_duplicates_total a + 1) mod 2 ^ 64\<rparr>,
               er_channel = q, er_outcome = RejectedAsDuplicate, er_log = None\<rparr>
         else let (q, sent) = enq q reading
              in if sent
                 then \<lparr>er_adapter = a, er_channel = q, er_outcome = Queued, er_log = None\<rparr>
                 else let a = a\<lparr>ta_dropped_total := (ta_dropped_total a + 1) mod 2 ^ 64\<rparr>;
                          (a, log) = maybe_log_drop_metrics a now_ms
                      in \<lparr>er_adapter = a, er_channel = q, er_outcome = DroppedByPolicy, er_log = log\<rparr>)"

definition enqueue_for_channel ::
  "nat \<Rightarrow> TelemetryPipelineAdapter \<Rightarrow> RadioReading \<Rightarrow> nat \<Rightarrow> ('q \<Rightarrow> RadioReading \<Rightarrow> 'q \<times> bool) \<Rightarrow> 'q
     \<Rightarrow> 'q enqueue_result" where
  "enqueue_for_channel n a reading now_ms try_send sender =
     enqueue_with n a reading now_ms (\<lambda>q queued_reading. try_send q queued_reading) sender"

text \<open>A sequence of readings with their times.\<close>

fun enqueue_run ::
  "nat \<Rightarrow> ('q \<Rightarrow> RadioReading \<Rightarrow> 'q \<times> bool) \<Rightarrow> TelemetryPipelineAdapter \<Rightarrow> 'q \<Rightarrow> (RadioReading \<times> nat) list
     \<Rightarrow> TelemetryPipelineAdapter \<times> 'q \<times> TelemetryEnqueueOutcome list \<times> (nat \<times> (nat \<times> nat)) list" where
  "enqueue_run n try_send a q [] = (a, q, [], [])"
| "enqueue_run n try_send a q ((r, t) # rs) =
     (let e = enqueue_for_channel n a r t try_send q;
          (a', q', outs, logs) = enqueue_run n try_send (er_adapter e) (er_channel e) rs
      in (a', q', er_outcome e # outs, (case er_log e of None \<Rightarrow> logs | Some l \<Rightarrow> (t, l) # logs)))"

section \<open>Lemmas\<close>

definition outcomes_of :: "'a \<times> 'q \<times> 'b \<times> 'l \<Rightarrow> 'b" where "outcomes_of = (\<lambda>(a, q, outs, logs). outs)"
definition logs_of :: "'a \<times> 'q \<times> 'b \<times> 'l \<Rightarrow> 'l" where "logs_of = (\<lambda>(a, q, outs, logs). logs)"

lemma run_parts [simp]:
  "fst (a, q, outs, logs) = a" "outcomes_of (a, q, outs, logs) = outs" "logs_of (a, q, outs, logs) = logs"
  by (simp_all add: outcomes_of_def logs_of_def)

lemma enqueue_for_channel_simps:
  "observe n (ta_dedupe a) (map_radio_reading_to_record r) t = (c, Duplicate) \<Longrightarrow>
     enqueue_for_channel n a r t ts q =
       \<lparr>er_adapter = a\<lparr>ta_dedupe := c, ta_rejected_duplicates_total := (ta_rejected_duplicates_total a + 1) mod 2 ^ 64\<rparr>,
        er_channel = q, er_outcome = RejectedAsDuplicate, er_log = None\<rparr>"
  "observe n (ta_dedupe a) (map_radio_reading_to_record r) t = (c, New) \<Longrightarrow> ts q r = (q', True) \<Longrightarrow>
     enqueue_for_channel n a r t ts q =
       \<lparr>er_adapter = a\<lparr>ta_dedupe := c\<rparr>, er_channel = q', er_outcome = Queued, er_log = None\<rparr>"
  "observe n (ta_dedupe a) (map_radio_reading_to_record r) t = (c, New) \<Longrightarrow> ts q r = (q', False) \<Longrightarrow>
     enqueue_for_channel n a r t ts q =
       (let (a, l) = maybe_log_drop_metrics (a\<lparr>ta_dedupe := c, ta_dropped_total := (ta_dropped_total a + 1) mod 2 ^ 64\<rparr>) t
        in \<lparr>er_adapter = a, er_channel = q', er_outcome = DroppedByPolicy, er_log = l\<rparr>)"
  by (simp_all add: enqueue_for_channel_def enqueue_with_def)

lemma enqueue_for_channel_cases:
  obtains (duplicate) c where "observe n (ta_dedupe a) (map_radio_reading_to_record r) t = (c, Duplicate)"
  | (queued) c q' where "observe n (ta_dedupe a) (map_radio_reading_to_record r) t = (c, New)" "ts q r = (q', True)"
  | (dropped) c q' where "observe n (ta_dedupe a) (map_radio_reading_to_record r) t = (c, New)" "ts q r = (q', False)"
  by (cases "observe n (ta_dedupe a) (map_radio_reading_to_record r) t"; cases "ts q r")
     (metis (full_types) DedupeOutcome.exhaust)

lemma enqueue_run_Cons:
  fixes n t ts a q r
  defines "e \<equiv> enqueue_for_channel n a r t ts q"
  shows "outcomes_of (enqueue_run n ts a q ((r, t) # rs)) =
      er_outcome e # outcomes_of (enqueue_run n ts (er_adapter e) (er_channel e) rs)"
    and "fst (snd (enqueue_run n ts a q ((r, t) # rs))) = fst (snd (enqueue_run n ts (er_adapter e) (er_channel e) rs))"
    and "logs_of (enqueue_run n ts a q ((r, t) # rs)) =
      (case er_log e of None \<Rightarrow> [] | Some l \<Rightarrow> [(t, l)]) @ logs_of (enqueue_run n ts (er_adapter e) (er_channel e) rs)"
  unfolding e_def by (simp_all add: Let_def split_beta outcomes_of_def logs_of_def split: option.split)

lemma enqueue_for_channel_dedupe:
  "ta_dedupe (er_adapter (enqueue_for_channel n a r t ts q)) =
     fst (observe n (ta_dedupe a) (map_radio_reading_to_record r) t)"
  "er_outcome (enqueue_for_channel n a r t ts q) = RejectedAsDuplicate \<longleftrightarrow>
     snd (observe n (ta_dedupe a) (map_radio_reading_to_record r) t) = Duplicate"
  "snd (observe n (ta_dedupe a) (map_radio_reading_to_record r) t) = Duplicate \<Longrightarrow>
     er_channel (enqueue_for_channel n a r t ts q) = q"
  by (auto simp: enqueue_for_channel_def enqueue_with_def maybe_log_drop_metrics_def Let_def split_beta)

lemma enqueue_run_rejections:
  "map (\<lambda>o'. o' = RejectedAsDuplicate) (outcomes_of (enqueue_run n ts a q rs)) =
   map (\<lambda>o'. o' = Duplicate)
     (dw.outcomes n (ta_dedupe a) (map (\<lambda>(r, t). (map_radio_reading_to_record r, t)) rs))"
proof (induction rs arbitrary: a q)
  case (Cons rt rs)
  obtain r t where rt: "rt = (r, t)" by (cases rt)
  show ?case
    using Cons.IH [of "er_adapter (enqueue_for_channel n a r t ts q)" "er_channel (enqueue_for_channel n a r t ts q)"]
    by (simp add: rt Let_def split_beta outcomes_of_def enqueue_for_channel_dedupe)
qed (simp add: outcomes_of_def)

text \<open>The counters add up.\<close>

fun counts :: "TelemetryEnqueueOutcome list \<Rightarrow> TelemetryEnqueueOutcome \<Rightarrow> nat" where
  "counts [] x = 0"
| "counts (y # ys) x = of_bool (y = x) + counts ys x"

lemma enqueue_for_channel_counters:
  "ta_dropped_total (er_adapter (enqueue_for_channel n a r t ts q)) mod 2 ^ 64 =
     (ta_dropped_total a + of_bool (er_outcome (enqueue_for_channel n a r t ts q) = DroppedByPolicy)) mod 2 ^ 64"
  "ta_rejected_duplicates_total (er_adapter (enqueue_for_channel n a r t ts q)) mod 2 ^ 64 =
     (ta_rejected_duplicates_total a + of_bool (er_outcome (enqueue_for_channel n a r t ts q) = RejectedAsDuplicate)) mod 2 ^ 64"
  by (auto simp: enqueue_for_channel_def enqueue_with_def maybe_log_drop_metrics_def Let_def split_beta)

lemma mod_add_chain:
  "x mod m = (y + c) mod m \<Longrightarrow> y mod m = (a + b) mod m \<Longrightarrow> x mod m = (a + (b + c)) mod (m :: nat)"
  by (metis add.assoc mod_add_left_eq)

lemma enqueue_run_counters:
  fixes ts :: "'q \<Rightarrow> RadioReading \<Rightarrow> 'q \<times> bool"
  shows "ta_dropped_total (fst (enqueue_run n ts a q rs)) mod 2 ^ 64 =
     (ta_dropped_total a + counts (outcomes_of (enqueue_run n ts a q rs)) DroppedByPolicy) mod 2 ^ 64"
  and "ta_rejected_duplicates_total (fst (enqueue_run n ts a q rs)) mod 2 ^ 64 =
     (ta_rejected_duplicates_total a + counts (outcomes_of (enqueue_run n ts a q rs)) RejectedAsDuplicate) mod 2 ^ 64"
proof (induction rs arbitrary: a q)
  case (Cons rt rs)
  obtain r t where rt: "rt = (r, t)" by (cases rt)
  let ?e = "enqueue_for_channel n a r t ts q"
  { case 1
    show ?case
      unfolding rt Let_def split_beta outcomes_of_def enqueue_run.simps fst_conv snd_conv counts.simps
      by (rule mod_add_chain [OF _ enqueue_for_channel_counters(1)])
         (rule Cons.IH(1) [unfolded outcomes_of_def split_beta])
  next
    case 2
    show ?case
      unfolding rt Let_def split_beta outcomes_of_def enqueue_run.simps fst_conv snd_conv counts.simps
      by (rule mod_add_chain [OF _ enqueue_for_channel_counters(2)])
         (rule Cons.IH(2) [unfolded outcomes_of_def split_beta]) }
qed (simp_all add: outcomes_of_def)


text \<open>The log lines respect the deadline kept in the adapter.\<close>

lemma enqueue_for_channel_log:
  assumes "ta_next_drop_log_ms a \<le> u64_max" and e: "e = enqueue_for_channel n a r t ts q"
  shows "ta_drop_log_interval_ms (er_adapter e) = ta_drop_log_interval_ms a \<and>
    ta_next_drop_log_ms (er_adapter e) \<le> u64_max \<and>
    ta_next_drop_log_ms a \<le> ta_next_drop_log_ms (er_adapter e) \<and>
    (er_log e \<noteq> None \<longrightarrow> ta_next_drop_log_ms a \<le> t \<and>
      ta_next_drop_log_ms (er_adapter e) = sat_add_u64 t (ta_drop_log_interval_ms a))"
proof (cases rule: enqueue_for_channel_cases [where n = n and a = a and r = r and t = t and ts = ts and q = q])
  case (duplicate c)
  then show ?thesis using assms(1) by (simp add: e enqueue_for_channel_simps(1))
next
  case (queued c q')
  then show ?thesis using assms(1) by (simp add: e enqueue_for_channel_simps(2))
next
  case (dropped c q')
  then show ?thesis using assms(1)
    by (simp add: e enqueue_for_channel_simps(3) maybe_log_drop_metrics_def sat_add_u64_def)
qed

lemma enqueue_run_log_spacing:
  assumes "ta_next_drop_log_ms a \<le> u64_max"
  shows "(\<forall>(t, l) \<in> set (logs_of (enqueue_run n ts a q rs)). ta_next_drop_log_ms a \<le> t) \<and>
    sorted_wrt (\<lambda>x y. sat_add_u64 x (ta_drop_log_interval_ms a) \<le> y) (map fst (logs_of (enqueue_run n ts a q rs)))"
  using assms
proof (induction rs arbitrary: a q)
  case (Cons rt rs)
  obtain r t where rt: "rt = (r, t)" by (cases rt)
  let ?e = "enqueue_for_channel n a r t ts q"
  have L: "ta_drop_log_interval_ms (er_adapter ?e) = ta_drop_log_interval_ms a"
    "ta_next_drop_log_ms (er_adapter ?e) \<le> u64_max"
    "ta_next_drop_log_ms a \<le> ta_next_drop_log_ms (er_adapter ?e)"
    "er_log ?e \<noteq> None \<Longrightarrow> ta_next_drop_log_ms a \<le> t \<and>
      ta_next_drop_log_ms (er_adapter ?e) = sat_add_u64 t (ta_drop_log_interval_ms a)"
    using enqueue_for_channel_log [OF Cons.prems refl, of n r t ts q] by blast+
  let ?rest = "logs_of (enqueue_run n ts (er_adapter ?e) (er_channel ?e) rs)"
  have logs: "logs_of (enqueue_run n ts a q (rt # rs)) =
      (case er_log ?e of None \<Rightarrow> [] | Some l \<Rightarrow> [(t, l)]) @ ?rest"
    unfolding rt by (rule enqueue_run_Cons)
  have IH: "(\<forall>(t, l) \<in> set ?rest. ta_next_drop_log_ms (er_adapter ?e) \<le> t)"
    "sorted_wrt (\<lambda>x y. sat_add_u64 x (ta_drop_log_interval_ms a) \<le> y) (map fst ?rest)"
    using Cons.IH [of "er_adapter ?e" "er_channel ?e", OF L(2)] L(1) by simp_all
  show ?case
    using IH L(3,4) unfolding logs by (cases "er_log ?e") fastforce+
qed (simp add: logs_of_def)

section \<open>Properties\<close>

lemma counts_total: "counts xs Queued + counts xs DroppedByPolicy + counts xs RejectedAsDuplicate = length xs"
proof (induction xs)
  case (Cons x xs)
  then show ?case by (cases x) simp_all
qed simp

lemma length_enqueue_run: "length (outcomes_of (enqueue_run n ts a q rs)) = length rs"
  by (induction rs arbitrary: a q) (auto simp: Let_def split_beta outcomes_of_def)

text \<open>
  Accounting. For every channel and every sequence of readings, each reading is queued,
  dropped or rejected as a duplicate, and the two counters of a fresh adapter (modulo their 64
  bits) are the numbers of drops and of rejections.
\<close>

theorem pipeline_accounting:
  "counts (outcomes_of (enqueue_run n try_send adapter_new q rs)) Queued
     + counts (outcomes_of (enqueue_run n try_send adapter_new q rs)) DroppedByPolicy
     + counts (outcomes_of (enqueue_run n try_send adapter_new q rs)) RejectedAsDuplicate = length rs \<and>
   ta_dropped_total (fst (enqueue_run n try_send adapter_new q rs)) mod 2 ^ 64 =
     counts (outcomes_of (enqueue_run n try_send adapter_new q rs)) DroppedByPolicy mod 2 ^ 64 \<and>
   ta_rejected_duplicates_total (fst (enqueue_run n try_send adapter_new q rs)) mod 2 ^ 64 =
     counts (outcomes_of (enqueue_run n try_send adapter_new q rs)) RejectedAsDuplicate mod 2 ^ 64"
  using enqueue_run_counters [of n try_send adapter_new q rs]
  by (simp add: counts_total length_enqueue_run adapter_new_def with_windows_def)

lemma all_equal_replicate: "map (\<lambda>y. y = x) ys = replicate k True \<Longrightarrow> ys = replicate k x"
  by (induction k arbitrary: ys) (auto simp: map_eq_Cons_conv)

lemma all_rejected_channel:
  "outcomes_of (enqueue_run n ts a q rs) = replicate (length rs) RejectedAsDuplicate \<Longrightarrow>
     fst (snd (enqueue_run n ts a q rs)) = q"
proof (induction rs arbitrary: a q)
  case (Cons rt rs)
  obtain r t where rt: "rt = (r, t)" by (cases rt)
  let ?e = "enqueue_for_channel n a r t ts q"
  have o: "er_outcome ?e = RejectedAsDuplicate"
    "outcomes_of (enqueue_run n ts (er_adapter ?e) (er_channel ?e) rs) = replicate (length rs) RejectedAsDuplicate"
    using Cons.prems unfolding rt enqueue_run_Cons by simp_all
  have "er_channel ?e = q"
    using o(1) by (intro enqueue_for_channel_dedupe(3)) (simp only: enqueue_for_channel_dedupe(2))
  then show ?case using Cons.IH [OF o(2)] unfolding rt enqueue_run_Cons by simp
qed simp

lemma observe_new:
  assumes "window_inv n ttl now d" "now \<le> t" "key_of x \<notin> live_keys t d"
  shows "snd (observe n d x t) = New"
  using dw.dup_iff [OF assms(1,2)] assms(3) by (cases "snd (observe n d x t)") simp_all

text \<open>
  C20: A burst is delivered once. When a reading is not suppressed at time \<open>t\<close> and the readings
  after it agree with it in sensor, channel, temperature and battery flag and arrive before the
  window closes, exactly the first one is offered to the channel and all others are rejected as
  duplicates, whatever the channel does.
\<close>

theorem burst_delivered_once:
  assumes "window_inv n ttl now (ta_dedupe a)" "now \<le> t"
    and "key_of (to_telemetry_record r) \<notin> live_keys t (ta_dedupe a)"
    and "sorted (t # map snd rs)"
    and "\<forall>(r', t') \<in> set rs. key_of (to_telemetry_record r') = key_of (to_telemetry_record r) \<and> t' < sat_add_u64 t ttl"
  shows "\<exists>x. x \<noteq> RejectedAsDuplicate \<and>
    outcomes_of (enqueue_run n try_send a q ((r, t) # rs)) = x # replicate (length rs) RejectedAsDuplicate \<and>
    fst (snd (enqueue_run n try_send a q ((r, t) # rs))) = fst (try_send q r)"
proof -
  let ?e = "enqueue_for_channel n a r t try_send q"
  let ?obs = "map (\<lambda>(r, t). (map_radio_reading_to_record r, t)) rs"
  have new: "snd (observe n (ta_dedupe a) (to_telemetry_record r) t) = New"
    by (rule observe_new [OF assms(1-3)])
  have s: "sorted (t # map snd ?obs)" using assms(4) by (simp add: comp_def split_beta)
  have burst: "dw.outcomes n (ta_dedupe a) ((to_telemetry_record r, t) # ?obs) = New # replicate (length rs) Duplicate"
    using dw.burst_outcomes [OF assms(1,2) new s] assms(5) by (fastforce simp: map_radio_reading_to_record_def)
  have "map (\<lambda>o'. o' = RejectedAsDuplicate) (outcomes_of (enqueue_run n try_send a q ((r, t) # rs))) =
      False # replicate (length rs) True"
    unfolding enqueue_run_rejections using burst
    by (simp add: map_radio_reading_to_record_def map_replicate del: dw.outcomes.simps)
  then obtain x where x: "x \<noteq> RejectedAsDuplicate"
    "outcomes_of (enqueue_run n try_send a q ((r, t) # rs)) = x # replicate (length rs) RejectedAsDuplicate"
    by (auto simp: map_eq_Cons_conv dest!: all_equal_replicate)
  have rest: "outcomes_of (enqueue_run n try_send (er_adapter ?e) (er_channel ?e) rs) = replicate (length rs) RejectedAsDuplicate"
    using x(2) unfolding enqueue_run_Cons by simp
  have "er_channel ?e = fst (try_send q r)"
    using new by (simp add: enqueue_for_channel_def enqueue_with_def map_radio_reading_to_record_def Let_def split_beta)
  then have "fst (snd (enqueue_run n try_send a q ((r, t) # rs))) = fst (try_send q r)"
    using all_rejected_channel [OF rest] unfolding enqueue_run_Cons by simp
  with x show ?thesis by blast
qed

definition sample_reading :: RadioReading where
  "sample_reading =
     \<lparr>rd_inner = \<lparr>rr_id = 0x42, rr_channel = 3, rr_battery_ok = True, rr_temperature_c = F32 21, rr_crc_ok = True\<rparr>,
      rd_rssi = - 78, rd_detection_threshold = 16, rd_received_at = 0\<rparr>"

theorem burst_delivered_once_witness:
  "fst (snd (enqueue_run 8 (\<lambda>q r. (r # q, True)) adapter_new []
     [(sample_reading, 1000), (sample_reading, 1100), (sample_reading, 1200)])) = [sample_reading]"
  using burst_delivered_once [of 8 30000 0 adapter_new 1000 sample_reading
      "[(sample_reading, 1100), (sample_reading, 1200)]" "\<lambda>q r. (r # q, True)" "[]"]
  by (auto simp: adapter_new_def with_windows_def const_defs dedupe_new_def window_inv_def cache_inv_def
      live_keys_def sat_add_u64_def u64_max_def simp del: enqueue_run.simps)

text \<open>
  Drop warnings are rate limited: in any run of a fresh adapter, two log lines are at least
  the log interval of 60 s apart (up to the saturation of the clock).
\<close>

theorem drop_logs_rate_limited:
  "sorted_wrt (\<lambda>x y. sat_add_u64 x 60000 \<le> y) (map fst (logs_of (enqueue_run n try_send adapter_new q rs)))"
  using enqueue_run_log_spacing [of adapter_new n try_send q rs]
  by (simp add: adapter_new_def with_windows_def const_defs)

end
