(* ===== verification/Pulse_Capture.thy ===== *)
theory Pulse_Capture
  imports Radio_433 Pipeline
begin

text \<open>
  Capturing and decoding transmissions: both back ends of \<open>firmware/src/pulse_capture.rs\<close>, the one on
  the remote control peripheral (\<open>pulse_capture_rmt.rs\<close>, the default) and the one on pin edges
  (\<open>pulse_capture_sw.rs\<close>), with their tasks in \<open>tasks/radio_433.rs\<close>. What the peripheral captured,
  the lengths of the gaps between edges, clock readings and watch values are inputs of a round.
\<close>

section \<open>Gaps from pulse codes\<close>

datatype Level = Low | High

record PulseCode =
  level1 :: Level
  length1 :: u16
  level2 :: Level
  length2 :: u16

record PulseDistanceIter =
  pi_symbols :: "PulseCode list"
  pi_symbol_idx :: nat
  pi_part :: u8
  pi_done :: bool

definition pulse_iter_new :: "PulseCode list \<Rightarrow> nat \<Rightarrow> PulseDistanceIter" where
  "pulse_iter_new symbols symbol_count =
     (let count = min symbol_count (length symbols)
      in \<lparr>pi_symbols = take count symbols, pi_symbol_idx = 0, pi_part = 0, pi_done = False\<rparr>)"

definition iter_left :: "PulseDistanceIter \<Rightarrow> nat" where
  "iter_left it = 2 * (length (pi_symbols it) - pi_symbol_idx it) - (if pi_part it = 0 then 0 else 1)"

function pulse_next :: "PulseDistanceIter \<Rightarrow> u32 option \<times> PulseDistanceIter" where
  "pulse_next it =
     (if \<not> pi_done it \<and> pi_symbol_idx it < length (pi_symbols it) then
        let code = pi_symbols it ! pi_symbol_idx it
        in if pi_part it = 0 then
             let it = it\<lparr>pi_part := 1\<rparr>; len1 = length1 code
             in if len1 = 0 then (None, it\<lparr>pi_done := True\<rparr>)
                else if level1 code = Low then (Some (ucast len1), it)
                else pulse_next it
           else
             let it = it\<lparr>pi_part := 0, pi_symbol_idx := pi_symbol_idx it + 1\<rparr>; len2 = length2 code
             in if len2 = 0 then (None, it\<lparr>pi_done := True\<rparr>)
                else if level2 code = Low then (Some (ucast len2), it)
                else pulse_next it
      else (None, it))"
  by pat_completeness auto
termination by (relation "measure iter_left") (auto simp: iter_left_def)

declare pulse_next.simps [simp del]

lemma iter_left_step:
  "pi_part it = 0 \<Longrightarrow> pi_symbol_idx it < length (pi_symbols it) \<Longrightarrow> iter_left (it\<lparr>pi_part := 1\<rparr>) < iter_left it"
  "pi_part it \<noteq> 0 \<Longrightarrow> pi_symbol_idx it < length (pi_symbols it) \<Longrightarrow>
    iter_left (it\<lparr>pi_part := 0, pi_symbol_idx := Suc (pi_symbol_idx it)\<rparr>) < iter_left it"
  by (auto simp: iter_left_def)

lemma pulse_next_left: "pulse_next it = (Some g, it') \<Longrightarrow> iter_left it' < iter_left it"
proof (induction it rule: pulse_next.induct)
  case (1 it)
  let ?code = "pi_symbols it ! pi_symbol_idx it"
  let ?it1 = "it\<lparr>pi_part := 1\<rparr>" and ?it2 = "it\<lparr>pi_part := 0, pi_symbol_idx := Suc (pi_symbol_idx it)\<rparr>"
  have run: "\<not> pi_done it \<and> pi_symbol_idx it < length (pi_symbols it)"
    using 1(3) by (subst (asm) pulse_next.simps) (auto split: if_splits)
  show ?case
  proof (cases "pi_part it = 0")
    case True
    then have "it' = ?it1 \<or> pulse_next ?it1 = (Some g, it') \<and> level1 ?code \<noteq> Low \<and> length1 ?code \<noteq> 0"
      using 1(3) run by (subst (asm) pulse_next.simps) (auto simp: Let_def split: if_splits)
    with 1(1) [OF run refl True refl refl] iter_left_step(1) [OF True] run show ?thesis by fastforce
  next
    case False
    then have "it' = ?it2 \<or> pulse_next ?it2 = (Some g, it') \<and> level2 ?code \<noteq> Low \<and> length2 ?code \<noteq> 0"
      using 1(3) run by (subst (asm) pulse_next.simps) (auto simp: Let_def split: if_splits)
    with 1(2) [OF run refl False refl refl] iter_left_step(2) [OF False] run show ?thesis by fastforce
  qed
qed

text \<open>The items of the iterator, as the decoder takes them.\<close>

function pulse_gaps :: "PulseDistanceIter \<Rightarrow> u32 list" where
  "pulse_gaps it = (case pulse_next it of (None, _) \<Rightarrow> [] | (Some g, it) \<Rightarrow> g # pulse_gaps it)"
  by pat_completeness auto
termination by (relation "measure iter_left") (auto dest: pulse_next_left [OF sym])

declare pulse_gaps.simps [simp del]

section \<open>A decoded reading\<close>

record 'q CaptureState =
  ct_watch :: "RadioReading option"
  ct_adapter :: TelemetryPipelineAdapter
  ct_channel :: 'q

definition ADAPTER_CAPACITY :: nat where [const_defs]: "ADAPTER_CAPACITY = 32"

text \<open>
  What both back ends do with a decoded reading: the signal strength, or \<open>-128\<close> when it cannot be
  read, and the threshold are added; the reading goes to the watch and to the telemetry channel.
\<close>

definition publish_decoded ::
  "('q \<Rightarrow> RadioReading \<Rightarrow> 'q \<times> bool) \<Rightarrow> RubicsonReading \<Rightarrow> RadioError + int \<Rightarrow> u8 \<Rightarrow> nat \<Rightarrow> nat \<Rightarrow>
   'q CaptureState \<Rightarrow> 'q CaptureState" where
  "publish_decoded try_send reading rssi_result detection_threshold received_at now_ms ct =
     (let rssi = (case rssi_result of Inl _ \<Rightarrow> - 128 | Inr rssi \<Rightarrow> rssi);
          radio_reading = \<lparr>rd_inner = reading, rd_rssi = rssi, rd_detection_threshold = detection_threshold,
            rd_received_at = received_at\<rparr>;
          ct = ct\<lparr>ct_watch := Some radio_reading\<rparr>;
          e = enqueue_for_channel ADAPTER_CAPACITY (ct_adapter ct) radio_reading now_ms try_send (ct_channel ct)
      in ct\<lparr>ct_adapter := er_adapter e, ct_channel := er_channel e\<rparr>)"

text \<open>
  The wait while capture is not allowed: the state of the update when the round starts and its
  changes while waiting; \<open>False\<close> when the wait does not end.
\<close>

definition capture_gate :: "OtaState option \<Rightarrow> OtaState list \<Rightarrow> bool" where
  "capture_gate current changes =
     (is_radio_capture_allowed (case current of None \<Rightarrow> Inactive | Some s \<Rightarrow> s) \<or>
      list_ex is_radio_capture_allowed changes)"

section \<open>The back end on the remote control peripheral\<close>

datatype RmtResult = RmtOk nat | RmtReceiverError | RmtOtherError

text \<open>
  What a round awaits: the change of the update state, or the end of a reception, with the contents
  of the symbol buffer at that time.
\<close>

datatype RmtEvent = RmtReceived RmtResult "PulseCode list" | RmtOtaChanged

record RoundReads =
  rr_rssi :: "RadioError + int"
  rr_received_at :: nat
  rr_now_ms :: nat

text \<open>One round of \<open>PulseCapture::run\<close>; \<open>None\<close> is a panic of the decoder.\<close>

definition rmt_round ::
  "('q \<Rightarrow> RadioReading \<Rightarrow> 'q \<times> bool) \<Rightarrow> RmtEvent \<Rightarrow> RoundReads \<Rightarrow> 'c Cc1101Radio \<Rightarrow> 'q CaptureState \<Rightarrow>
   'q CaptureState option" where
  "rmt_round try_send ev reads radio ct =
     (case ev of
        RmtOtaChanged \<Rightarrow> Some ct
      | RmtReceived result symbols \<Rightarrow>
          let count = (case result of
                RmtOk count \<Rightarrow> Some count | RmtReceiverError \<Rightarrow> Some (length symbols) | RmtOtherError \<Rightarrow> None)
          in case count of
               None \<Rightarrow> Some ct
             | Some symbol_count \<Rightarrow>
                 if 12 * 36 \<le> symbol_count then
                   case decode_gaps_iter (pulse_gaps (pulse_iter_new symbols symbol_count)) of
                     None \<Rightarrow> None
                   | Some (Inl _) \<Rightarrow> Some ct
                   | Some (Inr (_, reading)) \<Rightarrow>
                       Some (publish_decoded try_send reading (rr_rssi reads) (get_detection_threshold radio)
                         (rr_received_at reads) (rr_now_ms reads) ct)
                 else Some ct)"

text \<open>The task that applies changed settings to the shared radio.\<close>

definition settings_task_step :: "'c driver \<Rightarrow> RadioSettings option \<Rightarrow> 'c Cc1101Radio \<Rightarrow> 'c Cc1101Radio" where
  "settings_task_step drv pending r = apply_pending_settings drv pending r"

section \<open>The back end on pin edges\<close>

definition TRANSMISSION_END_TIMEOUT_US :: nat where [const_defs]: "TRANSMISSION_END_TIMEOUT_US = 10000"

text \<open>
  The loop over the gaps, in microseconds, that end before the timeout; the list ends where a wait
  for an edge times out. The buffer has 512 places and later gaps are dropped.
\<close>

fun sw_capture_loop :: "nat list \<Rightarrow> u32 list \<Rightarrow> u32 list" where
  "sw_capture_loop [] gap_buffer = gap_buffer"
| "sw_capture_loop (us # gaps) gap_buffer =
     (let gap_us = (if us \<le> u32_max then of_nat us else of_nat u32_max)
      in sw_capture_loop gaps (if length gap_buffer < 512 then gap_buffer @ [gap_us] else gap_buffer))"

definition sw_capture :: "nat list \<Rightarrow> u32 list" where
  "sw_capture gaps = sw_capture_loop gaps []"

datatype SwEvent = SwRisingEdge "nat list" | SwSettingsChanged | SwOtaChanged

text \<open>The settings pending in the watch are applied after every capture and when they change.\<close>

definition sw_round ::
  "'c driver \<Rightarrow> ('q \<Rightarrow> RadioReading \<Rightarrow> 'q \<times> bool) \<Rightarrow> SwEvent \<Rightarrow> RoundReads \<Rightarrow> RadioSettings option \<Rightarrow>
   'c Cc1101Radio \<Rightarrow> 'q CaptureState \<Rightarrow> ('c Cc1101Radio \<times> 'q CaptureState) option" where
  "sw_round drv try_send ev reads pending radio ct =
     (case ev of
        SwSettingsChanged \<Rightarrow> Some (apply_pending_settings drv pending radio, ct)
      | SwOtaChanged \<Rightarrow> Some (radio, ct)
      | SwRisingEdge gaps \<Rightarrow>
          let captured = sw_capture gaps
          in case (if 36 \<le> length captured then
                     case decode_gaps captured of
                       None \<Rightarrow> None
                     | Some (Inl _) \<Rightarrow> Some ct
                     | Some (Inr (_, reading)) \<Rightarrow>
                         Some (publish_decoded try_send reading (rr_rssi reads) (get_detection_threshold radio)
                           (rr_received_at reads) (rr_now_ms reads) ct)
                   else Some ct) of
               None \<Rightarrow> None
             | Some ct \<Rightarrow> Some (apply_pending_settings drv pending radio, ct))"

section \<open>The start of the receiver task\<close>

text \<open>
  The settings sent and whether capture starts, for the back end on pin edges; on the peripheral
  the data pin is not taken.
\<close>

definition rx_task_start_sw ::
  "'c driver \<Rightarrow> (unit + u8 \<times> u8) \<Rightarrow> bool \<Rightarrow> (nat \<Rightarrow> sample list) \<Rightarrow> 'c Cc1101Radio \<Rightarrow> RtcWords \<Rightarrow>
   RadioSettings option \<times> bool \<times> 'c Cc1101Radio \<times> RtcWords" where
  "rx_task_start_sw drv hw_info cold_boot signal r w =
     (case prepare_radio_for_capture drv hw_info cold_boot signal r w of
        (Inl _, r, w) \<Rightarrow> (None, False, r, w)
      | (Inr current_settings, r, w) \<Rightarrow>
          (case take_data_pin r of (taken, r) \<Rightarrow> (Some current_settings, taken, r, w)))"

definition rx_task_start_rmt ::
  "'c driver \<Rightarrow> (unit + u8 \<times> u8) \<Rightarrow> bool \<Rightarrow> (nat \<Rightarrow> sample list) \<Rightarrow> 'c Cc1101Radio \<Rightarrow> RtcWords \<Rightarrow>
   RadioSettings option \<times> bool \<times> 'c Cc1101Radio \<times> RtcWords" where
  "rx_task_start_rmt drv hw_info cold_boot signal r w =
     (case prepare_radio_for_capture drv hw_info cold_boot signal r w of
        (Inl _, r, w) \<Rightarrow> (None, False, r, w)
      | (Inr current_settings, r, w) \<Rightarrow> (Some current_settings, True, r, w))"

section \<open>The gaps are the low durations before the first empty entry\<close>

definition pulse_entries :: "PulseCode list \<Rightarrow> (Level \<times> u16) list" where
  "pulse_entries symbols = concat (map (\<lambda>c. [(level1 c, length1 c), (level2 c, length2 c)]) symbols)"

definition low_gaps :: "(Level \<times> u16) list \<Rightarrow> u32 list" where
  "low_gaps es = map (\<lambda>e. ucast (snd e)) (filter (\<lambda>e. fst e = Low) (takeWhile (\<lambda>e. snd e \<noteq> 0) es))"

text \<open>What an iterator has still to yield.\<close>

definition iter_rest :: "PulseDistanceIter \<Rightarrow> (Level \<times> u16) list" where
  "iter_rest it =
     (if pi_done it then []
      else drop (if pi_part it = 0 then 0 else 1) (pulse_entries (drop (pi_symbol_idx it) (pi_symbols it))))"

lemma iter_rest_steps:
  assumes "\<not> pi_done it" "pi_symbol_idx it < length (pi_symbols it)"
  shows "pi_part it = 0 \<Longrightarrow> iter_rest it =
      (level1 (pi_symbols it ! pi_symbol_idx it), length1 (pi_symbols it ! pi_symbol_idx it)) # iter_rest (it\<lparr>pi_part := 1\<rparr>)"
    and "pi_part it \<noteq> 0 \<Longrightarrow> iter_rest it =
      (level2 (pi_symbols it ! pi_symbol_idx it), length2 (pi_symbols it ! pi_symbol_idx it)) #
        iter_rest (it\<lparr>pi_part := 0, pi_symbol_idx := Suc (pi_symbol_idx it)\<rparr>)"
  using assms by (simp_all add: iter_rest_def pulse_entries_def Cons_nth_drop_Suc [symmetric])

lemma low_gaps_simps [simp]:
  "low_gaps [] = []"
  "low_gaps ((lv, len) # es) =
     (if len = 0 then [] else if lv = Low then ucast len # low_gaps es else low_gaps es)"
  by (simp_all add: low_gaps_def)

lemma pulse_next_rest:
  "low_gaps (iter_rest it) =
    (case pulse_next it of (None, _) \<Rightarrow> [] | (Some g, it') \<Rightarrow> g # low_gaps (iter_rest it'))"
proof (induction it rule: pulse_next.induct)
  case (1 it)
  show ?case
  proof (cases "\<not> pi_done it \<and> pi_symbol_idx it < length (pi_symbols it)")
    case False
    then have "iter_rest it = []" by (auto simp: iter_rest_def pulse_entries_def)
    with False show ?thesis by (subst pulse_next.simps) auto
  next
    case run: True
    note steps = iter_rest_steps [OF conjunct1 [OF run] conjunct2 [OF run]]
    show ?thesis
    proof (cases "pi_part it = 0")
      case True
      from 1(1) [OF run refl True refl refl] run True show ?thesis
        by (subst pulse_next.simps) (auto simp: Let_def steps(1))
    next
      case False
      from 1(2) [OF run refl False refl refl] run False show ?thesis
        by (subst pulse_next.simps) (auto simp: Let_def steps(2))
    qed
  qed
qed

lemma pulse_gaps_low: "pulse_gaps it = low_gaps (iter_rest it)"
proof (induction it rule: pulse_gaps.induct)
  case (1 it)
  show ?case
    using 1 pulse_next_rest [of it]
    by (subst pulse_gaps.simps) (auto split: prod.splits option.splits)
qed

lemma rmt_gaps_exact:
  "pulse_gaps (pulse_iter_new symbols count) = low_gaps (pulse_entries (take count symbols))"
  by (simp add: pulse_gaps_low iter_rest_def pulse_iter_new_def Let_def min_def)

lemma sw_capture_exact: "sw_capture gaps = take 512 (map (\<lambda>us. of_nat (min us u32_max)) gaps)"
proof -
  have "sw_capture_loop gaps buf = take 512 (buf @ map (\<lambda>us. of_nat (min us u32_max)) gaps)"
    if "length buf \<le> 512" for buf
    using that by (induction gaps arbitrary: buf) (auto simp: Let_def min_def take_Cons')
  then show ?thesis by (simp add: sw_capture_def)
qed

section \<open>From the antenna to the channel\<close>

definition sent_reading :: "u8 \<Rightarrow> u8 \<Rightarrow> bool \<Rightarrow> u16 \<Rightarrow> int \<Rightarrow> u8 \<Rightarrow> nat \<Rightarrow> RadioReading" where
  "sent_reading i ch bat t rssi threshold rcv =
     \<lparr>rd_inner = \<lparr>rr_id = i, rr_channel = ch, rr_battery_ok = bat,
        rr_temperature_c = f32_div (f32_from_i16 (signed_take_bit 11 (uint t))) (F32 10), rr_crc_ok = True\<rparr>,
      rd_rssi = rssi, rd_detection_threshold = threshold, rd_received_at = rcv\<rparr>"

text \<open>The gaps of a burst: packets that do not decode, a packet with the payload, and anything after it.\<close>

definition burst_gaps :: "(u32 list \<times> u32) list \<Rightarrow> u32 list \<Rightarrow> u32 \<Rightarrow> u32 list \<Rightarrow> u32 list" where
  "burst_gaps bad p brk rest = concat (map (\<lambda>(p, brk). p @ [brk]) bad) @ p @ [brk] @ rest"

definition good_burst :: "(u32 list \<times> u32) list \<Rightarrow> u32 list \<Rightarrow> u32 \<Rightarrow> u8 \<Rightarrow> u8 \<Rightarrow> bool \<Rightarrow> u16 \<Rightarrow> bool" where
  "good_burst bad p brk i ch bat t \<longleftrightarrow> 1 \<le> ch \<and> ch \<le> 4 \<and> length bad < 12 \<and>
     list_all (\<lambda>(p, brk). in_packet p \<and> decode_gap brk = Inl Break) bad \<and>
     list_all (\<lambda>p. \<forall>r. decode_rubicson (assemble p) \<noteq> Some (Inr r)) (map fst bad) \<and>
     in_packet p \<and> gap_bits p = map of_bool (payload_bits (build_payload i ch bat t)) \<and> decode_gap brk = Inl Break"

lemma good_burst_decodes:
  assumes "good_burst bad p brk i ch bat t"
  shows "decode_gaps (burst_gaps bad p brk rest) = Some (Inr (length bad, rd_inner (sent_reading i ch bat t rssi th rcv)))"
  using assms decode_gaps_finds_packet [of ch bad p i bat t brk rest]
  unfolding good_burst_def burst_gaps_def sent_reading_def by simp

lemma sent_temperature:
  "tr_temperature_deci_c (to_telemetry_record (sent_reading i ch bat t rssi th rcv)) = signed_take_bit 11 (uint t)"
proof (rule to_telemetry_record_exact)
  have "- 2048 \<le> signed_take_bit 11 (uint t)" "signed_take_bit 11 (uint t) < 2048"
    using signed_take_bit_int_greater_eq_minus_exp [of 11 "uint t"] signed_take_bit_int_less_exp [of 11 "uint t"] by simp_all
  then show "- 32768 \<le> signed_take_bit 11 (uint t)" "signed_take_bit 11 (uint t) \<le> 32767" by linarith+
qed (simp add: sent_reading_def)

lemma publish_new:
  assumes "window_inv 32 ttl now (ta_dedupe (ct_adapter ct))" "now \<le> now_ms"
    and "key_of (to_telemetry_record (sent_reading i ch bat t rssi th rcv)) \<notin> live_keys now_ms (ta_dedupe (ct_adapter ct))"
  shows "ct_watch (publish_decoded try_send (rd_inner (sent_reading i ch bat t rssi th rcv)) (Inr rssi) th rcv now_ms ct) =
      Some (sent_reading i ch bat t rssi th rcv)"
    and "ct_channel (publish_decoded try_send (rd_inner (sent_reading i ch bat t rssi th rcv)) (Inr rssi) th rcv now_ms ct) =
      fst (try_send (ct_channel ct) (sent_reading i ch bat t rssi th rcv))"
proof -
  let ?r = "sent_reading i ch bat t rssi th rcv"
  have r: "\<lparr>rd_inner = rd_inner ?r, rd_rssi = rssi, rd_detection_threshold = th, rd_received_at = rcv\<rparr> = ?r"
    by (simp add: sent_reading_def)
  have new: "snd (observe 32 (ta_dedupe (ct_adapter ct)) (to_telemetry_record ?r) now_ms) = New"
    by (rule observe_new [OF assms])
  show "ct_watch (publish_decoded try_send (rd_inner ?r) (Inr rssi) th rcv now_ms ct) = Some ?r"
    by (simp only: publish_decoded_def Let_def sum.case r) simp
  show "ct_channel (publish_decoded try_send (rd_inner ?r) (Inr rssi) th rcv now_ms ct) = fst (try_send (ct_channel ct) ?r)"
    using new by (simp only: publish_decoded_def Let_def sum.case r)
      (simp add: const_defs enqueue_for_channel_def enqueue_with_def map_radio_reading_to_record_def Let_def split_beta)
qed

text \<open>
  C30: A transmission arrives. When the peripheral reports at least 432 symbols whose low durations
  are those of a burst with a packet of identifier, channel, battery flag and temperature after at
  most eleven packets that do not decode, and no such reading was accepted within the window, the
  round puts exactly that reading, with the measured signal strength, into the watch, offers it to
  the telemetry channel, and the record it travels as holds the temperature the sensor sent.
\<close>
theorem transmission_arrives:
  assumes "432 \<le> count" "low_gaps (pulse_entries (take count symbols)) = burst_gaps bad p brk rest"
    and "good_burst bad p brk i ch bat t" "rr_rssi reads = Inr rssi"
    and "window_inv 32 ttl now (ta_dedupe (ct_adapter ct))" "now \<le> rr_now_ms reads"
    and "key_of (to_telemetry_record (sent_reading i ch bat t rssi (get_detection_threshold radio) (rr_received_at reads)))
      \<notin> live_keys (rr_now_ms reads) (ta_dedupe (ct_adapter ct))"
  shows "\<exists>ct'. rmt_round try_send (RmtReceived (RmtOk count) symbols) reads radio ct = Some ct' \<and>
    (let r = sent_reading i ch bat t rssi (get_detection_threshold radio) (rr_received_at reads)
     in ct_watch ct' = Some r \<and> ct_channel ct' = fst (try_send (ct_channel ct) r) \<and>
        tr_sensor_id (to_telemetry_record r) = i \<and> tr_channel (to_telemetry_record r) = ch \<and>
        tr_battery_ok (to_telemetry_record r) = bat \<and>
        tr_temperature_deci_c (to_telemetry_record r) = signed_take_bit 11 (uint t))"
proof -
  let ?th = "get_detection_threshold radio" and ?rcv = "rr_received_at reads"
  have dec: "decode_gaps_iter (pulse_gaps (pulse_iter_new symbols count)) =
      Some (Inr (length bad, rd_inner (sent_reading i ch bat t rssi ?th ?rcv)))"
    using good_burst_decodes [OF assms(3), of rest rssi ?th ?rcv] by (simp add: rmt_gaps_exact assms(2) decode_gaps_def)
  let ?ct = "publish_decoded try_send (rd_inner (sent_reading i ch bat t rssi ?th ?rcv)) (Inr rssi) ?th ?rcv (rr_now_ms reads) ct"
  have "rmt_round try_send (RmtReceived (RmtOk count) symbols) reads radio ct = Some ?ct"
    using assms(1,4) by (simp add: rmt_round_def dec)
  with publish_new [OF assms(5-7)] sent_temperature [of i ch bat t rssi ?th ?rcv] show ?thesis
    by (simp add: Let_def) (simp add: to_telemetry_record_def Let_def sent_reading_def)
qed

text \<open>A pulse code with a gap, as a witness has them.\<close>

definition gap_code :: "u16 \<Rightarrow> PulseCode" where
  "gap_code g = \<lparr>level1 = High, length1 = 500, level2 = Low, length2 = g\<rparr>"

lemma low_gaps_codes: "0 \<notin> set gs \<Longrightarrow> low_gaps (pulse_entries (map gap_code gs)) = map ucast gs"
  by (induction gs) (auto simp: pulse_entries_def gap_code_def)

definition demo_symbols :: "PulseCode list" where
  "demo_symbols = map gap_code (map (\<lambda>b. if b then 2000 else 1000) (payload_bits (build_payload 0x12 2 True 0xFCE))
     @ [4000] @ replicate 432 1000)"

definition demo_reads :: RoundReads where
  "demo_reads = \<lparr>rr_rssi = Inr (- 70), rr_received_at = 5, rr_now_ms = 1000\<rparr>"

definition demo_capture :: "RadioReading list CaptureState" where
  "demo_capture = \<lparr>ct_watch = None, ct_adapter = adapter_new, ct_channel = []\<rparr>"

theorem transmission_arrives_witness:
  "\<exists>ct'. rmt_round (\<lambda>q r. (r # q, True)) (RmtReceived (RmtOk 469) demo_symbols) demo_reads (radio_new ()) demo_capture = Some ct' \<and>
    ct_channel ct' = [sent_reading 0x12 2 True 0xFCE (- 70) (get_detection_threshold (radio_new ())) 5]"
proof -
  let ?bits = "payload_bits (build_payload 0x12 2 True 0xFCE)"
  have len: "length demo_symbols = 469"
    using length_payload_bits [of "build_payload 0x12 2 True 0xFCE"] by (simp add: demo_symbols_def build_payload_def Let_def)
  have gaps: "low_gaps (pulse_entries (take 469 demo_symbols)) =
      burst_gaps [] (map (\<lambda>b. if b then 2000 else 1000) ?bits) 4000 (replicate 432 1000)"
  proof -
    have "take 469 demo_symbols = demo_symbols" using len by simp
    moreover have "low_gaps (pulse_entries demo_symbols) =
        map ucast (map (\<lambda>b. if b then 2000 else 1000) ?bits @ [4000] @ replicate 432 1000 :: u16 list)"
      unfolding demo_symbols_def by (rule low_gaps_codes) auto
    ultimately show ?thesis by (simp add: burst_gaps_def comp_def if_distrib)
  qed
  have burst: "good_burst [] (map (\<lambda>b. if b then 2000 else 1000) ?bits) 4000 0x12 2 True 0xFCE"
    by (simp add: good_burst_def encoded_bits) (simp add: decode_gap_def)
  show ?thesis
    using transmission_arrives [OF _ gaps burst, of demo_reads "- 70" 30000 0 demo_capture "radio_new ()" "\<lambda>q r. (r # q, True)"]
    by (auto simp: demo_reads_def demo_capture_def adapter_new_def with_windows_def const_defs dedupe_new_def
        window_inv_def cache_inv_def live_keys_def Let_def)
qed

text \<open>
  After an overrun of the receiver the buffer is decoded as it is. When it still holds the symbols
  of an earlier burst, the earlier reading is taken for a new one: outside the window of the
  deduplication it is delivered a second time, with the present time and signal strength.
\<close>

lemma stale_buffer_republished:
  assumes "length symbols = 512" "low_gaps (pulse_entries symbols) = burst_gaps bad p brk rest"
    and "good_burst bad p brk i ch bat t" "rr_rssi reads = Inr rssi"
    and "window_inv 32 ttl now (ta_dedupe (ct_adapter ct))" "now \<le> rr_now_ms reads"
    and "key_of (to_telemetry_record (sent_reading i ch bat t rssi (get_detection_threshold radio) (rr_received_at reads)))
      \<notin> live_keys (rr_now_ms reads) (ta_dedupe (ct_adapter ct))"
  shows "\<exists>ct'. rmt_round try_send (RmtReceived RmtReceiverError symbols) reads radio ct = Some ct' \<and>
    ct_channel ct' = fst (try_send (ct_channel ct)
      (sent_reading i ch bat t rssi (get_detection_threshold radio) (rr_received_at reads)))"
proof -
  let ?th = "get_detection_threshold radio" and ?rcv = "rr_received_at reads"
  have dec: "decode_gaps_iter (pulse_gaps (pulse_iter_new symbols 512)) =
      Some (Inr (length bad, rd_inner (sent_reading i ch bat t rssi ?th ?rcv)))"
    using good_burst_decodes [OF assms(3), of rest rssi ?th ?rcv] assms(1,2) by (simp add: rmt_gaps_exact decode_gaps_def)
  show ?thesis using assms(1,4) publish_new(2) [OF assms(5-7)] by (simp add: rmt_round_def dec)
qed

end
