(* ===== verification/Karu_Menu.thy ===== *)
theory Karu_Menu
  imports Prelude
begin

text \<open>
  The menu library, \<open>crates/karu-menu\<close>: the scrolling viewport, menu items, the menu that handles
  button events, and the renderer. The trait \<open>MenuItem\<close> is the record \<open>MenuItem\<close> of an item type's
  operations, and its contract is the locale \<open>menu_item\<close>.
\<close>

section \<open>Events\<close>

type_synonym ActionId = u16

datatype UiEvent = NextScreen | PrevScreen | Select

datatype 'a MenuEvent =
    NoOp | SelectionChanged nat | EditStarted nat | EditCompleted nat | ValueChanged nat
  | ActionSelected nat 'a

section \<open>The viewport\<close>

record ScrollableViewport =
  width :: u8
  height :: u8
  header_height :: u8
  item_height :: u8
  max_visible :: nat
  scroll_offset :: nat
  vp_selected :: nat
  total_items :: nat

definition saturating_add_u8 :: "u8 \<Rightarrow> u8 \<Rightarrow> u8" where
  "saturating_add_u8 a b = (if 255 < unat a + unat b then 255 else a + b)"

definition saturating_sub_u8 :: "u8 \<Rightarrow> u8 \<Rightarrow> u8" where
  "saturating_sub_u8 a b = (if b \<le> a then a - b else 0)"

definition with_metrics :: "u8 \<Rightarrow> u8 \<Rightarrow> u8 \<Rightarrow> u8 \<Rightarrow> ScrollableViewport" where
  "with_metrics w h hh ih =
     (let ih = max ih 1;
          available = saturating_sub_u8 h (saturating_add_u8 hh 2);
          mv = max (unat available div unat ih) 1
      in \<lparr>width = w, height = h, header_height = hh, item_height = ih, max_visible = mv,
          scroll_offset = 0, vp_selected = 0, total_items = 0\<rparr>)"

definition viewport_new :: "u8 \<Rightarrow> u8 \<Rightarrow> ScrollableViewport" where
  "viewport_new w h = with_metrics w h 22 10"

definition ensure_visible :: "ScrollableViewport \<Rightarrow> ScrollableViewport" where
  "ensure_visible v =
     (if total_items v = 0 then v\<lparr>scroll_offset := 0, vp_selected := 0\<rparr>
      else let v = (if vp_selected v < scroll_offset v then v\<lparr>scroll_offset := vp_selected v\<rparr>
                    else if scroll_offset v + max_visible v \<le> vp_selected v
                    then v\<lparr>scroll_offset := vp_selected v - (max_visible v - 1)\<rparr> else v);
               max_offset = total_items v - max_visible v
           in v\<lparr>scroll_offset := min (scroll_offset v) max_offset\<rparr>)"

definition set_total_items :: "nat \<Rightarrow> ScrollableViewport \<Rightarrow> ScrollableViewport" where
  "set_total_items n v =
     (let v = v\<lparr>total_items := n\<rparr>
      in if total_items v = 0 then v\<lparr>vp_selected := 0, scroll_offset := 0\<rparr>
         else ensure_visible (v\<lparr>vp_selected := min (vp_selected v) (total_items v - 1)\<rparr>))"

definition select :: "nat \<Rightarrow> ScrollableViewport \<Rightarrow> bool \<times> ScrollableViewport" where
  "select index v =
     (let previous = vp_selected v
      in if total_items v = 0 then (False, v\<lparr>vp_selected := 0, scroll_offset := 0\<rparr>)
         else let v = ensure_visible (v\<lparr>vp_selected := min index (total_items v - 1)\<rparr>)
              in (vp_selected v \<noteq> previous, v))"

definition select_next :: "ScrollableViewport \<Rightarrow> bool \<times> ScrollableViewport" where
  "select_next v = select (sat_add_u32 (vp_selected v) 1) v"

definition select_prev :: "ScrollableViewport \<Rightarrow> bool \<times> ScrollableViewport" where
  "select_prev v = select (vp_selected v - 1) v"

text \<open>The visible range, as its first index and the index after its last.\<close>

definition visible_range :: "ScrollableViewport \<Rightarrow> nat \<times> nat" where
  "visible_range v =
     (if total_items v = 0 then (0, 0)
      else let start = min (scroll_offset v) (total_items v - 1);
               stop = min (start + max_visible v) (total_items v)
           in (start, stop))"

definition item_y :: "nat \<Rightarrow> ScrollableViewport \<Rightarrow> 32 word" where
  "item_y index v =
     (let relative = index - scroll_offset v;
          relative_i32 = (if relative \<le> 2147483647 then of_nat relative else 2147483647)
      in ucast (header_height v) + 2 + relative_i32 * ucast (item_height v))"

definition has_more_below :: "ScrollableViewport \<Rightarrow> bool" where
  "has_more_below v \<longleftrightarrow> scroll_offset v + max_visible v < total_items v"

definition has_more_above :: "ScrollableViewport \<Rightarrow> bool" where
  "has_more_above v \<longleftrightarrow> 0 < scroll_offset v"

section \<open>Items\<close>

record ('i, 'a) MenuItem =
  label :: "'i \<Rightarrow> string"
  value_string :: "'i \<Rightarrow> string"
  is_editable :: "'i \<Rightarrow> bool"
  increment :: "'i \<Rightarrow> bool \<times> 'i"
  decrement :: "'i \<Rightarrow> bool \<times> 'i"
  on_enter_edit :: "'i \<Rightarrow> 'i"
  on_exit_edit :: "'i \<Rightarrow> 'i"
  item_modified :: "'i \<Rightarrow> bool"
  commit :: "'i \<Rightarrow> 'i"
  discard :: "'i \<Rightarrow> 'i"
  item_action :: "'i \<Rightarrow> 'a option"

definition saturating_mul_u16 :: "nat \<Rightarrow> nat \<Rightarrow> nat" where
  "saturating_mul_u16 a b = min (a * b) 65535"

definition estimated_width :: "('i, 'a) MenuItem \<Rightarrow> 'i \<Rightarrow> u16" where
  "estimated_width ops i =
     (let chars = (\<lambda>s. if length s \<le> 65535 then length s else 65535 div 6);
          label_width = saturating_mul_u16 (chars (label ops i)) 6;
          value_width = saturating_mul_u16 (chars (value_string ops i)) 6
      in of_nat label_width + 16 + of_nat value_width)"

record 'a ActionItem =
  act_label :: string
  act_id :: 'a

definition action_new :: "string \<Rightarrow> 'a \<Rightarrow> 'a ActionItem" where
  "action_new l a = \<lparr>act_label = l, act_id = a\<rparr>"

definition action_item :: "('a ActionItem, 'a) MenuItem" where
  "action_item = \<lparr>label = act_label, value_string = (\<lambda>_. ''''), is_editable = (\<lambda>_. False),
     increment = (\<lambda>i. (False, i)), decrement = (\<lambda>i. (False, i)),
     on_enter_edit = (\<lambda>i. i), on_exit_edit = (\<lambda>i. i), item_modified = (\<lambda>_. False),
     commit = (\<lambda>i. i), discard = (\<lambda>i. i), item_action = (\<lambda>i. Some (act_id i))\<rparr>"

text \<open>
  \<open>NumericBounds\<close> is implemented for every primitive integer type by one macro; a type is
  represented by its least and greatest value.
\<close>

type_synonym int_type = "int \<times> int"

definition checked_int :: "int_type \<Rightarrow> int \<Rightarrow> int option" where
  "checked_int ty x = (if fst ty \<le> x \<and> x \<le> snd ty then Some x else None)"

definition add_clamped :: "int_type \<Rightarrow> int \<Rightarrow> int \<Rightarrow> int \<Rightarrow> int" where
  "add_clamped ty x step mx = (case checked_int ty (x + step) of None \<Rightarrow> mx | Some candidate \<Rightarrow> min candidate mx)"

definition sub_clamped :: "int_type \<Rightarrow> int \<Rightarrow> int \<Rightarrow> int \<Rightarrow> int" where
  "sub_clamped ty x step mn = (case checked_int ty (x - step) of None \<Rightarrow> mn | Some candidate \<Rightarrow> max candidate mn)"

record NumericItem =
  num_label :: string
  current :: int
  pending :: int
  num_min :: int
  num_max :: int
  step :: int
  formatter :: "int \<Rightarrow> string"

text \<open>\<open>None\<close> is the panic of \<open>clamp\<close> on an empty range.\<close>

definition numeric_new ::
  "string \<Rightarrow> int \<Rightarrow> int \<Rightarrow> int \<Rightarrow> int \<Rightarrow> (int \<Rightarrow> string) \<Rightarrow> NumericItem option" where
  "numeric_new l initial range_min range_max st fmt =
     (case clamp_checked range_min range_max initial of
        None \<Rightarrow> None
      | Some clamped \<Rightarrow> Some \<lparr>num_label = l, current = clamped, pending = clamped, num_min = range_min,
          num_max = range_max, step = st, formatter = fmt\<rparr>)"

definition set_pending :: "int \<Rightarrow> NumericItem \<Rightarrow> NumericItem option" where
  "set_pending v i =
     (case clamp_checked (num_min i) (num_max i) v of None \<Rightarrow> None | Some c \<Rightarrow> Some (i\<lparr>pending := c\<rparr>))"

definition numeric_increment :: "int_type \<Rightarrow> NumericItem \<Rightarrow> bool \<times> NumericItem" where
  "numeric_increment ty i =
     (let nxt = add_clamped ty (pending i) (step i) (num_max i)
      in (nxt \<noteq> pending i, i\<lparr>pending := nxt\<rparr>))"

definition numeric_decrement :: "int_type \<Rightarrow> NumericItem \<Rightarrow> bool \<times> NumericItem" where
  "numeric_decrement ty i =
     (let nxt = sub_clamped ty (pending i) (step i) (num_min i)
      in (nxt \<noteq> pending i, i\<lparr>pending := nxt\<rparr>))"

definition numeric_item :: "int_type \<Rightarrow> (NumericItem, ActionId) MenuItem" where
  "numeric_item ty = \<lparr>label = num_label, value_string = (\<lambda>i. formatter i (pending i)), is_editable = (\<lambda>_. True),
     increment = numeric_increment ty, decrement = numeric_decrement ty,
     on_enter_edit = (\<lambda>i. i), on_exit_edit = (\<lambda>i. i), item_modified = (\<lambda>i. pending i \<noteq> current i),
     commit = (\<lambda>i. i\<lparr>current := pending i\<rparr>), discard = (\<lambda>i. i\<lparr>pending := current i\<rparr>),
     item_action = (\<lambda>_. None)\<rparr>"

datatype 'a MenuEntry = Numeric NumericItem | Command "'a ActionItem"

fun entry_increment :: "int_type \<Rightarrow> 'a MenuEntry \<Rightarrow> bool \<times> 'a MenuEntry" where
  "entry_increment ty (Numeric i) = map_prod id Numeric (increment (numeric_item ty) i)"
| "entry_increment ty (Command i) = map_prod id Command (increment action_item i)"

fun entry_decrement :: "int_type \<Rightarrow> 'a MenuEntry \<Rightarrow> bool \<times> 'a MenuEntry" where
  "entry_decrement ty (Numeric i) = map_prod id Numeric (decrement (numeric_item ty) i)"
| "entry_decrement ty (Command i) = map_prod id Command (decrement action_item i)"

definition menu_entry :: "int_type \<Rightarrow> ('a MenuEntry, 'a) MenuItem" where
  "menu_entry ty = \<lparr>
     label = case_MenuEntry (label (numeric_item ty)) (label action_item),
     value_string = case_MenuEntry (value_string (numeric_item ty)) (value_string action_item),
     is_editable = case_MenuEntry (is_editable (numeric_item ty)) (is_editable action_item),
     increment = entry_increment ty, decrement = entry_decrement ty,
     on_enter_edit = case_MenuEntry (\<lambda>i. Numeric (on_enter_edit (numeric_item ty) i)) (\<lambda>i. Command (on_enter_edit action_item i)),
     on_exit_edit = case_MenuEntry (\<lambda>i. Numeric (on_exit_edit (numeric_item ty) i)) (\<lambda>i. Command (on_exit_edit action_item i)),
     item_modified = case_MenuEntry (item_modified (numeric_item ty)) (item_modified action_item),
     commit = case_MenuEntry (\<lambda>i. Numeric (commit (numeric_item ty) i)) (\<lambda>i. Command (commit action_item i)),
     discard = case_MenuEntry (\<lambda>i. Numeric (discard (numeric_item ty) i)) (\<lambda>i. Command (discard action_item i)),
     item_action = case_MenuEntry (\<lambda>_. None) (item_action action_item)\<rparr>"


section \<open>The menu\<close>

record 'i Menu =
  items :: "'i list"
  viewport :: ScrollableViewport
  editing :: bool

definition menu_new :: "ScrollableViewport \<Rightarrow> 'i Menu" where
  "menu_new v = \<lparr>items = [], viewport = v, editing = False\<rparr>"

text \<open>A full menu returns the item.\<close>

definition menu_add :: "nat \<Rightarrow> 'i \<Rightarrow> 'i Menu \<Rightarrow> ('i + unit) \<times> 'i Menu" where
  "menu_add max_items i m =
     (if length (items m) < max_items then
        let m = m\<lparr>items := items m @ [i]\<rparr>
        in (Inr (), m\<lparr>viewport := set_total_items (length (items m)) (viewport m)\<rparr>)
      else (Inl i, m))"

definition on_next :: "('i, 'a) MenuItem \<Rightarrow> 'i Menu \<Rightarrow> 'a MenuEvent \<times> 'i Menu" where
  "on_next ops m =
     (let index = vp_selected (viewport m)
      in if editing m then
           (if index < length (items m) then
              case increment ops (items m ! index) of (changed, i) \<Rightarrow>
                (if changed then ValueChanged index else NoOp, m\<lparr>items := (items m)[index := i]\<rparr>)
            else (NoOp, m))
         else case select_next (viewport m) of (changed, v) \<Rightarrow>
           (if changed then SelectionChanged (vp_selected v) else NoOp, m\<lparr>viewport := v\<rparr>))"

definition on_prev :: "('i, 'a) MenuItem \<Rightarrow> 'i Menu \<Rightarrow> 'a MenuEvent \<times> 'i Menu" where
  "on_prev ops m =
     (let index = vp_selected (viewport m)
      in if editing m then
           (if index < length (items m) then
              case decrement ops (items m ! index) of (changed, i) \<Rightarrow>
                (if changed then ValueChanged index else NoOp, m\<lparr>items := (items m)[index := i]\<rparr>)
            else (NoOp, m))
         else case select_prev (viewport m) of (changed, v) \<Rightarrow>
           (if changed then SelectionChanged (vp_selected v) else NoOp, m\<lparr>viewport := v\<rparr>))"

definition on_select :: "('i, 'a) MenuItem \<Rightarrow> 'i Menu \<Rightarrow> 'a MenuEvent \<times> 'i Menu" where
  "on_select ops m =
     (let index = vp_selected (viewport m)
      in if \<not> index < length (items m) then (NoOp, m)
         else if is_editable ops (items m ! index) then
           (if editing m
            then (EditCompleted index,
                  m\<lparr>editing := False, items := (items m)[index := on_exit_edit ops (items m ! index)]\<rparr>)
            else (EditStarted index,
                  m\<lparr>editing := True, items := (items m)[index := on_enter_edit ops (items m ! index)]\<rparr>))
         else (case item_action ops (items m ! index) of
                 None \<Rightarrow> (NoOp, m) | Some action \<Rightarrow> (ActionSelected index action, m)))"

definition handle_event :: "('i, 'a) MenuItem \<Rightarrow> UiEvent \<Rightarrow> 'i Menu \<Rightarrow> 'a MenuEvent \<times> 'i Menu" where
  "handle_event ops e m =
     (if items m = [] then (NoOp, m)
      else case e of NextScreen \<Rightarrow> on_next ops m | PrevScreen \<Rightarrow> on_prev ops m | Select \<Rightarrow> on_select ops m)"

definition menu_modified :: "('i, 'a) MenuItem \<Rightarrow> 'i Menu \<Rightarrow> bool" where
  "menu_modified ops m = list_ex (item_modified ops) (items m)"

definition commit_all :: "('i, 'a) MenuItem \<Rightarrow> 'i Menu \<Rightarrow> 'i Menu" where
  "commit_all ops m = m\<lparr>items := map (commit ops) (items m)\<rparr>"

definition discard_all :: "('i, 'a) MenuItem \<Rightarrow> 'i Menu \<Rightarrow> 'i Menu" where
  "discard_all ops m = m\<lparr>items := map (discard ops) (items m)\<rparr>"

definition set_selected :: "nat \<Rightarrow> 'i Menu \<Rightarrow> bool \<times> 'i Menu" where
  "set_selected index m =
     (case select index (viewport m) of (changed, v) \<Rightarrow>
        let m = m\<lparr>viewport := v\<rparr> in (changed, if changed then m\<lparr>editing := False\<rparr> else m))"

section \<open>Rendering\<close>

datatype ScrollIndicator = UpArrow | DownArrow

record RenderItem =
  ri_y :: "32 word"
  ri_label :: string
  ri_value :: string
  ri_selected :: bool
  ri_editing :: bool

fun render_loop :: "('i, 'a) MenuItem \<Rightarrow> nat \<Rightarrow> 'i Menu \<Rightarrow> nat list \<Rightarrow> RenderItem list \<Rightarrow> RenderItem list" where
  "render_loop ops max_items m [] out = out"
| "render_loop ops max_items m (index # rest) out =
     (if index < length (items m) then
        let sel = vp_selected (viewport m);
            rendered = \<lparr>ri_y = item_y index (viewport m), ri_label = label ops (items m ! index),
              ri_value = value_string ops (items m ! index), ri_selected = (index = sel),
              ri_editing = (index = sel \<and> editing m)\<rparr>
        in if length out < max_items then render_loop ops max_items m rest (out @ [rendered]) else out
      else render_loop ops max_items m rest out)"

definition render_items :: "('i, 'a) MenuItem \<Rightarrow> nat \<Rightarrow> 'i Menu \<Rightarrow> RenderItem list" where
  "render_items ops max_items m =
     (case visible_range (viewport m) of (start, stop) \<Rightarrow> render_loop ops max_items m [start..<stop] [])"

definition scroll_indicator :: "'i Menu \<Rightarrow> ScrollIndicator option" where
  "scroll_indicator m =
     (if has_more_below (viewport m) then Some DownArrow
      else if has_more_above (viewport m) then Some UpArrow else None)"

section \<open>The viewport invariant\<close>

definition viewport_ok :: "ScrollableViewport \<Rightarrow> bool" where
  "viewport_ok v \<longleftrightarrow> 1 \<le> max_visible v \<and>
     (if total_items v = 0 then vp_selected v = 0 \<and> scroll_offset v = 0
      else vp_selected v < total_items v \<and> scroll_offset v \<le> vp_selected v \<and>
        vp_selected v < scroll_offset v + max_visible v \<and>
        scroll_offset v \<le> total_items v - max_visible v)"

lemma with_metrics_ok [simp]: "viewport_ok (with_metrics w h hh ih)"
  by (simp add: viewport_ok_def with_metrics_def Let_def)

lemma ensure_visible_ok:
  assumes "1 \<le> max_visible v" "total_items v \<noteq> 0" "vp_selected v < total_items v"
  shows "viewport_ok (ensure_visible v) \<and> vp_selected (ensure_visible v) = vp_selected v \<and>
    total_items (ensure_visible v) = total_items v \<and> max_visible (ensure_visible v) = max_visible v"
  using assms by (auto simp: viewport_ok_def ensure_visible_def Let_def)

lemma ensure_visible_id: "viewport_ok v \<Longrightarrow> ensure_visible v = v"
  by (auto simp: viewport_ok_def ensure_visible_def Let_def split: if_splits)

lemma set_total_items_ok:
  "1 \<le> max_visible v \<Longrightarrow> viewport_ok (set_total_items n v) \<and> total_items (set_total_items n v) = n \<and>
    max_visible (set_total_items n v) = max_visible v"
proof (cases "n = 0")
  case False
  assume "1 \<le> max_visible v"
  with False show ?thesis
    using ensure_visible_ok [of "v\<lparr>total_items := n, vp_selected := min (vp_selected v) (n - 1)\<rparr>"]
    by (simp add: set_total_items_def Let_def)
qed (simp add: set_total_items_def viewport_ok_def)

lemma select_ok:
  assumes "viewport_ok v" "select i v = (c, v')"
  shows "viewport_ok v' \<and> total_items v' = total_items v \<and> (\<not> c \<longrightarrow> v' = v) \<and>
    (c \<longrightarrow> vp_selected v' = min i (total_items v - 1))"
proof (cases "total_items v = 0")
  case True
  with assms show ?thesis by (auto simp: select_def viewport_ok_def)
next
  case False
  define w where "w = v\<lparr>vp_selected := min i (total_items v - 1)\<rparr>"
  have w: "viewport_ok (ensure_visible w)" "vp_selected (ensure_visible w) = min i (total_items v - 1)"
    "total_items (ensure_visible w) = total_items v"
  proof -
    have "1 \<le> max_visible w" "total_items w \<noteq> 0" "vp_selected w < total_items w"
      using assms(1) False by (auto simp: w_def viewport_ok_def)
    note ensure_visible_ok [OF this]
    then show "viewport_ok (ensure_visible w)" "vp_selected (ensure_visible w) = min i (total_items v - 1)"
      "total_items (ensure_visible w) = total_items v" by (simp_all add: w_def)
  qed
  have v': "v' = ensure_visible w" "c \<longleftrightarrow> min i (total_items v - 1) \<noteq> vp_selected v"
    using assms(2) False w(2) by (auto simp: select_def Let_def w_def)
  have "v' = v" if "\<not> c"
  proof -
    from that v'(2) have "w = v" by (simp add: w_def)
    with v'(1) ensure_visible_id [OF assms(1)] show ?thesis by simp
  qed
  with w v' show ?thesis by auto
qed


section \<open>The contract of menu items\<close>

text \<open>
  What the menu expects of an item type: committing and discarding leave nothing modified and do
  not fail to be repeatable, the edit hooks do not change a value, and a change report is truthful.
\<close>

locale menu_item =
  fixes ops :: "('i, 'a) MenuItem"
  assumes commit_clean: "\<not> item_modified ops (commit ops i)"
    and discard_clean: "\<not> item_modified ops (discard ops i)"
    and enter_same: "on_enter_edit ops i = i"
    and exit_same: "on_exit_edit ops i = i"
    and increment_truthful: "increment ops i = (False, j) \<Longrightarrow> j = i"
    and decrement_truthful: "decrement ops i = (False, j) \<Longrightarrow> j = i"
    and unmodified_discard: "\<not> item_modified ops i \<Longrightarrow> discard ops i = i \<and> commit ops i = i"
begin

lemma commit_all_clean: "\<not> menu_modified ops (commit_all ops m)"
  by (auto simp: menu_modified_def commit_all_def list_ex_iff commit_clean)

lemma discard_all_clean: "\<not> menu_modified ops (discard_all ops m)"
  by (auto simp: menu_modified_def discard_all_def list_ex_iff discard_clean)

lemma unmodified_all:
  assumes "\<not> menu_modified ops m"
  shows "commit_all ops m = m \<and> discard_all ops m = m"
proof -
  have "map (commit ops) (items m) = items m" "map (discard ops) (items m) = items m"
    using assms unmodified_discard by (auto simp: menu_modified_def list_ex_iff intro!: map_idI)
  then show ?thesis by (simp add: commit_all_def discard_all_def)
qed

lemma noop_unchanged:
  assumes "viewport_ok (viewport m)" "handle_event ops e m = (NoOp, m')"
  shows "m' = m"
proof -
  have sel: "v = viewport m" if "select i (viewport m) = (False, v)" for i v
    using select_ok [OF assms(1) that] by simp
  have upd: "(items m)[k := items m ! k] = items m" for k by simp
  from assms(2) show ?thesis
    by (auto simp: handle_event_def on_next_def on_prev_def on_select_def Let_def select_next_def select_prev_def
        split: if_splits UiEvent.splits prod.splits option.splits
        dest!: sel increment_truthful decrement_truthful)
qed

lemma select_keeps_items:
  "items (snd (handle_event ops Select m)) = items m"
  by (auto simp: handle_event_def on_select_def Let_def enter_same exit_same split: option.splits)

end

interpretation entry: menu_item "menu_entry ty"
proof unfold_locales
  fix i j :: "'a MenuEntry"
  show "\<not> item_modified (menu_entry ty) (commit (menu_entry ty) i)"
    "\<not> item_modified (menu_entry ty) (discard (menu_entry ty) i)"
    "on_enter_edit (menu_entry ty) i = i" "on_exit_edit (menu_entry ty) i = i"
    by (cases i; simp add: menu_entry_def numeric_item_def action_item_def)+
  show "increment (menu_entry ty) i = (False, j) \<Longrightarrow> j = i"
    by (cases i) (auto simp: menu_entry_def numeric_item_def action_item_def numeric_increment_def Let_def)
  show "decrement (menu_entry ty) i = (False, j) \<Longrightarrow> j = i"
    by (cases i) (auto simp: menu_entry_def numeric_item_def action_item_def numeric_decrement_def Let_def)
  show "\<not> item_modified (menu_entry ty) i \<Longrightarrow> discard (menu_entry ty) i = i \<and> commit (menu_entry ty) i = i"
    by (cases i) (auto simp: menu_entry_def numeric_item_def action_item_def)
qed

section \<open>Reachable menus\<close>

inductive menu_reachable :: "('i, 'a) MenuItem \<Rightarrow> nat \<Rightarrow> 'i Menu \<Rightarrow> bool" for ops n where
  reach_new: "menu_reachable ops n (menu_new (with_metrics w h hh ih))"
| reach_add: "menu_reachable ops n m \<Longrightarrow> menu_reachable ops n (snd (menu_add n i m))"
| reach_event: "menu_reachable ops n m \<Longrightarrow> menu_reachable ops n (snd (handle_event ops e m))"
| reach_commit: "menu_reachable ops n m \<Longrightarrow> menu_reachable ops n (commit_all ops m)"
| reach_discard: "menu_reachable ops n m \<Longrightarrow> menu_reachable ops n (discard_all ops m)"
| reach_select: "menu_reachable ops n m \<Longrightarrow> menu_reachable ops n (snd (set_selected k m))"

definition menu_ok :: "nat \<Rightarrow> 'i Menu \<Rightarrow> bool" where
  "menu_ok n m \<longleftrightarrow> viewport_ok (viewport m) \<and> total_items (viewport m) = length (items m) \<and> length (items m) \<le> n"

lemma menu_ok_select:
  "menu_ok n m \<Longrightarrow> select k (viewport m) = (c, v) \<Longrightarrow> menu_ok n (m\<lparr>viewport := v\<rparr>)"
  using select_ok [of "viewport m" k c v] by (simp add: menu_ok_def)

lemma menu_ok_event: "menu_ok n m \<Longrightarrow> menu_ok n (snd (handle_event ops e m))"
  by (auto simp: handle_event_def on_next_def on_prev_def on_select_def Let_def select_next_def select_prev_def
      dest: menu_ok_select split: prod.splits UiEvent.splits option.splits)
    (auto simp: menu_ok_def)

lemma menu_reachable_ok: "menu_reachable ops n m \<Longrightarrow> menu_ok n m"
proof (induction rule: menu_reachable.induct)
  case (reach_new w h hh ih)
  show ?case by (simp add: menu_ok_def menu_new_def) (simp add: with_metrics_def Let_def)
next
  case (reach_add m i)
  then show ?case
    using set_total_items_ok [of "viewport m" "Suc (length (items m))"]
    by (auto simp: menu_ok_def menu_add_def Let_def viewport_ok_def)
next
  case (reach_event m e)
  then show ?case by (simp add: menu_ok_event)
next
  case (reach_select m k)
  then show ?case
    using menu_ok_select [of n m k] by (auto simp: set_selected_def Let_def menu_ok_def split: prod.splits)
qed (simp_all add: menu_ok_def commit_all_def discard_all_def)

section \<open>What is shown\<close>

definition rendered :: "('i, 'a) MenuItem \<Rightarrow> 'i Menu \<Rightarrow> nat \<Rightarrow> RenderItem" where
  "rendered ops m index =
     \<lparr>ri_y = item_y index (viewport m), ri_label = label ops (items m ! index),
      ri_value = value_string ops (items m ! index), ri_selected = (index = vp_selected (viewport m)),
      ri_editing = (index = vp_selected (viewport m) \<and> editing m)\<rparr>"

lemma render_loop_map:
  "(\<forall>k \<in> set ks. k < length (items m)) \<Longrightarrow> length out + length ks \<le> n \<Longrightarrow>
    render_loop ops n m ks out = out @ map (rendered ops m) ks"
  by (induction ks arbitrary: out) (auto simp: rendered_def Let_def)

lemma menu_ok_range:
  assumes "menu_ok n m" "items m \<noteq> []"
  obtains a b where "visible_range (viewport m) = (a, b)" "a \<le> vp_selected (viewport m)"
    "vp_selected (viewport m) < b" "b \<le> length (items m)" "b - a = min (max_visible (viewport m)) (length (items m))"
proof -
  let ?v = "viewport m"
  have ok: "1 \<le> max_visible ?v" "vp_selected ?v < total_items ?v" "scroll_offset ?v \<le> vp_selected ?v"
    "vp_selected ?v < scroll_offset ?v + max_visible ?v" "scroll_offset ?v \<le> total_items ?v - max_visible ?v"
    "total_items ?v = length (items m)"
    using assms by (auto simp: menu_ok_def viewport_ok_def split: if_splits)
  show thesis
  proof (rule that [of "scroll_offset ?v" "min (scroll_offset ?v + max_visible ?v) (length (items m))"])
    have "min (scroll_offset ?v) (length (items m) - 1) = scroll_offset ?v" using ok by linarith
    with ok assms(2) show "visible_range ?v = (scroll_offset ?v, min (scroll_offset ?v + max_visible ?v) (length (items m)))"
      by (simp add: visible_range_def Let_def)
  qed (use ok in auto)
qed

text \<open>
  A menu always shows its selection. In every menu reachable by adding entries, button events,
  commits, discards and programmatic selection, a nonempty menu renders as many entries as fit,
  exactly one of them is marked selected, it is the selected entry with its label and value, and it
  is marked as edited exactly while the menu is in edit mode.
\<close>
theorem menu_shows_selection:
  assumes "menu_reachable ops n m" "items m \<noteq> []"
  shows "let v = viewport m; r = render_items ops n m
    in length r = min (max_visible v) (length (items m)) \<and>
       filter ri_selected r =
         [\<lparr>ri_y = item_y (vp_selected v) v, ri_label = label ops (items m ! vp_selected v),
           ri_value = value_string ops (items m ! vp_selected v), ri_selected = True, ri_editing = editing m\<rparr>]"
proof -
  have ok: "menu_ok n m" by (rule menu_reachable_ok [OF assms(1)])
  from menu_ok_range [OF this assms(2)] obtain a b where
    range: "visible_range (viewport m) = (a, b)" "a \<le> vp_selected (viewport m)"
      "vp_selected (viewport m) < b" "b \<le> length (items m)" "b - a = min (max_visible (viewport m)) (length (items m))" .
  let ?k = "vp_selected (viewport m)"
  have r: "render_items ops n m = map (rendered ops m) [a..<b]"
  proof -
    have "length (items m) \<le> n" using ok by (simp add: menu_ok_def)
    then have "render_loop ops n m [a..<b] [] = [] @ map (rendered ops m) [a..<b]"
      using range by (intro render_loop_map) auto
    with range(1) show ?thesis by (simp add: render_items_def)
  qed
  have "[a..<b] = [a..<?k] @ ?k # [Suc ?k..<b]"
    using range(2,3) upt_add_eq_append [of a ?k "b - ?k"] by (simp add: upt_conv_Cons)
  moreover have "filter (\<lambda>k. k = ?k) [a..<?k] = []" "filter (\<lambda>k. k = ?k) [Suc ?k..<b] = []"
    by (simp_all add: filter_empty_conv)
  ultimately have "filter (ri_selected \<circ> rendered ops m) [a..<b] = [?k]"
    by (simp add: rendered_def comp_def)
  then show ?thesis using range(5) by (simp add: r filter_map rendered_def Let_def)
qed

definition sample_menu :: "ActionId MenuEntry Menu" where
  "sample_menu =
     snd (menu_add 2 (Command (action_new ''Save'' 7))
       (snd (menu_add 2 (Numeric \<lparr>num_label = ''A'', current = 1, pending = 1, num_min = 0, num_max = 10,
          step = 1, formatter = (\<lambda>_. '''')\<rparr>) (menu_new (with_metrics 128 64 22 10)))))"

theorem menu_shows_selection_witness:
  "let v = viewport sample_menu; r = render_items (menu_entry (0, 255)) 2 sample_menu
    in length r = min (max_visible v) (length (items sample_menu)) \<and>
       filter ri_selected r =
         [\<lparr>ri_y = item_y (vp_selected v) v, ri_label = label (menu_entry (0, 255)) (items sample_menu ! vp_selected v),
           ri_value = value_string (menu_entry (0, 255)) (items sample_menu ! vp_selected v), ri_selected = True,
           ri_editing = editing sample_menu\<rparr>]"
proof (rule menu_shows_selection)
  show "menu_reachable (menu_entry (0, 255)) 2 sample_menu"
    unfolding sample_menu_def by (intro reach_add reach_new)
  show "items sample_menu \<noteq> []" by (simp add: sample_menu_def menu_add_def menu_new_def Let_def)
qed

section \<open>Values stay in range\<close>

definition numeric_ok :: "NumericItem \<Rightarrow> bool" where
  "numeric_ok i \<longleftrightarrow> num_min i \<le> current i \<and> current i \<le> num_max i \<and>
     num_min i \<le> pending i \<and> pending i \<le> num_max i \<and> 0 \<le> step i"

fun entry_ok :: "'a MenuEntry \<Rightarrow> bool" where
  "entry_ok (Numeric i) = numeric_ok i"
| "entry_ok (Command _) = True"

lemma numeric_new_ok: "numeric_new l x a b st fmt = Some i \<Longrightarrow> 0 \<le> st \<Longrightarrow> numeric_ok i"
  by (auto simp: numeric_new_def clamp_checked_def numeric_ok_def clamp_ord_def split: if_splits)

lemma entry_step_ok:
  assumes "entry_ok i"
  shows "entry_ok (snd (increment (menu_entry ty) i))" "entry_ok (snd (decrement (menu_entry ty) i))"
    "entry_ok (commit (menu_entry ty) i)" "entry_ok (discard (menu_entry ty) i)"
  using assms
  by (cases i; auto simp: menu_entry_def numeric_item_def action_item_def numeric_increment_def numeric_decrement_def
      add_clamped_def sub_clamped_def checked_int_def numeric_ok_def Let_def)+

lemma list_all_update: "list_all P xs \<Longrightarrow> P y \<Longrightarrow> list_all P (xs[k := y])"
  by (auto simp: list_all_iff dest!: subsetD [OF set_update_subset_insert])

lemma event_items_all:
  assumes "\<And>i. P i \<Longrightarrow> P (snd (increment (menu_entry ty) i))" "\<And>i. P i \<Longrightarrow> P (snd (decrement (menu_entry ty) i))"
    and all: "list_all P (items m)"
  shows "list_all P (items (snd (handle_event (menu_entry ty) e m)))"
proof -
  have nth: "k < length (items m) \<Longrightarrow> P (items m ! k)" for k
    using all by (simp add: list_all_length)
  show ?thesis
  proof (cases e)
    case Select
    then show ?thesis using all by (simp add: entry.select_keeps_items)
  next
    case NextScreen
    have "P j" if "increment (menu_entry ty) (items m ! k) = (c, j)" "k < length (items m)" for k c j
      using assms(1) [OF nth [OF that(2)]] that(1) by simp
    with NextScreen all show ?thesis
      by (auto simp: handle_event_def on_next_def Let_def split: prod.splits intro!: list_all_update)
  next
    case PrevScreen
    have "P j" if "decrement (menu_entry ty) (items m ! k) = (c, j)" "k < length (items m)" for k c j
      using assms(2) [OF nth [OF that(2)]] that(1) by simp
    with PrevScreen all show ?thesis
      by (auto simp: handle_event_def on_prev_def Let_def split: prod.splits intro!: list_all_update)
  qed
qed

lemma event_entries_ok:
  "list_all entry_ok (items m) \<Longrightarrow> list_all entry_ok (items (snd (handle_event (menu_entry ty) e m)))"
  by (rule event_items_all [of entry_ok ty m e, OF entry_step_ok(1,2)])

text \<open>
  C40: Edited values never leave their range. Whatever buttons are pressed, in whatever order and
  however often, every numeric entry keeps its committed and its pending value between its bounds,
  also where the step would overflow the integer type; committing and discarding keep that too.
\<close>
theorem menu_values_in_range:
  assumes "list_all entry_ok (items m)"
  shows "let m' = fold (\<lambda>e m. snd (handle_event (menu_entry ty) e m)) es m
    in list_all entry_ok (items m') \<and> list_all entry_ok (items (commit_all (menu_entry ty) m')) \<and>
       list_all entry_ok (items (discard_all (menu_entry ty) m'))"
proof -
  have "list_all entry_ok (items (fold (\<lambda>e m. snd (handle_event (menu_entry ty) e m)) es m))"
    using assms by (induction es arbitrary: m) (simp_all add: event_entries_ok)
  then show ?thesis
    by (auto simp: Let_def commit_all_def discard_all_def list_all_iff entry_step_ok)
qed

theorem menu_values_in_range_witness:
  "let m' = fold (\<lambda>e m. snd (handle_event (menu_entry (0, 255)) e m)) [Select, NextScreen, NextScreen] sample_menu
    in list_all entry_ok (items m') \<and> list_all entry_ok (items (commit_all (menu_entry (0, 255)) m')) \<and>
       list_all entry_ok (items (discard_all (menu_entry (0, 255)) m'))"
  by (rule menu_values_in_range) (simp add: sample_menu_def menu_add_def menu_new_def numeric_ok_def Let_def)

end
