(* ===== verification/Mqtt.thy ===== *)
theory Mqtt
  imports App_Bus
begin

text \<open>
  The MQTT task: \<open>firmware/src/tasks/mqtt/\<close> (\<open>mod.rs\<close>, \<open>publish.rs\<close>, \<open>session.rs\<close>). The client library
  is not modelled: what it returns is an input, whether an operation succeeded and which event came
  in, and what is handed to it is an output. Time is in ticks of the embassy clock, whose rate is a
  parameter, and so are the device name and the verifying parser of manifests.
\<close>

definition PING_INTERVAL_SECS :: nat where [const_defs]: "PING_INTERVAL_SECS = 90"

section \<open>Messages to the broker\<close>

text \<open>\<open>heapless::String\<close> of capacity \<open>n\<close>: \<open>write!\<close> fails when the text does not fit.\<close>

definition write_string :: "nat \<Rightarrow> string \<Rightarrow> string option" where
  "write_string n s = (if length s \<le> n then Some s else None)"

definition int_display :: "int \<Rightarrow> string" where
  "int_display i = (if i < 0 then ''-'' @ dec_digits (nat (- i)) else dec_digits (nat i))"

text \<open>\<open>{:.1}\<close> of an \<open>f32\<close>: its exact value, rounded half to even at one decimal.\<close>

fun f32_display_1 :: "f32 \<Rightarrow> string" where
  "f32_display_1 (F32 x) =
     (let tenths = nat (round_half_even (\<bar>x\<bar> * 10))
      in (if x < 0 then ''-'' else '''') @ dec_digits (tenths div 10) @ ''.'' @ dec_digits (tenths mod 10))"
| "f32_display_1 (F32_Inf negative) = (if negative then ''-inf'' else ''inf'')"
| "f32_display_1 F32_NaN = ''NaN''"

definition build_topic :: "RadioReading \<Rightarrow> string option" where
  "build_topic reading =
     write_string 64 (''home/sensors/rubicson/'' @ dec_digits (unat (rr_id (rd_inner reading))) @ ''/temperature'')"

text \<open>The clock is \<open>None\<close> until the first synchronisation.\<close>

definition build_payload :: "nat option \<Rightarrow> RadioReading \<Rightarrow> string option" where
  \<open>build_payload current_time reading =
     (let unix_secs = (case current_time of None \<Rightarrow> 0 | Some secs \<Rightarrow> secs);
          batt = (if rr_battery_ok (rd_inner reading) then ''ok'' else ''low'')
      in write_string 128
           (''{"id":'' @ dec_digits (unat (rr_id (rd_inner reading)))
            @ '',"ch":'' @ dec_digits (unat (rr_channel (rd_inner reading)))
            @ '',"temp":'' @ f32_display_1 (rr_temperature_c (rd_inner reading))
            @ '',"batt":"'' @ batt @ ''","rssi":'' @ int_display (rd_rssi reading)
            @ '',"unix_s":'' @ dec_digits (if unix_secs \<le> u32_max then unix_secs else u32_max) @ ''}''))\<close>

datatype QoS = AtMostOnce | AtLeastOnce

record PublishMsg =
  pm_topic :: string
  pm_payload :: "u8 list"
  pm_qos :: QoS
  pm_retain :: bool

datatype PublishOutcome = Published | Dropped | PublishReconnect RadioReading

text \<open>
  The library's operations report success as \<open>client_ok\<close>. \<open>topic_ok\<close> is its check that a string is
  a valid MQTT string.
\<close>

definition publish_reading ::
  "(string \<Rightarrow> bool) \<Rightarrow> bool \<Rightarrow> nat option \<Rightarrow> RadioReading \<Rightarrow> PublishOutcome \<times> PublishMsg list" where
  "publish_reading topic_ok client_ok current_time reading =
     (case build_topic reading of
        None \<Rightarrow> (Dropped, [])
      | Some topic \<Rightarrow>
          case build_payload current_time reading of
            None \<Rightarrow> (Dropped, [])
          | Some payload \<Rightarrow>
              if \<not> topic_ok topic then (Dropped, [])
              else if \<not> client_ok then (PublishReconnect reading, [])
              else (Published, [\<lparr>pm_topic = topic, pm_payload = string_bytes payload,
                                  pm_qos = AtLeastOnce, pm_retain = False\<rparr>]))"

definition publish_ota_confirmed ::
  "(string \<Rightarrow> bool) \<Rightarrow> bool \<Rightarrow> string \<Rightarrow> (unit + unit) \<times> PublishMsg list" where
  \<open>publish_ota_confirmed topic_ok client_ok device_id =
     (case ota_status_topic device_id of
        Inl _ \<Rightarrow> (Inl (), [])
      | Inr topic \<Rightarrow>
          if \<not> topic_ok topic \<or> \<not> client_ok then (Inl (), [])
          else (Inr (), [\<lparr>pm_topic = topic, pm_payload = string_bytes ''{"status":"confirmed"}'',
                          pm_qos = AtLeastOnce, pm_retain = True\<rparr>]))\<close>

text \<open>The result of this publish is ignored.\<close>

definition clear_ota_retained :: "(string \<Rightarrow> bool) \<Rightarrow> string \<Rightarrow> PublishMsg list" where
  "clear_ota_retained topic_ok ota_topic =
     (if \<not> topic_ok ota_topic then []
      else [\<lparr>pm_topic = ota_topic, pm_payload = [], pm_qos = AtLeastOnce, pm_retain = True\<rparr>])"

section \<open>Manifests from the broker\<close>

text \<open>The verifying parser is a parameter here; the OTA task uses the same one.\<close>

definition resolve_ota_manifest_action ::
  "(u8 list \<Rightarrow> ManifestError + OtaManifest) \<Rightarrow> OtaState \<Rightarrow> bool \<Rightarrow> u8 list \<Rightarrow> OtaManifestDeliveryAction" where
  "resolve_ota_manifest_action parse_verified ota_state retained manifest_bytes =
     (let action = classify_ota_manifest_delivery ota_state retained
      in if action = ClearRetainedOnly
            \<and> (case parse_verified manifest_bytes of Inr incoming \<Rightarrow> om_force incoming | Inl _ \<Rightarrow> False)
         then ForwardAndClearRetained else action)"

record IncomingPublish =
  ip_topic :: string
  ip_message :: "u8 list"
  ip_retain :: bool

record IncomingOtaManifest =
  in_bytes :: "u8 list"
  in_retained :: bool

definition copy_ota_manifest :: "IncomingPublish \<Rightarrow> string \<Rightarrow> IncomingOtaManifest option" where
  "copy_ota_manifest publish ota_topic =
     (if ip_topic publish \<noteq> ota_topic then None
      else let payload = ip_message publish
        in if \<not> is_ota_manifest_payload_candidate (length payload) then None
           else if OTA_MANIFEST_MAX_BYTES < length payload then None
           else Some \<lparr>in_bytes = payload, in_retained = ip_retain publish\<rparr>)"

datatype MqttEvent =
    EventPublish IncomingPublish | Pingresp | PublishAcknowledged
  | Suback nat bool \<comment> \<open>packet identifier and whether the reason code is a success\<close>
  | OtherEvent

datatype MqttEventOutcome = EventContinue | ClearRetained | OtaForwarded

text \<open>The outcome and what is sent to the OTA task.\<close>

definition handle_mqtt_event ::
  "(u8 list \<Rightarrow> ManifestError + OtaManifest) \<Rightarrow> MqttEvent \<Rightarrow> string \<Rightarrow> OtaState \<Rightarrow>
   MqttEventOutcome \<times> u8 list list" where
  "handle_mqtt_event parse_verified event ota_topic ota_state =
     (let manifest = (case event of EventPublish publish \<Rightarrow> copy_ota_manifest publish ota_topic | _ \<Rightarrow> None)
      in case manifest of
           None \<Rightarrow> (EventContinue, [])
         | Some manifest \<Rightarrow>
             case resolve_ota_manifest_action parse_verified ota_state (in_retained manifest) (in_bytes manifest) of
               ForwardOnly \<Rightarrow> (OtaForwarded, [in_bytes manifest])
             | ForwardAndClearRetained \<Rightarrow> (OtaForwarded, [in_bytes manifest])
             | ClearRetainedOnly \<Rightarrow> (ClearRetained, []))"

text \<open>
  The wait for the acknowledgement of the subscription: the events polled in turn (\<open>Inl ()\<close> is a
  failed poll); the result, what is published and what is sent to the OTA task. With the events
  used up the loop is still waiting, which is \<open>None\<close>.
\<close>

fun suback_loop ::
  "(u8 list \<Rightarrow> ManifestError + OtaManifest) \<Rightarrow> (string \<Rightarrow> bool) \<Rightarrow> nat \<Rightarrow> string \<Rightarrow> OtaState \<Rightarrow>
   (unit + MqttEvent) list \<Rightarrow> (unit + unit) option \<times> PublishMsg list \<times> u8 list list" where
  "suback_loop pv topic_ok pid ota_topic ota_state [] = (None, [], [])"
| "suback_loop pv topic_ok pid ota_topic ota_state (Inl _ # events) = (Some (Inl ()), [], [])"
| "suback_loop pv topic_ok pid ota_topic ota_state (Inr event # events) =
     (case event of
        Suback p success \<Rightarrow>
          if p = pid then (Some (if success then Inr () else Inl ()), [], [])
          else suback_loop pv topic_ok pid ota_topic ota_state events
      | EventPublish publish \<Rightarrow>
          (case copy_ota_manifest publish ota_topic of
             None \<Rightarrow> suback_loop pv topic_ok pid ota_topic ota_state events
           | Some manifest \<Rightarrow>
               case resolve_ota_manifest_action pv ota_state (in_retained manifest) (in_bytes manifest) of
                 ForwardOnly \<Rightarrow> (Some (Inl ()), [], [in_bytes manifest])
               | ForwardAndClearRetained \<Rightarrow> (Some (Inl ()), [], [in_bytes manifest])
               | ClearRetainedOnly \<Rightarrow>
                   let (res, msgs, fwd) = suback_loop pv topic_ok pid ota_topic ota_state events
                   in (res, clear_ota_retained topic_ok ota_topic @ msgs, fwd))
      | _ \<Rightarrow> suback_loop pv topic_ok pid ota_topic ota_state events)"

section \<open>A connected session\<close>

record MqttEnv =
  env_tick_hz :: nat
  env_topic_ok :: "string \<Rightarrow> bool"
  env_device_id :: string
  env_parse_verified :: "u8 list \<Rightarrow> ManifestError + OtaManifest"

datatype Wakeup =
    WakeCommand AppCommand | WakePacket "unit + MqttEvent" | WakeTimer | WakeOtaState OtaState

text \<open>
  What one round of the loop sees: when it starts and when its network operation is over, what the
  watches and the queue hold, how the client's operation ends, and which arm of the select fires.
\<close>

record MqttTick =
  tk_now :: nat
  tk_after :: nat
  tk_ota_state :: "OtaState option"
  tk_client_ok :: bool
  tk_queue_empty :: bool
  tk_power :: PowerState
  tk_time :: "nat option"
  tk_wakeup :: Wakeup

datatype MqttOut =
    OutReading RadioReading PublishMsg | OutMessage PublishMsg | OutForward "u8 list" | OutPing

datatype ReadingOutcome =
    ReadingContinue | ReadingReconnect RadioReading | ReadingDeepSleep u8 | ReadingPanic

definition tick_ota_state :: "MqttTick \<Rightarrow> OtaState" where
  "tick_ota_state tk = (case tk_ota_state tk of Some s \<Rightarrow> s | None \<Rightarrow> Inactive)"

text \<open>The outcome, the new time of the last activity, and the outputs.\<close>

definition handle_reading ::
  "MqttEnv \<Rightarrow> MqttTick \<Rightarrow> RadioReading \<Rightarrow> nat \<Rightarrow> OtaState \<Rightarrow> ReadingOutcome \<times> nat \<times> MqttOut list" where
  "handle_reading env tk reading last_activity ota_state =
     (let time_since_last = (tk_now tk - last_activity) div env_tick_hz env
      in if should_reconnect_before_publish time_since_last
         then (ReadingReconnect reading, last_activity, [])
         else case publish_reading (env_topic_ok env) (tk_client_ok tk) (tk_time tk) reading of
           (Published, msgs) \<Rightarrow>
             let outs = map (OutReading reading) msgs
             in if ota_state = Inactive
                then let time_since_measurement = (tk_after tk - rd_received_at reading) div env_tick_hz env
                     in (case maybe_sleep_after_publish (tk_after tk div env_tick_hz env) (tk_power tk)
                                (tk_queue_empty tk) (time_since_measurement * NANOS_PER_SEC) ota_state of
                           None \<Rightarrow> (ReadingPanic, last_activity, outs)
                         | Some (EnterDeepSleep secs) \<Rightarrow> (ReadingDeepSleep secs, last_activity, outs)
                         | Some (StayAwake _) \<Rightarrow> (ReadingContinue, tk_after tk, outs))
                else (ReadingContinue, tk_after tk, outs)
         | (Dropped, _) \<Rightarrow> (ReadingContinue, last_activity, [])
         | (PublishReconnect reading, _) \<Rightarrow> (ReadingReconnect reading, last_activity, []))"

text \<open>How the loop ends; without an end the next round follows.\<close>

datatype LoopEnd = LoopBreak | LoopDeepSleep u8 | LoopPanic

type_synonym step_result = "LoopEnd option \<times> RadioReading option \<times> nat \<times> MqttOut list"

definition after_reading :: "ReadingOutcome \<times> nat \<times> MqttOut list \<Rightarrow> step_result" where
  "after_reading res =
     (case res of (outcome, last_activity, outs) \<Rightarrow>
        case outcome of
          ReadingContinue \<Rightarrow> (None, None, last_activity, outs)
        | ReadingReconnect reading \<Rightarrow> (Some LoopBreak, Some reading, last_activity, outs)
        | ReadingDeepSleep secs \<Rightarrow> (Some (LoopDeepSleep secs), None, last_activity, outs)
        | ReadingPanic \<Rightarrow> (Some LoopPanic, None, last_activity, outs))"

definition connected_step ::
  "MqttEnv \<Rightarrow> string \<Rightarrow> RadioReading option \<Rightarrow> nat \<Rightarrow> MqttTick \<Rightarrow> step_result" where
  "connected_step env ota_topic deferred_reading last_activity tk =
     (case deferred_reading of
        Some reading \<Rightarrow> after_reading (handle_reading env tk reading last_activity (tick_ota_state tk))
      | None \<Rightarrow>
          case tk_wakeup tk of
            WakeCommand (PublishTelemetry reading) \<Rightarrow>
              after_reading (handle_reading env tk reading last_activity (tick_ota_state tk))
          | WakeCommand OtaConfirmed \<Rightarrow>
              (case publish_ota_confirmed (env_topic_ok env) (tk_client_ok tk) (env_device_id env) of
                 (Inl _, msgs) \<Rightarrow> (Some LoopBreak, None, last_activity, map OutMessage msgs)
               | (Inr _, msgs) \<Rightarrow> (None, None, tk_after tk, map OutMessage msgs))
          | WakeCommand (ApplySettings _ _) \<Rightarrow> (None, None, last_activity, [])
          | WakePacket (Inl _) \<Rightarrow> (Some LoopBreak, None, last_activity, [])
          | WakePacket (Inr event) \<Rightarrow>
              (case handle_mqtt_event (env_parse_verified env) event ota_topic (tick_ota_state tk) of
                 (EventContinue, fwd) \<Rightarrow> (None, None, tk_after tk, map OutForward fwd)
               | (ClearRetained, fwd) \<Rightarrow>
                   (None, None, tk_after tk, map OutForward fwd @
                      map OutMessage (clear_ota_retained (env_topic_ok env) ota_topic))
               | (OtaForwarded, fwd) \<Rightarrow> (Some LoopBreak, None, last_activity, map OutForward fwd))
          | WakeTimer \<Rightarrow>
              if tk_client_ok tk then (None, None, tk_after tk, [OutPing])
              else (Some LoopBreak, None, last_activity, [])
          | WakeOtaState state \<Rightarrow>
              (if is_mqtt_allowed state then None else Some LoopBreak, None, last_activity, []))"

fun connected_loop ::
  "MqttEnv \<Rightarrow> string \<Rightarrow> RadioReading option \<Rightarrow> nat \<Rightarrow> MqttTick list \<Rightarrow>
   LoopEnd option \<times> RadioReading option \<times> MqttOut list" where
  "connected_loop env ota_topic deferred_reading last_activity [] = (None, deferred_reading, [])"
| "connected_loop env ota_topic deferred_reading last_activity (tk # tks) =
     (case connected_step env ota_topic deferred_reading last_activity tk of
        (Some e, deferred, _, outs) \<Rightarrow> (Some e, deferred, outs)
      | (None, deferred, last_activity, outs) \<Rightarrow>
          let (e, deferred, outs') = connected_loop env ota_topic deferred last_activity tks
          in (e, deferred, outs @ outs'))"

definition run_connected_loop ::
  "MqttEnv \<Rightarrow> RadioReading option \<Rightarrow> nat \<Rightarrow> MqttTick list \<Rightarrow>
   LoopEnd option \<times> RadioReading option \<times> MqttOut list" where
  "run_connected_loop env deferred_reading started tks =
     (case ota_command_topic (env_device_id env) of
        Inl _ \<Rightarrow> (Some LoopBreak, deferred_reading, [])
      | Inr ota_topic \<Rightarrow> connected_loop env ota_topic deferred_reading started tks)"

section \<open>Setting up a session\<close>

text \<open>How the library's operations end during the set-up, in the order the code performs them.\<close>

record SessionScript =
  ss_tcp_ok :: bool
  ss_tls_open_ok :: bool
  ss_options_ok :: bool
  ss_connect_ok :: bool
  ss_online_ok :: bool
  ss_subscribe :: "nat option"
  ss_events :: "(unit + MqttEvent) list"

definition subscribe_ota_command_topic ::
  "MqttEnv \<Rightarrow> SessionScript \<Rightarrow> OtaState \<Rightarrow> (unit + unit) option \<times> MqttOut list" where
  "subscribe_ota_command_topic env ss ota_state =
     (case ota_command_topic (env_device_id env) of
        Inl _ \<Rightarrow> (Some (Inl ()), [])
      | Inr ota_topic \<Rightarrow>
          if \<not> env_topic_ok env ota_topic then (Some (Inl ()), [])
          else case ss_subscribe ss of
            None \<Rightarrow> (Some (Inl ()), [])
          | Some packet_identifier \<Rightarrow>
              let (res, msgs, fwd) = suback_loop (env_parse_verified env) (env_topic_ok env)
                     packet_identifier ota_topic ota_state (ss_events ss)
              in (res, map OutMessage msgs @ map OutForward fwd))"

definition connect_broker_and_publish_online ::
  "MqttEnv \<Rightarrow> SessionScript \<Rightarrow> OtaState \<Rightarrow> (unit + unit) option \<times> MqttOut list" where
  "connect_broker_and_publish_online env ss ota_state =
     (case status_topic (env_device_id env) of
        Inl _ \<Rightarrow> (Some (Inl ()), [])
      | Inr topic \<Rightarrow>
          if \<not> ss_options_ok ss \<or> \<not> ss_connect_ok ss \<or> \<not> env_topic_ok env topic \<or> \<not> ss_online_ok ss
          then (Some (Inl ()), [])
          else let (res, outs) = subscribe_ota_command_topic env ss ota_state
               in (res, OutMessage \<lparr>pm_topic = topic, pm_payload = string_bytes ''online'',
                                    pm_qos = AtMostOnce, pm_retain = True\<rparr> # outs))"

definition establish_mqtt_session_plain ::
  "MqttEnv \<Rightarrow> SessionScript \<Rightarrow> OtaState \<Rightarrow> (unit + unit) option \<times> MqttOut list" where
  "establish_mqtt_session_plain env ss ota_state =
     (if \<not> ss_tcp_ok ss then (Some (Inl ()), []) else connect_broker_and_publish_online env ss ota_state)"

definition establish_mqtt_session_tls ::
  "MqttEnv \<Rightarrow> u8 list \<Rightarrow> SessionScript \<Rightarrow> OtaState \<Rightarrow> (unit + unit) option \<times> MqttOut list" where
  "establish_mqtt_session_tls env ca_cert_der ss ota_state =
     (if ca_cert_der = [] then (Some (Inl ()), [])
      else if \<not> ss_tcp_ok ss \<or> \<not> ss_tls_open_ok ss then (Some (Inl ()), [])
      else connect_broker_and_publish_online env ss ota_state)"

section \<open>The task\<close>

record MqttTaskState =
  mt_backoff_secs :: nat
  mt_deferred_reading :: "RadioReading option"

text \<open>
  One round of the task's loop. \<open>None\<close> as the end of the set-up or of the session is one that still
  waits. The result: the state of the next round with the seconds waited before it, or that the
  round still waits, holding a reading or none, or that the device is asleep or has panicked; the
  health signals sent; and the outputs.
\<close>

datatype MqttRound =
    NextRound MqttTaskState nat | RoundWaits "RadioReading option" | RoundDeepSleep u8 | RoundPanic

definition mqtt_task_start :: MqttTaskState where
  "mqtt_task_start = \<lparr>mt_backoff_secs = MQTT_MIN_BACKOFF_SECS, mt_deferred_reading = None\<rparr>"

record RoundInput =
  ri_workspace_free :: bool
  ri_ota_watch :: "OtaState option"
  ri_session :: SessionScript
  ri_started :: nat
  ri_ticks :: "MqttTick list"

definition mqtt_task_round ::
  "MqttEnv \<Rightarrow> bool \<Rightarrow> u8 list \<Rightarrow> RoundInput \<Rightarrow> MqttTaskState \<Rightarrow> MqttRound \<times> MqttHealth list \<times> MqttOut list" where
  "mqtt_task_round env use_tls ca_cert_der ri st =
     (let ota_state = (case ri_ota_watch ri of Some s \<Rightarrow> s | None \<Rightarrow> Inactive);
          backoff = mt_backoff_secs st;
          retry = NextRound (st\<lparr>mt_backoff_secs := next_mqtt_backoff_secs backoff\<rparr>) backoff
      in if \<not> is_mqtt_allowed ota_state then (NextRound st 0, [], [])
         else if use_tls \<and> \<not> ri_workspace_free ri then (retry, [], [])
         else let (established, outs) =
                    (if use_tls then establish_mqtt_session_tls env ca_cert_der (ri_session ri) ota_state
                     else establish_mqtt_session_plain env (ri_session ri) ota_state)
              in case established of
                   None \<Rightarrow> (RoundWaits (mt_deferred_reading st), [], outs)
                 | Some (Inl _) \<Rightarrow> (retry, [], outs)
                 | Some (Inr _) \<Rightarrow>
                     let (e, deferred, outs') =
                           run_connected_loop env (mt_deferred_reading st) (ri_started ri) (ri_ticks ri)
                     in case e of
                          None \<Rightarrow> (RoundWaits deferred, [HeartbeatPublished], outs @ outs')
                        | Some (LoopDeepSleep secs) \<Rightarrow> (RoundDeepSleep secs, [HeartbeatPublished], outs @ outs')
                        | Some LoopPanic \<Rightarrow> (RoundPanic, [HeartbeatPublished], outs @ outs')
                        | Some LoopBreak \<Rightarrow>
                            (NextRound \<lparr>mt_backoff_secs = next_mqtt_backoff_secs MQTT_MIN_BACKOFF_SECS,
                                        mt_deferred_reading = deferred\<rparr> MQTT_MIN_BACKOFF_SECS,
                             [HeartbeatPublished, Disconnected], outs @ outs'))"

text \<open>The task over its rounds, as far as they go: the last round's result and all outputs.\<close>

fun mqtt_task ::
  "MqttEnv \<Rightarrow> bool \<Rightarrow> u8 list \<Rightarrow> RoundInput list \<Rightarrow> MqttTaskState \<Rightarrow> MqttRound \<times> MqttOut list" where
  "mqtt_task env use_tls ca [] st = (NextRound st 0, [])"
| "mqtt_task env use_tls ca (ri # ris) st =
     (case mqtt_task_round env use_tls ca ri st of
        (NextRound st' _, _, outs) \<Rightarrow>
          (let (res, outs') = mqtt_task env use_tls ca ris st' in (res, outs @ outs'))
      | (res, _, outs) \<Rightarrow> (res, outs))"

section \<open>Readings as text\<close>

lemma round_half_even_near: "\<bar>x - of_int n\<bar> < 1 / 2 \<Longrightarrow> round_half_even x = n"
proof -
  assume a: "\<bar>x - of_int n\<bar> < 1 / 2"
  show ?thesis
  proof (cases "of_int n \<le> x")
    case True
    then have "\<lfloor>x\<rfloor> = n" using a by (intro floor_unique) auto
    with True a show ?thesis by (auto simp: round_half_even_def Let_def)
  next
    case False
    then have "\<lfloor>x\<rfloor> = n - 1" using a by (intro floor_unique) auto
    with False a show ?thesis by (auto simp: round_half_even_def Let_def)
  qed
qed

lemma f32_tenth_near:
  assumes m: "0 < m" "m \<le> 32768"
  obtains x where "f32_div (F32 (of_int m)) (F32 10) = F32 x" "0 < x" "\<bar>x * 10 - of_int m\<bar> < 1 / 2"
proof -
  define k where "k = ilog2_rat (of_int m / 10 :: rat)"
  define Q where "Q = round_half_even (of_int (m * 2 ^ nat (23 - k)) / 10)"
  note q = f32_tenth_quotient [OF m k_def Q_def] and kb = f32_tenth_exponent [OF m k_def]
  let ?x = "of_int Q * pow2 (k - 23)"
  have inv: "pow2 (k - 23) * of_int (2 ^ nat (23 - k)) = (1 :: rat)"
    using pow2_cancel [of k 23] kb by (simp add: pow2_nat)
  have "\<bar>of_int Q - of_int (m * 2 ^ nat (23 - k)) / 10\<bar> \<le> (1 / 2 :: rat)"
    unfolding Q_def by (rule round_half_even_error)
  then have "\<bar>of_int Q - of_int (m * 2 ^ nat (23 - k)) / 10\<bar> * (pow2 (k - 23) * 10) \<le> (1 / 2 :: rat) * (pow2 (k - 23) * 10)"
    by (rule mult_right_mono) (simp add: pow2_nonneg)
  moreover have "\<bar>?x * 10 - of_int m\<bar> = \<bar>of_int Q - of_int (m * 2 ^ nat (23 - k)) / 10\<bar> * (pow2 (k - 23) * 10)"
  proof -
    let ?p = "pow2 (k - 23) :: rat" and ?N = "of_int (2 ^ nat (23 - k)) :: rat"
    have "(of_int Q - of_int (m * 2 ^ nat (23 - k)) / 10) * (?p * 10) = of_int Q * ?p * 10 - of_int m * (?p * ?N)"
      by (simp only: of_int_mult) (simp add: algebra_simps)
    also have "\<dots> = ?x * 10 - of_int m" by (simp only: inv mult_1_right)
    finally have "?x * 10 - of_int m = (of_int Q - of_int (m * 2 ^ nat (23 - k)) / 10) * (?p * 10)" ..
    then show ?thesis using pow2_pos [of "k - 23"] by (simp only: abs_mult abs_of_pos mult_pos_pos zero_less_numeral)
  qed
  moreover have "pow2 (k - 23) \<le> pow2 (- 12)" using kb(2) by (intro pow2_mono) simp
  then have "pow2 (k - 23) \<le> 1 / 4096" by (simp add: pow2_def [of "- 12"])
  ultimately have "\<bar>?x * 10 - of_int m\<bar> < 1 / 2" by linarith
  moreover have "0 < ?x" using q(1) pow2_pos [of "k - 23"] by simp
  ultimately show thesis using q(3) that by blast
qed

lemma f32_display_tenth:
  assumes "- 32768 \<le> m" "m \<le> 32767"
  shows "f32_display_1 (f32_div (f32_from_i16 m) (F32 10)) =
    (if m < 0 then ''-'' else '''') @ dec_digits (nat \<bar>m\<bar> div 10) @ ''.'' @ dec_digits (nat \<bar>m\<bar> mod 10)"
proof (cases m "0 :: int" rule: linorder_cases)
  case less
  then have "0 < - m" "- m \<le> 32768" using assms by auto
  from f32_tenth_near [OF this] obtain x where
    x: "f32_div (F32 (of_int (- m))) (F32 10) = F32 x" "0 < x" "\<bar>x * 10 - of_int (- m)\<bar> < 1 / 2" .
  then have "f32_div (F32 (of_int m)) (F32 10) = F32 (- x)"
    using f32_round_minus [of "of_int (- m) / 10"] by simp
  then show ?thesis
    using less x(2) round_half_even_near [OF x(3)] by (simp add: f32_from_i16_def Let_def)
next
  case equal
  then show ?thesis by (simp add: f32_from_i16_def f32_round_def round_half_even_def)
next
  case greater
  from f32_tenth_near [OF greater] assms obtain x where
    x: "f32_div (F32 (of_int m)) (F32 10) = F32 x" "0 < x" "\<bar>x * 10 - of_int m\<bar> < 1 / 2" by auto
  then show ?thesis
    using greater x(2) round_half_even_near [OF x(3)] by (simp add: f32_from_i16_def Let_def)
qed

lemma length_dec_digits: "n < 10 ^ k \<Longrightarrow> 0 < k \<Longrightarrow> length (dec_digits n) \<le> k"
proof (induction n arbitrary: k rule: dec_digits.induct)
  case (1 n)
  show ?case
  proof (cases "n < 10")
    case True
    then show ?thesis using 1(3) by (simp add: dec_digits.simps [of n])
  next
    case False
    with 1(2,3) obtain j where j: "k = Suc j" "0 < j" by (cases k; cases "k - 1") auto
    then have "n div 10 < 10 ^ j" using 1(2) by (simp add: less_mult_imp_div_less mult.commute)
    from 1(1) [OF False this j(2)] show ?thesis using False by (simp add: dec_digits.simps [of n] j(1))
  qed
qed

lemma length_dec_u8 [simp]: "length (dec_digits (unat (w :: u8))) \<le> 3"
proof -
  have "unat w < 2 ^ LENGTH(8)" by (rule unsigned_less)
  then show ?thesis by (intro length_dec_digits) simp_all
qed

text \<open>What the radio decoder produces: tenths of a degree, and a signal strength of 16 bits.\<close>

definition decoded_reading :: "RadioReading \<Rightarrow> bool" where
  "decoded_reading r \<longleftrightarrow> - 32768 \<le> rd_rssi r \<and> rd_rssi r \<le> 32767 \<and>
     (\<exists>m. - 2048 \<le> m \<and> m \<le> 2047 \<and> rr_temperature_c (rd_inner r) = f32_div (f32_from_i16 m) (F32 10))"

definition payload_text :: "nat \<Rightarrow> RadioReading \<Rightarrow> int \<Rightarrow> string" where
  \<open>payload_text unix_secs r m =
     ''{"id":'' @ dec_digits (unat (rr_id (rd_inner r)))
       @ '',"ch":'' @ dec_digits (unat (rr_channel (rd_inner r)))
       @ '',"temp":'' @ ((if m < 0 then ''-'' else '''') @ dec_digits (nat \<bar>m\<bar> div 10) @ ''.'' @ dec_digits (nat \<bar>m\<bar> mod 10))
       @ '',"batt":"'' @ (if rr_battery_ok (rd_inner r) then ''ok'' else ''low'')
       @ ''","rssi":'' @ int_display (rd_rssi r)
       @ '',"unix_s":'' @ dec_digits (if unix_secs \<le> u32_max then unix_secs else u32_max) @ ''}''\<close>

lemma payload_fits:
  assumes "- 2048 \<le> m" "m \<le> 2047" "- 32768 \<le> rd_rssi r" "rd_rssi r \<le> 32767"
  shows "length (payload_text u r m) \<le> 128"
proof -
  define whole where "whole = dec_digits (nat \<bar>m\<bar> div 10)"
  define tenth where "tenth = dec_digits (nat \<bar>m\<bar> mod 10)"
  define rssi where "rssi = int_display (rd_rssi r)"
  define secs where "secs = dec_digits (if u \<le> u32_max then u else u32_max)"
  define id where "id = dec_digits (unat (rr_id (rd_inner r)))"
  define ch where "ch = dec_digits (unat (rr_channel (rd_inner r)))"
  have "length whole \<le> 3" unfolding whole_def using assms by (intro length_dec_digits) auto
  moreover have "length tenth \<le> 1" unfolding tenth_def by (intro length_dec_digits) auto
  moreover have "length rssi \<le> 6"
  proof -
    have "nat (rd_rssi r) < 10 ^ 5" "nat (- rd_rssi r) < 10 ^ 5" using assms by simp_all
    then have "length (dec_digits (nat (rd_rssi r))) \<le> 5" "length (dec_digits (nat (- rd_rssi r))) \<le> 5"
      by (auto intro: length_dec_digits)
    then show ?thesis by (simp add: rssi_def int_display_def)
  qed
  moreover have "length secs \<le> 10" unfolding secs_def by (intro length_dec_digits) (auto simp: u32_max_def)
  moreover have "length id \<le> 3" "length ch \<le> 3" by (simp_all add: id_def ch_def)
  ultimately show ?thesis
    unfolding payload_text_def whole_def [symmetric] tenth_def [symmetric] rssi_def [symmetric]
      secs_def [symmetric] id_def [symmetric] ch_def [symmetric] by simp
qed

lemma build_payload_decoded:
  assumes "- 2048 \<le> m" "m \<le> 2047" "- 32768 \<le> rd_rssi r" "rd_rssi r \<le> 32767"
    and "rr_temperature_c (rd_inner r) = f32_div (f32_from_i16 m) (F32 10)"
  shows "build_payload time r = Some (payload_text (case time of None \<Rightarrow> 0 | Some s \<Rightarrow> s) r m)"
proof -
  have t: "f32_display_1 (rr_temperature_c (rd_inner r)) =
      (if m < 0 then ''-'' else '''') @ dec_digits (nat \<bar>m\<bar> div 10) @ ''.'' @ dec_digits (nat \<bar>m\<bar> mod 10)"
    unfolding assms(5) by (rule f32_display_tenth) (use assms in auto)
  show ?thesis
    using payload_fits [OF assms(1-4), of "case time of None \<Rightarrow> 0 | Some s \<Rightarrow> s"]
    unfolding build_payload_def write_string_def payload_text_def Let_def t
    by (simp only: if_True)
qed

lemma build_topic_eq:
  "build_topic r = Some (''home/sensors/rubicson/'' @ dec_digits (unat (rr_id (rd_inner r))) @ ''/temperature'')"
  using length_dec_u8 [of "rr_id (rd_inner r)"] by (simp add: build_topic_def write_string_def del: length_dec_u8)

section \<open>Readings through a session\<close>

definition reading_message :: "nat option \<Rightarrow> RadioReading \<Rightarrow> PublishMsg" where
  "reading_message time r =
     \<lparr>pm_topic = the (build_topic r), pm_payload = string_bytes (the (build_payload time r)),
      pm_qos = AtLeastOnce, pm_retain = False\<rparr>"

fun published_readings :: "MqttOut list \<Rightarrow> RadioReading list" where
  "published_readings [] = []"
| "published_readings (OutReading r m # outs) = r # published_readings outs"
| "published_readings (_ # outs) = published_readings outs"

lemma published_readings_append [simp]:
  "published_readings (xs @ ys) = published_readings xs @ published_readings ys"
  by (induction xs rule: published_readings.induct) simp_all

lemma published_readings_other [simp]:
  "published_readings (map OutMessage ms) = []" "published_readings (map OutForward bs) = []"
  by (induction ms; simp) (induction bs; simp)

definition messages_ok :: "MqttOut list \<Rightarrow> bool" where
  "messages_ok outs \<longleftrightarrow> (\<forall>r m. OutReading r m \<in> set outs \<longrightarrow> (\<exists>time. m = reading_message time r))"

lemma messages_ok_simps [simp]:
  "messages_ok []" "messages_ok (xs @ ys) \<longleftrightarrow> messages_ok xs \<and> messages_ok ys"
  "messages_ok (map OutMessage ms)" "messages_ok (map OutForward bs)" "messages_ok [OutPing]"
  "messages_ok (OutMessage m # xs) \<longleftrightarrow> messages_ok xs"
  by (auto simp: messages_ok_def)

text \<open>The readings that the rounds of a loop take from the command channel.\<close>

definition taken_by_step :: "RadioReading option \<Rightarrow> MqttTick \<Rightarrow> RadioReading list" where
  "taken_by_step deferred tk =
     (case deferred of
        Some _ \<Rightarrow> []
      | None \<Rightarrow> (case tk_wakeup tk of WakeCommand (PublishTelemetry r) \<Rightarrow> [r] | _ \<Rightarrow> []))"

fun taken_by_loop :: "MqttEnv \<Rightarrow> string \<Rightarrow> RadioReading option \<Rightarrow> nat \<Rightarrow> MqttTick list \<Rightarrow> RadioReading list" where
  "taken_by_loop env ota_topic deferred last_activity [] = []"
| "taken_by_loop env ota_topic deferred last_activity (tk # tks) =
     taken_by_step deferred tk @
     (case connected_step env ota_topic deferred last_activity tk of
        (Some _, _, _, _) \<Rightarrow> []
      | (None, deferred, last_activity, _) \<Rightarrow> taken_by_loop env ota_topic deferred last_activity tks)"

definition topics_ok :: "MqttEnv \<Rightarrow> bool" where
  "topics_ok env \<longleftrightarrow> (\<forall>r. env_topic_ok env (the (build_topic r)))"

lemma handle_reading_keeps:
  assumes "topics_ok env" "decoded_reading r"
    and "after_reading (handle_reading env tk r last_activity ota_state) = (e, deferred, last', outs)"
  shows "published_readings outs @ (case deferred of Some d \<Rightarrow> [d] | None \<Rightarrow> []) = [r] \<and> messages_ok outs \<and>
    e \<noteq> Some LoopPanic"
proof -
  obtain p where p: "build_payload (tk_time tk) r = Some p"
    using assms(2) build_payload_decoded by (auto simp: decoded_reading_def)
  obtain t where t: "build_topic r = Some t" "env_topic_ok env t"
    using assms(1) build_topic_eq [of r] unfolding topics_ok_def by (metis option.sel)
  have msg: "reading_message (tk_time tk) r =
      \<lparr>pm_topic = t, pm_payload = string_bytes p, pm_qos = AtLeastOnce, pm_retain = False\<rparr>"
    using p t by (simp add: reading_message_def)
  have "predictive_sleep_decision q a en d n o' dl \<noteq> None" for q a en d n o' dl
    using sleep_decision_cases [of q a en d n o' dl] by auto
  then have total: "maybe_sleep_after_publish u st q a ota \<noteq> None" for u st q a ota
    by (simp add: maybe_sleep_after_publish_def Let_def)
  have "messages_ok [OutReading r (reading_message (tk_time tk) r)]" by (auto simp: messages_ok_def)
  moreover obtain act where "maybe_sleep_after_publish (tk_after tk div env_tick_hz env) (tk_power tk) (tk_queue_empty tk)
      ((tk_after tk - rd_received_at r) div env_tick_hz env * NANOS_PER_SEC) Inactive = Some act"
    using total by blast
  ultimately show ?thesis
    using assms(3) p t
    by (auto simp: after_reading_def handle_reading_def publish_reading_def msg Let_def
        split: if_splits option.splits SleepAction.splits)
qed

lemma connected_step_keeps:
  assumes "topics_ok env" "\<forall>r \<in> set_option deferred \<union> set (taken_by_step deferred tk). decoded_reading r"
    and "connected_step env ota_topic deferred last_activity tk = (e, deferred', last', outs)"
  shows "published_readings outs @ (case deferred' of Some d \<Rightarrow> [d] | None \<Rightarrow> []) =
    (case deferred of Some d \<Rightarrow> [d] | None \<Rightarrow> []) @ taken_by_step deferred tk \<and> messages_ok outs \<and> e \<noteq> Some LoopPanic"
proof (cases deferred)
  case (Some d)
  then show ?thesis
    using assms handle_reading_keeps [OF assms(1), of d tk last_activity "tick_ota_state tk"]
    by (simp add: connected_step_def taken_by_step_def)
next
  case None
  show ?thesis
  proof (cases "\<exists>r. tk_wakeup tk = WakeCommand (PublishTelemetry r)")
    case True
    then obtain r where r: "tk_wakeup tk = WakeCommand (PublishTelemetry r)" ..
    then have "decoded_reading r" using None assms(2) by (simp add: taken_by_step_def)
    moreover have "after_reading (handle_reading env tk r last_activity (tick_ota_state tk)) = (e, deferred', last', outs)"
      using None r assms(3) by (simp add: connected_step_def)
    ultimately show ?thesis
      using handle_reading_keeps [OF assms(1)] None r by (simp add: taken_by_step_def)
  next
    case False
    then show ?thesis
      using None assms(3)
      by (auto simp: connected_step_def taken_by_step_def messages_ok_def
          split: Wakeup.splits AppCommand.splits sum.splits prod.splits MqttEventOutcome.splits if_splits)
  qed
qed

lemma connected_loop_keeps:
  assumes "topics_ok env"
  shows "\<lbrakk>\<forall>r \<in> set_option deferred \<union> set (taken_by_loop env ota_topic deferred last_activity tks). decoded_reading r;
    connected_loop env ota_topic deferred last_activity tks = (e, deferred', outs)\<rbrakk> \<Longrightarrow>
    published_readings outs @ (case deferred' of Some d \<Rightarrow> [d] | None \<Rightarrow> []) =
    (case deferred of Some d \<Rightarrow> [d] | None \<Rightarrow> []) @ taken_by_loop env ota_topic deferred last_activity tks \<and>
    messages_ok outs \<and> e \<noteq> Some LoopPanic"
proof (induction tks arbitrary: deferred last_activity e deferred' outs)
  case Nil
  then show ?case by simp
next
  case (Cons tk tks)
  obtain e1 d1 l1 o1 where s: "connected_step env ota_topic deferred last_activity tk = (e1, d1, l1, o1)"
    by (metis surj_pair)
  have "\<forall>r \<in> set_option deferred \<union> set (taken_by_step deferred tk). decoded_reading r"
    using Cons.prems(1) by auto
  note step = connected_step_keeps [OF assms this s]
  show ?case
  proof (cases e1)
    case (Some x)
    then show ?thesis using step Cons.prems(2) by (auto simp: s)
  next
    case None
    obtain e2 d2 o2 where loop: "connected_loop env ota_topic d1 l1 tks = (e2, d2, o2)" by (metis surj_pair)
    have res: "e = e2" "deferred' = d2" "outs = o1 @ o2" using Cons.prems(2) by (simp_all add: s None loop)
    have "\<forall>r \<in> set (case d1 of Some d \<Rightarrow> [d] | None \<Rightarrow> []). decoded_reading r"
    proof
      fix r assume "r \<in> set (case d1 of Some d \<Rightarrow> [d] | None \<Rightarrow> [])"
      then have "r \<in> set ((case deferred of Some d \<Rightarrow> [d] | None \<Rightarrow> []) @ taken_by_step deferred tk)"
        using step by (metis Un_iff set_append)
      then show "decoded_reading r" using Cons.prems(1) by (cases deferred) auto
    qed
    then have "\<forall>r \<in> set_option d1 \<union> set (taken_by_loop env ota_topic d1 l1 tks). decoded_reading r"
      using Cons.prems(1) by (cases d1) (auto simp: s None)
    from Cons.IH [OF this loop] step show ?thesis
      unfolding res by (simp add: s None)
  qed
qed

text \<open>The set-up of a session publishes no readings.\<close>

lemma suback_loop_ends:
  "suback_loop pv topic_ok pid ota_topic ota_state events = (res, msgs, fwd) \<Longrightarrow>
   fwd = [] \<or> res = Some (Inl ())"
  by (induction pv topic_ok pid ota_topic ota_state events arbitrary: res msgs fwd rule: suback_loop.induct)
     (auto simp: Let_def split: MqttEvent.splits if_splits option.splits OtaManifestDeliveryAction.splits prod.splits)

lemma connect_broker_readings:
  "connect_broker_and_publish_online env ss ota_state = (res, outs) \<Longrightarrow> published_readings outs = [] \<and> messages_ok outs"
  by (auto simp: connect_broker_and_publish_online_def subscribe_ota_command_topic_def Let_def
      split: sum.splits if_splits option.splits prod.splits)

definition establish_mqtt_session where
  "establish_mqtt_session env use_tls ca ss ota_state =
     (if use_tls then establish_mqtt_session_tls env ca ss ota_state else establish_mqtt_session_plain env ss ota_state)"

lemma establish_readings:
  "establish_mqtt_session env use_tls ca ss ota_state = (res, outs) \<Longrightarrow> published_readings outs = [] \<and> messages_ok outs"
  using connect_broker_readings
  by (auto simp: establish_mqtt_session_def establish_mqtt_session_tls_def establish_mqtt_session_plain_def split: if_splits)

section \<open>Readings across sessions\<close>

definition held :: "MqttRound \<Rightarrow> RadioReading list" where
  "held res = (case res of
     NextRound st _ \<Rightarrow> (case mt_deferred_reading st of Some d \<Rightarrow> [d] | None \<Rightarrow> [])
   | RoundWaits d \<Rightarrow> (case d of Some d \<Rightarrow> [d] | None \<Rightarrow> [])
   | _ \<Rightarrow> [])"

definition taken_by_round :: "MqttEnv \<Rightarrow> bool \<Rightarrow> u8 list \<Rightarrow> RoundInput \<Rightarrow> MqttTaskState \<Rightarrow> RadioReading list" where
  "taken_by_round env use_tls ca ri st =
     (let ota_state = (case ri_ota_watch ri of Some s \<Rightarrow> s | None \<Rightarrow> Inactive)
      in if is_mqtt_allowed ota_state \<and> (use_tls \<longrightarrow> ri_workspace_free ri)
            \<and> fst (establish_mqtt_session env use_tls ca (ri_session ri) ota_state) = Some (Inr ())
         then case ota_command_topic (env_device_id env) of
                Inl _ \<Rightarrow> []
              | Inr topic \<Rightarrow> taken_by_loop env topic (mt_deferred_reading st) (ri_started ri) (ri_ticks ri)
         else [])"

fun taken_by_task :: "MqttEnv \<Rightarrow> bool \<Rightarrow> u8 list \<Rightarrow> RoundInput list \<Rightarrow> MqttTaskState \<Rightarrow> RadioReading list" where
  "taken_by_task env use_tls ca [] st = []"
| "taken_by_task env use_tls ca (ri # ris) st =
     taken_by_round env use_tls ca ri st @
     (case mqtt_task_round env use_tls ca ri st of
        (NextRound st' _, _, _) \<Rightarrow> taken_by_task env use_tls ca ris st' | _ \<Rightarrow> [])"

lemma run_connected_loop_keeps:
  assumes "topics_ok env" "run_connected_loop env deferred started tks = (e, deferred', outs)"
    and "ota_command_topic (env_device_id env) = Inr topic"
    and "\<forall>r \<in> set_option deferred \<union> set (taken_by_loop env topic deferred started tks). decoded_reading r"
  shows "published_readings outs @ (case deferred' of Some d \<Rightarrow> [d] | None \<Rightarrow> []) =
    (case deferred of Some d \<Rightarrow> [d] | None \<Rightarrow> []) @ taken_by_loop env topic deferred started tks \<and>
    messages_ok outs \<and> e \<noteq> Some LoopPanic"
  using connected_loop_keeps [OF assms(1,4)] assms(2,3) by (simp add: run_connected_loop_def)

text \<open>A device that goes to sleep has nothing left over.\<close>

lemma deep_sleep_holds_nothing:
  "connected_loop env topic deferred started tks = (Some (LoopDeepSleep s), deferred', outs) \<Longrightarrow> deferred' = None"
proof (induction tks arbitrary: deferred started outs)
  case (Cons tk tks)
  have "d' = None" if "connected_step env topic deferred started tk = (Some (LoopDeepSleep s), d', l, os)" for d' l os
    using that
    by (auto simp: connected_step_def after_reading_def
        split: option.splits Wakeup.splits AppCommand.splits sum.splits prod.splits MqttEventOutcome.splits
          ReadingOutcome.splits if_splits)
  with Cons show ?case by (auto split: prod.splits option.splits)
qed simp

lemma established_topic:
  "establish_mqtt_session env use_tls ca ss ota_state = (Some (Inr u), outs) \<Longrightarrow>
   \<exists>topic. ota_command_topic (env_device_id env) = Inr topic"
  by (auto simp: establish_mqtt_session_def establish_mqtt_session_tls_def establish_mqtt_session_plain_def
      connect_broker_and_publish_online_def subscribe_ota_command_topic_def Let_def
      split: if_splits sum.splits prod.splits)

lemma mqtt_task_round_keeps:
  assumes "topics_ok env" "mqtt_task_round env use_tls ca ri st = (res, health, outs)"
    and "\<forall>r \<in> set_option (mt_deferred_reading st) \<union> set (taken_by_round env use_tls ca ri st). decoded_reading r"
  shows "published_readings outs @ held res =
    (case mt_deferred_reading st of Some d \<Rightarrow> [d] | None \<Rightarrow> []) @ taken_by_round env use_tls ca ri st \<and>
    messages_ok outs \<and> res \<noteq> RoundPanic"
proof -
  let ?ota = "case ri_ota_watch ri of Some s \<Rightarrow> s | None \<Rightarrow> Inactive"
  obtain est o1 where e: "establish_mqtt_session env use_tls ca (ri_session ri) ?ota = (est, o1)" by fastforce
  note quiet = establish_readings [OF e]
  show ?thesis
  proof (cases "is_mqtt_allowed ?ota \<and> (use_tls \<longrightarrow> ri_workspace_free ri) \<and> est = Some (Inr ())")
    case False
    then show ?thesis
      using assms(2) e quiet
      unfolding mqtt_task_round_def taken_by_round_def establish_mqtt_session_def [symmetric]
      by (auto simp: Let_def held_def split: if_splits option.splits sum.splits)
  next
    case True
    with e obtain topic where topic: "ota_command_topic (env_device_id env) = Inr topic"
      using established_topic by blast
    have taken: "taken_by_round env use_tls ca ri st =
        taken_by_loop env topic (mt_deferred_reading st) (ri_started ri) (ri_ticks ri)"
      using True e topic by (simp add: taken_by_round_def)
    obtain le d2 o2 where loop:
      "run_connected_loop env (mt_deferred_reading st) (ri_started ri) (ri_ticks ri) = (le, d2, o2)"
      by (metis surj_pair)
    note keeps = run_connected_loop_keeps [OF assms(1) loop topic assms(3) [unfolded taken]]
    have "le = Some (LoopDeepSleep s) \<Longrightarrow> d2 = None" for s
      using loop topic deep_sleep_holds_nothing by (auto simp: run_connected_loop_def)
    then show ?thesis
      using assms(2) True e loop keeps quiet
      unfolding mqtt_task_round_def taken establish_mqtt_session_def [symmetric]
      by (cases le; cases "the le") (auto simp: Let_def held_def split: option.splits)
  qed
qed

lemma mqtt_task_keeps:
  assumes "topics_ok env"
  shows "\<lbrakk>mqtt_task env use_tls ca ris st = (res, outs);
    \<forall>r \<in> set_option (mt_deferred_reading st) \<union> set (taken_by_task env use_tls ca ris st). decoded_reading r\<rbrakk> \<Longrightarrow>
    published_readings outs @ held res =
    (case mt_deferred_reading st of Some d \<Rightarrow> [d] | None \<Rightarrow> []) @ taken_by_task env use_tls ca ris st \<and>
    messages_ok outs \<and> res \<noteq> RoundPanic"
proof (induction ris arbitrary: st res outs)
  case Nil
  then show ?case by (auto simp: held_def)
next
  case (Cons ri ris)
  obtain r1 h1 o1 where s: "mqtt_task_round env use_tls ca ri st = (r1, h1, o1)" by (metis surj_pair)
  have "\<forall>r \<in> set_option (mt_deferred_reading st) \<union> set (taken_by_round env use_tls ca ri st). decoded_reading r"
    using Cons.prems(2) by auto
  note step = mqtt_task_round_keeps [OF assms s this]
  show ?case
  proof (cases "\<exists>st' w. r1 = NextRound st' w")
    case False
    then show ?thesis using step Cons.prems(1) by (cases r1) (auto simp: s)
  next
    case True
    then obtain st' w where r1: "r1 = NextRound st' w" by blast
    obtain r2 o2 where rest: "mqtt_task env use_tls ca ris st' = (r2, o2)" by fastforce
    have res: "res = r2" "outs = o1 @ o2" using Cons.prems(1) by (simp_all add: s r1 rest)
    let ?d1 = "case mt_deferred_reading st' of Some d \<Rightarrow> [d] | None \<Rightarrow> []"
    have "held r1 = ?d1" by (simp add: held_def r1)
    then have "set ?d1 \<subseteq> set ((case mt_deferred_reading st of Some d \<Rightarrow> [d] | None \<Rightarrow> []) @ taken_by_round env use_tls ca ri st)"
      using step by (metis Un_upper2 set_append)
    then have "\<forall>r \<in> set ?d1. decoded_reading r"
      using Cons.prems(2) by (cases "mt_deferred_reading st") auto
    then have "\<forall>r \<in> set_option (mt_deferred_reading st') \<union> set (taken_by_task env use_tls ca ris st'). decoded_reading r"
      using Cons.prems(2) by (cases "mt_deferred_reading st'") (auto simp: s r1)
    from Cons.IH [OF rest this] step show ?thesis
      unfolding res by (simp add: s r1 held_def)
  qed
qed

section \<open>Manifests\<close>

lemma copy_ota_manifest_Some:
  "copy_ota_manifest p topic = Some mf \<longleftrightarrow> ip_topic p = topic \<and> 0 < length (ip_message p) \<and>
     length (ip_message p) \<le> OTA_MANIFEST_MAX_BYTES \<and> mf = \<lparr>in_bytes = ip_message p, in_retained = ip_retain p\<rparr>"
  by (auto simp: copy_ota_manifest_def is_ota_manifest_payload_candidate_def Let_def)

lemma resolve_clears_iff:
  "resolve_ota_manifest_action pv st retained bytes = ClearRetainedOnly \<longleftrightarrow>
     st = PendingConfirmation \<and> retained \<and> \<not> (\<exists>m. pv bytes = Inr m \<and> om_force m)"
  by (cases "(st, retained)" rule: classify_ota_manifest_delivery.cases)
     (auto simp: resolve_ota_manifest_action_def split: sum.splits)

text \<open>
  A finding: a retained manifest that is forwarded is never cleared at the broker, although the
  action is named for it and documented to do so; with \<open>force\<close> it is forwarded again after the
  reboot, while its own image awaits confirmation.
\<close>

lemma forwarded_manifest_stays_retained:
  assumes "handle_mqtt_event (env_parse_verified env) event topic (tick_ota_state tk) = (OtaForwarded, fwd)"
    and "tk_wakeup tk = WakePacket (Inr event)"
  shows "connected_step env topic None last_activity tk = (Some LoopBreak, None, last_activity, map OutForward fwd)"
  using assms by (simp add: connected_step_def)

lemma forced_manifest_forwarded_while_pending:
  assumes "pv bytes = Inr m" "om_force m"
  shows "resolve_ota_manifest_action pv PendingConfirmation True bytes = ForwardAndClearRetained"
  using assms by (simp add: resolve_ota_manifest_action_def)

section \<open>Properties\<close>

text \<open>
  C12: No reading is lost between the radio and the broker. Over any run of the MQTT task, with
  connections failing and coming back at any point, the readings it takes from its queue are, in
  order and each exactly once, those it has published followed by the one it still holds for the
  next session, if any; each is published to its sensor's topic with its own payload, and the task
  never panics.
\<close>

theorem no_reading_lost:
  assumes "topics_ok env"
    and "mqtt_task env use_tls ca ris mqtt_task_start = (res, outs)"
    and "\<forall>r \<in> set (taken_by_task env use_tls ca ris mqtt_task_start). decoded_reading r"
  shows "published_readings outs @ held res = taken_by_task env use_tls ca ris mqtt_task_start \<and>
    (\<forall>r m. OutReading r m \<in> set outs \<longrightarrow> (\<exists>time. m = reading_message time r)) \<and> res \<noteq> RoundPanic"
  using mqtt_task_keeps [OF assms(1,2)] assms(3)
  by (simp add: mqtt_task_start_def messages_ok_def)

definition sample_reading :: RadioReading where
  "sample_reading = \<lparr>rd_inner = \<lparr>rr_id = 35, rr_channel = 2, rr_battery_ok = True,
     rr_temperature_c = f32_div (f32_from_i16 (- 53)) (F32 10), rr_crc_ok = True\<rparr>,
     rd_rssi = - 74, rd_detection_threshold = 12, rd_received_at = 0\<rparr>"

definition sample_env :: MqttEnv where
  "sample_env = \<lparr>env_tick_hz = 1000000, env_topic_ok = (\<lambda>_. True), env_device_id = ''node'',
     env_parse_verified = (\<lambda>_. Inl Malformed)\<rparr>"

definition sample_round :: RoundInput where
  "sample_round = \<lparr>ri_workspace_free = True, ri_ota_watch = None,
     ri_session = \<lparr>ss_tcp_ok = True, ss_tls_open_ok = True, ss_options_ok = True, ss_connect_ok = True,
       ss_online_ok = True, ss_subscribe = Some 1, ss_events = [Inr (Suback 1 True)]\<rparr>,
     ri_started = 0,
     ri_ticks = [\<lparr>tk_now = 1000000, tk_after = 1100000, tk_ota_state = None, tk_client_ok = True,
       tk_queue_empty = False, tk_power = power_after_reset 0, tk_time = None,
       tk_wakeup = WakeCommand (PublishTelemetry sample_reading)\<rparr>]\<rparr>"

theorem no_reading_lost_witness:
  "\<exists>res outs. mqtt_task sample_env False [] [sample_round] mqtt_task_start = (res, outs) \<and>
     published_readings outs @ held res = [sample_reading]"
proof -
  obtain res outs where run: "mqtt_task sample_env False [] [sample_round] mqtt_task_start = (res, outs)" by fastforce
  have "topics_ok sample_env" by (simp add: topics_ok_def sample_env_def)
  have "fst (establish_mqtt_session sample_env False [] (ri_session sample_round) Inactive) = Some (Inr ())"
    by (simp add: establish_mqtt_session_def establish_mqtt_session_plain_def connect_broker_and_publish_online_def
        subscribe_ota_command_topic_def sample_env_def sample_round_def status_topic_def ota_command_topic_def
        topic_string_def const_defs)
  then have taken: "taken_by_task sample_env False [] [sample_round] mqtt_task_start = [sample_reading]"
    by (auto simp: taken_by_round_def sample_round_def is_mqtt_allowed_def ota_command_topic_def sample_env_def
        topic_string_def const_defs taken_by_step_def mqtt_task_start_def split: prod.splits option.splits MqttRound.splits)
  have "decoded_reading sample_reading"
    by (auto simp: decoded_reading_def sample_reading_def intro!: exI [of _ "- 53"])
  then have dec: "\<forall>r \<in> set (taken_by_task sample_env False [] [sample_round] mqtt_task_start). decoded_reading r"
    unfolding taken by simp
  show ?thesis
    using no_reading_lost [OF \<open>topics_ok sample_env\<close> run dec] run unfolding taken by blast
qed

text \<open>
  The payload says what was measured. For every reading the decoder produces, the published
  JSON is built without error and holds the identifier, the channel, the temperature exactly to
  its tenth of a degree (although it went through a 32-bit float), the battery, the signal strength
  and the time, 0 before the first synchronisation.
\<close>

theorem payload_describes_reading:
  assumes "- 2048 \<le> m" "m \<le> 2047" "- 32768 \<le> rd_rssi r" "rd_rssi r \<le> 32767"
    and "rr_temperature_c (rd_inner r) = f32_div (f32_from_i16 m) (F32 10)"
  shows "build_payload time r = Some (payload_text (case time of None \<Rightarrow> 0 | Some s \<Rightarrow> s) r m)"
  using assms by (rule build_payload_decoded)

theorem payload_describes_reading_witness:
  \<open>build_payload (Some 1707000000) sample_reading =
     Some ''{"id":35,"ch":2,"temp":-5.3,"batt":"ok","rssi":-74,"unix_s":1707000000}''\<close>
proof -
  have "build_payload (Some 1707000000) sample_reading = Some (payload_text 1707000000 sample_reading (- 53))"
    using payload_describes_reading [of "- 53" sample_reading "Some 1707000000"]
    by (simp add: sample_reading_def)
  also have \<open>payload_text 1707000000 sample_reading (- 53) =
      ''{"id":35,"ch":2,"temp":-5.3,"batt":"ok","rssi":-74,"unix_s":1707000000}''\<close>
    by (simp add: payload_text_def sample_reading_def int_display_def u32_max_def dec_digits.simps; code_simp)
  finally show ?thesis .
qed

text \<open>
  Which manifests reach the OTA task. An event hands over bytes exactly when it is a publish on
  the device's command topic with a payload of 1 to 1024 bytes, and, for a retained one that
  arrives while an image awaits confirmation, when it verifies and asks for it by \<open>force\<close>; then
  exactly those bytes are handed over.
\<close>

theorem manifest_forwarding:
  "snd (handle_mqtt_event pv event topic st) = fwd \<and> fwd \<noteq> [] \<longleftrightarrow>
     (\<exists>p. event = EventPublish p \<and> ip_topic p = topic \<and> fwd = [ip_message p] \<and>
        1 \<le> length (ip_message p) \<and> length (ip_message p) \<le> 1024 \<and>
        (st = PendingConfirmation \<and> ip_retain p \<longrightarrow> (\<exists>m. pv (ip_message p) = Inr m \<and> om_force m)))"
proof (cases "\<exists>p mf. event = EventPublish p \<and> copy_ota_manifest p topic = Some mf")
  case True
  then obtain p mf where p: "event = EventPublish p" "copy_ota_manifest p topic = Some mf" by blast
  note mf = p(2) [unfolded copy_ota_manifest_Some]
  show ?thesis
    using resolve_clears_iff [of pv st "ip_retain p" "ip_message p"] p mf
    by (cases "resolve_ota_manifest_action pv st (ip_retain p) (ip_message p)")
       (auto simp: handle_mqtt_event_def Let_def const_defs Suc_le_eq)
next
  case False
  then have "handle_mqtt_event pv event topic st = (EventContinue, [])"
    by (auto simp: handle_mqtt_event_def Let_def split: MqttEvent.splits option.splits)
  with False show ?thesis by (auto simp: copy_ota_manifest_Some const_defs Suc_le_eq)
qed

theorem manifest_forwarding_witness:
  "snd (handle_mqtt_event (\<lambda>_. Inl Oversized)
     (EventPublish \<lparr>ip_topic = ''ota'', ip_message = [123], ip_retain = True\<rparr>) ''ota'' Downloading) = [[123]]"
  using manifest_forwarding [of "\<lambda>_. Inl Oversized"
      "EventPublish \<lparr>ip_topic = ''ota'', ip_message = [123], ip_retain = True\<rparr>" "''ota''" Downloading "[[123]]"]
  by simp

end
