(* ===== verification/Display_Driver.thy ===== *)
theory Display_Driver
  imports Karu_Menu Mqtt
begin

text \<open>
  The display abstraction of \<open>firmware/src/display_driver.rs\<close>: each screen as the texts and
  rectangles drawn for it. The graphics and panel libraries are a parameter, the record \<open>panel\<close>;
  what the development uses of them is \<open>panel_law\<close>.
\<close>

section \<open>The panel\<close>

datatype Font = PROFONT_10_POINT | PROFONT_14_POINT | PROFONT_24_POINT

datatype Alignment = AlignLeft | AlignCenter | AlignRight

datatype DrawOp =
    Text string "32 word" "32 word" Font Alignment
  | FilledRectangle "32 word" "32 word" u32 u32

datatype DisplayError = DisplayI2c | DisplayInitFailed | DrawFailed

record 'p panel =
  pn_init :: "'p \<Rightarrow> (unit + unit) \<times> 'p"
  pn_clear :: "'p \<Rightarrow> 'p"
  pn_draw :: "DrawOp \<Rightarrow> 'p \<Rightarrow> (unit + unit) \<times> 'p"
  pn_flush :: "'p \<Rightarrow> (unit + unit) \<times> 'p"

definition map_err :: "'e \<Rightarrow> (unit + unit) \<times> 'p \<Rightarrow> ('e + unit) \<times> 'p" where
  "map_err e r = (result_map_err (\<lambda>_. e) (fst r), snd r)"

section \<open>Operations\<close>

definition display_new :: "'p panel \<Rightarrow> 'p \<Rightarrow> (DisplayError + unit) \<times> 'p" where
  "display_new pn p =
     st_bind (map_err DisplayInitFailed (pn_init pn p)) (\<lambda>_ p.
       let p = pn_clear pn p in map_err DisplayI2c (pn_flush pn p))"

definition display_clear :: "'p panel \<Rightarrow> 'p \<Rightarrow> (DisplayError + unit) \<times> 'p" where
  "display_clear pn p = (Inr (), pn_clear pn p)"

definition display_flush :: "'p panel \<Rightarrow> 'p \<Rightarrow> (DisplayError + unit) \<times> 'p" where
  "display_flush pn p = map_err DisplayI2c (pn_flush pn p)"

text \<open>Drawing one after the other, up to the first failure.\<close>

fun draw_all :: "'p panel \<Rightarrow> DrawOp list \<Rightarrow> 'p \<Rightarrow> (DisplayError + unit) \<times> 'p" where
  "draw_all pn [] p = (Inr (), p)"
| "draw_all pn (d # ds) p = st_bind (map_err DrawFailed (pn_draw pn d p)) (\<lambda>_ p. draw_all pn ds p)"

definition draw_screen :: "'p panel \<Rightarrow> DrawOp list \<Rightarrow> 'p \<Rightarrow> (DisplayError + unit) \<times> 'p" where
  "draw_screen pn ds p =
     st_bind (display_clear pn p) (\<lambda>_ p. st_bind (draw_all pn ds p) (\<lambda>_ p. display_flush pn p))"

text \<open>
  \<open>write!\<close> into a \<open>heapless::String\<close> with its result ignored: the pieces are appended up to the
  first that does not fit.
\<close>

fun write_pieces :: "nat \<Rightarrow> string list \<Rightarrow> string \<Rightarrow> string" where
  "write_pieces n [] out = out"
| "write_pieces n (piece # ps) out =
     (if length out + length piece \<le> n then write_pieces n ps (out @ piece) else out)"

definition temperature_ops :: "f32 \<Rightarrow> u8 \<Rightarrow> u8 \<Rightarrow> bool \<Rightarrow> string option \<Rightarrow> DrawOp list" where
  "temperature_ops temperature_c sensor_id channel battery_ok timestamp =
     (let temp_str = write_pieces 16 [f32_display_1 temperature_c, ''C''] '''';
          info_str = write_pieces 32 [''S'', dec_digits (unat sensor_id), '' Ch'', dec_digits (unat channel)] '''';
          battery_str = (if battery_ok then ''BAT OK'' else ''BAT LOW!'')
      in [Text temp_str 64 32 PROFONT_24_POINT AlignCenter, Text info_str 4 10 PROFONT_10_POINT AlignLeft]
         @ (case timestamp of None \<Rightarrow> [] | Some ts \<Rightarrow> [Text ts 124 10 PROFONT_10_POINT AlignRight])
         @ [Text battery_str 64 58 PROFONT_10_POINT AlignCenter])"

definition show_temperature ::
  "'p panel \<Rightarrow> f32 \<Rightarrow> u8 \<Rightarrow> u8 \<Rightarrow> bool \<Rightarrow> string option \<Rightarrow> 'p \<Rightarrow> (DisplayError + unit) \<times> 'p" where
  "show_temperature pn temperature_c sensor_id channel battery_ok timestamp =
     draw_screen pn (temperature_ops temperature_c sensor_id channel battery_ok timestamp)"

definition status_ops :: "string \<Rightarrow> DrawOp list" where
  "status_ops message = [Text message 64 32 PROFONT_14_POINT AlignCenter]"

definition show_status :: "'p panel \<Rightarrow> string \<Rightarrow> 'p \<Rightarrow> (DisplayError + unit) \<times> 'p" where
  "show_status pn message = draw_screen pn (status_ops message)"

definition radio_info_ops :: "int option \<Rightarrow> u8 \<Rightarrow> DrawOp list" where
  "radio_info_ops rssi detection_threshold =
     [Text ''RADIO STATUS'' 64 12 PROFONT_14_POINT AlignCenter]
     @ (case rssi of
          Some rssi_val \<Rightarrow>
            let quality = from_rssi rssi_val;
                rssi_str = write_pieces 20 [''RSSI: '', int_display rssi_val, ''dBm''] '''';
                quality_str = write_pieces 24 [''Quality: '', signal_quality_as_str quality] ''''
            in [Text rssi_str 64 30 PROFONT_10_POINT AlignCenter, Text quality_str 64 44 PROFONT_10_POINT AlignCenter]
        | None \<Rightarrow> [Text ''No signal yet'' 64 37 PROFONT_10_POINT AlignCenter])
     @ (let menu_x = 64 - 7; menu_top_y = 52; line_spacing = 4
        in [FilledRectangle menu_x menu_top_y 14 2,
            FilledRectangle menu_x (menu_top_y + line_spacing) 14 2,
            FilledRectangle menu_x (menu_top_y + line_spacing * 2) 14 2])"

definition show_radio_info :: "'p panel \<Rightarrow> int option \<Rightarrow> u8 \<Rightarrow> 'p \<Rightarrow> (DisplayError + unit) \<times> 'p" where
  "show_radio_info pn rssi detection_threshold = draw_screen pn (radio_info_ops rssi detection_threshold)"

definition header_op :: "string \<Rightarrow> DrawOp" where
  "header_op title = Text title 64 12 PROFONT_14_POINT AlignCenter"

definition draw_header :: "'p panel \<Rightarrow> string \<Rightarrow> 'p \<Rightarrow> (DisplayError + unit) \<times> 'p" where
  "draw_header pn title = draw_all pn [header_op title]"

text \<open>The width in pixels of a text of \<open>n\<close> bytes, six to a byte, saturating at \<open>i32::MAX\<close>.\<close>

definition text_width :: "nat \<Rightarrow> u32" where
  "text_width n =
     (let chars = (if n \<le> 2147483647 then n else 2147483647 div 6) in of_nat (min (chars * 6) 2147483647))"

definition menu_item_ops :: "RenderItem \<Rightarrow> DrawOp list" where
  "menu_item_ops i =
     [Text (ri_label i) 8 (ri_y i) PROFONT_10_POINT AlignLeft]
     @ (if ri_selected i \<and> \<not> ri_editing i
        then [FilledRectangle 8 (ri_y i + 2) (text_width (length (ri_label i))) 1] else [])
     @ (if ri_value i \<noteq> [] then
          Text (ri_value i) 120 (ri_y i) PROFONT_10_POINT AlignRight
          # (if ri_editing i
             then let value_width = text_width (length (ri_value i))
                  in [FilledRectangle (120 - value_width) (ri_y i + 2) value_width 1]
             else [])
        else [])"

definition draw_menu_item :: "'p panel \<Rightarrow> RenderItem \<Rightarrow> 'p \<Rightarrow> (DisplayError + unit) \<times> 'p" where
  "draw_menu_item pn i = draw_all pn (menu_item_ops i)"

definition scroll_indicator_op :: "ScrollIndicator \<Rightarrow> DrawOp" where
  "scroll_indicator_op indicator =
     Text (case indicator of UpArrow \<Rightarrow> ''^'' | DownArrow \<Rightarrow> ''v'') 124 60 PROFONT_10_POINT AlignRight"

definition draw_scroll_indicator :: "'p panel \<Rightarrow> ScrollIndicator \<Rightarrow> 'p \<Rightarrow> (DisplayError + unit) \<times> 'p" where
  "draw_scroll_indicator pn indicator = draw_all pn [scroll_indicator_op indicator]"

section \<open>What a successful operation shows\<close>

text \<open>
  What is used of the libraries: an observation of the canvas (what was drawn since it was cleared)
  and of the screen; clearing and drawing act on the canvas only, and flushing copies the canvas to
  the screen. A failing operation may leave anything behind.
\<close>

definition panel_law :: "'p panel \<Rightarrow> ('p \<Rightarrow> DrawOp list) \<Rightarrow> ('p \<Rightarrow> DrawOp list) \<Rightarrow> bool" where
  "panel_law pn canvas shown \<longleftrightarrow>
     (\<forall>p. canvas (pn_clear pn p) = [] \<and> shown (pn_clear pn p) = shown p) \<and>
     (\<forall>d p u p'. pn_draw pn d p = (Inr u, p') \<longrightarrow> canvas p' = canvas p @ [d] \<and> shown p' = shown p) \<and>
     (\<forall>p u p'. pn_flush pn p = (Inr u, p') \<longrightarrow> canvas p' = canvas p \<and> shown p' = canvas p)"

lemma map_err_Inr: "map_err e r = (Inr u, p') \<longleftrightarrow> r = (Inr u, p')"
  by (cases r; cases "fst r") (auto simp: map_err_def)

lemma draw_all_canvas:
  "panel_law pn canvas shown \<Longrightarrow> draw_all pn ds p = (Inr u, p') \<Longrightarrow>
    canvas p' = canvas p @ ds \<and> shown p' = shown p"
proof (induction ds arbitrary: p)
  case (Cons d ds)
  from Cons.prems(2) obtain v q where q: "pn_draw pn d p = (Inr v, q)" "draw_all pn ds q = (Inr u, p')"
    by (auto elim!: st_bind_InrE simp: map_err_Inr)
  from q(1) Cons.prems(1) have "canvas q = canvas p @ [d] \<and> shown q = shown p" by (auto simp: panel_law_def)
  with Cons.IH [OF Cons.prems(1) q(2)] show ?case by simp
qed auto

lemma draw_all_append:
  "draw_all pn (ds @ es) p = st_bind (draw_all pn ds p) (\<lambda>_ p. draw_all pn es p)"
proof (induction ds arbitrary: p)
  case (Cons d ds)
  obtain m q where "map_err DrawFailed (pn_draw pn d p) = (m, q)" by fastforce
  then show ?case using Cons by (cases m) simp_all
qed simp

lemma draw_screen_shown:
  assumes law: "panel_law pn canvas shown" and ok: "draw_screen pn ds p = (Inr u, p')"
  shows "shown p' = ds"
proof -
  from ok obtain v q where q: "draw_all pn ds (pn_clear pn p) = (Inr v, q)" "pn_flush pn q = (Inr u, p')"
    by (auto simp: draw_screen_def display_clear_def display_flush_def map_err_Inr elim!: st_bind_InrE)
  from draw_all_canvas [OF law q(1)] law q(2) show ?thesis by (auto simp: panel_law_def)
qed

lemma write_pieces_fits: "length (out @ concat ps) \<le> n \<Longrightarrow> write_pieces n ps out = out @ concat ps"
  by (induction ps arbitrary: out) auto

lemma write_pieces_bounded: "length out \<le> n \<Longrightarrow> length (write_pieces n ps out) \<le> n"
  by (induction ps arbitrary: out) auto

end
