(* ===== verification/Time_Sync.thy ===== *)
theory Time_Sync
  imports Strings Eu_Dst Prelude
begin

text \<open>
  Network time: the parser of the configured server list
  (\<open>crates/app-core/src/ntp_servers.rs\<close>) and the time reference and its synchronisation
  (\<open>firmware/src/time_sync.rs\<close>). An \<open>Instant\<close> is the number of microseconds since start. The NTP
  client library, the UDP socket and the network stack are inputs: the answer of each server asked.
\<close>

section \<open>The server list\<close>

type_synonym Ipv4Addr = "nat \<times> nat \<times> nat \<times> nat"

definition MAX_NTP_SERVERS :: nat where [const_defs]: "MAX_NTP_SERVERS = 4"

record NtpServerList =
  nl_servers :: "Ipv4Addr list"
  nl_len :: nat

definition ntp_as_slice :: "NtpServerList \<Rightarrow> Ipv4Addr list" where
  "ntp_as_slice l = take (nl_len l) (nl_servers l)"

text \<open>
  \<open>str::trim\<close>: the UTF-8 encodings of the characters with the Unicode property \<open>White_Space\<close>.
\<close>

definition white_space :: "string list" where
  "white_space =
     map (\<lambda>n. [char_of n]) [9, 10, 11, 12, 13, 32 :: nat] @
     map (map char_of) [[194, 133], [194, 160], [225, 154, 128], [226, 128, 168], [226, 128, 169],
       [226, 128, 175], [226, 129, 159], [227, 128, 128 :: nat]] @
     map (\<lambda>n. map char_of [226, 128, n]) [128 ..< 139]"

definition starts_white :: "string list \<Rightarrow> string \<Rightarrow> nat option" where
  "starts_white ws s = map_option length (List.find (\<lambda>w. w \<noteq> [] \<and> take (length w) s = w) ws)"

lemma starts_white_bounds: "starts_white ws s = Some n \<Longrightarrow> 0 < n \<and> n \<le> length s"
  by (auto simp: starts_white_def find_Some_iff) (metis length_take min_def nat_le_linear)

function trim_start_of :: "string list \<Rightarrow> string \<Rightarrow> string" where
  "trim_start_of ws s = (case starts_white ws s of None \<Rightarrow> s | Some n \<Rightarrow> trim_start_of ws (drop n s))"
  by pat_completeness auto
termination
  by (relation "measure (\<lambda>(ws, s). length s)") (auto dest: starts_white_bounds)

declare trim_start_of.simps [simp del]

definition str_trim :: "string \<Rightarrow> string" where
  "str_trim s = rev (trim_start_of (map rev white_space) (rev (trim_start_of white_space s)))"

text \<open>\<open>str::parse::<Ipv4Addr>\<close>: four octets without leading zeros, separated by full stops.\<close>

definition parse_octet :: "string \<Rightarrow> nat option" where
  "parse_octet s =
     (if s = [] \<or> 3 < length s \<or> \<not> list_all is_ascii_digit s \<or> (1 < length s \<and> hd s = CHR ''0'')
         \<or> 255 < decimal_value s
      then None else Some (decimal_value s))"

definition parse_ipv4 :: "string \<Rightarrow> Ipv4Addr option" where
  "parse_ipv4 s =
     (case map parse_octet (split_on CHR ''.'' s) of
        [Some a, Some b, Some c, Some d] \<Rightarrow> Some (a, b, c, d) | _ \<Rightarrow> None)"

text \<open>The loop over the candidates; the array has \<open>MAX_NTP_SERVERS\<close> places.\<close>

fun candidate_loop :: "string list \<Rightarrow> NtpServerList \<Rightarrow> NtpServerList" where
  "candidate_loop [] l = l"
| "candidate_loop (candidate # cs) l =
     (if nl_len l = MAX_NTP_SERVERS then l
      else let trimmed = str_trim candidate
           in case parse_ipv4 trimmed of
                Some addr \<Rightarrow>
                  (if addr \<notin> set (ntp_as_slice l)
                   then candidate_loop cs (l\<lparr>nl_servers := (nl_servers l)[nl_len l := addr], nl_len := nl_len l + 1\<rparr>)
                   else candidate_loop cs l)
              | None \<Rightarrow> candidate_loop cs l)"

fun fallback_loop :: "Ipv4Addr list \<Rightarrow> NtpServerList \<Rightarrow> NtpServerList" where
  "fallback_loop [] l = l"
| "fallback_loop (addr # as) l =
     (if nl_len l = MAX_NTP_SERVERS \<or> addr \<in> set (ntp_as_slice l) then fallback_loop as l
      else fallback_loop as (l\<lparr>nl_servers := (nl_servers l)[nl_len l := addr], nl_len := nl_len l + 1\<rparr>))"

definition parse_ntp_server_list :: "string \<Rightarrow> Ipv4Addr list \<Rightarrow> NtpServerList" where
  "parse_ntp_server_list raw fallback =
     (let l = candidate_loop (split_on CHR '','' raw)
                \<lparr>nl_servers = replicate MAX_NTP_SERVERS (0, 0, 0, 0), nl_len = 0\<rparr>
      in if nl_len l = 0 then fallback_loop fallback l else l)"

section \<open>The time reference\<close>

definition NTP_PORT :: nat where [const_defs]: "NTP_PORT = 123"
definition RESYNC_INTERVAL_SECS :: nat where [const_defs]: "RESYNC_INTERVAL_SECS = 3600"
definition TIMEZONE :: Timezone where "TIMEZONE = EET"

definition DEFAULT_NTP_SERVER_IPV4 :: "Ipv4Addr list" where
  "DEFAULT_NTP_SERVER_IPV4 = [(216, 239, 35, 0), (216, 239, 35, 4), (216, 239, 35, 8), (216, 239, 35, 12)]"

record TimeReference =
  tm_unix_secs :: nat
  tm_captured_at :: nat

definition as_secs :: "nat \<Rightarrow> nat" where
  "as_secs micros = micros div 1000000"

text \<open>\<open>None\<close> is the panic of \<open>elapsed\<close> when the clock reads less than the captured instant.\<close>

definition now_unix_secs :: "nat \<Rightarrow> TimeReference \<Rightarrow> nat option" where
  "now_unix_secs now tr =
     (if now < tm_captured_at tr then None else Some (tm_unix_secs tr + as_secs (now - tm_captured_at tr)))"

definition pad2 :: "nat \<Rightarrow> string" where
  "pad2 n = (if n < 10 then ''0'' @ dec_digits n else dec_digits n)"

definition hms_text :: "nat \<Rightarrow> string" where
  "hms_text secs =
     (case to_local_hms TIMEZONE secs of (hours, minutes, seconds) \<Rightarrow>
        pad2 hours @ '':'' @ pad2 minutes @ '':'' @ pad2 seconds)"

definition format_time :: "nat \<Rightarrow> TimeReference \<Rightarrow> string option" where
  "format_time now tr = map_option hms_text (now_unix_secs now tr)"

definition as_unix_secs :: "nat \<Rightarrow> TimeReference \<Rightarrow> nat" where
  "as_unix_secs ins tr =
     (if tm_captured_at tr \<le> ins then sat_add_u64 (tm_unix_secs tr) (as_secs (ins - tm_captured_at tr))
      else tm_unix_secs tr - as_secs (tm_captured_at tr - ins))"

section \<open>The timestamp source of the NTP client\<close>

record EmbassyTimestampGen =
  start_secs :: nat
  start_micros :: u32

definition timestamp_gen_init :: "nat \<Rightarrow> EmbassyTimestampGen" where
  "timestamp_gen_init now = \<lparr>start_secs = as_secs now, start_micros = of_nat (now mod 1000000)\<rparr>"

definition timestamp_sec :: "nat \<Rightarrow> EmbassyTimestampGen \<Rightarrow> nat" where
  "timestamp_sec now g = as_secs now - start_secs g"

definition timestamp_subsec_micros :: "nat \<Rightarrow> EmbassyTimestampGen \<Rightarrow> u32" where
  "timestamp_subsec_micros now g = of_nat (now mod 1000000) - start_micros g"

section \<open>Synchronisation\<close>

text \<open>
  One attempt: whether the socket could be bound, and for each server the answer of the client
  (its seconds and the instant it arrived) or \<open>None\<close> for an error.
\<close>

fun ask_servers :: "(Ipv4Addr \<Rightarrow> (u32 \<times> nat) option) \<Rightarrow> Ipv4Addr list \<Rightarrow> TimeReference option" where
  "ask_servers get_time [] = None"
| "ask_servers get_time (server_ip # ss) =
     (case get_time server_ip of
        Some (seconds, captured_at) \<Rightarrow> Some \<lparr>tm_unix_secs = unat seconds, tm_captured_at = captured_at\<rparr>
      | None \<Rightarrow> ask_servers get_time ss)"

definition sync_time_once ::
  "string \<Rightarrow> bool \<Rightarrow> (Ipv4Addr \<Rightarrow> (u32 \<times> nat) option) \<Rightarrow> TimeReference option" where
  "sync_time_once ntp_server_ipv4_list bind_ok get_time =
     (if \<not> bind_ok then None
      else ask_servers get_time (ntp_as_slice (parse_ntp_server_list ntp_server_ipv4_list DEFAULT_NTP_SERVER_IPV4)))"

text \<open>
  The loop, over the results of its attempts in turn: the value of the watch and the wait, in
  seconds, after each attempt.
\<close>

fun time_sync_initial :: "TimeReference option list \<Rightarrow> TimeReference option \<times> nat list \<times> TimeReference option list" where
  "time_sync_initial [] = (None, [], [])"
| "time_sync_initial (Some time_ref # as) = (Some time_ref, [], as)"
| "time_sync_initial (None # as) = (case time_sync_initial as of (w, waits, rest) \<Rightarrow> (w, 10 # waits, rest))"

fun time_sync_periodic :: "TimeReference option list \<Rightarrow> TimeReference option \<Rightarrow> TimeReference option \<times> nat list" where
  "time_sync_periodic [] w = (w, [])"
| "time_sync_periodic (a # as) w =
     (case time_sync_periodic as (case a of Some time_ref \<Rightarrow> Some time_ref | None \<Rightarrow> w) of (w, waits) \<Rightarrow>
        (w, RESYNC_INTERVAL_SECS # waits))"

definition time_sync_loop :: "TimeReference option list \<Rightarrow> TimeReference option \<times> nat list" where
  "time_sync_loop attempts =
     (case time_sync_initial attempts of (w, waits, rest) \<Rightarrow>
        case time_sync_periodic rest w of (w, waits') \<Rightarrow> (w, waits @ waits'))"

section \<open>The server list is the first distinct addresses\<close>

definition distinct_firsts :: "'a list \<Rightarrow> 'a list" where
  "distinct_firsts xs = rev (remdups (rev xs))"

lemma distinct_firsts_Nil [simp]: "distinct_firsts [] = []"
  by (simp add: distinct_firsts_def)

lemma distinct_firsts_snoc:
  "distinct_firsts (xs @ [x]) = (if x \<in> set xs then distinct_firsts xs else distinct_firsts xs @ [x])"
  by (simp add: distinct_firsts_def)

lemma set_distinct_firsts [simp]: "set (distinct_firsts xs) = set xs"
  by (simp add: distinct_firsts_def)

lemma distinct_distinct_firsts [simp]: "distinct (distinct_firsts xs)"
  by (simp add: distinct_firsts_def)

lemma distinct_firsts_append_prefix: "\<exists>zs. distinct_firsts (xs @ ys) = distinct_firsts xs @ zs"
proof (induction ys rule: rev_induct)
  case (snoc y ys)
  then show ?case by (simp only: append_assoc [symmetric] distinct_firsts_snoc) auto
qed simp

lemma distinct_firsts_eq_Nil [simp]: "distinct_firsts xs = [] \<longleftrightarrow> xs = []"
  by (simp add: distinct_firsts_def)

lemma length_distinct_firsts_0 [simp]: "min (length (distinct_firsts xs)) 4 = 0 \<longleftrightarrow> xs = []"
  by (auto simp: min_def)

text \<open>The invariant of the two loops: the list holds the first distinct addresses seen so far.\<close>

definition list_holds :: "Ipv4Addr list \<Rightarrow> NtpServerList \<Rightarrow> bool" where
  "list_holds seen l \<longleftrightarrow> length (nl_servers l) = 4 \<and> nl_len l \<le> 4 \<and> ntp_as_slice l = take 4 (distinct_firsts seen)"

lemma list_holds_len: "list_holds seen l \<Longrightarrow> length (ntp_as_slice l) = nl_len l"
  by (subst ntp_as_slice_def) (simp add: list_holds_def)

lemma list_holds_full:
  assumes "list_holds seen l" "nl_len l = 4"
  shows "list_holds (seen @ later) l"
proof -
  obtain zs where "distinct_firsts (seen @ later) = distinct_firsts seen @ zs"
    using distinct_firsts_append_prefix by blast
  moreover have "length (take 4 (distinct_firsts seen)) = 4"
    using list_holds_len [OF assms(1)] assms by (simp add: list_holds_def)
  ultimately show ?thesis using assms(1) by (simp add: list_holds_def)
qed

lemma list_holds_add:
  assumes "list_holds seen l" "nl_len l \<noteq> 4" "addr \<notin> set (ntp_as_slice l)"
  shows "list_holds (seen @ [addr]) (l\<lparr>nl_servers := (nl_servers l)[nl_len l := addr], nl_len := nl_len l + 1\<rparr>)"
proof -
  have len: "length (nl_servers l) = 4" "nl_len l < 4" using assms by (auto simp: list_holds_def)
  have "length (ntp_as_slice l) = nl_len l" using len by (simp add: ntp_as_slice_def)
  with assms(1) len have short: "distinct_firsts seen = ntp_as_slice l"
    by (auto simp: list_holds_def)
  have "take (Suc (nl_len l)) ((nl_servers l)[nl_len l := addr]) = ntp_as_slice l @ [addr]"
    using len by (simp add: ntp_as_slice_def take_Suc_conv_app_nth)
  moreover have "addr \<notin> set seen" using assms(3) short by (metis set_distinct_firsts)
  moreover have "length (ntp_as_slice l @ [addr]) \<le> 4" using len by (simp add: ntp_as_slice_def)
  ultimately show ?thesis using len
    by (simp add: list_holds_def distinct_firsts_snoc short ntp_as_slice_def [of "l\<lparr>nl_servers := _, nl_len := _\<rparr>"])
qed

lemma list_holds_skip:
  assumes "list_holds seen l" "addr \<in> set (ntp_as_slice l)"
  shows "list_holds (seen @ [addr]) l"
proof -
  have "addr \<in> set (distinct_firsts seen)" using assms by (metis list_holds_def in_set_takeD)
  then show ?thesis using assms(1) by (simp add: list_holds_def distinct_firsts_snoc)
qed

definition candidates :: "string \<Rightarrow> Ipv4Addr list" where
  "candidates raw = List.map_filter (\<lambda>c. parse_ipv4 (str_trim c)) (split_on CHR '','' raw)"

lemma candidate_loop_holds:
  "list_holds seen l \<Longrightarrow> list_holds (seen @ List.map_filter (\<lambda>c. parse_ipv4 (str_trim c)) cs) (candidate_loop cs l)"
proof (induction cs l arbitrary: seen rule: candidate_loop.induct)
  case (2 candidate cs l)
  show ?case
  proof (cases "nl_len l = 4")
    case True
    with 2(4) list_holds_full show ?thesis by (simp add: MAX_NTP_SERVERS_def)
  next
    case False
    note IH = 2(1-3) [OF False [folded MAX_NTP_SERVERS_def] refl]
    show ?thesis
    proof (cases "parse_ipv4 (str_trim candidate)")
      case None
      with False IH(1) [OF None 2(4)] show ?thesis by (simp add: map_filter_simps MAX_NTP_SERVERS_def)
    next
      case (Some addr)
      show ?thesis
      proof (cases "addr \<in> set (ntp_as_slice l)")
        case True
        have "list_holds ((seen @ [addr]) @ List.map_filter (\<lambda>c. parse_ipv4 (str_trim c)) cs) (candidate_loop cs l)"
          by (rule IH(3) [OF Some]) (use True list_holds_skip [OF 2(4)] in auto)
        with Some True False show ?thesis by (simp add: map_filter_simps MAX_NTP_SERVERS_def)
      next
        case new: False
        have "list_holds ((seen @ [addr]) @ List.map_filter (\<lambda>c. parse_ipv4 (str_trim c)) cs)
            (candidate_loop cs (l\<lparr>nl_servers := (nl_servers l)[nl_len l := addr], nl_len := nl_len l + 1\<rparr>))"
          by (rule IH(2) [OF Some new]) (rule list_holds_add [OF 2(4) False new])
        with Some new False show ?thesis by (simp add: map_filter_simps MAX_NTP_SERVERS_def)
      qed
    qed
  qed
qed (simp add: map_filter_simps)

lemma fallback_loop_holds: "list_holds seen l \<Longrightarrow> list_holds (seen @ as) (fallback_loop as l)"
proof (induction as l arbitrary: seen rule: fallback_loop.induct)
  case (2 addr as l)
  consider "nl_len l = 4" | "nl_len l \<noteq> 4" "addr \<in> set (ntp_as_slice l)" | "nl_len l \<noteq> 4" "addr \<notin> set (ntp_as_slice l)"
    by blast
  then have "list_holds ((seen @ [addr]) @ as) (fallback_loop (addr # as) l)"
  proof cases
    case 1
    show ?thesis using 2(1) [OF _ list_holds_full [OF 2(3) 1, of "[addr]"]] 1 by (simp add: MAX_NTP_SERVERS_def)
  next
    case 2
    show ?thesis using "2.IH"(1) [OF _ list_holds_skip [OF "2.prems" 2(2)]] 2 by (simp add: MAX_NTP_SERVERS_def)
  next
    case 3
    show ?thesis using 2(2) [OF _ list_holds_add [OF 2(3) 3]] 3 by (simp add: MAX_NTP_SERVERS_def)
  qed
  then show ?case by simp
qed simp

lemma ntp_server_list_exact_aux:
  "ntp_as_slice (parse_ntp_server_list raw fallback) =
     take 4 (distinct_firsts (if candidates raw = [] then fallback else candidates raw))"
proof -
  let ?l = "candidate_loop (split_on CHR '','' raw) \<lparr>nl_servers = replicate MAX_NTP_SERVERS (0, 0, 0, 0), nl_len = 0\<rparr>"
  have h: "list_holds (candidates raw) ?l"
    using candidate_loop_holds [of "[]" "\<lparr>nl_servers = replicate MAX_NTP_SERVERS (0, 0, 0, 0), nl_len = 0\<rparr>"]
    by (simp add: candidates_def list_holds_def ntp_as_slice_def MAX_NTP_SERVERS_def)
  then have len: "nl_len ?l = length (take 4 (distinct_firsts (candidates raw)))"
    using list_holds_len by (simp add: list_holds_def)
  show ?thesis
  proof (cases "candidates raw = []")
    case True
    with h len fallback_loop_holds [of "[]" ?l fallback] show ?thesis
      by (simp add: parse_ntp_server_list_def list_holds_def Let_def)
  next
    case False
    with h len show ?thesis by (simp add: parse_ntp_server_list_def list_holds_def Let_def)
  qed
qed

lemma ntp_server_list_usable:
  "length (ntp_as_slice (parse_ntp_server_list raw DEFAULT_NTP_SERVER_IPV4)) \<le> 4 \<and>
   distinct (ntp_as_slice (parse_ntp_server_list raw DEFAULT_NTP_SERVER_IPV4)) \<and>
   ntp_as_slice (parse_ntp_server_list raw DEFAULT_NTP_SERVER_IPV4) \<noteq> []"
  by (simp add: ntp_server_list_exact_aux DEFAULT_NTP_SERVER_IPV4_def)

text \<open>
  The servers asked. The server list is the first four distinct addresses among the entries of
  the configured list that parse, in their order; when none parses, it is the first four distinct
  fallback addresses.
\<close>
theorem ntp_server_list_exact:
  "ntp_as_slice (parse_ntp_server_list raw fallback) =
     take 4 (distinct_firsts (if candidates raw = [] then fallback else candidates raw))"
  by (rule ntp_server_list_exact_aux)

section \<open>Addresses are read back\<close>

definition print_ipv4 :: "Ipv4Addr \<Rightarrow> string" where
  "print_ipv4 a = (case a of (w, x, y, z) \<Rightarrow> join_with CHR ''.'' (map dec_digits [w, x, y, z]))"

lemma dec_digits_no_leading_zero: "0 < n \<Longrightarrow> dec_digits n \<noteq> [] \<and> hd (dec_digits n) \<noteq> CHR ''0''"
proof (induction n rule: dec_digits.induct)
  case (1 n)
  have zero: "char_of (48 + k) \<noteq> CHR ''0''" if "0 < k" "k < 10" for k :: nat
  proof
    assume "char_of (48 + k) = CHR ''0''"
    then have "(of_char (char_of (48 + k) :: char) :: nat) = of_char CHR ''0''" by simp
    with that show False by (simp add: of_char_of)
  qed
  show ?case
  proof (cases "n < 10")
    case True
    with zero 1(2) show ?thesis by (subst (1 2) dec_digits.simps) simp
  next
    case False
    with 1 show ?thesis by (subst (1 2) dec_digits.simps) (simp add: hd_append)
  qed
qed

lemma dec_digits_length: "n < 1000 \<Longrightarrow> length (dec_digits n) \<le> 3"
proof -
  assume n: "n < 1000"
  have "length (dec_digits m) = 1" if "m < 10" for m using that by (subst dec_digits.simps) simp
  moreover from this have "length (dec_digits m) \<le> 2" if "m < 100" for m
    using that by (subst dec_digits.simps) simp
  ultimately show ?thesis using n by (subst dec_digits.simps) simp
qed

lemma parse_octet_print:
  assumes "n \<le> 255"
  shows "parse_octet (dec_digits n) = Some n"
proof (cases "n = 0")
  case True
  have "dec_digits 0 = ''0''" by (subst dec_digits.simps) code_simp
  with True decimal_value_dec_digits [of 0] dec_digits_all [of 0] show ?thesis by (simp add: parse_octet_def)
next
  case False
  with assms dec_digits_no_leading_zero [of n] dec_digits_length [of n] dec_digits_all [of n] show ?thesis
    by (simp add: parse_octet_def)
qed

lemma parse_ipv4_print:
  assumes "w \<le> 255" "x \<le> 255" "y \<le> 255" "z \<le> 255"
  shows "parse_ipv4 (print_ipv4 (w, x, y, z)) = Some (w, x, y, z)"
proof -
  have "CHR ''.'' \<notin> set (dec_digits n)" for n
    using dec_digits_all [of n] by (auto simp: list_all_iff is_ascii_digit_def char_code_def)
  then have "split_on CHR ''.'' (join_with CHR ''.'' (map dec_digits [w, x, y, z])) = map dec_digits [w, x, y, z]"
    by (intro split_on_join) simp_all
  with assms show ?thesis by (simp add: parse_ipv4_def print_ipv4_def parse_octet_print del: join_with.simps)
qed

section \<open>The time reference\<close>

text \<open>
  The two readings of a time reference agree: the current time is the time stamp of the current
  instant, as long as the sum fits.
\<close>

lemma now_is_timestamp_of_now:
  assumes "tm_captured_at tr \<le> now" "tm_unix_secs tr + as_secs (now - tm_captured_at tr) \<le> u64_max"
  shows "now_unix_secs now tr = Some (as_unix_secs now tr)"
  using assms by (simp add: now_unix_secs_def as_unix_secs_def sat_add_u64_def)

text \<open>Time stamps follow the clock: later instants have later or equal time stamps.\<close>

lemma as_unix_secs_mono:
  assumes "i \<le> j" "tm_unix_secs tr \<le> u64_max"
  shows "as_unix_secs i tr \<le> as_unix_secs j tr"
proof -
  have "as_secs (i - c) \<le> as_secs (j - c)" "as_secs (c - j) \<le> as_secs (c - i)" for c
    using assms(1) by (simp_all add: as_secs_def div_le_mono)
  from this [of "tm_captured_at tr"] assms show ?thesis
    unfolding as_unix_secs_def sat_add_u64_def by (auto intro: le_trans diff_le_mono2)
qed

lemma to_local_hms_day:
  "\<exists>t. 0 \<le> t \<and> t < 86400 \<and>
    to_local_hms tz secs = (nat (t div 3600), nat (t mod 3600 div 60), nat (t mod 60))"
  unfolding to_local_hms_def Let_def
  by (rule exI [of _ "clamp_ord i64_min i64_max
        ((if int secs \<le> i64_max then int secs else i64_max) + offset_secs tz secs) mod 86400"])
    (simp only: pos_mod_bound pos_mod_sign zero_less_numeral simp_thms)

lemma format_time_length:
  assumes "format_time now tr = Some s"
  shows "length s \<le> 16"
proof -
  obtain secs where s: "s = (case to_local_hms TIMEZONE secs of (h, m, x) \<Rightarrow> pad2 h @ '':'' @ pad2 m @ '':'' @ pad2 x)"
    using assms by (auto simp: format_time_def hms_text_def)
  have two: "length (pad2 n) \<le> 4" if "n < 1000" for n
    using dec_digits_length [OF that] by (simp add: pad2_def)
  obtain t where t: "0 \<le> t" "t < 86400" and
    hms: "to_local_hms TIMEZONE secs = (nat (t div 3600), nat (t mod 3600 div 60), nat (t mod 60))"
    using to_local_hms_day by blast
  define h m x where "h = nat (t div 3600)" and "m = nat (t mod 3600 div 60)" and "x = nat (t mod 60)"
  note hms = hms [folded h_def m_def x_def]
  have "t div 3600 < 1000" "t mod 3600 div 60 < 1000" "t mod 60 < 1000" using t by linarith+
  then have "h < 1000" "m < 1000" "x < 1000" by (simp_all only: h_def m_def x_def nat_less_iff zless_nat_conj)
  note this [THEN two]
  then have "length (pad2 h @ '':'' @ pad2 m @ '':'' @ pad2 x) \<le> 16" by (simp only: length_append list.size)
  with s hms show ?thesis by (simp only: prod.case)
qed

text \<open>
  The elapsed time reported to the NTP client is the elapsed time, unless the sub-second part of the
  clock is below that of the start; then the difference of the microseconds wraps, and the report is
  too large by more than an hour.
\<close>

lemma ntp_elapsed:
  assumes "start \<le> now"
  shows "timestamp_sec now (timestamp_gen_init start) * 1000000 +
      unat (timestamp_subsec_micros now (timestamp_gen_init start)) =
    now - start + (if now mod 1000000 < start mod 1000000 then 2 ^ 32 else 0)"
proof -
  have small: "t mod 1000000 < 2 ^ LENGTH(32)" for t :: nat
    by (rule less_le_trans [of _ 1000000]) simp_all
  have u: "unat (of_nat (t mod 1000000) :: u32) = t mod 1000000" for t
    using small [of t] by (simp add: unat_of_nat take_bit_nat_eq_self)
  have split: "t = t div 1000000 * 1000000 + t mod 1000000" for t :: nat by simp
  have divs: "start div 1000000 \<le> now div 1000000" using assms by (simp add: div_le_mono)
  have sum: "now - start + start mod 1000000 = (now div 1000000 - start div 1000000) * 1000000 + now mod 1000000"
    using split [of now] split [of start] assms divs by (simp only: diff_mult_distrib) linarith
  show ?thesis
  proof (cases "now mod 1000000 < start mod 1000000")
    case False
    then have "unat (timestamp_subsec_micros now (timestamp_gen_init start)) = now mod 1000000 - start mod 1000000"
      by (simp add: timestamp_subsec_micros_def timestamp_gen_init_def unat_sub word_le_nat_alt u not_less)
    moreover have "(now div 1000000 - start div 1000000) * 1000000 + (now mod 1000000 - start mod 1000000) = now - start"
      using False sum by linarith
    ultimately show ?thesis using False by (simp add: timestamp_sec_def timestamp_gen_init_def as_secs_def)
  next
    case True
    then have sub: "unat (timestamp_subsec_micros now (timestamp_gen_init start)) =
        2 ^ 32 + now mod 1000000 - start mod 1000000"
      by (simp add: timestamp_subsec_micros_def timestamp_gen_init_def unat_sub_if' u)
    have sec: "timestamp_sec now (timestamp_gen_init start) = now div 1000000 - start div 1000000"
      by (simp add: timestamp_sec_def timestamp_gen_init_def as_secs_def)
    have "start mod 1000000 \<le> 2 ^ 32 + now mod 1000000" using small [of start] by simp
    with sum show ?thesis unfolding sec sub if_P [OF True] by linarith
  qed
qed

section \<open>Synchronisation\<close>

lemma ask_servers_first:
  "ask_servers get_time ss =
    (case List.find (\<lambda>s. get_time s \<noteq> None) ss of
       None \<Rightarrow> None
     | Some s \<Rightarrow> map_option (\<lambda>(secs, at). \<lparr>tm_unix_secs = unat secs, tm_captured_at = at\<rparr>) (get_time s))"
  by (induction ss) (auto split: option.splits)

text \<open>The watch holds the reference of the last attempt that succeeded.\<close>

definition last_some :: "'a option list \<Rightarrow> 'a option" where
  "last_some as = fold (\<lambda>a w. if a = None then w else a) as None"

lemma time_sync_periodic_watch: "fst (time_sync_periodic as w) = fold (\<lambda>a w. if a = None then w else a) as w"
  by (induction as arbitrary: w) (simp_all add: case_prod_beta split: option.splits)

lemma time_sync_watch: "fst (time_sync_loop as) = last_some as"
proof (induction as)
  case (Cons a as)
  then show ?case
    by (cases a) (simp_all add: time_sync_loop_def last_some_def time_sync_periodic_watch case_prod_beta)
qed (simp add: time_sync_loop_def last_some_def)

end
