(* ===== verification/Display.thy ===== *)
theory Display
  imports Display_Driver Time_Sync
begin

text \<open>
  The display task: \<open>firmware/src/tasks/display.rs\<close> and \<open>tasks/display/\<close> (\<open>state.rs\<close>,
  \<open>frame_model.rs\<close>, \<open>frame_map.rs\<close>, \<open>controller.rs\<close>). The navigation state machine, the settings
  menu and its values, the frame key that decides whether to draw, and the loop. The values of the
  watches, the clock readings and the events are inputs of a round.
\<close>

section \<open>Navigation\<close>

datatype RadioState = Overview | Settings

datatype DisplayState = MainScreen | RadioScreen RadioState

datatype SettingsMenuOutcome = OutcomeUnchanged | OutcomeValueChanged | OutcomeSaveSelected

record TransitionEffects =
  reset_settings_menu :: bool
  sync_pending_settings :: bool
  save_settings :: bool

definition NO_EFFECTS :: TransitionEffects where
  "NO_EFFECTS = \<lparr>reset_settings_menu = False, sync_pending_settings = False, save_settings = False\<rparr>"
definition RESET_SETTINGS_MENU :: TransitionEffects where
  "RESET_SETTINGS_MENU = \<lparr>reset_settings_menu = True, sync_pending_settings = False, save_settings = False\<rparr>"
definition SYNC_PENDING :: TransitionEffects where
  "SYNC_PENDING = \<lparr>reset_settings_menu = False, sync_pending_settings = True, save_settings = False\<rparr>"
definition SAVE_SETTINGS :: TransitionEffects where
  "SAVE_SETTINGS = \<lparr>reset_settings_menu = False, sync_pending_settings = True, save_settings = True\<rparr>"

lemmas effect_defs = NO_EFFECTS_def RESET_SETTINGS_MENU_def SYNC_PENDING_def SAVE_SETTINGS_def

record Transition =
  tr_state :: DisplayState
  tr_effects :: TransitionEffects

fun reduce_navigation :: "DisplayState \<Rightarrow> App_Bus.UiEvent \<Rightarrow> Transition" where
  "reduce_navigation MainScreen event =
     (case event of
        App_Bus.Select \<Rightarrow> \<lparr>tr_state = RadioScreen Settings, tr_effects = RESET_SETTINGS_MENU\<rparr>
      | _ \<Rightarrow> \<lparr>tr_state = RadioScreen Overview, tr_effects = NO_EFFECTS\<rparr>)"
| "reduce_navigation (RadioScreen Overview) event =
     (case event of
        App_Bus.Select \<Rightarrow> \<lparr>tr_state = RadioScreen Settings, tr_effects = RESET_SETTINGS_MENU\<rparr>
      | _ \<Rightarrow> \<lparr>tr_state = MainScreen, tr_effects = NO_EFFECTS\<rparr>)"
| "reduce_navigation (RadioScreen Settings) event =
     \<lparr>tr_state = RadioScreen Settings, tr_effects = NO_EFFECTS\<rparr>"

definition reduce_settings_menu :: "DisplayState \<Rightarrow> SettingsMenuOutcome \<Rightarrow> Transition" where
  "reduce_settings_menu state outcome =
     (if state \<noteq> RadioScreen Settings then \<lparr>tr_state = state, tr_effects = NO_EFFECTS\<rparr>
      else case outcome of
             OutcomeUnchanged \<Rightarrow> \<lparr>tr_state = state, tr_effects = NO_EFFECTS\<rparr>
           | OutcomeValueChanged \<Rightarrow> \<lparr>tr_state = state, tr_effects = SYNC_PENDING\<rparr>
           | OutcomeSaveSelected \<Rightarrow> \<lparr>tr_state = RadioScreen Overview, tr_effects = SAVE_SETTINGS\<rparr>)"

section \<open>Frames\<close>

record MainFrameKey =
  mk_temp_deci :: int
  mk_sensor_id :: u8
  mk_channel :: u8
  mk_battery_ok :: bool
  mk_time_secs :: "nat option"

record SettingsFrameKey =
  sk_nav_index :: u8
  sk_editing :: bool
  sk_threshold :: u8
  sk_magn :: u8
  sk_bandwidth_index :: u8
  sk_carrier_sense :: u8
  sk_predictive_sleep_enabled :: bool
  sk_sleep_duration_secs :: u8
  sk_ui_idle_timeout_secs :: u8

datatype RadioFrameKey = OverviewFrame "int option" u8 | SettingsFrame SettingsFrameKey

datatype FrameKey = FrameWaiting | FrameMain MainFrameKey | FrameRadio RadioFrameKey

record DisplayFrameInput =
  fi_screen :: UiScreenState
  fi_reading :: "SensorReading option"
  fi_radio :: RadioConfigView
  fi_power :: PowerConfigView
  fi_time_secs :: "nat option"
  fi_settings_nav_index :: u8
  fi_settings_editing :: bool

definition temp_to_deci :: "f32 \<Rightarrow> int" where
  "temp_to_deci temp_c = f32_as_i16 (f32_mul temp_c (F32 10))"

definition derive_frame :: "DisplayFrameInput \<Rightarrow> FrameKey" where
  "derive_frame input =
     (case fi_screen input of
        UiWaiting \<Rightarrow> FrameWaiting
      | UiMain \<Rightarrow>
          (case fi_reading input of
             None \<Rightarrow> FrameWaiting
           | Some reading \<Rightarrow> FrameMain
               \<lparr>mk_temp_deci = temp_to_deci (sr_temperature_c reading), mk_sensor_id = sr_sensor_id reading,
                mk_channel = sr_channel reading, mk_battery_ok = sr_battery_ok reading,
                mk_time_secs = fi_time_secs input\<rparr>)
      | UiRadioOverview \<Rightarrow> FrameRadio (OverviewFrame (map_option sr_rssi_dbm (fi_reading input))
          (case fi_reading input of
             None \<Rightarrow> rc_detection_threshold_db (fi_radio input) | Some r \<Rightarrow> sr_detection_threshold_db r))
      | UiRadioSettings \<Rightarrow> FrameRadio (SettingsFrame
          \<lparr>sk_nav_index = fi_settings_nav_index input, sk_editing = fi_settings_editing input,
           sk_threshold = rc_detection_threshold_db (fi_radio input), sk_magn = rc_magn_target (fi_radio input),
           sk_bandwidth_index = rc_channel_bandwidth_index (fi_radio input),
           sk_carrier_sense = rc_carrier_sense_threshold (fi_radio input),
           sk_predictive_sleep_enabled = pc_predictive_sleep_enabled (fi_power input),
           sk_sleep_duration_secs = pc_sleep_duration_secs (fi_power input),
           sk_ui_idle_timeout_secs = pc_ui_idle_timeout_secs (fi_power input)\<rparr>))"

fun to_ui_screen_state :: "DisplayState \<Rightarrow> UiScreenState" where
  "to_ui_screen_state MainScreen = UiMain"
| "to_ui_screen_state (RadioScreen Overview) = UiRadioOverview"
| "to_ui_screen_state (RadioScreen Settings) = UiRadioSettings"

definition derive_frame_key ::
  "DisplayState \<Rightarrow> RadioReading option \<Rightarrow> RadioSettings \<Rightarrow> PowerSettings \<Rightarrow> nat option \<Rightarrow> nat \<Rightarrow> bool \<Rightarrow> FrameKey" where
  "derive_frame_key state reading radio pwr time_secs settings_nav_index settings_editing =
     derive_frame \<lparr>fi_screen = to_ui_screen_state state, fi_reading = map_option sensor_reading_from reading,
       fi_radio = radio_config_from radio, fi_power = power_config_from pwr, fi_time_secs = time_secs,
       fi_settings_nav_index = (if settings_nav_index \<le> 255 then of_nat settings_nav_index else 255),
       fi_settings_editing = settings_editing\<rparr>"

section \<open>The settings menu\<close>

datatype SettingsAction = Save

type_synonym SettingsMenu = "SettingsAction MenuEntry Menu"

definition U8 :: int_type where "U8 = (0, 255)"

definition SETTINGS_MENU_CAPACITY :: nat where [const_defs]: "SETTINGS_MENU_CAPACITY = 8"
definition THRESHOLD_ITEM_INDEX :: nat where [const_defs]: "THRESHOLD_ITEM_INDEX = 0"
definition MAGN_ITEM_INDEX :: nat where [const_defs]: "MAGN_ITEM_INDEX = 1"
definition BANDWIDTH_ITEM_INDEX :: nat where [const_defs]: "BANDWIDTH_ITEM_INDEX = 2"
definition CARRIER_SENSE_ITEM_INDEX :: nat where [const_defs]: "CARRIER_SENSE_ITEM_INDEX = 3"
definition PREDICTIVE_SLEEP_ITEM_INDEX :: nat where [const_defs]: "PREDICTIVE_SLEEP_ITEM_INDEX = 4"
definition SLEEP_DURATION_ITEM_INDEX :: nat where [const_defs]: "SLEEP_DURATION_ITEM_INDEX = 5"
definition UI_IDLE_TIMEOUT_ITEM_INDEX :: nat where [const_defs]: "UI_IDLE_TIMEOUT_ITEM_INDEX = 6"

definition format_db :: "u8 \<Rightarrow> string" where
  "format_db v = write_pieces 32 [dec_digits (unat v), ''dB''] ''''"

definition format_magn_target :: "u8 \<Rightarrow> string" where
  "format_magn_target v =
     (let magnitude_db = (if v = 0 then 24 else if v = 1 then 27 else if v = 2 then 30 else if v = 3 then 33
            else if v = 4 then 36 else if v = 5 then 38 else if v = 6 then 40 else 42)
      in write_pieces 32 [dec_digits magnitude_db, ''dB''] '''')"

definition format_bandwidth :: "u8 \<Rightarrow> string" where
  "format_bandwidth v =
     (let bandwidth_khz = channel_bandwidth_hz v div 1000
      in write_pieces 32 [dec_digits (unat bandwidth_khz), ''kHz''] '''')"

definition format_on_off :: "u8 \<Rightarrow> string" where
  "format_on_off v = write_pieces 32 [if v = 0 then ''Off'' else ''On''] ''''"

definition format_seconds :: "u8 \<Rightarrow> string" where
  "format_seconds v = write_pieces 32 [dec_digits (unat v), ''s''] ''''"

fun menu_event_from_ui_event :: "App_Bus.UiEvent \<Rightarrow> Karu_Menu.UiEvent" where
  "menu_event_from_ui_event App_Bus.NextScreen = Karu_Menu.NextScreen"
| "menu_event_from_ui_event App_Bus.PrevScreen = Karu_Menu.PrevScreen"
| "menu_event_from_ui_event App_Bus.Select = Karu_Menu.Select"

fun settings_outcome_from_menu_event :: "SettingsAction MenuEvent \<Rightarrow> SettingsMenuOutcome" where
  "settings_outcome_from_menu_event (ValueChanged _) = OutcomeValueChanged"
| "settings_outcome_from_menu_event (ActionSelected _ Save) = OutcomeSaveSelected"
| "settings_outcome_from_menu_event _ = OutcomeUnchanged"

fun navigation_event_from_app_event :: "AppEvent \<Rightarrow> App_Bus.UiEvent option" where
  "navigation_event_from_app_event (UiInput (Navigation ui_event)) = Some ui_event"
| "navigation_event_from_app_event _ = None"

definition reset_settings_menu_for_entry :: "SettingsMenu \<Rightarrow> SettingsMenu" where
  "reset_settings_menu_for_entry menu =
     (let menu = (if editing menu then snd (handle_event (menu_entry U8) Karu_Menu.Select menu) else menu)
      in snd (set_selected 0 menu))"

text \<open>A full menu drops the item and logs it.\<close>

definition add_menu_item :: "SettingsAction MenuEntry \<Rightarrow> SettingsMenu \<Rightarrow> SettingsMenu" where
  "add_menu_item i menu = snd (menu_add SETTINGS_MENU_CAPACITY i menu)"

text \<open>A numeric entry of type \<open>u8\<close>; \<open>None\<close> is the panic on an empty range.\<close>

definition numeric_entry ::
  "string \<Rightarrow> u8 \<Rightarrow> u8 \<Rightarrow> u8 \<Rightarrow> u8 \<Rightarrow> (u8 \<Rightarrow> string) \<Rightarrow> SettingsAction MenuEntry option" where
  "numeric_entry lbl initial lo hi st fmt =
     map_option Numeric (numeric_new lbl (uint initial) (uint lo) (uint hi) (uint st) (\<lambda>x. fmt (of_int x)))"

definition settings_entries :: "RadioSettings \<Rightarrow> PowerSettings \<Rightarrow> SettingsAction MenuEntry option list" where
  "settings_entries radio pwr =
     [numeric_entry ''Threshold'' (rs_detection_threshold_db radio)
        DETECTION_THRESHOLD_MIN_DB DETECTION_THRESHOLD_MAX_DB DETECTION_THRESHOLD_STEP_DB format_db,
      numeric_entry ''Magn Tgt'' (rs_magn_target radio) MAGN_TARGET_MIN MAGN_TARGET_MAX 1 format_magn_target,
      numeric_entry ''Bandwidth'' (rs_channel_bandwidth_index radio)
        CHANNEL_BANDWIDTH_MIN_INDEX CHANNEL_BANDWIDTH_MAX_INDEX 1 format_bandwidth,
      numeric_entry ''CS Thrsh'' (rs_carrier_sense_threshold radio) CARRIER_SENSE_MIN CARRIER_SENSE_MAX 1 format_db,
      numeric_entry ''Pred Slp'' (of_bool (ps_predictive_sleep_enabled pwr)) 0 1 1 format_on_off,
      numeric_entry ''Sleep'' (ps_sleep_duration_secs pwr)
        POWER_SLEEP_DURATION_MIN_SECS POWER_SLEEP_DURATION_MAX_SECS 1 format_seconds,
      numeric_entry ''UI Idle'' (ps_ui_idle_timeout_secs pwr)
        POWER_UI_IDLE_TIMEOUT_MIN_SECS POWER_UI_IDLE_TIMEOUT_MAX_SECS 1 format_seconds,
      Some (Command (action_new ''Save'' Save))]"

definition build_settings_menu :: "RadioSettings \<Rightarrow> PowerSettings \<Rightarrow> SettingsMenu option" where
  "build_settings_menu radio pwr =
     map_option (\<lambda>entries. fold add_menu_item entries (menu_new (viewport_new 128 64))) (those (settings_entries radio pwr))"

definition numeric_value_at :: "SettingsMenu \<Rightarrow> nat \<Rightarrow> u8 option" where
  "numeric_value_at menu index =
     (if index < length (items menu) then
        case items menu ! index of Numeric i \<Rightarrow> Some (of_int (pending i)) | Command _ \<Rightarrow> None
      else None)"

definition unwrap_or :: "'a option \<Rightarrow> 'a \<Rightarrow> 'a" where
  "unwrap_or m d = (case m of None \<Rightarrow> d | Some x \<Rightarrow> x)"

definition sync_pending_from_menu :: "SettingsMenu \<Rightarrow> RadioSettings \<Rightarrow> PowerSettings \<Rightarrow> RadioSettings \<times> PowerSettings" where
  "sync_pending_from_menu menu r p =
     (\<lparr>rs_detection_threshold_db = unwrap_or (numeric_value_at menu THRESHOLD_ITEM_INDEX) (rs_detection_threshold_db r),
       rs_magn_target = unwrap_or (numeric_value_at menu MAGN_ITEM_INDEX) (rs_magn_target r),
       rs_channel_bandwidth_index =
         unwrap_or (numeric_value_at menu BANDWIDTH_ITEM_INDEX) (rs_channel_bandwidth_index r),
       rs_carrier_sense_threshold =
         unwrap_or (numeric_value_at menu CARRIER_SENSE_ITEM_INDEX) (rs_carrier_sense_threshold r)\<rparr>,
      \<lparr>ps_predictive_sleep_enabled =
         (case numeric_value_at menu PREDICTIVE_SLEEP_ITEM_INDEX of None \<Rightarrow> False | Some v \<Rightarrow> v \<noteq> 0),
       ps_sleep_duration_secs = unwrap_or (numeric_value_at menu SLEEP_DURATION_ITEM_INDEX) (ps_sleep_duration_secs p),
       ps_ui_idle_timeout_secs =
         unwrap_or (numeric_value_at menu UI_IDLE_TIMEOUT_ITEM_INDEX) (ps_ui_idle_timeout_secs p)\<rparr>)"

section \<open>The controller\<close>

datatype DisplayLoopEvent = LoopReading RadioReading | LoopNavigation App_Bus.UiEvent | LoopTick | LoopIgnore

text \<open>The three sources of the next event: a new reading, an application event, or the timeout.\<close>

datatype LoopSource = SourceReading RadioReading | SourceAppEvent AppEvent | SourceTimeout

fun next_display_loop_event :: "LoopSource \<Rightarrow> DisplayLoopEvent" where
  "next_display_loop_event (SourceReading reading) = LoopReading reading"
| "next_display_loop_event (SourceAppEvent app_event) =
     (case navigation_event_from_app_event app_event of None \<Rightarrow> LoopIgnore | Some e \<Rightarrow> LoopNavigation e)"
| "next_display_loop_event SourceTimeout = LoopTick"

record DisplayController =
  dc_state :: DisplayState
  dc_last_reading :: "RadioReading option"
  dc_pending_radio :: RadioSettings
  dc_pending_power :: PowerSettings
  dc_settings_menu :: SettingsMenu
  dc_last_frame :: "FrameKey option"

definition controller_new :: "RadioSettings option \<Rightarrow> PowerSettings option \<Rightarrow> DisplayController option" where
  "controller_new initial_radio initial_power =
     (let radio = unwrap_or initial_radio DEFAULT_RADIO_SETTINGS;
          pwr = unwrap_or initial_power DEFAULT_POWER_SETTINGS
      in map_option (\<lambda>menu. case sync_pending_from_menu menu radio pwr of (current_radio, current_power) \<Rightarrow>
           \<lparr>dc_state = MainScreen, dc_last_reading = None, dc_pending_radio = current_radio,
            dc_pending_power = current_power, dc_settings_menu = menu, dc_last_frame = None\<rparr>)
         (build_settings_menu radio pwr))"

definition radio_overview_values :: "DisplayController \<Rightarrow> int option \<times> u8" where
  "radio_overview_values c =
     (map_option rd_rssi (dc_last_reading c),
      case dc_last_reading c of
        None \<Rightarrow> rs_detection_threshold_db (dc_pending_radio c) | Some reading \<Rightarrow> rd_detection_threshold reading)"

definition apply_transition :: "Transition \<Rightarrow> DisplayController \<Rightarrow> AppCommand option \<times> DisplayController" where
  "apply_transition transition c =
     (let c = (if reset_settings_menu (tr_effects transition)
               then c\<lparr>dc_settings_menu := reset_settings_menu_for_entry (dc_settings_menu c)\<rparr> else c);
          c = (if sync_pending_settings (tr_effects transition)
               then case sync_pending_from_menu (dc_settings_menu c) (dc_pending_radio c) (dc_pending_power c) of
                      (r, p) \<Rightarrow> c\<lparr>dc_pending_radio := r, dc_pending_power := p\<rparr>
               else c);
          c = c\<lparr>dc_state := tr_state transition\<rparr>
      in if save_settings (tr_effects transition) then
           let c = c\<lparr>dc_pending_radio := radio_settings_from (clamp_radio_config (radio_config_from (dc_pending_radio c)))\<rparr>;
               c = c\<lparr>dc_pending_power := power_settings_from (clamp_power_config (power_config_from (dc_pending_power c)))\<rparr>;
               c = c\<lparr>dc_settings_menu := commit_all (menu_entry U8) (dc_settings_menu c)\<rparr>
           in (Some (ApplySettings (dc_pending_radio c) (dc_pending_power c)), c)
         else (None, c))"

text \<open>Handling an event, at an uptime: a navigation event also reports activity to the power module.\<close>

fun controller_handle_event ::
  "nat \<Rightarrow> DisplayLoopEvent \<Rightarrow> DisplayController \<times> PowerState \<Rightarrow> AppCommand option \<times> DisplayController \<times> PowerState" where
  "controller_handle_event uptime (LoopReading reading) (c, pw) = (None, c\<lparr>dc_last_reading := Some reading\<rparr>, pw)"
| "controller_handle_event uptime (LoopNavigation event) (c, pw) =
     (let pw = power_notify_ui_activity uptime pw;
          (transition, c) =
            (if dc_state c = RadioScreen Settings then
               case handle_event (menu_entry U8) (menu_event_from_ui_event event) (dc_settings_menu c) of
                 (menu_event, menu) \<Rightarrow>
                   (reduce_settings_menu (dc_state c) (settings_outcome_from_menu_event menu_event),
                    c\<lparr>dc_settings_menu := menu\<rparr>)
             else (reduce_navigation (dc_state c) event, c));
          (command, c) = apply_transition transition c
      in (command, c, pw))"
| "controller_handle_event uptime LoopTick (c, pw) = (None, c, pw)"
| "controller_handle_event uptime LoopIgnore (c, pw) = (None, c, pw)"

definition sync_from_watchers ::
  "RadioSettings option \<Rightarrow> PowerSettings option \<Rightarrow> DisplayController \<Rightarrow> DisplayController option" where
  "sync_from_watchers radio_settings power_settings c =
     (if dc_state c = RadioScreen Settings then Some c
      else let (c, rebuild) =
             (case radio_settings of
                Some settings \<Rightarrow>
                  if settings \<noteq> dc_pending_radio c then (c\<lparr>dc_pending_radio := settings\<rparr>, True) else (c, False)
              | None \<Rightarrow> (c, False));
            (c, rebuild) =
             (case power_settings of
                Some settings \<Rightarrow>
                  if settings \<noteq> dc_pending_power c then (c\<lparr>dc_pending_power := settings\<rparr>, True) else (c, rebuild)
              | None \<Rightarrow> (c, rebuild))
        in if rebuild
           then map_option (\<lambda>menu. c\<lparr>dc_settings_menu := menu\<rparr>)
                  (build_settings_menu (dc_pending_radio c) (dc_pending_power c))
           else Some c)"

definition controller_frame_key :: "nat option \<Rightarrow> DisplayController \<Rightarrow> FrameKey" where
  "controller_frame_key time_secs c =
     derive_frame_key (dc_state c) (dc_last_reading c) (dc_pending_radio c) (dc_pending_power c) time_secs
       (vp_selected (viewport (dc_settings_menu c))) (editing (dc_settings_menu c))"

definition should_render :: "FrameKey \<Rightarrow> DisplayController \<Rightarrow> bool" where
  "should_render frame c \<longleftrightarrow> Some frame \<noteq> dc_last_frame c"

definition mark_rendered :: "FrameKey \<Rightarrow> DisplayController \<Rightarrow> DisplayController" where
  "mark_rendered frame c = c\<lparr>dc_last_frame := Some frame\<rparr>"

section \<open>The tasks\<close>

text \<open>The input task: what is sent for an event of the encoder.\<close>

definition ui_input_step :: "OtaState option \<Rightarrow> App_Bus.UiEvent \<Rightarrow> AppEvent option" where
  "ui_input_step ota_state event =
     (if is_ui_input_allowed (unwrap_or ota_state Inactive) then Some (UiInput (Navigation event)) else None)"

fun draw_menu_items :: "'p panel \<Rightarrow> RenderItem list \<Rightarrow> 'p \<Rightarrow> (DisplayError + unit) \<times> 'p" where
  "draw_menu_items pn [] p = (Inr (), p)"
| "draw_menu_items pn (i # is) p = st_bind (draw_menu_item pn i p) (\<lambda>_ p. draw_menu_items pn is p)"

definition show_settings :: "'p panel \<Rightarrow> SettingsMenu \<Rightarrow> 'p \<Rightarrow> (DisplayError + unit) \<times> 'p" where
  "show_settings pn menu p =
     st_bind (display_clear pn p) (\<lambda>_ p.
       st_bind (draw_header pn ''SETTINGS'' p) (\<lambda>_ p.
         st_bind (draw_menu_items pn (render_items (menu_entry U8) SETTINGS_MENU_CAPACITY menu) p) (\<lambda>_ p.
           st_bind (case scroll_indicator menu of None \<Rightarrow> (Inr (), p) | Some ind \<Rightarrow> draw_scroll_indicator pn ind p) (\<lambda>_ p.
             display_flush pn p))))"

definition render_screen :: "'p panel \<Rightarrow> string option \<Rightarrow> DisplayController \<Rightarrow> 'p \<Rightarrow> (DisplayError + unit) \<times> 'p" where
  "render_screen pn timestamp c p =
     (case dc_state c of
        MainScreen \<Rightarrow>
          (case dc_last_reading c of
             Some reading \<Rightarrow> show_temperature pn (rr_temperature_c (rd_inner reading)) (rr_id (rd_inner reading))
               (rr_channel (rd_inner reading)) (rr_battery_ok (rd_inner reading)) timestamp p
           | None \<Rightarrow> show_status pn ''Waiting...'' p)
      | RadioScreen Overview \<Rightarrow>
          (case radio_overview_values c of (rssi, detection_threshold) \<Rightarrow> show_radio_info pn rssi detection_threshold p)
      | RadioScreen Settings \<Rightarrow> show_settings pn (dc_settings_menu c) p)"

text \<open>
  The inputs of a round. The time is \<open>None\<close> before the first synchronisation; otherwise it is the
  second read for the frame key and the second read when the text is formatted.
\<close>

record RoundInput =
  in_uptime :: nat
  in_source :: LoopSource
  in_radio_settings :: "RadioSettings option"
  in_power_settings :: "PowerSettings option"
  in_ota_state :: "OtaState option"
  in_time :: "(nat \<times> nat) option"

record 'p DisplayTask =
  dt_controller :: DisplayController
  dt_power :: PowerState
  dt_panel :: 'p

text \<open>The start of the task, and one round of its loop with the command it sends; \<open>None\<close> is a panic.\<close>

definition display_task_start ::
  "'p panel \<Rightarrow> RadioSettings option \<Rightarrow> PowerSettings option \<Rightarrow> PowerState \<Rightarrow> 'p \<Rightarrow> 'p DisplayTask option" where
  "display_task_start pn radio_settings power_settings pw p =
     (let p = snd (show_status pn ''Waiting...'' p)
      in map_option (\<lambda>c. \<lparr>dt_controller = c, dt_power = pw, dt_panel = p\<rparr>)
           (controller_new radio_settings power_settings))"

definition display_round ::
  "'p panel \<Rightarrow> RoundInput \<Rightarrow> 'p DisplayTask \<Rightarrow> (AppCommand option \<times> 'p DisplayTask) option" where
  "display_round pn inp t =
     (let loop_event = next_display_loop_event (in_source inp)
      in if loop_event = LoopIgnore then Some (None, t)
         else case controller_handle_event (in_uptime inp) loop_event (dt_controller t, dt_power t) of
           (command, c, pw) \<Rightarrow>
             case sync_from_watchers (in_radio_settings inp) (in_power_settings inp) c of
               None \<Rightarrow> None
             | Some c \<Rightarrow>
                 case ota_display_message (unwrap_or (in_ota_state inp) Inactive) of
                   Some message \<Rightarrow>
                     Some (command, \<lparr>dt_controller = c, dt_power = pw,
                       dt_panel = snd (show_status pn message (dt_panel t))\<rparr>)
                 | None \<Rightarrow>
                     let frame = controller_frame_key (map_option fst (in_time inp)) c
                     in if \<not> should_render frame c
                        then Some (command, \<lparr>dt_controller = c, dt_power = pw, dt_panel = dt_panel t\<rparr>)
                        else case render_screen pn (map_option (\<lambda>ts. hms_text (snd ts)) (in_time inp)) c (dt_panel t) of
                          (res, p) \<Rightarrow>
                            Some (command, \<lparr>dt_controller = (if is_ok res then mark_rendered frame c else c),
                              dt_power = pw, dt_panel = p\<rparr>))"

end
