(* ===== verification/Settings_Menu.thy ===== *)
theory Settings_Menu
  imports Display
begin

text \<open>
  The settings menu of the display: what an event of a menu reports is what changed, the menu keeps
  its entries and their values in range and on their steps, its values read as valid settings, and
  the menu built from valid settings shows them.
\<close>

section \<open>Menu events report what changed\<close>

lemma select_event_cases:
  assumes "select k (viewport m) = (c, v)" "viewport_ok (viewport m)"
  shows "if c then vp_selected v \<noteq> vp_selected (viewport m) else v = viewport m"
  using assms select_ok [OF assms(2,1)] by (auto simp: select_def Let_def split: if_splits)

text \<open>What an event of a menu of entries did, as its report says.\<close>

definition event_report :: "'a MenuEntry Menu \<Rightarrow> 'a MenuEvent \<Rightarrow> 'a MenuEntry Menu \<Rightarrow> bool" where
  "event_report m ev m' \<longleftrightarrow>
     (case ev of
        NoOp \<Rightarrow> m' = m
      | SelectionChanged _ \<Rightarrow> items m' = items m \<and> editing m' = editing m \<and>
          vp_selected (viewport m') \<noteq> vp_selected (viewport m)
      | EditStarted _ \<Rightarrow> items m' = items m \<and> editing m' \<and> \<not> editing m
      | EditCompleted _ \<Rightarrow> items m' = items m \<and> \<not> editing m' \<and> editing m
      | ActionSelected _ _ \<Rightarrow> m' = m
      | ValueChanged i \<Rightarrow> viewport m' = viewport m \<and> editing m' = editing m \<and>
          (\<exists>n n'. i < length (items m) \<and> items m ! i = Numeric n \<and> items m' = (items m)[i := Numeric n'] \<and>
             n' = n\<lparr>pending := pending n'\<rparr> \<and> pending n' \<noteq> pending n))"

lemma numeric_step_report:
  "increment (menu_entry ty) e = (True, e') \<Longrightarrow>
     \<exists>n n'. e = Numeric n \<and> e' = Numeric n' \<and> n' = n\<lparr>pending := pending n'\<rparr> \<and> pending n' \<noteq> pending n"
  "decrement (menu_entry ty) e = (True, e') \<Longrightarrow>
     \<exists>n n'. e = Numeric n \<and> e' = Numeric n' \<and> n' = n\<lparr>pending := pending n'\<rparr> \<and> pending n' \<noteq> pending n"
  by (cases e; auto simp: menu_entry_def numeric_item_def action_item_def numeric_increment_def numeric_decrement_def Let_def)+

lemma menu_event_report:
  assumes ok: "viewport_ok (viewport m)" and ev: "handle_event (menu_entry ty) e m = (ev, m')"
  shows "event_report m ev m'"
proof (cases "items m = []")
  case True
  with ev show ?thesis by (simp add: handle_event_def event_report_def)
next
  case False
  have upd: "items m' = items m" if "e = Karu_Menu.Select"
    using entry.select_keeps_items [of ty m] ev that by simp
  show ?thesis
  proof (cases e)
    case NextScreen
    show ?thesis
    proof (cases "editing m")
      case True
      obtain c i where "increment (menu_entry ty) (items m ! vp_selected (viewport m)) = (c, i)" by fastforce
      with ev NextScreen True False numeric_step_report(1) [of ty "items m ! vp_selected (viewport m)" i]
        entry.increment_truthful [of ty "items m ! vp_selected (viewport m)" i]
      show ?thesis
        by (cases c) (auto simp: handle_event_def on_next_def Let_def event_report_def split: if_splits)
    next
      case sel: False
      obtain c v where "select (sat_add_u32 (vp_selected (viewport m)) 1) (viewport m) = (c, v)" by fastforce
      with ev NextScreen sel False select_event_cases [OF this ok] show ?thesis
        by (cases c) (auto simp: handle_event_def on_next_def select_next_def event_report_def)
    qed
  next
    case PrevScreen
    show ?thesis
    proof (cases "editing m")
      case True
      obtain c i where "decrement (menu_entry ty) (items m ! vp_selected (viewport m)) = (c, i)" by fastforce
      with ev PrevScreen True False numeric_step_report(2) [of ty "items m ! vp_selected (viewport m)" i]
        entry.decrement_truthful [of ty "items m ! vp_selected (viewport m)" i]
      show ?thesis
        by (cases c) (auto simp: handle_event_def on_prev_def Let_def event_report_def split: if_splits)
    next
      case sel: False
      obtain c v where "select (vp_selected (viewport m) - 1) (viewport m) = (c, v)" by fastforce
      with ev PrevScreen sel False select_event_cases [OF this ok] show ?thesis
        by (cases c) (auto simp: handle_event_def on_prev_def select_prev_def event_report_def)
    qed
  next
    case Select
    let ?k = "vp_selected (viewport m)" and ?ops = "menu_entry ty :: ('a MenuEntry, 'a) MenuItem"
    have step: "on_select ?ops m = (ev, m')" using ev Select False by (simp add: handle_event_def)
    show ?thesis
    proof (cases "?k < length (items m) \<and> is_editable ?ops (items m ! ?k)")
      case True
      then show ?thesis using step
        by (cases "editing m") (auto simp: on_select_def Let_def event_report_def entry.enter_same entry.exit_same)
    next
      case False
      then show ?thesis using step
        by (cases "item_action ?ops (items m ! ?k)") (auto simp: on_select_def Let_def event_report_def split: if_splits)
    qed
  qed
qed

section \<open>The settings menu keeps its shape\<close>

text \<open>An entry without its values.\<close>

fun entry_frame :: "'a MenuEntry \<Rightarrow> 'a MenuEntry" where
  "entry_frame (Numeric n) = Numeric (n\<lparr>current := 0, pending := 0\<rparr>)"
| "entry_frame (Command a) = Command a"

definition frame_entry :: "string \<Rightarrow> int \<Rightarrow> int \<Rightarrow> int \<Rightarrow> (u8 \<Rightarrow> string) \<Rightarrow> SettingsAction MenuEntry" where
  "frame_entry l lo hi st fmt =
     Numeric \<lparr>num_label = l, current = 0, pending = 0, num_min = lo, num_max = hi, step = st,
       formatter = (\<lambda>x. fmt (of_int x))\<rparr>"

definition settings_frames :: "SettingsAction MenuEntry list" where
  "settings_frames =
     [frame_entry ''Threshold'' 4 16 4 format_db, frame_entry ''Magn Tgt'' 0 7 1 format_magn_target,
      frame_entry ''Bandwidth'' 0 3 1 format_bandwidth, frame_entry ''CS Thrsh'' 0 7 1 format_db,
      frame_entry ''Pred Slp'' 0 1 1 format_on_off, frame_entry ''Sleep'' 1 59 1 format_seconds,
      frame_entry ''UI Idle'' 5 180 1 format_seconds, Command (action_new ''Save'' Save)]"

text \<open>Values are reached from the lower bound in whole steps, and so is the upper bound.\<close>

fun entry_grid :: "'a MenuEntry \<Rightarrow> bool" where
  "entry_grid (Numeric n) \<longleftrightarrow>
     (pending n - num_min n) mod step n = 0 \<and> (num_max n - num_min n) mod step n = 0"
| "entry_grid (Command a) \<longleftrightarrow> True"

definition settings_menu_ok :: "SettingsMenu \<Rightarrow> bool" where
  "settings_menu_ok m \<longleftrightarrow>
     menu_ok 8 m \<and> map entry_frame (items m) = settings_frames \<and> list_all entry_ok (items m) \<and>
     list_all entry_grid (items m)"

lemma entry_frame_step [simp]:
  "entry_frame (snd (increment (menu_entry ty) i)) = entry_frame i"
  "entry_frame (snd (decrement (menu_entry ty) i)) = entry_frame i"
  "entry_frame (commit (menu_entry ty) i) = entry_frame i"
  by (cases i; simp add: menu_entry_def numeric_item_def action_item_def numeric_increment_def numeric_decrement_def Let_def)+

lemma grid_step: "(p - a) mod s = 0 \<Longrightarrow> (p + s - a) mod s = (0 :: int)" "(p - a) mod s = 0 \<Longrightarrow> (p - s - a) mod s = (0 :: int)"
proof -
  assume "(p - a) mod s = 0"
  moreover have "p + s - a = (p - a) + s" "p - s - a = (p - a) - s" by simp_all
  ultimately show "(p + s - a) mod s = 0" "(p - s - a) mod s = 0"
    by (simp_all only: mod_add_self2 minus_mod_self2)
qed

lemma entry_grid_step:
  assumes "entry_grid i"
  shows "entry_grid (snd (increment (menu_entry ty) i))" "entry_grid (snd (decrement (menu_entry ty) i))"
    "entry_grid (commit (menu_entry ty) i)"
  using assms grid_step
  by (cases i; auto simp: menu_entry_def numeric_item_def action_item_def numeric_increment_def numeric_decrement_def
      add_clamped_def sub_clamped_def checked_int_def Let_def min_def max_def)+

lemma event_frames:
  assumes "viewport_ok (viewport m)"
  shows "map entry_frame (items (snd (handle_event (menu_entry ty) e m))) = map entry_frame (items m)"
proof -
  obtain ev m' where ev: "handle_event (menu_entry ty) e m = (ev, m')" by fastforce
  have upd: "map entry_frame ((items m)[i := Numeric n']) = map entry_frame (items m)"
    if "i < length (items m)" "items m ! i = Numeric n" "n' = n\<lparr>pending := pending n'\<rparr>" for i n n'
  proof -
    have "entry_frame (Numeric n') = entry_frame (Numeric n)" by (subst that(3)) simp
    with that(1,2) show ?thesis by (simp add: map_update list_update_same_conv)
  qed
  from menu_event_report [OF assms ev] show ?thesis
    by (cases ev) (auto simp: event_report_def ev upd)
qed

lemma settings_menu_event:
  assumes "settings_menu_ok m"
  shows "settings_menu_ok (snd (handle_event (menu_entry ty) e m))"
  using assms event_frames [of m ty e] menu_ok_event [of 8 m "menu_entry ty" e]
    event_items_all [of entry_ok ty m e, OF entry_step_ok(1,2)]
    event_items_all [of entry_grid ty m e, OF entry_grid_step(1,2)]
  by (simp add: settings_menu_ok_def menu_ok_def)

lemma settings_menu_commit: "settings_menu_ok m \<Longrightarrow> settings_menu_ok (commit_all (menu_entry ty) m)"
  by (auto simp: settings_menu_ok_def menu_ok_def commit_all_def list_all_iff comp_def entry_grid_step entry_step_ok)

lemma settings_menu_select: "settings_menu_ok m \<Longrightarrow> settings_menu_ok (snd (set_selected k m))"
  using menu_ok_select [of 8 m k]
  by (auto simp: settings_menu_ok_def set_selected_def Let_def menu_ok_def split: prod.splits)

lemma settings_menu_reset: "settings_menu_ok m \<Longrightarrow> settings_menu_ok (reset_settings_menu_for_entry m)"
  by (simp add: reset_settings_menu_for_entry_def Let_def settings_menu_select settings_menu_event)

section \<open>The values of the settings menu\<close>

definition entry_value :: "'a MenuEntry \<Rightarrow> int" where
  "entry_value e = (case e of Numeric n \<Rightarrow> pending n | Command _ \<Rightarrow> 0)"

abbreviation value_at :: "SettingsMenu \<Rightarrow> nat \<Rightarrow> int" where
  "value_at m k \<equiv> entry_value (items m ! k)"

lemma entry_frame_Numeric:
  assumes "entry_frame e = frame_entry l lo hi st fmt"
  obtains n where "e = Numeric n" "num_min n = lo" "num_max n = hi" "step n = st"
    "formatter n = (\<lambda>x. fmt (of_int x))"
proof (cases e)
  case (Numeric n)
  with assms that show ?thesis by (cases n) (simp add: frame_entry_def)
qed (use assms in \<open>simp add: frame_entry_def\<close>)

lemma settings_menu_length: "settings_menu_ok m \<Longrightarrow> length (items m) = 8"
proof -
  assume "settings_menu_ok m"
  then have "length (map entry_frame (items m)) = length settings_frames" by (simp add: settings_menu_ok_def)
  then show ?thesis by (simp add: settings_frames_def)
qed

lemma settings_value:
  assumes "settings_menu_ok m" "settings_frames ! k = frame_entry l lo hi st fmt" "k < 7"
  shows "numeric_value_at m k = Some (of_int (value_at m k)) \<and> lo \<le> value_at m k \<and> value_at m k \<le> hi \<and>
    (value_at m k - lo) mod st = 0 \<and> value_string (menu_entry U8) (items m ! k) = fmt (of_int (value_at m k))"
proof -
  note len = settings_menu_length [OF assms(1)]
  have "map entry_frame (items m) ! k = settings_frames ! k" using assms(1) by (simp add: settings_menu_ok_def)
  then have "entry_frame (items m ! k) = frame_entry l lo hi st fmt" using assms(2,3) len by simp
  then obtain n where n: "items m ! k = Numeric n" "num_min n = lo" "num_max n = hi" "step n = st"
    "formatter n = (\<lambda>x. fmt (of_int x))" by (rule entry_frame_Numeric)
  have "entry_ok (items m ! k)" "entry_grid (items m ! k)"
    using assms(1,3) len by (auto simp: settings_menu_ok_def list_all_length)
  with n len assms(3) show ?thesis
    by (simp add: numeric_ok_def numeric_value_at_def entry_value_def menu_entry_def numeric_item_def)
qed

lemma settings_frames_nth:
  "settings_frames ! 0 = frame_entry ''Threshold'' 4 16 4 format_db"
  "settings_frames ! 1 = frame_entry ''Magn Tgt'' 0 7 1 format_magn_target"
  "settings_frames ! 2 = frame_entry ''Bandwidth'' 0 3 1 format_bandwidth"
  "settings_frames ! 3 = frame_entry ''CS Thrsh'' 0 7 1 format_db"
  "settings_frames ! 4 = frame_entry ''Pred Slp'' 0 1 1 format_on_off"
  "settings_frames ! 5 = frame_entry ''Sleep'' 1 59 1 format_seconds"
  "settings_frames ! 6 = frame_entry ''UI Idle'' 5 180 1 format_seconds"
  by (simp_all add: settings_frames_def)

lemmas settings_values =
  settings_value [OF _ settings_frames_nth(1), simplified] settings_value [OF _ settings_frames_nth(2), simplified]
  settings_value [OF _ settings_frames_nth(3), simplified] settings_value [OF _ settings_frames_nth(4), simplified]
  settings_value [OF _ settings_frames_nth(5), simplified] settings_value [OF _ settings_frames_nth(6), simplified]
  settings_value [OF _ settings_frames_nth(7), simplified]

text \<open>The settings read off a settings menu.\<close>

definition radio_of :: "SettingsMenu \<Rightarrow> RadioSettings" where
  "radio_of m =
     \<lparr>rs_detection_threshold_db = of_int (value_at m 0), rs_magn_target = of_int (value_at m 1),
      rs_channel_bandwidth_index = of_int (value_at m 2), rs_carrier_sense_threshold = of_int (value_at m 3)\<rparr>"

definition power_of :: "SettingsMenu \<Rightarrow> PowerSettings" where
  "power_of m =
     \<lparr>ps_predictive_sleep_enabled = (value_at m 4 \<noteq> 0), ps_sleep_duration_secs = of_int (value_at m 5),
      ps_ui_idle_timeout_secs = of_int (value_at m 6)\<rparr>"

lemma u8_inject: "0 \<le> a \<Longrightarrow> a \<le> 255 \<Longrightarrow> 0 \<le> b \<Longrightarrow> b \<le> 255 \<Longrightarrow> (of_int a :: u8) = of_int b \<longleftrightarrow> a = b"
proof -
  assume *: "0 \<le> a" "a \<le> 255" "0 \<le> b" "b \<le> 255"
  have "uint (of_int x :: u8) = x" if "0 \<le> x" "x \<le> 255" for x
    using that by (simp add: uint_word_of_int)
  with * show ?thesis by metis
qed

lemma u8_le: "0 \<le> a \<Longrightarrow> a \<le> b \<Longrightarrow> b \<le> 255 \<Longrightarrow> (of_int a :: u8) \<le> of_int b"
  by (simp add: word_le_def uint_word_of_int)

lemma sync_settings:
  assumes "settings_menu_ok m"
  shows "sync_pending_from_menu m r p = (radio_of m, power_of m)"
proof -
  have "(of_int (value_at m 4) :: u8) = 0 \<longleftrightarrow> value_at m 4 = 0"
    using settings_values(5) [OF assms] u8_inject [of "value_at m 4" 0] by simp
  then show ?thesis
    using settings_values [OF assms]
    by (simp add: sync_pending_from_menu_def radio_of_def power_of_def const_defs unwrap_or_def)
qed

lemma multiples_of_four:
  assumes "4 \<le> v" "v \<le> 16" "(v - 4) mod 4 = (0 :: int)"
  shows "v = 4 \<or> v = 8 \<or> v = 12 \<or> v = 16"
  using assms by presburger

lemma settings_valid:
  assumes "settings_menu_ok m"
  shows "valid_radio_settings (radio_of m)" "valid_power_settings (power_of m)"
proof -
  note v = settings_values [OF assms]
  have "value_at m 0 = 4 \<or> value_at m 0 = 8 \<or> value_at m 0 = 12 \<or> value_at m 0 = 16"
    by (rule multiples_of_four) (use v(1) in simp_all)
  moreover have "(of_int (value_at m 1) :: u8) \<le> of_int 7" "(of_int (value_at m 2) :: u8) \<le> of_int 3"
    "(of_int (value_at m 3) :: u8) \<le> of_int 7"
    by (rule u8_le; use v in simp)+
  ultimately show "valid_radio_settings (radio_of m)"
    by (auto simp: valid_radio_settings_def valid_radio_config_def radio_config_from_def radio_of_def)
  have "of_int 1 \<le> (of_int (value_at m 5) :: u8)" "(of_int (value_at m 5) :: u8) \<le> of_int 59"
    "of_int 5 \<le> (of_int (value_at m 6) :: u8)" "(of_int (value_at m 6) :: u8) \<le> of_int 180"
    by (rule u8_le; use v in simp)+
  then show "valid_power_settings (power_of m)"
    by (simp add: valid_power_settings_def valid_power_config_def power_config_from_def power_of_def)
qed

text \<open>A changed value changes the settings.\<close>

lemma changed_value_shows:
  assumes ok: "settings_menu_ok m" "settings_menu_ok m'"
    and eq: "radio_of m = radio_of m'" "power_of m = power_of m'"
    and k: "k < 7"
  shows "value_at m k = value_at m' k"
proof -
  note v = settings_values [OF ok(1)] and w = settings_values [OF ok(2)]
  have inj: "value_at m j = value_at m' j"
    if "(of_int (value_at m j) :: u8) = of_int (value_at m' j)" "0 \<le> value_at m j \<and> value_at m j \<le> 255"
      "0 \<le> value_at m' j \<and> value_at m' j \<le> 255" for j
    using that u8_inject by simp
  have "value_at m 4 = value_at m' 4" using v(5) w(5) eq(2) by (auto simp: power_of_def)
  moreover have "value_at m 0 = value_at m' 0" "value_at m 1 = value_at m' 1" "value_at m 2 = value_at m' 2"
    "value_at m 3 = value_at m' 3" "value_at m 5 = value_at m' 5" "value_at m 6 = value_at m' 6"
    using v w eq by (auto simp: radio_of_def power_of_def intro!: inj)
  moreover have "k = 0 \<or> k = 1 \<or> k = 2 \<or> k = 3 \<or> k = 4 \<or> k = 5 \<or> k = 6" using k by linarith
  ultimately show ?thesis by auto
qed

section \<open>Building the menu\<close>

lemma numeric_entry_eq:
  assumes "lo \<le> hi"
  shows "numeric_entry l initial lo hi st fmt =
    Some (Numeric \<lparr>num_label = l, current = clamp_ord (uint lo) (uint hi) (uint initial),
      pending = clamp_ord (uint lo) (uint hi) (uint initial), num_min = uint lo, num_max = uint hi,
      step = uint st, formatter = (\<lambda>x. fmt (of_int x))\<rparr>)"
  using assms by (simp add: numeric_entry_def numeric_new_def clamp_checked_def word_le_def)

lemma add_menu_items:
  assumes "menu_reachable (menu_entry U8) 8 m" "length (items m) + length es \<le> 8"
  shows "menu_reachable (menu_entry U8) 8 (fold add_menu_item es m) \<and>
    items (fold add_menu_item es m) = items m @ es \<and> editing (fold add_menu_item es m) = editing m"
  using assms
proof (induction es arbitrary: m)
  case (Cons e es)
  have "menu_reachable (menu_entry U8) 8 (add_menu_item e m)"
    unfolding add_menu_item_def SETTINGS_MENU_CAPACITY_def by (rule reach_add [OF Cons.prems(1)])
  moreover have "items (add_menu_item e m) = items m @ [e]" "editing (add_menu_item e m) = editing m"
    using Cons.prems(2) by (simp_all add: add_menu_item_def SETTINGS_MENU_CAPACITY_def menu_add_def Let_def)
  ultimately show ?case using Cons.IH [of "add_menu_item e m"] Cons.prems(2) by simp
qed simp

text \<open>An entry with a value.\<close>

definition valued_entry :: "string \<Rightarrow> int \<Rightarrow> int \<Rightarrow> int \<Rightarrow> (u8 \<Rightarrow> string) \<Rightarrow> int \<Rightarrow> SettingsAction MenuEntry" where
  "valued_entry l lo hi st fmt v =
     Numeric \<lparr>num_label = l, current = v, pending = v, num_min = lo, num_max = hi, step = st,
       formatter = (\<lambda>x. fmt (of_int x))\<rparr>"

lemma valued_entry_simps [simp]:
  "entry_frame (valued_entry l lo hi st fmt v) = frame_entry l lo hi st fmt"
  "entry_ok (valued_entry l lo hi st fmt v) \<longleftrightarrow> lo \<le> v \<and> v \<le> hi \<and> 0 \<le> st"
  "entry_grid (valued_entry l lo hi st fmt v) \<longleftrightarrow> (v - lo) mod st = 0 \<and> (hi - lo) mod st = 0"
  "entry_value (valued_entry l lo hi st fmt v) = v"
  by (auto simp: valued_entry_def frame_entry_def numeric_ok_def entry_value_def)

definition built_entries :: "RadioSettings \<Rightarrow> PowerSettings \<Rightarrow> SettingsAction MenuEntry list" where
  "built_entries r p =
     [valued_entry ''Threshold'' 4 16 4 format_db (clamp_ord 4 16 (uint (rs_detection_threshold_db r))),
      valued_entry ''Magn Tgt'' 0 7 1 format_magn_target (clamp_ord 0 7 (uint (rs_magn_target r))),
      valued_entry ''Bandwidth'' 0 3 1 format_bandwidth (clamp_ord 0 3 (uint (rs_channel_bandwidth_index r))),
      valued_entry ''CS Thrsh'' 0 7 1 format_db (clamp_ord 0 7 (uint (rs_carrier_sense_threshold r))),
      valued_entry ''Pred Slp'' 0 1 1 format_on_off (of_bool (ps_predictive_sleep_enabled p)),
      valued_entry ''Sleep'' 1 59 1 format_seconds (clamp_ord 1 59 (uint (ps_sleep_duration_secs p))),
      valued_entry ''UI Idle'' 5 180 1 format_seconds (clamp_ord 5 180 (uint (ps_ui_idle_timeout_secs p))),
      Command (action_new ''Save'' Save)]"

lemma settings_entries_eq: "those (settings_entries r p) = Some (built_entries r p)"
  by (simp add: settings_entries_def numeric_entry_eq const_defs built_entries_def valued_entry_def)

lemma build_settings_menu_eq:
  "build_settings_menu r p = Some (fold add_menu_item (built_entries r p) (menu_new (viewport_new 128 64)))"
  by (simp add: build_settings_menu_def settings_entries_eq)

lemma uint_bounds_u8: "w \<le> of_int b \<Longrightarrow> 0 \<le> b \<Longrightarrow> b \<le> 255 \<Longrightarrow> uint (w :: u8) \<le> b"
  "of_int b \<le> w \<Longrightarrow> 0 \<le> b \<Longrightarrow> b \<le> 255 \<Longrightarrow> b \<le> uint (w :: u8)"
  by (simp_all add: word_le_def uint_word_of_int)

lemma build_settings_menu_valid:
  assumes "valid_radio_settings r" "valid_power_settings p"
  obtains m where "build_settings_menu r p = Some m" "settings_menu_ok m" "radio_of m = r" "power_of m = p" "\<not> editing m"
proof -
  have new: "menu_reachable (menu_entry U8) 8 (menu_new (viewport_new 128 64) :: SettingsMenu)"
    unfolding viewport_new_def by (rule reach_new)
  obtain m where m: "build_settings_menu r p = Some m" "menu_reachable (menu_entry U8) 8 m" "items m = built_entries r p" "\<not> editing m"
    using add_menu_items [OF new, of "built_entries r p"] build_settings_menu_eq [of r p]
    by (simp add: menu_new_def built_entries_def)
  have t: "rs_detection_threshold_db r = of_int 4 \<or> rs_detection_threshold_db r = of_int 8 \<or>
      rs_detection_threshold_db r = of_int 12 \<or> rs_detection_threshold_db r = of_int 16"
    using assms(1) by (auto simp: valid_radio_settings_def valid_radio_config_def radio_config_from_def)
  have tu: "uint (rs_detection_threshold_db r) = 4 \<or> uint (rs_detection_threshold_db r) = 8 \<or>
      uint (rs_detection_threshold_db r) = 12 \<or> uint (rs_detection_threshold_db r) = 16"
    using t by auto
  have b: "uint (rs_magn_target r) \<le> 7" "uint (rs_channel_bandwidth_index r) \<le> 3"
    "uint (rs_carrier_sense_threshold r) \<le> 7" "1 \<le> uint (ps_sleep_duration_secs p)"
    "uint (ps_sleep_duration_secs p) \<le> 59" "5 \<le> uint (ps_ui_idle_timeout_secs p)"
    "uint (ps_ui_idle_timeout_secs p) \<le> 180"
    using assms by (auto simp: valid_radio_settings_def valid_radio_config_def radio_config_from_def
        valid_power_settings_def valid_power_config_def power_config_from_def intro!: uint_bounds_u8)
  have vals: "built_entries r p =
     [valued_entry ''Threshold'' 4 16 4 format_db (uint (rs_detection_threshold_db r)),
      valued_entry ''Magn Tgt'' 0 7 1 format_magn_target (uint (rs_magn_target r)),
      valued_entry ''Bandwidth'' 0 3 1 format_bandwidth (uint (rs_channel_bandwidth_index r)),
      valued_entry ''CS Thrsh'' 0 7 1 format_db (uint (rs_carrier_sense_threshold r)),
      valued_entry ''Pred Slp'' 0 1 1 format_on_off (of_bool (ps_predictive_sleep_enabled p)),
      valued_entry ''Sleep'' 1 59 1 format_seconds (uint (ps_sleep_duration_secs p)),
      valued_entry ''UI Idle'' 5 180 1 format_seconds (uint (ps_ui_idle_timeout_secs p)),
      Command (action_new ''Save'' Save)]"
    using b tu by (auto simp: built_entries_def clamp_ord_def)
  have grid: "4 \<le> uint (rs_detection_threshold_db r)" "uint (rs_detection_threshold_db r) \<le> 16"
    "(uint (rs_detection_threshold_db r) - 4) mod 4 = 0" using tu by auto
  have "menu_ok 8 m" by (rule menu_reachable_ok [OF m(2)])
  moreover have "map entry_frame (items m) = settings_frames" by (simp add: m(3) vals settings_frames_def)
  moreover have "list_all entry_ok (items m)" using b grid by (simp add: m(3) vals)
  moreover have "list_all entry_grid (items m)" using grid by (simp add: m(3) vals)
  ultimately have "settings_menu_ok m" by (simp add: settings_menu_ok_def)
  moreover have "radio_of m = r" "power_of m = p" by (simp_all add: radio_of_def power_of_def m(3) vals)
  ultimately show thesis using m(4) by (rule that [OF m(1)])
qed

end
