(* ===== verification/Display_Loop.thy ===== *)
theory Display_Loop
  imports Settings_Menu
begin

text \<open>
  The display task over time: the invariant of its controller, what a saved setting is, that the
  frame key determines what is drawn, and that the loop keeps the screen current.
\<close>

section \<open>The invariant of the controller\<close>

text \<open>The menu has its shape, and the pending settings are those of the menu.\<close>

definition controller_ok :: "DisplayController \<Rightarrow> bool" where
  "controller_ok c \<longleftrightarrow> settings_menu_ok (dc_settings_menu c) \<and>
     dc_pending_radio c = radio_of (dc_settings_menu c) \<and> dc_pending_power c = power_of (dc_settings_menu c)"

definition valid_watched :: "RadioSettings option \<Rightarrow> PowerSettings option \<Rightarrow> bool" where
  "valid_watched r p \<longleftrightarrow> pred_option valid_radio_settings r \<and> pred_option valid_power_settings p"

lemma controller_new_ok:
  assumes "valid_watched r p"
  obtains c where "controller_new r p = Some c" "controller_ok c" "dc_state c = MainScreen"
    "dc_last_reading c = None" "dc_last_frame c = None" "\<not> editing (dc_settings_menu c)"
proof -
  have "valid_radio_settings (unwrap_or r DEFAULT_RADIO_SETTINGS)" "valid_power_settings (unwrap_or p DEFAULT_POWER_SETTINGS)"
    using assms valid_defaults by (auto simp: valid_watched_def unwrap_or_def split: option.splits)
  then obtain m where "build_settings_menu (unwrap_or r DEFAULT_RADIO_SETTINGS) (unwrap_or p DEFAULT_POWER_SETTINGS) = Some m"
    "settings_menu_ok m" "\<not> editing m" by (rule build_settings_menu_valid)
  then show thesis by (intro that) (auto simp: controller_new_def Let_def sync_settings controller_ok_def)
qed

text \<open>Events that change the values synchronise them; the others leave the values as they were.\<close>

lemma same_items_same_settings: "items m' = items m \<Longrightarrow> radio_of m' = radio_of m \<and> power_of m' = power_of m"
  by (simp add: radio_of_def power_of_def)

lemma commit_value: "entry_value (commit (menu_entry ty) e) = entry_value e"
  by (cases e) (simp_all add: entry_value_def menu_entry_def numeric_item_def action_item_def)

lemma commit_settings:
  assumes "settings_menu_ok m"
  shows "radio_of (commit_all (menu_entry ty) m) = radio_of m" "power_of (commit_all (menu_entry ty) m) = power_of m"
  using settings_menu_length [OF assms] by (simp_all add: radio_of_def power_of_def commit_all_def commit_value)

lemma reset_items: "items (reset_settings_menu_for_entry m) = items m"
  by (auto simp: reset_settings_menu_for_entry_def Let_def set_selected_def entry.select_keeps_items split: prod.splits)

lemma clamp_settings_id:
  "valid_radio_settings r \<Longrightarrow> radio_settings_from (clamp_radio_config (radio_config_from r)) = r"
  "valid_power_settings p \<Longrightarrow> power_settings_from (clamp_power_config (power_config_from p)) = p"
  by (simp_all add: valid_radio_settings_def valid_power_settings_def radio_norm.norm_fixed_iff [THEN iffD2]
      power_norm.norm_fixed_iff [THEN iffD2])

text \<open>A navigation event in the settings screen, by what the menu reports.\<close>

lemma settings_event_cases:
  assumes ok: "controller_ok c" and st: "dc_state c = RadioScreen Settings"
    and step: "controller_handle_event t (LoopNavigation e) (c, pw) = (cmd, c', pw')"
  obtains (unchanged) m' where "cmd = None" "c' = c\<lparr>dc_settings_menu := m'\<rparr>" "items m' = items (dc_settings_menu c)"
      "m' = dc_settings_menu c \<or> editing m' \<noteq> editing (dc_settings_menu c) \<or>
         vp_selected (viewport m') \<noteq> vp_selected (viewport (dc_settings_menu c))"
  | (changed) m' k where "cmd = None" "k < 7"
      "c' = c\<lparr>dc_settings_menu := m', dc_pending_radio := radio_of m', dc_pending_power := power_of m'\<rparr>"
      "value_at m' k \<noteq> value_at (dc_settings_menu c) k"
  | (saved) "cmd = Some (ApplySettings (dc_pending_radio c) (dc_pending_power c))"
      "c' = c\<lparr>dc_settings_menu := commit_all (menu_entry U8) (dc_settings_menu c), dc_state := RadioScreen Overview\<rparr>"
proof -
  let ?m = "dc_settings_menu c"
  have mok: "settings_menu_ok ?m" using ok by (simp add: controller_ok_def)
  obtain ev m' where ev: "handle_event (menu_entry U8) (menu_event_from_ui_event e) ?m = (ev, m')" by fastforce
  have m'ok: "settings_menu_ok m'" using settings_menu_event [OF mok, of U8 "menu_event_from_ui_event e"] ev by simp
  have rep: "event_report ?m ev m'"
    using menu_event_report [OF _ ev] mok by (simp add: settings_menu_ok_def menu_ok_def)
  have c': "(cmd, c') = apply_transition (reduce_settings_menu (dc_state c) (settings_outcome_from_menu_event ev))
      (c\<lparr>dc_settings_menu := m'\<rparr>)"
    using step st ev by (auto simp: Let_def split: prod.splits)
  show thesis
  proof (cases ev)
    case (ValueChanged i)
    from rep ValueChanged obtain n n' where i: "i < length (items ?m)" "items ?m ! i = Numeric n"
      "items m' = (items ?m)[i := Numeric n']" "pending n' \<noteq> pending n" by (auto simp: event_report_def)
    have "i \<noteq> 7"
    proof
      assume "i = 7"
      with i have "entry_frame (items ?m ! 7) = settings_frames ! 7"
        using mok by (metis settings_menu_ok_def nth_map)
      with i \<open>i = 7\<close> show False by (simp add: settings_frames_def)
    qed
    then have "i < 7" using i settings_menu_length [OF mok] by linarith
    moreover have "value_at m' i \<noteq> value_at ?m i" using i by (simp add: entry_value_def)
    ultimately show thesis using c' st ValueChanged
      by (intro changed) (auto simp: reduce_settings_menu_def apply_transition_def effect_defs sync_settings [OF m'ok] Let_def)
  next
    case (ActionSelected i a)
    then have "m' = ?m" "settings_outcome_from_menu_event ev = OutcomeSaveSelected"
      using rep by (cases a; simp add: event_report_def)+
    then show thesis using c' st ok settings_valid [OF mok]
      by (intro saved) (auto simp: reduce_settings_menu_def apply_transition_def effect_defs Let_def
          sync_settings [OF mok] controller_ok_def clamp_settings_id)
  qed (use c' st rep in \<open>auto simp: reduce_settings_menu_def apply_transition_def effect_defs event_report_def Let_def intro!: unchanged\<close>)
qed

lemma outside_settings_step:
  assumes ok: "controller_ok c" and st: "dc_state c \<noteq> RadioScreen Settings"
    and step: "controller_handle_event t (LoopNavigation e) (c, pw) = (cmd, c', pw')"
  shows "cmd = None \<and> (\<exists>m' s. c' = c\<lparr>dc_settings_menu := m', dc_state := s\<rparr> \<and> settings_menu_ok m' \<and>
    items m' = items (dc_settings_menu c) \<and> s \<noteq> dc_state c)"
proof -
  let ?m = "dc_settings_menu c" and ?tr = "reduce_navigation (dc_state c) e"
  have mok: "settings_menu_ok ?m" using ok by (simp add: controller_ok_def)
  have tr: "tr_state ?tr \<noteq> dc_state c" "\<not> sync_pending_settings (tr_effects ?tr)" "\<not> save_settings (tr_effects ?tr)"
    using st by (cases "(dc_state c, e)" rule: reduce_navigation.cases; simp add: effect_defs split: UiEvent.splits)+
  define m' where "m' = (if reset_settings_menu (tr_effects ?tr) then reset_settings_menu_for_entry ?m else ?m)"
  have "settings_menu_ok m' \<and> items m' = items ?m"
    using mok settings_menu_reset reset_items by (auto simp: m'_def)
  moreover have "(cmd, c') = (None, c\<lparr>dc_settings_menu := m', dc_state := tr_state ?tr\<rparr>)"
    using step st tr(2,3) by (auto simp: Let_def apply_transition_def m'_def split: prod.splits)
  ultimately show ?thesis using tr(1) by blast
qed

lemma controller_event_ok:
  assumes ok: "controller_ok c" and step: "controller_handle_event t e (c, pw) = (cmd, c', pw')"
  shows "controller_ok c'"
proof (cases e)
  case (LoopNavigation ev)
  show ?thesis
  proof (cases "dc_state c = RadioScreen Settings")
    case True
    let ?m = "dc_settings_menu c"
    have mok: "settings_menu_ok ?m" using ok by (simp add: controller_ok_def)
    have m'ok: "settings_menu_ok (snd (handle_event (menu_entry U8) (menu_event_from_ui_event ev) ?m))"
      by (rule settings_menu_event [OF mok])
    obtain me m' where me: "handle_event (menu_entry U8) (menu_event_from_ui_event ev) ?m = (me, m')" by fastforce
    have rep: "event_report ?m me m'"
      using menu_event_report [OF _ me] mok by (simp add: settings_menu_ok_def menu_ok_def)
    have c': "(cmd, c') = apply_transition (reduce_settings_menu (dc_state c) (settings_outcome_from_menu_event me))
        (c\<lparr>dc_settings_menu := m'\<rparr>)"
      using step LoopNavigation True me by (auto simp: Let_def split: prod.splits)
    note m'ok = m'ok [unfolded me snd_conv]
    show ?thesis
    proof (cases "settings_outcome_from_menu_event me")
      case OutcomeUnchanged
      then have "items m' = items ?m" using rep by (cases me) (auto simp: event_report_def)
      with c' OutcomeUnchanged ok m'ok same_items_same_settings [of m' ?m] True show ?thesis
        by (auto simp: reduce_settings_menu_def apply_transition_def effect_defs controller_ok_def Let_def)
    next
      case OutcomeValueChanged
      with c' m'ok True sync_settings [OF m'ok] show ?thesis
        by (auto simp: reduce_settings_menu_def apply_transition_def effect_defs controller_ok_def Let_def)
    next
      case OutcomeSaveSelected
      with c' True sync_settings [OF m'ok] settings_valid [OF m'ok] settings_menu_commit [OF m'ok] commit_settings [OF m'ok]
      show ?thesis
        by (auto simp: reduce_settings_menu_def apply_transition_def effect_defs controller_ok_def Let_def clamp_settings_id)
    qed
  next
    case False
    from outside_settings_step [OF ok False step [unfolded LoopNavigation]] obtain m' s where
      c': "c' = c\<lparr>dc_settings_menu := m', dc_state := s\<rparr>" "settings_menu_ok m'" "items m' = items (dc_settings_menu c)"
      by blast
    from same_items_same_settings [OF c'(3)] c'(1,2) ok show ?thesis by (simp add: controller_ok_def)
  qed
next
  case (LoopReading r)
  with step have "c' = c\<lparr>dc_last_reading := Some r\<rparr>" by simp
  with ok show ?thesis by (simp add: controller_ok_def)
qed (use ok step in simp_all)

lemma sync_from_watchers_ok:
  assumes ok: "controller_ok c" and v: "valid_watched r p"
  obtains c' where "sync_from_watchers r p c = Some c'" "controller_ok c'"
    "dc_state c' = dc_state c" "dc_last_reading c' = dc_last_reading c" "dc_last_frame c' = dc_last_frame c"
    "dc_state c = RadioScreen Settings \<longrightarrow> c' = c"
proof (cases "dc_state c = RadioScreen Settings")
  case True
  with ok show thesis by (intro that [of c]) (simp_all add: sync_from_watchers_def)
next
  case False
  define pr where "pr = unwrap_or r (dc_pending_radio c)"
  define pp where "pp = unwrap_or p (dc_pending_power c)"
  have mok: "settings_menu_ok (dc_settings_menu c)" using ok by (simp add: controller_ok_def)
  have "valid_radio_settings pr" "valid_power_settings pp"
    using v ok settings_valid [OF mok] by (auto simp: pr_def pp_def unwrap_or_def valid_watched_def controller_ok_def split: option.splits)
  then obtain m where m: "build_settings_menu pr pp = Some m" "settings_menu_ok m" "radio_of m = pr" "power_of m = pp"
    by (rule build_settings_menu_valid)
  let ?c = "c\<lparr>dc_pending_radio := pr, dc_pending_power := pp\<rparr>"
  have "sync_from_watchers r p c =
      (if pr \<noteq> dc_pending_radio c \<or> pp \<noteq> dc_pending_power c then Some (?c\<lparr>dc_settings_menu := m\<rparr>) else Some c)"
    using False m(1) by (auto simp: sync_from_watchers_def pr_def pp_def unwrap_or_def split: option.splits)
  then show thesis
    using that [of c] that [of "?c\<lparr>dc_settings_menu := m\<rparr>"] ok m False
    by (auto simp: controller_ok_def split: if_splits)
qed

section \<open>Reachable controllers\<close>

inductive controller_reachable :: "DisplayController \<Rightarrow> bool" where
  start: "valid_watched r p \<Longrightarrow> controller_new r p = Some c \<Longrightarrow> controller_reachable c"
| event: "controller_reachable c \<Longrightarrow> controller_handle_event t e (c, pw) = (cmd, c', pw') \<Longrightarrow> controller_reachable c'"
| sync: "controller_reachable c \<Longrightarrow> valid_watched r p \<Longrightarrow> sync_from_watchers r p c = Some c' \<Longrightarrow> controller_reachable c'"
| rendered: "controller_reachable c \<Longrightarrow> controller_reachable (mark_rendered frame c)"

lemma controller_reachable_ok: "controller_reachable c \<Longrightarrow> controller_ok c"
proof (induction rule: controller_reachable.induct)
  case (start r p c)
  from controller_new_ok [OF start(1)] obtain c' where "controller_new r p = Some c'" "controller_ok c'" .
  with start(2) show ?case by simp
next
  case (event c t e pw cmd c' pw')
  show ?case by (rule controller_event_ok [OF event.IH event.hyps(2)])
next
  case (sync c r p c')
  from sync_from_watchers_ok [OF sync(4,2)] obtain c'' where
    "sync_from_watchers r p c = Some c''" "controller_ok c''" .
  with sync(3) show ?case by simp
qed (simp add: controller_ok_def mark_rendered_def)

text \<open>The texts of the settings screen for given settings.\<close>

definition settings_texts :: "RadioSettings \<Rightarrow> PowerSettings \<Rightarrow> string list" where
  "settings_texts r p =
     [format_db (rs_detection_threshold_db r), format_magn_target (rs_magn_target r),
      format_bandwidth (rs_channel_bandwidth_index r), format_db (rs_carrier_sense_threshold r),
      format_on_off (of_bool (ps_predictive_sleep_enabled p)), format_seconds (ps_sleep_duration_secs p),
      format_seconds (ps_ui_idle_timeout_secs p), '''']"

lemma shown_settings:
  assumes ok: "settings_menu_ok m"
  shows "map (value_string (menu_entry U8)) (items m) = settings_texts (radio_of m) (power_of m)"
proof -
  note v = settings_values [OF ok] and len = settings_menu_length [OF ok]
  have seven: "value_string (menu_entry U8) (items m ! 7) = ''''"
  proof -
    have "map entry_frame (items m) ! 7 = Command (action_new ''Save'' Save)"
      using ok by (simp add: settings_menu_ok_def settings_frames_def)
    then have "entry_frame (items m ! 7) = Command (action_new ''Save'' Save)" using len by simp
    then show ?thesis by (cases "items m ! 7") (simp_all add: menu_entry_def action_item_def)
  qed
  have on_off: "(of_int (value_at m 4) :: u8) = of_bool (value_at m 4 \<noteq> 0)"
  proof -
    have "value_at m 4 = 0 \<or> value_at m 4 = 1" using v(5) by linarith
    then show ?thesis by auto
  qed
  have "items m = map ((!) (items m)) [0, 1, 2, 3, 4, 5, 6, 7]"
    using map_nth [of "items m"] len by (simp add: upt_rec numeral_eq_Suc)
  then have "map (value_string (menu_entry U8)) (items m) =
      map (\<lambda>k. value_string (menu_entry U8) (items m ! k)) [0, 1, 2, 3, 4, 5, 6, 7]"
    by (rule ssubst) simp
  with v seven on_off show ?thesis
    by (simp add: settings_texts_def radio_of_def power_of_def)
qed

text \<open>
  C14: What is saved is what was shown. In every reachable state of the display, starting from valid
  settings and following valid ones, whenever an event makes the display send a command, that
  command applies valid settings, and they are exactly those whose texts the settings menu showed;
  the display goes back to the overview and no entry of the menu stays modified.
\<close>
theorem saved_settings_are_shown:
  assumes "controller_reachable c" "controller_handle_event t e (c, pw) = (Some cmd, c', pw')"
  shows "\<exists>r p. cmd = ApplySettings r p \<and> valid_radio_settings r \<and> valid_power_settings p \<and>
    map (value_string (menu_entry U8)) (items (dc_settings_menu c)) = settings_texts r p \<and>
    dc_state c' = RadioScreen Overview \<and> \<not> menu_modified (menu_entry U8) (dc_settings_menu c')"
proof -
  have ok: "controller_ok c" by (rule controller_reachable_ok [OF assms(1)])
  then have m: "settings_menu_ok (dc_settings_menu c)" by (simp add: controller_ok_def)
  from assms(2) obtain ev where e: "e = LoopNavigation ev" by (cases e) auto
  then have st: "dc_state c = RadioScreen Settings"
    using outside_settings_step [OF ok] assms(2) by blast
  from ok st assms(2) [unfolded e] show ?thesis
  proof (cases rule: settings_event_cases)
    case saved
    with ok shown_settings [OF m] settings_valid [OF m] entry.commit_all_clean [of U8 "dc_settings_menu c"]
    show ?thesis by (simp add: controller_ok_def)
  qed simp_all
qed

section \<open>Saving can be reached\<close>

text \<open>The presses that open the settings from another screen, go down to the last entry and select it.\<close>

definition run_events :: "App_Bus.UiEvent list \<Rightarrow> DisplayController \<times> PowerState \<Rightarrow> DisplayController \<times> PowerState" where
  "run_events es s = fold (\<lambda>e s. snd (controller_handle_event 0 (LoopNavigation e) s)) es s"

lemma run_events_reachable:
  "controller_reachable (fst s) \<Longrightarrow> controller_reachable (fst (run_events es s))"
proof (induction es arbitrary: s)
  case (Cons e es)
  obtain cmd c pw where s': "controller_handle_event 0 (LoopNavigation e) (fst s, snd s) = (cmd, c, pw)"
    by (metis prod.exhaust)
  have "controller_reachable c" by (rule controller_reachable.event [OF Cons.prems s'])
  moreover have "run_events (e # es) s = run_events es (c, pw)"
    using s' by (simp add: run_events_def del: controller_handle_event.simps)
  ultimately show ?case using Cons.IH [of "(c, pw)"] by (simp only: fst_conv)
qed (simp add: run_events_def)

lemma select_selected:
  assumes "viewport_ok v" "select i v = (c, v')"
  shows "vp_selected v' = min i (total_items v - 1)"
proof (cases "total_items v = 0")
  case True
  with assms(2) show ?thesis by (auto simp: select_def)
next
  case False
  let ?w = "v\<lparr>vp_selected := min i (total_items v - 1)\<rparr>"
  have "v' = ensure_visible ?w" using assms(2) False by (auto simp: select_def Let_def)
  moreover have "vp_selected (ensure_visible ?w) = vp_selected ?w"
    using ensure_visible_ok [of ?w] assms(1) False by (auto simp: viewport_ok_def)
  ultimately show ?thesis by simp
qed

lemma settings_selected:
  assumes "settings_menu_ok m"
  shows "vp_selected (viewport m) < 8"
proof -
  have "viewport_ok (viewport m)" "total_items (viewport m) = length (items m)"
    using assms by (simp_all add: settings_menu_ok_def menu_ok_def)
  with settings_menu_length [OF assms] show ?thesis by (simp add: viewport_ok_def)
qed

lemma next_moves_down:
  assumes "settings_menu_ok m" "\<not> editing m" "handle_event (menu_entry U8) Karu_Menu.NextScreen m = (ev, m')"
  shows "\<not> editing m' \<and> items m' = items m \<and> vp_selected (viewport m') = min (vp_selected (viewport m) + 1) 7 \<and>
    settings_outcome_from_menu_event ev = OutcomeUnchanged"
proof -
  have len: "length (items m) = 8" by (rule settings_menu_length [OF assms(1)])
  have ok: "viewport_ok (viewport m)" and tot: "total_items (viewport m) = 8"
    using assms(1) len by (simp_all add: settings_menu_ok_def menu_ok_def)
  have sel: "vp_selected (viewport m) < 8" using ok tot by (simp add: viewport_ok_def)
  obtain c v where sv: "select (vp_selected (viewport m) + 1) (viewport m) = (c, v)" by fastforce
  have sat: "sat_add_u32 (vp_selected (viewport m)) 1 = vp_selected (viewport m) + 1"
    using sel by (simp add: sat_add_u32_def u32_max_def)
  have m': "ev = (if c then SelectionChanged (vp_selected v) else NoOp)" "m' = m\<lparr>viewport := v\<rparr>"
    using assms(2,3) sv len by (auto simp: handle_event_def on_next_def select_next_def sat [simplified] Let_def split: if_splits)
  have "vp_selected v = min (vp_selected (viewport m) + 1) 7"
    using select_selected [OF ok sv] tot by simp
  with m' assms(2) show ?thesis by simp
qed

lemma next_in_settings:
  assumes "controller_ok c" "dc_state c = RadioScreen Settings" "\<not> editing (dc_settings_menu c)"
  shows "\<exists>m'. fst (run_events [App_Bus.NextScreen] (c, pw)) = c\<lparr>dc_settings_menu := m'\<rparr> \<and> \<not> editing m' \<and>
    vp_selected (viewport m') = min (vp_selected (viewport (dc_settings_menu c)) + 1) 7"
proof -
  have m: "settings_menu_ok (dc_settings_menu c)" using assms(1) by (simp add: controller_ok_def)
  obtain ev m' where ev: "handle_event (menu_entry U8) Karu_Menu.NextScreen (dc_settings_menu c) = (ev, m')" by fastforce
  from next_moves_down [OF m assms(3) ev] ev assms(2) show ?thesis
    by (intro exI [of _ m']) (auto simp: run_events_def reduce_settings_menu_def apply_transition_def effect_defs Let_def)
qed


lemma nexts_in_settings:
  assumes "controller_ok c" "dc_state c = RadioScreen Settings" "\<not> editing (dc_settings_menu c)"
  shows "\<exists>m' pw'. run_events (replicate n App_Bus.NextScreen) (c, pw) = (c\<lparr>dc_settings_menu := m'\<rparr>, pw') \<and>
    \<not> editing m' \<and> vp_selected (viewport m') = min (vp_selected (viewport (dc_settings_menu c)) + n) 7 \<and>
    controller_ok (c\<lparr>dc_settings_menu := m'\<rparr>)"
  using assms
proof (induction n arbitrary: c pw)
  case 0
  have "vp_selected (viewport (dc_settings_menu c)) < 8"
    by (rule settings_selected) (use 0 in \<open>simp add: controller_ok_def\<close>)
  with 0 show ?case by (intro exI [of _ "dc_settings_menu c"]) (simp add: run_events_def)
next
  case (Suc n)
  from next_in_settings [OF Suc.prems, of pw] obtain m pw1 where
    m: "run_events [App_Bus.NextScreen] (c, pw) = (c\<lparr>dc_settings_menu := m\<rparr>, pw1)" "\<not> editing m"
    "vp_selected (viewport m) = min (vp_selected (viewport (dc_settings_menu c)) + 1) 7"
    by (cases "run_events [App_Bus.NextScreen] (c, pw)") auto
  have ok: "controller_ok (c\<lparr>dc_settings_menu := m\<rparr>)"
  proof -
    have "snd (controller_handle_event 0 (LoopNavigation App_Bus.NextScreen) (c, pw)) = (c\<lparr>dc_settings_menu := m\<rparr>, pw1)"
      using m(1) by (simp add: run_events_def del: controller_handle_event.simps)
    then have "controller_handle_event 0 (LoopNavigation App_Bus.NextScreen) (c, pw) =
        (fst (controller_handle_event 0 (LoopNavigation App_Bus.NextScreen) (c, pw)), c\<lparr>dc_settings_menu := m\<rparr>, pw1)"
      by (rule subst) (rule prod.collapse [symmetric])
    from controller_event_ok [OF Suc.prems(1) this] show ?thesis .
  qed
  have "run_events (replicate (Suc n) App_Bus.NextScreen) (c, pw) = run_events (replicate n App_Bus.NextScreen) (c\<lparr>dc_settings_menu := m\<rparr>, pw1)"
    using m(1) by (simp add: run_events_def)
  with Suc.IH [OF ok, of pw1] m Suc.prems(2) show ?case by (auto simp: min_def)
qed

lemma set_selected_0:
  assumes "viewport_ok (viewport m)" "\<not> editing m"
  shows "vp_selected (viewport (snd (set_selected 0 m))) = 0 \<and> \<not> editing (snd (set_selected 0 m))"
proof -
  obtain c v where v: "select 0 (viewport m) = (c, v)" by fastforce
  have "vp_selected v = 0"
    using select_selected [OF assms(1) v] by simp
  with v assms(2) show ?thesis by (simp add: set_selected_def Let_def)
qed

lemma select_save:
  assumes "settings_menu_ok m" "\<not> editing m" "vp_selected (viewport m) = 7"
  shows "handle_event (menu_entry U8) Karu_Menu.Select m = (ActionSelected 7 Save, m)"
proof -
  have len: "length (items m) = 8" by (rule settings_menu_length [OF assms(1)])
  have "map entry_frame (items m) ! 7 = Command (action_new ''Save'' Save)"
    using assms(1) by (simp add: settings_menu_ok_def settings_frames_def)
  then have "items m ! 7 = Command (action_new ''Save'' Save)" using len by (cases "items m ! 7") simp_all
  with len assms(2,3) show ?thesis
    by (auto simp: handle_event_def on_select_def menu_entry_def action_item_def action_new_def)
qed

text \<open>
  From a screen other than the settings, with no entry being edited: one press opens the settings,
  seven steps reach the last entry, and selecting it saves the pending settings.
\<close>

lemma save_reachable:
  assumes "controller_ok c" "dc_state c \<noteq> RadioScreen Settings" "\<not> editing (dc_settings_menu c)"
  shows "fst (controller_handle_event 0 (LoopNavigation App_Bus.Select)
      (run_events (App_Bus.Select # replicate 7 App_Bus.NextScreen) (c, pw))) =
    Some (ApplySettings (dc_pending_radio c) (dc_pending_power c))"
proof -
  let ?m = "snd (set_selected 0 (dc_settings_menu c))"
  let ?c = "c\<lparr>dc_settings_menu := ?m, dc_state := RadioScreen Settings\<rparr>"
  have m: "settings_menu_ok (dc_settings_menu c)" using assms(1) by (simp add: controller_ok_def)
  have step: "controller_handle_event 0 (LoopNavigation App_Bus.Select) (c, pw) =
      (None, ?c, power_notify_ui_activity 0 pw)"
    using assms(2,3) by (cases "(dc_state c, App_Bus.Select)" rule: reduce_navigation.cases)
      (simp_all add: apply_transition_def effect_defs reset_settings_menu_for_entry_def)
  have sel: "vp_selected (viewport ?m) = 0 \<and> \<not> editing ?m"
    by (rule set_selected_0) (use m assms(3) in \<open>simp_all add: settings_menu_ok_def menu_ok_def\<close>)
  have ok: "controller_ok ?c" by (rule controller_event_ok [OF assms(1) step])
  obtain m' pw' where m': "run_events (replicate 7 App_Bus.NextScreen) (?c, power_notify_ui_activity 0 pw) = (?c\<lparr>dc_settings_menu := m'\<rparr>, pw')"
    "\<not> editing m'" "vp_selected (viewport m') = 7" "controller_ok (?c\<lparr>dc_settings_menu := m'\<rparr>)"
    using nexts_in_settings [OF ok, of 7 "power_notify_ui_activity 0 pw"] sel by auto
  have m'ok: "settings_menu_ok m'" using m'(4) by (simp add: controller_ok_def)
  have pend: "radio_of m' = dc_pending_radio c" "power_of m' = dc_pending_power c"
    using m'(4) by (simp_all add: controller_ok_def)
  have "run_events (App_Bus.Select # replicate 7 App_Bus.NextScreen) (c, pw) = (?c\<lparr>dc_settings_menu := m'\<rparr>, pw')"
    using m'(1) step by (simp add: run_events_def del: controller_handle_event.simps replicate.simps)
  then show ?thesis
    using select_save [OF m'ok m'(2,3)] pend settings_valid [OF m'ok]
    by (simp add: reduce_settings_menu_def apply_transition_def effect_defs Let_def sync_settings [OF m'ok] clamp_settings_id)
qed

definition demo_start :: "DisplayController \<times> PowerState" where
  "demo_start = run_events (App_Bus.Select # replicate 7 App_Bus.NextScreen) (the (controller_new None None), power_after_reset 0)"

theorem saved_settings_are_shown_witness:
  "\<exists>cmd c' pw' r p. controller_handle_event 0 (LoopNavigation App_Bus.Select) demo_start = (Some cmd, c', pw') \<and>
    cmd = ApplySettings r p \<and> valid_radio_settings r \<and> valid_power_settings p \<and>
    map (value_string (menu_entry U8)) (items (dc_settings_menu (fst demo_start))) = settings_texts r p \<and>
    dc_state c' = RadioScreen Overview"
proof -
  obtain c where c: "controller_new None None = Some c" "controller_ok c" "dc_state c = MainScreen" "\<not> editing (dc_settings_menu c)"
    using controller_new_ok [of None None] by (auto simp: valid_watched_def)
  have "controller_reachable c"
    by (rule controller_reachable.start [OF _ c(1)]) (simp add: valid_watched_def)
  then have reach: "controller_reachable (fst demo_start)"
    unfolding demo_start_def c(1) option.sel by (intro run_events_reachable) simp
  have "fst (controller_handle_event 0 (LoopNavigation App_Bus.Select) demo_start) =
      Some (ApplySettings (dc_pending_radio c) (dc_pending_power c))"
    unfolding demo_start_def c(1) option.sel by (intro save_reachable) (use c in simp_all)
  then obtain cmd c' pw' where s: "controller_handle_event 0 (LoopNavigation App_Bus.Select) (fst demo_start, snd demo_start) = (Some cmd, c', pw')"
    by (metis prod.collapse)
  from saved_settings_are_shown [OF reach s] s show ?thesis by (simp only: prod.collapse) blast
qed

section \<open>What the screen shows\<close>

definition settings_ops :: "SettingsMenu \<Rightarrow> DrawOp list" where
  "settings_ops m = header_op ''SETTINGS'' #
     concat (map menu_item_ops (render_items (menu_entry U8) SETTINGS_MENU_CAPACITY m)) @
     (case scroll_indicator m of None \<Rightarrow> [] | Some ind \<Rightarrow> [scroll_indicator_op ind])"

definition screen_of :: "string option \<Rightarrow> DisplayController \<Rightarrow> DrawOp list" where
  "screen_of timestamp c =
     (case dc_state c of
        MainScreen \<Rightarrow> (case dc_last_reading c of
            None \<Rightarrow> status_ops ''Waiting...''
          | Some r \<Rightarrow> temperature_ops (rr_temperature_c (rd_inner r)) (rr_id (rd_inner r)) (rr_channel (rd_inner r))
              (rr_battery_ok (rd_inner r)) timestamp)
      | RadioScreen Overview \<Rightarrow> radio_info_ops (fst (radio_overview_values c)) (snd (radio_overview_values c))
      | RadioScreen Settings \<Rightarrow> settings_ops (dc_settings_menu c))"

lemma draw_menu_items_eq: "draw_menu_items pn is = draw_all pn (concat (map menu_item_ops is))"
proof (induction "is")
  case (Cons i "is")
  show ?case by (rule ext) (simp add: draw_all_append draw_menu_item_def Cons)
qed (simp add: fun_eq_iff)

lemma show_settings_eq: "show_settings pn m = draw_screen pn (settings_ops m)"
proof
  fix p
  have ind: "(case scroll_indicator m of None \<Rightarrow> (Inr (), p) | Some ind \<Rightarrow> draw_scroll_indicator pn ind p) =
      draw_all pn (case scroll_indicator m of None \<Rightarrow> [] | Some ind \<Rightarrow> [scroll_indicator_op ind]) p" for p
    by (simp add: draw_scroll_indicator_def split: option.split)
  have cons: "settings_ops m = [header_op ''SETTINGS''] @
      concat (map menu_item_ops (render_items (menu_entry U8) SETTINGS_MENU_CAPACITY m)) @
      (case scroll_indicator m of None \<Rightarrow> [] | Some ind \<Rightarrow> [scroll_indicator_op ind])"
    by (simp add: settings_ops_def)
  show "show_settings pn m p = draw_screen pn (settings_ops m) p"
    unfolding show_settings_def draw_screen_def cons draw_all_append ind draw_header_def draw_menu_items_eq
    by (simp only: st_bind_assoc)
qed

lemma render_screen_eq: "render_screen pn ts c = draw_screen pn (screen_of ts c)"
proof
  show "render_screen pn ts c p = draw_screen pn (screen_of ts c) p" for p
    by (auto simp: render_screen_def screen_of_def show_temperature_def show_status_def show_radio_info_def
        show_settings_eq split: DisplayState.split RadioState.split option.split prod.split)
qed

section \<open>The frame key determines the screen\<close>

definition decoded_option :: "RadioReading option \<Rightarrow> bool" where
  "decoded_option = pred_option decoded_reading"

lemma temp_to_deci_tenth: "- 32768 \<le> m \<Longrightarrow> m \<le> 32767 \<Longrightarrow> temp_to_deci (f32_div (f32_from_i16 m) (F32 10)) = m"
proof -
  assume m: "- 32768 \<le> m" "m \<le> 32767"
  have "rat_trunc (of_int m) = m" by (simp add: rat_trunc_def)
  with m show ?thesis by (simp add: temp_to_deci_def f32_tenth_times_ten clamp_ord_def)
qed

lemma decoded_temperature_key:
  assumes "decoded_reading r" "decoded_reading r'"
    and "temp_to_deci (rr_temperature_c (rd_inner r)) = temp_to_deci (rr_temperature_c (rd_inner r'))"
  shows "rr_temperature_c (rd_inner r) = rr_temperature_c (rd_inner r')"
  using assms temp_to_deci_tenth by (auto simp: decoded_reading_def)

text \<open>In the settings screen, one event that leaves the key leaves the menu.\<close>

lemma same_key_same_menu:
  assumes ok: "controller_ok c" and st: "dc_state c = RadioScreen Settings" "dc_state c' = RadioScreen Settings"
    and step: "controller_handle_event t e (c, pw) = (cmd, c', pw')"
    and key: "controller_frame_key s c' = controller_frame_key s' c"
  shows "dc_settings_menu c' = dc_settings_menu c"
proof (cases e)
  case (LoopNavigation ev)
  have ok': "controller_ok c'" by (rule controller_event_ok [OF ok step])
  have sel: "vp_selected (viewport (dc_settings_menu c)) < 8" "vp_selected (viewport (dc_settings_menu c')) < 8"
    using ok ok' settings_selected by (auto simp: controller_ok_def)
  have k: "(of_nat (vp_selected (viewport (dc_settings_menu c'))) :: u8) = of_nat (vp_selected (viewport (dc_settings_menu c)))"
    "editing (dc_settings_menu c') = editing (dc_settings_menu c)"
    "dc_pending_radio c' = dc_pending_radio c" "dc_pending_power c' = dc_pending_power c"
    using key st sel by (simp_all add: controller_frame_key_def derive_frame_key_def derive_frame_def
        radio_config_from_def power_config_from_def RadioSettings.equality PowerSettings.equality)
  have small: "unat (of_nat n :: u8) = n" if "n < 8" for n
    using that by (simp add: unat_of_nat take_bit_nat_eq_self)
  have same_sel: "vp_selected (viewport (dc_settings_menu c')) = vp_selected (viewport (dc_settings_menu c))"
    using k(1) small [OF sel(1)] small [OF sel(2)] by simp
  from ok st(1) step [unfolded LoopNavigation] show ?thesis
  proof (cases rule: settings_event_cases)
    case (changed m' i)
    have "settings_menu_ok (dc_settings_menu c)" "settings_menu_ok (dc_settings_menu c')"
      "radio_of (dc_settings_menu c) = radio_of (dc_settings_menu c')"
      "power_of (dc_settings_menu c) = power_of (dc_settings_menu c')"
      using ok ok' k by (simp_all add: controller_ok_def)
    from changed_value_shows [OF this changed(2)] changed(3,4) show ?thesis by simp
  qed (use st k same_sel in auto)
qed (use step in auto)

lemma same_key_same_screen:
  assumes ok: "controller_ok c" and dec: "decoded_option (dc_last_reading c)" "decoded_option (dc_last_reading c2)"
    and step: "controller_handle_event t e (c, pw) = (cmd, c1, pw')"
    and sync: "sync_from_watchers r p c1 = Some c2" "dc_state c2 = dc_state c1" "dc_state c1 = RadioScreen Settings \<longrightarrow> c2 = c1"
    and key: "controller_frame_key s2 c2 = controller_frame_key s c"
  shows "screen_of (map_option f s2) c2 = screen_of (map_option f s) c"
proof -
  have st: "dc_state c2 = dc_state c"
    using key by (cases "dc_state c" rule: to_ui_screen_state.cases; cases "dc_state c2" rule: to_ui_screen_state.cases)
      (auto simp: controller_frame_key_def derive_frame_key_def derive_frame_def split: option.splits)
  show ?thesis
  proof (cases "dc_state c" rule: to_ui_screen_state.cases)
    case 1
    show ?thesis
    proof (cases "dc_last_reading c")
      case None
      with key 1 st have "dc_last_reading c2 = None"
        by (auto simp: controller_frame_key_def derive_frame_key_def derive_frame_def split: option.splits)
      with None 1 st show ?thesis by (simp add: screen_of_def)
    next
      case (Some x)
      with key 1 st obtain y where y: "dc_last_reading c2 = Some y"
        by (auto simp: controller_frame_key_def derive_frame_key_def derive_frame_def split: option.splits)
      have "rr_temperature_c (rd_inner y) = rr_temperature_c (rd_inner x)"
        by (rule decoded_temperature_key) (use key 1 st Some y dec in \<open>simp_all add: decoded_option_def
            controller_frame_key_def derive_frame_key_def derive_frame_def sensor_reading_from_def\<close>)
      with key 1 st Some y show ?thesis
        by (simp add: screen_of_def controller_frame_key_def derive_frame_key_def derive_frame_def sensor_reading_from_def)
    qed
  next
    case 2
    with key st show ?thesis
      by (cases "dc_last_reading c"; cases "dc_last_reading c2")
        (simp_all add: screen_of_def radio_overview_values_def controller_frame_key_def derive_frame_key_def
          derive_frame_def sensor_reading_from_def radio_config_from_def)
  next
    case 3
    with st sync have "c2 = c1" by simp
    with 3 st step key ok have "dc_settings_menu c2 = dc_settings_menu c"
      by (intro same_key_same_menu [OF ok 3]) auto
    with 3 st show ?thesis by (simp add: screen_of_def)
  qed
qed

section \<open>The loop\<close>

text \<open>A panel on which nothing fails.\<close>

definition panel_works :: "'p panel \<Rightarrow> bool" where
  "panel_works pn \<longleftrightarrow> (\<forall>d p. \<exists>p'. pn_draw pn d p = (Inr (), p')) \<and> (\<forall>p. \<exists>p'. pn_flush pn p = (Inr (), p'))"

lemma draw_screen_works:
  assumes "panel_law pn canvas shown" "panel_works pn"
  obtains p' where "draw_screen pn ds p = (Inr (), p')" "shown p' = ds"
proof -
  have all: "\<exists>p'. draw_all pn ds p = (Inr (), p')" for ds p
  proof (induction ds arbitrary: p)
    case (Cons d ds)
    obtain q where "pn_draw pn d p = (Inr (), q)" using assms(2) unfolding panel_works_def by blast
    with Cons show ?case by (simp add: map_err_def)
  qed simp
  obtain q where "draw_all pn ds (pn_clear pn p) = (Inr (), q)" using all by blast
  moreover obtain p' where "pn_flush pn q = (Inr (), p')" using assms(2) unfolding panel_works_def by blast
  ultimately have "draw_screen pn ds p = (Inr (), p')"
    by (simp add: draw_screen_def display_clear_def display_flush_def map_err_def)
  with draw_screen_shown [OF assms(1) this] that show thesis by blast
qed

text \<open>
  The inputs of a quiet round: valid settings in the watches, a reading as the decoder makes it, no
  update on the display, and both clock readings in the same second.
\<close>

definition quiet_input :: "RoundInput \<Rightarrow> bool" where
  "quiet_input inp \<longleftrightarrow> valid_watched (in_radio_settings inp) (in_power_settings inp) \<and>
     (case in_source inp of SourceReading r \<Rightarrow> decoded_reading r | _ \<Rightarrow> True) \<and>
     ota_display_message (unwrap_or (in_ota_state inp) Inactive) = None \<and>
     pred_option (\<lambda>(a, b). a = b) (in_time inp)"

definition shows_current :: "('p \<Rightarrow> DrawOp list) \<Rightarrow> nat option \<Rightarrow> 'p DisplayTask \<Rightarrow> bool" where
  "shows_current shown secs t \<longleftrightarrow>
     dc_last_frame (dt_controller t) = Some (controller_frame_key secs (dt_controller t)) \<and>
     shown (dt_panel t) = screen_of (map_option hms_text secs) (dt_controller t)"

definition task_inv :: "('p \<Rightarrow> DrawOp list) \<Rightarrow> 'p DisplayTask \<Rightarrow> bool" where
  "task_inv shown t \<longleftrightarrow> controller_ok (dt_controller t) \<and> decoded_option (dc_last_reading (dt_controller t)) \<and>
     (dc_last_frame (dt_controller t) = None \<or> (\<exists>secs. shows_current shown secs t))"

lemma controller_event_frame:
  "controller_handle_event t e (c, pw) = (cmd, c', pw') \<Longrightarrow>
    dc_last_frame c' = dc_last_frame c \<and>
    dc_last_reading c' = (case e of LoopReading r \<Rightarrow> Some r | _ \<Rightarrow> dc_last_reading c)"
  by (cases e) (auto simp: Let_def apply_transition_def split: prod.splits if_splits)

lemma mark_rendered_same [simp]:
  "controller_ok (mark_rendered f c) = controller_ok c"
  "dc_last_reading (mark_rendered f c) = dc_last_reading c"
  "controller_frame_key s (mark_rendered f c) = controller_frame_key s c"
  "screen_of ts (mark_rendered f c) = screen_of ts c"
  "dc_last_frame (mark_rendered f c) = Some f"
  by (simp_all add: mark_rendered_def controller_ok_def controller_frame_key_def screen_of_def radio_overview_values_def
      split: DisplayState.split RadioState.split option.split)

lemma quiet_round:
  assumes law: "panel_law pn canvas shown" "panel_works pn" and inv: "task_inv shown t" and q: "quiet_input inp"
  obtains cmd t' where "display_round pn inp t = Some (cmd, t')" "task_inv shown t'"
    "next_display_loop_event (in_source inp) \<noteq> LoopIgnore \<Longrightarrow> shows_current shown (map_option fst (in_time inp)) t'"
proof (cases "next_display_loop_event (in_source inp) = LoopIgnore")
  case True
  with inv that show thesis by (simp add: display_round_def)
next
  case False
  let ?e = "next_display_loop_event (in_source inp)" and ?c = "dt_controller t"
    and ?secs = "map_option fst (in_time inp)"
  have ok: "controller_ok ?c" and dec: "decoded_option (dc_last_reading ?c)" using inv by (simp_all add: task_inv_def)
  obtain cmd c1 pw where s: "controller_handle_event (in_uptime inp) ?e (?c, dt_power t) = (cmd, c1, pw)"
    by (metis prod.exhaust)
  have ok1: "controller_ok c1" by (rule controller_event_ok [OF ok s])
  have w: "valid_watched (in_radio_settings inp) (in_power_settings inp)" using q by (simp add: quiet_input_def)
  obtain c2 where c2:
    "sync_from_watchers (in_radio_settings inp) (in_power_settings inp) c1 = Some c2" "controller_ok c2"
    "dc_state c2 = dc_state c1" "dc_last_reading c2 = dc_last_reading c1" "dc_last_frame c2 = dc_last_frame c1"
    "dc_state c1 = RadioScreen Settings \<longrightarrow> c2 = c1"
    by (rule sync_from_watchers_ok [OF ok1 w])
  have dec2: "decoded_option (dc_last_reading c2)"
    using controller_event_frame [OF s] dec q c2(4)
    by (cases "in_source inp") (auto simp: decoded_option_def quiet_input_def split: option.splits)
  have ts: "map_option (\<lambda>x. hms_text (snd x)) (in_time inp) = map_option hms_text ?secs"
    using q by (cases "in_time inp") (auto simp: quiet_input_def)
  have msg: "ota_display_message (unwrap_or (in_ota_state inp) Inactive) = None" using q by (simp add: quiet_input_def)
  let ?frame = "controller_frame_key ?secs c2"
  show thesis
  proof (cases "should_render ?frame c2")
    case True
    obtain p' where p': "draw_screen pn (screen_of (map_option hms_text ?secs) c2) (dt_panel t) = (Inr (), p')"
      "shown p' = screen_of (map_option hms_text ?secs) c2"
      by (rule draw_screen_works [OF law])
    let ?t = "\<lparr>dt_controller = mark_rendered ?frame c2, dt_power = pw, dt_panel = p'\<rparr>"
    have "display_round pn inp t = Some (cmd, ?t)"
      using False s c2(1) msg True p'(1) by (simp add: display_round_def Let_def render_screen_eq ts)
    moreover have "shows_current shown ?secs ?t" using p'(2) by (simp add: shows_current_def)
    ultimately show thesis using c2(2) dec2 by (intro that) (auto simp: task_inv_def)
  next
    case False2: False
    then have same: "dc_last_frame ?c = Some ?frame"
      using c2(5) controller_event_frame [OF s] by (simp add: should_render_def)
    then obtain secs where secs: "shows_current shown secs t" using inv by (auto simp: task_inv_def)
    let ?t = "\<lparr>dt_controller = c2, dt_power = pw, dt_panel = dt_panel t\<rparr>"
    have key: "?frame = controller_frame_key secs ?c" using secs same by (simp add: shows_current_def)
    have "screen_of (map_option hms_text ?secs) c2 = screen_of (map_option hms_text secs) ?c"
      by (rule same_key_same_screen [OF ok dec dec2 s c2(1,3) _ key]) (rule c2(6))
    then have "shows_current shown ?secs ?t"
      using secs same c2(5) controller_event_frame [OF s] by (simp add: shows_current_def)
    moreover have "display_round pn inp t = Some (cmd, ?t)"
      using False s c2(1) msg False2 by (simp add: display_round_def Let_def)
    ultimately show thesis using c2(2) dec2 by (intro that) (auto simp: task_inv_def)
  qed
qed

text \<open>Rounds in sequence, up to a panic.\<close>

fun display_run :: "'p panel \<Rightarrow> RoundInput list \<Rightarrow> 'p DisplayTask \<Rightarrow> 'p DisplayTask option" where
  "display_run pn [] t = Some t"
| "display_run pn (inp # is) t = (case display_round pn inp t of None \<Rightarrow> None | Some (cmd, t) \<Rightarrow> display_run pn is t)"

lemma quiet_run:
  assumes law: "panel_law pn canvas shown" "panel_works pn"
  shows "task_inv shown t \<Longrightarrow> list_all quiet_input is \<Longrightarrow> \<exists>t'. display_run pn is t = Some t' \<and> task_inv shown t'"
proof (induction "is" arbitrary: t)
  case (Cons inp "is")
  from Cons.prems have q: "quiet_input inp" by simp
  obtain cmd t' where r: "display_round pn inp t = Some (cmd, t')" "task_inv shown t'"
    by (rule quiet_round [OF law Cons.prems(1) q])
  with Cons.IH [OF r(2)] Cons.prems(2) show ?case by simp
qed simp

lemma display_run_append:
  "display_run pn (is @ js) t = Option.bind (display_run pn is t) (display_run pn js)"
  by (induction "is" arbitrary: t) (auto split: option.splits)

lemma display_start:
  assumes "valid_watched r p"
  obtains t where "display_task_start pn r p pw pl = Some t" "task_inv shown t"
proof -
  obtain c where "controller_new r p = Some c" "controller_ok c" "dc_last_reading c = None" "dc_last_frame c = None"
    by (rule controller_new_ok [OF assms])
  then show thesis
    by (intro that) (auto simp: display_task_start_def Let_def task_inv_def decoded_option_def)
qed

text \<open>
  C13: In a quiet run the screen is current. Take a panel whose operations never fail, valid settings
  at the start, and a run in which no round has an update message to show, the watches hold valid
  settings, readings are as the decoder makes them, and the two clock readings of a round fall in the
  same second. Then the display task does not panic, over any such sequence of readings, presses,
  ticks and setting changes, and after a round that is not ignored the panel shows exactly what a
  fresh drawing of the current state would: the screen, the reading, the menu and the time of that
  round, although a round draws only when its frame key differs from that of the last drawing. Outside
  these runs it can be false: \<open>update_message_stays\<close> below is a round with an update message after
  which the screen is out of date.
\<close>
theorem screen_current_in_quiet_runs:
  assumes "panel_law pn canvas shown" "panel_works pn" "valid_watched r p"
    and "list_all quiet_input (is @ [inp])" "next_display_loop_event (in_source inp) \<noteq> LoopIgnore"
  shows "\<exists>t t'. display_task_start pn r p pw pl = Some t \<and> display_run pn (is @ [inp]) t = Some t' \<and>
    shown (dt_panel t') =
      screen_of (map_option (\<lambda>s. hms_text (fst s)) (in_time inp)) (dt_controller t')"
proof -
  obtain t where t: "display_task_start pn r p pw pl = Some t" "task_inv shown t"
    by (rule display_start [OF assms(3)])
  obtain t1 where t1: "display_run pn is t = Some t1" "task_inv shown t1"
    using quiet_run [OF assms(1,2) t(2), of "is"] assms(4) by auto
  have q: "quiet_input inp" using assms(4) by simp
  obtain cmd t2 where t2: "display_round pn inp t1 = Some (cmd, t2)" "shows_current shown (map_option fst (in_time inp)) t2"
    using quiet_round [OF assms(1,2) t1(2) q] assms(5) by metis
  then have "display_run pn (is @ [inp]) t = Some t2" using t1(1) by (simp add: display_run_append)
  moreover have "map_option hms_text (map_option fst (in_time inp)) = map_option (\<lambda>s. hms_text (fst s)) (in_time inp)"
    by (simp add: option.map_comp comp_def)
  ultimately show ?thesis using t(1) t2(2) by (auto simp: shows_current_def)
qed

definition list_panel :: "(DrawOp list \<times> DrawOp list) panel" where
  "list_panel = \<lparr>pn_init = (\<lambda>p. (Inr (), p)), pn_clear = (\<lambda>(c, s). ([], s)),
     pn_draw = (\<lambda>d (c, s). (Inr (), (c @ [d], s))), pn_flush = (\<lambda>(c, s). (Inr (), (c, c)))\<rparr>"

definition tick_input :: "OtaState option \<Rightarrow> RoundInput" where
  "tick_input ota = \<lparr>in_uptime = 0, in_source = SourceTimeout, in_radio_settings = None, in_power_settings = None,
     in_ota_state = ota, in_time = None\<rparr>"

definition press_input :: "App_Bus.UiEvent \<Rightarrow> RoundInput" where
  "press_input e = (tick_input None)\<lparr>in_source := SourceAppEvent (UiInput (Navigation e))\<rparr>"

lemma list_panel_law: "panel_law list_panel fst snd \<and> panel_works list_panel"
  by (auto simp: panel_law_def panel_works_def list_panel_def)

theorem screen_current_in_quiet_runs_witness:
  "\<exists>t t'. display_task_start list_panel None None (power_after_reset 0) ([], []) = Some t \<and>
    display_run list_panel [press_input App_Bus.Select, press_input App_Bus.NextScreen] t = Some t' \<and>
    snd (dt_panel t') = screen_of None (dt_controller t')"
  using screen_current_in_quiet_runs [of list_panel fst snd None None "[press_input App_Bus.Select]" "press_input App_Bus.NextScreen"
      "power_after_reset 0" "([], [])"] list_panel_law
  by (simp add: quiet_input_def press_input_def tick_input_def valid_watched_def unwrap_or_def)

text \<open>
  What a round with an update message leaves behind: the message stays on the screen after the
  update has ended, as long as the frame key stays what it was before, because showing the message
  does not invalidate the remembered key. With no time or reading to show, nothing changes the key.
\<close>

lemma update_message_stays:
  assumes law: "panel_law pn canvas shown" "panel_works pn"
    and cur: "shows_current shown None t"
  shows "\<exists>t1 t2. display_round pn (tick_input (Some Downloading)) t = Some (None, t1) \<and>
    display_round pn (tick_input (Some Inactive)) t1 = Some (None, t2) \<and>
    shown (dt_panel t2) = status_ops ''OTA download...'' \<and>
    dt_controller t2 = dt_controller t"
proof -
  obtain p' where p': "draw_screen pn (status_ops ''OTA download...'') (dt_panel t) = (Inr (), p')"
    "shown p' = status_ops ''OTA download...''" by (rule draw_screen_works [OF law])
  have sync: "sync_from_watchers None None c = Some c" for c by (simp add: sync_from_watchers_def)
  let ?t = "\<lparr>dt_controller = dt_controller t, dt_power = dt_power t, dt_panel = p'\<rparr>"
  have "display_round pn (tick_input (Some Downloading)) t = Some (None, ?t)"
    by (simp add: display_round_def tick_input_def sync show_status_def p'(1) unwrap_or_def)
  moreover have "display_round pn (tick_input (Some Inactive)) ?t = Some (None, ?t)"
    using cur by (simp add: display_round_def tick_input_def sync unwrap_or_def should_render_def shows_current_def Let_def)
  ultimately show ?thesis using p'(2) by (intro exI [of _ ?t]) simp
qed

text \<open>Presses are accepted only while no update is active.\<close>

lemma ui_input_gate: "ui_input_step ota e \<noteq> None \<longleftrightarrow> unwrap_or ota Inactive = Inactive"
  by (simp add: ui_input_step_def is_ui_input_allowed_def)

end
