(* ===== verification/Http_Body.thy ===== *)
theory Http_Body
  imports Ota_Flash
begin

text \<open>
  The readers of response bodies of the HTTP client, \<open>tools/reqwless/src\<close>: the buffering reader
  (\<open>reader.rs\<close>), the bodies of known length (\<open>response/fixed_length.rs\<close>) and in chunks
  (\<open>response/chunked.rs\<close>), and their union (\<open>BodyReader\<close> of \<open>response/mod.rs\<close>). The connection is a
  parameter. A read into a buffer returns the bytes it put there; the contract of a reader is the
  locale \<open>raw_reader\<close>, over the bytes that are still to come.
\<close>

section \<open>Errors\<close>

fun error_kind :: "HttpError \<Rightarrow> NetworkErrorKind" where
  "error_kind (NetworkError kind) = kind"
| "error_kind ConnectionAborted = NetConnectionAborted"
| "error_kind other = NetOther"

datatype ReadExactError = UnexpectedEof | ReadOther NetworkErrorKind

fun from_read_exact_error :: "ReadExactError \<Rightarrow> HttpError" where
  "from_read_exact_error UnexpectedEof = ConnectionAborted"
| "from_read_exact_error (ReadOther e) = NetworkError e"

section \<open>Connections and readers\<close>

type_synonym 'r read_fun = "'r \<Rightarrow> nat \<Rightarrow> (NetworkErrorKind + u8 list) \<times> 'r"
type_synonym 'r fill_fun = "'r \<Rightarrow> (NetworkErrorKind + u8 list) \<times> 'r"

text \<open>
  What the client uses of a connection (\<open>Read\<close> and \<open>TryBufRead\<close>): reading into a buffer of a length,
  and, for a TLS connection only, the use of its own buffer.
\<close>

record 'c connection =
  conn_read :: "'c read_fun"
  conn_fill_buf :: "'c fill_fun option"
  conn_consume :: "'c \<Rightarrow> nat \<Rightarrow> 'c"

record 'r reader_ops =
  ro_read :: "'r read_fun"
  ro_fill_buf :: "'r fill_fun"
  ro_consume :: "'r \<Rightarrow> nat \<Rightarrow> 'r"

text \<open>The provided method \<open>Read::read_exact\<close>: reads until \<open>n\<close> bytes are there.\<close>

function read_exact_with :: "'r read_fun \<Rightarrow> 'r \<Rightarrow> nat \<Rightarrow> (ReadExactError + u8 list) \<times> 'r" where
  "read_exact_with rd r n =
     (if n = 0 then (Inr [], r)
      else case rd r n of
        (Inl e, r) \<Rightarrow> (Inl (ReadOther e), r)
      | (Inr bs, r) \<Rightarrow>
          if bs = [] then (Inl UnexpectedEof, r)
          else st_bind (read_exact_with rd r (n - length bs)) (\<lambda>cs r. (Inr (bs @ cs), r)))"
  by pat_completeness auto
termination by (relation "measure (\<lambda>(_, _, n). n)") (auto simp: length_greater_0_conv [symmetric] simp del: length_greater_0_conv)

declare read_exact_with.simps [simp del]

section \<open>The buffering reader\<close>

record ReadBuffer =
  rb_buffer :: "u8 list"
  rb_loaded :: nat

definition read_buffer_consume :: "ReadBuffer \<Rightarrow> nat \<Rightarrow> nat \<times> ReadBuffer" where
  "read_buffer_consume rb amt =
     (let to_consume = min amt (rb_loaded rb)
      in (amt - to_consume,
          rb\<lparr>rb_buffer := splice (rb_buffer rb) 0 (drop to_consume (take (rb_loaded rb) (rb_buffer rb))),
             rb_loaded := rb_loaded rb - to_consume\<rparr>))"

definition read_buffer_read :: "ReadBuffer \<Rightarrow> nat \<Rightarrow> u8 list \<times> ReadBuffer" where
  "read_buffer_read rb n =
     (let amt = min (rb_loaded rb) n in (take amt (rb_buffer rb), snd (read_buffer_consume rb amt)))"

definition read_buffer_fill_buf :: "ReadBuffer \<Rightarrow> u8 list" where
  "read_buffer_fill_buf rb = take (rb_loaded rb) (rb_buffer rb)"

record 'c BufferingReader =
  br_buffer :: ReadBuffer
  br_stream :: 'c
  br_force_local_buffer :: bool

definition buffering_new :: "u8 list \<Rightarrow> nat \<Rightarrow> 'c \<Rightarrow> 'c BufferingReader" where
  "buffering_new buf loaded stream =
     \<lparr>br_buffer = \<lparr>rb_buffer = buf, rb_loaded = loaded\<rparr>, br_stream = stream, br_force_local_buffer = False\<rparr>"

definition buffering_read :: "'c connection \<Rightarrow> 'c BufferingReader read_fun" where
  "buffering_read conn br n =
     (if rb_loaded (br_buffer br) \<noteq> 0 then
        case read_buffer_read (br_buffer br) n of (bs, rb) \<Rightarrow> (Inr bs, br\<lparr>br_buffer := rb\<rparr>)
      else case conn_read conn (br_stream br) n of (res, s) \<Rightarrow> (res, br\<lparr>br_stream := s\<rparr>))"

text \<open>The buffer of the connection is asked twice; only the second answer is used.\<close>

definition buffering_fill_buf :: "'c connection \<Rightarrow> 'c BufferingReader fill_fun" where
  "buffering_fill_buf conn br =
     (let rb = br_buffer br
      in if rb_loaded rb \<noteq> 0 then (Inr (read_buffer_fill_buf rb), br)
         else case (if br_force_local_buffer br then None else conn_fill_buf conn) of
           Some try_fill_buf \<Rightarrow>
             (case try_fill_buf (snd (try_fill_buf (br_stream br))) of (res, s) \<Rightarrow> (res, br\<lparr>br_stream := s\<rparr>))
         | None \<Rightarrow>
             (case conn_read conn (br_stream br) (length (rb_buffer rb)) of
                (Inl e, s) \<Rightarrow> (Inl e, br\<lparr>br_stream := s\<rparr>)
              | (Inr bs, s) \<Rightarrow>
                  let rb = rb\<lparr>rb_buffer := splice (rb_buffer rb) 0 bs, rb_loaded := length bs\<rparr>
                  in (Inr (read_buffer_fill_buf rb), br\<lparr>br_buffer := rb, br_stream := s\<rparr>)))"

definition buffering_consume :: "'c connection \<Rightarrow> 'c BufferingReader \<Rightarrow> nat \<Rightarrow> 'c BufferingReader" where
  "buffering_consume conn br amt =
     (case read_buffer_consume (br_buffer br) amt of
        (unconsumed, rb) \<Rightarrow>
          let br = br\<lparr>br_buffer := rb\<rparr>
          in if 0 < unconsumed then br\<lparr>br_stream := conn_consume conn (br_stream br) unconsumed\<rparr> else br)"

definition buffering_ops :: "'c connection \<Rightarrow> 'c BufferingReader reader_ops" where
  "buffering_ops conn =
     \<lparr>ro_read = buffering_read conn, ro_fill_buf = buffering_fill_buf conn, ro_consume = buffering_consume conn\<rparr>"

section \<open>Bodies of known length\<close>

text \<open>\<open>remaining\<close> is a \<open>usize\<close>, 32 bits wide on the target; its subtraction wraps in the release profile.\<close>

record 'r FixedLengthBodyReader =
  fl_raw_body :: 'r
  fl_remaining :: u32

definition fixed_read :: "'r reader_ops \<Rightarrow> 'r FixedLengthBodyReader \<Rightarrow> nat \<Rightarrow> (HttpError + u8 list) \<times> 'r FixedLengthBodyReader" where
  "fixed_read ops fl n =
     (if fl_remaining fl = 0 then (Inr [], fl)
      else case ro_read ops (fl_raw_body fl) n of
        (Inl e, r) \<Rightarrow> (Inl (NetworkError e), fl\<lparr>fl_raw_body := r\<rparr>)
      | (Inr bs, r) \<Rightarrow> (Inr bs, fl\<lparr>fl_raw_body := r, fl_remaining := fl_remaining fl - of_nat (length bs)\<rparr>))"

definition fixed_fill_buf :: "'r reader_ops \<Rightarrow> 'r FixedLengthBodyReader \<Rightarrow> (HttpError + u8 list) \<times> 'r FixedLengthBodyReader" where
  "fixed_fill_buf ops fl =
     (if fl_remaining fl = 0 then (Inr [], fl)
      else case ro_fill_buf ops (fl_raw_body fl) of
        (Inl e, r) \<Rightarrow> (Inl (NetworkError e), fl\<lparr>fl_raw_body := r\<rparr>)
      | (Inr data, r) \<Rightarrow>
          let loaded = take (unat (fl_remaining fl)) data
          in (if loaded = [] then Inl ConnectionAborted else Inr loaded, fl\<lparr>fl_raw_body := r\<rparr>))"

definition fixed_consume :: "'r reader_ops \<Rightarrow> 'r FixedLengthBodyReader \<Rightarrow> nat \<Rightarrow> 'r FixedLengthBodyReader" where
  "fixed_consume ops fl amt =
     (let amt = min amt (unat (fl_remaining fl))
      in \<lparr>fl_raw_body = ro_consume ops (fl_raw_body fl) amt, fl_remaining = fl_remaining fl - of_nat amt\<rparr>)"

section \<open>Bodies in chunks\<close>

text \<open>
  The \<open>hex\<close> crate is a parameter. Its documented behaviour: two digits for a byte, the higher one
  first and in lower case; decoding takes both cases and fails on anything else.
\<close>

record hex_lib =
  hex_encode :: "u8 list \<Rightarrow> u8 list"
  hex_decode :: "u8 list \<Rightarrow> u8 list option"

datatype ChunkState = NoChunk | NotEmpty u32 | Empty

fun chunk_state_consume :: "ChunkState \<Rightarrow> nat \<Rightarrow> nat \<times> ChunkState" where
  "chunk_state_consume (NotEmpty remaining) amt =
     (let consumed = min (of_nat amt) remaining in (unat consumed, NotEmpty (remaining - consumed)))"
| "chunk_state_consume s amt = (0, s)"

fun chunk_state_len :: "ChunkState \<Rightarrow> nat" where
  "chunk_state_len (NotEmpty n) = unat n"
| "chunk_state_len s = 0"

record 'r ChunkedBodyReader =
  ck_raw_body :: 'r
  ck_chunk_remaining :: ChunkState

definition chunked_new :: "'r \<Rightarrow> 'r ChunkedBodyReader" where
  "chunked_new raw_body = \<lparr>ck_raw_body = raw_body, ck_chunk_remaining = NoChunk\<rparr>"

definition chunked_is_done :: "'r ChunkedBodyReader \<Rightarrow> bool" where
  "chunked_is_done ck \<longleftrightarrow> ck_chunk_remaining ck = Empty"

text \<open>The line with the length, byte by byte, with the places that are left in the buffer of ten bytes.\<close>

fun chunk_line_loop :: "'r read_fun \<Rightarrow> 'r \<Rightarrow> u8 list \<Rightarrow> nat \<Rightarrow> (HttpError + u8 list) \<times> 'r" where
  "chunk_line_loop rd r header_buf 0 = (Inl CodecError, r)"
| "chunk_line_loop rd r header_buf (Suc places) =
     (case read_exact_with rd r 1 of
        (Inl e, r) \<Rightarrow> (Inl (NetworkError (error_kind (from_read_exact_error e))), r)
      | (Inr bytes, r) \<Rightarrow>
          let byte = hd bytes
          in if byte \<noteq> 10 then chunk_line_loop rd r (header_buf @ [byte]) places
             else if header_buf = [] \<or> last header_buf \<noteq> 13 then (Inl CodecError, r)
             else (Inr header_buf, r))"

definition read_next_chunk_length ::
  "hex_lib \<Rightarrow> 'r read_fun \<Rightarrow> 'r ChunkedBodyReader \<Rightarrow> (HttpError + unit) \<times> 'r ChunkedBodyReader" where
  "read_next_chunk_length hx rd ck =
     (case chunk_line_loop rd (ck_raw_body ck) [] 10 of
        (Inl e, r) \<Rightarrow> (Inl e, ck\<lparr>ck_raw_body := r\<rparr>)
      | (Inr header_buf, r) \<Rightarrow>
          let ck = ck\<lparr>ck_raw_body := r\<rparr>;
              hex_digits = length header_buf - 1;
              hex = replicate (8 - hex_digits) 48 @ take hex_digits header_buf
          in case hex_decode hx hex of
               None \<Rightarrow> (Inl CodecError, ck)
             | Some bytes \<Rightarrow>
                 let chunk_length = of_nat (be_value bytes)
                 in (Inr (), ck\<lparr>ck_chunk_remaining := if chunk_length = 0 then Empty else NotEmpty chunk_length\<rparr>))"

definition read_chunk_end :: "'r read_fun \<Rightarrow> 'r ChunkedBodyReader \<Rightarrow> (HttpError + unit) \<times> 'r ChunkedBodyReader" where
  "read_chunk_end rd ck =
     (case read_exact_with rd (ck_raw_body ck) 2 of
        (Inl e, r) \<Rightarrow> (Inl (from_read_exact_error e), ck\<lparr>ck_raw_body := r\<rparr>)
      | (Inr newline_buf, r) \<Rightarrow>
          (if newline_buf \<noteq> [13, 10] then Inl CodecError else Inr (), ck\<lparr>ck_raw_body := r\<rparr>))"

definition handle_chunk_boundary ::
  "hex_lib \<Rightarrow> 'r read_fun \<Rightarrow> 'r ChunkedBodyReader \<Rightarrow> (HttpError + nat) \<times> 'r ChunkedBodyReader" where
  "handle_chunk_boundary hx rd ck =
     (let last_chunk = (\<lambda>ck. if ck_chunk_remaining ck = Empty then read_chunk_end rd ck else (Inr (), ck));
          remaining = (\<lambda>_ ck. (Inr (chunk_state_len (ck_chunk_remaining ck)), ck))
      in case ck_chunk_remaining ck of
           NoChunk \<Rightarrow> st_bind (st_bind (read_next_chunk_length hx rd ck) (\<lambda>_. last_chunk)) remaining
         | NotEmpty n \<Rightarrow>
             if n = 0 then
               st_bind (st_bind (st_bind (read_chunk_end rd ck) (\<lambda>_. read_next_chunk_length hx rd)) (\<lambda>_. last_chunk))
                 remaining
             else (Inr (unat n), ck)
         | Empty \<Rightarrow> (Inr 0, ck))"

definition chunked_read ::
  "hex_lib \<Rightarrow> 'r reader_ops \<Rightarrow> 'r ChunkedBodyReader \<Rightarrow> nat \<Rightarrow> (HttpError + u8 list) \<times> 'r ChunkedBodyReader" where
  "chunked_read hx ops ck n =
     st_bind (handle_chunk_boundary hx (ro_read ops) ck) (\<lambda>remaining ck.
       case ro_read ops (ck_raw_body ck) (min n remaining) of
         (Inl e, r) \<Rightarrow> (Inl (NetworkError e), ck\<lparr>ck_raw_body := r\<rparr>)
       | (Inr bs, r) \<Rightarrow>
           (Inr bs, \<lparr>ck_raw_body = r,
              ck_chunk_remaining = snd (chunk_state_consume (ck_chunk_remaining ck) (length bs))\<rparr>))"

definition chunked_fill_buf ::
  "hex_lib \<Rightarrow> 'r reader_ops \<Rightarrow> 'r ChunkedBodyReader \<Rightarrow> (HttpError + u8 list) \<times> 'r ChunkedBodyReader" where
  "chunked_fill_buf hx ops ck =
     st_bind (handle_chunk_boundary hx (ro_read ops) ck) (\<lambda>remaining ck.
       if remaining = 0 then (Inr [], ck)
       else case ro_fill_buf ops (ck_raw_body ck) of
         (Inl e, r) \<Rightarrow> (Inl (NetworkError e), ck\<lparr>ck_raw_body := r\<rparr>)
       | (Inr buf, r) \<Rightarrow> (Inr (take remaining buf), ck\<lparr>ck_raw_body := r\<rparr>))"

definition chunked_consume :: "'r reader_ops \<Rightarrow> 'r ChunkedBodyReader \<Rightarrow> nat \<Rightarrow> 'r ChunkedBodyReader" where
  "chunked_consume ops ck amt =
     (case chunk_state_consume (ck_chunk_remaining ck) amt of
        (consumed, s) \<Rightarrow> \<lparr>ck_raw_body = ro_consume ops (ck_raw_body ck) consumed, ck_chunk_remaining = s\<rparr>)"

text \<open>
  Reading a whole body in chunks into the buffer of the reader: the bytes passed over are in front
  of the part of the buffer the reader has. The loop has no bound of its own, so it may not return.
\<close>

partial_function (option) chunked_to_end_loop ::
  "hex_lib \<Rightarrow> 'c connection \<Rightarrow> u8 list \<Rightarrow> 'c BufferingReader ChunkedBodyReader \<Rightarrow> nat \<Rightarrow>
   (HttpError + u8 list \<times> nat \<times> 'c BufferingReader ChunkedBodyReader) option" where
  "chunked_to_end_loop hx conn passed ck len =
     (if rb_buffer (br_buffer (ck_raw_body ck)) = [] then Some (Inr (passed, len, ck))
      else case chunked_fill_buf hx (buffering_ops conn) ck of
        (Inl e, ck) \<Rightarrow> Some (Inl e)
      | (Inr bs, ck) \<Rightarrow>
          let br = ck_raw_body ck; rb = br_buffer br;
              was_loaded = rb_loaded rb; fake_loaded = min (length bs) was_loaded;
              ck = chunked_consume (buffering_ops conn)
                (ck\<lparr>ck_raw_body := br\<lparr>br_buffer := rb\<lparr>rb_loaded := fake_loaded\<rparr>\<rparr>\<rparr>) (length bs)
          in if chunked_is_done ck then Some (Inr (passed, len + length bs, ck))
             else
               let br = ck_raw_body ck; rb = br_buffer br;
                   consumed_from_buffer = fake_loaded - rb_loaded rb
               in chunked_to_end_loop hx conn (passed @ take consumed_from_buffer (rb_buffer rb))
                    (ck\<lparr>ck_raw_body := br\<lparr>br_buffer := \<lparr>rb_buffer = drop consumed_from_buffer (rb_buffer rb),
                       rb_loaded = was_loaded - consumed_from_buffer\<rparr>\<rparr>\<rparr>)
                    (len + length bs))"

definition chunked_read_to_end ::
  "hex_lib \<Rightarrow> 'c connection \<Rightarrow> 'c BufferingReader ChunkedBodyReader \<Rightarrow> (HttpError + u8 list) option" where
  "chunked_read_to_end hx conn ck =
     (case chunked_to_end_loop hx conn [] (ck\<lparr>ck_raw_body := (ck_raw_body ck)\<lparr>br_force_local_buffer := True\<rparr>\<rparr>) 0 of
        None \<Rightarrow> None
      | Some (Inl e) \<Rightarrow> Some (Inl e)
      | Some (Inr (passed, len, ck)) \<Rightarrow>
          if \<not> chunked_is_done ck then Some (Inl BufferTooSmall)
          else Some (Inr (take len (passed @ rb_buffer (br_buffer (ck_raw_body ck))))))"

section \<open>The body of a response\<close>

datatype 'r BodyReader =
    BodyEmpty | BodyFixedLength "'r FixedLengthBodyReader" | BodyChunked "'r ChunkedBodyReader" | BodyToEnd 'r

fun body_is_done :: "'r BodyReader \<Rightarrow> bool" where
  "body_is_done BodyEmpty = True"
| "body_is_done (BodyFixedLength rdr) = (fl_remaining rdr = 0)"
| "body_is_done (BodyChunked rdr) = chunked_is_done rdr"
| "body_is_done (BodyToEnd _) = False"

fun body_read :: "hex_lib \<Rightarrow> 'r reader_ops \<Rightarrow> 'r BodyReader \<Rightarrow> nat \<Rightarrow> (HttpError + u8 list) \<times> 'r BodyReader" where
  "body_read hx ops BodyEmpty n = (Inr [], BodyEmpty)"
| "body_read hx ops (BodyFixedLength rdr) n = (case fixed_read ops rdr n of (res, rdr) \<Rightarrow> (res, BodyFixedLength rdr))"
| "body_read hx ops (BodyChunked rdr) n = (case chunked_read hx ops rdr n of (res, rdr) \<Rightarrow> (res, BodyChunked rdr))"
| "body_read hx ops (BodyToEnd conn) n = (case ro_read ops conn n of (res, conn) \<Rightarrow> (result_map_err NetworkError res, BodyToEnd conn))"

fun body_fill_buf :: "hex_lib \<Rightarrow> 'r reader_ops \<Rightarrow> 'r BodyReader \<Rightarrow> (HttpError + u8 list) \<times> 'r BodyReader" where
  "body_fill_buf hx ops BodyEmpty = (Inr [], BodyEmpty)"
| "body_fill_buf hx ops (BodyFixedLength rdr) = (case fixed_fill_buf ops rdr of (res, rdr) \<Rightarrow> (res, BodyFixedLength rdr))"
| "body_fill_buf hx ops (BodyChunked rdr) = (case chunked_fill_buf hx ops rdr of (res, rdr) \<Rightarrow> (res, BodyChunked rdr))"
| "body_fill_buf hx ops (BodyToEnd conn) = (case ro_fill_buf ops conn of (res, conn) \<Rightarrow> (result_map_err NetworkError res, BodyToEnd conn))"

fun body_consume :: "'r reader_ops \<Rightarrow> 'r BodyReader \<Rightarrow> nat \<Rightarrow> 'r BodyReader" where
  "body_consume ops BodyEmpty amt = BodyEmpty"
| "body_consume ops (BodyFixedLength rdr) amt = BodyFixedLength (fixed_consume ops rdr amt)"
| "body_consume ops (BodyChunked rdr) amt = BodyChunked (chunked_consume ops rdr amt)"
| "body_consume ops (BodyToEnd conn) amt = BodyToEnd (ro_consume ops conn amt)"

text \<open>Reading into a buffer with \<open>n\<close> bytes left, until it is full or a read returns nothing.\<close>

function body_read_loop :: "hex_lib \<Rightarrow> 'r reader_ops \<Rightarrow> 'r BodyReader \<Rightarrow> nat \<Rightarrow> (HttpError + u8 list) \<times> 'r BodyReader" where
  "body_read_loop hx ops b n =
     (if n = 0 then (Inr [], b)
      else st_bind (body_read hx ops b n) (\<lambda>bs b.
        if bs = [] then (Inr [], b)
        else st_bind (body_read_loop hx ops b (n - length bs)) (\<lambda>cs b. (Inr (bs @ cs), b))))"
  by pat_completeness auto
termination by (relation "measure (\<lambda>(_, _, _, n). n)") (auto simp: length_greater_0_conv [symmetric] simp del: length_greater_0_conv)

declare body_read_loop.simps [simp del]

definition body_read_to_end ::
  "hex_lib \<Rightarrow> 'r reader_ops \<Rightarrow> 'r BodyReader \<Rightarrow> nat \<Rightarrow> (HttpError + u8 list) \<times> 'r BodyReader" where
  "body_read_to_end hx ops b n =
     st_bind (body_read_loop hx ops b n) (\<lambda>bs b.
       if body_is_done b then (Inr bs, b)
       else case b of
         BodyToEnd conn \<Rightarrow>
           if length bs = n then
             (case ro_read ops conn 1 of
                (Inr [_], conn) \<Rightarrow> (Inl BufferTooSmall, BodyToEnd conn)
              | (_, conn) \<Rightarrow> (Inr bs, BodyToEnd conn))
           else (Inr bs, b)
       | _ \<Rightarrow> (Inl BufferTooSmall, b))"

text \<open>Reading and dropping 128 bytes at a time until a read returns nothing, with the number of bytes.\<close>

partial_function (option) body_discard_loop ::
  "hex_lib \<Rightarrow> 'r reader_ops \<Rightarrow> 'r BodyReader \<Rightarrow> nat \<Rightarrow> ((HttpError + nat) \<times> 'r BodyReader) option" where
  "body_discard_loop hx ops b body_len =
     (case body_read hx ops b 128 of
        (Inl e, b) \<Rightarrow> Some (Inl e, b)
      | (Inr bs, b) \<Rightarrow> if bs = [] then Some (Inr body_len, b) else body_discard_loop hx ops b (body_len + length bs))"

definition body_discard :: "hex_lib \<Rightarrow> 'r reader_ops \<Rightarrow> 'r BodyReader \<Rightarrow> ((HttpError + nat) \<times> 'r BodyReader) option" where
  "body_discard hx ops b = body_discard_loop hx ops b 0"

end
