(* ===== verification/Http_Writer.thy ===== *)
theory Http_Writer
  imports Http_Body "HOL-Library.Log_Nat"
begin

text \<open>
  The writers of request bodies of the HTTP client, \<open>tools/reqwless/src/body_writer\<close>: bodies of known
  length (\<open>fixed.rs\<close>), in chunks (\<open>chunked.rs\<close>) and in chunks through a buffer
  (\<open>buffering_chunked.rs\<close>). A panic (a failed assertion or a slice out of range) is \<open>None\<close>. The words
  of the target have 32 bits, so a \<open>usize\<close> has four bytes.
\<close>

section \<open>Writers\<close>

record 'w writer_ops =
  wo_write :: "'w \<Rightarrow> u8 list \<Rightarrow> (NetworkErrorKind + nat) \<times> 'w"
  wo_write_all :: "'w \<Rightarrow> u8 list \<Rightarrow> (NetworkErrorKind + unit) \<times> 'w"
  wo_flush :: "'w \<Rightarrow> (NetworkErrorKind + unit) \<times> 'w"

definition NEWLINE :: "u8 list" where "NEWLINE = [13, 10]"
definition EMPTY_CHUNK :: "u8 list" where "EMPTY_CHUNK = [48, 13, 10, 13, 10]"

section \<open>Bodies of known length\<close>

record 'w FixedBodyWriter =
  fw_conn :: 'w
  fw_written :: nat

definition fixed_writer_new :: "'w \<Rightarrow> 'w FixedBodyWriter" where
  "fixed_writer_new conn = \<lparr>fw_conn = conn, fw_written = 0\<rparr>"

definition fixed_write :: "'w writer_ops \<Rightarrow> 'w FixedBodyWriter \<Rightarrow> u8 list \<Rightarrow> (NetworkErrorKind + nat) \<times> 'w FixedBodyWriter" where
  "fixed_write wo fw buf =
     (case wo_write wo (fw_conn fw) buf of
        (Inl e, c) \<Rightarrow> (Inl e, fw\<lparr>fw_conn := c\<rparr>)
      | (Inr written, c) \<Rightarrow> (Inr written, \<lparr>fw_conn = c, fw_written = fw_written fw + written\<rparr>))"

definition fixed_write_all :: "'w writer_ops \<Rightarrow> 'w FixedBodyWriter \<Rightarrow> u8 list \<Rightarrow> (NetworkErrorKind + unit) \<times> 'w FixedBodyWriter" where
  "fixed_write_all wo fw buf =
     (case wo_write_all wo (fw_conn fw) buf of
        (Inl e, c) \<Rightarrow> (Inl e, fw\<lparr>fw_conn := c\<rparr>)
      | (Inr _, c) \<Rightarrow> (Inr (), \<lparr>fw_conn = c, fw_written = fw_written fw + length buf\<rparr>))"

section \<open>Bodies in chunks\<close>

text \<open>The header of a chunk, written to the front of a buffer, and its length.\<close>

definition chunk_digits :: "hex_lib \<Rightarrow> nat \<Rightarrow> u8 list" where
  "chunk_digits hx chunk_len =
     (let hex = hex_encode hx (u32_to_be_bytes (of_nat chunk_len));
          leading = length (takeWhile (\<lambda>x. x = 48) hex);
          leading_zeros = (if leading < length hex then leading else length hex - 1)
      in drop leading_zeros hex)"

definition write_chunked_header :: "hex_lib \<Rightarrow> u8 list \<Rightarrow> nat \<Rightarrow> (u8 list \<times> nat) option" where
  "write_chunked_header hx buf chunk_len =
     (let digits = chunk_digits hx chunk_len; hex_chars = length digits
      in if length buf < hex_chars + 2 then None
         else Some (splice (splice buf 0 digits) hex_chars NEWLINE, hex_chars + 2))"

definition chunked_terminate :: "'w writer_ops \<Rightarrow> 'w \<Rightarrow> (NetworkErrorKind + unit) \<times> 'w" where
  "chunked_terminate wo c = wo_write_all wo c EMPTY_CHUNK"

definition chunked_write_all :: "hex_lib \<Rightarrow> 'w writer_ops \<Rightarrow> 'w \<Rightarrow> u8 list \<Rightarrow> ((NetworkErrorKind + unit) \<times> 'w) option" where
  "chunked_write_all hx wo c buf =
     (if length buf = 0 then Some (Inr (), c)
      else case write_chunked_header hx (replicate 10 0) (length buf) of
        None \<Rightarrow> None
      | Some (header_buf, header_len) \<Rightarrow>
          Some (st_bind (wo_write_all wo c (take header_len header_buf)) (\<lambda>_ c.
                st_bind (wo_write_all wo c buf) (\<lambda>_ c. wo_write_all wo c NEWLINE))))"

definition chunked_write :: "hex_lib \<Rightarrow> 'w writer_ops \<Rightarrow> 'w \<Rightarrow> u8 list \<Rightarrow> ((NetworkErrorKind + nat) \<times> 'w) option" where
  "chunked_write hx wo c buf =
     map_option (\<lambda>m. st_bind m (\<lambda>_ c. (Inr (length buf), c))) (chunked_write_all hx wo c buf)"

section \<open>Bodies in chunks through a buffer\<close>

record 'w BufferingChunkedBodyWriter =
  bw_conn :: 'w
  bw_buf :: "u8 list"
  bw_header_pos :: nat
  bw_allocated_header :: nat
  bw_pos :: nat
  bw_terminated :: bool

definition get_num_hex_chars :: "nat \<Rightarrow> nat" where
  "get_num_hex_chars number = (if number = 0 then 1 else (floorlog 2 number + 3) div 4)"

definition get_max_chunk_header_size :: "nat \<Rightarrow> nat" where
  "get_max_chunk_header_size buffer_size =
     (if 2 * length NEWLINE \<le> buffer_size
      then get_num_hex_chars (buffer_size - 2 * length NEWLINE) + length NEWLINE else 0)"

definition new_with_data :: "'w \<Rightarrow> u8 list \<Rightarrow> nat \<Rightarrow> 'w BufferingChunkedBodyWriter option" where
  "new_with_data conn buf written =
     (if written \<le> length buf then
        let allocated_header = get_max_chunk_header_size (length buf - written)
        in if allocated_header + length NEWLINE < length buf then
             Some \<lparr>bw_conn = conn, bw_buf = buf, bw_header_pos = written,
               bw_allocated_header = allocated_header, bw_pos = written + allocated_header, bw_terminated = False\<rparr>
           else None
      else None)"

definition append_current_chunk :: "'w BufferingChunkedBodyWriter \<Rightarrow> u8 list \<Rightarrow> nat \<times> 'w BufferingChunkedBodyWriter" where
  "append_current_chunk bw buf =
     (let buffered = min (length buf) (length (bw_buf bw) - (length NEWLINE + bw_pos bw))
      in (buffered,
          if 0 < buffered then
            bw\<lparr>bw_buf := splice (bw_buf bw) (bw_pos bw) (take buffered buf), bw_pos := bw_pos bw + buffered\<rparr>
          else bw))"

definition finish_current_chunk :: "hex_lib \<Rightarrow> 'w BufferingChunkedBodyWriter \<Rightarrow> 'w BufferingChunkedBodyWriter option" where
  "finish_current_chunk hx bw =
     (let header_pos = bw_header_pos bw; allocated = bw_allocated_header bw;
          chunk_len = bw_pos bw - header_pos - allocated
      in if length (bw_buf bw) < header_pos + allocated then None
         else case write_chunked_header hx (take allocated (drop header_pos (bw_buf bw))) chunk_len of
           None \<Rightarrow> None
         | Some (header_buf, header_len) \<Rightarrow>
             let buf = splice (bw_buf bw) header_pos header_buf;
                 spacing = allocated - header_len;
                 moved = (if 0 < spacing
                   then splice buf (header_pos + header_len) (drop (header_pos + allocated) (take (bw_pos bw) buf)) else buf);
                 pos = (if 0 < spacing then bw_pos bw - spacing else bw_pos bw)
             in if length moved < pos + length NEWLINE then None
                else let buf = splice moved pos NEWLINE; header_pos = pos + 2;
                         allocated = get_max_chunk_header_size (length buf - header_pos)
                     in Some (bw\<lparr>bw_buf := buf, bw_header_pos := header_pos, bw_allocated_header := allocated,
                                bw_pos := header_pos + allocated\<rparr>))"

definition current_chunk_is_full :: "'w BufferingChunkedBodyWriter \<Rightarrow> bool" where
  "current_chunk_is_full bw \<longleftrightarrow> bw_pos bw + length NEWLINE = length (bw_buf bw)"

definition emit_buffered ::
  "'w writer_ops \<Rightarrow> 'w BufferingChunkedBodyWriter \<Rightarrow> (NetworkErrorKind + unit) \<times> 'w BufferingChunkedBodyWriter" where
  "emit_buffered wo bw =
     (case wo_write_all wo (bw_conn bw) (take (bw_header_pos bw) (bw_buf bw)) of
        (Inl e, c) \<Rightarrow> (Inl e, bw\<lparr>bw_conn := c\<rparr>)
      | (Inr _, c) \<Rightarrow>
          let allocated = get_max_chunk_header_size (length (bw_buf bw))
          in (Inr (), bw\<lparr>bw_conn := c, bw_header_pos := 0, bw_allocated_header := allocated, bw_pos := allocated\<rparr>))"

definition buffering_terminate ::
  "hex_lib \<Rightarrow> 'w writer_ops \<Rightarrow> 'w BufferingChunkedBodyWriter \<Rightarrow>
   ((NetworkErrorKind + unit) \<times> 'w BufferingChunkedBodyWriter) option" where
  "buffering_terminate hx wo bw =
     (if bw_terminated bw then None
      else case (if bw_header_pos bw + bw_allocated_header bw < bw_pos bw then finish_current_chunk hx bw else Some bw) of
        None \<Rightarrow> None
      | Some bw \<Rightarrow>
          let emitted = (if length (bw_buf bw) < bw_header_pos bw + length EMPTY_CHUNK then emit_buffered wo bw else (Inr (), bw))
          in case emitted of
               (Inl e, bw) \<Rightarrow> Some (Inl e, bw)
             | (Inr _, bw) \<Rightarrow>
                 if length (bw_buf bw) < bw_header_pos bw + length EMPTY_CHUNK then None
                 else let header_pos = bw_header_pos bw + length EMPTY_CHUNK;
                          bw = bw\<lparr>bw_buf := splice (bw_buf bw) (bw_header_pos bw) EMPTY_CHUNK, bw_header_pos := header_pos,
                                 bw_allocated_header := 0, bw_pos := header_pos\<rparr>
                      in Some (st_bind (emit_buffered wo bw) (\<lambda>_ bw. (Inr (), bw\<lparr>bw_terminated := True\<rparr>))))"

definition buffering_write ::
  "hex_lib \<Rightarrow> 'w writer_ops \<Rightarrow> 'w BufferingChunkedBodyWriter \<Rightarrow> u8 list \<Rightarrow>
   ((NetworkErrorKind + nat) \<times> 'w BufferingChunkedBodyWriter) option" where
  "buffering_write hx wo bw buf =
     (if buf = [] then Some (Inr 0, bw)
      else
        let appended = (case append_current_chunk bw buf of (written, bw) \<Rightarrow>
              if written = 0 then st_bind (emit_buffered wo bw) (\<lambda>_ bw.
                case append_current_chunk bw buf of (written, bw) \<Rightarrow> (Inr written, bw))
              else (Inr written, bw))
        in case appended of
             (Inl e, bw) \<Rightarrow> Some (Inl e, bw)
           | (Inr written, bw) \<Rightarrow>
               if current_chunk_is_full bw then
                 case finish_current_chunk hx bw of
                   None \<Rightarrow> None
                 | Some bw \<Rightarrow> Some (st_bind (emit_buffered wo bw) (\<lambda>_ bw. (Inr written, bw)))
               else Some (Inr written, bw))"

definition buffering_flush ::
  "hex_lib \<Rightarrow> 'w writer_ops \<Rightarrow> 'w BufferingChunkedBodyWriter \<Rightarrow>
   ((NetworkErrorKind + unit) \<times> 'w BufferingChunkedBodyWriter) option" where
  "buffering_flush hx wo bw =
     (let flush_conn = (\<lambda>_ bw. case wo_flush wo (bw_conn bw) of (res, c) \<Rightarrow> (res, bw\<lparr>bw_conn := c\<rparr>))
      in if bw_header_pos bw + bw_allocated_header bw < bw_pos bw then
           map_option (\<lambda>bw. st_bind (emit_buffered wo bw) flush_conn) (finish_current_chunk hx bw)
         else if 0 < bw_header_pos bw then Some (st_bind (emit_buffered wo bw) flush_conn)
         else Some (flush_conn () bw))"

text \<open>
  The provided method \<open>Write::write_all\<close> repeats \<open>write\<close> with what is left and panics when a write
  takes nothing.
\<close>

function buffering_write_all ::
  "hex_lib \<Rightarrow> 'w writer_ops \<Rightarrow> 'w BufferingChunkedBodyWriter \<Rightarrow> u8 list \<Rightarrow>
   ((NetworkErrorKind + unit) \<times> 'w BufferingChunkedBodyWriter) option" where
  "buffering_write_all hx wo bw buf =
     (if buf = [] then Some (Inr (), bw)
      else case buffering_write hx wo bw buf of
        None \<Rightarrow> None
      | Some (Inl e, bw) \<Rightarrow> Some (Inl e, bw)
      | Some (Inr n, bw) \<Rightarrow> if n = 0 then None else buffering_write_all hx wo bw (drop n buf))"
  by pat_completeness auto
termination by (relation "measure (\<lambda>(_, _, _, buf). length buf)") auto

declare buffering_write_all.simps [simp del]

end
