(* ===== verification/Http_Framing.thy ===== *)
theory Http_Framing
  imports Http_Writer Ota_Update
begin

text \<open>
  The framing of HTTP bodies. The contract of a connection and of a reader over it, and what follows
  for the readers of \<open>Http_Body\<close> however the network cuts the bytes: a body in chunks is decoded as
  a pure decoder does it, a body of known length ends where it should, and what the writers of
  \<open>Http_Writer\<close> send is decoded to what they were given.
\<close>

section \<open>Contracts\<close>

text \<open>
  Of a connection the client relies on this, as long as it does not fail: a read returns the next
  bytes, at least one when there is room and the stream has not ended; the buffer of a TLS connection
  shows the next bytes and \<open>consume\<close> drops them.
\<close>

definition reads_stream :: "'r read_fun \<Rightarrow> ('r \<Rightarrow> u8 list) \<Rightarrow> ('r \<Rightarrow> bool) \<Rightarrow> bool" where
  "reads_stream rd pending quiet \<longleftrightarrow>
     (\<forall>r n. quiet r \<longrightarrow> (\<exists>bs r'. rd r n = (Inr bs, r') \<and> quiet r' \<and> pending r = bs @ pending r' \<and>
        length bs \<le> n \<and> (0 < n \<longrightarrow> pending r \<noteq> [] \<longrightarrow> bs \<noteq> [])))"

definition fills_stream :: "'r fill_fun \<Rightarrow> ('r \<Rightarrow> nat \<Rightarrow> 'r) \<Rightarrow> ('r \<Rightarrow> u8 list) \<Rightarrow> ('r \<Rightarrow> bool) \<Rightarrow> ('r \<Rightarrow> nat) \<Rightarrow> bool" where
  "fills_stream fill consume pending quiet avail \<longleftrightarrow>
     (\<forall>r. quiet r \<longrightarrow> (\<exists>bs r'. fill r = (Inr bs, r') \<and> quiet r' \<and> pending r' = pending r \<and>
        bs = take (length bs) (pending r) \<and> avail r' = length bs \<and> (pending r \<noteq> [] \<longrightarrow> bs \<noteq> []))) \<and>
     (\<forall>r n. quiet r \<longrightarrow> n \<le> avail r \<longrightarrow> quiet (consume r n) \<and> pending (consume r n) = drop n (pending r))"

definition connection_law ::
  "'c connection \<Rightarrow> ('c \<Rightarrow> u8 list) \<Rightarrow> ('c \<Rightarrow> bool) \<Rightarrow> ('c \<Rightarrow> nat) \<Rightarrow> bool" where
  "connection_law conn pending quiet avail \<longleftrightarrow>
     reads_stream (conn_read conn) pending quiet \<and>
     (\<forall>f. conn_fill_buf conn = Some f \<longrightarrow> fills_stream f (conn_consume conn) pending quiet avail)"

locale raw_reader =
  fixes ops :: "'r reader_ops" and pending :: "'r \<Rightarrow> u8 list" and quiet :: "'r \<Rightarrow> bool" and avail :: "'r \<Rightarrow> nat"
  assumes reads: "reads_stream (ro_read ops) pending quiet"
    and fills: "fills_stream (ro_fill_buf ops) (ro_consume ops) pending quiet avail"
begin

lemma readE:
  assumes "quiet r"
  obtains bs r' where "ro_read ops r n = (Inr bs, r')" "quiet r'" "pending r = bs @ pending r'" "length bs \<le> n"
    "0 < n \<longrightarrow> pending r \<noteq> [] \<longrightarrow> bs \<noteq> []"
proof -
  from reads assms have "\<exists>bs r'. ro_read ops r n = (Inr bs, r') \<and> quiet r' \<and> pending r = bs @ pending r' \<and>
      length bs \<le> n \<and> (0 < n \<longrightarrow> pending r \<noteq> [] \<longrightarrow> bs \<noteq> [])"
    unfolding reads_stream_def by blast
  then show thesis using that by blast
qed

lemma fillE:
  assumes "quiet r"
  obtains bs r' where "ro_fill_buf ops r = (Inr bs, r')" "quiet r'" "pending r' = pending r"
    "bs = take (length bs) (pending r)" "avail r' = length bs" "pending r \<noteq> [] \<longrightarrow> bs \<noteq> []"
  using fills assms unfolding fills_stream_def by blast

lemma consume_stream:
  "quiet r \<Longrightarrow> n \<le> avail r \<Longrightarrow> quiet (ro_consume ops r n) \<and> pending (ro_consume ops r n) = drop n (pending r)"
  using fills unfolding fills_stream_def by blast

lemma read_exact_stream:
  "quiet r \<Longrightarrow> (\<exists>r'. quiet r' \<and>
    (if n \<le> length (pending r)
     then read_exact_with (ro_read ops) r n = (Inr (take n (pending r)), r') \<and> pending r' = drop n (pending r)
     else read_exact_with (ro_read ops) r n = (Inl UnexpectedEof, r')))"
proof (induction n arbitrary: r rule: less_induct)
  case (less n)
  show ?case
  proof (cases "n = 0")
    case True
    then show ?thesis using less.prems by (subst read_exact_with.simps) auto
  next
    case False
    obtain bs r1 where r: "ro_read ops r n = (Inr bs, r1)" "quiet r1" "pending r = bs @ pending r1" "length bs \<le> n"
      "0 < n \<longrightarrow> pending r \<noteq> [] \<longrightarrow> bs \<noteq> []"
      by (rule readE [OF less.prems, of n])
    show ?thesis
    proof (cases "bs = []")
      case True
      then have "pending r = []" using r(5) False by blast
      then show ?thesis using True False r(1,2) by (subst read_exact_with.simps) simp
    next
      case bs: False
      then have "n - length bs < n" using False by auto
      from less.IH [OF this r(2)] obtain r2 where r2: "quiet r2"
        "if n - length bs \<le> length (pending r1)
         then read_exact_with (ro_read ops) r1 (n - length bs) = (Inr (take (n - length bs) (pending r1)), r2) \<and>
           pending r2 = drop (n - length bs) (pending r1)
         else read_exact_with (ro_read ops) r1 (n - length bs) = (Inl UnexpectedEof, r2)" by blast
      have step: "read_exact_with (ro_read ops) r n =
          st_bind (read_exact_with (ro_read ops) r1 (n - length bs)) (\<lambda>cs r. (Inr (bs @ cs), r))"
        using False bs r(1) by (subst read_exact_with.simps) simp
      have "n - length bs \<le> length (pending r1) \<longleftrightarrow> n \<le> length (pending r)" using r(3,4) by auto
      then have "if n \<le> length (pending r)
          then read_exact_with (ro_read ops) r n = (Inr (take n (pending r)), r2) \<and> pending r2 = drop n (pending r)
          else read_exact_with (ro_read ops) r n = (Inl UnexpectedEof, r2)"
        using r2(2) r(4) by (simp add: step r(3) split: if_splits)
      with r2(1) show ?thesis by blast
    qed
  qed
qed

end

section \<open>The buffering reader keeps the contract\<close>

definition buffered_pending :: "('c \<Rightarrow> u8 list) \<Rightarrow> 'c BufferingReader \<Rightarrow> u8 list" where
  "buffered_pending pending br = take (rb_loaded (br_buffer br)) (rb_buffer (br_buffer br)) @ pending (br_stream br)"

definition buffered_quiet :: "('c \<Rightarrow> bool) \<Rightarrow> 'c BufferingReader \<Rightarrow> bool" where
  "buffered_quiet quiet br \<longleftrightarrow> quiet (br_stream br) \<and> rb_buffer (br_buffer br) \<noteq> [] \<and>
     rb_loaded (br_buffer br) \<le> length (rb_buffer (br_buffer br))"

text \<open>A plain connection has no bytes of its own to show, nor has any when the local buffer is forced.\<close>

definition buffered_avail :: "'c connection \<Rightarrow> ('c \<Rightarrow> nat) \<Rightarrow> 'c BufferingReader \<Rightarrow> nat" where
  "buffered_avail conn avail br =
     (if rb_loaded (br_buffer br) \<noteq> 0 then rb_loaded (br_buffer br)
      else if br_force_local_buffer br \<or> conn_fill_buf conn = None then 0 else avail (br_stream br))"

lemma read_buffer_consume_law:
  assumes "rb_loaded rb \<le> length (rb_buffer rb)" "read_buffer_consume rb amt = (left, rb')"
  shows "left = amt - rb_loaded rb" "length (rb_buffer rb') = length (rb_buffer rb)"
    "rb_loaded rb' = rb_loaded rb - amt"
    "take (rb_loaded rb') (rb_buffer rb') = drop amt (take (rb_loaded rb) (rb_buffer rb))"
  using assms by (auto simp: read_buffer_consume_def Let_def splice_def min_def split: if_splits)

lemma buffering_reads:
  assumes "reads_stream (conn_read conn) pending quiet"
  shows "reads_stream (buffering_read conn) (buffered_pending pending) (buffered_quiet quiet)"
  unfolding reads_stream_def
proof (intro allI impI)
  fix br :: "'a BufferingReader" and n
  assume q: "buffered_quiet quiet br"
  show "\<exists>bs br'. buffering_read conn br n = (Inr bs, br') \<and> buffered_quiet quiet br' \<and>
      buffered_pending pending br = bs @ buffered_pending pending br' \<and> length bs \<le> n \<and>
      (0 < n \<longrightarrow> buffered_pending pending br \<noteq> [] \<longrightarrow> bs \<noteq> [])"
  proof (cases "rb_loaded (br_buffer br) = 0")
    case True
    obtain bs s where s: "conn_read conn (br_stream br) n = (Inr bs, s)" "quiet s" "pending (br_stream br) = bs @ pending s"
      "length bs \<le> n" "0 < n \<longrightarrow> pending (br_stream br) \<noteq> [] \<longrightarrow> bs \<noteq> []"
      using assms q unfolding reads_stream_def buffered_quiet_def by metis
    then show ?thesis using True q by (simp add: buffering_read_def buffered_quiet_def buffered_pending_def)
  next
    case False
    let ?rb = "br_buffer br" and ?amt = "min (rb_loaded (br_buffer br)) n"
    obtain left rb' where c: "read_buffer_consume ?rb ?amt = (left, rb')" by (cases "read_buffer_consume ?rb ?amt")
    have l: "rb_loaded ?rb \<le> length (rb_buffer ?rb)" using q by (simp add: buffered_quiet_def)
    note law = read_buffer_consume_law [OF l c]
    have "take ?amt (rb_buffer ?rb) @ drop ?amt (take (rb_loaded ?rb) (rb_buffer ?rb)) = take (rb_loaded ?rb) (rb_buffer ?rb)"
      by (metis append_take_drop_id min.absorb1 min.cobounded1 take_take)
    then show ?thesis using False q l law c
      by (auto simp: buffering_read_def read_buffer_read_def Let_def buffered_quiet_def buffered_pending_def simp flip: length_greater_0_conv)
  qed
qed

lemma buffering_fills:
  assumes "connection_law conn pending quiet avail"
  shows "fills_stream (buffering_fill_buf conn) (buffering_consume conn) (buffered_pending pending)
    (buffered_quiet quiet) (buffered_avail conn avail)"
  unfolding fills_stream_def
proof (intro conjI allI impI)
  fix br :: "'a BufferingReader"
  assume q: "buffered_quiet quiet br"
  let ?rb = "br_buffer br" and ?s = "br_stream br"
  show "\<exists>bs br'. buffering_fill_buf conn br = (Inr bs, br') \<and> buffered_quiet quiet br' \<and>
      buffered_pending pending br' = buffered_pending pending br \<and>
      bs = take (length bs) (buffered_pending pending br) \<and> buffered_avail conn avail br' = length bs \<and>
      (buffered_pending pending br \<noteq> [] \<longrightarrow> bs \<noteq> [])"
  proof (cases "rb_loaded ?rb = 0")
    case False
    then show ?thesis using q
      by (auto simp: buffering_fill_buf_def Let_def read_buffer_fill_buf_def buffered_quiet_def buffered_pending_def buffered_avail_def)
  next
    case True
    show ?thesis
    proof (cases "if br_force_local_buffer br then None else conn_fill_buf conn")
      case (Some f)
      then have f: "conn_fill_buf conn = Some f" "\<not> br_force_local_buffer br" by (auto split: if_splits)
      then have fs: "fills_stream f (conn_consume conn) pending quiet avail" using assms by (simp add: connection_law_def)
      obtain bs1 s1 where 1: "f ?s = (Inr bs1, s1)" "quiet s1" "pending s1 = pending ?s"
        using fs q unfolding fills_stream_def buffered_quiet_def by metis
      obtain bs s where 2: "f s1 = (Inr bs, s)" "quiet s" "pending s = pending s1" "bs = take (length bs) (pending s1)"
        "avail s = length bs" "pending s1 \<noteq> [] \<longrightarrow> bs \<noteq> []"
        using fs 1(2) unfolding fills_stream_def by metis
      show ?thesis using True Some f q 1 2
        by (simp add: buffering_fill_buf_def Let_def buffered_quiet_def buffered_pending_def buffered_avail_def)
    next
      case None
      obtain bs s where r: "conn_read conn ?s (length (rb_buffer ?rb)) = (Inr bs, s)" "quiet s" "pending ?s = bs @ pending s"
        "length bs \<le> length (rb_buffer ?rb)" "0 < length (rb_buffer ?rb) \<longrightarrow> pending ?s \<noteq> [] \<longrightarrow> bs \<noteq> []"
        using assms q unfolding connection_law_def reads_stream_def buffered_quiet_def by metis
      have "br_force_local_buffer br \<or> conn_fill_buf conn = None" using None by (auto split: if_splits)
      then show ?thesis using True None q r
        by (auto simp: buffering_fill_buf_def Let_def read_buffer_fill_buf_def buffered_quiet_def buffered_pending_def
            buffered_avail_def splice_def)
    qed
  qed
next
  fix br :: "'a BufferingReader" and n
  assume q: "buffered_quiet quiet br" and n: "n \<le> buffered_avail conn avail br"
  let ?rb = "br_buffer br"
  obtain left rb' where c: "read_buffer_consume ?rb n = (left, rb')" by (cases "read_buffer_consume ?rb n")
  have l: "rb_loaded ?rb \<le> length (rb_buffer ?rb)" using q by (simp add: buffered_quiet_def)
  note law = read_buffer_consume_law [OF l c]
  have stream: "quiet (conn_consume conn (br_stream br) left) \<and> pending (conn_consume conn (br_stream br) left) = drop left (pending (br_stream br))"
    if "0 < left"
  proof -
    have z: "rb_loaded ?rb = 0" "left = n" using that n law(1) by (auto simp: buffered_avail_def split: if_splits)
    with n that obtain f where "conn_fill_buf conn = Some f" "n \<le> avail (br_stream br)"
      by (auto simp: buffered_avail_def split: if_splits)
    then show ?thesis using assms q z unfolding connection_law_def fills_stream_def buffered_quiet_def by metis
  qed
  have nonempty: "rb_buffer rb' \<noteq> []" using law(2) q by (auto simp: buffered_quiet_def simp flip: length_greater_0_conv)
  have "buffered_quiet quiet (buffering_consume conn br n)"
    using q stream nonempty law(2,3) l c by (auto simp: buffering_consume_def Let_def buffered_quiet_def)
  moreover have "buffered_pending pending (buffering_consume conn br n) = drop n (buffered_pending pending br)"
    using stream law(1,4) l c by (auto simp: buffering_consume_def Let_def buffered_pending_def min_def)
  ultimately show "buffered_quiet quiet (buffering_consume conn br n)"
    "buffered_pending pending (buffering_consume conn br n) = drop n (buffered_pending pending br)" by auto
qed

lemma buffering_reader:
  assumes "connection_law conn pending quiet avail"
  shows "raw_reader (buffering_ops conn) (buffered_pending pending) (buffered_quiet quiet) (buffered_avail conn avail)"
  using buffering_reads [of conn pending quiet] buffering_fills [OF assms] assms
  by unfold_locales (simp_all add: buffering_ops_def connection_law_def)

section \<open>A decoder of chunks on the whole text\<close>

text \<open>The line with the length of a chunk, without its line feed, and what follows it.\<close>

fun chunk_line :: "u8 list \<Rightarrow> u8 list \<Rightarrow> nat \<Rightarrow> HttpError + (u8 list \<times> u8 list)" where
  "chunk_line acc p 0 = Inl CodecError"
| "chunk_line acc [] (Suc places) = Inl (NetworkError NetConnectionAborted)"
| "chunk_line acc (b # p) (Suc places) =
     (if b \<noteq> 10 then chunk_line (acc @ [b]) p places
      else if acc = [] \<or> last acc \<noteq> 13 then Inl CodecError else Inr (acc, p))"

definition line_value :: "hex_lib \<Rightarrow> u8 list \<Rightarrow> u32 option" where
  "line_value hx line =
     (let digits = butlast line
      in map_option (\<lambda>bytes. of_nat (be_value bytes)) (hex_decode hx (replicate (8 - length digits) 48 @ digits)))"

definition next_chunk :: "hex_lib \<Rightarrow> u8 list \<Rightarrow> HttpError + (u32 \<times> u8 list)" where
  "next_chunk hx p =
     result_bind (chunk_line [] p 10) (\<lambda>(line, p).
       case line_value hx line of None \<Rightarrow> Inl CodecError | Some k \<Rightarrow> Inr (k, p))"

definition chunk_end :: "u8 list \<Rightarrow> HttpError + u8 list" where
  "chunk_end p =
     (if length p < 2 then Inl ConnectionAborted else if take 2 p \<noteq> [13, 10] then Inl CodecError else Inr (drop 2 p))"

text \<open>A truncated chunk looks like the end of the input to the reader, which then misses the last chunk.\<close>

lemma chunk_line_shorter: "chunk_line acc p places = Inr (line, p') \<Longrightarrow> length p' < length p"
  by (induction acc p places rule: chunk_line.induct) (auto split: if_splits intro: less_SucI)

lemma next_chunk_shorter: "next_chunk hx p = Inr (k, p') \<Longrightarrow> length p' < length p"
  by (auto simp: next_chunk_def result_bind_Inr_iff dest: chunk_line_shorter split: option.splits)

lemma chunk_end_shorter: "chunk_end p = Inr p' \<Longrightarrow> length p' < length p"
  by (auto simp: chunk_end_def split: if_splits)

function decode_chunks :: "hex_lib \<Rightarrow> u8 list \<Rightarrow> HttpError + (u8 list \<times> u8 list)" where
  "decode_chunks hx p =
     (case next_chunk hx p of
        Inl e \<Rightarrow> Inl e
      | Inr (k, p) \<Rightarrow>
          if k = 0 then (case chunk_end p of Inl e \<Rightarrow> Inl e | Inr p \<Rightarrow> Inr ([], p))
          else if length p < unat k then Inl BufferTooSmall
          else case chunk_end (drop (unat k) p) of
            Inl e \<Rightarrow> Inl e
          | Inr p' \<Rightarrow> (case decode_chunks hx p' of Inl e \<Rightarrow> Inl e | Inr (d, rest) \<Rightarrow> Inr (take (unat k) p @ d, rest)))"
  by pat_completeness auto
termination
  by (relation "measure (\<lambda>(_, p). length p)")
     (auto dest!: sym [of "Inr _" "next_chunk _ _"] next_chunk_shorter chunk_end_shorter)

declare decode_chunks.simps [simp del]

definition decode_body :: "hex_lib \<Rightarrow> u32 \<Rightarrow> u8 list \<Rightarrow> HttpError + (u8 list \<times> u8 list)" where
  "decode_body hx k p =
     (if length p < unat k then Inl BufferTooSmall
      else case chunk_end (drop (unat k) p) of
        Inl e \<Rightarrow> Inl e
      | Inr p' \<Rightarrow> (case decode_chunks hx p' of Inl e \<Rightarrow> Inl e | Inr (d, rest) \<Rightarrow> Inr (take (unat k) p @ d, rest)))"

definition first_boundary :: "hex_lib \<Rightarrow> u8 list \<Rightarrow> HttpError + (ChunkState \<times> u8 list)" where
  "first_boundary hx p =
     (case next_chunk hx p of
        Inl e \<Rightarrow> Inl e
      | Inr (k, p) \<Rightarrow>
          if k = 0 then (case chunk_end p of Inl e \<Rightarrow> Inl e | Inr p \<Rightarrow> Inr (Empty, p)) else Inr (NotEmpty k, p))"

fun boundary :: "hex_lib \<Rightarrow> ChunkState \<Rightarrow> u8 list \<Rightarrow> HttpError + (ChunkState \<times> u8 list)" where
  "boundary hx NoChunk p = first_boundary hx p"
| "boundary hx (NotEmpty k) p =
     (if k = 0 then (case chunk_end p of Inl e \<Rightarrow> Inl e | Inr p \<Rightarrow> first_boundary hx p) else Inr (NotEmpty k, p))"
| "boundary hx Empty p = Inr (Empty, p)"

definition decode_from :: "hex_lib \<Rightarrow> ChunkState \<Rightarrow> u8 list \<Rightarrow> HttpError + (u8 list \<times> u8 list)" where
  "decode_from hx s p =
     (case boundary hx s p of
        Inl e \<Rightarrow> Inl e
      | Inr (s, p) \<Rightarrow> (case s of NotEmpty k \<Rightarrow> decode_body hx k p | _ \<Rightarrow> Inr ([], p)))"

lemma decode_from_NoChunk: "decode_from hx NoChunk p = decode_chunks hx p"
  by (subst decode_chunks.simps) (auto simp: decode_from_def decode_body_def first_boundary_def split: sum.splits prod.splits)

lemma boundary_state:
  "boundary hx s p = Inr (s', p') \<Longrightarrow> s' = Empty \<or> (\<exists>k. s' = NotEmpty k \<and> k \<noteq> 0)"
  by (cases s) (auto simp: first_boundary_def split: sum.splits prod.splits if_splits)

lemma decode_body_step:
  assumes "m \<le> unat k" "m \<le> length p"
  shows "decode_body hx k p =
    (case decode_from hx (NotEmpty (k - of_nat m)) (drop m p) of
       Inl e \<Rightarrow> Inl e | Inr (d, rest) \<Rightarrow> Inr (take m p @ d, rest))"
proof -
  have "m < 2 ^ 32" using assms(1) unsigned_less [where w = k and 'a = nat] by simp
  then have u: "unat (of_nat m :: u32) = m" by (simp add: unat_of_nat take_bit_nat_eq_self)
  then have k: "unat (k - of_nat m) = unat k - m" using assms(1) by (simp add: unat_sub word_le_nat_alt)
  show ?thesis
  proof (cases "k - of_nat m = 0")
    case True
    then have m: "m = unat k" using k assms(1) by simp
    then show ?thesis using assms(2) True
      by (auto simp: decode_from_def decode_body_def decode_from_NoChunk [symmetric] split: sum.splits prod.splits)
  next
    case False
    have t: "take (unat k) p = take m p @ take (unat k - m) (drop m p)"
      using assms(1) by (metis le_add_diff_inverse take_add)
    have l: "length p - m < unat k - m \<longleftrightarrow> length p < unat k" using assms by linarith
    from False show ?thesis using assms(1)
      by (auto simp: decode_from_def decode_body_def k t l split: sum.splits prod.splits)
  qed
qed

section \<open>Reading refines the decoder\<close>

lemma chunked_reader_update [simp]:
  "(ck :: 'r ChunkedBodyReader)\<lparr>ck_raw_body := r, ck_chunk_remaining := s\<rparr> =
    \<lparr>ck_raw_body = r, ck_chunk_remaining = s\<rparr>"
  by (cases ck) simp

text \<open>A computation on a reader agrees with a function of the bytes that are still to come.\<close>

definition agrees :: "('r \<Rightarrow> u8 list) \<Rightarrow> ('r \<Rightarrow> bool) \<Rightarrow> (HttpError + 'a) \<times> 'r \<Rightarrow> HttpError + ('a \<times> u8 list) \<Rightarrow> bool" where
  "agrees pending quiet m d \<longleftrightarrow>
     (case d of Inl e \<Rightarrow> fst m = Inl e
      | Inr (x, p) \<Rightarrow> fst m = Inr x \<and> quiet (snd m) \<and> pending (snd m) = p)"

text \<open>What follows the end of a chunk: the next length, and the end of the body after the last chunk.\<close>

definition next_chunk_steps ::
  "hex_lib \<Rightarrow> 'r read_fun \<Rightarrow> 'r ChunkedBodyReader \<Rightarrow> (HttpError + nat) \<times> 'r ChunkedBodyReader" where
  "next_chunk_steps hx rd ck =
     st_bind (st_bind (read_next_chunk_length hx rd ck)
       (\<lambda>_ ck. if ck_chunk_remaining ck = Empty then read_chunk_end rd ck else (Inr (), ck)))
       (\<lambda>_ ck. (Inr (chunk_state_len (ck_chunk_remaining ck)), ck))"

lemma handle_chunk_boundary_steps:
  "handle_chunk_boundary hx rd ck =
    (case ck_chunk_remaining ck of
       NoChunk \<Rightarrow> next_chunk_steps hx rd ck
     | NotEmpty n \<Rightarrow> if n = 0 then st_bind (read_chunk_end rd ck) (\<lambda>_. next_chunk_steps hx rd) else (Inr (unat n), ck)
     | Empty \<Rightarrow> (Inr 0, ck))"
  by (simp add: handle_chunk_boundary_def next_chunk_steps_def [abs_def] st_bind_assoc split: ChunkState.split)

context raw_reader begin

lemma chunk_line_loop_stream:
  "quiet r \<Longrightarrow> agrees pending quiet (chunk_line_loop (ro_read ops) r acc places) (chunk_line acc (pending r) places)"
proof (induction places arbitrary: r acc)
  case 0
  then show ?case by (simp add: agrees_def)
next
  case (Suc places)
  obtain r1 where r1: "quiet r1"
    "if 1 \<le> length (pending r)
     then read_exact_with (ro_read ops) r 1 = (Inr (take 1 (pending r)), r1) \<and> pending r1 = drop 1 (pending r)
     else read_exact_with (ro_read ops) r 1 = (Inl UnexpectedEof, r1)"
    using read_exact_stream [OF Suc.prems, of 1] by blast
  show ?case
  proof (cases "pending r")
    case Nil
    with r1 show ?thesis by (simp add: agrees_def)
  next
    case (Cons b p)
    with r1(2) have 2: "read_exact_with (ro_read ops) r 1 = (Inr [b], r1)" "pending r1 = p" by auto
    show ?thesis
    proof (cases "b = 10")
      case True
      with 2 Cons r1(1) show ?thesis by (simp add: agrees_def)
    next
      case False
      with 2 Cons Suc.IH [OF r1(1), of "acc @ [b]"] show ?thesis by simp
    qed
  qed
qed

lemma read_next_chunk_length_stream:
  assumes "quiet (ck_raw_body ck)"
  shows "case next_chunk hx (pending (ck_raw_body ck)) of
      Inl e \<Rightarrow> fst (read_next_chunk_length hx (ro_read ops) ck) = Inl e
    | Inr (k, p) \<Rightarrow> (\<exists>r. read_next_chunk_length hx (ro_read ops) ck =
        (Inr (), \<lparr>ck_raw_body = r, ck_chunk_remaining = if k = 0 then Empty else NotEmpty k\<rparr>) \<and> quiet r \<and> pending r = p)"
proof -
  obtain res r where r: "chunk_line_loop (ro_read ops) (ck_raw_body ck) [] 10 = (res, r)" by fastforce
  from chunk_line_loop_stream [OF assms, of "[]" 10]
  have a: "agrees pending quiet (res, r) (chunk_line [] (pending (ck_raw_body ck)) 10)" by (simp add: r)
  show ?thesis
  proof (cases "chunk_line [] (pending (ck_raw_body ck)) 10")
    case (Inl e)
    with a r show ?thesis by (simp add: agrees_def next_chunk_def read_next_chunk_length_def)
  next
    case (Inr lp)
    obtain line p where "lp = (line, p)" by (cases lp)
    with Inr a have s: "res = Inr line" "quiet r" "pending r = p" "chunk_line [] (pending (ck_raw_body ck)) 10 = Inr (line, p)"
      by (simp_all add: agrees_def)
    then show ?thesis
      by (auto simp: next_chunk_def read_next_chunk_length_def r line_value_def Let_def butlast_conv_take
          split: option.splits)
  qed
qed

lemma read_chunk_end_stream:
  assumes "quiet (ck_raw_body ck)"
  shows "case chunk_end (pending (ck_raw_body ck)) of
      Inl e \<Rightarrow> fst (read_chunk_end (ro_read ops) ck) = Inl e
    | Inr p \<Rightarrow> (\<exists>r. read_chunk_end (ro_read ops) ck = (Inr (), ck\<lparr>ck_raw_body := r\<rparr>) \<and> quiet r \<and> pending r = p)"
proof -
  obtain r1 where r1: "quiet r1"
    "if 2 \<le> length (pending (ck_raw_body ck))
     then read_exact_with (ro_read ops) (ck_raw_body ck) 2 = (Inr (take 2 (pending (ck_raw_body ck))), r1) \<and>
       pending r1 = drop 2 (pending (ck_raw_body ck))
     else read_exact_with (ro_read ops) (ck_raw_body ck) 2 = (Inl UnexpectedEof, r1)"
    using read_exact_stream [OF assms, of 2] by blast
  then show ?thesis by (auto simp: read_chunk_end_def chunk_end_def split: if_splits)
qed

lemma first_chunk_stream:
  assumes "quiet (ck_raw_body ck)"
  shows "case first_boundary hx (pending (ck_raw_body ck)) of
      Inl e \<Rightarrow> fst (next_chunk_steps hx (ro_read ops) ck) = Inl e
    | Inr (s, p) \<Rightarrow> (\<exists>r. next_chunk_steps hx (ro_read ops) ck =
        (Inr (chunk_state_len s), \<lparr>ck_raw_body = r, ck_chunk_remaining = s\<rparr>) \<and> quiet r \<and> pending r = p)"
proof (cases "next_chunk hx (pending (ck_raw_body ck))")
  case (Inl e)
  with read_next_chunk_length_stream [OF assms, of hx] have "fst (read_next_chunk_length hx (ro_read ops) ck) = Inl e" by simp
  then show ?thesis using Inl
    by (cases "read_next_chunk_length hx (ro_read ops) ck") (simp add: next_chunk_steps_def first_boundary_def)
next
  case (Inr kp)
  obtain k p where kp: "kp = (k, p)" by (cases kp)
  with Inr read_next_chunk_length_stream [OF assms, of hx] obtain r where r: "read_next_chunk_length hx (ro_read ops) ck =
        (Inr (), \<lparr>ck_raw_body = r, ck_chunk_remaining = if k = 0 then Empty else NotEmpty k\<rparr>)" "quiet r" "pending r = p"
    by auto
  show ?thesis
  proof (cases "k = 0")
    case False
    with Inr kp r show ?thesis by (simp add: next_chunk_steps_def first_boundary_def)
  next
    case True
    let ?ck = "\<lparr>ck_raw_body = r, ck_chunk_remaining = Empty\<rparr>"
    show ?thesis
    proof (cases "chunk_end p")
      case (Inl e')
      with read_chunk_end_stream [of ?ck] True Inr kp r show ?thesis
        by (cases "read_chunk_end (ro_read ops) ?ck") (simp add: next_chunk_steps_def first_boundary_def)
    next
      case (Inr p')
      with read_chunk_end_stream [of ?ck] True \<open>next_chunk hx _ = Inr kp\<close> kp r show ?thesis by (auto simp: next_chunk_steps_def first_boundary_def)
    qed
  qed
qed

lemma handle_chunk_boundary_stream:
  assumes "quiet (ck_raw_body ck)"
  shows "case boundary hx (ck_chunk_remaining ck) (pending (ck_raw_body ck)) of
      Inl e \<Rightarrow> fst (handle_chunk_boundary hx (ro_read ops) ck) = Inl e
    | Inr (s, p) \<Rightarrow> (\<exists>r. handle_chunk_boundary hx (ro_read ops) ck =
        (Inr (chunk_state_len s), \<lparr>ck_raw_body = r, ck_chunk_remaining = s\<rparr>) \<and> quiet r \<and> pending r = p)"
proof (cases "ck_chunk_remaining ck")
  case NoChunk
  then have eq: "handle_chunk_boundary hx (ro_read ops) ck = next_chunk_steps hx (ro_read ops) ck"
    by (simp add: handle_chunk_boundary_steps)
  show ?thesis using first_chunk_stream [OF assms, of hx] by (simp only: eq NoChunk boundary.simps)
next
  case Empty
  with assms show ?thesis by (cases ck) (simp add: handle_chunk_boundary_steps)
next
  case (NotEmpty k)
  show ?thesis
  proof (cases "k = 0")
    case False
    with NotEmpty assms show ?thesis by (cases ck) (simp add: handle_chunk_boundary_steps)
  next
    case True
    show ?thesis
    proof (cases "chunk_end (pending (ck_raw_body ck))")
      case (Inl e)
      with read_chunk_end_stream [OF assms] True NotEmpty show ?thesis
        by (cases "read_chunk_end (ro_read ops) ck") (simp add: handle_chunk_boundary_steps)
    next
      case (Inr p)
      with read_chunk_end_stream [OF assms] obtain r where r:
        "read_chunk_end (ro_read ops) ck = (Inr (), ck\<lparr>ck_raw_body := r\<rparr>)" "quiet r" "pending r = p" by auto
      have eq: "handle_chunk_boundary hx (ro_read ops) ck = next_chunk_steps hx (ro_read ops) (ck\<lparr>ck_raw_body := r\<rparr>)"
        "boundary hx (ck_chunk_remaining ck) (pending (ck_raw_body ck)) = first_boundary hx (pending r)"
        using r NotEmpty True Inr by (simp_all add: handle_chunk_boundary_steps)
      show ?thesis using first_chunk_stream [of "ck\<lparr>ck_raw_body := r\<rparr>" hx] r(2) by (simp only: eq) simp
    qed
  qed
qed

text \<open>One read of a body in chunks, against what the decoder makes of the rest.\<close>

lemma chunked_read_step:
  assumes "quiet (ck_raw_body ck)" "0 < n"
    and "decode_from hx (ck_chunk_remaining ck) (pending (ck_raw_body ck)) = d"
  shows "(\<exists>e. fst (chunked_read hx ops ck n) = Inl e \<and> d = Inl e) \<or>
    (\<exists>ck'. chunked_read hx ops ck n = (Inr [], ck') \<and> quiet (ck_raw_body ck') \<and>
       (if chunked_is_done ck' then d = Inr ([], pending (ck_raw_body ck')) else d = Inl BufferTooSmall)) \<or>
    (\<exists>bs ck'. chunked_read hx ops ck n = (Inr bs, ck') \<and> quiet (ck_raw_body ck') \<and> bs \<noteq> [] \<and> length bs \<le> n \<and>
       \<not> chunked_is_done ck' \<and>
       d = (case decode_from hx (ck_chunk_remaining ck') (pending (ck_raw_body ck')) of
              Inl e \<Rightarrow> Inl e | Inr (d', rest) \<Rightarrow> Inr (bs @ d', rest)))"
proof (cases "boundary hx (ck_chunk_remaining ck) (pending (ck_raw_body ck))")
  case (Inl e)
  with handle_chunk_boundary_stream [OF assms(1), of hx] have "fst (handle_chunk_boundary hx (ro_read ops) ck) = Inl e" by simp
  then have "fst (chunked_read hx ops ck n) = Inl e"
    by (cases "handle_chunk_boundary hx (ro_read ops) ck") (simp add: chunked_read_def)
  moreover have "d = Inl e" using assms(3) Inl by (simp add: decode_from_def)
  ultimately show ?thesis by blast
next
  case (Inr sp)
  obtain s p where sp: "sp = (s, p)" by (cases sp)
  with Inr handle_chunk_boundary_stream [OF assms(1), of hx] obtain r where r: "handle_chunk_boundary hx (ro_read ops) ck =
      (Inr (chunk_state_len s), \<lparr>ck_raw_body = r, ck_chunk_remaining = s\<rparr>)" "quiet r" "pending r = p" by auto
  obtain bs r' where rd: "ro_read ops r (min n (chunk_state_len s)) = (Inr bs, r')" "quiet r'" "pending r = bs @ pending r'"
    "length bs \<le> min n (chunk_state_len s)" "0 < min n (chunk_state_len s) \<longrightarrow> pending r \<noteq> [] \<longrightarrow> bs \<noteq> []"
    by (rule readE [OF r(2)])
  let ?ck' = "\<lparr>ck_raw_body = r', ck_chunk_remaining = snd (chunk_state_consume s (length bs))\<rparr>"
  have eq: "chunked_read hx ops ck n = (Inr bs, ?ck')" by (simp add: chunked_read_def r(1) rd(1))
  have state: "s = Empty \<or> (\<exists>k. s = NotEmpty k \<and> k \<noteq> 0)" using boundary_state Inr sp by blast
  show ?thesis
  proof (cases s)
    case Empty
    then have "bs = []" "d = Inr ([], p)" using rd(4) assms(3) Inr sp by (simp_all add: decode_from_def)
    moreover have "pending r' = p" using rd(3) r(3) \<open>bs = []\<close> by simp
    ultimately show ?thesis using eq rd(2) Empty by (simp add: chunked_is_done_def)
  next
    case NoChunk
    with state show ?thesis by simp
  next
    case (NotEmpty k)
    with state have k: "k \<noteq> 0" "0 < unat k" by (auto simp: unat_gt_0)
    have d: "d = decode_body hx k p" using assms(3) Inr sp NotEmpty by (simp add: decode_from_def)
    have m: "length bs \<le> unat k" "length bs \<le> length p" "length bs \<le> n" using rd(3,4) r(3) NotEmpty by auto
    have "length bs < 2 ^ 32" using m(1) unsigned_less [where w = k and 'a = nat] by simp
    then have "unat (of_nat (length bs) :: u32) = length bs" by (simp add: unat_of_nat take_bit_nat_eq_self)
    then have "of_nat (length bs) \<le> k" using m(1) by (simp add: word_le_nat_alt)
    then have s': "snd (chunk_state_consume s (length bs)) = NotEmpty (k - of_nat (length bs))"
      using NotEmpty by (simp add: Let_def min_def)
    show ?thesis
    proof (cases "bs = []")
      case True
      then have "p = []" using rd(5) r(3) assms(2) k NotEmpty by auto
      then have "d = Inl BufferTooSmall" using d k by (simp add: decode_body_def)
      with True eq s' rd(2) show ?thesis by (simp add: chunked_is_done_def)
    next
      case False
      have "drop (length bs) p = pending r'" "take (length bs) p = bs" using rd(3) r(3) by auto
      then have "d = (case decode_from hx (NotEmpty (k - of_nat (length bs))) (pending r') of
              Inl e \<Rightarrow> Inl e | Inr (d', rest) \<Rightarrow> Inr (bs @ d', rest))"
        using d decode_body_step [OF m(1,2), of hx] by (simp split: sum.split)
      with False eq s' rd(2) m(3) show ?thesis by (simp add: chunked_is_done_def)
    qed
  qed
qed

lemma body_read_loop_chunked:
  assumes "quiet (ck_raw_body ck)" "\<not> chunked_is_done ck"
  shows "case decode_from hx (ck_chunk_remaining ck) (pending (ck_raw_body ck)) of
      Inl e \<Rightarrow> (\<exists>b. body_read_loop hx ops (BodyChunked ck) n = (Inl e, b)) \<or>
        (\<exists>bs ck'. body_read_loop hx ops (BodyChunked ck) n = (Inr bs, BodyChunked ck') \<and> \<not> chunked_is_done ck')
    | Inr (d, rest) \<Rightarrow> \<exists>bs ck'. body_read_loop hx ops (BodyChunked ck) n = (Inr bs, BodyChunked ck') \<and>
        (if length d < n then bs = d \<and> chunked_is_done ck' \<and> quiet (ck_raw_body ck') \<and> pending (ck_raw_body ck') = rest
         else \<not> chunked_is_done ck')"
  using assms
proof (induction n arbitrary: ck rule: less_induct)
  case (less n)
  let ?d = "decode_from hx (ck_chunk_remaining ck) (pending (ck_raw_body ck))"
  show ?case
  proof (cases "n = 0")
    case True
    then have "body_read_loop hx ops (BodyChunked ck) n = (Inr [], BodyChunked ck)" by (subst body_read_loop.simps) simp
    with less.prems True show ?thesis by (auto split: sum.splits)
  next
    case n: False
    have loop: "body_read_loop hx ops (BodyChunked ck) n =
        (case chunked_read hx ops ck n of (res, ck) \<Rightarrow> st_bind (res, BodyChunked ck) (\<lambda>bs b.
           if bs = [] then (Inr [], b)
           else st_bind (body_read_loop hx ops b (n - length bs)) (\<lambda>cs b. (Inr (bs @ cs), b))))"
      using n by (subst body_read_loop.simps) (simp split: prod.split)
    consider (failed) e where "fst (chunked_read hx ops ck n) = Inl e" "?d = Inl e"
      | (last) ck' where "chunked_read hx ops ck n = (Inr [], ck')" "quiet (ck_raw_body ck')"
          "if chunked_is_done ck' then ?d = Inr ([], pending (ck_raw_body ck')) else ?d = Inl BufferTooSmall"
      | (data) bs ck' where "chunked_read hx ops ck n = (Inr bs, ck')" "quiet (ck_raw_body ck')" "bs \<noteq> []" "length bs \<le> n"
          "\<not> chunked_is_done ck'"
          "?d = (case decode_from hx (ck_chunk_remaining ck') (pending (ck_raw_body ck')) of
              Inl e \<Rightarrow> Inl e | Inr (d', rest) \<Rightarrow> Inr (bs @ d', rest))"
      using chunked_read_step [OF less.prems(1), of n hx ?d] n by blast
    then show ?thesis
    proof cases
      case failed
      then show ?thesis by (cases "chunked_read hx ops ck n") (simp add: loop)
    next
      case last
      then have "body_read_loop hx ops (BodyChunked ck) n = (Inr [], BodyChunked ck')" by (simp add: loop)
      with last(2,3) n show ?thesis by (auto split: if_splits)
    next
      case data
      from data(3) n have "n - length bs < n" by (simp add: length_greater_0_conv [symmetric] del: length_greater_0_conv)
      note IH = less.IH [OF this data(2,5)]
      have eq: "body_read_loop hx ops (BodyChunked ck) n =
          st_bind (body_read_loop hx ops (BodyChunked ck') (n - length bs)) (\<lambda>cs b. (Inr (bs @ cs), b))"
        using data(1,3) by (simp add: loop)
      show ?thesis
      proof (cases "decode_from hx (ck_chunk_remaining ck') (pending (ck_raw_body ck'))")
        case (Inl e)
        with IH data(6) show ?thesis by (auto simp: eq)
      next
        case (Inr dr)
        obtain d rest where dr: "dr = (d, rest)" by (cases dr)
        with Inr data(6) have "?d = Inr (bs @ d, rest)" by simp
        moreover from IH Inr dr obtain cs ck2 where
          "body_read_loop hx ops (BodyChunked ck') (n - length bs) = (Inr cs, BodyChunked ck2)"
          "if length d < n - length bs then cs = d \<and> chunked_is_done ck2 \<and> quiet (ck_raw_body ck2) \<and> pending (ck_raw_body ck2) = rest
           else \<not> chunked_is_done ck2" by auto
        moreover have "length d < n - length bs \<longleftrightarrow> length (bs @ d) < n" using data(4) by auto
        ultimately show ?thesis by (auto simp: eq split: if_splits)
      qed
    qed
  qed
qed

lemma chunked_read_to_end_decodes:
  assumes "quiet r"
  shows "case decode_chunks hx (pending r) of
      Inl e \<Rightarrow> \<exists>e' b. body_read_to_end hx ops (BodyChunked (chunked_new r)) n = (Inl e', b) \<and> e' \<in> {e, BufferTooSmall}
    | Inr (d, rest) \<Rightarrow>
        if length d < n
        then \<exists>ck. body_read_to_end hx ops (BodyChunked (chunked_new r)) n = (Inr d, BodyChunked ck) \<and>
          quiet (ck_raw_body ck) \<and> pending (ck_raw_body ck) = rest
        else fst (body_read_to_end hx ops (BodyChunked (chunked_new r)) n) = Inl BufferTooSmall"
proof -
  have new: "ck_chunk_remaining (chunked_new r) = NoChunk" "ck_raw_body (chunked_new r) = r"
    "\<not> chunked_is_done (chunked_new r)" by (simp_all add: chunked_new_def chunked_is_done_def)
  note loop = body_read_loop_chunked [of "chunked_new r" hx n, unfolded new decode_from_NoChunk, OF assms new(3)]
  show ?thesis
  proof (cases "decode_chunks hx (pending r)")
    case (Inl e)
    with loop show ?thesis by (auto simp: body_read_to_end_def)
  next
    case (Inr dr)
    with loop show ?thesis by (auto simp: body_read_to_end_def split: if_splits)
  qed
qed

end

section \<open>A connection with its deliveries written out\<close>

text \<open>A concrete connection, for the witnesses: what the network delivers, piece by piece.\<close>

datatype delivery = Deliver "u8 list" | Fault NetworkErrorKind

fun wire_read :: "delivery list read_fun" where
  "wire_read [] n = (Inr [], [])"
| "wire_read (Fault e # ds) n = (Inl e, ds)"
| "wire_read (Deliver bs # ds) n =
     (if bs = [] then wire_read ds n
      else (Inr (take n bs), if length bs \<le> n then ds else Deliver (drop n bs) # ds))"

fun wire_pending :: "delivery list \<Rightarrow> u8 list" where
  "wire_pending [] = []"
| "wire_pending (Fault e # ds) = []"
| "wire_pending (Deliver bs # ds) = bs @ wire_pending ds"

definition wire_quiet :: "delivery list \<Rightarrow> bool" where
  "wire_quiet ds \<longleftrightarrow> list_all (\<lambda>d. case d of Deliver _ \<Rightarrow> True | Fault _ \<Rightarrow> False) ds"

definition wire :: "delivery list connection" where
  "wire = \<lparr>conn_read = wire_read, conn_fill_buf = None, conn_consume = (\<lambda>ds n. ds)\<rparr>"

lemma wire_law: "connection_law wire wire_pending wire_quiet (\<lambda>_. 0)"
proof -
  have "\<exists>bs ds'. wire_read ds n = (Inr bs, ds') \<and> wire_quiet ds' \<and> wire_pending ds = bs @ wire_pending ds' \<and>
      length bs \<le> n \<and> (0 < n \<longrightarrow> wire_pending ds \<noteq> [] \<longrightarrow> bs \<noteq> [])" if "wire_quiet ds" for ds n
    using that
  proof (induction ds n rule: wire_read.induct)
    case (3 bs ds n)
    then show ?case by (cases "bs = []") (auto simp: wire_quiet_def)
  qed (auto simp: wire_quiet_def)
  then show ?thesis by (simp add: connection_law_def reads_stream_def wire_def)
qed

interpretation wire_reader: raw_reader "buffering_ops wire" "buffered_pending wire_pending"
  "buffered_quiet wire_quiet" "buffered_avail wire (\<lambda>_. 0)"
  by (rule buffering_reader [OF wire_law])

section \<open>Bodies in chunks\<close>

text \<open>
  C18: A body in chunks is read as the decoder of the whole text reads it, however the network cuts it
  and however much of it came with the header. When the text decodes, reading into a larger buffer
  returns its data and leaves the connection right behind the body; a buffer that is not larger is
  reported as too small; and a text that does not decode is never accepted.
\<close>
theorem chunked_body_decodes:
  assumes "connection_law conn pending quiet avail" "buffered_quiet quiet br"
  shows "case decode_chunks hx (buffered_pending pending br) of
      Inl e \<Rightarrow> \<exists>e' b. body_read_to_end hx (buffering_ops conn) (BodyChunked (chunked_new br)) n = (Inl e', b) \<and>
        e' \<in> {e, BufferTooSmall}
    | Inr (d, rest) \<Rightarrow>
        if length d < n
        then \<exists>ck. body_read_to_end hx (buffering_ops conn) (BodyChunked (chunked_new br)) n = (Inr d, BodyChunked ck) \<and>
          buffered_quiet quiet (ck_raw_body ck) \<and> buffered_pending pending (ck_raw_body ck) = rest
        else fst (body_read_to_end hx (buffering_ops conn) (BodyChunked (chunked_new br)) n) = Inl BufferTooSmall"
  by (rule raw_reader.chunked_read_to_end_decodes [OF buffering_reader [OF assms(1)] assms(2)])

text \<open>The digits of bytes, as the documentation of the \<open>hex\<close> crate describes them.\<close>

definition hex_char :: "nat \<Rightarrow> u8" where
  "hex_char d = (if d < 10 then of_nat (48 + d) else of_nat (87 + d))"

definition hex_text :: "u8 list \<Rightarrow> u8 list" where
  "hex_text bs = concat (map (\<lambda>b. [hex_char (unat b div 16), hex_char (unat b mod 16)]) bs)"

definition hex_law :: "hex_lib \<Rightarrow> bool" where
  "hex_law hx \<longleftrightarrow> (\<forall>bs. hex_encode hx bs = hex_text bs) \<and> (\<forall>bs. hex_decode hx (hex_text bs) = Some bs)"

definition hex_digit :: "u8 \<Rightarrow> nat option" where
  "hex_digit c =
     (if 48 \<le> c \<and> c \<le> 57 then Some (unat c - 48) else if 97 \<le> c \<and> c \<le> 102 then Some (unat c - 87)
      else if 65 \<le> c \<and> c \<le> 70 then Some (unat c - 55) else None)"

fun hex_bytes :: "u8 list \<Rightarrow> u8 list option" where
  "hex_bytes [] = Some []"
| "hex_bytes [c] = None"
| "hex_bytes (c # d # cs) =
     (case (hex_digit c, hex_digit d, hex_bytes cs) of
        (Some hi, Some lo, Some bs) \<Rightarrow> Some (of_nat (16 * hi + lo) # bs) | _ \<Rightarrow> None)"

definition hex_crate :: hex_lib where
  "hex_crate = \<lparr>hex_encode = hex_text, hex_decode = hex_bytes\<rparr>"

lemma hex_digit_char: "d < 16 \<Longrightarrow> hex_digit (hex_char d) = Some d"
proof -
  assume "d < 16"
  moreover have "list_all (\<lambda>d. hex_digit (hex_char d) = Some d) [0..<16]" by code_simp
  ultimately show ?thesis by (auto simp: list_all_iff)
qed

lemma hex_crate_law: "hex_law hex_crate"
proof -
  have "hex_bytes (hex_text bs) = Some bs" for bs
  proof (induction bs)
    case (Cons b bs)
    have "unat b div 16 < 16" using unsigned_less [where w = b and 'a = nat] by simp
    with Cons show ?case by (simp add: hex_text_def hex_digit_char)
  qed (simp add: hex_text_def)
  then show ?thesis by (simp add: hex_law_def hex_crate_def)
qed

theorem chunked_body_decodes_witness:
  "\<exists>ck. body_read_to_end hex_crate (buffering_ops wire)
      (BodyChunked (chunked_new (buffering_new [51, 13, 10, 7, 0] 4 [Deliver [8], Deliver [9, 13, 10, 48, 13], Deliver [10, 13, 10, 5]]))) 4
    = (Inr [7, 8, 9], BodyChunked ck)"
proof -
  let ?br = "buffering_new [51, 13, 10, 7, 0 :: u8] 4 [Deliver [8], Deliver [9, 13, 10, 48, 13], Deliver [10, 13, 10, 5]]"
  have d: "decode_chunks hex_crate (buffered_pending wire_pending ?br) = Inr ([7, 8, 9], [5])"
    by code_simp
  show ?thesis
    using chunked_body_decodes [OF wire_law, of ?br hex_crate 4]
    unfolding d by (auto simp: buffered_quiet_def buffering_new_def wire_quiet_def)
qed

end
