(* ===== verification/Http_Response.thy ===== *)
theory Http_Response
  imports Http_Framing
begin

text \<open>
  Responses of the HTTP client, \<open>tools/reqwless/src\<close>: the header types (\<open>headers.rs\<close>), status codes,
  reading the header of a response and its body (\<open>response/mod.rs\<close>). The header parser \<open>httparse\<close> is
  a parameter. A header value is its bytes, as a list of characters.
\<close>

section \<open>Numbers and white space in header values\<close>

text \<open>\<open>str::parse\<close> of an unsigned type with the given maximum.\<close>

definition parse_unsigned :: "nat \<Rightarrow> string \<Rightarrow> nat option" where
  "parse_unsigned largest s =
     (let digits = (case s of c # d # cs \<Rightarrow> if c = CHR ''+'' then d # cs else s | _ \<Rightarrow> s)
      in if digits = [] \<or> \<not> list_all is_ascii_digit digits \<or> largest < decimal_value digits then None
         else Some (decimal_value digits))"

text \<open>\<open>str::trim\<close> drops the characters with the Unicode property White\_Space, here in UTF-8.\<close>

definition whitespace_chars :: "string list" where
  "whitespace_chars = map (map char_of)
     ([[9], [10], [11], [12], [13], [32], [194, 133], [194, 160], [225, 154, 128]] @
      map (\<lambda>n. [226, 128, n]) [128 :: nat, 129, 130, 131, 132, 133, 134, 135, 136, 137, 138, 168, 169, 175] @
      [[226, 129, 159], [227, 128, 128]])"

lemma prefix_dropped_shorter:
  assumes "find (\<lambda>w. w \<noteq> [] \<and> take (length w) s = w) ws = Some w"
  shows "length (drop (length w) s) < length s"
proof -
  have "w \<noteq> [] \<and> take (length w) s = w" using assms by (induction ws) (auto split: if_splits)
  then show ?thesis by (cases s; cases w) auto
qed

function trim_front :: "string list \<Rightarrow> string \<Rightarrow> string" where
  "trim_front ws s =
     (case find (\<lambda>w. w \<noteq> [] \<and> take (length w) s = w) ws of
        None \<Rightarrow> s | Some w \<Rightarrow> trim_front ws (drop (length w) s))"
  by pat_completeness auto
termination
  by (relation "measure (\<lambda>(_, s). length s)") (simp_all only: in_measure prod.case prefix_dropped_shorter wf_measure)

declare trim_front.simps [simp del]

definition str_trim :: "string \<Rightarrow> string" where
  "str_trim s = rev (trim_front (map rev whitespace_chars) (rev (trim_front whitespace_chars s)))"

section \<open>Header types\<close>

datatype ContentType = TextHtml | TextPlain | ApplicationJson | ApplicationCbor | ApplicationOctetStream

definition content_type_from :: "string \<Rightarrow> ContentType" where
  "content_type_from v =
     (if v = ''application/json'' then ApplicationJson else if v = ''application/cbor'' then ApplicationCbor
      else if v = ''text/html'' then TextHtml else if v = ''text/plain'' then TextPlain else ApplicationOctetStream)"

fun content_type_as_str :: "ContentType \<Rightarrow> string" where
  "content_type_as_str TextHtml = ''text/html''"
| "content_type_as_str TextPlain = ''text/plain''"
| "content_type_as_str ApplicationJson = ''application/json''"
| "content_type_as_str ApplicationCbor = ''application/cbor''"
| "content_type_as_str ApplicationOctetStream = ''application/octet-stream''"

definition transfer_encoding_from :: "string \<Rightarrow> TransferEncoding option" where
  "transfer_encoding_from v =
     (if v = ''chunked'' then Some Chunked else if v = ''compress'' then Some Compress
      else if v = ''deflate'' then Some Deflate else if v = ''gzip'' then Some Gzip else None)"

fun transfer_encoding_as_str :: "TransferEncoding \<Rightarrow> string" where
  "transfer_encoding_as_str Deflate = ''deflate''"
| "transfer_encoding_as_str Chunked = ''chunked''"
| "transfer_encoding_as_str Compress = ''compress''"
| "transfer_encoding_as_str Gzip = ''gzip''"

record KeepAlive =
  ka_timeout :: "nat option"
  ka_max :: "nat option"

definition keep_alive_part :: "string \<Rightarrow> KeepAlive \<Rightarrow> KeepAlive" where
  "keep_alive_part part keep_alive =
     (case map str_trim (split_on CHR ''='' part) of
        key # value # _ \<Rightarrow>
          if eq_ignore_ascii_case key ''timeout'' then keep_alive\<lparr>ka_timeout := parse_unsigned 255 value\<rparr>
          else if eq_ignore_ascii_case key ''max'' then keep_alive\<lparr>ka_max := parse_unsigned 255 value\<rparr>
          else keep_alive
      | _ \<Rightarrow> keep_alive)"

definition keep_alive_from :: "string \<Rightarrow> KeepAlive option" where
  "keep_alive_from v =
     (if from_utf8_ok v
      then Some (fold keep_alive_part (split_on CHR '','' v) \<lparr>ka_timeout = None, ka_max = None\<rparr>) else None)"

section \<open>Status codes\<close>

type_synonym StatusCode = u16

datatype Status =
    StatusOk | Created | Accepted | NoContent | PartialContent | MovedPermanently | Found | SeeOther | NotModified
  | TemporaryRedirect | PermanentRedirect | BadRequest | Unauthorized | Forbidden | NotFound | MethodNotAllowed
  | StatusConflict | UnsupportedMediaType | RangeNotSatisfiable | TooManyRequests | InternalServerError | BadGateway
  | ServiceUnavailable | GatewayTimeout | StatusUnknown

fun status_value :: "Status \<Rightarrow> u16" where
  "status_value StatusOk = 200" | "status_value Created = 201" | "status_value Accepted = 202"
| "status_value NoContent = 204" | "status_value PartialContent = 206" | "status_value MovedPermanently = 301"
| "status_value Found = 302" | "status_value SeeOther = 303" | "status_value NotModified = 304"
| "status_value TemporaryRedirect = 307" | "status_value PermanentRedirect = 308" | "status_value BadRequest = 400"
| "status_value Unauthorized = 401" | "status_value Forbidden = 403" | "status_value NotFound = 404"
| "status_value MethodNotAllowed = 405" | "status_value StatusConflict = 409" | "status_value UnsupportedMediaType = 415"
| "status_value RangeNotSatisfiable = 416" | "status_value TooManyRequests = 429" | "status_value InternalServerError = 500"
| "status_value BadGateway = 502" | "status_value ServiceUnavailable = 503" | "status_value GatewayTimeout = 504"
| "status_value StatusUnknown = 0"

definition status_from_code :: "StatusCode \<Rightarrow> Status" where
  "status_from_code n =
     (if n = 200 then StatusOk else if n = 201 then Created else if n = 202 then Accepted else if n = 204 then NoContent
      else if n = 206 then PartialContent else if n = 301 then MovedPermanently else if n = 302 then Found
      else if n = 303 then SeeOther else if n = 304 then NotModified else if n = 307 then TemporaryRedirect
      else if n = 308 then PermanentRedirect else if n = 400 then BadRequest else if n = 401 then Unauthorized
      else if n = 403 then Forbidden else if n = 404 then NotFound else if n = 405 then MethodNotAllowed
      else if n = 409 then StatusConflict else if n = 415 then UnsupportedMediaType else if n = 416 then RangeNotSatisfiable
      else if n = 429 then TooManyRequests else if n = 500 then InternalServerError else if n = 502 then BadGateway
      else if n = 503 then ServiceUnavailable else if n = 504 then GatewayTimeout else StatusUnknown)"

definition status_try_code :: "Status \<Rightarrow> StatusCode option" where
  "status_try_code s = (if s = StatusUnknown then None else Some (status_value s))"

definition code_is_status :: "StatusCode \<Rightarrow> Status \<Rightarrow> bool" where
  "code_is_status code s \<longleftrightarrow> s \<noteq> StatusUnknown \<and> code = status_value s"

definition is_informational :: "StatusCode \<Rightarrow> bool" where "is_informational c \<longleftrightarrow> 100 \<le> c \<and> c \<le> 199"
definition is_successful :: "StatusCode \<Rightarrow> bool" where "is_successful c \<longleftrightarrow> 200 \<le> c \<and> c \<le> 299"
definition code_is_redirection :: "StatusCode \<Rightarrow> bool" where "code_is_redirection c \<longleftrightarrow> 300 \<le> c \<and> c \<le> 399"
definition is_client_error :: "StatusCode \<Rightarrow> bool" where "is_client_error c \<longleftrightarrow> 400 \<le> c \<and> c \<le> 499"
definition is_server_error :: "StatusCode \<Rightarrow> bool" where "is_server_error c \<longleftrightarrow> 500 \<le> c \<and> c \<le> 599"

section \<open>Reading a response\<close>

datatype Method = GET | PUT | POST | DELETE | HEAD | PATCH | OPTIONS | CONNECT | TRACE

text \<open>What the parser says of the bytes read so far: the length of the header, the code and the headers.\<close>

datatype http_parse = ParseFailed | ParsePartial | ParseComplete nat StatusCode "(string \<times> string) list"

record header_fields =
  hf_content_type :: "ContentType option"
  hf_content_length :: "nat option"
  hf_transfer_encoding :: "TransferEncoding list"
  hf_keep_alive :: "KeepAlive option"

definition no_fields :: header_fields where
  "no_fields = \<lparr>hf_content_type = None, hf_content_length = None, hf_transfer_encoding = [], hf_keep_alive = None\<rparr>"

fun known_headers :: "(string \<times> string) list \<Rightarrow> header_fields \<Rightarrow> HttpError + header_fields" where
  "known_headers [] f = Inr f"
| "known_headers ((name, v) # hs) f =
     (if eq_ignore_ascii_case name ''content-type'' then known_headers hs (f\<lparr>hf_content_type := Some (content_type_from v)\<rparr>)
      else if eq_ignore_ascii_case name ''content-length'' then
        if \<not> from_utf8_ok v then Inl CodecError
        else (case parse_unsigned u32_max v of
                None \<Rightarrow> Inl CodecError
              | Some n \<Rightarrow> known_headers hs (f\<lparr>hf_content_length := Some n\<rparr>))
      else if eq_ignore_ascii_case name ''transfer-encoding'' then
        (case transfer_encoding_from v of
           None \<Rightarrow> Inl CodecError
         | Some te \<Rightarrow>
             if length (hf_transfer_encoding f) < 4
             then known_headers hs (f\<lparr>hf_transfer_encoding := hf_transfer_encoding f @ [te]\<rparr>) else Inl CodecError)
      else if eq_ignore_ascii_case name ''keep-alive'' then
        (case keep_alive_from v of
           None \<Rightarrow> Inl CodecError
         | Some ka \<Rightarrow> known_headers hs (f\<lparr>hf_keep_alive := Some ka\<rparr>))
      else known_headers hs f)"

record 'c Response =
  rs_conn :: 'c
  rs_method :: Method
  rs_status :: StatusCode
  rs_fields :: header_fields
  rs_header_buf :: "u8 list"
  rs_header_len :: nat
  rs_raw_body_read :: nat

text \<open>Reads until the parser has the header, or the buffer is full (the length of the header is 0 then).\<close>

function read_header_loop ::
  "(u8 list \<Rightarrow> http_parse) \<Rightarrow> 'c read_fun \<Rightarrow> 'c \<Rightarrow> u8 list \<Rightarrow> nat \<Rightarrow> (HttpError + u8 list \<times> nat \<times> nat) \<times> 'c" where
  "read_header_loop httparse rd c header_buf pos =
     (if pos < length header_buf then
        case rd c (length header_buf - pos) of
          (Inl e, c) \<Rightarrow> (Inl (NetworkError e), c)
        | (Inr bs, c) \<Rightarrow>
            if length bs = 0 then (Inl ConnectionAborted, c)
            else let header_buf = splice header_buf pos bs; pos = pos + length bs
                 in case httparse (take pos header_buf) of
                      ParseFailed \<Rightarrow> (Inl CodecError, c)
                    | ParseComplete header_len _ _ \<Rightarrow> (Inr (header_buf, pos, header_len), c)
                    | ParsePartial \<Rightarrow> read_header_loop httparse rd c header_buf pos
      else (Inr (header_buf, pos, 0), c))"
  by pat_completeness auto
termination
  by (relation "measure (\<lambda>(_, _, _, buf, pos). length buf - pos)") (auto simp: splice_def simp flip: length_greater_0_conv)

declare read_header_loop.simps [simp del]

definition content_length_checked :: "StatusCode \<Rightarrow> nat option \<Rightarrow> HttpError + nat option" where
  "content_length_checked code len =
     (if is_informational code \<or> code_is_status code NoContent then
        if (case len of None \<Rightarrow> 0 | Some n \<Rightarrow> n) \<noteq> 0 then Inl CodecError else Inr (Some 0)
      else Inr len)"

text \<open>
  The code parses the header a second time and unwraps the result; \<open>CodecError\<close> stands there for the
  panic, which the law of the parser excludes.
\<close>

definition response_read ::
  "(u8 list \<Rightarrow> http_parse) \<Rightarrow> 'c read_fun \<Rightarrow> 'c \<Rightarrow> Method \<Rightarrow> u8 list \<Rightarrow> (HttpError + 'c Response) \<times> 'c" where
  "response_read httparse rd c method header_buf =
     (case read_header_loop httparse rd c header_buf 0 of
        (Inl e, c) \<Rightarrow> (Inl e, c)
      | (Inr (header_buf, pos, header_len), c) \<Rightarrow>
          if header_len = 0 then (Inl BufferTooSmall, c)
          else case httparse (take header_len header_buf) of
            ParseComplete _ code headers \<Rightarrow>
              (result_bind (known_headers headers no_fields) (\<lambda>f.
                 result_bind (content_length_checked code (hf_content_length f)) (\<lambda>len.
                   let raw_body_read = pos - header_len
                   in if (case len of None \<Rightarrow> False | Some n \<Rightarrow> n < raw_body_read) then Inl CodecError
                      else Inr \<lparr>rs_conn = c, rs_method = method, rs_status = code,
                        rs_fields = f\<lparr>hf_content_length := len\<rparr>, rs_header_buf = header_buf,
                        rs_header_len = header_len, rs_raw_body_read = raw_body_read\<rparr>)), c)
          | _ \<Rightarrow> (Inl CodecError, c))"

text \<open>The header parsed again, for the iterator over all headers.\<close>

definition response_headers :: "(u8 list \<Rightarrow> http_parse) \<Rightarrow> 'c Response \<Rightarrow> (string \<times> string) list" where
  "response_headers httparse rs =
     (case httparse (take (rs_header_len rs) (rs_header_buf rs)) of ParseComplete _ _ headers \<Rightarrow> headers | _ \<Rightarrow> [])"

section \<open>The body of a response\<close>

datatype ReaderHint = HintEmpty | HintFixedLength nat | HintChunked | HintToEnd

record 'c ResponseBody =
  bd_conn :: 'c
  bd_reader_hint :: ReaderHint
  bd_raw_body_read :: nat
  bd_body_buf :: "u8 list"

definition response_body :: "'c Response \<Rightarrow> 'c ResponseBody" where
  "response_body rs =
     (let reader_hint =
            (if rs_method rs = HEAD then HintEmpty
             else case hf_content_length (rs_fields rs) of
               Some n \<Rightarrow> HintFixedLength n
             | None \<Rightarrow> if Chunked \<in> set (hf_transfer_encoding (rs_fields rs)) then HintChunked else HintToEnd);
          body_bytes = take (rs_raw_body_read rs) (drop (rs_header_len rs) (rs_header_buf rs))
      in \<lparr>bd_conn = rs_conn rs, bd_reader_hint = reader_hint, bd_raw_body_read = rs_raw_body_read rs,
          bd_body_buf = splice (rs_header_buf rs) 0 body_bytes\<rparr>)"

fun hint_reader :: "ReaderHint \<Rightarrow> 'r \<Rightarrow> 'r BodyReader" where
  "hint_reader HintEmpty raw_body = BodyEmpty"
| "hint_reader (HintFixedLength n) raw_body = BodyFixedLength \<lparr>fl_raw_body = raw_body, fl_remaining = of_nat n\<rparr>"
| "hint_reader HintChunked raw_body = BodyChunked (chunked_new raw_body)"
| "hint_reader HintToEnd raw_body = BodyToEnd raw_body"

definition body_reader :: "'c ResponseBody \<Rightarrow> 'c BufferingReader BodyReader" where
  "body_reader bd = hint_reader (bd_reader_hint bd) (buffering_new (bd_body_buf bd) (bd_raw_body_read bd) (bd_conn bd))"

text \<open>A connection read directly, as \<open>read_to_end\<close> does for the part of the body that is not in the buffer.\<close>

definition connection_ops :: "'c connection \<Rightarrow> 'c reader_ops" where
  "connection_ops conn = \<lparr>ro_read = conn_read conn, ro_fill_buf = (\<lambda>c. (Inr [], c)), ro_consume = (\<lambda>c _. c)\<rparr>"

text \<open>The whole body in the buffer of the header; \<open>None\<close> when the loop over chunks does not return.\<close>

definition response_read_to_end :: "hex_lib \<Rightarrow> 'c connection \<Rightarrow> 'c ResponseBody \<Rightarrow> (HttpError + u8 list) option" where
  "response_read_to_end hx conn bd =
     (let raw = bd_raw_body_read bd;
          direct = (\<lambda>b. Some (case body_read_to_end hx (connection_ops conn) b (length (bd_body_buf bd) - raw) of
            (Inl e, _) \<Rightarrow> Inl e | (Inr bs, _) \<Rightarrow> Inr (take raw (bd_body_buf bd) @ bs)))
      in case bd_reader_hint bd of
           HintEmpty \<Rightarrow> Some (Inr [])
         | HintFixedLength n \<Rightarrow> direct (BodyFixedLength \<lparr>fl_raw_body = bd_conn bd, fl_remaining = of_nat (n - raw)\<rparr>)
         | HintChunked \<Rightarrow> chunked_read_to_end hx conn (chunked_new (buffering_new (bd_body_buf bd) raw (bd_conn bd)))
         | HintToEnd \<Rightarrow> direct (BodyToEnd (bd_conn bd)))"

definition response_discard ::
  "hex_lib \<Rightarrow> 'c connection \<Rightarrow> 'c ResponseBody \<Rightarrow> ((HttpError + nat) \<times> 'c BufferingReader BodyReader) option" where
  "response_discard hx conn bd = body_discard hx (buffering_ops conn) (body_reader bd)"

end
