(* ===== verification/Http_Download.thy ===== *)
theory Http_Download
  imports Http_Response
begin

text \<open>
  From the connection to the update: the header and the body of a response whatever the network makes
  of the bytes, and the download loop of the update reading such a body through \<open>read_exact\<close>. This
  joins the HTTP client to the model of \<open>Ota_Flash\<close>, where a body is a list of deliveries.
\<close>

section \<open>The reader of the update on a body\<close>

text \<open>\<open>read_exact\<close> of \<open>flash_write.rs\<close>, on the reader of the client; no read runs into the timeout.\<close>

function http_read_exact ::
  "hex_lib \<Rightarrow> 'r reader_ops \<Rightarrow> 'r BodyReader \<Rightarrow> nat \<Rightarrow> (OtaFlashWriteError + u8 list) \<times> 'r BodyReader" where
  "http_read_exact hx ops b n =
     (if n = 0 then (Inr [], b)
      else case body_fill_buf hx ops b of
        (Inl e, b) \<Rightarrow> (Inl ReadFailed, b)
      | (Inr available, b) \<Rightarrow>
          if available = [] then (Inl ReadFailed, b)
          else let copy = min (length available) n
               in st_bind (http_read_exact hx ops (body_consume ops b copy) (n - copy))
                    (\<lambda>bs b. (Inr (take copy available @ bs), b)))"
  by pat_completeness auto
termination by (relation "measure (\<lambda>(_, _, _, n). n)") (auto simp flip: length_greater_0_conv)

declare http_read_exact.simps [simp del]

text \<open>A sequence of reads, as the loop over chunks makes them, up to the first failure.\<close>

fun reads_in_turn :: "('s \<Rightarrow> nat \<Rightarrow> (OtaFlashWriteError + u8 list) \<times> 's) \<Rightarrow> 's \<Rightarrow> nat list \<Rightarrow> OtaFlashWriteError + u8 list list" where
  "reads_in_turn f s [] = Inr []"
| "reads_in_turn f s (n # ns) =
     (case f s n of
        (Inl e, s) \<Rightarrow> Inl e
      | (Inr bs, s) \<Rightarrow> (case reads_in_turn f s ns of Inl e \<Rightarrow> Inl e | Inr bss \<Rightarrow> Inr (bs # bss)))"

text \<open>The bytes cut off the front of a text, one piece after the other.\<close>

fun cut_pieces :: "u8 list \<Rightarrow> nat list \<Rightarrow> OtaFlashWriteError + u8 list list" where
  "cut_pieces p [] = Inr []"
| "cut_pieces p (n # ns) =
     (if length p < n then Inl ReadFailed
      else case cut_pieces (drop n p) ns of Inl e \<Rightarrow> Inl e | Inr bss \<Rightarrow> Inr (take n p # bss))"

lemma abstract_reads: "reads_in_turn read_exact r ns = cut_pieces (stream_of r) ns"
proof (induction ns arbitrary: r)
  case (Cons n ns)
  obtain res r' where r: "read_exact r n = (res, r')" by fastforce
  have s: "case (res, r') of (Inr bs, r') \<Rightarrow> length bs = n \<and> stream_of r = bs @ stream_of r'
      | (Inl e, _) \<Rightarrow> e = ReadFailed \<and> length (stream_of r) < n"
    using read_exact_refines_stream [of r n] by (simp add: r)
  show ?case
  proof (cases res)
    case (Inl e)
    with s r show ?thesis by simp
  next
    case (Inr bs)
    with s have "length bs = n" "stream_of r = bs @ stream_of r'" by simp_all
    with Inr r Cons.IH [of r'] show ?thesis by (simp split: sum.split)
  qed
qed simp

context raw_reader begin

lemma http_read_exact_fixed:
  assumes "quiet r"
  shows "\<exists>res b. http_read_exact hx ops (BodyFixedLength \<lparr>fl_raw_body = r, fl_remaining = k\<rparr>) n = (res, b) \<and>
    (if n \<le> unat k \<and> n \<le> length (pending r)
     then res = Inr (take n (pending r)) \<and>
       (\<exists>r'. b = BodyFixedLength \<lparr>fl_raw_body = r', fl_remaining = k - of_nat n\<rparr> \<and> quiet r' \<and> pending r' = drop n (pending r))
     else res = Inl ReadFailed)"
  using assms
proof (induction n arbitrary: r k rule: less_induct)
  case (less n)
  let ?b = "BodyFixedLength \<lparr>fl_raw_body = r, fl_remaining = k\<rparr>"
  show ?case
  proof (cases "n = 0")
    case True
    then show ?thesis using less.prems by (subst http_read_exact.simps) auto
  next
    case n: False
    show ?thesis
    proof (cases "k = 0")
      case True
      then show ?thesis using n by (subst http_read_exact.simps) (simp add: fixed_fill_buf_def)
    next
      case k: False
      obtain bs r1 where f: "ro_fill_buf ops r = (Inr bs, r1)" "quiet r1" "pending r1 = pending r"
        "bs = take (length bs) (pending r)" "avail r1 = length bs" "pending r \<noteq> [] \<longrightarrow> bs \<noteq> []"
        by (rule fillE [OF less.prems])
      have kpos: "0 < unat k" using k by (simp add: unat_gt_0)
      let ?av = "take (unat k) bs"
      have fill: "body_fill_buf hx ops ?b =
          (if ?av = [] then Inl ConnectionAborted else Inr ?av, BodyFixedLength \<lparr>fl_raw_body = r1, fl_remaining = k\<rparr>)"
        using k by (simp add: fixed_fill_buf_def f(1) Let_def)
      show ?thesis
      proof (cases "bs = []")
        case True
        with f(6) have "pending r = []" by blast
        with True n fill show ?thesis by (subst http_read_exact.simps) simp
      next
        case False
        then have av: "?av \<noteq> []" using kpos by (cases bs) (auto simp: take_Cons' split: if_splits)
        define copy where "copy = min (length ?av) n"
        have copy: "0 < copy" "copy \<le> n" "copy \<le> unat k" "copy \<le> length bs" "copy \<le> length (pending r)"
        proof -
          have "length bs \<le> length (pending r)" by (subst f(4)) simp
          moreover have "0 < length ?av" using av by blast
          moreover have "length ?av = min (length bs) (unat k)" by simp
          ultimately show "0 < copy" "copy \<le> n" "copy \<le> unat k" "copy \<le> length bs" "copy \<le> length (pending r)"
            using n unfolding copy_def by linarith+
        qed
        have "copy < 2 ^ 32" using copy(3) unsigned_less [where w = k and 'a = nat] by simp
        then have u: "unat (of_nat copy :: u32) = copy" by (simp add: unat_of_nat take_bit_nat_eq_self)
        then have uk: "unat (k - of_nat copy) = unat k - copy" using copy(3) by (simp add: unat_sub word_le_nat_alt)
        let ?r2 = "ro_consume ops r1 copy" and ?k2 = "k - of_nat copy"
        have c: "body_consume ops (BodyFixedLength \<lparr>fl_raw_body = r1, fl_remaining = k\<rparr>) copy =
            BodyFixedLength \<lparr>fl_raw_body = ?r2, fl_remaining = ?k2\<rparr>"
          using copy(3) by (simp add: fixed_consume_def min_def)
        have q: "quiet ?r2" "pending ?r2 = drop copy (pending r)"
          using consume_stream [OF f(2), of copy] f(3,5) copy(4) by simp_all
        have step: "http_read_exact hx ops ?b n =
            st_bind (http_read_exact hx ops (BodyFixedLength \<lparr>fl_raw_body = ?r2, fl_remaining = ?k2\<rparr>) (n - copy))
              (\<lambda>bs b. (Inr (take copy ?av @ bs), b))"
          using n av fill c by (subst http_read_exact.simps) (simp add: Let_def copy_def)
        have t: "take copy ?av = take copy (pending r)"
          using copy f(4) by (metis min.absorb1 take_take)
        have t2: "take copy bs = take copy (pending r)" using copy(4) f(4) by (metis min.absorb1 take_take)
        have "n - copy < n" using copy n by simp
        from less.IH [OF this q(1), of ?k2] obtain res b where ih:
          "http_read_exact hx ops (BodyFixedLength \<lparr>fl_raw_body = ?r2, fl_remaining = ?k2\<rparr>) (n - copy) = (res, b)"
          "if n - copy \<le> unat ?k2 \<and> n - copy \<le> length (pending ?r2)
           then res = Inr (take (n - copy) (pending ?r2)) \<and>
             (\<exists>r'. b = BodyFixedLength \<lparr>fl_raw_body = r', fl_remaining = ?k2 - of_nat (n - copy)\<rparr> \<and> quiet r' \<and>
               pending r' = drop (n - copy) (pending ?r2))
           else res = Inl ReadFailed" by blast
        have cond: "n - copy \<le> unat ?k2 \<and> n - copy \<le> length (pending ?r2) \<longleftrightarrow> n \<le> unat k \<and> n \<le> length (pending r)"
          using copy uk q(2) by auto
        have sub: "?k2 - of_nat (n - copy) = k - of_nat n" using copy(2) by (simp add: of_nat_diff)
        have tt: "take copy (pending r) @ take (n - copy) (drop copy (pending r)) = take n (pending r)"
          using copy(2) by (metis le_add_diff_inverse take_add)
        show ?thesis
        proof (cases "n \<le> unat k \<and> n \<le> length (pending r)")
          case True
          with ih cond have "res = Inr (take (n - copy) (pending ?r2))"
            "\<exists>r'. b = BodyFixedLength \<lparr>fl_raw_body = r', fl_remaining = ?k2 - of_nat (n - copy)\<rparr> \<and> quiet r' \<and>
               pending r' = drop (n - copy) (pending ?r2)" by simp_all
          then show ?thesis using True ih(1) copy(2) by (simp add: step t t2 q(2) tt sub)
        next
          case False
          with ih cond show ?thesis by (simp add: step)
        qed
      qed
    qed
  qed
qed

lemma http_reads_fixed:
  "quiet r \<Longrightarrow> reads_in_turn (http_read_exact hx ops) (BodyFixedLength \<lparr>fl_raw_body = r, fl_remaining = k\<rparr>) ns =
    cut_pieces (take (unat k) (pending r)) ns"
proof (induction ns arbitrary: r k)
  case (Cons n ns)
  obtain res b where h: "http_read_exact hx ops (BodyFixedLength \<lparr>fl_raw_body = r, fl_remaining = k\<rparr>) n = (res, b)"
    "if n \<le> unat k \<and> n \<le> length (pending r)
     then res = Inr (take n (pending r)) \<and>
       (\<exists>r'. b = BodyFixedLength \<lparr>fl_raw_body = r', fl_remaining = k - of_nat n\<rparr> \<and> quiet r' \<and> pending r' = drop n (pending r))
     else res = Inl ReadFailed"
    using http_read_exact_fixed [OF Cons.prems] by blast
  show ?case
  proof (cases "n \<le> unat k \<and> n \<le> length (pending r)")
    case True
    with h obtain r' where r': "res = Inr (take n (pending r))" "b = BodyFixedLength \<lparr>fl_raw_body = r', fl_remaining = k - of_nat n\<rparr>"
      "quiet r'" "pending r' = drop n (pending r)" by auto
    have "n < 2 ^ 32" using True unsigned_less [where w = k and 'a = nat] by simp
    then have "unat (of_nat n :: u32) = n" by (simp add: unat_of_nat take_bit_nat_eq_self)
    then have "unat (k - of_nat n) = unat k - n" using True by (simp add: unat_sub word_le_nat_alt)
    then have "take (unat (k - of_nat n)) (pending r') = drop n (take (unat k) (pending r))" by (simp add: r'(4) drop_take)
    moreover have "take n (take (unat k) (pending r)) = take n (pending r)" "\<not> length (take (unat k) (pending r)) < n"
      using True by (simp_all add: min_def)
    ultimately show ?thesis using Cons.IH [OF r'(3), of "k - of_nat n"] h(1) r'(1,2)
      by (simp only: reads_in_turn.simps cut_pieces.simps prod.case sum.case if_False)
  next
    case False
    with h show ?thesis by auto
  qed
qed simp

end

section \<open>The header\<close>

text \<open>
  What the client relies on of the parser of headers: it needs the bytes of the header and no others,
  and until they are there it asks for more.
\<close>

definition httparse_law :: "(u8 list \<Rightarrow> http_parse) \<Rightarrow> bool" where
  "httparse_law httparse \<longleftrightarrow>
     (\<forall>p n code hs. httparse p = ParseComplete n code hs \<longrightarrow>
        0 < n \<and> n \<le> length p \<and> (\<forall>q. httparse (take n p @ q) = ParseComplete n code hs) \<and>
        (\<forall>k < n. httparse (take k p) = ParsePartial))"

lemma read_header_loop_stream:
  assumes "reads_stream rd pending quiet" "httparse_law httparse" "quiet c" "pos \<le> length buf" "pos < n" "n \<le> length buf"
    and "httparse (take pos buf @ pending c) = ParseComplete n code hs"
  shows "\<exists>buf' pos' c'. read_header_loop httparse rd c buf pos = (Inr (buf', pos', n), c') \<and> quiet c' \<and>
    length buf' = length buf \<and> n \<le> pos' \<and> pos' \<le> length buf \<and> take pos' buf' @ pending c' = take pos buf @ pending c"
  using assms(3-7)
proof (induction "length buf - pos" arbitrary: c buf pos rule: less_induct)
  case less
  let ?p = "take pos buf @ pending c"
  have law: "n \<le> length ?p" "\<And>q. httparse (take n ?p @ q) = ParseComplete n code hs" "\<And>k. k < n \<Longrightarrow> httparse (take k ?p) = ParsePartial"
    using assms(2) less.prems(5) unfolding httparse_law_def by blast+
  obtain bs c1 where r: "rd c (length buf - pos) = (Inr bs, c1)" "quiet c1" "pending c = bs @ pending c1" "length bs \<le> length buf - pos"
    "0 < length buf - pos \<longrightarrow> pending c \<noteq> [] \<longrightarrow> bs \<noteq> []"
    using assms(1) less.prems(1) unfolding reads_stream_def by metis
  have "pending c \<noteq> []" using law(1) less.prems(2,3) by (cases "pending c") auto
  then have bs: "bs \<noteq> []" using r(5) less.prems(3,4) by auto
  let ?buf = "splice buf pos bs" and ?pos = "pos + length bs"
  have len: "length ?buf = length buf" using r(4) less.prems(2) by simp
  have t: "take ?pos ?buf = take pos buf @ bs"
    using r(4) less.prems(2) by (simp add: splice_def)
  have same: "take ?pos ?buf @ pending c1 = ?p" by (simp add: t r(3))
  have pre: "take ?pos ?buf = take ?pos ?p" using less.prems(2) by (simp add: t r(3))
  have lt: "pos < length buf" using less.prems(3,4) by simp
  show ?case
  proof (cases "n \<le> ?pos")
    case True
    have "take ?pos ?p = take n ?p @ drop n (take ?pos ?p)"
      using True by (metis append_take_drop_id min.absorb1 take_take)
    then have "httparse (take ?pos ?buf) = ParseComplete n code hs" using law(2) pre by metis
    then have "read_header_loop httparse rd c buf pos = (Inr (?buf, ?pos, n), c1)"
      using lt r(1) bs by (subst read_header_loop.simps) (simp add: Let_def)
    then show ?thesis using True len same r(2,4) less.prems(2) by auto
  next
    case False
    then have "httparse (take ?pos ?buf) = ParsePartial" unfolding pre by (intro law(3)) simp
    then have eq: "read_header_loop httparse rd c buf pos = read_header_loop httparse rd c1 ?buf ?pos"
      using lt r(1) bs by (subst read_header_loop.simps) (simp add: Let_def)
    have "length ?buf - ?pos < length buf - pos" using len lt bs by (simp add: diff_less_mono2 flip: length_greater_0_conv)
    moreover have "httparse (take ?pos ?buf @ pending c1) = ParseComplete n code hs" using same less.prems(5) by simp
    ultimately have "\<exists>buf' pos' c'. read_header_loop httparse rd c1 ?buf ?pos = (Inr (buf', pos', n), c') \<and> quiet c' \<and>
        length buf' = length ?buf \<and> n \<le> pos' \<and> pos' \<le> length ?buf \<and> take pos' buf' @ pending c' = take ?pos ?buf @ pending c1"
      using False len less.prems(4) r(2) by (intro less.hyps) auto
    then show ?thesis unfolding eq same len .
  qed
qed

text \<open>A response with its length announced and not exceeded, from the header to the reader of its body.\<close>

lemma response_with_length:
  assumes "connection_law conn pending quiet avail" "httparse_law httparse" "quiet c"
    and "httparse (pending c) = ParseComplete n 200 hs" "n \<le> length header_buf"
    and "known_headers hs no_fields = Inr f" "hf_content_length f = Some len" "length (pending c) - n \<le> len"
  obtains rs c' br where "response_read httparse (conn_read conn) c GET header_buf = (Inr rs, c')"
    "rs_status rs = 200" "rs_fields rs = f"
    "body_reader (response_body rs) = BodyFixedLength \<lparr>fl_raw_body = br, fl_remaining = of_nat len\<rparr>"
    "buffered_quiet quiet br" "buffered_pending pending br = drop n (pending c)"
proof -
  have rd: "reads_stream (conn_read conn) pending quiet" using assms(1) by (simp add: connection_law_def)
  have n: "0 < n" "n \<le> length (pending c)" "\<And>q. httparse (take n (pending c) @ q) = ParseComplete n 200 hs"
    using assms(2,4) unfolding httparse_law_def by blast+
  obtain buf pos c' where loop: "read_header_loop httparse (conn_read conn) c header_buf 0 = (Inr (buf, pos, n), c')"
    "quiet c'" "length buf = length header_buf" "n \<le> pos" "pos \<le> length header_buf" "take pos buf @ pending c' = pending c"
    using read_header_loop_stream [OF rd assms(2,3) _ n(1) assms(5), of 200 hs] assms(4) by auto
  have t: "take n buf = take n (pending c)"
    using loop(4) by (simp flip: loop(6)) (use loop(3,5) in \<open>simp add: min_def\<close>)
  have again: "httparse (take n buf) = ParseComplete n 200 hs" unfolding t using n(3) [of "[]"] by simp
  let ?raw = "pos - n"
  have pos: "pos \<le> length (pending c)" using loop(3,5) by (simp flip: loop(6))
  then have raw: "\<not> len < ?raw" using assms(8) by linarith
  have ok: "content_length_checked 200 (Some len) = Inr (Some len)"
    by (simp add: content_length_checked_def is_informational_def code_is_status_def)
  have same: "f\<lparr>hf_content_length := Some len\<rparr> = f" using assms(7) by (cases f) simp
  let ?rs = "\<lparr>rs_conn = c', rs_method = GET, rs_status = 200, rs_fields = f, rs_header_buf = buf,
      rs_header_len = n, rs_raw_body_read = ?raw\<rparr>"
  have read: "response_read httparse (conn_read conn) c GET header_buf = (Inr ?rs, c')"
    using n(1) raw by (simp add: response_read_def loop(1) again assms(6,7) ok same Let_def)
  let ?bytes = "take ?raw (drop n buf)"
  let ?br = "buffering_new (splice buf 0 ?bytes) ?raw c'"
  have bl: "length ?bytes = ?raw" using loop(3,4,5) by simp
  have body: "body_reader (response_body ?rs) = BodyFixedLength \<lparr>fl_raw_body = ?br, fl_remaining = of_nat len\<rparr>"
    by (simp add: body_reader_def response_body_def assms(7) Let_def)
  have sl: "length (splice buf 0 ?bytes) = length header_buf" using loop(3,5) bl by simp
  have "take ?raw (splice buf 0 ?bytes) = ?bytes" using bl by (simp add: splice_def)
  then have "buffered_pending pending ?br = ?bytes @ pending c'" by (simp add: buffered_pending_def buffering_new_def)
  also have "\<dots> = drop n (take pos buf) @ pending c'" using loop(4) by (simp add: drop_take)
  also have "\<dots> = drop n (pending c)" using loop(3,4,5) by (simp flip: loop(6))
  finally have pend: "buffered_pending pending ?br = drop n (pending c)" .
  have "buffered_quiet quiet ?br"
    using loop(2,5) sl n(1) assms(5) by (auto simp: buffered_quiet_def buffering_new_def simp flip: length_greater_0_conv)
  from that [OF read _ _ body this pend] show ?thesis by simp
qed

text \<open>
  C17: The download of an update reads the body the server sent. When the connection keeps to the
  contract of a byte stream and the header announces a length that the server does not exceed, the
  client reads the response, however the network cuts header and body and wherever the header ends
  in its buffer; and every sequence of reads the update makes through \<open>read_exact\<close> gives what it
  gives on any list of deliveries of the body, which is what the theorems on updates start from.
\<close>
theorem update_reads_http_body:
  assumes "connection_law conn pending quiet avail" "httparse_law httparse" "quiet c"
    and "httparse (pending c) = ParseComplete n 200 hs" "n \<le> length header_buf"
    and "known_headers hs no_fields = Inr f" "hf_content_length f = Some len" "len < 2 ^ 32"
    and "length (pending c) - n \<le> len" "stream_of fs = drop n (pending c)"
  shows "\<exists>rs c'. response_read httparse (conn_read conn) c GET header_buf = (Inr rs, c') \<and>
    rs_status rs = 200 \<and> rs_fields rs = f \<and>
    (\<forall>ns. reads_in_turn (http_read_exact hx (buffering_ops conn)) (body_reader (response_body rs)) ns =
      reads_in_turn read_exact fs ns)"
proof -
  obtain rs c' br where r: "response_read httparse (conn_read conn) c GET header_buf = (Inr rs, c')"
    "rs_status rs = 200" "rs_fields rs = f"
    "body_reader (response_body rs) = BodyFixedLength \<lparr>fl_raw_body = br, fl_remaining = of_nat len\<rparr>"
    "buffered_quiet quiet br" "buffered_pending pending br = drop n (pending c)"
    by (rule response_with_length [OF assms(1-7,9)])
  have u: "unat (of_nat len :: u32) = len" using assms(8) by (simp add: unat_of_nat take_bit_nat_eq_self)
  have "reads_in_turn (http_read_exact hx (buffering_ops conn)) (body_reader (response_body rs)) ns = reads_in_turn read_exact fs ns" for ns
    using raw_reader.http_reads_fixed [OF buffering_reader [OF assms(1)] r(5), of hx "of_nat len" ns] assms(9)
    by (simp add: r(4,6) u abstract_reads assms(10))
  with r show ?thesis by blast
qed

text \<open>A parser for one fixed header, to satisfy the law.\<close>

definition fixed_header :: "u8 list" where
  "fixed_header = string_bytes ''HTTP/1.1 200 OK'' @ [13, 10, 13, 10]"

definition fixed_parser :: "u8 list \<Rightarrow> http_parse" where
  "fixed_parser p =
     (if take (length fixed_header) p = fixed_header
      then ParseComplete (length fixed_header) 200 [(''Content-Length'', ''5'')]
      else if p = take (length p) fixed_header then ParsePartial else ParseFailed)"

lemma fixed_parser_law: "httparse_law fixed_parser"
  unfolding httparse_law_def
proof (intro allI impI)
  fix p n code hs assume "fixed_parser p = ParseComplete n code hs"
  then have p: "take (length fixed_header) p = fixed_header" "n = length fixed_header" "code = 200" "hs = [(''Content-Length'', ''5'')]"
    by (auto simp: fixed_parser_def split: if_splits)
  have pos: "0 < length fixed_header" by (simp add: fixed_header_def)
  have "length fixed_header \<le> length p" using p(1) by (metis length_take min.cobounded1)
  moreover have "fixed_parser (take k p) = ParsePartial" if "k < length fixed_header" for k
  proof -
    have k: "take k p = take k fixed_header" using that p(1) by (metis min.absorb3 take_take)
    have "length (take k fixed_header) = k" using that by simp
    moreover have "take (length fixed_header) (take k fixed_header) \<noteq> fixed_header"
    proof
      assume "take (length fixed_header) (take k fixed_header) = fixed_header"
      then have "length (take (length fixed_header) (take k fixed_header)) = length fixed_header" by simp
      with that show False by simp
    qed
    ultimately show ?thesis unfolding k by (simp add: fixed_parser_def)
  qed
  ultimately show "0 < n \<and> n \<le> length p \<and> (\<forall>q. fixed_parser (take n p @ q) = ParseComplete n code hs) \<and>
      (\<forall>k<n. fixed_parser (take k p) = ParsePartial)"
    using pos p by (simp add: fixed_parser_def)
qed

theorem update_reads_http_body_witness:
  "\<exists>rs c'. response_read fixed_parser (conn_read wire) [Deliver (take 7 fixed_header), Deliver (drop 7 fixed_header @ [1, 2]), Deliver [3]]
      GET (replicate 64 0) = (Inr rs, c') \<and>
    reads_in_turn (http_read_exact hex_crate (buffering_ops wire)) (body_reader (response_body rs)) [1, 2, 1] = Inl ReadFailed"
proof -
  let ?c = "[Deliver (take 7 fixed_header), Deliver (drop 7 fixed_header @ [1, 2]), Deliver [3]]"
  let ?f = "no_fields\<lparr>hf_content_length := Some 5\<rparr>"
  have p: "wire_pending ?c = fixed_header @ [1, 2, 3]" by (simp add: append_take_drop_id flip: append_assoc)
  have l: "length fixed_header = 19" by code_simp
  have c: "fixed_parser (wire_pending ?c) = ParseComplete 19 200 [(''Content-Length'', ''5'')]"
    unfolding p by (simp add: fixed_parser_def l)
  have name: "\<not> eq_ignore_ascii_case ''Content-Length'' ''content-type''" "eq_ignore_ascii_case ''Content-Length'' ''content-length''"
    "from_utf8_ok ''5''" by code_simp+
  have "parse_unsigned u32_max ''5'' = Some 5"
    by (simp add: parse_unsigned_def u32_max_def is_ascii_digit_def char_code_def decimal_value_def digit_value_def)
  then have f: "known_headers [(''Content-Length'', ''5'')] no_fields = Inr ?f" using name by simp
  have q: "wire_quiet ?c" by (simp add: wire_quiet_def)
  have "drop 19 (wire_pending ?c) = [1, 2, 3]" unfolding p l [symmetric] by simp
  then show ?thesis
    using update_reads_http_body [OF wire_law fixed_parser_law q c _ f, of "replicate 64 0" 5 "[Avail [1], Avail [2, 3]]" hex_crate]
    by (auto simp: abstract_reads p l simp del: reads_in_turn.simps)
qed

section \<open>Bodies that are not as announced\<close>

text \<open>
  \<open>read\<close> on a body of known length is not limited to the length: bytes behind the body are taken for
  part of it, and the count of remaining bytes wraps around. The update reads with \<open>fill_buf\<close>, which
  is limited.
\<close>

lemma fixed_read_overruns:
  "fixed_read (buffering_ops wire) \<lparr>fl_raw_body = buffering_new [0] 0 [Deliver [1, 2, 3]], fl_remaining = 2\<rparr> 8 =
    (Inr [1, 2, 3], \<lparr>fl_raw_body = buffering_new [0] 0 [], fl_remaining = 0xFFFFFFFF\<rparr>)"
  by (simp add: fixed_read_def buffering_ops_def buffering_read_def buffering_new_def wire_def)

text \<open>
  When the connection ends inside a chunk, reading the whole body into the buffer of the header never
  returns: every round gets nothing and starts the next one in the same state.
\<close>

definition ended_in_chunk :: "'c connection \<Rightarrow> 'c BufferingReader ChunkedBodyReader \<Rightarrow> bool" where
  "ended_in_chunk conn ck \<longleftrightarrow>
     (\<exists>k. k \<noteq> 0 \<and> ck_chunk_remaining ck = NotEmpty k) \<and> rb_buffer (br_buffer (ck_raw_body ck)) \<noteq> [] \<and>
     rb_loaded (br_buffer (ck_raw_body ck)) = 0 \<and> br_force_local_buffer (ck_raw_body ck) \<and>
     (\<forall>n. conn_read conn (br_stream (ck_raw_body ck)) n = (Inr [], br_stream (ck_raw_body ck)))"

lemma ended_in_chunk_round:
  assumes "ended_in_chunk conn ck"
  shows "chunked_fill_buf hx (buffering_ops conn) ck = (Inr [], ck)"
proof -
  obtain k br where ck: "ck = \<lparr>ck_raw_body = br, ck_chunk_remaining = NotEmpty k\<rparr>" "k \<noteq> 0"
    using assms by (cases ck) (auto simp: ended_in_chunk_def)
  obtain rb s where br: "br = \<lparr>br_buffer = rb, br_stream = s, br_force_local_buffer = True\<rparr>"
    using assms ck by (cases br) (auto simp: ended_in_chunk_def)
  obtain buf where rb: "rb = \<lparr>rb_buffer = buf, rb_loaded = 0\<rparr>" "buf \<noteq> []"
    using assms ck br by (cases rb) (auto simp: ended_in_chunk_def)
  have "conn_read conn s (length buf) = (Inr [], s)" using assms ck br rb by (simp add: ended_in_chunk_def)
  with ck br rb show ?thesis
    by (simp add: chunked_fill_buf_def handle_chunk_boundary_def buffering_ops_def buffering_fill_buf_def
        read_buffer_fill_buf_def splice_def unat_eq_zero)
qed

lemma ended_in_chunk_consume:
  assumes "ended_in_chunk conn ck"
  shows "chunked_consume (buffering_ops conn) ck 0 = ck"
proof -
  obtain k br where ck: "ck = \<lparr>ck_raw_body = br, ck_chunk_remaining = NotEmpty k\<rparr>"
    using assms by (cases ck) (auto simp: ended_in_chunk_def)
  then have "rb_loaded (br_buffer br) = 0" using assms by (simp add: ended_in_chunk_def)
  then show ?thesis
    by (simp add: ck chunked_consume_def buffering_ops_def buffering_consume_def read_buffer_consume_def splice_def min_def)
qed

lemma truncated_chunk_never_returns:
  fixes conn :: "'c connection"
  assumes "ended_in_chunk conn ck"
  shows "chunked_to_end_loop hx conn passed ck len = None"
proof -
  have "\<not> ended_in_chunk conn ck" if "chunked_to_end_loop hx conn passed ck len = Some y"
    for hx and conn :: "'c connection" and passed ck len y
  proof (rule chunked_to_end_loop.raw_induct [where P = "\<lambda>hx conn passed ck len y. \<not> ended_in_chunk conn ck", OF _ that])
    fix loop and hx :: hex_lib and conn :: "'c connection" and passed ck and len :: nat
      and y :: "HttpError + u8 list \<times> nat \<times> 'c BufferingReader ChunkedBodyReader"
    assume ih: "\<And>hx conn passed ck len y. loop hx conn passed ck len = Some y \<Longrightarrow> \<not> ended_in_chunk conn ck"
      and st: "(if rb_buffer (br_buffer (ck_raw_body ck)) = [] then Some (Inr (passed, len, ck))
        else case chunked_fill_buf hx (buffering_ops conn) ck of
          (Inl e, ck) \<Rightarrow> Some (Inl e)
        | (Inr bs, ck) \<Rightarrow>
            let br = ck_raw_body ck; rb = br_buffer br;
                was_loaded = rb_loaded rb; fake_loaded = min (length bs) was_loaded;
                ck = chunked_consume (buffering_ops conn)
                  (ck\<lparr>ck_raw_body := br\<lparr>br_buffer := rb\<lparr>rb_loaded := fake_loaded\<rparr>\<rparr>\<rparr>) (length bs)
            in if chunked_is_done ck then Some (Inr (passed, len + length bs, ck))
               else
                 let br = ck_raw_body ck; rb = br_buffer br;
                     consumed_from_buffer = fake_loaded - rb_loaded rb
                 in loop hx conn (passed @ take consumed_from_buffer (rb_buffer rb))
                      (ck\<lparr>ck_raw_body := br\<lparr>br_buffer := \<lparr>rb_buffer = drop consumed_from_buffer (rb_buffer rb),
                         rb_loaded = was_loaded - consumed_from_buffer\<rparr>\<rparr>\<rparr>)
                      (len + length bs)) = Some y"
    show "\<not> ended_in_chunk conn ck"
    proof
      assume e: "ended_in_chunk conn ck"
      then have u: "ck\<lparr>ck_raw_body := (ck_raw_body ck)\<lparr>br_buffer := (br_buffer (ck_raw_body ck))\<lparr>rb_loaded := 0\<rparr>\<rparr>\<rparr> = ck"
        and u': "ck\<lparr>ck_raw_body := (ck_raw_body ck)\<lparr>br_buffer := \<lparr>rb_buffer = rb_buffer (br_buffer (ck_raw_body ck)),
          rb_loaded = 0\<rparr>\<rparr>\<rparr> = ck"
        by (simp_all add: ended_in_chunk_def)
      have "\<not> chunked_is_done ck" "rb_buffer (br_buffer (ck_raw_body ck)) \<noteq> []" "rb_loaded (br_buffer (ck_raw_body ck)) = 0"
        using e by (auto simp: ended_in_chunk_def chunked_is_done_def)
      with st u u' have "loop hx conn passed ck len = Some y"
        by (simp add: ended_in_chunk_round [OF e] ended_in_chunk_consume [OF e] Let_def)
      with ih e show False by blast
    qed
  qed
  with assms show ?thesis by (meson option.exhaust)
qed

end
