(* ===== verification/Http_Sending.thy ===== *)
theory Http_Sending
  imports Http_Framing
begin

text \<open>
  What the writers of request bodies send: a text in chunks, which the decoder of \<open>Http_Framing\<close>
  takes back to what the body wrote, with or without the buffer in between.
\<close>

section \<open>The digits of a length\<close>

lemma nibbles:
  "(n div a mod 256) div 16 = n div (a * 16) mod (16 :: nat)" "n div a mod 256 mod 16 = n div a mod (16 :: nat)"
proof -
  have x: "x mod 256 div 16 = x div 16 mod 16" "x mod 256 mod 16 = x mod (16 :: nat)" for x
    using mod_mult2_eq [of x 16 16] by simp_all
  show "(n div a mod 256) div 16 = n div (a * 16) mod (16 :: nat)" by (simp only: x div_mult2_eq)
  show "n div a mod 256 mod 16 = n div a mod (16 :: nat)" by (rule x)
qed

lemma hex_text_u32:
  "hex_text (u32_to_be_bytes w) = map (\<lambda>i. hex_char (unat w div 16 ^ (7 - i) mod 16)) [0..<8]"
proof -
  have u: "[0..<8] = [0, 1, 2, 3, 4, 5, 6, 7]" by code_simp
  show ?thesis
    unfolding u using unat_byte [of 0 w] nibbles [of "unat w" 1]
    by (simp add: hex_text_def u32_to_be_bytes_def u32_to_le_bytes_def unat_byte nibbles)
qed

lemma hex_char_zero [simp]: "hex_char 0 = 48"
  by (simp add: hex_char_def)

lemma hex_char_ends_no_line: "d < 16 \<Longrightarrow> hex_char d \<noteq> 10 \<and> hex_char d \<noteq> 13"
proof -
  assume "d < 16"
  moreover have "list_all (\<lambda>d. hex_char d \<noteq> 10 \<and> hex_char d \<noteq> 13) [0..<16]" by code_simp
  ultimately show ?thesis by (auto simp: list_all_iff)
qed

text \<open>Leading zeros are dropped down to one digit.\<close>

definition drop_zeros :: "u8 list \<Rightarrow> u8 list" where
  "drop_zeros hex =
     (let leading = length (takeWhile (\<lambda>x. x = 48) hex)
      in drop (if leading < length hex then leading else length hex - 1) hex)"

lemma drop_zeros_facts:
  assumes "hex \<noteq> []"
  shows "drop_zeros hex \<noteq> []" "length (drop_zeros hex) \<le> length hex" "set (drop_zeros hex) \<subseteq> set hex"
    "replicate (length hex - length (drop_zeros hex)) 48 @ drop_zeros hex = hex"
proof -
  let ?l = "length (takeWhile (\<lambda>x. x = 48) hex)"
  let ?k = "if ?l < length hex then ?l else length hex - 1"
  have k: "?k \<le> ?l" "?k < length hex" using assms length_takeWhile_le [of "\<lambda>x. x = 48" hex] by auto
  have t: "take ?k hex = replicate ?k 48"
  proof (rule nth_equalityI)
    fix i assume "i < length (take ?k hex)"
    then have i: "i < ?k" "i < ?l" using k by auto
    have "takeWhile (\<lambda>x. x = 48) hex ! i \<in> set (takeWhile (\<lambda>x. x = 48) hex)" by (rule nth_mem [OF i(2)])
    then have "takeWhile (\<lambda>x. x = 48) hex ! i = 48" by (auto dest: set_takeWhileD)
    then show "take ?k hex ! i = replicate ?k 48 ! i" using i by (simp add: takeWhile_nth)
  qed (use k in auto)
  have d: "drop_zeros hex = drop ?k hex" by (simp add: drop_zeros_def)
  show "drop_zeros hex \<noteq> []" "length (drop_zeros hex) \<le> length hex" "set (drop_zeros hex) \<subseteq> set hex"
    using k(2) by (auto simp: d set_drop_subset dest: in_set_dropD)
  have r: "replicate ?k 48 @ drop ?k hex = hex" unfolding t [symmetric] by (rule append_take_drop_id)
  have "length hex - length (drop_zeros hex) = ?k" using k(2) by (auto simp: d)
  then show "replicate (length hex - length (drop_zeros hex)) 48 @ drop_zeros hex = hex"
    by (simp only:) (simp only: d r)
qed

lemma drop_zeros_short:
  assumes "\<forall>i < m. hex ! i = 48" "m < length hex"
  shows "length (drop_zeros hex) \<le> length hex - m"
proof -
  have "m \<le> length (takeWhile (\<lambda>x. x = 48) hex)"
  proof (rule ccontr)
    assume "\<not> m \<le> length (takeWhile (\<lambda>x. x = 48) hex)"
    then have l: "length (takeWhile (\<lambda>x. x = 48) hex) < m" by simp
    with assms(2) have "hex ! length (takeWhile (\<lambda>x. x = 48) hex) \<noteq> 48" by (intro nth_length_takeWhile) simp
    with assms(1) l show False by blast
  qed
  with assms(2) show ?thesis by (auto simp: drop_zeros_def Let_def)
qed

lemma chunk_digits_eq:
  assumes "hex_law hx"
  shows "chunk_digits hx n = drop_zeros (hex_text (u32_to_be_bytes (of_nat n)))"
  using assms by (simp add: chunk_digits_def drop_zeros_def hex_law_def Let_def)

lemma length_hex_text [simp]: "length (hex_text bs) = 2 * length bs"
  by (induction bs) (auto simp: hex_text_def)

lemma chunk_digits_facts:
  assumes "hex_law hx"
  shows "chunk_digits hx n \<noteq> []" "length (chunk_digits hx n) \<le> 8" "10 \<notin> set (chunk_digits hx n)"
    "hex_decode hx (replicate (8 - length (chunk_digits hx n)) 48 @ chunk_digits hx n) = Some (u32_to_be_bytes (of_nat n))"
proof -
  let ?hex = "hex_text (u32_to_be_bytes (of_nat n))"
  have l: "length ?hex = 8" by simp
  then have ne: "?hex \<noteq> []" by fastforce
  note f = drop_zeros_facts [OF ne, folded chunk_digits_eq [OF assms], unfolded l]
  show "chunk_digits hx n \<noteq> []" "length (chunk_digits hx n) \<le> 8" by (rule f)+
  have "10 \<notin> set ?hex" unfolding hex_text_u32 using hex_char_ends_no_line by fastforce
  with f(3) show "10 \<notin> set (chunk_digits hx n)" by blast
  show "hex_decode hx (replicate (8 - length (chunk_digits hx n)) 48 @ chunk_digits hx n) = Some (u32_to_be_bytes (of_nat n))"
    using assms unfolding f(4) by (simp add: hex_law_def)
qed

lemma chunk_digits_short:
  assumes "hex_law hx" "n < 16 ^ k" "0 < k" "n < 2 ^ 32"
  shows "length (chunk_digits hx n) \<le> k"
proof (cases "k < 8")
  case False
  then show ?thesis using chunk_digits_facts(2) [OF assms(1), of n] by linarith
next
  case True
  let ?hex = "hex_text (u32_to_be_bytes (of_nat n))"
  have u: "unat (of_nat n :: u32) = n" using assms(4) by (simp add: unat_of_nat take_bit_nat_eq_self)
  have "?hex ! i = 48" if "i < 8 - k" for i
  proof -
    have "(16 :: nat) ^ k \<le> 16 ^ (7 - i)" using that by (intro power_increasing) auto
    then have "n div 16 ^ (7 - i) = 0" using assms(2) by (meson div_less order.strict_trans2)
    then show ?thesis using that by (simp add: hex_text_u32 u)
  qed
  then have "length (drop_zeros ?hex) \<le> length ?hex - (8 - k)" using assms(3) by (intro drop_zeros_short) auto
  then show ?thesis using True by (simp add: chunk_digits_eq [OF assms(1)])
qed

section \<open>The text of a body in chunks\<close>

definition chunk_text :: "hex_lib \<Rightarrow> u8 list \<Rightarrow> u8 list" where
  "chunk_text hx c = chunk_digits hx (length c) @ NEWLINE @ c @ NEWLINE"

definition chunks_text :: "hex_lib \<Rightarrow> u8 list list \<Rightarrow> u8 list" where
  "chunks_text hx cs = concat (map (chunk_text hx) cs)"

definition chunk_ok :: "u8 list \<Rightarrow> bool" where
  "chunk_ok c \<longleftrightarrow> c \<noteq> [] \<and> length c < 2 ^ 32"

lemma chunk_line_found:
  "10 \<notin> set xs \<Longrightarrow> length xs < places \<Longrightarrow> acc @ xs \<noteq> [] \<Longrightarrow> last (acc @ xs) = 13 \<Longrightarrow>
    chunk_line acc (xs @ 10 # p) places = Inr (acc @ xs, p)"
proof (induction xs arbitrary: acc places)
  case Nil
  then show ?case by (cases places) auto
next
  case (Cons x xs)
  then obtain k where k: "places = Suc k" by (cases places) auto
  have "chunk_line (acc @ [x]) (xs @ 10 # p) k = Inr ((acc @ [x]) @ xs, p)"
    using Cons.prems k by (intro Cons.IH) auto
  with Cons.prems k show ?case by auto
qed

lemma next_chunk_digits:
  assumes "hex_law hx" "n < 2 ^ 32"
  shows "next_chunk hx (chunk_digits hx n @ NEWLINE @ p) = Inr (of_nat n, p)"
proof -
  note f = chunk_digits_facts [OF assms(1), of n]
  have "chunk_line [] ((chunk_digits hx n @ [13]) @ 10 # p) 10 = Inr ([] @ chunk_digits hx n @ [13], p)"
    using f(2,3) by (intro chunk_line_found) auto
  then show ?thesis using f(4) by (simp add: next_chunk_def NEWLINE_def line_value_def Let_def)
qed

lemma decode_chunk_text:
  assumes "hex_law hx" "chunk_ok c"
  shows "decode_chunks hx (chunk_text hx c @ p) =
    (case decode_chunks hx p of Inl e \<Rightarrow> Inl e | Inr (d, rest) \<Rightarrow> Inr (c @ d, rest))"
proof -
  have n: "length c < 2 ^ 32" "c \<noteq> []" using assms(2) by (simp_all add: chunk_ok_def)
  then have u: "unat (of_nat (length c) :: u32) = length c" by (simp add: unat_of_nat take_bit_nat_eq_self)
  then have z: "(of_nat (length c) :: u32) \<noteq> 0" using n(2) by (metis length_0_conv unat_0)
  note line = next_chunk_digits [OF assms(1) n(1), unfolded NEWLINE_def, simplified]
  show ?thesis
    by (subst decode_chunks.simps)
       (simp add: chunk_text_def line u z chunk_end_def NEWLINE_def split: sum.split)
qed

lemma decode_last_chunk:
  assumes "hex_law hx"
  shows "decode_chunks hx (EMPTY_CHUNK @ rest) = Inr ([], rest)"
proof -
  have "hex_text (replicate 4 0) = replicate 8 48" by code_simp
  then have d: "hex_decode hx (replicate 8 48) = Some (replicate 4 0)" using assms by (metis hex_law_def)
  have "replicate (8 - 1) 48 @ [48] = replicate 8 (48 :: u8)" "be_value (replicate 4 0) = 0" by code_simp+
  then have v: "line_value hx [48, 13] = Some 0" using d by (simp add: line_value_def)
  have "chunk_line [] ([48, 13] @ 10 # p) 10 = Inr ([] @ [48, 13], p)" for p by (rule chunk_line_found) simp_all
  then have "next_chunk hx (48 # 13 # 10 # p) = Inr (0, p)" for p using v by (simp add: next_chunk_def)
  then show ?thesis by (subst decode_chunks.simps) (simp add: EMPTY_CHUNK_def chunk_end_def)
qed

lemma decode_chunks_text:
  assumes "hex_law hx" "list_all chunk_ok cs"
  shows "decode_chunks hx (chunks_text hx cs @ EMPTY_CHUNK @ rest) = Inr (concat cs, rest)"
  using assms(2)
proof (induction cs)
  case Nil
  then show ?case by (simp add: chunks_text_def decode_last_chunk [OF assms(1)])
next
  case (Cons c cs)
  then show ?case using decode_chunk_text [OF assms(1), of c] by (simp add: chunks_text_def)
qed

section \<open>Bodies\<close>

text \<open>
  A body writes pieces, one \<open>write_all\<close> each, and stops at the first error; \<open>None\<close> is a panic.
\<close>

fun write_pieces ::
  "('w \<Rightarrow> u8 list \<Rightarrow> ((NetworkErrorKind + unit) \<times> 'w) option) \<Rightarrow> 'w \<Rightarrow> u8 list list \<Rightarrow>
   ((NetworkErrorKind + unit) \<times> 'w) option" where
  "write_pieces f w [] = Some (Inr (), w)"
| "write_pieces f w (p # ps) =
     (case f w p of
        None \<Rightarrow> None
      | Some (Inl e, w) \<Rightarrow> Some (Inl e, w)
      | Some (Inr _, w) \<Rightarrow> write_pieces f w ps)"

text \<open>What the writers rely on: a successful \<open>write_all\<close> has sent the bytes, \<open>flush\<close> sends no others.\<close>

definition writer_law :: "'w writer_ops \<Rightarrow> ('w \<Rightarrow> u8 list) \<Rightarrow> bool" where
  "writer_law wo sent \<longleftrightarrow>
     (\<forall>w bs w'. wo_write_all wo w bs = (Inr (), w') \<longrightarrow> sent w' = sent w @ bs) \<and>
     (\<forall>w bs n w'. wo_write wo w bs = (Inr n, w') \<longrightarrow> n \<le> length bs \<and> sent w' = sent w @ take n bs) \<and>
     (\<forall>w w'. wo_flush wo w = (Inr (), w') \<longrightarrow> sent w' = sent w)"

lemma write_allD: "writer_law wo sent \<Longrightarrow> wo_write_all wo w bs = (Inr u, w') \<Longrightarrow> sent w' = sent w @ bs"
  by (cases u) (auto simp: writer_law_def)

section \<open>Without a buffer\<close>

lemma write_header_fits:
  assumes "hex_law hx" "length (chunk_digits hx n) + 2 \<le> length buf"
  shows "\<exists>hb. write_chunked_header hx buf n = Some (hb, length (chunk_digits hx n) + 2) \<and> length hb = length buf \<and>
    take (length (chunk_digits hx n) + 2) hb = chunk_digits hx n @ NEWLINE"
  using assms(2) by (auto simp: write_chunked_header_def Let_def splice_def NEWLINE_def)

lemma chunked_write_all_sends:
  assumes "hex_law hx" "writer_law wo sent"
  obtains res where "chunked_write_all hx wo c buf = Some res"
    "\<forall>u c'. res = (Inr u, c') \<longrightarrow> sent c' = sent c @ (if buf = [] then [] else chunk_text hx buf)"
proof (cases "buf = []")
  case True
  show ?thesis by (rule that [of "(Inr (), c)"]) (simp_all add: chunked_write_all_def True)
next
  case False
  have "length (chunk_digits hx (length buf)) + 2 \<le> length (replicate 10 (0 :: u8))"
    using chunk_digits_facts(2) [OF assms(1), of "length buf"] by simp
  from write_header_fits [OF assms(1) this] obtain hb where hb:
    "write_chunked_header hx (replicate 10 0) (length buf) = Some (hb, length (chunk_digits hx (length buf)) + 2)"
    "take (length (chunk_digits hx (length buf)) + 2) hb = chunk_digits hx (length buf) @ NEWLINE" by blast
  let ?res = "st_bind (wo_write_all wo c (chunk_digits hx (length buf) @ NEWLINE)) (\<lambda>_ c.
      st_bind (wo_write_all wo c buf) (\<lambda>_ c. wo_write_all wo c NEWLINE))"
  have "chunked_write_all hx wo c buf = Some ?res" using False hb by (simp add: chunked_write_all_def)
  moreover have "sent c' = sent c @ chunk_text hx buf" if "?res = (Inr u, c')" for u c'
    using that by (auto simp: st_bind_Inr_iff chunk_text_def dest!: write_allD [OF assms(2)])
  ultimately show ?thesis using that False by simp
qed

lemma chunked_pieces_send:
  assumes "hex_law hx" "writer_law wo sent"
  shows "\<exists>res. write_pieces (chunked_write_all hx wo) c ps = Some res \<and>
    (\<forall>u c'. res = (Inr u, c') \<longrightarrow> sent c' = sent c @ chunks_text hx (filter (\<lambda>p. p \<noteq> []) ps))"
proof (induction ps arbitrary: c)
  case (Cons p ps)
  obtain res where r: "chunked_write_all hx wo c p = Some res"
    "\<forall>u c'. res = (Inr u, c') \<longrightarrow> sent c' = sent c @ (if p = [] then [] else chunk_text hx p)"
    by (rule chunked_write_all_sends [OF assms])
  show ?case
  proof (cases res)
    case (Pair m c1)
    show ?thesis
    proof (cases m)
      case (Inl e)
      with r Pair show ?thesis by simp
    next
      case (Inr u)
      with r Pair Cons.IH [of c1] show ?thesis by (auto simp: chunks_text_def)
    qed
  qed
qed (simp add: chunks_text_def)

section \<open>Through a buffer\<close>

lemma num_hex_chars_bound: "n < 16 ^ get_num_hex_chars n"
proof (cases "n = 0")
  case False
  have "n < 2 ^ floorlog 2 n" using floorlog_bounds [of n 2] False by simp
  also have "(2 :: nat) ^ floorlog 2 n \<le> 2 ^ (4 * ((floorlog 2 n + 3) div 4))" by (intro power_increasing) auto
  also have "\<dots> = 16 ^ get_num_hex_chars n" using False by (simp add: get_num_hex_chars_def power_mult)
  finally show ?thesis .
qed (simp add: get_num_hex_chars_def)

lemma num_hex_chars_pos: "0 < get_num_hex_chars n"
  using num_hex_chars_bound [of n] by (cases "get_num_hex_chars n") (auto simp: get_num_hex_chars_def floorlog_def)

lemma num_hex_chars_le: "1 \<le> n \<Longrightarrow> get_num_hex_chars n \<le> n" "2 \<le> n \<Longrightarrow> get_num_hex_chars n < n"
proof -
  have "floorlog 2 n \<le> n" by (subst floorlog_le_iff) simp_all
  then show "1 \<le> n \<Longrightarrow> get_num_hex_chars n \<le> n" "2 \<le> n \<Longrightarrow> get_num_hex_chars n < n"
    by (auto simp: get_num_hex_chars_def)
qed

lemma max_header_size:
  "n < 4 \<Longrightarrow> get_max_chunk_header_size n = 0"
  "4 \<le> n \<Longrightarrow> get_max_chunk_header_size n = get_num_hex_chars (n - 4) + 2"
  "5 \<le> n \<Longrightarrow> get_max_chunk_header_size n + 2 \<le> n"
  "6 \<le> n \<Longrightarrow> get_max_chunk_header_size n + 2 < n"
proof -
  show small: "n < 4 \<Longrightarrow> get_max_chunk_header_size n = 0"
    and large: "4 \<le> n \<Longrightarrow> get_max_chunk_header_size n = get_num_hex_chars (n - 4) + 2"
    by (simp_all add: get_max_chunk_header_size_def NEWLINE_def)
  show "5 \<le> n \<Longrightarrow> get_max_chunk_header_size n + 2 \<le> n" using large num_hex_chars_le(1) [of "n - 4"] by linarith
  show "6 \<le> n \<Longrightarrow> get_max_chunk_header_size n + 2 < n" using large num_hex_chars_le(2) [of "n - 4"] by linarith
qed

text \<open>
  The state of the writer between operations. The bytes of the current chunk lie behind the place for
  its header; where no place was left for a header, there is no current chunk.
\<close>

definition writer_inv :: "'w BufferingChunkedBodyWriter \<Rightarrow> bool" where
  "writer_inv bw \<longleftrightarrow> 6 \<le> length (bw_buf bw) \<and> length (bw_buf bw) < 2 ^ 32 \<and> \<not> bw_terminated bw \<and>
     bw_header_pos bw \<le> length (bw_buf bw) \<and> length (bw_buf bw) - bw_header_pos bw \<noteq> 3 \<and>
     bw_allocated_header bw = get_max_chunk_header_size (length (bw_buf bw) - bw_header_pos bw) \<and>
     (bw_pos bw = bw_header_pos bw + bw_allocated_header bw \<or>
      bw_header_pos bw + bw_allocated_header bw < bw_pos bw \<and> bw_pos bw + 2 \<le> length (bw_buf bw) \<and>
      0 < bw_allocated_header bw)"

definition chunk_data :: "'w BufferingChunkedBodyWriter \<Rightarrow> u8 list" where
  "chunk_data bw = drop (bw_header_pos bw + bw_allocated_header bw) (take (bw_pos bw) (bw_buf bw))"

definition ready :: "'w BufferingChunkedBodyWriter \<Rightarrow> u8 list" where
  "ready bw = take (bw_header_pos bw) (bw_buf bw)"

lemma append_chunk:
  assumes "writer_inv bw" "append_current_chunk bw bs = (n, bw')"
  shows "writer_inv bw'" "bw_conn bw' = bw_conn bw" "n \<le> length bs" "ready bw' = ready bw"
    "chunk_data bw' = chunk_data bw @ take n bs" "0 < n \<longrightarrow> chunk_data bw' \<noteq> []"
    "bw_header_pos bw = 0 \<longrightarrow> bs \<noteq> [] \<longrightarrow> chunk_data bw = [] \<longrightarrow> 0 < n"
proof -
  let ?len = "length (bw_buf bw)" and ?a = "bw_header_pos bw + bw_allocated_header bw"
  define m where "m = min (length bs) (?len - (2 + bw_pos bw))"
  have r: "n = m" "bw' = (if 0 < m then bw\<lparr>bw_buf := splice (bw_buf bw) (bw_pos bw) (take m bs), bw_pos := bw_pos bw + m\<rparr> else bw)"
  proof -
    have "min (length bs) (?len - (length NEWLINE + bw_pos bw)) = m" by (simp add: m_def NEWLINE_def)
    then show "n = m" "bw' = (if 0 < m then bw\<lparr>bw_buf := splice (bw_buf bw) (bw_pos bw) (take m bs), bw_pos := bw_pos bw + m\<rparr> else bw)"
      using assms(2) by (auto simp: append_current_chunk_def Let_def)
  qed
  have small: "?len - bw_header_pos bw < 3" if "bw_allocated_header bw = 0"
    using that assms(1) max_header_size(2) [of "?len - bw_header_pos bw"] by (fastforce simp: writer_inv_def)
  have alloc: "0 < bw_allocated_header bw" if "0 < m"
    using that small assms(1) by (fastforce simp: m_def writer_inv_def)
  have pos: "?a \<le> bw_pos bw" using assms(1) by (auto simp: writer_inv_def)
  have fits: "bw_pos bw + m + 2 \<le> ?len" if "0 < m" using that by (auto simp: m_def)
  have len: "length (take m bs) = m" by (simp add: m_def)
  show "writer_inv bw'"
  proof (cases "0 < m")
    case True
    have "length (splice (bw_buf bw) (bw_pos bw) (take m bs)) = ?len" using fits [OF True] len by simp
    then show ?thesis using True assms(1) alloc [OF True] fits [OF True] pos by (simp add: r writer_inv_def)
  qed (use assms(1) in \<open>simp add: r\<close>)
  show "bw_conn bw' = bw_conn bw" by (simp add: r)
  show "n \<le> length bs" by (simp add: r m_def)
  show "ready bw' = ready bw"
  proof (cases "0 < m")
    case True
    then show ?thesis using pos fits by (simp add: r ready_def splice_def min_def)
  qed (simp add: r)
  have "drop ?a (take (bw_pos bw + m) (splice (bw_buf bw) (bw_pos bw) (take m bs))) =
      drop ?a (take (bw_pos bw) (bw_buf bw)) @ take m bs" if "0 < m"
    using fits [OF that] pos len by (simp add: splice_def)
  then show data: "chunk_data bw' = chunk_data bw @ take n bs" by (auto simp: r chunk_data_def)
  show "0 < n \<longrightarrow> chunk_data bw' \<noteq> []" unfolding data using r(1) len by auto
  show "bw_header_pos bw = 0 \<longrightarrow> bs \<noteq> [] \<longrightarrow> chunk_data bw = [] \<longrightarrow> 0 < n"
  proof (intro impI)
    assume z: "bw_header_pos bw = 0" "bs \<noteq> []" "chunk_data bw = []"
    have l: "6 \<le> ?len" using assms(1) by (simp add: writer_inv_def)
    from z assms(1) have "bw_pos bw = get_max_chunk_header_size ?len"
      by (auto simp: chunk_data_def writer_inv_def)
    with max_header_size(4) [OF l] z(2) show "0 < n" by (auto simp: r(1) m_def)
  qed
qed

lemma take_splice_end:
  "off + length ys \<le> length xs \<Longrightarrow> take (off + length ys) (splice xs off ys) = take off xs @ ys"
  by (simp add: splice_def)

lemma finish_chunk:
  assumes "hex_law hx" "writer_inv bw" "chunk_data bw \<noteq> []"
  obtains bw' where "finish_current_chunk hx bw = Some bw'" "bw_conn bw' = bw_conn bw"
    "length (bw_buf bw') = length (bw_buf bw)" "bw_terminated bw' = bw_terminated bw"
    "bw_header_pos bw' \<le> length (bw_buf bw)" "ready bw' = ready bw @ chunk_text hx (chunk_data bw)" "chunk_ok (chunk_data bw)"
proof -
  let ?len = "length (bw_buf bw)" and ?hp = "bw_header_pos bw" and ?al = "bw_allocated_header bw" and ?pos = "bw_pos bw"
  let ?data = "chunk_data bw" and ?digits = "chunk_digits hx (length (chunk_data bw))"
  have pos: "?hp + ?al < ?pos" "?pos + 2 \<le> ?len" "0 < ?al"
    using assms(2,3) by (auto simp: writer_inv_def chunk_data_def)
  have room: "4 \<le> ?len - ?hp" and al: "?al = get_num_hex_chars (?len - ?hp - 4) + 2"
    using pos(3) assms(2) max_header_size(1,2) [of "?len - ?hp"] by (fastforce simp: writer_inv_def)+
  have dl: "length ?data = ?pos - ?hp - ?al" using pos by (simp add: chunk_data_def)
  have "length ?data \<le> ?len - ?hp - 4" using dl pos al num_hex_chars_pos [of "?len - ?hp - 4"] by linarith
  then have "length ?data < 16 ^ get_num_hex_chars (?len - ?hp - 4)" using num_hex_chars_bound order.strict_trans1 by blast
  moreover have lt: "length ?data < 2 ^ 32"
  proof -
    have "length ?data \<le> ?len" using dl pos by linarith
    also have "\<dots> < 2 ^ 32" using assms(2) by (simp add: writer_inv_def)
    finally show ?thesis .
  qed
  ultimately have digits: "length ?digits + 2 \<le> ?al"
    using chunk_digits_short [OF assms(1) _ num_hex_chars_pos] al by fastforce
  have hl: "length (take ?al (drop ?hp (bw_buf bw))) = ?al" using pos by simp
  have "length ?digits + 2 \<le> length (take ?al (drop ?hp (bw_buf bw)))" using digits hl by linarith
  from write_header_fits [OF assms(1) this] hl
  obtain hb where hb: "write_chunked_header hx (take ?al (drop ?hp (bw_buf bw))) (length ?data) = Some (hb, length ?digits + 2)"
    "length hb = ?al" "take (length ?digits + 2) hb = ?digits @ NEWLINE" by metis
  let ?b1 = "splice (bw_buf bw) ?hp hb" and ?h = "length ?digits + 2"
  define b2 where "b2 = (if 0 < ?al - ?h then splice ?b1 (?hp + ?h) (drop (?hp + ?al) (take ?pos ?b1)) else ?b1)"
  define p2 where "p2 = (if 0 < ?al - ?h then ?pos - (?al - ?h) else ?pos)"
  have data1: "drop (?hp + ?al) (take ?pos ?b1) = ?data"
    using hb(2) pos by (simp add: splice_def chunk_data_def drop_take)
  have p2: "p2 = ?hp + ?h + length ?data" using dl pos digits by (auto simp: p2_def)
  have b2: "take p2 b2 = take ?hp (bw_buf bw) @ ?digits @ NEWLINE @ ?data" "length b2 = ?len"
  proof -
    have l1: "length ?b1 = ?len" using hb(2) pos by simp
    have t1: "take (?hp + ?h) ?b1 = take ?hp (bw_buf bw) @ ?digits @ NEWLINE"
      using hb(2,3) pos digits by (simp add: splice_def)
    show "length b2 = ?len" using l1 data1 dl pos digits by (auto simp: b2_def)
    show "take p2 b2 = take ?hp (bw_buf bw) @ ?digits @ NEWLINE @ ?data"
    proof (cases "0 < ?al - ?h")
      case True
      have "(?hp + ?h) + length ?data \<le> length ?b1" using l1 dl pos digits by linarith
      from take_splice_end [OF this] True have "take p2 b2 = take (?hp + ?h) ?b1 @ ?data"
        by (simp only: b2_def data1 p2 if_True)
      then show ?thesis by (simp only: t1 append_assoc)
    next
      case False
      then have h: "?al = ?h" using digits by linarith
      have "take p2 b2 = take ?pos ?b1" using False by (simp only: b2_def p2_def if_False)
      also have "\<dots> = take (?hp + ?h) (take ?pos ?b1) @ drop (?hp + ?h) (take ?pos ?b1)"
        by (rule append_take_drop_id [symmetric])
      also have "take (?hp + ?h) (take ?pos ?b1) = take (?hp + ?h) ?b1" using h pos by (simp add: min_def)
      finally have "take p2 b2 = take (?hp + ?h) ?b1 @ drop (?hp + ?h) (take ?pos ?b1)" .
      then show ?thesis by (simp only: t1 data1 [unfolded h] append_assoc)
    qed
  qed
  let ?b3 = "splice b2 p2 NEWLINE"
  let ?bw' = "bw\<lparr>bw_buf := ?b3, bw_header_pos := p2 + 2,
      bw_allocated_header := get_max_chunk_header_size (length ?b3 - (p2 + 2)),
      bw_pos := p2 + 2 + get_max_chunk_header_size (length ?b3 - (p2 + 2))\<rparr>"
  have p2l: "p2 + 2 \<le> ?len" using p2 dl pos digits by linarith
  have fin: "finish_current_chunk hx bw = Some ?bw'"
  proof -
    have c: "(?len < ?hp + ?al) = False" "(length b2 < p2 + length NEWLINE) = False"
      using pos p2l b2(2) by (simp_all add: NEWLINE_def)
    show ?thesis
      by (simp only: finish_current_chunk_def Let_def dl [symmetric] hb(1) option.case prod.case c if_False
          b2_def [symmetric] p2_def [symmetric])
  qed
  have "ready ?bw' = take p2 b2 @ NEWLINE" using p2l b2(2) by (simp add: ready_def splice_def NEWLINE_def)
  then have rdy: "ready ?bw' = ready bw @ chunk_text hx ?data" by (simp add: b2 ready_def chunk_text_def)
  have l3: "length ?b3 = ?len" using p2l b2(2) by (simp add: NEWLINE_def)
  show ?thesis
  proof (rule that [OF fin])
    show "ready ?bw' = ready bw @ chunk_text hx ?data" by (rule rdy)
    show "length (bw_buf ?bw') = ?len" using l3 by simp
    show "bw_header_pos ?bw' \<le> ?len" using p2l by simp
    show "chunk_ok ?data" using assms(3) lt by (simp add: chunk_ok_def)
  qed simp_all
qed

lemma emit_chunks:
  assumes "writer_law wo sent" "6 \<le> length (bw_buf bw)" "length (bw_buf bw) < 2 ^ 32" "\<not> bw_terminated bw"
    and "emit_buffered wo bw = (Inr u, bw')"
  shows "writer_inv bw'" "sent (bw_conn bw') = sent (bw_conn bw) @ ready bw" "bw_header_pos bw' = 0"
    "ready bw' = []" "chunk_data bw' = []" "length (bw_buf bw') = length (bw_buf bw)"
proof -
  obtain v c where c: "wo_write_all wo (bw_conn bw) (ready bw) = (Inr v, c)"
    "bw' = bw\<lparr>bw_conn := c, bw_header_pos := 0, bw_allocated_header := get_max_chunk_header_size (length (bw_buf bw)),
      bw_pos := get_max_chunk_header_size (length (bw_buf bw))\<rparr>"
    using assms(5) by (auto simp: emit_buffered_def ready_def Let_def split: prod.splits sum.splits)
  show "sent (bw_conn bw') = sent (bw_conn bw) @ ready bw" using write_allD [OF assms(1) c(1)] c(2) by simp
  show "writer_inv bw'" "bw_header_pos bw' = 0" "ready bw' = []" "chunk_data bw' = []" "length (bw_buf bw') = length (bw_buf bw)"
    using assms(2-4) c(2) by (simp_all add: writer_inv_def ready_def chunk_data_def)
qed

text \<open>
  What the state of the writer stands for: \<open>pre\<close> and then, in chunks, \<open>data\<close>, of which the current
  chunk holds the last bytes and is not full.
\<close>

definition stream_rep :: "hex_lib \<Rightarrow> ('w \<Rightarrow> u8 list) \<Rightarrow> 'w BufferingChunkedBodyWriter \<Rightarrow> u8 list \<Rightarrow> u8 list \<Rightarrow> bool" where
  "stream_rep hx sent bw pre data \<longleftrightarrow> writer_inv bw \<and>
     (chunk_data bw \<noteq> [] \<longrightarrow> bw_pos bw + 2 < length (bw_buf bw)) \<and>
     (\<exists>cs. sent (bw_conn bw) @ ready bw = pre @ chunks_text hx cs \<and> list_all chunk_ok cs \<and>
        concat cs @ chunk_data bw = data)"

lemma finish_and_emit:
  assumes "hex_law hx" "writer_law wo sent" "writer_inv bw" "chunk_data bw \<noteq> []"
    and "sent (bw_conn bw) @ ready bw = pre @ chunks_text hx cs" "list_all chunk_ok cs"
  obtains bw1 where "finish_current_chunk hx bw = Some bw1" "length (bw_buf bw1) = length (bw_buf bw)"
    "bw_terminated bw1 = bw_terminated bw" "bw_header_pos bw1 \<le> length (bw_buf bw1)"
    "sent (bw_conn bw1) @ ready bw1 = pre @ chunks_text hx (cs @ [chunk_data bw])" "list_all chunk_ok (cs @ [chunk_data bw])"
    "\<And>u bw2. emit_buffered wo bw1 = (Inr u, bw2) \<Longrightarrow> stream_rep hx sent bw2 pre (concat cs @ chunk_data bw)"
proof -
  obtain bw1 where 1: "finish_current_chunk hx bw = Some bw1" "bw_conn bw1 = bw_conn bw"
    "length (bw_buf bw1) = length (bw_buf bw)" "bw_terminated bw1 = bw_terminated bw"
    "bw_header_pos bw1 \<le> length (bw_buf bw)" "ready bw1 = ready bw @ chunk_text hx (chunk_data bw)" "chunk_ok (chunk_data bw)"
    by (rule finish_chunk [OF assms(1,3,4)])
  have s: "sent (bw_conn bw1) @ ready bw1 = pre @ chunks_text hx (cs @ [chunk_data bw])"
    using assms(5) by (simp add: 1 chunks_text_def)
  have ok: "list_all chunk_ok (cs @ [chunk_data bw])" using assms(6) 1(7) by simp
  have inv: "6 \<le> length (bw_buf bw1)" "length (bw_buf bw1) < 2 ^ 32" "\<not> bw_terminated bw1"
    using assms(3) by (simp_all add: 1 writer_inv_def)
  have rep: "stream_rep hx sent bw2 pre (concat cs @ chunk_data bw)" if "emit_buffered wo bw1 = (Inr u, bw2)" for u bw2
    using emit_chunks [OF assms(2) inv that] s ok
    unfolding stream_rep_def by (auto intro!: exI [of _ "cs @ [chunk_data bw]"])
  show ?thesis using that [OF 1(1,3,4) _ s ok rep] 1(3,5) by simp
qed

lemma buffering_write_rep:
  assumes "hex_law hx" "writer_law wo sent" "stream_rep hx sent bw pre data" "bs \<noteq> []"
  obtains res where "buffering_write hx wo bw bs = Some res"
    "\<forall>n bw'. res = (Inr n, bw') \<longrightarrow> 0 < n \<and> n \<le> length bs \<and> stream_rep hx sent bw' pre (data @ take n bs)"
proof -
  obtain cs where inv: "writer_inv bw" and room: "chunk_data bw \<noteq> [] \<longrightarrow> bw_pos bw + 2 < length (bw_buf bw)"
    and cs: "sent (bw_conn bw) @ ready bw = pre @ chunks_text hx cs" "list_all chunk_ok cs" "concat cs @ chunk_data bw = data"
    using assms(3) by (auto simp: stream_rep_def)
  define appended where "appended = (case append_current_chunk bw bs of (written, bw) \<Rightarrow>
      if written = 0 then st_bind (emit_buffered wo bw) (\<lambda>_ bw.
        case append_current_chunk bw bs of (written, bw) \<Rightarrow> (Inr written, bw))
      else (Inr written, bw))"
  have app: "writer_inv bw1 \<and> chunk_data bw1 \<noteq> [] \<and> 0 < n \<and> n \<le> length bs \<and> concat cs @ chunk_data bw1 = data @ take n bs \<and>
      sent (bw_conn bw1) @ ready bw1 = pre @ chunks_text hx cs" if a: "appended = (Inr n, bw1)" for n bw1
  proof -
    obtain m bwa where m: "append_current_chunk bw bs = (m, bwa)" by fastforce
    note am = append_chunk [OF inv m]
    show ?thesis
    proof (cases "m = 0")
      case False
      then have "n = m" "bw1 = bwa" using a m by (simp_all add: appended_def)
      with am False cs show ?thesis by auto
    next
      case True
      have "chunk_data bw = []"
      proof (rule ccontr)
        assume "chunk_data bw \<noteq> []"
        with room m True assms(4) show False by (auto simp: append_current_chunk_def Let_def NEWLINE_def min_def split: if_splits)
      qed
      then have none: "chunk_data bwa = []" using am(5) True by simp
      from a m True have "st_bind (emit_buffered wo bwa) (\<lambda>_ bw.
          case append_current_chunk bw bs of (written, bw) \<Rightarrow> (Inr written, bw)) = (Inr n, bw1)"
        by (simp add: appended_def)
      then obtain u bwb where b1: "emit_buffered wo bwa = (Inr u, bwb)"
        "(case append_current_chunk bwb bs of (written, bw) \<Rightarrow> (Inr written, bw)) = (Inr n :: NetworkErrorKind + nat, bw1)"
        by (rule st_bind_InrE)
      then have b: "emit_buffered wo bwa = (Inr u, bwb)" "append_current_chunk bwb bs = (n, bw1)"
        by (cases "append_current_chunk bwb bs", simp)+
      have "6 \<le> length (bw_buf bwa)" "length (bw_buf bwa) < 2 ^ 32" "\<not> bw_terminated bwa" using am(1) by (auto simp: writer_inv_def)
      note e = emit_chunks [OF assms(2) this b(1)]
      note an = append_chunk [OF e(1) b(2)]
      have "0 < n" using an(7) e(3,5) assms(4) by blast
      moreover have "sent (bw_conn bw1) @ ready bw1 = pre @ chunks_text hx cs" using an(2,4) e(2,4) am(2,4) cs(1) by simp
      moreover have "concat cs @ chunk_data bw1 = data @ take n bs" using an(5) e(5) cs(3) \<open>chunk_data bw = []\<close> by simp
      ultimately show ?thesis using an(1,3,6) by blast
    qed
  qed
  have w: "buffering_write hx wo bw bs = (case appended of
      (Inl e, bw) \<Rightarrow> Some (Inl e, bw)
    | (Inr written, bw) \<Rightarrow>
        if current_chunk_is_full bw then
          case finish_current_chunk hx bw of
            None \<Rightarrow> None
          | Some bw \<Rightarrow> Some (st_bind (emit_buffered wo bw) (\<lambda>_ bw. (Inr written, bw)))
        else Some (Inr written, bw))"
    using assms(4) by (simp add: buffering_write_def appended_def)
  obtain m bw1 where a: "appended = (m, bw1)" by fastforce
  show ?thesis
  proof (cases m)
    case (Inl e)
    show ?thesis by (rule that [of "(Inl e, bw1)"]) (simp_all add: w a Inl)
  next
    case (Inr n)
    with a have an: "appended = (Inr n, bw1)" by simp
    note f = app [OF an]
    show ?thesis
    proof (cases "current_chunk_is_full bw1")
      case False
      then have "bw_pos bw1 + 2 < length (bw_buf bw1)"
        using f by (auto simp: current_chunk_is_full_def NEWLINE_def writer_inv_def chunk_data_def)
      then have "stream_rep hx sent bw1 pre (data @ take n bs)" using f cs(2) by (auto simp: stream_rep_def)
      then show ?thesis using f False by (intro that [of "(Inr n, bw1)"]) (simp_all add: w an)
    next
      case True
      obtain bw2 where 2: "finish_current_chunk hx bw1 = Some bw2"
        "\<And>u bw3. emit_buffered wo bw2 = (Inr u, bw3) \<Longrightarrow> stream_rep hx sent bw3 pre (concat cs @ chunk_data bw1)"
        using finish_and_emit [OF assms(1,2), of bw1 pre cs] f cs(2) by metis
      then show ?thesis using f True
        by (intro that [of "st_bind (emit_buffered wo bw2) (\<lambda>_ bw. (Inr n, bw))"]) (auto simp: w an st_bind_Inr_iff)
    qed
  qed
qed

lemma buffering_write_all_rep:
  assumes "hex_law hx" "writer_law wo sent"
  shows "stream_rep hx sent bw pre data \<Longrightarrow> (\<exists>res. buffering_write_all hx wo bw bs = Some res \<and>
    (\<forall>u bw'. res = (Inr u, bw') \<longrightarrow> stream_rep hx sent bw' pre (data @ bs)))"
proof (induction "length bs" arbitrary: bw bs data rule: less_induct)
  case less
  show ?case
  proof (cases "bs = []")
    case True
    with less.prems show ?thesis by (subst buffering_write_all.simps) simp
  next
    case False
    obtain m bw1 where r: "buffering_write hx wo bw bs = Some (m, bw1)"
      "\<forall>n bw'. (m, bw1) = (Inr n, bw') \<longrightarrow> 0 < n \<and> n \<le> length bs \<and> stream_rep hx sent bw' pre (data @ take n bs)"
      by (rule buffering_write_rep [OF assms less.prems False]) (metis surj_pair)
    show ?thesis
    proof (cases m)
      case (Inl e)
      with r False show ?thesis by (subst buffering_write_all.simps) simp
    next
      case (Inr n)
      with r(2) have n: "0 < n" "n \<le> length bs" "stream_rep hx sent bw1 pre (data @ take n bs)" by auto
      then have "length (drop n bs) < length bs" using False by simp
      from less.hyps [OF this n(3)] have "\<exists>res. buffering_write_all hx wo bw1 (drop n bs) = Some res \<and>
          (\<forall>u bw'. res = (Inr u, bw') \<longrightarrow> stream_rep hx sent bw' pre (data @ bs))" by simp
      moreover have "buffering_write_all hx wo bw bs = buffering_write_all hx wo bw1 (drop n bs)"
        using False r(1) Inr n(1) by (subst buffering_write_all.simps) simp
      ultimately show ?thesis by simp
    qed
  qed
qed

lemma buffering_pieces_rep:
  assumes "hex_law hx" "writer_law wo sent"
  shows "stream_rep hx sent bw pre data \<Longrightarrow> (\<exists>res. write_pieces (buffering_write_all hx wo) bw ps = Some res \<and>
    (\<forall>u bw'. res = (Inr u, bw') \<longrightarrow> stream_rep hx sent bw' pre (data @ concat ps)))"
proof (induction ps arbitrary: bw data)
  case (Cons p ps)
  from buffering_write_all_rep [OF assms Cons.prems, of p] obtain m bw1 where r:
    "buffering_write_all hx wo bw p = Some (m, bw1)" "\<forall>u. m = Inr u \<longrightarrow> stream_rep hx sent bw1 pre (data @ p)"
    by fastforce
  show ?case
  proof (cases m)
    case (Inl e)
    with r show ?thesis by simp
  next
    case (Inr u)
    with r(2) have "stream_rep hx sent bw1 pre (data @ p)" by simp
    from Cons.IH [OF this] r(1) Inr show ?thesis by simp
  qed
qed simp

text \<open>The end of the body: the current chunk, the empty chunk, and nothing is left in the buffer.\<close>

lemma buffering_terminate_sends:
  assumes "hex_law hx" "writer_law wo sent" "stream_rep hx sent bw pre data"
  shows "\<exists>res. buffering_terminate hx wo bw = Some res \<and>
    (\<forall>u bw'. res = (Inr u, bw') \<longrightarrow> (\<exists>cs. sent (bw_conn bw') = pre @ chunks_text hx cs @ EMPTY_CHUNK \<and>
       list_all chunk_ok cs \<and> concat cs = data))"
proof -
  obtain cs where inv: "writer_inv bw"
    and cs: "sent (bw_conn bw) @ ready bw = pre @ chunks_text hx cs" "list_all chunk_ok cs" "concat cs @ chunk_data bw = data"
    using assms(3) by (auto simp: stream_rep_def)
  have data_iff: "bw_header_pos bw + bw_allocated_header bw < bw_pos bw \<longleftrightarrow> chunk_data bw \<noteq> []"
    using inv by (auto simp: writer_inv_def chunk_data_def)
  have "\<exists>bw1 ds. (if bw_header_pos bw + bw_allocated_header bw < bw_pos bw then finish_current_chunk hx bw else Some bw) = Some bw1 \<and>
      length (bw_buf bw1) = length (bw_buf bw) \<and> \<not> bw_terminated bw1 \<and> bw_header_pos bw1 \<le> length (bw_buf bw1) \<and>
      sent (bw_conn bw1) @ ready bw1 = pre @ chunks_text hx ds \<and> list_all chunk_ok ds \<and> concat ds = data"
  proof (cases "chunk_data bw = []")
    case True
    then show ?thesis using inv cs data_iff by (auto simp: writer_inv_def intro!: exI [of _ cs])
  next
    case False
    obtain bw1 where "finish_current_chunk hx bw = Some bw1" "length (bw_buf bw1) = length (bw_buf bw)"
      "bw_terminated bw1 = bw_terminated bw" "bw_header_pos bw1 \<le> length (bw_buf bw1)"
      "sent (bw_conn bw1) @ ready bw1 = pre @ chunks_text hx (cs @ [chunk_data bw])" "list_all chunk_ok (cs @ [chunk_data bw])"
      by (rule finish_and_emit [OF assms(1,2) inv False cs(1,2)])
    then show ?thesis using False data_iff cs(3) inv
      by (intro exI [of _ bw1] exI [of _ "cs @ [chunk_data bw]"]) (simp add: writer_inv_def)
  qed
  then obtain bw1 ds where 1: "(if bw_header_pos bw + bw_allocated_header bw < bw_pos bw then finish_current_chunk hx bw else Some bw) = Some bw1"
      "length (bw_buf bw1) = length (bw_buf bw)" "\<not> bw_terminated bw1" "bw_header_pos bw1 \<le> length (bw_buf bw1)"
      "sent (bw_conn bw1) @ ready bw1 = pre @ chunks_text hx ds" "list_all chunk_ok ds" "concat ds = data" by blast
  have size: "6 \<le> length (bw_buf bw1)" "length (bw_buf bw1) < 2 ^ 32" using inv 1(2) by (simp_all add: writer_inv_def)
  define emitted where "emitted = (if length (bw_buf bw1) < bw_header_pos bw1 + length EMPTY_CHUNK then emit_buffered wo bw1 else (Inr (), bw1))"
  have em: "bw_header_pos bw2 + 5 \<le> length (bw_buf bw2) \<and> 6 \<le> length (bw_buf bw2) \<and> length (bw_buf bw2) < 2 ^ 32 \<and>
      \<not> bw_terminated bw2 \<and> sent (bw_conn bw2) @ ready bw2 = pre @ chunks_text hx ds" if e: "emitted = (Inr u, bw2)" for u bw2
  proof (cases "length (bw_buf bw1) < bw_header_pos bw1 + length EMPTY_CHUNK")
    case True
    with e have "emit_buffered wo bw1 = (Inr u, bw2)" by (simp add: emitted_def)
    note ec = emit_chunks [OF assms(2) size 1(3) this]
    then show ?thesis using size 1(5) by (simp add: writer_inv_def)
  next
    case False
    with e have "bw2 = bw1" by (simp add: emitted_def)
    then show ?thesis using False size 1(3,5) by (simp add: EMPTY_CHUNK_def)
  qed
  have t: "buffering_terminate hx wo bw = (case emitted of
      (Inl e, bw) \<Rightarrow> Some (Inl e, bw)
    | (Inr _, bw) \<Rightarrow>
        if length (bw_buf bw) < bw_header_pos bw + length EMPTY_CHUNK then None
        else let header_pos = bw_header_pos bw + length EMPTY_CHUNK;
                 bw = bw\<lparr>bw_buf := splice (bw_buf bw) (bw_header_pos bw) EMPTY_CHUNK, bw_header_pos := header_pos,
                        bw_allocated_header := 0, bw_pos := header_pos\<rparr>
             in Some (st_bind (emit_buffered wo bw) (\<lambda>_ bw. (Inr (), bw\<lparr>bw_terminated := True\<rparr>))))"
    using inv 1(1) by (simp add: buffering_terminate_def emitted_def writer_inv_def Let_def)
  obtain m bw2 where e: "emitted = (m, bw2)" by fastforce
  show ?thesis
  proof (cases m)
    case (Inl x)
    then show ?thesis by (simp add: t e)
  next
    case (Inr u)
    note f = em [OF e [unfolded Inr]]
    let ?bw3 = "bw2\<lparr>bw_buf := splice (bw_buf bw2) (bw_header_pos bw2) EMPTY_CHUNK, bw_header_pos := bw_header_pos bw2 + length EMPTY_CHUNK,
        bw_allocated_header := 0, bw_pos := bw_header_pos bw2 + length EMPTY_CHUNK\<rparr>"
    have l: "length (bw_buf ?bw3) = length (bw_buf bw2)" using f by (simp add: EMPTY_CHUNK_def)
    have r: "ready ?bw3 = ready bw2 @ EMPTY_CHUNK" using f take_splice_end [of "bw_header_pos bw2" EMPTY_CHUNK "bw_buf bw2"]
      by (simp add: ready_def EMPTY_CHUNK_def)
    have t3: "buffering_terminate hx wo bw = Some (st_bind (emit_buffered wo ?bw3) (\<lambda>_ bw. (Inr (), bw\<lparr>bw_terminated := True\<rparr>)))"
      using f by (simp add: t e Inr Let_def EMPTY_CHUNK_def)
    have "sent (bw_conn bw4) = pre @ chunks_text hx ds @ EMPTY_CHUNK" if "emit_buffered wo ?bw3 = (Inr v, bw4)" for v bw4
    proof -
      have "6 \<le> length (bw_buf ?bw3)" "length (bw_buf ?bw3) < 2 ^ 32" "\<not> bw_terminated ?bw3" using f l by simp_all
      from emit_chunks(2) [OF assms(2) this that] r f show ?thesis by simp
    qed
    then show ?thesis using t3 1(6,7) by (auto simp: st_bind_Inr_iff)
  qed
qed

text \<open>
  C19: A body sent in chunks arrives as it was written. Through the buffering writer, whatever is in
  the buffer before (unless exactly three bytes are left behind it), whatever pieces the body writes
  and wherever the buffer cuts them, no operation panics; and when the connection does not fail, what
  is sent is the earlier contents of the buffer and then a text that the decoder takes back to the
  concatenation of the pieces, leaving whatever follows on the connection.
\<close>
theorem buffered_body_roundtrip:
  assumes "hex_law hx" "writer_law wo sent"
    and "6 \<le> length buf" "length buf < 2 ^ 32" "written \<le> length buf" "length buf - written \<noteq> 3"
  shows "\<exists>bw. new_with_data conn buf written = Some bw \<and>
    (\<exists>res. write_pieces (buffering_write_all hx wo) bw ps = Some res \<and>
      (\<forall>bw1. res = (Inr (), bw1) \<longrightarrow> (\<exists>res2. buffering_terminate hx wo bw1 = Some res2 \<and>
        (\<forall>bw2. res2 = (Inr (), bw2) \<longrightarrow> (\<exists>text. sent (bw_conn bw2) = sent conn @ take written buf @ text \<and>
          (\<forall>rest. decode_chunks hx (text @ rest) = Inr (concat ps, rest)))))))"
proof -
  let ?al = "get_max_chunk_header_size (length buf - written)"
  let ?bw = "\<lparr>bw_conn = conn, bw_buf = buf, bw_header_pos = written, bw_allocated_header = ?al,
      bw_pos = written + ?al, bw_terminated = False\<rparr>"
  have al: "?al + 2 < length buf"
  proof (cases "length buf - written < 5")
    case True
    then have "?al \<le> 3" using max_header_size(1,2) [of "length buf - written"] num_hex_chars_le(1) [of 0]
      by (cases "length buf - written = 4") (auto simp: get_num_hex_chars_def)
    with assms(3) show ?thesis by linarith
  next
    case False
    show ?thesis
    proof (cases "length buf - written = 5")
      case True
      then show ?thesis using max_header_size(3) [of "length buf - written"] assms(3) by linarith
    next
      case False
      with \<open>\<not> length buf - written < 5\<close> show ?thesis using max_header_size(4) [of "length buf - written"] by linarith
    qed
  qed
  have new: "new_with_data conn buf written = Some ?bw"
    using assms(5) al by (simp add: new_with_data_def NEWLINE_def Let_def)
  have "chunk_data ?bw = []" by (simp add: chunk_data_def)
  then have rep: "stream_rep hx sent ?bw (sent conn @ take written buf) []"
    using assms(3-6) by (auto simp: stream_rep_def writer_inv_def ready_def chunks_text_def intro!: exI [of _ "[]"])
  obtain res where res: "write_pieces (buffering_write_all hx wo) ?bw ps = Some res"
    "\<forall>u bw'. res = (Inr u, bw') \<longrightarrow> stream_rep hx sent bw' (sent conn @ take written buf) (concat ps)"
    using buffering_pieces_rep [OF assms(1,2) rep, of ps] by auto
  have "\<exists>res2. buffering_terminate hx wo bw1 = Some res2 \<and>
      (\<forall>bw2. res2 = (Inr (), bw2) \<longrightarrow> (\<exists>text. sent (bw_conn bw2) = sent conn @ take written buf @ text \<and>
        (\<forall>rest. decode_chunks hx (text @ rest) = Inr (concat ps, rest))))" if "res = (Inr (), bw1)" for bw1
  proof -
    from res(2) that have "stream_rep hx sent bw1 (sent conn @ take written buf) (concat ps)" by blast
    from buffering_terminate_sends [OF assms(1,2) this] obtain res2 where r2: "buffering_terminate hx wo bw1 = Some res2"
      "\<forall>u bw'. res2 = (Inr u, bw') \<longrightarrow> (\<exists>cs. sent (bw_conn bw') = (sent conn @ take written buf) @ chunks_text hx cs @ EMPTY_CHUNK \<and>
         list_all chunk_ok cs \<and> concat cs = concat ps)" by blast
    have "\<exists>text. sent (bw_conn bw2) = sent conn @ take written buf @ text \<and>
        (\<forall>rest. decode_chunks hx (text @ rest) = Inr (concat ps, rest))" if e: "res2 = (Inr (), bw2)" for bw2
    proof -
      from r2(2) e obtain cs where "sent (bw_conn bw2) = (sent conn @ take written buf) @ chunks_text hx cs @ EMPTY_CHUNK"
        "list_all chunk_ok cs" "concat cs = concat ps" by blast
      then show ?thesis using decode_chunks_text [OF assms(1)] by (intro exI [of _ "chunks_text hx cs @ EMPTY_CHUNK"]) simp
    qed
    with r2(1) show ?thesis by blast
  qed
  with new res(1) show ?thesis by blast
qed

text \<open>A connection that takes everything.\<close>

definition sink :: "u8 list writer_ops" where
  "sink = \<lparr>wo_write = (\<lambda>w bs. (Inr (length bs), w @ bs)), wo_write_all = (\<lambda>w bs. (Inr (), w @ bs)),
     wo_flush = (\<lambda>w. (Inr (), w))\<rparr>"

lemma sink_law: "writer_law sink (\<lambda>w. w)"
  by (simp add: writer_law_def sink_def)

theorem buffered_body_roundtrip_witness:
  "\<exists>bw. new_with_data [] [72, 69, 76, 76, 79, 0, 0, 0, 0, 0, 0, 0 :: u8] 5 = Some bw \<and>
    (\<exists>res. write_pieces (buffering_write_all hex_crate sink) bw [[66, 79, 68, 89], [66, 79]] = Some res \<and>
      (\<forall>bw1. res = (Inr (), bw1) \<longrightarrow> (\<exists>res2. buffering_terminate hex_crate sink bw1 = Some res2)))"
  using buffered_body_roundtrip [OF hex_crate_law sink_law, of "[72, 69, 76, 76, 79, 0, 0, 0, 0, 0, 0, 0]" 5 "[]" "[[66, 79, 68, 89], [66, 79]]"]
  by auto

text \<open>
  With three bytes left behind the bytes written before, no place is left for the header of a chunk
  but one byte is appended to the chunk all the same; finishing that chunk panics.
\<close>

lemma buffered_writer_panics:
  assumes "length buf - written = 3" "6 \<le> length buf" "bs \<noteq> []"
  shows "\<exists>bw. new_with_data conn buf written = Some bw \<and> buffering_write hx wo bw bs = None"
proof -
  let ?bw = "\<lparr>bw_conn = conn, bw_buf = buf, bw_header_pos = written, bw_allocated_header = 0, bw_pos = written, bw_terminated = False\<rparr>"
  have "new_with_data conn buf written = Some ?bw"
    using assms(1,2) max_header_size(1) [of 3] by (simp add: new_with_data_def NEWLINE_def Let_def)
  moreover have "append_current_chunk ?bw bs = (1, ?bw\<lparr>bw_buf := splice buf written (take 1 bs), bw_pos := written + 1\<rparr>)"
  proof -
    have "length buf - Suc (Suc written) = 1" using assms(1) by linarith
    moreover have "1 \<le> length bs" using assms(3) by (cases bs) auto
    ultimately show ?thesis by (simp add: append_current_chunk_def NEWLINE_def Let_def min_def)
  qed
  moreover have "length (splice buf written (take 1 bs)) = length buf" using assms by (cases bs) auto
  ultimately show ?thesis using assms
    by (simp add: buffering_write_def current_chunk_is_full_def finish_current_chunk_def write_chunked_header_def NEWLINE_def Let_def)
qed

end
