(* ===== verification/Tls_Parse.thy ===== *)
theory Tls_Parse
  imports Prelude
begin

text \<open>
  The foundations of the TLS library, \<open>tools/embedded-tls/src\<close>: errors and alerts (\<open>lib.rs\<close>,
  \<open>alert.rs\<close>), reading from a received buffer (\<open>parse_buffer.rs\<close>) and writing into a buffer to be sent
  (\<open>buffer.rs\<close>). An operation returns its result and the buffer as it leaves it, also on an error.
\<close>

section \<open>Errors and alerts\<close>

datatype ParseError = InsufficientBytes | ParseInsufficientSpace | ParseInvalidData

datatype AlertLevel = AlertWarning | AlertFatal

datatype AlertDescription =
    CloseNotify | UnexpectedMessage | BadRecordMac | RecordOverflow | HandshakeFailure | BadCertificate
  | UnsupportedCertificate | CertificateRevoked | CertificateExpired | CertificateUnknown | IllegalParameter
  | UnknownCa | AccessDenied | AlertDecodeError | DecryptError | ProtocolVersion | InsufficientSecurity
  | AlertInternalError | InappropriateFallback | UserCanceled | MissingExtension | UnsupportedExtension
  | UnrecognizedName | BadCertificateStatusResponse | UnknownPskIdentity | CertificateRequired
  | NoApplicationProtocol

text \<open>The error kinds of the I/O library, by their number.\<close>

type_synonym IoErrorKind = nat

datatype TlsError =
    ConnectionClosed | TlsUnimplemented | MissingHandshake | HandshakeAborted AlertLevel AlertDescription
  | AbortHandshake AlertLevel AlertDescription | TlsIoError | TlsInternalError | InvalidRecord
  | UnknownContentType | InvalidNonceLength | InvalidTicketLength | UnknownExtensionType | TlsInsufficientSpace
  | InvalidHandshake | InvalidCipherSuite | InvalidSignatureScheme | TlsInvalidSignature | InvalidExtensionsLength
  | InvalidSessionIdLength | InvalidSupportedVersions | InvalidApplicationData | InvalidKeyShare
  | InvalidCertificate | InvalidCertificateEntry | InvalidCertificateRequest | InvalidPrivateKey
  | UnableToInitializeCryptoEngine | TlsParseError ParseError | TlsOutOfMemory | CryptoError | EncodeError
  | TlsDecodeError | TlsIo IoErrorKind

definition alert_level_of :: "u8 \<Rightarrow> AlertLevel option" where
  "alert_level_of num = (if num = 1 then Some AlertWarning else if num = 2 then Some AlertFatal else None)"

fun alert_level_code :: "AlertLevel \<Rightarrow> u8" where
  "alert_level_code AlertWarning = 1"
| "alert_level_code AlertFatal = 2"

text \<open>The values of the enumeration, and the table of \<open>AlertDescription::of\<close>.\<close>

fun alert_description_code :: "AlertDescription \<Rightarrow> u8" where
  "alert_description_code CloseNotify = 0"
| "alert_description_code UnexpectedMessage = 10"
| "alert_description_code BadRecordMac = 20"
| "alert_description_code RecordOverflow = 22"
| "alert_description_code HandshakeFailure = 40"
| "alert_description_code BadCertificate = 42"
| "alert_description_code UnsupportedCertificate = 43"
| "alert_description_code CertificateRevoked = 44"
| "alert_description_code CertificateExpired = 45"
| "alert_description_code CertificateUnknown = 46"
| "alert_description_code IllegalParameter = 47"
| "alert_description_code UnknownCa = 48"
| "alert_description_code AccessDenied = 49"
| "alert_description_code AlertDecodeError = 50"
| "alert_description_code DecryptError = 51"
| "alert_description_code ProtocolVersion = 70"
| "alert_description_code InsufficientSecurity = 71"
| "alert_description_code AlertInternalError = 80"
| "alert_description_code InappropriateFallback = 86"
| "alert_description_code UserCanceled = 90"
| "alert_description_code MissingExtension = 109"
| "alert_description_code UnsupportedExtension = 110"
| "alert_description_code UnrecognizedName = 112"
| "alert_description_code BadCertificateStatusResponse = 113"
| "alert_description_code UnknownPskIdentity = 115"
| "alert_description_code CertificateRequired = 116"
| "alert_description_code NoApplicationProtocol = 120"

definition alert_description_of :: "u8 \<Rightarrow> AlertDescription option" where
  "alert_description_of num = map_of
     [(0, CloseNotify), (10, UnexpectedMessage), (20, BadRecordMac), (22, RecordOverflow), (40, HandshakeFailure),
      (42, BadCertificate), (43, UnsupportedCertificate), (44, CertificateRevoked), (45, CertificateExpired),
      (46, CertificateUnknown), (47, IllegalParameter), (48, UnknownCa), (49, AccessDenied), (50, AlertDecodeError),
      (51, DecryptError), (70, ProtocolVersion), (71, InsufficientSecurity), (80, AlertInternalError),
      (86, InappropriateFallback), (90, UserCanceled), (109, MissingExtension), (110, UnsupportedExtension),
      (112, UnrecognizedName), (113, BadCertificateStatusResponse), (115, UnknownPskIdentity),
      (116, CertificateRequired), (120, NoApplicationProtocol)] num"

record Alert =
  al_level :: AlertLevel
  al_description :: AlertDescription

section \<open>The verifier of RSA signatures\<close>

text \<open>
  The trait \<open>RsaVerifier\<close> of \<open>config.rs\<close>: each operation takes the public key, the message and the
  signature, and refuses the scheme unless it is overridden.
\<close>

type_synonym rsa_check = "u8 list \<Rightarrow> u8 list \<Rightarrow> u8 list \<Rightarrow> TlsError + unit"

record RsaVerifier =
  rv_pss_sha256 :: rsa_check
  rv_pss_sha384 :: rsa_check
  rv_pss_sha512 :: rsa_check
  rv_pkcs1v15_sha256 :: rsa_check
  rv_pkcs1v15_sha384 :: rsa_check
  rv_pkcs1v15_sha512 :: rsa_check

definition rsa_unsupported :: rsa_check where
  "rsa_unsupported public_key_der message signature = Inl InvalidSignatureScheme"

definition default_rsa_verifier :: RsaVerifier where
  "default_rsa_verifier =
     \<lparr>rv_pss_sha256 = rsa_unsupported, rv_pss_sha384 = rsa_unsupported, rv_pss_sha512 = rsa_unsupported,
      rv_pkcs1v15_sha256 = rsa_unsupported, rv_pkcs1v15_sha384 = rsa_unsupported, rv_pkcs1v15_sha512 = rsa_unsupported\<rparr>"

section \<open>Reading\<close>

definition st_map_err :: "('e \<Rightarrow> 'f) \<Rightarrow> ('e + 'a) \<times> 's \<Rightarrow> ('f + 'a) \<times> 's" where
  "st_map_err g m = (case m of (r, s) \<Rightarrow> (result_map_err g r, s))"

lemma st_map_err_simps [simp]:
  "st_map_err g (Inl e, s) = (Inl (g e), s)"
  "st_map_err g (Inr x, s) = (Inr x, s)"
  by (simp_all add: st_map_err_def)

lemma st_map_err_Inr_iff [simp]: "st_map_err g m = (Inr x, s) \<longleftrightarrow> m = (Inr x, s)"
  by (cases m; cases "fst m") auto

record ParseBuffer =
  pb_pos :: nat
  pb_buffer :: "u8 list"

type_synonym ('e, 'a) reading = "ParseBuffer \<Rightarrow> ('e + 'a) \<times> ParseBuffer"

definition parse_buffer_new :: "u8 list \<Rightarrow> ParseBuffer" where
  "parse_buffer_new buffer = \<lparr>pb_pos = 0, pb_buffer = buffer\<rparr>"

definition pb_is_empty :: "ParseBuffer \<Rightarrow> bool" where
  "pb_is_empty b \<longleftrightarrow> pb_pos b = length (pb_buffer b)"

definition pb_remaining :: "ParseBuffer \<Rightarrow> nat" where
  "pb_remaining b = length (pb_buffer b) - pb_pos b"

text \<open>The next \<open>n\<close> bytes, which the readers below take when they are there.\<close>

definition pb_take :: "nat \<Rightarrow> (ParseError, u8 list) reading" where
  "pb_take n b =
     (if pb_pos b + n \<le> length (pb_buffer b)
      then (Inr (take n (drop (pb_pos b) (pb_buffer b))), b\<lparr>pb_pos := pb_pos b + n\<rparr>)
      else (Inl InsufficientBytes, b))"

definition pb_slice :: "nat \<Rightarrow> (ParseError, ParseBuffer) reading" where
  "pb_slice len b = st_bind (pb_take len b) (\<lambda>bs b. (Inr (parse_buffer_new bs), b))"

lemma pb_slice_new: "pb_slice n b = (Inr s, b') \<Longrightarrow> s = parse_buffer_new (pb_buffer s)"
  by (auto simp: pb_slice_def st_bind_Inr_iff parse_buffer_new_def)

definition read_u8 :: "(ParseError, u8) reading" where
  "read_u8 b =
     (if pb_pos b < length (pb_buffer b)
      then (Inr (pb_buffer b ! pb_pos b), b\<lparr>pb_pos := pb_pos b + 1\<rparr>) else (Inl InsufficientBytes, b))"

definition u16_from_be_bytes :: "u8 \<Rightarrow> u8 \<Rightarrow> u16" where
  "u16_from_be_bytes hi lo = push_bit 8 (ucast hi) OR ucast lo"

definition u16_to_be_bytes :: "u16 \<Rightarrow> u8 list" where
  "u16_to_be_bytes w = [ucast (drop_bit 8 w), ucast w]"

definition read_u16 :: "(ParseError, u16) reading" where
  "read_u16 b = st_bind (pb_take 2 b) (\<lambda>bs b. (Inr (u16_from_be_bytes (bs ! 0) (bs ! 1)), b))"

definition read_u24 :: "(ParseError, u32) reading" where
  "read_u24 b = st_bind (pb_take 3 b) (\<lambda>bs b. (Inr (u32_from_be_bytes (0, bs ! 0, bs ! 1, bs ! 2)), b))"

definition read_u32 :: "(ParseError, u32) reading" where
  "read_u32 b = st_bind (pb_take 4 b) (\<lambda>bs b. (Inr (u32_from_be_bytes (bs ! 0, bs ! 1, bs ! 2, bs ! 3)), b))"

text \<open>\<open>fill\<close> copies as many bytes as the destination has.\<close>

definition pb_fill :: "nat \<Rightarrow> (ParseError, u8 list) reading" where
  "pb_fill dest_len = pb_take dest_len"

definition pb_copy :: "nat \<Rightarrow> u8 list \<Rightarrow> nat \<Rightarrow> (ParseError, u8 list) reading" where
  "pb_copy capacity dest num_bytes b =
     (if capacity - length dest < num_bytes then (Inl ParseInsufficientSpace, b)
      else st_bind (pb_take num_bytes b) (\<lambda>bs b. (Inr (dest @ bs), b)))"

text \<open>
  The items of a vector of capacity \<open>n\<close>, up to the end of the buffer: an item that finds the vector
  full is the error \<open>full\<close>. The rounds of the loop are bounded by the capacity.
\<close>

fun read_items :: "'e \<Rightarrow> ('e, 'a) reading \<Rightarrow> nat \<Rightarrow> ('e, 'a list) reading" where
  "read_items full item n b =
     (if pb_is_empty b then (Inr [], b)
      else st_bind (item b) (\<lambda>x b. case n of
        0 \<Rightarrow> (Inl full, b)
      | Suc n \<Rightarrow> st_bind (read_items full item n b) (\<lambda>xs b. (Inr (x # xs), b))))"

declare read_items.simps [simp del]

definition read_list :: "nat \<Rightarrow> nat \<Rightarrow> (ParseError, 'a) reading \<Rightarrow> (ParseError, 'a list) reading" where
  "read_list n data_length item b =
     st_bind (pb_slice data_length b) (\<lambda>data b. (fst (read_items ParseInsufficientSpace item n data), b))"

definition alert_parse :: "(TlsError, Alert) reading" where
  "alert_parse b =
     st_bind (st_map_err TlsParseError (read_u8 b)) (\<lambda>level b.
     st_bind (st_map_err TlsParseError (read_u8 b)) (\<lambda>desc b.
       (case alert_level_of level of
          None \<Rightarrow> Inl TlsDecodeError
        | Some level \<Rightarrow> (case alert_description_of desc of
            None \<Rightarrow> Inl TlsDecodeError
          | Some description \<Rightarrow> Inr \<lparr>al_level = level, al_description = description\<rparr>), b)))"

section \<open>Writing\<close>

record CryptoBuffer =
  cb_buf :: "u8 list"
  cb_offset :: nat
  cb_len :: nat

type_synonym writing = "CryptoBuffer \<Rightarrow> (TlsError + unit) \<times> CryptoBuffer"

definition wrap_with_pos :: "u8 list \<Rightarrow> nat \<Rightarrow> CryptoBuffer" where
  "wrap_with_pos buf pos = \<lparr>cb_buf = buf, cb_offset = 0, cb_len = pos\<rparr>"

definition crypto_wrap :: "u8 list \<Rightarrow> CryptoBuffer" where
  "crypto_wrap buf = \<lparr>cb_buf = buf, cb_offset = 0, cb_len = 0\<rparr>"

definition cb_capacity :: "CryptoBuffer \<Rightarrow> nat" where
  "cb_capacity c = length (cb_buf c)"

definition cb_space :: "CryptoBuffer \<Rightarrow> nat" where
  "cb_space c = cb_capacity c - (cb_offset c + cb_len c)"

definition cb_as_slice :: "CryptoBuffer \<Rightarrow> u8 list" where
  "cb_as_slice c = take (cb_len c) (drop (cb_offset c) (cb_buf c))"

definition cb_push :: "u8 \<Rightarrow> writing" where
  "cb_push x c =
     (if 0 < cb_space c
      then (Inr (), c\<lparr>cb_buf := (cb_buf c)[cb_offset c + cb_len c := x], cb_len := cb_len c + 1\<rparr>)
      else (Inl TlsInsufficientSpace, c))"

definition cb_extend :: "u8 list \<Rightarrow> writing" where
  "cb_extend other c =
     (if cb_space c < length other then (Inl TlsInsufficientSpace, c)
      else (Inr (), c\<lparr>cb_buf := splice (cb_buf c) (cb_offset c + cb_len c) other, cb_len := cb_len c + length other\<rparr>))"

definition push_u16 :: "u16 \<Rightarrow> writing" where
  "push_u16 num = cb_extend (u16_to_be_bytes num)"

definition push_u24 :: "u32 \<Rightarrow> writing" where
  "push_u24 num = cb_extend (drop 1 (u32_to_be_bytes num))"

definition push_u32 :: "u32 \<Rightarrow> writing" where
  "push_u32 num = cb_extend (u32_to_be_bytes num)"

definition cb_set :: "nat \<Rightarrow> u8 \<Rightarrow> writing" where
  "cb_set idx val c =
     (if idx < cb_len c then (Inr (), c\<lparr>cb_buf := (cb_buf c)[cb_offset c + idx := val]\<rparr>)
      else (Inl TlsInsufficientSpace, c))"

fun cb_set_all :: "nat \<Rightarrow> u8 list \<Rightarrow> writing" where
  "cb_set_all idx [] c = (Inr (), c)"
| "cb_set_all idx (x # xs) c = st_bind (cb_set idx x c) (\<lambda>_ c. cb_set_all (idx + 1) xs c)"

definition set_u16 :: "nat \<Rightarrow> u16 \<Rightarrow> writing" where
  "set_u16 idx val = cb_set_all idx (u16_to_be_bytes val)"

definition set_u24 :: "nat \<Rightarrow> u32 \<Rightarrow> writing" where
  "set_u24 idx val = cb_set_all idx (drop 1 (u32_to_be_bytes val))"

definition cb_truncate :: "nat \<Rightarrow> CryptoBuffer \<Rightarrow> CryptoBuffer" where
  "cb_truncate len c = (if len \<le> cb_capacity c - cb_offset c then c\<lparr>cb_len := len\<rparr> else c)"

definition cb_offset_to :: "nat \<Rightarrow> CryptoBuffer \<Rightarrow> CryptoBuffer" where
  "cb_offset_to offset c = c\<lparr>cb_len := cb_len c + cb_offset c - offset, cb_offset := offset\<rparr>"

definition cb_forward :: "CryptoBuffer \<Rightarrow> CryptoBuffer" where
  "cb_forward c = cb_offset_to (cb_len c) c"

definition cb_rewind :: "CryptoBuffer \<Rightarrow> CryptoBuffer" where
  "cb_rewind c = cb_offset_to 0 c"

text \<open>A part with its length in front, which is filled in once the part is written.\<close>

definition with_u8_length :: "writing \<Rightarrow> writing" where
  "with_u8_length op c =
     (let len_pos = cb_len c
      in st_bind (cb_push 0 c) (\<lambda>_ c. let start = cb_len c
         in st_bind (op c) (\<lambda>_ c. cb_set len_pos (of_nat (cb_len c - start)) c)))"

definition with_u16_length :: "writing \<Rightarrow> writing" where
  "with_u16_length op c =
     (let len_pos = cb_len c
      in st_bind (push_u16 0 c) (\<lambda>_ c. let start = cb_len c
         in st_bind (op c) (\<lambda>_ c. set_u16 len_pos (of_nat (cb_len c - start)) c)))"

definition with_u24_length :: "writing \<Rightarrow> writing" where
  "with_u24_length op c =
     (let len_pos = cb_len c
      in st_bind (push_u24 0 c) (\<lambda>_ c. let start = cb_len c
         in st_bind (op c) (\<lambda>_ c. set_u24 len_pos (of_nat (cb_len c - start)) c)))"

fun write_items :: "('a \<Rightarrow> writing) \<Rightarrow> 'a list \<Rightarrow> writing" where
  "write_items op [] c = (Inr (), c)"
| "write_items op (x # xs) c = st_bind (op x c) (\<lambda>_ c. write_items op xs c)"

definition alert_encode :: "Alert \<Rightarrow> writing" where
  "alert_encode a c =
     st_bind (st_map_err (\<lambda>_. EncodeError) (cb_push (alert_level_code (al_level a)) c)) (\<lambda>_ c.
       st_map_err (\<lambda>_. EncodeError) (cb_push (alert_description_code (al_description a)) c))"

end
