(* ===== verification/Tls_Messages.thy ===== *)
theory Tls_Messages
  imports Tls_Parse
begin

text \<open>
  The messages a TLS server sends in the handshake, \<open>tools/embedded-tls/src\<close>: extensions
  (\<open>extensions/\<close>), the messages (\<open>handshake/\<close>) and their union (\<open>handshake/mod.rs\<close>). The running
  hash of the transcript is the list of the bytes it has absorbed.
\<close>

section \<open>Code points\<close>

datatype ExtensionType =
    ServerName | MaxFragmentLength | StatusRequest | SupportedGroups | SignatureAlgorithms | UseSrtp | Heartbeat
  | ApplicationLayerProtocolNegotiation | SignedCertificateTimestamp | ClientCertificateType
  | ServerCertificateType | Padding | CompressCertificate | PreSharedKey | EarlyData | SupportedVersions
  | Cookie | PskKeyExchangeModes | CertificateAuthorities | OidFilters | PostHandshakeAuth
  | SignatureAlgorithmsCert | KeyShare

fun extension_type_code :: "ExtensionType \<Rightarrow> u16" where
  "extension_type_code ServerName = 0"
| "extension_type_code MaxFragmentLength = 1"
| "extension_type_code StatusRequest = 5"
| "extension_type_code SupportedGroups = 10"
| "extension_type_code SignatureAlgorithms = 13"
| "extension_type_code UseSrtp = 14"
| "extension_type_code Heartbeat = 15"
| "extension_type_code ApplicationLayerProtocolNegotiation = 16"
| "extension_type_code SignedCertificateTimestamp = 18"
| "extension_type_code ClientCertificateType = 19"
| "extension_type_code ServerCertificateType = 20"
| "extension_type_code Padding = 21"
| "extension_type_code CompressCertificate = 27"
| "extension_type_code PreSharedKey = 41"
| "extension_type_code EarlyData = 42"
| "extension_type_code SupportedVersions = 43"
| "extension_type_code Cookie = 44"
| "extension_type_code PskKeyExchangeModes = 45"
| "extension_type_code CertificateAuthorities = 47"
| "extension_type_code OidFilters = 48"
| "extension_type_code PostHandshakeAuth = 49"
| "extension_type_code SignatureAlgorithmsCert = 50"
| "extension_type_code KeyShare = 51"

text \<open>The first value of a table with the code read; an unknown code is invalid data.\<close>

definition code_point_of :: "('a \<Rightarrow> 'c) \<Rightarrow> 'a list \<Rightarrow> 'c \<Rightarrow> ParseError + 'a" where
  "code_point_of code table v = (case find (\<lambda>x. code x = v) table of None \<Rightarrow> Inl ParseInvalidData | Some x \<Rightarrow> Inr x)"

definition extension_type_parse :: "(ParseError, ExtensionType) reading" where
  "extension_type_parse b = st_bind (read_u16 b) (\<lambda>v b.
     (code_point_of extension_type_code
        [ServerName, MaxFragmentLength, StatusRequest, SupportedGroups, SignatureAlgorithms, UseSrtp, Heartbeat,
         ApplicationLayerProtocolNegotiation, SignedCertificateTimestamp, ClientCertificateType,
         ServerCertificateType, Padding, CompressCertificate, PreSharedKey, EarlyData, SupportedVersions, Cookie,
         PskKeyExchangeModes, CertificateAuthorities, OidFilters, PostHandshakeAuth, SignatureAlgorithmsCert,
         KeyShare] v, b))"

definition extension_type_encode :: "ExtensionType \<Rightarrow> writing" where
  "extension_type_encode t c = st_map_err (\<lambda>_. EncodeError) (push_u16 (extension_type_code t) c)"

datatype SignatureScheme =
    RsaPkcs1Sha256 | RsaPkcs1Sha384 | RsaPkcs1Sha512 | EcdsaSecp256r1Sha256 | EcdsaSecp384r1Sha384
  | EcdsaSecp521r1Sha512 | RsaPssRsaeSha256 | RsaPssRsaeSha384 | RsaPssRsaeSha512 | Ed25519 | Ed448
  | RsaPssPssSha256 | RsaPssPssSha384 | RsaPssPssSha512 | Sha224Ecdsa | Sha224Rsa | Sha224Dsa | RsaPkcs1Sha1
  | EcdsaSha1 | Sha256BrainpoolP256r1 | Sha384BrainpoolP384r1 | Sha512BrainpoolP512r1 | MlDsa44 | MlDsa65 | MlDsa87

fun signature_scheme_code :: "SignatureScheme \<Rightarrow> u16" where
  "signature_scheme_code RsaPkcs1Sha256 = 0x0401"
| "signature_scheme_code RsaPkcs1Sha384 = 0x0501"
| "signature_scheme_code RsaPkcs1Sha512 = 0x0601"
| "signature_scheme_code EcdsaSecp256r1Sha256 = 0x0403"
| "signature_scheme_code EcdsaSecp384r1Sha384 = 0x0503"
| "signature_scheme_code EcdsaSecp521r1Sha512 = 0x0603"
| "signature_scheme_code RsaPssRsaeSha256 = 0x0804"
| "signature_scheme_code RsaPssRsaeSha384 = 0x0805"
| "signature_scheme_code RsaPssRsaeSha512 = 0x0806"
| "signature_scheme_code Ed25519 = 0x0807"
| "signature_scheme_code Ed448 = 0x0808"
| "signature_scheme_code RsaPssPssSha256 = 0x0809"
| "signature_scheme_code RsaPssPssSha384 = 0x080a"
| "signature_scheme_code RsaPssPssSha512 = 0x080b"
| "signature_scheme_code Sha224Ecdsa = 0x0303"
| "signature_scheme_code Sha224Rsa = 0x0301"
| "signature_scheme_code Sha224Dsa = 0x0302"
| "signature_scheme_code RsaPkcs1Sha1 = 0x0201"
| "signature_scheme_code EcdsaSha1 = 0x0203"
| "signature_scheme_code Sha256BrainpoolP256r1 = 0x081A"
| "signature_scheme_code Sha384BrainpoolP384r1 = 0x081B"
| "signature_scheme_code Sha512BrainpoolP512r1 = 0x081C"
| "signature_scheme_code MlDsa44 = 0x0904"
| "signature_scheme_code MlDsa65 = 0x0905"
| "signature_scheme_code MlDsa87 = 0x0906"

definition signature_scheme_parse :: "(ParseError, SignatureScheme) reading" where
  "signature_scheme_parse b = st_bind (read_u16 b) (\<lambda>v b.
     (case map_of
        [(0x0401, RsaPkcs1Sha256), (0x0501, RsaPkcs1Sha384), (0x0601, RsaPkcs1Sha512),
         (0x0403, EcdsaSecp256r1Sha256), (0x0503, EcdsaSecp384r1Sha384), (0x0603, EcdsaSecp521r1Sha512),
         (0x0804, RsaPssRsaeSha256), (0x0805, RsaPssRsaeSha384), (0x0806, RsaPssRsaeSha512),
         (0x0807, Ed25519), (0x0808, Ed448),
         (0x0809, RsaPssPssSha256), (0x080a, RsaPssPssSha384), (0x080b, RsaPssPssSha512),
         (0x0303, Sha224Ecdsa), (0x0301, Sha224Rsa), (0x0302, Sha224Dsa), (0x0201, RsaPkcs1Sha1), (0x0203, EcdsaSha1),
         (0x081A, Sha256BrainpoolP256r1), (0x081B, Sha384BrainpoolP384r1), (0x081C, Sha512BrainpoolP512r1),
         (0x0904, MlDsa44), (0x0905, MlDsa65), (0x0906, MlDsa87)] v of
        None \<Rightarrow> Inl ParseInvalidData | Some s \<Rightarrow> Inr s, b))"

datatype NamedGroup =
    Secp256r1 | Secp384r1 | Secp521r1 | X25519 | X448 | Ffdhe2048 | Ffdhe3072 | Ffdhe4096 | Ffdhe6144 | Ffdhe8192
  | X25519MLKEM768 | SecP256r1MLKEM768 | SecP384r1MLKEM1024

fun named_group_code :: "NamedGroup \<Rightarrow> u16" where
  "named_group_code Secp256r1 = 0x0017"
| "named_group_code Secp384r1 = 0x0018"
| "named_group_code Secp521r1 = 0x0019"
| "named_group_code X25519 = 0x001D"
| "named_group_code X448 = 0x001E"
| "named_group_code Ffdhe2048 = 0x0100"
| "named_group_code Ffdhe3072 = 0x0101"
| "named_group_code Ffdhe4096 = 0x0102"
| "named_group_code Ffdhe6144 = 0x0103"
| "named_group_code Ffdhe8192 = 0x0104"
| "named_group_code SecP256r1MLKEM768 = 0x11EB"
| "named_group_code X25519MLKEM768 = 0x11EC"
| "named_group_code SecP384r1MLKEM1024 = 0x11ED"

definition named_group_parse :: "(ParseError, NamedGroup) reading" where
  "named_group_parse b = st_bind (read_u16 b) (\<lambda>v b.
     (case map_of
        [(0x0017, Secp256r1), (0x0018, Secp384r1), (0x0019, Secp521r1), (0x001D, X25519), (0x001E, X448),
         (0x0100, Ffdhe2048), (0x0101, Ffdhe3072), (0x0102, Ffdhe4096), (0x0103, Ffdhe6144), (0x0104, Ffdhe8192),
         (0x11EB, SecP256r1MLKEM768), (0x11EC, X25519MLKEM768), (0x11ED, SecP384r1MLKEM1024)] v of
        None \<Rightarrow> Inl ParseInvalidData | Some g \<Rightarrow> Inr g, b))"

definition named_group_encode :: "NamedGroup \<Rightarrow> writing" where
  "named_group_encode g c = st_map_err (\<lambda>_. EncodeError) (push_u16 (named_group_code g) c)"

datatype CipherSuite =
    TlsAes128GcmSha256 | TlsAes256GcmSha384 | TlsChacha20Poly1305Sha256 | TlsAes128CcmSha256
  | TlsAes128Ccm8Sha256 | TlsPskAes128GcmSha256

fun cipher_suite_code :: "CipherSuite \<Rightarrow> u16" where
  "cipher_suite_code TlsAes128GcmSha256 = 0x1301"
| "cipher_suite_code TlsAes256GcmSha384 = 0x1302"
| "cipher_suite_code TlsChacha20Poly1305Sha256 = 0x1303"
| "cipher_suite_code TlsAes128CcmSha256 = 0x1304"
| "cipher_suite_code TlsAes128Ccm8Sha256 = 0x1305"
| "cipher_suite_code TlsPskAes128GcmSha256 = 0x00A8"

definition cipher_suite_parse :: "(ParseError, CipherSuite) reading" where
  "cipher_suite_parse b = st_bind (read_u16 b) (\<lambda>v b.
     (code_point_of cipher_suite_code
        [TlsAes128GcmSha256, TlsAes256GcmSha384, TlsChacha20Poly1305Sha256, TlsAes128CcmSha256,
         TlsAes128Ccm8Sha256, TlsPskAes128GcmSha256] v, b))"

section \<open>Extension data\<close>

datatype MaxFragmentLengthData = Bits9 | Bits10 | Bits11 | Bits12

definition max_fragment_length_parse :: "(ParseError, MaxFragmentLengthData) reading" where
  "max_fragment_length_parse b = st_bind (read_u8 b) (\<lambda>v b.
     (if v = 1 then Inr Bits9 else if v = 2 then Inr Bits10 else if v = 3 then Inr Bits11
      else if v = 4 then Inr Bits12 else Inl ParseInvalidData, b))"

record KeyShareEntry =
  ks_group :: NamedGroup
  ks_opaque :: "u8 list"

definition key_share_entry_parse :: "(ParseError, KeyShareEntry) reading" where
  "key_share_entry_parse b =
     st_bind (named_group_parse b) (\<lambda>grp b.
     st_bind (read_u16 b) (\<lambda>opaque_len b.
     st_bind (pb_slice (unat opaque_len) b) (\<lambda>opaque b.
       (Inr \<lparr>ks_group = grp, ks_opaque = pb_buffer opaque\<rparr>, b))))"

definition key_share_entry_encode :: "KeyShareEntry \<Rightarrow> writing" where
  "key_share_entry_encode ks c =
     st_bind (named_group_encode (ks_group ks) c) (\<lambda>_ c.
       st_map_err (\<lambda>_. EncodeError) (with_u16_length (cb_extend (ks_opaque ks)) c))"

definition supported_groups_parse :: "(ParseError, NamedGroup list) reading" where
  "supported_groups_parse b = st_bind (read_u16 b) (\<lambda>data_length b. read_list 13 (unat data_length) named_group_parse b)"

definition signature_algorithms_parse :: "(ParseError, SignatureScheme list) reading" where
  "signature_algorithms_parse b =
     st_bind (read_u16 b) (\<lambda>data_length b. read_list 25 (unat data_length) signature_scheme_parse b)"

definition unimplemented_parse :: "(ParseError, u8 list) reading" where
  "unimplemented_parse b = (Inr (pb_buffer b), b)"

definition server_name_response_parse :: "(ParseError, unit) reading" where
  "server_name_response_parse b = (if pb_is_empty b then Inr () else Inl ParseInvalidData, b)"

text \<open>The names of an ALPN list are only checked; every round takes a name of at least one byte.\<close>

definition alpn_name :: "(ParseError, unit) reading" where
  "alpn_name b =
     st_bind (read_u8 b) (\<lambda>name_len b.
       if name_len = 0 then (Inl ParseInvalidData, b)
       else st_bind (pb_slice (unat name_len) b) (\<lambda>_ b. (Inr (), b)))"

definition alpn_parse :: "(ParseError, u8 list list) reading" where
  "alpn_parse b =
     st_bind (read_u16 b) (\<lambda>list_len b.
     st_bind (pb_slice (unat list_len) b) (\<lambda>list_buf b.
       (case fst (read_items ParseInvalidData alpn_name (pb_remaining list_buf) list_buf) of
          Inl e \<Rightarrow> Inl e | Inr _ \<Rightarrow> Inr [], b)))"

section \<open>Groups of extensions\<close>

text \<open>
  The macro \<open>extension_group\<close>, for a group given by the reader of each type it contains. Data of a
  type that is not known is skipped, a known type that does not belong to the group aborts.
\<close>

definition extension_parse :: "(ExtensionType \<Rightarrow> (ParseError, 'a) reading option) \<Rightarrow> (TlsError, 'a) reading" where
  "extension_parse grp b =
     (case extension_type_parse b of (extension_type, b) \<Rightarrow>
       st_bind (st_map_err (\<lambda>_. TlsDecodeError) (read_u16 b)) (\<lambda>data_len b.
       st_bind (st_map_err (\<lambda>_. TlsDecodeError) (pb_slice (unat data_len) b)) (\<lambda>ext_data b.
         (case extension_type of
            Inl ParseInvalidData \<Rightarrow> Inl UnknownExtensionType
          | Inl _ \<Rightarrow> Inl TlsDecodeError
          | Inr ext_type \<Rightarrow> (case grp ext_type of
              None \<Rightarrow> Inl (AbortHandshake AlertFatal IllegalParameter)
            | Some item \<Rightarrow> result_map_err (\<lambda>_. TlsDecodeError) (fst (item ext_data))), b))))"

lemma read_u16_remaining: "read_u16 b = (Inr v, b') \<Longrightarrow> pb_remaining b' + 2 = pb_remaining b"
  by (auto simp: read_u16_def pb_take_def st_bind_Inr_iff pb_remaining_def split: if_splits)

lemma pb_slice_remaining: "pb_slice n b = (Inr v, b') \<Longrightarrow> pb_remaining b' \<le> pb_remaining b"
  by (auto simp: pb_slice_def pb_take_def st_bind_Inr_iff pb_remaining_def split: if_splits)

lemma extension_type_remaining: "extension_type_parse b = (r, b') \<Longrightarrow> pb_remaining b' \<le> pb_remaining b"
  by (auto simp: extension_type_parse_def read_u16_def pb_take_def st_bind_def pb_remaining_def split: if_splits)

lemma extension_parse_shorter:
  assumes "extension_parse grp b = (r, b')" "\<forall>e. r = Inl e \<longrightarrow> e = UnknownExtensionType"
  shows "pb_remaining b' < pb_remaining b"
proof -
  obtain t b1 where t: "extension_type_parse b = (t, b1)" by fastforce
  obtain l b2 where l: "read_u16 b1 = (l, b2)" by fastforce
  have "\<exists>v. l = Inr v" using assms t l by (cases l) (auto simp: extension_parse_def)
  then obtain v where v: "l = Inr v" by blast
  obtain d b3 where d: "pb_slice (unat v) b2 = (d, b3)" by fastforce
  have "\<exists>x. d = Inr x" using assms t l v d by (cases d) (auto simp: extension_parse_def)
  then obtain x where "d = Inr x" by blast
  with assms(1) t l v d have "b' = b3" by (simp add: extension_parse_def)
  with \<open>d = Inr x\<close> d l v t show ?thesis
    using pb_slice_remaining [of "unat v" b2 x b3] read_u16_remaining [of b1 v b2] extension_type_remaining [OF t] by simp
qed

function extension_items :: "(ExtensionType \<Rightarrow> (ParseError, 'a) reading option) \<Rightarrow> nat \<Rightarrow> (TlsError, 'a list) reading" where
  "extension_items grp n b =
     (if pb_is_empty b then (Inr [], b)
      else case extension_parse grp b of
        (Inr x, b) \<Rightarrow>
          if n = 0 then (Inl TlsDecodeError, b)
          else st_bind (extension_items grp (n - 1) b) (\<lambda>xs b. (Inr (x # xs), b))
      | (Inl e, b) \<Rightarrow> if e = UnknownExtensionType then extension_items grp n b else (Inl e, b))"
  by pat_completeness auto
termination
  by (relation "measure (\<lambda>(_, _, b). pb_remaining b)") (auto dest!: extension_parse_shorter [OF sym])

declare extension_items.simps [simp del]

definition extension_vector :: "(ExtensionType \<Rightarrow> (ParseError, 'a) reading option) \<Rightarrow> nat \<Rightarrow> (TlsError, 'a list) reading" where
  "extension_vector grp n b =
     st_bind (st_map_err (\<lambda>_. InvalidExtensionsLength) (read_u16 b)) (\<lambda>extensions_len b.
     st_bind (st_map_err TlsParseError (pb_slice (unat extensions_len) b)) (\<lambda>ext_buf b.
       (fst (extension_items grp n ext_buf), b)))"

definition read_map :: "('a \<Rightarrow> 'b) \<Rightarrow> ('e, 'a) reading \<Rightarrow> ('e, 'b) reading" where
  "read_map f item b = st_bind (item b) (\<lambda>x b. (Inr (f x), b))"

datatype ServerHelloExtension =
    ShKeyShare KeyShareEntry | ShPreSharedKey u16 | ShCookie "u8 list" | ShSupportedVersions u16

fun server_hello_group :: "ExtensionType \<Rightarrow> (ParseError, ServerHelloExtension) reading option" where
  "server_hello_group KeyShare = Some (read_map ShKeyShare key_share_entry_parse)"
| "server_hello_group PreSharedKey = Some (read_map ShPreSharedKey read_u16)"
| "server_hello_group Cookie = Some (read_map ShCookie unimplemented_parse)"
| "server_hello_group SupportedVersions = Some (read_map ShSupportedVersions read_u16)"
| "server_hello_group _ = None"

text \<open>Where the parsed data is dropped, a reader only says whether it succeeds.\<close>

definition read_checked :: "('e, 'a) reading \<Rightarrow> ('e, unit) reading" where
  "read_checked = read_map (\<lambda>_. ())"

fun encrypted_extensions_group :: "ExtensionType \<Rightarrow> (ParseError, unit) reading option" where
  "encrypted_extensions_group ServerName = Some server_name_response_parse"
| "encrypted_extensions_group MaxFragmentLength = Some (read_checked max_fragment_length_parse)"
| "encrypted_extensions_group SupportedGroups = Some (read_checked supported_groups_parse)"
| "encrypted_extensions_group UseSrtp = Some (read_checked unimplemented_parse)"
| "encrypted_extensions_group Heartbeat = Some (read_checked unimplemented_parse)"
| "encrypted_extensions_group ApplicationLayerProtocolNegotiation = Some (read_checked alpn_parse)"
| "encrypted_extensions_group ClientCertificateType = Some (read_checked unimplemented_parse)"
| "encrypted_extensions_group ServerCertificateType = Some (read_checked unimplemented_parse)"
| "encrypted_extensions_group EarlyData = Some (read_checked unimplemented_parse)"
| "encrypted_extensions_group _ = None"

fun certificate_request_group :: "ExtensionType \<Rightarrow> (ParseError, unit) reading option" where
  "certificate_request_group StatusRequest = Some (read_checked unimplemented_parse)"
| "certificate_request_group SignatureAlgorithms = Some (read_checked signature_algorithms_parse)"
| "certificate_request_group SignedCertificateTimestamp = Some (read_checked unimplemented_parse)"
| "certificate_request_group CertificateAuthorities = Some (read_checked unimplemented_parse)"
| "certificate_request_group OidFilters = Some (read_checked unimplemented_parse)"
| "certificate_request_group SignatureAlgorithmsCert = Some (read_checked unimplemented_parse)"
| "certificate_request_group CompressCertificate = Some (read_checked unimplemented_parse)"
| "certificate_request_group _ = None"

fun certificate_group :: "ExtensionType \<Rightarrow> (ParseError, unit) reading option" where
  "certificate_group StatusRequest = Some (read_checked unimplemented_parse)"
| "certificate_group SignedCertificateTimestamp = Some (read_checked unimplemented_parse)"
| "certificate_group _ = None"

fun new_session_ticket_group :: "ExtensionType \<Rightarrow> (ParseError, unit) reading option" where
  "new_session_ticket_group EarlyData = Some (read_checked unimplemented_parse)"
| "new_session_ticket_group _ = None"

section \<open>Certificates\<close>

datatype CertificateEntry = X509 "u8 list" | RawPublicKey "u8 list"

record CertificateRef =
  cr_raw_entries :: "u8 list"
  cr_request_context :: "u8 list"
  cr_entries :: "CertificateEntry list"

definition certificate_entry_parse :: "(TlsError, CertificateEntry) reading" where
  "certificate_entry_parse b =
     st_bind (st_map_err (\<lambda>_. InvalidCertificateEntry) (read_u24 b)) (\<lambda>entry_len b.
     st_bind (st_map_err (\<lambda>_. InvalidCertificateEntry) (pb_slice (unat entry_len) b)) (\<lambda>cert b.
     st_bind (extension_vector certificate_group 2 b) (\<lambda>_ b. (Inr (X509 (pb_buffer cert)), b))))"

definition certificate_entries_parse :: "nat \<Rightarrow> (TlsError, CertificateEntry list) reading" where
  "certificate_entries_parse n = read_items TlsDecodeError certificate_entry_parse n"

definition certificate_parse :: "(TlsError, CertificateRef) reading" where
  "certificate_parse b =
     st_bind (st_map_err (\<lambda>_. InvalidCertificate) (read_u8 b)) (\<lambda>request_context_len b.
     st_bind (st_map_err (\<lambda>_. InvalidCertificate) (pb_slice (unat request_context_len) b)) (\<lambda>request_context b.
     st_bind (st_map_err (\<lambda>_. InvalidCertificate) (read_u24 b)) (\<lambda>entries_len b.
     st_bind (st_map_err (\<lambda>_. InvalidCertificate) (pb_slice (unat entries_len) b)) (\<lambda>raw_entries b.
       (case fst (certificate_entries_parse 16 raw_entries) of
          Inl e \<Rightarrow> Inl e
        | Inr entries \<Rightarrow> Inr \<lparr>cr_raw_entries = pb_buffer raw_entries, cr_request_context = pb_buffer request_context,
            cr_entries = entries\<rparr>, b)))))"

definition certificate_with_context :: "u8 list \<Rightarrow> CertificateRef" where
  "certificate_with_context request_context = \<lparr>cr_raw_entries = [], cr_request_context = request_context, cr_entries = []\<rparr>"

definition certificate_add :: "CertificateRef \<Rightarrow> CertificateEntry \<Rightarrow> TlsError + CertificateRef" where
  "certificate_add cr entry =
     (if length (cr_entries cr) < 16 then Inr (cr\<lparr>cr_entries := cr_entries cr @ [entry]\<rparr>) else Inl TlsInsufficientSpace)"

text \<open>Writing a certificate; writing a raw public key is not implemented in the library.\<close>

definition x509_entry_encode :: "u8 list \<Rightarrow> writing" where
  "x509_entry_encode cert c = st_bind (with_u24_length (cb_extend cert) c) (\<lambda>_ c. push_u16 0 c)"

definition certificate_encode :: "u8 list \<Rightarrow> u8 list list \<Rightarrow> writing" where
  "certificate_encode request_context certs c =
     st_bind (with_u8_length (cb_extend request_context) c) (\<lambda>_ c. with_u24_length (write_items x509_entry_encode certs) c)"

text \<open>The certificate kept for the signature check, in vectors of 256 and \<open>cert_size\<close> bytes.\<close>

record OwnedCertificate =
  oc_request_context :: "u8 list"
  oc_entries_data :: "u8 list"

definition owned_certificate :: "nat \<Rightarrow> CertificateRef \<Rightarrow> TlsError + OwnedCertificate" where
  "owned_certificate cert_size cert =
     (if 256 < length (cr_request_context cert) then Inl TlsOutOfMemory
      else if cert_size < length (cr_raw_entries cert) then Inl TlsOutOfMemory
      else Inr \<lparr>oc_request_context = cr_request_context cert, oc_entries_data = cr_raw_entries cert\<rparr>)"

definition borrowed_certificate :: "OwnedCertificate \<Rightarrow> TlsError + CertificateRef" where
  "borrowed_certificate cert =
     (case fst (certificate_entries_parse 16 (parse_buffer_new (oc_entries_data cert))) of
        Inl e \<Rightarrow> Inl e
      | Inr entries \<Rightarrow> Inr \<lparr>cr_raw_entries = oc_entries_data cert, cr_request_context = oc_request_context cert,
          cr_entries = entries\<rparr>)"

record CertificateVerifyRef =
  cv_signature_scheme :: SignatureScheme
  cv_signature :: "u8 list"

definition certificate_verify_parse :: "(TlsError, CertificateVerifyRef) reading" where
  "certificate_verify_parse b =
     st_bind (st_map_err (\<lambda>_. InvalidSignatureScheme) (signature_scheme_parse b)) (\<lambda>scheme b.
     st_bind (st_map_err (\<lambda>_. TlsInvalidSignature) (read_u16 b)) (\<lambda>len b.
     st_bind (st_map_err (\<lambda>_. TlsInvalidSignature) (pb_slice (unat len) b)) (\<lambda>signature b.
       (Inr \<lparr>cv_signature_scheme = scheme, cv_signature = pb_buffer signature\<rparr>, b))))"

definition certificate_verify_encode :: "CertificateVerifyRef \<Rightarrow> writing" where
  "certificate_verify_encode cv c =
     st_bind (push_u16 (signature_scheme_code (cv_signature_scheme cv)) c) (\<lambda>_ c.
       with_u16_length (cb_extend (cv_signature cv)) c)"

section \<open>The other messages\<close>

definition encrypted_extensions_parse :: "(TlsError, unit) reading" where
  "encrypted_extensions_parse = read_checked (extension_vector encrypted_extensions_group 16)"

definition server_hello_parse :: "(TlsError, ServerHelloExtension list) reading" where
  "server_hello_parse b =
     st_bind (st_map_err (\<lambda>_. InvalidHandshake) (read_u16 b)) (\<lambda>_ b.
     st_bind (st_map_err TlsParseError (pb_fill 32 b)) (\<lambda>_ b.
     st_bind (st_map_err (\<lambda>_. InvalidSessionIdLength) (read_u8 b)) (\<lambda>session_id_length b.
     st_bind (st_map_err (\<lambda>_. InvalidSessionIdLength) (pb_slice (unat session_id_length) b)) (\<lambda>_ b.
     st_bind (st_map_err (\<lambda>_. InvalidCipherSuite) (cipher_suite_parse b)) (\<lambda>_ b.
     st_bind (st_map_err TlsParseError (read_u8 b)) (\<lambda>_ b.
       extension_vector server_hello_group 4 b))))))"

fun key_share :: "ServerHelloExtension list \<Rightarrow> KeyShareEntry option" where
  "key_share [] = None"
| "key_share (ShKeyShare entry # es) = Some entry"
| "key_share (_ # es) = key_share es"

definition new_session_ticket_parse :: "(TlsError, unit) reading" where
  "new_session_ticket_parse b =
     st_bind (st_map_err TlsParseError (read_u32 b)) (\<lambda>_ b.
     st_bind (st_map_err TlsParseError (read_u32 b)) (\<lambda>_ b.
     st_bind (st_map_err TlsParseError (read_u8 b)) (\<lambda>nonce_length b.
     st_bind (st_map_err (\<lambda>_. InvalidNonceLength) (pb_slice (unat nonce_length) b)) (\<lambda>_ b.
     st_bind (st_map_err TlsParseError (read_u16 b)) (\<lambda>ticket_length b.
     st_bind (st_map_err (\<lambda>_. InvalidTicketLength) (pb_slice (unat ticket_length) b)) (\<lambda>_ b.
       read_checked (extension_vector new_session_ticket_group 1) b))))))"

definition certificate_request_parse :: "(TlsError, u8 list) reading" where
  "certificate_request_parse b =
     st_bind (st_map_err (\<lambda>_. InvalidCertificateRequest) (read_u8 b)) (\<lambda>len b.
     st_bind (st_map_err (\<lambda>_. InvalidCertificateRequest) (pb_slice (unat len) b)) (\<lambda>request_context b.
     st_bind (extension_vector certificate_request_group 6 b) (\<lambda>_ b. (Inr (pb_buffer request_context), b))))"

text \<open>The request kept for the answer, in a vector of 256 bytes.\<close>

definition owned_certificate_request :: "u8 list \<Rightarrow> TlsError + u8 list" where
  "owned_certificate_request context = (if 256 < length context then Inl TlsInsufficientSpace else Inr context)"

record Finished =
  fin_verify :: "u8 list"
  fin_hash :: "u8 list option"

definition finished_parse :: "nat \<Rightarrow> (TlsError, Finished) reading" where
  "finished_parse hash_len b =
     st_bind (st_map_err TlsParseError (pb_fill hash_len b)) (\<lambda>verify b. (Inr \<lparr>fin_verify = verify, fin_hash = None\<rparr>, b))"

definition finished_encode :: "Finished \<Rightarrow> writing" where
  "finished_encode f c = st_map_err (\<lambda>_. EncodeError) (cb_extend (fin_verify f) c)"

section \<open>Handshake messages of the server\<close>

datatype HandshakeType =
    HtClientHello | HtServerHello | HtNewSessionTicket | HtEndOfEarlyData | HtEncryptedExtensions | HtCertificate
  | HtCertificateRequest | HtCertificateVerify | HtFinished | HtKeyUpdate | HtMessageHash

definition handshake_type_parse :: "(ParseError, HandshakeType) reading" where
  "handshake_type_parse b = st_bind (read_u8 b) (\<lambda>v b.
     (case map_of
        [(1, HtClientHello), (2, HtServerHello), (4, HtNewSessionTicket), (5, HtEndOfEarlyData),
         (8, HtEncryptedExtensions), (11, HtCertificate), (13, HtCertificateRequest), (15, HtCertificateVerify),
         (20, HtFinished), (24, HtKeyUpdate), (254, HtMessageHash)] v of
        None \<Rightarrow> Inl ParseInvalidData | Some t \<Rightarrow> Inr t, b))"

datatype ServerHandshake =
    ShServerHello "ServerHelloExtension list" | ShEncryptedExtensions | ShNewSessionTicket
  | ShCertificate CertificateRef | ShCertificateRequest "u8 list" | ShCertificateVerify CertificateVerifyRef
  | ShFinished Finished

text \<open>The announced length of a message is read but not used.\<close>

definition server_handshake_parse :: "nat \<Rightarrow> (TlsError, ServerHandshake) reading" where
  "server_handshake_parse hash_len b =
     st_bind (st_map_err (\<lambda>_. InvalidHandshake) (handshake_type_parse b)) (\<lambda>handshake_type b.
     st_bind (st_map_err (\<lambda>_. InvalidHandshake) (read_u24 b)) (\<lambda>content_len b.
       case handshake_type of
         HtServerHello \<Rightarrow> read_map ShServerHello server_hello_parse b
       | HtNewSessionTicket \<Rightarrow> read_map (\<lambda>_. ShNewSessionTicket) new_session_ticket_parse b
       | HtEncryptedExtensions \<Rightarrow> read_map (\<lambda>_. ShEncryptedExtensions) encrypted_extensions_parse b
       | HtCertificate \<Rightarrow> read_map ShCertificate certificate_parse b
       | HtCertificateRequest \<Rightarrow> read_map ShCertificateRequest certificate_request_parse b
       | HtCertificateVerify \<Rightarrow> read_map ShCertificateVerify certificate_verify_parse b
       | HtFinished \<Rightarrow> read_map ShFinished (finished_parse hash_len) b
       | _ \<Rightarrow> (Inl TlsUnimplemented, b)))"

text \<open>
  Reading a message adds its bytes to the transcript; a \<open>Finished\<close> message keeps the hash of the
  transcript before it.
\<close>

definition server_handshake_read ::
  "(u8 list \<Rightarrow> u8 list) \<Rightarrow> nat \<Rightarrow> ParseBuffer \<Rightarrow> u8 list \<Rightarrow> (TlsError + ServerHandshake \<times> u8 list) \<times> ParseBuffer" where
  "server_handshake_read hash hash_len b transcript =
     st_bind (server_handshake_parse hash_len b) (\<lambda>handshake b'.
       let handshake = (case handshake of ShFinished f \<Rightarrow> ShFinished (f\<lparr>fin_hash := Some (hash transcript)\<rparr>) | h \<Rightarrow> h)
       in (Inr (handshake, transcript @ take (pb_pos b' - pb_pos b) (drop (pb_pos b) (pb_buffer b'))), b'))"

end
