(* ===== verification/Hw_Rsa.thy ===== *)
theory Hw_Rsa
  imports Tls_Parse Rsa_Verify
begin

text \<open>
  RSA signatures checked with the accelerator, \<open>firmware/src/ota/hw_rsa.rs\<close>: the operation with the
  public key, the verifier handed to the TLS library and the self test. The modular exponentiation of
  the peripheral is a parameter: exponent, modulus, Montgomery constant, base and \<open>R\<^sup>2\<close> to result.
\<close>

type_synonym rsa_hardware = "u32 list \<Rightarrow> u32 list \<Rightarrow> u32 \<Rightarrow> u32 list \<Rightarrow> u32 list \<Rightarrow> u32 list"

definition RSA_2048_WORDS :: nat where [const_defs]: "RSA_2048_WORDS = 64"

fun map_rsa_error :: "RsaVerifyError \<Rightarrow> TlsError" where
  "map_rsa_error MalformedDer = InvalidCertificate"
| "map_rsa_error UnsupportedKey = InvalidCertificate"
| "map_rsa_error InvalidSignature = TlsInvalidSignature"

definition rsa_public_operation_2048 :: "rsa_hardware \<Rightarrow> u8 list \<Rightarrow> u8 list \<Rightarrow> TlsError + u8 list" where
  "rsa_public_operation_2048 hw public_key_der signature =
     result_bind (result_map_err map_rsa_error (parse_pkcs1_rsa2048_public_key_der public_key_der)) (\<lambda>public_key.
     result_bind (ensure (length signature = RSA_2048_LEN) TlsDecodeError) (\<lambda>_.
       let modulus = rsa2048_be_bytes_to_le_words (modulus_be public_key);
           exponent = rsa2048_exponent_be_to_le_words (exponent_be public_key);
           base = rsa2048_be_bytes_to_le_words signature;
           m_prime = compute_m_prime modulus;
           r_squared = compute_r_squared_mod_n modulus
       in Inr (rsa2048_le_words_to_be_bytes (hw exponent modulus m_prime base r_squared))))"

definition verify_sha256_signature ::
  "rsa_hardware \<Rightarrow> (u8 list \<Rightarrow> u8 list \<Rightarrow> RsaVerifyError + unit) \<Rightarrow> rsa_check" where
  "verify_sha256_signature hw verify_encoded_message public_key_der message signature =
     result_bind (rsa_public_operation_2048 hw public_key_der signature) (\<lambda>encoded_message.
       result_map_err map_rsa_error (verify_encoded_message message encoded_message))"

definition esp32_rsa_verifier :: "rsa_hardware \<Rightarrow> (u8 list \<Rightarrow> u8 list) \<Rightarrow> RsaVerifier" where
  "esp32_rsa_verifier hw sha = default_rsa_verifier
     \<lparr>rv_pkcs1v15_sha256 := verify_sha256_signature hw (verify_pkcs1v15_sha256_encoded_message sha),
      rv_pss_sha256 := verify_sha256_signature hw (verify_pss_sha256_encoded_message sha),
      rv_pss_sha384 := \<lambda>_ _ _. Inl InvalidSignatureScheme,
      rv_pss_sha512 := \<lambda>_ _ _. Inl InvalidSignatureScheme\<rparr>"

section \<open>Bytes and words as numbers\<close>

lemma be_value_less: "be_value bs < 256 ^ length bs"
proof (induction bs)
  case (Cons b bs)
  have "unat b \<le> 255" using unsigned_less [where w = b and 'a = nat] by simp
  then have "unat b * 256 ^ length bs \<le> 255 * 256 ^ length bs" by (rule mult_le_mono1)
  with Cons have "unat b * 256 ^ length bs + be_value bs < 255 * 256 ^ length bs + 256 ^ length bs" by (rule add_le_less_mono [rotated])
  then show ?case by simp
qed simp

lemma be_value_inj: "length xs = length ys \<Longrightarrow> be_value xs = be_value ys \<Longrightarrow> xs = ys"
proof (induction xs ys rule: list_induct2)
  case (Cons x xs y ys)
  let ?p = "256 ^ length ys :: nat"
  have l: "be_value xs < ?p" "be_value ys < ?p" using be_value_less [of xs] be_value_less [of ys] Cons.hyps by simp_all
  have "(unat x * ?p + be_value xs) div ?p = unat x" "(unat y * ?p + be_value ys) div ?p = unat y"
    using l by simp_all
  moreover have "unat x * ?p + be_value xs = unat y * ?p + be_value ys" using Cons.prems Cons.hyps by simp
  ultimately have "unat x = unat y" by metis
  then have "x = y" by (simp add: word_unat_eq_iff)
  with Cons show ?case by simp
qed simp

lemma unat_u32_from_be: "unat (u32_from_be_bytes (a, b, c, d)) = be_value [a, b, c, d]"
proof -
  have "u32_to_be_bytes (u32_from_be_bytes (a, b, c, d)) = [a, b, c, d]"
    by (simp add: u32_to_be_bytes_def u32_from_be_bytes_def)
  then show ?thesis by (metis be_value_u32)
qed

lemma be_words_value:
  "length bs = 4 * n \<Longrightarrow>
   le_value (map (\<lambda>i. let o' = 4 * n - (i + 1) * 4 in u32_from_be_bytes (bs ! o', bs ! (o' + 1), bs ! (o' + 2), bs ! (o' + 3))) [0..<n]) =
     be_value bs"
proof (induction n arbitrary: bs)
  case (Suc n)
  have "length (take 4 bs) = Suc (Suc (Suc (Suc 0)))" using Suc.prems by simp
  then obtain a b c d where "take 4 bs = [a, b, c, d]" by (auto simp: length_Suc_conv simp del: length_take)
  moreover define cs where "cs = drop 4 bs"
  ultimately have bs: "bs = a # b # c # d # cs" "length cs = 4 * n"
    using append_take_drop_id [of 4 bs] Suc.prems by simp_all
  have mp: "map (\<lambda>i. let o' = 4 * Suc n - (i + 1) * 4 in u32_from_be_bytes (bs ! o', bs ! (o' + 1), bs ! (o' + 2), bs ! (o' + 3))) [0..<n]
      = map (\<lambda>i. let o' = 4 * n - (i + 1) * 4 in u32_from_be_bytes (cs ! o', cs ! (o' + 1), cs ! (o' + 2), cs ! (o' + 3))) [0..<n]"
    (is "map ?f _ = map ?g _")
  proof (rule map_cong [OF refl])
    fix i assume "i \<in> set [0..<n]"
    define k where k: "k = 4 * n - (i + 1) * 4"
    with \<open>i \<in> set [0..<n]\<close> have k': "4 * Suc n - (i + 1) * 4 = Suc (Suc (Suc (Suc k)))" by auto
    show "?f i = ?g i" by (simp only: k [symmetric] k' Let_def) (simp add: bs(1) add.commute [of 3 k])
  qed
  have fn: "?f n = u32_from_be_bytes (a, b, c, d)" by (simp add: bs(1))
  have "map ?f [0..<Suc n] = map ?f [0..<n] @ [?f n]" by simp
  then have "le_value (map ?f [0..<Suc n]) = be_value cs + base_power n * unat (u32_from_be_bytes (a, b, c, d))"
    by (simp only: le_value_append mp fn Suc.IH [OF bs(2)] length_map length_upt le_value.simps) simp
  moreover have "base_power n = 256 ^ length cs" by (simp add: bs(2) power_mult)
  ultimately show ?case
    by (simp add: unat_u32_from_be bs(1) algebra_simps power_add [symmetric] del: be_value_simps)
      (simp add: algebra_simps)
qed simp

lemma le_words_bytes:
  "m \<le> n \<Longrightarrow> length init = 4 * n \<Longrightarrow> m \<le> length ws \<Longrightarrow>
   fold (\<lambda>i bytes. let o' = 4 * n - (i + 1) * 4 in splice bytes o' (u32_to_be_bytes (ws ! i))) [0..<m] init =
     take (4 * n - 4 * m) init @ concat (map u32_to_be_bytes (rev (take m ws)))"
proof (induction m)
  case (Suc m)
  have l4: "length (u32_to_be_bytes w) = 4" for w by (simp add: u32_to_be_bytes_def u32_to_le_bytes_def)
  let ?o = "4 * n - (m + 1) * 4"
  let ?t = "concat (map u32_to_be_bytes (rev (take m ws)))"
  have "4 * n - 4 * m = ?o + 4" using Suc.prems(1) by simp
  then have "splice (take (4 * n - 4 * m) init @ ?t) ?o (u32_to_be_bytes (ws ! m)) =
      take ?o init @ u32_to_be_bytes (ws ! m) @ ?t"
    using Suc.prems(2) by (simp add: splice_def l4 min_def)
  moreover have "rev (take (Suc m) ws) = ws ! m # rev (take m ws)" using Suc.prems(3) by (simp add: take_Suc_conv_app_nth)
  moreover have "?o = 4 * n - 4 * Suc m" by simp
  ultimately show ?case using Suc by (simp add: Let_def)
qed simp

lemma concat_words_value: "be_value (concat (map u32_to_be_bytes (rev ws))) = le_value ws"
proof (induction ws)
  case (Cons w ws)
  have "length (u32_to_be_bytes w) = 4" by (simp add: u32_to_be_bytes_def u32_to_le_bytes_def)
  with Cons show ?case by (simp add: be_value_append be_value_u32)
qed simp

lemma bytes_to_words:
  assumes "length bs = 256"
  shows "length (rsa2048_be_bytes_to_le_words bs) = 64" "le_value (rsa2048_be_bytes_to_le_words bs) = be_value bs"
  using be_words_value [of bs 64] assms by (simp_all add: rsa2048_be_bytes_to_le_words_def RSA_2048_LEN_def)

lemma words_to_bytes:
  assumes "length ws = 64"
  shows "length (rsa2048_le_words_to_be_bytes ws) = 256" "be_value (rsa2048_le_words_to_be_bytes ws) = le_value ws"
proof -
  have e: "rsa2048_le_words_to_be_bytes ws = concat (map u32_to_be_bytes (rev ws))"
    using le_words_bytes [of 64 64 "replicate 256 0" ws] assms
    by (simp add: rsa2048_le_words_to_be_bytes_def RSA_2048_LEN_def)
  have "length (concat (map u32_to_be_bytes us)) = 4 * length us" for us
    by (induction us) (simp_all add: u32_to_be_bytes_def u32_to_le_bytes_def)
  from this [of "rev ws"] show "length (rsa2048_le_words_to_be_bytes ws) = 256" using assms by (simp add: e)
  show "be_value (rsa2048_le_words_to_be_bytes ws) = le_value ws" by (simp add: e concat_words_value)
qed

lemma le_value_zeros: "le_value (replicate n 0) = 0"
  by (induction n) simp_all

lemma exponent_to_words:
  assumes "length e = 4"
  shows "length (rsa2048_exponent_be_to_le_words e) = 64" "le_value (rsa2048_exponent_be_to_le_words e) = be_value e"
proof -
  obtain a b c d where e: "e = [a, b, c, d]" using assms by (auto simp: length_Suc_conv numeral_eq_Suc)
  have "(replicate 64 0)[0 := w] = w # replicate 63 (0 :: u32)" for w by (simp add: numeral_eq_Suc)
  then show "length (rsa2048_exponent_be_to_le_words e) = 64" "le_value (rsa2048_exponent_be_to_le_words e) = be_value e"
    by (simp_all add: rsa2048_exponent_be_to_le_words_def e unat_u32_from_be le_value_zeros)
qed

section \<open>The peripheral\<close>

text \<open>
  What the peripheral promises: given the Montgomery constants of an odd modulus above 1 and a base
  below it, it raises the base to the exponent modulo the modulus.
\<close>

definition rsa_hardware_law :: "rsa_hardware \<Rightarrow> bool" where
  "rsa_hardware_law hw \<longleftrightarrow> (\<forall>e n m b r2.
     length e = 64 \<and> length n = 64 \<and> length b = 64 \<and> odd (n ! 0) \<and> 1 < le_value n \<and> le_value b < le_value n \<and>
     n ! 0 * m = -1 \<and> le_value r2 = (2 ^ 2048) ^ 2 mod le_value n \<longrightarrow>
     length (hw e n m b r2) = 64 \<and> le_value (hw e n m b r2) = le_value b ^ le_value e mod le_value n)"

lemma parsed_key_lengths:
  assumes "parse_pkcs1_rsa2048_public_key_der der = Inr key"
  shows "length (modulus_be key) = 256" "length (exponent_be key) = 4"
  using assms
  by (auto simp: parse_pkcs1_rsa2048_public_key_der_def result_bind_Inr_iff parse_rsa2048_modulus_def
      parse_rsa_exponent_def RSA_2048_LEN_def Let_def split: if_splits)

lemma odd_low_word:
  assumes "length n = 64" "odd (le_value n)"
  shows "odd (n ! 0)"
proof -
  obtain w ws where "n = w # ws" using assms(1) by (cases n) auto
  with assms(2) have "odd (unat w)" by simp
  with \<open>n = w # ws\<close> show ?thesis by (simp flip: bit_0 add: bit_unsigned_iff)
qed

lemma hardware_operation:
  assumes "rsa_hardware_law hw" "parse_pkcs1_rsa2048_public_key_der der = Inr key" "odd (be_value (modulus_be key))"
    and "length sig = 256" "be_value sig < be_value (modulus_be key)" "1 < be_value (modulus_be key)"
  shows "\<exists>em. rsa_public_operation_2048 hw der sig = Inr em \<and> length em = 256 \<and>
    be_value em = be_value sig ^ be_value (exponent_be key) mod be_value (modulus_be key)"
proof -
  let ?n = "rsa2048_be_bytes_to_le_words (modulus_be key)" and ?e = "rsa2048_exponent_be_to_le_words (exponent_be key)"
  let ?b = "rsa2048_be_bytes_to_le_words sig"
  note n = bytes_to_words [OF parsed_key_lengths(1) [OF assms(2)]] and e = exponent_to_words [OF parsed_key_lengths(2) [OF assms(2)]]
    and b = bytes_to_words [OF assms(4)]
  let ?ws = "hw ?e ?n (compute_m_prime ?n) ?b (compute_r_squared_mod_n ?n)"
  have o: "odd (?n ! 0)" using odd_low_word [OF n(1)] assms(3) n(2) by simp
  have "le_value (compute_r_squared_mod_n ?n) = (2 ^ 2048) ^ 2 mod le_value ?n"
    using r_squared_value [OF n(1)] assms(6) n(2) by (simp flip: power_mult)
  then have "length ?ws = 64" "le_value ?ws = le_value ?b ^ le_value ?e mod le_value ?n"
    using assms(1,5,6) n e b o m_prime_inverse [OF o] by (auto simp: rsa_hardware_law_def)
  then show ?thesis
    using assms(2,4) words_to_bytes [of ?ws] n(2) e(2) b(2)
    by (simp add: rsa_public_operation_2048_def RSA_2048_LEN_def Let_def)
qed


section \<open>What is verified\<close>

lemma encoded_message_known:
  assumes "rsa_hardware_law hw" "parse_pkcs1_rsa2048_public_key_der der = Inr key" "odd (be_value (modulus_be key))"
    and "1 < be_value (modulus_be key)" "length sig = 256" "be_value sig < be_value (modulus_be key)" "\<And>x. length (sha x) = 32"
  shows "rv_pkcs1v15_sha256 (esp32_rsa_verifier hw sha) der msg sig = Inr () \<longleftrightarrow>
      be_value (pkcs1v15_encode sha msg) = be_value sig ^ be_value (exponent_be key) mod be_value (modulus_be key)"
    and "rv_pss_sha256 (esp32_rsa_verifier hw sha) der msg sig = Inr () \<longleftrightarrow>
      (\<exists>salt. length salt = 32 \<and>
        be_value (pss_encode sha msg salt) = be_value sig ^ be_value (exponent_be key) mod be_value (modulus_be key))"
proof -
  obtain em where em: "rsa_public_operation_2048 hw der sig = Inr em" "length em = 256"
    "be_value em = be_value sig ^ be_value (exponent_be key) mod be_value (modulus_be key)"
    using hardware_operation [OF assms(1-3,5,6,4)] by blast
  have eq: "be_value x = be_value em \<longleftrightarrow> em = x" if "length x = 256" for x
    using be_value_inj [of x em] em(2) that by auto
  have l: "length (pkcs1v15_encode sha msg) = 256" using assms(7) by (simp add: pkcs1v15_encode_prefix)
  show "rv_pkcs1v15_sha256 (esp32_rsa_verifier hw sha) der msg sig = Inr () \<longleftrightarrow>
      be_value (pkcs1v15_encode sha msg) = be_value sig ^ be_value (exponent_be key) mod be_value (modulus_be key)"
    using pkcs1v15_accepts_only_encoding [OF em(2), of sha msg] assms(7) eq [OF l] em(3)
    by (simp add: esp32_rsa_verifier_def verify_sha256_signature_def em(1))
  have "length (pss_encode sha msg salt) = 256" if "length salt = 32" for salt
    by (rule length_pss_encode [OF assms(7) that])
  then show "rv_pss_sha256 (esp32_rsa_verifier hw sha) der msg sig = Inr () \<longleftrightarrow>
      (\<exists>salt. length salt = 32 \<and>
        be_value (pss_encode sha msg salt) = be_value sig ^ be_value (exponent_be key) mod be_value (modulus_be key))"
    using pss_accepts_iff_encoding [OF em(2), of sha msg, OF assms(7)] eq em(3)
    by (auto simp: esp32_rsa_verifier_def verify_sha256_signature_def em(1))
qed


text \<open>A peripheral that computes the power, to satisfy the law.\<close>

fun nat_words :: "nat \<Rightarrow> nat \<Rightarrow> u32 list" where
  "nat_words 0 x = []"
| "nat_words (Suc n) x = of_nat x # nat_words n (x div 4294967296)"

definition exact_rsa :: rsa_hardware where
  "exact_rsa e n m b r2 = nat_words 64 (le_value b ^ le_value e mod le_value n)"

lemma nat_words_value: "x < base_power n \<Longrightarrow> length (nat_words n x) = n \<and> le_value (nat_words n x) = x"
proof (induction n arbitrary: x)
  case (Suc n)
  have "x div 4294967296 < base_power n" using Suc.prems by (simp add: less_mult_imp_div_less mult.commute)
  with Suc.IH have "length (nat_words n (x div 4294967296)) = n" "le_value (nat_words n (x div 4294967296)) = x div 4294967296"
    by blast+
  moreover have "unat (of_nat x :: u32) = x mod 4294967296" by (simp add: unat_of_nat)
  ultimately show ?case by simp
qed simp

lemma exact_rsa_law: "rsa_hardware_law exact_rsa"
proof -
  have "le_value b ^ le_value e mod le_value n < base_power 64" if "length n = 64" "1 < le_value n" for b e n
  proof -
    have "le_value b ^ le_value e mod le_value n < le_value n" using that(2) by (intro mod_less_divisor) linarith
    also have "\<dots> < base_power (length n)" by (rule le_value_less)
    finally show ?thesis by (simp only: that(1))
  qed
  then show ?thesis using nat_words_value by (auto simp: rsa_hardware_law_def exact_rsa_def)
qed

lemma be_value_all_ones: "be_value (replicate n 0xFF) + 1 = 256 ^ n"
  by (induction n) simp_all

lemma all_ones_odd: "0 < n \<Longrightarrow> odd (be_value (replicate n 0xFF)) \<and> 1 < be_value (replicate n 0xFF)"
proof (induction n)
  case (Suc n)
  then show ?case by (cases n) simp_all
qed simp

lemma zero_head_less: "length xs = n \<Longrightarrow> be_value (0 # xs) < be_value (replicate (Suc n) 0xFF)"
  using be_value_less [of xs] by simp


section \<open>Range of signatures\<close>

text \<open>
  Nothing checks that a signature is below the modulus, as RFC 8017 (5.2.2) asks: on a peripheral that
  computes the power of any base, adding the modulus to a signature gives another one for the same
  message.
\<close>

lemma signature_range_unchecked:
  assumes "parse_pkcs1_rsa2048_public_key_der der = Inr key" "length sig = 256" "length sig' = 256"
    and "be_value sig' = be_value sig + be_value (modulus_be key)"
  shows "rsa_public_operation_2048 exact_rsa der sig' = rsa_public_operation_2048 exact_rsa der sig"
proof -
  have "(be_value sig + be_value (modulus_be key)) ^ k mod be_value (modulus_be key) =
      be_value sig ^ k mod be_value (modulus_be key)" for k
    by (metis mod_add_self2 power_mod)
  then show ?thesis
    using assms bytes_to_words(2) parsed_key_lengths(1) [OF assms(1)]
    by (simp add: rsa_public_operation_2048_def RSA_2048_LEN_def Let_def exact_rsa_def)
qed

section \<open>Self test\<close>

definition SELF_TEST_MODULUS :: "u32 list" where
  "SELF_TEST_MODULUS =
     [0xd1f69f69, 0xbaa512f1, 0xcf1f5fd5, 0x59cc0cf9, 0xd1f6586f, 0xc9c70747, 0xfa958725, 0xabb4d39d,
      0x176f653f, 0x96f427bd, 0x5d395fa4, 0x6a7d04c0, 0xe10666cc, 0x8fdc84b1, 0xeeee998e, 0xe9df8f03,
      0x4b02e975, 0xdff66ca0, 0x301fb3cc, 0x35356005, 0x2c85beca, 0x5cf3c447, 0xba6c3d0c, 0x02d96581,
      0xc97049ed, 0xb01ff457, 0x6c1553a8, 0xc94f1b93, 0x96306c1a, 0xc581715f, 0x09aa7a72, 0xebeee5ff,
      0xf37d2955, 0x80a9a0a9, 0xbeafc8fe, 0x099742ed, 0x44dcfbc3, 0x1b1db004, 0x8f910cbc, 0xe376c0c1,
      0xae3c68e7, 0x0f5f5b6d, 0x8f6f7732, 0x43ca8204, 0xf18b9201, 0x3c63c9d1, 0x33e7d090, 0x7506678f,
      0x13636f47, 0x36de5d8b, 0xb933b371, 0xafa3ccbc, 0x2c6aa83b, 0xcb838e4b, 0x222d1016, 0x4e9832bb,
      0xef8a47d3, 0x1d8d3166, 0x54986c79, 0x4594b217, 0x330ed8a9, 0x2b671e1d, 0x142a3a69, 0xbd8883b7]"

definition SELF_TEST_SIGNATURE :: "u32 list" where
  "SELF_TEST_SIGNATURE =
     [0xcfaa8f49, 0x10e428fc, 0xfe05d513, 0x6f8944e6, 0x2b6a4fb3, 0x63ae3a44, 0x5fb771ef, 0xfa6cab2f,
      0xe8cde3ee, 0x5b36b4b7, 0xd31fecd3, 0x96c9ac23, 0x6934aae3, 0xbbbdae47, 0x88b32bcc, 0x2e6d5f6b,
      0x3c131a09, 0x3fa0f6c3, 0x07fafb9f, 0x3e4433c5, 0x673f85ce, 0x567ff25c, 0x17a94511, 0x8d79ab4e,
      0x54e2c782, 0xc6911f0e, 0x27c53706, 0x26e2b194, 0x2e6531ef, 0xaec1e8ed, 0x8e86b60f, 0x1641c7d3,
      0xb1bbd47f, 0x13bac9d0, 0x0ba7934d, 0xf862291b, 0xea917ed6, 0xce0c90dc, 0xd027a571, 0xd80d4509,
      0x3e61908a, 0x8cb9b0a8, 0xf4633cef, 0xbc5ac1b3, 0xf036134e, 0x1dff3d8f, 0xaf54eb2a, 0xb9b41818,
      0x4c711472, 0x87e53446, 0x2b88518d, 0xcb518f97, 0x14d004d5, 0x56d1ebfb, 0x6ba2aff7, 0x13353041,
      0x427b40f1, 0xe9018a49, 0x729cd94f, 0xf2a5dada, 0xad08ee7f, 0x77abd7cf, 0xc7c93fb9, 0x4f4710de]"

definition SELF_TEST_EXPECTED :: "u32 list" where
  "SELF_TEST_EXPECTED =
     [0x54207631, 0x20544553, 0x53454c46, 0x52534120, 0x20485720, 0x53503332, 0x45542045, 0x4f544f4e,
      0x0000004d, 0x00000000, 0x00000000, 0x00000000, 0x00000000, 0x00000000, 0x00000000, 0x00000000,
      0x00000000, 0x00000000, 0x00000000, 0x00000000, 0x00000000, 0x00000000, 0x00000000, 0x00000000,
      0x00000000, 0x00000000, 0x00000000, 0x00000000, 0x00000000, 0x00000000, 0x00000000, 0x00000000,
      0x00000000, 0x00000000, 0x00000000, 0x00000000, 0x00000000, 0x00000000, 0x00000000, 0x00000000,
      0x00000000, 0x00000000, 0x00000000, 0x00000000, 0x00000000, 0x00000000, 0x00000000, 0x00000000,
      0x00000000, 0x00000000, 0x00000000, 0x00000000, 0x00000000, 0x00000000, 0x00000000, 0x00000000,
      0x00000000, 0x00000000, 0x00000000, 0x00000000, 0x00000000, 0x00000000, 0x00000000, 0x00000000]"

definition self_test_words_to_be_bytes :: "u32 list \<Rightarrow> u8 list" where
  "self_test_words_to_be_bytes words = concat (map u32_to_be_bytes (rev words))"

definition self_test_public_key_der :: "u8 list" where
  "self_test_public_key_der =
     (let der = splice (replicate 270 0) 0 [0x30, 0x82, 0x01, 0x0a, 0x02, 0x82, 0x01, 0x01];
          der = der[8 := 0];
          der = splice der 9 (self_test_words_to_be_bytes SELF_TEST_MODULUS)
      in splice der 265 [0x02, 0x03, 0x01, 0x00, 0x01])"

text \<open>The self test panics when it fails.\<close>

definition run_rsa_self_test :: "rsa_hardware \<Rightarrow> unit option" where
  "run_rsa_self_test hw =
     (case rsa_public_operation_2048 hw self_test_public_key_der (self_test_words_to_be_bytes SELF_TEST_SIGNATURE) of
        Inl e \<Rightarrow> None
      | Inr output \<Rightarrow> if output = self_test_words_to_be_bytes SELF_TEST_EXPECTED then Some () else None)"

lemma self_test_lengths:
  "length SELF_TEST_MODULUS = 64" "length SELF_TEST_SIGNATURE = 64" "length SELF_TEST_EXPECTED = 64"
  by (simp_all add: SELF_TEST_MODULUS_def SELF_TEST_SIGNATURE_def SELF_TEST_EXPECTED_def)

lemma self_test_bytes_length: "length ws = 64 \<Longrightarrow> length (self_test_words_to_be_bytes ws) = 256"
proof -
  assume "length ws = 64"
  moreover have "length (concat (map u32_to_be_bytes us)) = 4 * length us" for us
    by (induction us) (simp_all add: u32_to_be_bytes_def u32_to_le_bytes_def)
  ultimately show ?thesis by (simp add: self_test_words_to_be_bytes_def flip: rev_map)
qed

text \<open>The key of the self test parses, so the test passes exactly when the power comes out as expected.\<close>

lemma self_test_key:
  "parse_pkcs1_rsa2048_public_key_der self_test_public_key_der =
     Inr \<lparr>modulus_be = self_test_words_to_be_bytes SELF_TEST_MODULUS, exponent_be = [0, 1, 0, 1]\<rparr>"
proof -
  define md where "md = self_test_words_to_be_bytes SELF_TEST_MODULUS"
  have l: "length md = 256" by (simp add: md_def self_test_bytes_length self_test_lengths)
  let ?h = "[0x30, 0x82, 0x01, 0x0a, 0x02, 0x82, 0x01, 0x01] :: u8 list"
  have s1: "splice (replicate 270 0) 0 ?h = ?h @ replicate 262 0" by (simp add: splice_def)
  have s2: "(?h @ replicate 262 0)[8 := 0] = ?h @ replicate 262 0"
    using list_update_id [of "?h @ replicate 262 0" 8] by (simp add: nth_append)
  have s3: "splice (?h @ replicate 262 0) 9 md = (?h @ [0]) @ md @ replicate 5 0"
  proof -
    have "take 9 (?h @ replicate 262 0) = ?h @ [0]" by (simp add: take_Cons')
    moreover have "drop (9 + length md) (?h @ replicate 262 0) = replicate 5 0" by (simp add: l drop_Cons')
    ultimately show ?thesis by (simp only: splice_def)
  qed
  have s4: "splice ((?h @ [0]) @ md @ replicate 5 0) 265 [0x02, 0x03, 0x01, 0x00, 0x01] = ?h @ [0] @ md @ [0x02, 0x03, 0x01, 0x00, 0x01]"
  proof -
    have "((?h @ [0]) @ md @ replicate 5 0) = ((?h @ [0]) @ md) @ replicate 5 0" by simp
    moreover have "length ((?h @ [0]) @ md) = 265" by (simp add: l)
    ultimately have "take 265 ((?h @ [0]) @ md @ replicate 5 0) = (?h @ [0]) @ md" by (metis append_eq_conv_conj)
    moreover have "drop 270 ((?h @ [0]) @ md @ replicate 5 0) = []" by (simp add: l)
    ultimately show ?thesis by (simp add: splice_def)
  qed
  have "self_test_public_key_der = ?h @ [0] @ md @ [0x02, 0x03, 0x01, 0x00, 0x01]"
    unfolding self_test_public_key_der_def Let_def s1 s2 md_def [symmetric] s3 s4 ..
  moreover have "rsa_public_key_der ([0] @ md) [1, 0, 1] = ?h @ [0] @ md @ [0x02, 0x03, 0x01, 0x00, 0x01]"
    by (simp add: rsa_public_key_der_def der_tlv_def der_length_def l)
  ultimately have "self_test_public_key_der = rsa_public_key_der ([0] @ md) [1, 0, 1]" by simp
  then show ?thesis
    using rsa_public_key_der_roundtrip [of md "[0]" "[1, 0, 1]"] l by (simp add: numeral_eq_Suc flip: md_def)
qed

end
