(* ===== verification/Tls_Pki.thy ===== *)
theory Tls_Pki
  imports Tls_Messages Hw_Rsa Ota_Flash
begin

text \<open>
  Who the server is: certificates, the names in them, the chain to the pinned authority, the match with
  the name of the host and the signature of the handshake, \<open>tools/embedded-tls/src/pki.rs\<close> and
  \<open>der_certificate.rs\<close>, in the configuration of the firmware (the feature \<open>p384\<close>, no clock). The DER
  reader and the elliptic curves are parameters.
\<close>

section \<open>Certificates\<close>

record AnyRef =
  any_tag :: u8
  any_value :: "u8 list"

record AlgorithmIdentifier =
  ai_oid :: "nat list"
  ai_parameters :: "AnyRef option"

record BitString =
  bs_unused_bits :: nat
  bs_bytes :: "u8 list"

definition bit_string_as_bytes :: "BitString \<Rightarrow> u8 list option" where
  "bit_string_as_bytes b = (if bs_unused_bits b = 0 then Some (bs_bytes b) else None)"

datatype Time = UtcTime nat | GeneralTime nat

fun get_cert_time :: "Time \<Rightarrow> nat" where
  "get_cert_time (UtcTime secs) = secs"
| "get_cert_time (GeneralTime secs) = secs"

record Validity =
  va_not_before :: Time
  va_not_after :: Time

record AttributeTypeAndValue =
  at_oid :: "nat list"
  at_value :: AnyRef

record ExtensionIdAndValue =
  ex_id :: "nat list"
  ex_critical :: "bool option"
  ex_value :: AnyRef

record SubjectPublicKeyInfo =
  sp_algorithm :: AlgorithmIdentifier
  sp_public_key :: BitString

datatype Version = V1 | V2 | V3

record TbsCertificate =
  tbs_version :: Version
  tbs_serial_number :: "u8 list"
  tbs_signature :: AlgorithmIdentifier
  tbs_issuer :: "AttributeTypeAndValue list list"
  tbs_validity :: Validity
  tbs_subject :: "AttributeTypeAndValue list list"
  tbs_public_key_info :: SubjectPublicKeyInfo
  tbs_extensions :: "ExtensionIdAndValue list option"

record DecodedCertificate =
  dc_tbs :: TbsCertificate
  dc_signature_algorithm :: AlgorithmIdentifier
  dc_signature :: BitString

definition ANY_NULL :: AnyRef where "ANY_NULL = \<lparr>any_tag = 5, any_value = []\<rparr>"

definition ECDSA_SHA256 :: AlgorithmIdentifier where
  "ECDSA_SHA256 = \<lparr>ai_oid = [1, 2, 840, 10045, 4, 3, 2], ai_parameters = None\<rparr>"
definition ECDSA_SHA384 :: AlgorithmIdentifier where
  "ECDSA_SHA384 = \<lparr>ai_oid = [1, 2, 840, 10045, 4, 3, 3], ai_parameters = None\<rparr>"
definition RSA_PKCS1_SHA256 :: AlgorithmIdentifier where
  "RSA_PKCS1_SHA256 = \<lparr>ai_oid = [1, 2, 840, 113549, 1, 1, 11], ai_parameters = Some ANY_NULL\<rparr>"
definition RSA_PKCS1_SHA384 :: AlgorithmIdentifier where
  "RSA_PKCS1_SHA384 = \<lparr>ai_oid = [1, 2, 840, 113549, 1, 1, 12], ai_parameters = Some ANY_NULL\<rparr>"
definition RSA_PKCS1_SHA512 :: AlgorithmIdentifier where
  "RSA_PKCS1_SHA512 = \<lparr>ai_oid = [1, 2, 840, 113549, 1, 1, 13], ai_parameters = Some ANY_NULL\<rparr>"

definition MAX_SAN_DNS_NAMES :: nat where [const_defs]: "MAX_SAN_DNS_NAMES = 8"
definition HOSTNAME_MAXLEN :: nat where [const_defs]: "HOSTNAME_MAXLEN = 64"
definition DNS_NAME_TAG :: u8 where [const_defs]: "DNS_NAME_TAG = 0x82"
definition COMMON_NAME_OID :: "nat list" where "COMMON_NAME_OID = [2, 5, 4, 3]"
definition SUBJECT_ALT_NAME_OID :: "nat list" where "SUBJECT_ALT_NAME_OID = [2, 5, 29, 17]"

text \<open>
  The DER reader decodes certificates and headers; a header is its tag, the length of the value and
  how many bytes it takes after the tag. The curves decode keys and signatures and verify.
\<close>

datatype curve = P256 | P384

record pki_lib =
  pk_certificate :: "u8 list \<Rightarrow> DecodedCertificate option"
  pk_header :: "u8 list \<Rightarrow> (u8 \<times> nat \<times> nat) option"
  pk_ec_key :: "curve \<Rightarrow> u8 list \<Rightarrow> bool"
  pk_ec_signature :: "curve \<Rightarrow> u8 list \<Rightarrow> bool"
  pk_ec_verify :: "curve \<Rightarrow> u8 list \<Rightarrow> u8 list \<Rightarrow> u8 list \<Rightarrow> bool"

section \<open>Names\<close>

definition utf8_bytes_ok :: "u8 list \<Rightarrow> bool" where
  "utf8_bytes_ok bs = from_utf8_ok (map (\<lambda>b. char_of (unat b)) bs)"

text \<open>The common name is the last one of the subject; a failure to decode the names is \<open>None\<close>.\<close>

fun common_name_loop :: "AttributeTypeAndValue list list \<Rightarrow> u8 list option \<Rightarrow> u8 list option option" where
  "common_name_loop [] common_name = Some common_name"
| "common_name_loop ([] # elems) common_name = None"
| "common_name_loop ((attrs # _) # elems) common_name =
     (if at_oid attrs = COMMON_NAME_OID then
        let v = any_value (at_value attrs)
        in if HOSTNAME_MAXLEN < length v then None
           else common_name_loop elems (if utf8_bytes_ok v then Some v else None)
      else common_name_loop elems common_name)"

definition extract_common_name :: "TbsCertificate \<Rightarrow> u8 list option option" where
  "extract_common_name tbs = common_name_loop (tbs_subject tbs) None"

text \<open>The DNS names among the general names, until the vector of names is full.\<close>

function general_names :: "pki_lib \<Rightarrow> u8 list \<Rightarrow> u8 list list \<Rightarrow> u8 list list option" where
  "general_names lib gn dns_names =
     (if gn = [] then Some dns_names
      else case pk_header lib gn of
        None \<Rightarrow> None
      | Some (_, len, k) \<Rightarrow>
          let tag_byte = hd gn; rest = drop (Suc k) gn; gn_value = take len rest
          in if length rest < len then None
             else if tag_byte = DNS_NAME_TAG then
               if \<not> utf8_bytes_ok gn_value \<or> HOSTNAME_MAXLEN < length gn_value then None
               else let dns_names = (if length dns_names < MAX_SAN_DNS_NAMES then dns_names @ [gn_value] else dns_names)
                    in if length dns_names = MAX_SAN_DNS_NAMES then Some dns_names
                       else general_names lib (drop len rest) dns_names
             else general_names lib (drop len rest) dns_names)"
  by pat_completeness auto
termination by (relation "measure (\<lambda>(_, gn, _). length gn)") (auto simp flip: length_greater_0_conv)

declare general_names.simps [simp del]

fun san_loop :: "pki_lib \<Rightarrow> ExtensionIdAndValue list \<Rightarrow> u8 list list \<Rightarrow> u8 list list option" where
  "san_loop lib [] dns_names = Some dns_names"
| "san_loop lib (elems # es) dns_names =
     (if ex_id elems \<noteq> SUBJECT_ALT_NAME_OID then san_loop lib es dns_names
      else if any_tag (ex_value elems) \<noteq> 0x04 then None
      else let v = any_value (ex_value elems)
           in case pk_header lib v of
                None \<Rightarrow> None
              | Some (tag, len, k) \<Rightarrow>
                  let rest = drop (Suc k) v
                  in if tag \<noteq> 0x30 \<or> length rest < len then None
                     else case general_names lib (take len rest) dns_names of
                       None \<Rightarrow> None | Some dns_names \<Rightarrow> san_loop lib es dns_names)"

definition extract_san_dns_names :: "pki_lib \<Rightarrow> TbsCertificate \<Rightarrow> u8 list list option" where
  "extract_san_dns_names lib tbs = (case tbs_extensions tbs of None \<Rightarrow> Some [] | Some es \<Rightarrow> san_loop lib es [])"

record CertificateNames =
  cn_common_name :: "u8 list option"
  cn_san_dns_names :: "u8 list list"

section \<open>One certificate\<close>

definition get_certificate_tlv_bytes :: "pki_lib \<Rightarrow> u8 list \<Rightarrow> u8 list option" where
  "get_certificate_tlv_bytes lib input =
     (case pk_header lib input of
        None \<Rightarrow> None
      | Some (tag, _, k) \<Rightarrow>
          if tag \<noteq> 0x30 then None
          else let inner = drop (Suc k) input
               in case pk_header lib inner of
                    None \<Rightarrow> None
                  | Some (tag, len, k) \<Rightarrow>
                      if tag \<noteq> 0x30 \<or> length inner < Suc k + len then None else Some (take (Suc k + len) inner))"

definition ecdsa_certificate_check :: "pki_lib \<Rightarrow> curve \<Rightarrow> u8 list \<Rightarrow> u8 list \<Rightarrow> u8 list option \<Rightarrow> TlsError + bool" where
  "ecdsa_certificate_check lib curve ca_public_key certificate_data signature =
     (if \<not> pk_ec_key lib curve ca_public_key then Inl TlsDecodeError
      else case signature of
        None \<Rightarrow> Inl (TlsParseError ParseInvalidData)
      | Some s \<Rightarrow>
          if \<not> pk_ec_signature lib curve s then Inl (TlsParseError ParseInvalidData)
          else Inr (pk_ec_verify lib curve ca_public_key certificate_data s))"

definition rsa_certificate_check ::
  "(RsaVerifier \<Rightarrow> rsa_check) \<Rightarrow> RsaVerifier option \<Rightarrow> u8 list \<Rightarrow> u8 list \<Rightarrow> u8 list option \<Rightarrow> TlsError + bool" where
  "rsa_certificate_check operation rsa_verifier ca_public_key certificate_data signature =
     (case signature of
        None \<Rightarrow> Inl (TlsParseError ParseInvalidData)
      | Some s \<Rightarrow> (case rsa_verifier of
          None \<Rightarrow> Inl InvalidSignatureScheme
        | Some rv \<Rightarrow> result_bind (operation rv ca_public_key certificate_data s) (\<lambda>_. Inr True)))"

definition certificate_signature_check ::
  "pki_lib \<Rightarrow> RsaVerifier option \<Rightarrow> DecodedCertificate \<Rightarrow> u8 list \<Rightarrow> u8 list \<Rightarrow> TlsError + bool" where
  "certificate_signature_check lib rsa_verifier parsed ca_public_key certificate_data =
     (let a = dc_signature_algorithm parsed; signature = bit_string_as_bytes (dc_signature parsed)
      in if a = ECDSA_SHA256 then ecdsa_certificate_check lib P256 ca_public_key certificate_data signature
         else if a = ECDSA_SHA384 then ecdsa_certificate_check lib P384 ca_public_key certificate_data signature
         else if a = RSA_PKCS1_SHA256 then rsa_certificate_check rv_pkcs1v15_sha256 rsa_verifier ca_public_key certificate_data signature
         else if a = RSA_PKCS1_SHA384 then rsa_certificate_check rv_pkcs1v15_sha384 rsa_verifier ca_public_key certificate_data signature
         else if a = RSA_PKCS1_SHA512 then rsa_certificate_check rv_pkcs1v15_sha512 rsa_verifier ca_public_key certificate_data signature
         else Inl InvalidSignatureScheme)"

definition ok_or :: "'e \<Rightarrow> 'a option \<Rightarrow> 'e + 'a" where
  "ok_or e x = (case x of None \<Rightarrow> Inl e | Some y \<Rightarrow> Inr y)"

lemma ok_or_simps [simp]: "ok_or e None = Inl e" "ok_or e (Some y) = Inr y"
  by (simp_all add: ok_or_def)

lemma ok_or_Inr_iff [simp]: "ok_or e x = Inr y \<longleftrightarrow> x = Some y"
  by (cases x) auto

definition subject_public_key :: "DecodedCertificate \<Rightarrow> u8 list option" where
  "subject_public_key dc = bit_string_as_bytes (sp_public_key (tbs_public_key_info (dc_tbs dc)))"

definition outside_validity :: "TbsCertificate \<Rightarrow> nat \<Rightarrow> bool" where
  "outside_validity tbs now \<longleftrightarrow>
     get_cert_time (va_not_before (tbs_validity tbs)) > now \<or> get_cert_time (va_not_after (tbs_validity tbs)) < now"

definition verify_certificate ::
  "pki_lib \<Rightarrow> RsaVerifier option \<Rightarrow> nat option \<Rightarrow> CertificateEntry \<Rightarrow> CertificateEntry \<Rightarrow> TlsError + CertificateNames" where
  "verify_certificate lib rsa_verifier now verifier certificate =
     (case verifier of
        RawPublicKey _ \<Rightarrow> Inl TlsDecodeError
      | X509 v \<Rightarrow> result_bind (ok_or TlsDecodeError (pk_certificate lib v)) (\<lambda>ca_certificate.
          case certificate of
            RawPublicKey _ \<Rightarrow> Inl InvalidCertificate
          | X509 c \<Rightarrow>
              result_bind (ok_or TlsDecodeError (pk_certificate lib c)) (\<lambda>parsed.
              result_bind (ok_or TlsDecodeError (subject_public_key ca_certificate)) (\<lambda>ca_public_key.
              result_bind (ok_or TlsDecodeError (extract_common_name (dc_tbs parsed))) (\<lambda>common_name.
              result_bind (ok_or TlsDecodeError (extract_san_dns_names lib (dc_tbs parsed))) (\<lambda>san_dns_names.
              result_bind (ensure (\<not> (\<exists>t\<in>set_option now. outside_validity (dc_tbs parsed) t)) InvalidCertificate) (\<lambda>_.
              result_bind (ok_or TlsDecodeError (get_certificate_tlv_bytes lib c)) (\<lambda>certificate_data.
              result_bind (certificate_signature_check lib rsa_verifier parsed ca_public_key certificate_data) (\<lambda>verified.
                if \<not> verified then Inl InvalidCertificate
                else Inr \<lparr>cn_common_name = common_name, cn_san_dns_names = san_dns_names\<rparr>)))))))))"

section \<open>Names of hosts\<close>

definition ascii_lower :: "u8 \<Rightarrow> u8" where
  "ascii_lower b = (if 65 \<le> b \<and> b \<le> 90 then b + 32 else b)"

definition host_char :: "u8 \<Rightarrow> bool" where
  "host_char b \<longleftrightarrow> (97 \<le> b \<and> b \<le> 122) \<or> (65 \<le> b \<and> b \<le> 90) \<or> (48 \<le> b \<and> b \<le> 57) \<or> b = 45 \<or> b = 46"

definition same_ignoring_case :: "u8 list \<Rightarrow> u8 list \<Rightarrow> bool" where
  "same_ignoring_case xs ys \<longleftrightarrow>
     length xs = length ys \<and> list_all (\<lambda>i. ascii_lower (xs ! i) = ascii_lower (ys ! i)) [0..<length xs]"

definition tls_hostname_match_impl :: "u8 list \<Rightarrow> u8 list \<Rightarrow> bool" where
  "tls_hostname_match_impl cn host =
     (let cn_labels = 1 + count_list cn 46; host_labels = 1 + count_list host 46; stars = count_list cn 42
      in if \<not> list_all (\<lambda>b. host_char b \<or> b = 42) cn then False
         else if \<not> list_all host_char host then False
         else if stars = 0 then same_ignoring_case cn host
         else if stars \<noteq> 1 then False
         else if take 2 cn \<noteq> [42, 46] then False
         else if cn_labels < 3 then False
         else if cn_labels \<noteq> host_labels then False
         else let suffix = drop 2 cn
              in case find (\<lambda>i. host ! i = 46) [0..<length host] of
                   None \<Rightarrow> False
                 | Some dot_idx \<Rightarrow> same_ignoring_case suffix (drop (dot_idx + 1) host))"

definition tls_hostname_match :: "CertificateNames \<Rightarrow> u8 list option \<Rightarrow> bool" where
  "tls_hostname_match names hostname =
     (case hostname of
        None \<Rightarrow> cn_common_name names = None \<and> cn_san_dns_names names = []
      | Some host \<Rightarrow>
          if list_ex (\<lambda>san. tls_hostname_match_impl san host) (cn_san_dns_names names) then True
          else case cn_common_name names of None \<Rightarrow> False | Some cn \<Rightarrow> tls_hostname_match_impl cn host)"

section \<open>The verifier\<close>

record CertVerifier =
  ver_ca :: CertificateEntry
  ver_host :: "u8 list option"
  ver_certificate_transcript :: "u8 list option"
  ver_certificate :: "OwnedCertificate option"
  ver_rsa_verifier :: "RsaVerifier option"

definition cert_verifier_new :: "CertificateEntry \<Rightarrow> CertVerifier" where
  "cert_verifier_new ca =
     \<lparr>ver_ca = ca, ver_host = None, ver_certificate_transcript = None, ver_certificate = None, ver_rsa_verifier = None\<rparr>"

definition with_rsa_verifier :: "RsaVerifier \<Rightarrow> CertVerifier \<Rightarrow> CertVerifier" where
  "with_rsa_verifier rv ver = ver\<lparr>ver_rsa_verifier := Some rv\<rparr>"

definition set_hostname_verification :: "u8 list \<Rightarrow> CertVerifier \<Rightarrow> (TlsError + unit) \<times> CertVerifier" where
  "set_hostname_verification hostname ver =
     (if HOSTNAME_MAXLEN < length hostname then (Inl TlsInsufficientSpace, ver)
      else (Inr (), ver\<lparr>ver_host := Some hostname\<rparr>))"

fun certificate_entry_eq :: "CertificateEntry \<Rightarrow> CertificateEntry \<Rightarrow> bool" where
  "certificate_entry_eq (X509 l) (X509 r) \<longleftrightarrow> l = r"
| "certificate_entry_eq _ _ \<longleftrightarrow> False"

fun certificate_entry_same_public_key :: "pki_lib \<Rightarrow> CertificateEntry \<Rightarrow> CertificateEntry \<Rightarrow> bool" where
  "certificate_entry_same_public_key lib (X509 l) (X509 r) =
     (case (pk_certificate lib l, pk_certificate lib r) of
        (Some l, Some r) \<Rightarrow> subject_public_key l = subject_public_key r | _ \<Rightarrow> False)"
| "certificate_entry_same_public_key lib _ _ = False"

fun verify_chain ::
  "pki_lib \<Rightarrow> RsaVerifier option \<Rightarrow> nat option \<Rightarrow> CertificateEntry \<Rightarrow> nat \<Rightarrow> CertificateEntry list \<Rightarrow> CertificateNames \<Rightarrow>
   TlsError + CertificateNames" where
  "verify_chain lib rsa_verifier now ca_entry idx [] names = Inr names"
| "verify_chain lib rsa_verifier now ca_entry idx (certificate # rest) names =
     (if certificate_entry_eq certificate ca_entry \<or>
         (0 < idx \<and> certificate_entry_same_public_key lib certificate ca_entry) then Inr names
      else let issuer = (case rest of [] \<Rightarrow> ca_entry | next_entry # _ \<Rightarrow> next_entry)
           in result_bind (verify_certificate lib rsa_verifier now issuer certificate) (\<lambda>verified_names.
                verify_chain lib rsa_verifier now ca_entry (idx + 1) rest (if idx = 0 then verified_names else names)))"

definition no_names :: CertificateNames where
  "no_names = \<lparr>cn_common_name = None, cn_san_dns_names = []\<rparr>"

text \<open>The size of the vector for the certificates, and the clock, as the HTTP client sets them.\<close>

definition CERT_SIZE :: nat where "CERT_SIZE = 8192"
definition NO_CLOCK :: "nat option" where "NO_CLOCK = None"

definition verifier_verify_certificate ::
  "pki_lib \<Rightarrow> u8 list \<Rightarrow> CertificateRef \<Rightarrow> CertVerifier \<Rightarrow> (TlsError + unit) \<times> CertVerifier" where
  "verifier_verify_certificate lib transcript cert ver =
     (case verify_chain lib (ver_rsa_verifier ver) NO_CLOCK (ver_ca ver) 0 (cr_entries cert) no_names of
        Inl e \<Rightarrow> (Inl e, ver)
      | Inr names \<Rightarrow>
          if \<not> tls_hostname_match names (ver_host ver) then (Inl InvalidCertificate, ver)
          else case owned_certificate CERT_SIZE cert of
            Inl e \<Rightarrow> (Inl e, ver)
          | Inr owned \<Rightarrow> (Inr (), ver\<lparr>ver_certificate := Some owned, ver_certificate_transcript := Some transcript\<rparr>))"

definition ecdsa_handshake_check :: "pki_lib \<Rightarrow> curve \<Rightarrow> u8 list \<Rightarrow> u8 list \<Rightarrow> u8 list \<Rightarrow> TlsError + bool" where
  "ecdsa_handshake_check lib curve public_key message signature =
     (if \<not> pk_ec_key lib curve public_key then Inl TlsDecodeError
      else if \<not> pk_ec_signature lib curve signature then Inl TlsDecodeError
      else Inr (pk_ec_verify lib curve public_key message signature))"

definition rsa_handshake_check ::
  "(RsaVerifier \<Rightarrow> rsa_check) \<Rightarrow> RsaVerifier option \<Rightarrow> u8 list \<Rightarrow> u8 list \<Rightarrow> u8 list \<Rightarrow> TlsError + bool" where
  "rsa_handshake_check operation rsa_verifier public_key message signature =
     (case rsa_verifier of
        None \<Rightarrow> Inl InvalidSignatureScheme
      | Some rv \<Rightarrow> result_bind (operation rv public_key message signature) (\<lambda>_. Inr True))"

definition handshake_signature_check ::
  "pki_lib \<Rightarrow> RsaVerifier option \<Rightarrow> SignatureScheme \<Rightarrow> u8 list \<Rightarrow> u8 list \<Rightarrow> u8 list \<Rightarrow> TlsError + bool" where
  "handshake_signature_check lib rsa_verifier scheme public_key message signature =
     (case scheme of
        EcdsaSecp256r1Sha256 \<Rightarrow> ecdsa_handshake_check lib P256 public_key message signature
      | EcdsaSecp384r1Sha384 \<Rightarrow> ecdsa_handshake_check lib P384 public_key message signature
      | RsaPssRsaeSha256 \<Rightarrow> rsa_handshake_check rv_pss_sha256 rsa_verifier public_key message signature
      | RsaPssRsaeSha384 \<Rightarrow> rsa_handshake_check rv_pss_sha384 rsa_verifier public_key message signature
      | RsaPssRsaeSha512 \<Rightarrow> rsa_handshake_check rv_pss_sha512 rsa_verifier public_key message signature
      | _ \<Rightarrow> Inl InvalidSignatureScheme)"

definition verify_signature ::
  "pki_lib \<Rightarrow> RsaVerifier option \<Rightarrow> u8 list \<Rightarrow> CertificateRef \<Rightarrow> CertificateVerifyRef \<Rightarrow> TlsError + unit" where
  "verify_signature lib rsa_verifier message certificate verify =
     (case cr_entries certificate of
        X509 c # _ \<Rightarrow>
          result_bind (ok_or TlsDecodeError (pk_certificate lib c)) (\<lambda>dc.
          result_bind (ok_or TlsDecodeError (subject_public_key dc)) (\<lambda>public_key.
          result_bind (handshake_signature_check lib rsa_verifier (cv_signature_scheme verify) public_key message (cv_signature verify))
            (\<lambda>verified. if \<not> verified then Inl TlsInvalidSignature else Inr ())))
      | _ \<Rightarrow> Inl TlsDecodeError)"

definition SERVER_CONTEXT :: "u8 list" where
  "SERVER_CONTEXT = map of_char ''TLS 1.3, server CertificateVerify'' @ [0]"

definition signed_message :: "u8 list \<Rightarrow> u8 list" where
  "signed_message handshake_hash = replicate 64 0x20 @ SERVER_CONTEXT @ handshake_hash"

text \<open>Without an earlier certificate the transcript is missing and the code panics.\<close>

definition verifier_verify_signature ::
  "pki_lib \<Rightarrow> (u8 list \<Rightarrow> u8 list) \<Rightarrow> CertificateVerifyRef \<Rightarrow> CertVerifier \<Rightarrow> ((TlsError + unit) \<times> CertVerifier) option" where
  "verifier_verify_signature lib hash verify ver =
     (case ver_certificate_transcript ver of
        None \<Rightarrow> None
      | Some transcript \<Rightarrow>
          let ver = ver\<lparr>ver_certificate_transcript := None\<rparr>; msg = signed_message (hash transcript)
          in if 146 < length msg then Some (Inl EncodeError, ver)
             else case ver_certificate ver of
               None \<Rightarrow> None
             | Some owned \<Rightarrow>
                 Some (result_bind (borrowed_certificate owned) (\<lambda>certificate.
                   verify_signature lib (ver_rsa_verifier ver) msg certificate verify), ver))"

section \<open>The chain as an iterator\<close>

record CertificateChain =
  cc_prev :: CertificateEntry
  cc_chain :: CertificateRef
  cc_idx :: int

definition certificate_chain_new :: "CertificateEntry \<Rightarrow> CertificateRef \<Rightarrow> CertificateChain" where
  "certificate_chain_new ca chain = \<lparr>cc_prev = ca, cc_chain = chain, cc_idx = int (length (cr_entries chain)) - 1\<rparr>"

definition certificate_chain_next :: "CertificateChain \<Rightarrow> (CertificateEntry \<times> CertificateEntry) option \<times> CertificateChain" where
  "certificate_chain_next cc =
     (if cc_idx cc < 0 then (None, cc)
      else let cur = cr_entries (cc_chain cc) ! nat (cc_idx cc)
           in (Some (cc_prev cc, cur), cc\<lparr>cc_prev := cur, cc_idx := cc_idx cc - 1\<rparr>))"

end
