(* ===== verification/Tls_Trust.thy ===== *)
theory Tls_Trust
  imports Tls_Pki
begin

text \<open>
  What the checks of \<open>Tls_Pki\<close> amount to: which names match a host, and whom a client that accepts a
  certificate and a handshake signature talks to.
\<close>

section \<open>Names of hosts\<close>

lemma same_ignoring_case_iff: "same_ignoring_case xs ys \<longleftrightarrow> map ascii_lower xs = map ascii_lower ys"
  by (auto simp: same_ignoring_case_def list_all_iff list_eq_iff_nth_eq [of "map ascii_lower xs" "map ascii_lower ys"])

lemma ascii_lower_dot: "ascii_lower b = 46 \<longleftrightarrow> b = 46"
proof -
  have "list_all (\<lambda>n. ascii_lower (of_nat n) = 46 \<longleftrightarrow> of_nat n = (46 :: u8)) [0..<256]" by code_simp
  moreover have "unat b < 256" using unsigned_less [where w = b and 'a = nat] by simp
  ultimately have "ascii_lower (of_nat (unat b)) = 46 \<longleftrightarrow> of_nat (unat b) = (46 :: u8)"
    by (simp only: list_all_iff set_upt atLeastLessThan_iff zero_le)
  then show ?thesis by simp
qed

lemma same_dots: "map ascii_lower xs = map ascii_lower ys \<Longrightarrow> count_list xs 46 = count_list ys 46"
proof (induction xs arbitrary: ys)
  case (Cons x xs)
  then obtain y ys' where "ys = y # ys'" "ascii_lower x = ascii_lower y" "map ascii_lower xs = map ascii_lower ys'" by auto
  with Cons.IH [of ys'] ascii_lower_dot [of x] ascii_lower_dot [of y] show ?case by auto
qed simp

lemma first_dot:
  assumes "host = label @ 46 # rest" "46 \<notin> set label"
  shows "find (\<lambda>i. host ! i = (46 :: u8)) [0..<length host] = Some (length label)"
proof -
  have "\<not> host ! j = 46" if "j < length label" for j
    using assms that by (auto simp: nth_append in_set_conv_nth)
  moreover have "length label < length host" "host ! length label = 46" using assms(1) by (simp_all add: nth_append)
  ultimately show ?thesis by (auto simp: find_Some_iff intro!: exI [of _ "length label"])
qed

lemma hostname_match_iff:
  "tls_hostname_match_impl cn host \<longleftrightarrow> list_all host_char host \<and>
     (list_all host_char cn \<and> map ascii_lower cn = map ascii_lower host \<or>
      (\<exists>suffix label rest. cn = [42, 46] @ suffix \<and> list_all host_char suffix \<and> 46 \<in> set suffix \<and>
         host = label @ [46] @ rest \<and> 46 \<notin> set label \<and> map ascii_lower rest = map ascii_lower suffix))"
  (is "?m \<longleftrightarrow> ?h \<and> (?plain \<or> ?star)")
proof -
  have nostar: "\<not> host_char 42" by (simp add: host_char_def)
  have star_free: "list_all host_char xs \<longleftrightarrow> list_all (\<lambda>b. host_char b \<or> b = 42) xs \<and> count_list xs 42 = 0" for xs
    using nostar by (auto simp: list_all_iff count_list_0_iff)
  show ?thesis
  proof (cases "count_list cn 42 = 0")
    case True
    then have "42 \<notin> set cn" by (simp add: count_list_0_iff)
    then have "\<not> ?star" by auto
    with True show ?thesis using star_free [of cn]
      by (auto simp: tls_hostname_match_impl_def same_ignoring_case_iff Let_def)
  next
    case False
    then have plain: "\<not> ?plain" using star_free [of cn] by simp
    have "?m \<longleftrightarrow> ?h \<and> ?star"
    proof
      assume m: ?m
      then have h: ?h and s: "count_list cn 42 = 1" "take 2 cn = [42, 46]" "3 \<le> 1 + count_list cn 46"
        and chars: "list_all (\<lambda>b. host_char b \<or> b = 42) cn"
        using False by (auto simp: tls_hostname_match_impl_def Let_def split: if_splits)
      define suffix where "suffix = drop 2 cn"
      have cn: "cn = [42, 46] @ suffix" using append_take_drop_id [of 2 cn] s(2) by (simp add: suffix_def)
      then have "count_list suffix 42 = 0" "count_list suffix 46 \<noteq> 0" using s by auto
      then have suf: "list_all host_char suffix" "46 \<in> set suffix"
        using chars star_free [of suffix] by (auto simp: cn count_list_0_iff)
      have "46 \<in> set host"
      proof (rule ccontr)
        assume "46 \<notin> set host"
        then have "find (\<lambda>i. host ! i = 46) [0..<length host] = None" by (auto simp: find_None_iff in_set_conv_nth)
        with m False s show False by (auto simp: tls_hostname_match_impl_def Let_def split: if_splits)
      qed
      then obtain label rest where host: "host = label @ 46 # rest" "46 \<notin> set label" by (meson split_list_first)
      with m False s have "map ascii_lower suffix = map ascii_lower rest"
        using first_dot [OF host] by (auto simp: tls_hostname_match_impl_def Let_def same_ignoring_case_iff suffix_def split: if_splits)
      with h cn suf host show "?h \<and> ?star" by auto
    next
      assume a: "?h \<and> ?star"
      then obtain suffix label rest where b: "cn = [42, 46] @ suffix" "list_all host_char suffix" "46 \<in> set suffix"
        "host = label @ 46 # rest" "46 \<notin> set label" "map ascii_lower rest = map ascii_lower suffix" by auto
      have "count_list suffix 42 = 0" "list_all (\<lambda>b. host_char b \<or> b = 42) suffix" using b(2) star_free by blast+
      moreover have "count_list suffix 46 \<noteq> 0" using b(3) by (simp add: count_list_0_iff)
      moreover have "count_list label 46 = 0" using b(5) by (simp add: count_list_0_iff)
      moreover have "host_char 46" by (simp add: host_char_def)
      ultimately show ?m
        using a same_dots [OF b(6)] first_dot [OF b(4,5)] b(6)
        by (simp add: tls_hostname_match_impl_def Let_def same_ignoring_case_iff b(1)) (simp add: b(4))
    qed
    with plain show ?thesis by blast
  qed
qed

text \<open>
  C36: Which names a certificate may stand for. A name matches a host exactly when both are made of
  letters, digits, hyphens and dots and are equal up to case, or the name is a star for the first
  label of the host, followed by at least two labels that the host ends with. So one star stands for
  one label, never for a part of a label, for several labels or for a whole top-level domain.
\<close>
theorem hostname_match_exact:
  "tls_hostname_match_impl cn host \<longleftrightarrow> list_all host_char host \<and>
     (list_all host_char cn \<and> map ascii_lower cn = map ascii_lower host \<or>
      (\<exists>suffix label rest. cn = [42, 46] @ suffix \<and> list_all host_char suffix \<and> 46 \<in> set suffix \<and>
         host = label @ [46] @ rest \<and> 46 \<notin> set label \<and> map ascii_lower rest = map ascii_lower suffix))"
  by (rule hostname_match_iff)

text \<open>
  What it means that a name in a certificate stands for a host, written out apart from the code: both
  consist of letters, digits, hyphens and dots, and they are equal when capital letters count as small
  ones; or the name is \<open>*.\<close> before a suffix with a dot in it, and the host is one label and then that
  suffix.
\<close>

definition name_byte :: "u8 \<Rightarrow> bool" where
  "name_byte b \<longleftrightarrow> unat b \<in> {48..57} \<union> {65..90} \<union> {97..122} \<union> {45, 46}"

definition same_name :: "u8 list \<Rightarrow> u8 list \<Rightarrow> bool" where
  "same_name xs ys \<longleftrightarrow>
     list_all2 (\<lambda>a b. a = b \<or> 65 \<le> a \<and> a \<le> 90 \<and> b = a + 32 \<or> 65 \<le> b \<and> b \<le> 90 \<and> a = b + 32) xs ys"

definition name_covers :: "u8 list \<Rightarrow> u8 list \<Rightarrow> bool" where
  "name_covers name host \<longleftrightarrow> list_all name_byte host \<and>
     (list_all name_byte name \<and> same_name name host \<or>
      (\<exists>suffix label rest. name = [42, 46] @ suffix \<and> list_all name_byte suffix \<and> 46 \<in> set suffix \<and>
         host = label @ [46] @ rest \<and> 46 \<notin> set label \<and> same_name suffix rest))"

lemma name_byte_iff: "name_byte = host_char"
  by (rule ext) (auto simp: name_byte_def host_char_def word_le_nat_alt word_unat_eq_iff)

lemma same_name_iff: "same_name xs ys \<longleftrightarrow> map ascii_lower xs = map ascii_lower ys"
proof -
  have "ascii_lower a = ascii_lower b \<longleftrightarrow>
      a = b \<or> 65 \<le> a \<and> a \<le> 90 \<and> b = a + 32 \<or> 65 \<le> b \<and> b \<le> 90 \<and> a = b + 32" for a b
  proof -
    have "65 \<le> b \<and> b \<le> 90 \<Longrightarrow> \<not> (65 \<le> b + 32 \<and> b + 32 \<le> 90)" for b :: u8
      by (auto simp: word_le_nat_alt unat_word_ariths)
    then show ?thesis by (auto simp: ascii_lower_def)
  qed
  then show ?thesis by (simp add: same_name_def list_all2_map1 list_all2_map2 list.rel_eq [symmetric] list_all2_eq)
qed

lemma hostname_match_covers: "tls_hostname_match_impl name host \<longleftrightarrow> name_covers name host"
  unfolding hostname_match_iff name_covers_def name_byte_iff same_name_iff by (metis (no_types, lifting))

lemma hostname_match_names:
  "tls_hostname_match names (Some host) \<longleftrightarrow>
     (\<exists>name. (name \<in> set (cn_san_dns_names names) \<or> cn_common_name names = Some name) \<and> name_covers name host)"
  by (auto simp: tls_hostname_match_def list_ex_iff hostname_match_covers split: option.splits)

text \<open>
  The documentation of \<open>tls_hostname_match\<close> says that the common name is ignored where the certificate
  has alternative names; the code falls back to it when none of them matches.
\<close>

lemma common_name_beside_alternative_names:
  "tls_hostname_match \<lparr>cn_common_name = Some [97, 46, 105, 111], cn_san_dns_names = [[98, 46, 105, 111]]\<rparr> (Some [97, 46, 105, 111])"
  by code_simp

text \<open>
  A common name that is too long makes the certificate unreadable, where the documentation of
  \<open>extract_common_name\<close> says that it counts as missing.
\<close>

lemma long_common_name_fails:
  assumes "tbs_subject tbs = [[\<lparr>at_oid = COMMON_NAME_OID, at_value = \<lparr>any_tag = t, any_value = v\<rparr>\<rparr>]]" "64 < length v"
  shows "extract_common_name tbs = None"
  using assms by (simp add: extract_common_name_def HOSTNAME_MAXLEN_def)

section \<open>The chain of certificates\<close>

text \<open>The key of one certificate verifies the signature of another.\<close>

definition vouches :: "pki_lib \<Rightarrow> RsaVerifier option \<Rightarrow> CertificateEntry \<Rightarrow> CertificateEntry \<Rightarrow> bool" where
  "vouches lib rv issuer certificate \<longleftrightarrow>
     (\<exists>v c ca parsed key data. issuer = X509 v \<and> certificate = X509 c \<and> pk_certificate lib v = Some ca \<and>
        pk_certificate lib c = Some parsed \<and> subject_public_key ca = Some key \<and>
        get_certificate_tlv_bytes lib c = Some data \<and> certificate_signature_check lib rv parsed key data = Inr True)"

text \<open>A chain of such signatures that starts at the authority, or at a certificate with its key.\<close>

inductive trusted :: "pki_lib \<Rightarrow> RsaVerifier option \<Rightarrow> CertificateEntry \<Rightarrow> CertificateEntry \<Rightarrow> bool"
  for lib rv ca where
  authority: "vouches lib rv ca c \<Longrightarrow> trusted lib rv ca c"
| authority_key: "certificate_entry_same_public_key lib i ca \<Longrightarrow> vouches lib rv i c \<Longrightarrow> trusted lib rv ca c"
| chained: "trusted lib rv ca i \<Longrightarrow> vouches lib rv i c \<Longrightarrow> trusted lib rv ca c"

inductive_cases trusted_cases: "trusted lib rv ca c"

lemma verified_vouches:
  assumes "verify_certificate lib rv now issuer certificate = Inr names"
  obtains c parsed where "vouches lib rv issuer certificate" "certificate = X509 c" "pk_certificate lib c = Some parsed"
    "extract_common_name (dc_tbs parsed) = Some (cn_common_name names)"
    "extract_san_dns_names lib (dc_tbs parsed) = Some (cn_san_dns_names names)"
proof -
  obtain v where v: "issuer = X509 v" using assms by (cases issuer) (auto simp: verify_certificate_def)
  obtain c where c: "certificate = X509 c"
    using assms by (cases certificate) (auto simp: verify_certificate_def v result_bind_Inr_iff)
  obtain ca parsed key cn san data where f: "pk_certificate lib v = Some ca" "pk_certificate lib c = Some parsed"
    "subject_public_key ca = Some key" "extract_common_name (dc_tbs parsed) = Some cn"
    "extract_san_dns_names lib (dc_tbs parsed) = Some san" "get_certificate_tlv_bytes lib c = Some data"
    "certificate_signature_check lib rv parsed key data = Inr True"
    "names = \<lparr>cn_common_name = cn, cn_san_dns_names = san\<rparr>"
    using assms by (auto simp: verify_certificate_def v c result_bind_Inr_iff split: if_splits)
  show ?thesis
    by (rule that [of c parsed]) (use v c f in \<open>auto simp: vouches_def\<close>)
qed

lemma verify_chain_names:
  "verify_chain lib rv now ca (Suc idx) entries names = Inr names' \<Longrightarrow> names' = names"
  by (induction entries arbitrary: idx) (auto simp: result_bind_Inr_iff Let_def split: if_splits)

lemma verify_chain_trusted:
  assumes "verify_chain lib rv now ca idx (c # rest) names = Inr names'" "\<not> certificate_entry_eq c ca"
    and "\<not> (0 < idx \<and> certificate_entry_same_public_key lib c ca)"
  shows "trusted lib rv ca c"
  using assms
proof (induction rest arbitrary: c idx names)
  case Nil
  then obtain vn where "verify_certificate lib rv now ca c = Inr vn" by (auto simp: result_bind_Inr_iff)
  then show ?case by (metis verified_vouches trusted.authority)
next
  case (Cons i rest)
  have "verify_chain lib rv now ca idx (c # i # rest) names = result_bind (verify_certificate lib rv now i c)
      (\<lambda>vn. verify_chain lib rv now ca (Suc idx) (i # rest) (if idx = 0 then vn else names))"
    using Cons.prems(2,3) by (subst verify_chain.simps) (auto simp del: verify_chain.simps)
  with Cons.prems(1) obtain vn where v: "verify_certificate lib rv now i c = Inr vn"
    and r: "verify_chain lib rv now ca (Suc idx) (i # rest) (if idx = 0 then vn else names) = Inr names'"
    by (auto simp: result_bind_Inr_iff simp del: verify_chain.simps)
  from v have vo: "vouches lib rv i c" by (rule verified_vouches)
  consider "certificate_entry_eq i ca" | "certificate_entry_same_public_key lib i ca"
    | "\<not> certificate_entry_eq i ca" "\<not> certificate_entry_same_public_key lib i ca" by blast
  then show ?case
  proof cases
    case 1
    then have "i = ca" by (cases i; cases ca) simp_all
    with vo show ?thesis by (simp add: trusted.authority)
  next
    case 2
    with vo show ?thesis by (rule trusted.authority_key [rotated -1])
  next
    case 3
    with Cons.IH [OF r] vo show ?thesis by (metis trusted.chained)
  qed
qed

lemma verified_leaf:
  assumes "verify_chain lib rv now ca 0 entries no_names = Inr names" "tls_hostname_match names (Some host)"
  obtains c parsed rest where "entries = X509 c # rest" "pk_certificate lib c = Some parsed" "trusted lib rv ca (X509 c)"
    "extract_common_name (dc_tbs parsed) = Some (cn_common_name names)"
    "extract_san_dns_names lib (dc_tbs parsed) = Some (cn_san_dns_names names)"
proof -
  have "names \<noteq> no_names" using assms(2) by (auto simp: tls_hostname_match_def no_names_def)
  then obtain e rest where e: "entries = e # rest" "\<not> certificate_entry_eq e ca"
    using assms(1) by (cases entries) (auto split: if_splits)
  then obtain i vn where v: "verify_certificate lib rv now i e = Inr vn"
    "verify_chain lib rv now ca (Suc 0) rest vn = Inr names"
    using assms(1) by (auto simp: result_bind_Inr_iff)
  have "names = vn" by (rule verify_chain_names [OF v(2)])
  moreover have "trusted lib rv ca e"
    using verify_chain_trusted [of lib rv now ca 0 e rest no_names names] assms(1) e by simp
  ultimately show ?thesis using v(1) e(1) that by (auto elim!: verified_vouches)
qed

lemma signed_message_bytes:
  "signed_message h = replicate 64 32 @ map of_char ''TLS 1.3, server CertificateVerify'' @ [0] @ h"
  by (simp add: signed_message_def SERVER_CONTEXT_def)


section \<open>A chain at work\<close>

text \<open>
  A small world: headers of two bytes, a curve where the signature under a key is the key itself, and
  three certificates. The authority has the key 1 and signed the certificate of \<open>b.io\<close>, whose key is 2;
  that key signed a certificate of \<open>a.io\<close>, whose key is 3.
\<close>

definition demo_san :: "u8 list \<Rightarrow> ExtensionIdAndValue" where
  "demo_san name = \<lparr>ex_id = SUBJECT_ALT_NAME_OID, ex_critical = None,
     ex_value = \<lparr>any_tag = 4, any_value = [0x30, 6, 0x82, 4] @ name\<rparr>\<rparr>"

definition demo_certificate :: "u8 list \<Rightarrow> u8 \<Rightarrow> u8 \<Rightarrow> DecodedCertificate" where
  "demo_certificate name key signer =
     \<lparr>dc_tbs = \<lparr>tbs_version = V3, tbs_serial_number = [key], tbs_signature = ECDSA_SHA256, tbs_issuer = [],
        tbs_validity = \<lparr>va_not_before = UtcTime 0, va_not_after = UtcTime 0\<rparr>, tbs_subject = [],
        tbs_public_key_info = \<lparr>sp_algorithm = ECDSA_SHA256, sp_public_key = \<lparr>bs_unused_bits = 0, bs_bytes = [key]\<rparr>\<rparr>,
        tbs_extensions = Some [demo_san name]\<rparr>,
      dc_signature_algorithm = ECDSA_SHA256, dc_signature = \<lparr>bs_unused_bits = 0, bs_bytes = [signer]\<rparr>\<rparr>"

definition demo_bytes :: "u8 \<Rightarrow> u8 list" where
  "demo_bytes n = [0x30, 3, 0x30, 1, n]"

definition demo_lib :: pki_lib where
  "demo_lib =
     \<lparr>pk_certificate = map_of [(demo_bytes 1, demo_certificate [99, 46, 105, 111] 1 1),
        (demo_bytes 2, demo_certificate [98, 46, 105, 111] 2 1), (demo_bytes 3, demo_certificate [97, 46, 105, 111] 3 2)],
      pk_header = (\<lambda>bs. case bs of t # l # _ \<Rightarrow> Some (t, unat l, 1) | _ \<Rightarrow> None),
      pk_ec_key = (\<lambda>_ _. True), pk_ec_signature = (\<lambda>_ _. True), pk_ec_verify = (\<lambda>_ key _ signature. signature = key)\<rparr>"

definition demo_verifier :: CertVerifier where
  "demo_verifier = snd (set_hostname_verification [97, 46, 105, 111] (cert_verifier_new (X509 (demo_bytes 1))))"

definition demo_message :: "u8 list" where
  "demo_message = [0, 0, 0, 20, 0, 0, 5] @ demo_bytes 3 @ [0, 0] @ [0, 0, 5] @ demo_bytes 2 @ [0, 0]"

definition demo_chain :: CertificateRef where
  "demo_chain = \<lparr>cr_raw_entries = drop 4 demo_message, cr_request_context = [], cr_entries = [X509 (demo_bytes 3), X509 (demo_bytes 2)]\<rparr>"

lemma demo_parsed: "certificate_parse (parse_buffer_new demo_message) = (Inr demo_chain, \<lparr>pb_pos = 24, pb_buffer = demo_message\<rparr>)"
  by code_simp

text \<open>
  The client accepts the certificate of \<open>a.io\<close>, although it was issued with the certificate of another
  host, which nothing entitles to issue certificates: neither the basic constraints nor the key usage
  of a certificate are looked at.
\<close>

lemma demo_entries: "fst (certificate_entries_parse 16 (parse_buffer_new (drop 4 demo_message))) =
    Inr [X509 (demo_bytes 3), X509 (demo_bytes 2)]"
  by code_simp

lemma demo_lookup:
  "pk_certificate demo_lib (demo_bytes 1) = Some (demo_certificate [99, 46, 105, 111] 1 1)"
  "pk_certificate demo_lib (demo_bytes 2) = Some (demo_certificate [98, 46, 105, 111] 2 1)"
  "pk_certificate demo_lib (demo_bytes 3) = Some (demo_certificate [97, 46, 105, 111] 3 2)"
  by (simp_all add: demo_lib_def demo_bytes_def)

lemma demo_header [simp]: "pk_header demo_lib (t # l # bs) = Some (t, unat l, 1)"
  by (simp add: demo_lib_def)

lemma demo_common_name: "extract_common_name (dc_tbs (demo_certificate name key signer)) = Some None"
  by (simp add: extract_common_name_def demo_certificate_def)

lemma demo_names:
  assumes "length name = 4" "utf8_bytes_ok name"
  shows "extract_san_dns_names demo_lib (dc_tbs (demo_certificate name key signer)) = Some [name]"
proof -
  have "general_names demo_lib (0x82 # 4 # name) [] = Some [name]"
    by (subst general_names.simps) (simp add: assms DNS_NAME_TAG_def HOSTNAME_MAXLEN_def MAX_SAN_DNS_NAMES_def
        general_names.simps [of demo_lib "[]"])
  with assms(1) show ?thesis
    by (simp add: extract_san_dns_names_def demo_certificate_def demo_san_def)
qed

lemma demo_key: "subject_public_key (demo_certificate name key signer) = Some [key]"
  by (simp add: subject_public_key_def demo_certificate_def bit_string_as_bytes_def)

lemma demo_tlv: "get_certificate_tlv_bytes demo_lib (demo_bytes n) = Some [0x30, 1, n]"
  by (simp add: get_certificate_tlv_bytes_def demo_bytes_def)

lemma demo_check: "certificate_signature_check demo_lib rv (demo_certificate name key signer) ca_key bs = Inr ([signer] = ca_key)"
  by (simp add: certificate_signature_check_def demo_certificate_def ecdsa_certificate_check_def bit_string_as_bytes_def)
    (simp add: demo_lib_def)

lemma demo_verified:
  assumes "pk_certificate demo_lib v = Some (demo_certificate ca_name signer ca_signer)"
    and "pk_certificate demo_lib (demo_bytes n) = Some (demo_certificate name key signer)"
    and "length name = 4" "utf8_bytes_ok name"
  shows "verify_certificate demo_lib rv NO_CLOCK (X509 v) (X509 (demo_bytes n)) =
    Inr \<lparr>cn_common_name = None, cn_san_dns_names = [name]\<rparr>"
  by (simp add: verify_certificate_def assms demo_key demo_common_name demo_names demo_tlv demo_check NO_CLOCK_def)

lemma demo_bytes_inject [simp]: "demo_bytes m = demo_bytes n \<longleftrightarrow> m = n"
  by (simp add: demo_bytes_def)

lemma demo_names_ok: "utf8_bytes_ok [97, 46, 105, 111]" "utf8_bytes_ok [98, 46, 105, 111]"
  by code_simp+

lemma server_certificate_can_issue:
  "verifier_verify_certificate demo_lib transcript demo_chain demo_verifier =
     (Inr (), demo_verifier\<lparr>ver_certificate := Some \<lparr>oc_request_context = [], oc_entries_data = drop 4 demo_message\<rparr>,
        ver_certificate_transcript := Some transcript\<rparr>)"
proof -
  have d: "ver_rsa_verifier demo_verifier = None" "ver_ca demo_verifier = X509 (demo_bytes 1)"
    "ver_host demo_verifier = Some [97, 46, 105, 111]"
    by (simp_all add: demo_verifier_def set_hostname_verification_def cert_verifier_new_def HOSTNAME_MAXLEN_def)
  have "subject_public_key (demo_certificate [98, 46, 105, 111] 2 1) \<noteq> subject_public_key (demo_certificate [99, 46, 105, 111] 1 1)"
    by (simp add: demo_key)
  then have "verify_chain demo_lib None NO_CLOCK (X509 (demo_bytes 1)) 0 (cr_entries demo_chain) no_names =
      Inr \<lparr>cn_common_name = None, cn_san_dns_names = [[97, 46, 105, 111]]\<rparr>"
    by (simp add: demo_chain_def demo_lookup
        demo_verified [OF demo_lookup(1) demo_lookup(2) _ demo_names_ok(2)] demo_verified [OF demo_lookup(2) demo_lookup(3) _ demo_names_ok(1)])
  moreover have "tls_hostname_match \<lparr>cn_common_name = None, cn_san_dns_names = [[97, 46, 105, 111]]\<rparr> (Some [97, 46, 105, 111])"
    by code_simp
  moreover have "owned_certificate CERT_SIZE demo_chain = Inr \<lparr>oc_request_context = [], oc_entries_data = drop 4 demo_message\<rparr>"
    by (simp add: owned_certificate_def CERT_SIZE_def demo_chain_def demo_message_def demo_bytes_def)
  ultimately show ?thesis by (simp add: verifier_verify_certificate_def d)
qed

lemma demo_signature:
  "verifier_verify_signature demo_lib hash \<lparr>cv_signature_scheme = EcdsaSecp256r1Sha256, cv_signature = [3]\<rparr>
     (demo_verifier\<lparr>ver_certificate := Some \<lparr>oc_request_context = [], oc_entries_data = drop 4 demo_message\<rparr>,
        ver_certificate_transcript := Some transcript\<rparr>) =
   Some (if 48 < length (hash transcript) then Inl EncodeError else Inr (),
     demo_verifier\<lparr>ver_certificate := Some \<lparr>oc_request_context = [], oc_entries_data = drop 4 demo_message\<rparr>\<rparr>)"
proof -
  have b: "borrowed_certificate \<lparr>oc_request_context = [], oc_entries_data = drop 4 demo_message\<rparr> = Inr demo_chain"
    by (simp add: borrowed_certificate_def demo_entries) (simp add: demo_chain_def)
  have v: "verify_signature demo_lib rv msg demo_chain \<lparr>cv_signature_scheme = EcdsaSecp256r1Sha256, cv_signature = [3]\<rparr> = Inr ()"
    for rv msg
    by (simp add: verify_signature_def demo_chain_def demo_lookup demo_key handshake_signature_check_def ecdsa_handshake_check_def) (simp add: demo_lib_def)
  have l: "length (signed_message h) = 98 + length h" for h
    by (simp add: signed_message_def SERVER_CONTEXT_def)
  then show ?thesis by (auto simp: verifier_verify_signature_def l Let_def b v demo_verifier_def
      set_hostname_verification_def cert_verifier_new_def const_defs)
qed


end
