(* ===== verification/Tls_Keys.thy ===== *)
theory Tls_Keys
  imports Tls_Messages
begin

text \<open>
  The key schedule of TLS 1.3, \<open>tools/embedded-tls/src/key_schedule.rs\<close>. The hash, HMAC and HKDF of
  the cipher suite are parameters; a pseudo-random key is its bytes, and the running hash of the
  transcript is the list of the bytes absorbed. A panic is \<open>None\<close>.
\<close>

section \<open>Cipher suites and secrets\<close>

record tls_crypto =
  tc_hash :: "u8 list \<Rightarrow> u8 list"
  tc_hmac :: "u8 list \<Rightarrow> u8 list \<Rightarrow> u8 list"
  tc_extract :: "u8 list \<Rightarrow> u8 list \<Rightarrow> u8 list"
  tc_expand :: "u8 list \<Rightarrow> u8 list \<Rightarrow> nat \<Rightarrow> u8 list option"
  tc_hash_len :: nat
  tc_key_len :: nat
  tc_iv_len :: nat

datatype Secret = Uninitialized | Initialized "u8 list"

fun secret_as_ref :: "Secret \<Rightarrow> TlsError + u8 list" where
  "secret_as_ref (Initialized secret) = Inr secret"
| "secret_as_ref Uninitialized = Inl TlsInternalError"

text \<open>\<open>Hkdf::from_prk\<close> refuses a key that is shorter than the hash.\<close>

definition secret_from_prk :: "tls_crypto \<Rightarrow> u8 list \<Rightarrow> TlsError + Secret" where
  "secret_from_prk tc prk = (if length prk < tc_hash_len tc then Inl TlsInternalError else Inr (Initialized prk))"

datatype ContextType = NoContext | HashContext "u8 list"

definition context_transcript_hash :: "tls_crypto \<Rightarrow> u8 list \<Rightarrow> ContextType" where
  "context_transcript_hash tc transcript = HashContext (tc_hash tc transcript)"

definition context_empty_hash :: "tls_crypto \<Rightarrow> ContextType" where
  "context_empty_hash tc = HashContext (tc_hash tc [])"

definition ascii_bytes :: "string \<Rightarrow> u8 list" where
  "ascii_bytes s = map of_char s"

fun context_bytes :: "ContextType \<Rightarrow> u8 list" where
  "context_bytes NoContext = [0]"
| "context_bytes (HashContext h) = of_nat (length h) # h"

text \<open>The label is built in a vector of 70 bytes; a part that does not fit is an internal error.\<close>

definition hkdf_label :: "nat \<Rightarrow> u8 list \<Rightarrow> ContextType \<Rightarrow> u8 list" where
  "hkdf_label out_len label context_type =
     u16_to_be_bytes (of_nat out_len) @ [6 + of_nat (length label)] @ ascii_bytes ''tls13 '' @ label @
     context_bytes context_type"

definition make_expanded_hkdf_label :: "tls_crypto \<Rightarrow> Secret \<Rightarrow> nat \<Rightarrow> u8 list \<Rightarrow> ContextType \<Rightarrow> TlsError + u8 list" where
  "make_expanded_hkdf_label tc secret out_len label context_type =
     result_bind (ensure (length (hkdf_label out_len label context_type) \<le> 70) TlsInternalError) (\<lambda>_.
     result_bind (secret_as_ref secret) (\<lambda>prk.
       case tc_expand tc prk (hkdf_label out_len label context_type) out_len of
         None \<Rightarrow> Inl CryptoError | Some okm \<Rightarrow> Inr okm))"

section \<open>The shared state\<close>

record SharedState =
  sh_secret :: "u8 list"
  sh_hkdf :: Secret

definition shared_new :: "tls_crypto \<Rightarrow> SharedState" where
  "shared_new tc = \<lparr>sh_secret = replicate (tc_hash_len tc) 0, sh_hkdf = Uninitialized\<rparr>"

definition shared_initialize :: "tls_crypto \<Rightarrow> u8 list \<Rightarrow> SharedState \<Rightarrow> SharedState" where
  "shared_initialize tc ikm sh =
     (let prk = tc_extract tc (sh_secret sh) ikm in \<lparr>sh_secret = prk, sh_hkdf = Initialized prk\<rparr>)"

definition derive_secret :: "tls_crypto \<Rightarrow> SharedState \<Rightarrow> u8 list \<Rightarrow> ContextType \<Rightarrow> TlsError + u8 list" where
  "derive_secret tc sh label context_type = make_expanded_hkdf_label tc (sh_hkdf sh) (tc_hash_len tc) label context_type"

definition shared_derived :: "tls_crypto \<Rightarrow> SharedState \<Rightarrow> (TlsError + unit) \<times> SharedState" where
  "shared_derived tc sh =
     (case derive_secret tc sh (ascii_bytes ''derived'') (context_empty_hash tc) of
        Inl e \<Rightarrow> (Inl e, sh) | Inr secret \<Rightarrow> (Inr (), sh\<lparr>sh_secret := secret\<rparr>))"

section \<open>The state of one direction\<close>

record KeyScheduleState =
  kst_traffic_secret :: Secret
  kst_counter :: u64
  kst_key :: "u8 list"
  kst_iv :: "u8 list"

definition key_schedule_state_new :: "tls_crypto \<Rightarrow> KeyScheduleState" where
  "key_schedule_state_new tc =
     \<lparr>kst_traffic_secret = Uninitialized, kst_counter = 0, kst_key = replicate (tc_key_len tc) 0,
      kst_iv = replicate (tc_iv_len tc) 0\<rparr>"

definition u64_to_be_bytes :: "u64 \<Rightarrow> u8 list" where
  "u64_to_be_bytes w = map (\<lambda>i. ucast (drop_bit (8 * (7 - i)) w)) [0..<8]"

definition nonce_pad :: "nat \<Rightarrow> u8 list \<Rightarrow> u8 list" where
  "nonce_pad n input = fold (\<lambda>(index, byte) padded. padded[n - index - 1 := byte]) (enumerate 0 (rev input)) (replicate n 0)"

definition get_nonce :: "nat \<Rightarrow> u64 \<Rightarrow> u8 list \<Rightarrow> u8 list" where
  "get_nonce iv_len counter iv = map2 (XOR) (take iv_len iv) (nonce_pad iv_len (u64_to_be_bytes counter))"

definition kst_get_nonce :: "tls_crypto \<Rightarrow> KeyScheduleState \<Rightarrow> u8 list" where
  "kst_get_nonce tc st = get_nonce (tc_iv_len tc) (kst_counter st) (kst_iv st)"

definition increment_counter :: "KeyScheduleState \<Rightarrow> KeyScheduleState option" where
  "increment_counter st = (if kst_counter st = -1 then None else Some (st\<lparr>kst_counter := kst_counter st + 1\<rparr>))"

definition calculate_traffic_secret ::
  "tls_crypto \<Rightarrow> u8 list \<Rightarrow> SharedState \<Rightarrow> u8 list \<Rightarrow> KeyScheduleState \<Rightarrow> (TlsError + unit) \<times> KeyScheduleState" where
  "calculate_traffic_secret tc label shared transcript st =
     (case result_bind (derive_secret tc shared label (context_transcript_hash tc transcript)) (secret_from_prk tc) of
        Inl e \<Rightarrow> (Inl e, st)
      | Inr traffic_secret \<Rightarrow>
          let st = st\<lparr>kst_traffic_secret := traffic_secret\<rparr>
          in case make_expanded_hkdf_label tc traffic_secret (tc_key_len tc) (ascii_bytes ''key'') NoContext of
               Inl e \<Rightarrow> (Inl e, st)
             | Inr key \<Rightarrow>
                 let st = st\<lparr>kst_key := key\<rparr>
                 in case make_expanded_hkdf_label tc traffic_secret (tc_iv_len tc) (ascii_bytes ''iv'') NoContext of
                      Inl e \<Rightarrow> (Inl e, st)
                    | Inr iv \<Rightarrow> (Inr (), st\<lparr>kst_iv := iv, kst_counter := 0\<rparr>))"

section \<open>The key schedule\<close>

record KeySchedule =
  ks_shared :: SharedState
  ks_client :: KeyScheduleState
  ks_binder_key :: Secret
  ks_server :: KeyScheduleState
  ks_transcript_hash :: "u8 list"

definition key_schedule_new :: "tls_crypto \<Rightarrow> KeySchedule" where
  "key_schedule_new tc =
     \<lparr>ks_shared = shared_new tc, ks_client = key_schedule_state_new tc, ks_binder_key = Uninitialized,
      ks_server = key_schedule_state_new tc, ks_transcript_hash = []\<rparr>"

definition zero_hash :: "tls_crypto \<Rightarrow> u8 list" where
  "zero_hash tc = replicate (tc_hash_len tc) 0"

definition ks_derived :: "tls_crypto \<Rightarrow> KeySchedule \<Rightarrow> (TlsError + unit) \<times> KeySchedule" where
  "ks_derived tc ks = (case shared_derived tc (ks_shared ks) of (r, sh) \<Rightarrow> (r, ks\<lparr>ks_shared := sh\<rparr>))"

definition calculate_traffic_secrets :: "tls_crypto \<Rightarrow> string \<Rightarrow> string \<Rightarrow> KeySchedule \<Rightarrow> (TlsError + unit) \<times> KeySchedule" where
  "calculate_traffic_secrets tc client_label server_label ks =
     (case calculate_traffic_secret tc (ascii_bytes client_label) (ks_shared ks) (ks_transcript_hash ks) (ks_client ks) of
        (r, client) \<Rightarrow> st_bind (r, ks\<lparr>ks_client := client\<rparr>) (\<lambda>_ ks.
          case calculate_traffic_secret tc (ascii_bytes server_label) (ks_shared ks) (ks_transcript_hash ks) (ks_server ks) of
            (r, server) \<Rightarrow> (r, ks\<lparr>ks_server := server\<rparr>)))"

definition initialize_early_secret :: "tls_crypto \<Rightarrow> u8 list option \<Rightarrow> KeySchedule \<Rightarrow> (TlsError + unit) \<times> KeySchedule" where
  "initialize_early_secret tc psk ks =
     (let ks = ks\<lparr>ks_shared := shared_initialize tc (case psk of None \<Rightarrow> zero_hash tc | Some p \<Rightarrow> p) (ks_shared ks)\<rparr>
      in case result_bind (derive_secret tc (ks_shared ks) (ascii_bytes ''ext binder'') (context_empty_hash tc)) (secret_from_prk tc) of
           Inl e \<Rightarrow> (Inl e, ks)
         | Inr binder_key \<Rightarrow> ks_derived tc (ks\<lparr>ks_binder_key := binder_key\<rparr>))"

definition initialize_handshake_secret :: "tls_crypto \<Rightarrow> u8 list \<Rightarrow> KeySchedule \<Rightarrow> (TlsError + unit) \<times> KeySchedule" where
  "initialize_handshake_secret tc ikm ks =
     st_bind (calculate_traffic_secrets tc ''c hs traffic'' ''s hs traffic''
       (ks\<lparr>ks_shared := shared_initialize tc ikm (ks_shared ks)\<rparr>)) (\<lambda>_ ks. ks_derived tc ks)"

definition initialize_master_secret :: "tls_crypto \<Rightarrow> KeySchedule \<Rightarrow> (TlsError + unit) \<times> KeySchedule" where
  "initialize_master_secret tc ks =
     st_bind (calculate_traffic_secrets tc ''c ap traffic'' ''s ap traffic''
       (ks\<lparr>ks_shared := shared_initialize tc (zero_hash tc) (ks_shared ks)\<rparr>)) (\<lambda>_ ks. ks_derived tc ks)"

definition create_client_finished :: "tls_crypto \<Rightarrow> KeySchedule \<Rightarrow> TlsError + Finished" where
  "create_client_finished tc ks =
     result_bind (make_expanded_hkdf_label tc (kst_traffic_secret (ks_client ks)) (tc_hash_len tc) (ascii_bytes ''finished'') NoContext)
       (\<lambda>key. Inr \<lparr>fin_verify = tc_hmac tc key (tc_hash tc (ks_transcript_hash ks)), fin_hash = None\<rparr>)"

definition create_psk_binder :: "tls_crypto \<Rightarrow> KeySchedule \<Rightarrow> u8 list \<Rightarrow> TlsError + u8 list" where
  "create_psk_binder tc ks transcript =
     result_bind (make_expanded_hkdf_label tc (ks_binder_key ks) (tc_hash_len tc) (ascii_bytes ''finished'') NoContext)
       (\<lambda>key. Inr (tc_hmac tc key (tc_hash tc transcript)))"

definition verify_server_finished :: "tls_crypto \<Rightarrow> KeySchedule \<Rightarrow> Finished \<Rightarrow> TlsError + bool" where
  "verify_server_finished tc ks finished =
     result_bind (make_expanded_hkdf_label tc (kst_traffic_secret (ks_server ks)) (tc_hash_len tc) (ascii_bytes ''finished'') NoContext)
       (\<lambda>key. case fin_hash finished of
          None \<Rightarrow> Inl TlsInternalError
        | Some h \<Rightarrow> Inr (tc_hmac tc key h = fin_verify finished))"

section \<open>Nonces\<close>

lemma fold_pad:
  "k + length xs \<le> n \<Longrightarrow> length p = n \<Longrightarrow>
   fold (\<lambda>(index, byte) padded. padded[n - index - 1 := byte]) (enumerate k xs) p =
     take (n - k - length xs) p @ rev xs @ drop (n - k) p"
proof (induction xs arbitrary: k p)
  case (Cons x xs)
  let ?p = "p[n - k - 1 := x]"
  have "fold (\<lambda>(index, byte) padded. padded[n - index - 1 := byte]) (enumerate k (x # xs)) p =
      take (n - Suc k - length xs) ?p @ rev xs @ drop (n - Suc k) ?p"
    using Cons.IH [of "Suc k" ?p] Cons.prems by simp
  moreover have "take (n - Suc k - length xs) ?p = take (n - k - length (x # xs)) p" using Cons.prems by simp
  moreover have "drop (n - Suc k) ?p = x # drop (n - k) p"
  proof -
    have "n - Suc k < length ?p" "n - k = Suc (n - Suc k)" using Cons.prems by auto
    then show ?thesis by (simp add: Cons_nth_drop_Suc [symmetric] drop_update_cancel)
  qed
  ultimately show ?case by simp
qed simp

lemma nonce_pad: "length input \<le> n \<Longrightarrow> nonce_pad n input = replicate (n - length input) 0 @ input"
  using fold_pad [of 0 "rev input" n "replicate n 0"] by (simp add: nonce_pad_def)

lemma length_u64_to_be_bytes [simp]: "length (u64_to_be_bytes w) = 8"
  by (simp add: u64_to_be_bytes_def)

lemma u64_to_be_bytes_inj: "u64_to_be_bytes a = u64_to_be_bytes b \<Longrightarrow> a = b"
proof (rule bit_word_eqI)
  fix n assume e: "u64_to_be_bytes a = u64_to_be_bytes b" and "n < LENGTH(64)"
  then have "n div 8 < 8" by simp
  then have i: "7 - n div 8 < 8" "7 - (7 - n div 8) = n div 8" by auto
  have "u64_to_be_bytes a ! (7 - n div 8) = u64_to_be_bytes b ! (7 - n div 8)" using e by simp
  then have "(ucast (drop_bit (8 * (n div 8)) a) :: u8) = ucast (drop_bit (8 * (n div 8)) b)"
    using i by (simp add: u64_to_be_bytes_def)
  then have "bit (ucast (drop_bit (8 * (n div 8)) a) :: u8) (n mod 8) = bit (ucast (drop_bit (8 * (n div 8)) b) :: u8) (n mod 8)"
    by simp
  then show "bit a n = bit b n" by (simp add: bit_simps)
qed

lemma xor_cancel_list: "length xs = length ks \<Longrightarrow> length ys = length ks \<Longrightarrow>
  map2 (XOR) ks xs = map2 (XOR) ks ys \<Longrightarrow> xs = (ys :: u8 list)"
proof (induction ks arbitrary: xs ys)
  case (Cons k ks)
  obtain x xs' y ys' where "xs = x # xs'" "ys = y # ys'" using Cons.prems by (cases xs; cases ys) auto
  with Cons show ?case by (auto dest: arg_cong [where f = "\<lambda>z. k XOR z"] simp: xor.assoc [symmetric])
qed simp

lemma get_nonce_inj:
  assumes "8 \<le> iv_len" "iv_len \<le> length iv" "get_nonce iv_len a iv = get_nonce iv_len b iv"
  shows "a = b"
proof -
  have "nonce_pad iv_len (u64_to_be_bytes a) = nonce_pad iv_len (u64_to_be_bytes b)"
    by (rule xor_cancel_list [where ks = "take iv_len iv"])
      (use assms in \<open>simp_all add: nonce_pad get_nonce_def\<close>)
  with assms(1) show ?thesis by (simp add: nonce_pad u64_to_be_bytes_inj)
qed

text \<open>The states of one direction from a key change on, one increment after each record.\<close>

fun key_use :: "KeyScheduleState \<Rightarrow> nat \<Rightarrow> KeyScheduleState option" where
  "key_use st 0 = Some st"
| "key_use st (Suc n) = (case key_use st n of None \<Rightarrow> None | Some st \<Rightarrow> increment_counter st)"

lemma key_use_counter:
  "key_use st n = Some st' \<Longrightarrow> unat (kst_counter st') = unat (kst_counter st) + n \<and> kst_iv st' = kst_iv st \<and> kst_key st' = kst_key st"
proof (induction n arbitrary: st')
  case (Suc n)
  then obtain s where s: "key_use st n = Some s" "kst_counter s \<noteq> -1" "st' = s\<lparr>kst_counter := kst_counter s + 1\<rparr>"
    by (auto simp: increment_counter_def split: option.splits if_splits)
  have "unat (kst_counter s + 1) = unat (kst_counter s) + 1"
    using s(2) unatSuc [of "kst_counter s"] by (metis add.commute add_eq_0_iff Suc_eq_plus1)
  with Suc.IH [OF s(1)] s(3) show ?case by simp
qed simp

text \<open>
  The nonces of different states of one key differ: the counter that tells them apart stops the
  connection before it wraps. They are the initialisation vector with the counter masked into its end,
  as RFC 8446 (5.3) has them.
\<close>

lemma nonce_written_out:
  "8 \<le> tc_iv_len tc \<Longrightarrow> kst_get_nonce tc st =
     map2 (XOR) (take (tc_iv_len tc) (kst_iv st)) (replicate (tc_iv_len tc - 8) 0 @ u64_to_be_bytes (kst_counter st))"
  by (simp add: kst_get_nonce_def get_nonce_def nonce_pad)

lemma key_use_nonces_distinct:
  assumes "8 \<le> tc_iv_len tc" "tc_iv_len tc \<le> length (kst_iv st)"
    and "key_use st m = Some a" "key_use st n = Some b" "m \<noteq> n"
  shows "kst_get_nonce tc a \<noteq> kst_get_nonce tc b"
proof
  assume "kst_get_nonce tc a = kst_get_nonce tc b"
  then have "kst_counter a = kst_counter b"
    using assms key_use_counter [OF assms(3)] key_use_counter [OF assms(4)]
    by (auto simp: kst_get_nonce_def intro: get_nonce_inj)
  with key_use_counter [OF assms(3)] key_use_counter [OF assms(4)] assms(5) show False by simp
qed

lemma hkdf_label_parts:
  assumes "length label < 250" "length label' < 250" "hkdf_label n label c = hkdf_label n' label' c'"
  shows "label = label' \<and> context_bytes c = context_bytes c' \<and> (of_nat n :: u16) = of_nat n'"
proof -
  have e: "u16_to_be_bytes (of_nat n) = u16_to_be_bytes (of_nat n')" "6 + of_nat (length label) = 6 + (of_nat (length label') :: u8)"
    "label @ context_bytes c = label' @ context_bytes c'"
    using assms(3) by (simp_all add: hkdf_label_def u16_to_be_bytes_def)
  have "unat (of_nat (length label) :: u8) = unat (of_nat (length label') :: u8)" using e(2) by simp
  then have "length label = length label'" using assms(1,2) by (simp add: unat_of_nat)
  moreover have "(of_nat n :: u16) = of_nat n'"
  proof (rule bit_word_eqI)
    fix k assume "k < LENGTH(16)"
    have b: "bit (ucast (drop_bit 8 (of_nat n :: u16)) :: u8) j = bit (ucast (drop_bit 8 (of_nat n' :: u16)) :: u8) j"
      "bit (ucast (of_nat n :: u16) :: u8) j = bit (ucast (of_nat n' :: u16) :: u8) j" for j
      using e(1) by (simp_all only: u16_to_be_bytes_def list.inject)
    show "bit (of_nat n :: u16) k = bit (of_nat n' :: u16) k"
    proof (cases "k < 8")
      case True
      with b(2) [of k] show ?thesis by (simp only: bit_ucast_iff) simp
    next
      case False
      with \<open>k < LENGTH(16)\<close> have "k - 8 < 8" "8 + (k - 8) = k" by simp_all
      with b(1) [of "k - 8"] show ?thesis by (simp only: bit_ucast_iff bit_drop_bit_eq comp_apply) simp
    qed
  qed
  ultimately show ?thesis using e(3) by simp
qed

end
