(* ===== verification/Tls_Hello.thy ===== *)
theory Tls_Hello
  imports Tls_Keys
begin

text \<open>
  What the TLS client sends, \<open>tools/embedded-tls/src\<close>: its configuration (\<open>config.rs\<close>), the extensions
  and the message of the client hello (\<open>extensions/\<close>, \<open>handshake/client_hello.rs\<close>,
  \<open>handshake/binder.rs\<close>), the messages of the client (\<open>handshake/mod.rs\<close>) and its records
  (\<open>record.rs\<close>, \<open>content_types.rs\<close>). The cipher suite and the curve are parameters; random numbers are
  inputs.
\<close>

section \<open>Cipher suites\<close>

text \<open>
  The code point of the suite, its hash and HKDF, the authenticated encryption (the cipher text and
  the tag of a plain text; the plain text of both), the point of an ephemeral secret and the shared
  secret with the point of the peer, which fails for bytes that are not a point.
\<close>

record tls_suite =
  su_code_point :: u16
  su_crypto :: tls_crypto
  su_tag_len :: nat
  su_seal :: "u8 list \<Rightarrow> u8 list \<Rightarrow> u8 list \<Rightarrow> u8 list \<Rightarrow> (u8 list \<times> u8 list) option"
  su_open :: "u8 list \<Rightarrow> u8 list \<Rightarrow> u8 list \<Rightarrow> u8 list \<Rightarrow> u8 list option"
  su_public_key :: "u8 list \<Rightarrow> u8 list"
  su_diffie_hellman :: "u8 list \<Rightarrow> u8 list \<Rightarrow> u8 list option"

section \<open>Configuration\<close>

record TlsConfig =
  cfg_server_name :: "u8 list option"
  cfg_alpn_protocols :: "u8 list list option"
  cfg_psk :: "(u8 list \<times> u8 list list) option"
  cfg_signature_schemes :: "SignatureScheme list"
  cfg_named_groups :: "NamedGroup list"
  cfg_max_fragment_length :: "MaxFragmentLengthData option"

text \<open>The vector of schemes holds 25; adding to a full one panics.\<close>

definition enable_rsa_signatures :: "TlsConfig \<Rightarrow> TlsConfig option" where
  "enable_rsa_signatures config =
     (let schemes = cfg_signature_schemes config @
        [RsaPkcs1Sha256, RsaPkcs1Sha384, RsaPkcs1Sha512, RsaPssRsaeSha256, RsaPssRsaeSha384, RsaPssRsaeSha512]
      in if 25 < length schemes then None else Some (config\<lparr>cfg_signature_schemes := schemes\<rparr>))"

definition tls_config_new :: "bool \<Rightarrow> TlsConfig option" where
  "tls_config_new alloc =
     (let config = \<lparr>cfg_server_name = None, cfg_alpn_protocols = None, cfg_psk = None, cfg_signature_schemes = [],
            cfg_named_groups = [], cfg_max_fragment_length = None\<rparr>
      in map_option (\<lambda>config. config\<lparr>cfg_signature_schemes := cfg_signature_schemes config @
              [EcdsaSecp256r1Sha256, EcdsaSecp384r1Sha384, Ed25519],
            cfg_named_groups := [Secp256r1]\<rparr>)
          (if alloc then enable_rsa_signatures config else Some config))"

definition with_server_name :: "u8 list \<Rightarrow> TlsConfig \<Rightarrow> TlsConfig" where
  "with_server_name server_name config = config\<lparr>cfg_server_name := Some server_name\<rparr>"

definition with_alpn :: "u8 list list \<Rightarrow> TlsConfig \<Rightarrow> TlsConfig" where
  "with_alpn protocols config = config\<lparr>cfg_alpn_protocols := Some protocols\<rparr>"

definition with_max_fragment_length :: "MaxFragmentLengthData \<Rightarrow> TlsConfig \<Rightarrow> TlsConfig" where
  "with_max_fragment_length len config = config\<lparr>cfg_max_fragment_length := Some len\<rparr>"

definition reset_max_fragment_length :: "TlsConfig \<Rightarrow> TlsConfig" where
  "reset_max_fragment_length config = config\<lparr>cfg_max_fragment_length := None\<rparr>"

text \<open>At most four identities fit; more panic.\<close>

definition with_psk :: "u8 list \<Rightarrow> u8 list list \<Rightarrow> TlsConfig \<Rightarrow> TlsConfig option" where
  "with_psk psk identities config =
     (if 4 < length identities then None else Some (config\<lparr>cfg_psk := Some (psk, identities)\<rparr>))"

section \<open>Extensions of the client hello\<close>

definition TLS13 :: u16 where [const_defs]: "TLS13 = 0x0304"
definition LEGACY_VERSION :: u16 where [const_defs]: "LEGACY_VERSION = 0x0303"

definition encode_err :: "writing \<Rightarrow> writing" where
  "encode_err op c = st_map_err (\<lambda>_. EncodeError) (op c)"

definition protocol_version_encode :: "u16 \<Rightarrow> writing" where
  "protocol_version_encode v = encode_err (push_u16 v)"

definition supported_versions_encode :: "u16 list \<Rightarrow> writing" where
  "supported_versions_encode versions = with_u8_length (write_items protocol_version_encode versions)"

definition signature_algorithms_encode :: "SignatureScheme list \<Rightarrow> writing" where
  "signature_algorithms_encode schemes =
     with_u16_length (write_items (\<lambda>a. encode_err (push_u16 (signature_scheme_code a))) schemes)"

fun max_fragment_length_code :: "MaxFragmentLengthData \<Rightarrow> u8" where
  "max_fragment_length_code Bits9 = 1"
| "max_fragment_length_code Bits10 = 2"
| "max_fragment_length_code Bits11 = 3"
| "max_fragment_length_code Bits12 = 4"

definition max_fragment_length_encode :: "MaxFragmentLengthData \<Rightarrow> writing" where
  "max_fragment_length_encode m = encode_err (cb_push (max_fragment_length_code m))"

definition supported_groups_encode :: "NamedGroup list \<Rightarrow> writing" where
  "supported_groups_encode groups = with_u16_length (write_items named_group_encode groups)"

datatype PskKeyExchangeMode = PskKe | PskDheKe

fun psk_key_exchange_mode_encode :: "PskKeyExchangeMode \<Rightarrow> writing" where
  "psk_key_exchange_mode_encode PskKe = encode_err (cb_push 0)"
| "psk_key_exchange_mode_encode PskDheKe = encode_err (cb_push 1)"

definition psk_key_exchange_modes_encode :: "PskKeyExchangeMode list \<Rightarrow> writing" where
  "psk_key_exchange_modes_encode modes = with_u8_length (write_items psk_key_exchange_mode_encode modes)"

definition key_share_client_hello_encode :: "KeyShareEntry list \<Rightarrow> writing" where
  "key_share_client_hello_encode shares = with_u16_length (write_items key_share_entry_encode shares)"

text \<open>A server name is its bytes; the one name type is the host name, 0.\<close>

definition server_name_encode :: "u8 list \<Rightarrow> writing" where
  "server_name_encode name c =
     st_bind (encode_err (cb_push 0) c) (\<lambda>_ c. encode_err (with_u16_length (cb_extend name)) c)"

definition server_name_list_encode :: "u8 list list \<Rightarrow> writing" where
  "server_name_list_encode names = with_u16_length (write_items server_name_encode names)"

definition alpn_encode :: "u8 list list \<Rightarrow> writing" where
  "alpn_encode protocols =
     with_u16_length (write_items (\<lambda>p c. st_bind (encode_err (cb_push (of_nat (length p))) c) (\<lambda>_ c. cb_extend p c)) protocols)"

definition identity_encode :: "u8 list \<Rightarrow> writing" where
  "identity_encode identity c =
     st_bind (encode_err (with_u16_length (cb_extend identity)) c) (\<lambda>_ c. encode_err (push_u32 0) c)"

definition pre_shared_key_encode :: "u8 list list \<Rightarrow> nat \<Rightarrow> writing" where
  "pre_shared_key_encode identities hash_size c =
     st_bind (encode_err (with_u16_length (write_items identity_encode identities)) c) (\<lambda>_ c.
       let binders_len = (1 + hash_size) * length identities
       in st_bind (encode_err (push_u16 (of_nat binders_len)) c) (\<lambda>_ c.
            write_items (\<lambda>x. encode_err (cb_push x)) (replicate binders_len 0) c))"

text \<open>The macro \<open>extension_group\<close>: the type, and the data with its length.\<close>

definition extension_encode :: "ExtensionType \<Rightarrow> writing \<Rightarrow> writing" where
  "extension_encode ext_type data c = st_bind (extension_type_encode ext_type c) (\<lambda>_ c. with_u16_length data c)"

definition when_some :: "('a \<Rightarrow> writing) \<Rightarrow> 'a option \<Rightarrow> writing" where
  "when_some op x c = (case x of None \<Rightarrow> (Inr (), c) | Some y \<Rightarrow> op y c)"

section \<open>The client hello\<close>

record ClientHello =
  ch_config :: TlsConfig
  ch_random :: "u8 list"
  ch_secret :: "u8 list"

definition client_hello_new :: "TlsConfig \<Rightarrow> u8 list \<Rightarrow> u8 list \<Rightarrow> ClientHello" where
  "client_hello_new config random secret = \<lparr>ch_config = config, ch_random = random, ch_secret = secret\<rparr>"

definition client_hello_extensions :: "tls_suite \<Rightarrow> ClientHello \<Rightarrow> writing" where
  "client_hello_extensions su hello c =
     (let config = ch_config hello
      in st_bind (extension_encode SupportedVersions (supported_versions_encode [TLS13]) c) (\<lambda>_ c.
         st_bind (extension_encode SignatureAlgorithms (signature_algorithms_encode (cfg_signature_schemes config)) c) (\<lambda>_ c.
         st_bind (when_some (\<lambda>m. extension_encode MaxFragmentLength (max_fragment_length_encode m))
           (cfg_max_fragment_length config) c) (\<lambda>_ c.
         st_bind (extension_encode SupportedGroups (supported_groups_encode (cfg_named_groups config)) c) (\<lambda>_ c.
         st_bind (extension_encode PskKeyExchangeModes (psk_key_exchange_modes_encode [PskDheKe]) c) (\<lambda>_ c.
         st_bind (extension_encode KeyShare (key_share_client_hello_encode
           [\<lparr>ks_group = Secp256r1, ks_opaque = su_public_key su (ch_secret hello)\<rparr>]) c) (\<lambda>_ c.
         st_bind (when_some (\<lambda>n. extension_encode ServerName (server_name_list_encode [n])) (cfg_server_name config) c) (\<lambda>_ c.
         st_bind (when_some (\<lambda>ps. extension_encode ApplicationLayerProtocolNegotiation (alpn_encode ps))
           (cfg_alpn_protocols config) c) (\<lambda>_ c.
           when_some (\<lambda>(_, identities). extension_encode PreSharedKey
             (pre_shared_key_encode identities (tc_hash_len (su_crypto su)))) (cfg_psk config) c)))))))))"

definition client_hello_encode :: "tls_suite \<Rightarrow> ClientHello \<Rightarrow> writing" where
  "client_hello_encode su hello c =
     st_bind (encode_err (push_u16 LEGACY_VERSION) c) (\<lambda>_ c.
     st_bind (encode_err (cb_extend (ch_random hello)) c) (\<lambda>_ c.
     st_bind (encode_err (cb_push 0) c) (\<lambda>_ c.
     st_bind (encode_err (push_u16 2) c) (\<lambda>_ c.
     st_bind (encode_err (push_u16 (su_code_point su)) c) (\<lambda>_ c.
     st_bind (encode_err (cb_push 1) c) (\<lambda>_ c.
     st_bind (encode_err (cb_push 0) c) (\<lambda>_ c.
       with_u16_length (client_hello_extensions su hello) c)))))))"

definition psk_binder_encode :: "u8 list \<Rightarrow> writing" where
  "psk_binder_encode verify c =
     st_bind (encode_err (cb_push (of_nat (length verify))) c) (\<lambda>_ c. encode_err (cb_extend verify) c)"

text \<open>
  The end of a client hello: with pre-shared keys the transcript first gets the message up to the
  length of the binders, the binders are computed over it and written in their place, and then the
  transcript gets the rest. The places were left free when the message was encoded.
\<close>

fun write_binders :: "tls_crypto \<Rightarrow> KeySchedule \<Rightarrow> u8 list list \<Rightarrow> writing" where
  "write_binders tc ks [] c = (Inr (), c)"
| "write_binders tc ks (_ # ids) c =
     (case create_psk_binder tc ks (ks_transcript_hash ks) of
        Inl e \<Rightarrow> (Inl e, c)
      | Inr binder \<Rightarrow> st_bind (psk_binder_encode binder c) (\<lambda>_ c. write_binders tc ks ids c))"

definition transcript_update :: "u8 list \<Rightarrow> KeySchedule \<Rightarrow> KeySchedule" where
  "transcript_update bs ks = ks\<lparr>ks_transcript_hash := ks_transcript_hash ks @ bs\<rparr>"

definition cb_replace :: "u8 list \<Rightarrow> CryptoBuffer \<Rightarrow> CryptoBuffer" where
  "cb_replace bs c = c\<lparr>cb_buf := splice (cb_buf c) (cb_offset c) bs\<rparr>"

definition client_hello_finalize ::
  "tls_crypto \<Rightarrow> ClientHello \<Rightarrow> CryptoBuffer \<times> KeySchedule \<Rightarrow> (TlsError + unit) \<times> CryptoBuffer \<times> KeySchedule" where
  "client_hello_finalize tc hello = (\<lambda>(c, ks).
     (case cfg_psk (ch_config hello) of
        None \<Rightarrow> (Inr (), c, transcript_update (cb_as_slice c) ks)
      | Some (_, identities) \<Rightarrow>
          let enc_buf = cb_as_slice c;
              binders_len = length identities * (1 + tc_hash_len tc);
              binders_pos = length enc_buf - binders_len;
              ks = transcript_update (take (binders_pos - 2) enc_buf) ks
          in (case write_binders tc ks identities (crypto_wrap (drop binders_pos enc_buf)) of
               (Inl e, b) \<Rightarrow> (Inl e, cb_replace (take binders_pos enc_buf @ cb_buf b) c, ks)
             | (Inr _, b) \<Rightarrow>
                 let enc_buf = take binders_pos enc_buf @ cb_buf b
                 in (Inr (), cb_replace enc_buf c, transcript_update (drop (binders_pos - 2) enc_buf) ks))))"

section \<open>Messages of the client\<close>

text \<open>A certificate of the client is in DER; writing a raw public key is not implemented in the library.\<close>

datatype ClientHandshake =
    ChClientCert "u8 list" "u8 list list" | ChClientCertVerify CertificateVerifyRef | ChClientHello ClientHello | ChFinished Finished

fun client_handshake_code :: "ClientHandshake \<Rightarrow> u8" where
  "client_handshake_code (ChClientHello _) = 1"
| "client_handshake_code (ChFinished _) = 20"
| "client_handshake_code (ChClientCert _ _) = 11"
| "client_handshake_code (ChClientCertVerify _) = 15"

fun client_handshake_encode_inner :: "tls_suite \<Rightarrow> ClientHandshake \<Rightarrow> writing" where
  "client_handshake_encode_inner su (ChClientHello inner) = client_hello_encode su inner"
| "client_handshake_encode_inner su (ChFinished inner) = finished_encode inner"
| "client_handshake_encode_inner su (ChClientCert ctx certs) = certificate_encode ctx certs"
| "client_handshake_encode_inner su (ChClientCertVerify inner) = certificate_verify_encode inner"

definition client_handshake_encode :: "tls_suite \<Rightarrow> ClientHandshake \<Rightarrow> writing" where
  "client_handshake_encode su h c =
     st_bind (encode_err (cb_push (client_handshake_code h)) c) (\<lambda>_ c.
       with_u24_length (client_handshake_encode_inner su h) c)"

fun client_handshake_finalize ::
  "tls_crypto \<Rightarrow> ClientHandshake \<Rightarrow> CryptoBuffer \<times> KeySchedule \<Rightarrow> (TlsError + unit) \<times> CryptoBuffer \<times> KeySchedule" where
  "client_handshake_finalize tc (ChClientHello hello) s = client_hello_finalize tc hello s"
| "client_handshake_finalize tc _ (c, ks) = (Inr (), c, transcript_update (cb_as_slice c) ks)"

definition finalize_encrypted :: "CryptoBuffer \<times> KeySchedule \<Rightarrow> CryptoBuffer \<times> KeySchedule" where
  "finalize_encrypted = (\<lambda>(c, ks). (c, transcript_update (cb_as_slice c) ks))"

section \<open>Records of the client\<close>

datatype ContentType = CtInvalid | CtChangeCipherSpec | CtAlert | CtHandshake | CtApplicationData

fun content_type_code :: "ContentType \<Rightarrow> u8" where
  "content_type_code CtInvalid = 0"
| "content_type_code CtChangeCipherSpec = 20"
| "content_type_code CtAlert = 21"
| "content_type_code CtHandshake = 22"
| "content_type_code CtApplicationData = 23"

definition content_type_of :: "u8 \<Rightarrow> ContentType option" where
  "content_type_of num =
     (if num = 0 then Some CtInvalid else if num = 20 then Some CtChangeCipherSpec else if num = 21 then Some CtAlert
      else if num = 22 then Some CtHandshake else if num = 23 then Some CtApplicationData else None)"

lemma content_type_of_code [simp]: "content_type_of (content_type_code t) = Some t"
  by (cases t) (simp_all add: content_type_of_def)

datatype ClientRecord = CrHandshake ClientHandshake bool | CrAlert Alert bool

datatype ClientRecordHeader = HdHandshake bool | HdAlert bool | HdApplicationData

fun is_encrypted :: "ClientRecordHeader \<Rightarrow> bool" where
  "is_encrypted (HdHandshake encrypted) = encrypted"
| "is_encrypted (HdAlert encrypted) = encrypted"
| "is_encrypted HdApplicationData = True"

fun header_content_type :: "ClientRecordHeader \<Rightarrow> ContentType" where
  "header_content_type (HdHandshake False) = CtHandshake"
| "header_content_type (HdAlert False) = CtChangeCipherSpec"
| "header_content_type _ = CtApplicationData"

fun trailer_content_type :: "ClientRecordHeader \<Rightarrow> ContentType" where
  "trailer_content_type (HdHandshake _) = CtHandshake"
| "trailer_content_type (HdAlert _) = CtAlert"
| "trailer_content_type HdApplicationData = CtApplicationData"

definition header_version :: "ClientRecordHeader \<Rightarrow> u8 list" where
  "header_version h = (if is_encrypted h then [0x03, 0x03] else [0x03, 0x01])"

definition header_encode :: "ClientRecordHeader \<Rightarrow> writing" where
  "header_encode h c =
     st_bind (encode_err (cb_push (content_type_code (header_content_type h))) c) (\<lambda>_ c.
       encode_err (cb_extend (header_version h)) c)"

fun record_header :: "ClientRecord \<Rightarrow> ClientRecordHeader" where
  "record_header (CrHandshake _ encrypted) = HdHandshake encrypted"
| "record_header (CrAlert _ encrypted) = HdAlert encrypted"

definition record_client_hello :: "TlsConfig \<Rightarrow> u8 list \<Rightarrow> u8 list \<Rightarrow> ClientRecord" where
  "record_client_hello config random secret = CrHandshake (ChClientHello (client_hello_new config random secret)) False"

definition close_notify :: "bool \<Rightarrow> ClientRecord" where
  "close_notify opened = CrAlert \<lparr>al_level = AlertWarning, al_description = CloseNotify\<rparr> opened"

fun encode_payload :: "tls_suite \<Rightarrow> ClientRecord \<Rightarrow> writing" where
  "encode_payload su (CrHandshake handshake _) = client_handshake_encode su handshake"
| "encode_payload su (CrAlert alert _) = alert_encode alert"

fun finish_record ::
  "tls_crypto \<Rightarrow> ClientRecord \<Rightarrow> CryptoBuffer \<times> KeySchedule \<Rightarrow> (TlsError + unit) \<times> CryptoBuffer \<times> KeySchedule" where
  "finish_record tc (CrHandshake handshake False) s = client_handshake_finalize tc handshake s"
| "finish_record tc (CrHandshake _ True) s = (Inr (), finalize_encrypted s)"
| "finish_record tc (CrAlert _ _) s = (Inr (), s)"

end
