(* ===== verification/Tls_Records.thy ===== *)
theory Tls_Records
  imports Tls_Hello
begin

text \<open>
  The record layer of the TLS client, \<open>tools/embedded-tls/src\<close>: the buffer of the records it sends
  (\<open>write_buffer.rs\<close>, \<open>encrypt\<close> of \<open>connection.rs\<close>), the records of the server (\<open>record.rs\<close>), the buffer
  they are read into (\<open>record_reader.rs\<close>) and their decryption (\<open>decrypt_record\<close> of
  \<open>connection.rs\<close>). A panic is \<open>None\<close>.
\<close>

section \<open>Steps that may panic\<close>

text \<open>A step returns a result and its state, or panics; \<open>op_bind\<close> is the question mark.\<close>

definition op_bind ::
  "(('e + 'a) \<times> 's) option \<Rightarrow> ('a \<Rightarrow> 's \<Rightarrow> (('e + 'b) \<times> 't) option) \<Rightarrow> ('s \<Rightarrow> 't) \<Rightarrow> (('e + 'b) \<times> 't) option" where
  "op_bind m k w = Option.bind m (\<lambda>(r, s). case r of Inl e \<Rightarrow> Some (Inl e, w s) | Inr x \<Rightarrow> k x s)"

lemma op_bind_simps [simp]:
  "op_bind None k w = None"
  "op_bind (Some (Inl e, s)) k w = Some (Inl e, w s)"
  "op_bind (Some (Inr x, s)) k w = k x s"
  by (simp_all add: op_bind_def)

lemma op_bind_Inr_iff:
  "op_bind m k w = Some (Inr y, t) \<longleftrightarrow> (\<exists>x s. m = Some (Inr x, s) \<and> k x s = Some (Inr y, t))"
  by (cases m) (auto simp: op_bind_def split: sum.splits)

section \<open>The buffer of sent records\<close>

definition TLS_RECORD_OVERHEAD :: nat where [const_defs]: "TLS_RECORD_OVERHEAD = 128"
definition HEADER_SIZE :: nat where [const_defs]: "HEADER_SIZE = 5"

record WriteBuffer =
  wb_buffer :: "u8 list"
  wb_pos :: nat
  wb_current_header :: "ClientRecordHeader option"

definition write_buffer_new :: "u8 list \<Rightarrow> WriteBuffer" where
  "write_buffer_new buffer = \<lparr>wb_buffer = buffer, wb_pos = 0, wb_current_header = None\<rparr>"

definition wb_max_block_size :: "WriteBuffer \<Rightarrow> nat" where
  "wb_max_block_size wb = length (wb_buffer wb) - TLS_RECORD_OVERHEAD"

definition wb_is_full :: "WriteBuffer \<Rightarrow> bool" where
  "wb_is_full wb \<longleftrightarrow> wb_pos wb = wb_max_block_size wb"

definition wb_is_empty :: "WriteBuffer \<Rightarrow> bool" where
  "wb_is_empty wb \<longleftrightarrow> wb_pos wb = 0"

definition wb_space :: "WriteBuffer \<Rightarrow> nat" where
  "wb_space wb = wb_max_block_size wb - wb_pos wb"

definition wb_contains :: "ClientRecordHeader \<Rightarrow> WriteBuffer \<Rightarrow> bool" where
  "wb_contains header wb \<longleftrightarrow> wb_current_header wb = Some header"

definition wb_append :: "u8 list \<Rightarrow> WriteBuffer \<Rightarrow> nat \<times> WriteBuffer" where
  "wb_append buf wb =
     (let buffered = min (length buf) (wb_space wb)
      in (buffered, if 0 < buffered
            then wb\<lparr>wb_buffer := splice (wb_buffer wb) (wb_pos wb) (take buffered buf), wb_pos := wb_pos wb + buffered\<rparr>
            else wb))"

text \<open>An operation on the buffer: what it wrote stays, the position only moves when it succeeds.\<close>

definition with_buffer ::
  "(CryptoBuffer \<times> 's \<Rightarrow> (TlsError + unit) \<times> CryptoBuffer \<times> 's) \<Rightarrow> WriteBuffer \<times> 's \<Rightarrow> (TlsError + unit) \<times> WriteBuffer \<times> 's" where
  "with_buffer op = (\<lambda>(wb, s).
     case op (wrap_with_pos (wb_buffer wb) (wb_pos wb), s) of
       (Inl e, c, s) \<Rightarrow> (Inl e, wb\<lparr>wb_buffer := cb_buf c\<rparr>, s)
     | (Inr _, c, s) \<Rightarrow> (Inr (), wb\<lparr>wb_buffer := cb_buf c, wb_pos := cb_len c\<rparr>, s))"

text \<open>A writing as an operation that leaves the rest of the state, and one followed by a rewind.\<close>

definition on_buffer :: "writing \<Rightarrow> CryptoBuffer \<times> 's \<Rightarrow> (TlsError + unit) \<times> CryptoBuffer \<times> 's" where
  "on_buffer op = (\<lambda>(c, s). case op c of (r, c) \<Rightarrow> (r, c, s))"

definition then_rewind :: "(TlsError + unit) \<times> CryptoBuffer \<times> 's \<Rightarrow> (TlsError + unit) \<times> CryptoBuffer \<times> 's" where
  "then_rewind m = st_bind m (\<lambda>_ (c, s). (Inr (), cb_rewind c, s))"

definition start_record :: "ClientRecordHeader \<Rightarrow> WriteBuffer \<Rightarrow> (TlsError + unit) \<times> WriteBuffer" where
  "start_record header wb =
     (case with_buffer (\<lambda>s. then_rewind (on_buffer (\<lambda>c. st_bind (header_encode header c) (\<lambda>_ c. push_u16 0 c)) s))
        (wb\<lparr>wb_current_header := Some header\<rparr>, ()) of (r, wb, _) \<Rightarrow> (r, wb))"

text \<open>
  Encryption in place with the key and the nonce of the client. The cipher writes over the plain text
  before the tag is appended.
\<close>

definition tls_encrypt :: "tls_suite \<Rightarrow> KeyScheduleState \<Rightarrow> writing" where
  "tls_encrypt su st c =
     (let len = cb_len c + su_tag_len su
      in if cb_capacity c < len then (Inl TlsInsufficientSpace, c)
         else let additional_data = [content_type_code CtApplicationData, 0x03, 0x03] @ u16_to_be_bytes (of_nat len)
              in case su_seal su (kst_key st) (kst_get_nonce (su_crypto su) st) additional_data (cb_as_slice c) of
                   None \<Rightarrow> (Inl InvalidApplicationData, c)
                 | Some (ciphertext, tag) \<Rightarrow> st_map_err (\<lambda>_. InvalidApplicationData) (cb_extend tag (cb_replace ciphertext c)))"

definition close_payload :: "tls_suite \<Rightarrow> KeyScheduleState \<Rightarrow> ClientRecordHeader \<Rightarrow> writing" where
  "close_payload su st header c =
     (if \<not> is_encrypted header then (Inr (), c)
      else st_bind (encode_err (cb_push (content_type_code (trailer_content_type header))) c) (\<lambda>_ c.
           st_bind (tls_encrypt su st (cb_offset_to HEADER_SIZE c)) (\<lambda>_ c. (Inr (), cb_rewind c))))"

definition close_record :: "tls_suite \<Rightarrow> KeyScheduleState \<Rightarrow> WriteBuffer \<Rightarrow> ((TlsError + u8 list) \<times> WriteBuffer) option" where
  "close_record su st wb =
     (case wb_current_header wb of
        None \<Rightarrow> None
      | Some header \<Rightarrow>
          (case with_buffer (on_buffer (close_payload su st header)) (wb\<lparr>wb_current_header := None\<rparr>, ()) of
             (Inl e, wb, _) \<Rightarrow> Some (Inl e, wb)
           | (Inr _, wb, _) \<Rightarrow>
               let buffer = splice (wb_buffer wb) 3 (u16_to_be_bytes (of_nat (wb_pos wb - HEADER_SIZE)))
               in Some (Inr (take (wb_pos wb) buffer), \<lparr>wb_buffer = buffer, wb_pos = 0, wb_current_header = None\<rparr>)))"

definition write_payload ::
  "tls_suite \<Rightarrow> ClientRecord \<Rightarrow> CryptoBuffer \<times> KeySchedule \<Rightarrow> (TlsError + unit) \<times> CryptoBuffer \<times> KeySchedule" where
  "write_payload su rcd = (\<lambda>(c, ks).
     then_rewind (st_bind (on_buffer (encode_payload su rcd) (cb_forward c, ks)) (\<lambda>_ s. finish_record (su_crypto su) rcd s)))"

definition write_record ::
  "tls_suite \<Rightarrow> ClientRecord \<Rightarrow> WriteBuffer \<times> KeySchedule \<Rightarrow> ((TlsError + u8 list) \<times> WriteBuffer \<times> KeySchedule) option" where
  "write_record su rcd = (\<lambda>(wb, ks).
     if wb_current_header wb \<noteq> None then Some (Inl TlsInternalError, wb, ks)
     else case start_record (record_header rcd) wb of
       (Inl e, wb) \<Rightarrow> Some (Inl e, wb, ks)
     | (Inr _, wb) \<Rightarrow>
         (case with_buffer (write_payload su rcd) (wb, ks) of
            (Inl e, wb, ks) \<Rightarrow> Some (Inl e, wb, ks)
          | (Inr _, wb, ks) \<Rightarrow>
              map_option (\<lambda>(r, wb). (r, wb, ks)) (close_record su (ks_client ks) wb)))"

section \<open>Records of the server\<close>

text \<open>A header is its five bytes; the type was checked when it was read.\<close>

definition record_header_decode :: "u8 list \<Rightarrow> TlsError + u8 list" where
  "record_header_decode header = (case content_type_of (header ! 0) of None \<Rightarrow> Inl InvalidRecord | Some _ \<Rightarrow> Inr header)"

definition header_type :: "u8 list \<Rightarrow> ContentType option" where
  "header_type header = content_type_of (header ! 0)"

definition record_content_length :: "u8 list \<Rightarrow> nat" where
  "record_content_length header = unat (u16_from_be_bytes (header ! 3) (header ! 4))"

text \<open>Application data: the header, the place of the data in the read buffer, and the data.\<close>

record ApplicationData =
  ad_header :: "u8 list"
  ad_offset :: nat
  ad_data :: "u8 list"

datatype ServerRecord =
    SrHandshake ServerHandshake | SrChangeCipherSpec | SrAlert Alert | SrApplicationData ApplicationData

fun server_record_type :: "ServerRecord \<Rightarrow> ContentType" where
  "server_record_type (SrHandshake _) = CtHandshake"
| "server_record_type SrChangeCipherSpec = CtChangeCipherSpec"
| "server_record_type (SrAlert _) = CtAlert"
| "server_record_type (SrApplicationData _) = CtApplicationData"

text \<open>Reading a handshake message with the transcript of the key schedule.\<close>

definition handshake_read :: "tls_crypto \<Rightarrow> ParseBuffer \<Rightarrow> KeySchedule \<Rightarrow> (TlsError + ServerHandshake) \<times> ParseBuffer \<times> KeySchedule" where
  "handshake_read tc b ks =
     (case server_handshake_read (tc_hash tc) (tc_hash_len tc) b (ks_transcript_hash ks) of
        (Inl e, b) \<Rightarrow> (Inl e, b, ks)
      | (Inr (handshake, transcript), b) \<Rightarrow> (Inr handshake, b, ks\<lparr>ks_transcript_hash := transcript\<rparr>))"

definition server_record_decode ::
  "tls_crypto \<Rightarrow> u8 list \<Rightarrow> nat \<Rightarrow> u8 list \<Rightarrow> KeySchedule \<Rightarrow> ((TlsError + ServerRecord) \<times> KeySchedule) option" where
  "server_record_decode tc header offset data ks =
     (if record_content_length header \<noteq> length data then None
      else case header_type header of
        None \<Rightarrow> None
      | Some CtInvalid \<Rightarrow> Some (Inl TlsUnimplemented, ks)
      | Some CtChangeCipherSpec \<Rightarrow> Some (Inr SrChangeCipherSpec, ks)
      | Some CtAlert \<Rightarrow> Some (result_bind (fst (alert_parse (parse_buffer_new data))) (\<lambda>alert. Inr (SrAlert alert)), ks)
      | Some CtHandshake \<Rightarrow>
          (case handshake_read tc (parse_buffer_new data) ks of (r, _, ks) \<Rightarrow> Some (result_bind r (\<lambda>h. Inr (SrHandshake h)), ks))
      | Some CtApplicationData \<Rightarrow> Some (Inr (SrApplicationData \<lparr>ad_header = header, ad_offset = offset, ad_data = data\<rparr>), ks))"

section \<open>Reading records\<close>

text \<open>What the client uses of its connection; a read gives at most the bytes asked for.\<close>

record 't transport =
  tr_read :: "'t \<Rightarrow> nat \<Rightarrow> (IoErrorKind + u8 list) \<times> 't"
  tr_write_all :: "'t \<Rightarrow> u8 list \<Rightarrow> (IoErrorKind + unit) \<times> 't"
  tr_flush :: "'t \<Rightarrow> (IoErrorKind + unit) \<times> 't"

record RecordReader =
  rr_buf :: "u8 list"
  rr_decoded :: nat
  rr_pending :: nat

definition record_reader_new :: "u8 list \<Rightarrow> RecordReader" where
  "record_reader_new buf = \<lparr>rr_buf = buf, rr_decoded = 0, rr_pending = 0\<rparr>"

function header_loop :: "'t transport \<Rightarrow> nat \<Rightarrow> 't \<Rightarrow> (TlsError + u8 list) \<times> 't" where
  "header_loop tr n t =
     (if n = 0 then (Inr [], t)
      else case tr_read tr t n of
        (Inl e, t) \<Rightarrow> (Inl (TlsIo e), t)
      | (Inr bs, t) \<Rightarrow> if bs = [] then (Inl TlsIoError, t)
          else st_bind (header_loop tr (n - length bs) t) (\<lambda>rest t. (Inr (bs @ rest), t)))"
  by pat_completeness auto
termination by (relation "measure (\<lambda>(_, n, _). n)") (auto simp: length_greater_0_conv [symmetric] simp del: length_greater_0_conv)

declare header_loop.simps [simp del]

definition next_record_header :: "'t transport \<Rightarrow> 't \<Rightarrow> (TlsError + u8 list) \<times> 't" where
  "next_record_header tr t = st_bind (header_loop tr 5 t) (\<lambda>buf t. (record_header_decode buf, t))"

definition ensure_contiguous :: "nat \<Rightarrow> RecordReader \<Rightarrow> (TlsError + unit) \<times> RecordReader" where
  "ensure_contiguous len rr =
     (if length (rr_buf rr) < rr_decoded rr + len then
        if length (rr_buf rr) < len then (Inl TlsInsufficientSpace, rr)
        else (Inr (), rr\<lparr>rr_buf := splice (rr_buf rr) 0 (take (rr_pending rr) (drop (rr_decoded rr) (rr_buf rr))), rr_decoded := 0\<rparr>)
      else (Inr (), rr))"

function advance_loop ::
  "'t transport \<Rightarrow> nat \<Rightarrow> nat \<Rightarrow> RecordReader \<times> 't \<Rightarrow> ((TlsError + unit) \<times> RecordReader \<times> 't) option" where
  "advance_loop tr amount remain (rr, t) =
     (if amount \<le> rr_pending rr then Some (Inr (), rr, t)
      else if length (rr_buf rr) < rr_decoded rr + rr_pending rr + remain then None
      else case tr_read tr t remain of
        (Inl e, t) \<Rightarrow> Some (Inl (TlsIo e), rr, t)
      | (Inr bs, t) \<Rightarrow>
          if bs = [] then Some (Inl TlsIoError, rr, t)
          else advance_loop tr amount (remain - length bs)
            (rr\<lparr>rr_buf := splice (rr_buf rr) (rr_decoded rr + rr_pending rr) bs, rr_pending := rr_pending rr + length bs\<rparr>, t))"
  by pat_completeness auto
termination
  by (relation "measure (\<lambda>(_, amount, _, rr, _). amount - rr_pending rr)")
    (auto simp: length_greater_0_conv [symmetric] simp del: length_greater_0_conv intro!: diff_less_mono2)

declare advance_loop.simps [simp del]

definition rr_advance :: "'t transport \<Rightarrow> nat \<Rightarrow> RecordReader \<times> 't \<Rightarrow> ((TlsError + unit) \<times> RecordReader \<times> 't) option" where
  "rr_advance tr amount = (\<lambda>(rr, t).
     case ensure_contiguous amount rr of
       (Inl e, rr) \<Rightarrow> Some (Inl e, rr, t)
     | (Inr _, rr) \<Rightarrow> advance_loop tr amount amount (rr, t))"

definition rr_consume ::
  "tls_crypto \<Rightarrow> u8 list \<Rightarrow> RecordReader \<times> KeySchedule \<Rightarrow> ((TlsError + ServerRecord) \<times> RecordReader \<times> KeySchedule) option" where
  "rr_consume tc header = (\<lambda>(rr, ks).
     let content_len = record_content_length header; offset = rr_decoded rr
     in map_option (\<lambda>(r, ks). (r, rr\<lparr>rr_decoded := offset + content_len, rr_pending := rr_pending rr - content_len\<rparr>, ks))
          (server_record_decode tc header offset (take content_len (drop offset (rr_buf rr))) ks))"

definition rr_read ::
  "tls_crypto \<Rightarrow> 't transport \<Rightarrow> RecordReader \<times> 't \<times> KeySchedule \<Rightarrow>
   ((TlsError + ServerRecord) \<times> RecordReader \<times> 't \<times> KeySchedule) option" where
  "rr_read tc tr = (\<lambda>(rr, t, ks).
     case next_record_header tr t of
       (Inl e, t) \<Rightarrow> Some (Inl e, rr, t, ks)
     | (Inr header, t) \<Rightarrow>
         op_bind (rr_advance tr (record_content_length header) (rr, t)) (\<lambda>_ (rr, t).
           map_option (\<lambda>(r, rr, ks). (r, rr, t, ks)) (rr_consume tc header (rr, ks)))
         (\<lambda>(rr, t). (rr, t, ks)))"

section \<open>Reading a message takes bytes\<close>

text \<open>A reader that succeeds leaves the bytes alone and does not go back.\<close>

definition reads_on :: "('e, 'a) reading \<Rightarrow> bool" where
  "reads_on f \<longleftrightarrow> (\<forall>b x b'. f b = (Inr x, b') \<longrightarrow> pb_buffer b' = pb_buffer b \<and> pb_pos b \<le> pb_pos b')"

lemma reads_on_bind: "reads_on f \<Longrightarrow> (\<And>x. reads_on (g x)) \<Longrightarrow> reads_on (\<lambda>b. st_bind (f b) g)"
  unfolding reads_on_def st_bind_Inr_iff by (metis order_trans)

lemma reads_on_map_err: "reads_on f \<Longrightarrow> reads_on (\<lambda>b. st_map_err e (f b))"
  by (simp add: reads_on_def)

lemma reads_on_return: "reads_on (\<lambda>b. (r b, b))"
  by (simp add: reads_on_def)

lemma reads_on_basic: "reads_on (pb_take n)" "reads_on (pb_slice n)" "reads_on read_u8" "reads_on read_u16"
  "reads_on read_u24" "reads_on read_u32" "reads_on (pb_fill n)"
proof -
  show t: "reads_on (pb_take n)" for n by (simp add: reads_on_def pb_take_def)
  show "reads_on read_u8" by (simp add: reads_on_def read_u8_def)
  show "reads_on (pb_slice n)" "reads_on read_u16" "reads_on read_u24" "reads_on read_u32" "reads_on (pb_fill n)"
    unfolding pb_slice_def [abs_def] read_u16_def [abs_def] read_u24_def [abs_def] read_u32_def [abs_def] pb_fill_def
    by (intro reads_on_bind t reads_on_return)+
qed

lemmas reads_on_intros = reads_on_bind reads_on_map_err reads_on_return reads_on_basic

lemma reads_on_read_map: "reads_on f \<Longrightarrow> reads_on (read_map g f)"
  unfolding read_map_def [abs_def] by (intro reads_on_intros)

lemma reads_on_code_points: "reads_on signature_scheme_parse" "reads_on cipher_suite_parse"
  unfolding signature_scheme_parse_def [abs_def] cipher_suite_parse_def [abs_def] by (intro reads_on_intros)+

lemma reads_on_extensions: "reads_on (extension_vector grp n)"
  unfolding extension_vector_def [abs_def] by (intro reads_on_intros)

lemma reads_on_messages: "reads_on server_hello_parse" "reads_on new_session_ticket_parse" "reads_on encrypted_extensions_parse"
  "reads_on certificate_parse" "reads_on certificate_request_parse" "reads_on certificate_verify_parse" "reads_on (finished_parse n)"
  unfolding server_hello_parse_def [abs_def] new_session_ticket_parse_def [abs_def] encrypted_extensions_parse_def
    certificate_parse_def [abs_def] certificate_request_parse_def [abs_def] certificate_verify_parse_def [abs_def]
    finished_parse_def [abs_def] read_checked_def
  by (intro reads_on_intros reads_on_code_points reads_on_extensions reads_on_read_map)+

lemma server_handshake_parse_advances:
  assumes "server_handshake_parse n b = (Inr h, b')"
  shows "pb_buffer b' = pb_buffer b \<and> pb_pos b < pb_pos b' \<and> pb_pos b < length (pb_buffer b)"
proof -
  obtain t b1 len b2 where t: "handshake_type_parse b = (Inr t, b1)" and l: "read_u24 b1 = (Inr len, b2)"
    and m: "(case t of
         HtServerHello \<Rightarrow> read_map ShServerHello server_hello_parse b2
       | HtNewSessionTicket \<Rightarrow> read_map (\<lambda>_. ShNewSessionTicket) new_session_ticket_parse b2
       | HtEncryptedExtensions \<Rightarrow> read_map (\<lambda>_. ShEncryptedExtensions) encrypted_extensions_parse b2
       | HtCertificate \<Rightarrow> read_map ShCertificate certificate_parse b2
       | HtCertificateRequest \<Rightarrow> read_map ShCertificateRequest certificate_request_parse b2
       | HtCertificateVerify \<Rightarrow> read_map ShCertificateVerify certificate_verify_parse b2
       | HtFinished \<Rightarrow> read_map ShFinished (finished_parse n) b2
       | _ \<Rightarrow> (Inl TlsUnimplemented, b2)) = (Inr h, b')"
    using assms by (auto simp: server_handshake_parse_def st_bind_Inr_iff)
  have "pb_buffer b1 = pb_buffer b \<and> pb_pos b1 = Suc (pb_pos b) \<and> pb_pos b < length (pb_buffer b)"
    using t by (auto simp: handshake_type_parse_def st_bind_Inr_iff read_u8_def split: if_splits)
  moreover have "pb_buffer b2 = pb_buffer b1 \<and> pb_pos b1 \<le> pb_pos b2"
    using l reads_on_basic(5) by (auto simp: reads_on_def)
  moreover have "\<exists>f :: (TlsError, ServerHandshake) reading. reads_on f \<and> f b2 = (Inr h, b')"
    using m reads_on_messages by (cases t) (auto intro: reads_on_read_map)
  ultimately show ?thesis unfolding reads_on_def by (metis Suc_le_eq order_trans)
qed

lemma handshake_read_shorter:
  assumes "handshake_read tc b ks = (Inr h, b', ks')"
  shows "pb_remaining b' < pb_remaining b"
proof -
  obtain h' where "server_handshake_parse (tc_hash_len tc) b = (Inr h', b')"
    using assms by (auto simp: handshake_read_def server_handshake_read_def st_bind_Inr_iff Let_def split: sum.splits prod.splits)
  from server_handshake_parse_advances [OF this] show ?thesis
    by (auto simp: pb_remaining_def intro: diff_less_mono2)
qed

section \<open>Decryption\<close>

text \<open>
  The inner record goes to a handler. Several handshake messages may share a record, and the handler
  gets each of them.
\<close>

type_synonym 's handler = "ServerRecord \<Rightarrow> KeySchedule \<times> 's \<Rightarrow> ((TlsError + unit) \<times> KeySchedule \<times> 's) option"

lemma op_bind_cong [fundef_cong]:
  "m = m' \<Longrightarrow> (\<And>x s. m' = Some (Inr x, s) \<Longrightarrow> k x s = k' x s) \<Longrightarrow> w = w' \<Longrightarrow> op_bind m k w = op_bind m' k' w'"
  by (cases m') (auto simp: op_bind_def split: sum.splits)

function handshake_messages :: "tls_crypto \<Rightarrow> 's handler \<Rightarrow> ParseBuffer \<Rightarrow> KeySchedule \<times> 's \<Rightarrow> ((TlsError + unit) \<times> KeySchedule \<times> 's) option" where
  "handshake_messages tc cb b (ks, s) =
     (if pb_remaining b = 0 then Some (Inr (), ks, s)
      else case handshake_read tc b ks of
        (Inl e, b, ks) \<Rightarrow> Some (Inl e, ks, s)
      | (Inr inner, b, ks) \<Rightarrow> op_bind (cb (SrHandshake inner) (ks, s)) (\<lambda>_. handshake_messages tc cb b) (\<lambda>s. s))"
  by pat_completeness auto
termination by (relation "measure (\<lambda>(_, _, b, _). pb_remaining b)") (auto dest!: handshake_read_shorter [OF sym])

declare handshake_messages.simps [simp del]

text \<open>The content without its padding of zeros; data of zeros only is left as it is.\<close>

definition strip_padding :: "u8 list \<Rightarrow> u8 list" where
  "strip_padding data = (if list_all (\<lambda>b. b = 0) data then data else rev (dropWhile (\<lambda>b. b = 0) (rev data)))"

text \<open>
  \<open>decrypt_record\<close>, with the read buffer, where the plain text takes the place of the data. Without any
  plain text there is no content type, and the code panics.
\<close>

definition decrypt_record ::
  "tls_suite \<Rightarrow> 's handler \<Rightarrow> ServerRecord \<Rightarrow> u8 list \<times> KeySchedule \<times> 's \<Rightarrow>
   ((TlsError + unit) \<times> u8 list \<times> KeySchedule \<times> 's) option" where
  "decrypt_record su cb rcd = (\<lambda>(buf, ks, s).
     case rcd of
       SrApplicationData ad \<Rightarrow>
         (case su_open su (kst_key (ks_server ks)) (kst_get_nonce (su_crypto su) (ks_server ks)) (ad_header ad) (ad_data ad) of
            None \<Rightarrow> Some (Inl CryptoError, buf, ks, s)
          | Some plain \<Rightarrow>
              let buf = splice buf (ad_offset ad) plain; app_data = strip_padding plain
              in if app_data = [] then None
                 else (case content_type_of (last app_data) of
                   None \<Rightarrow> Some (Inl InvalidRecord, buf, ks, s)
                 | Some content_type \<Rightarrow>
                     let app_data = butlast app_data;
                         finish = (\<lambda>m. op_bind m (\<lambda>_ (ks, s).
                           map_option (\<lambda>st. (Inr (), buf, ks\<lparr>ks_server := st\<rparr>, s)) (increment_counter (ks_server ks))) (\<lambda>s. (buf, s)))
                     in (case content_type of
                          CtHandshake \<Rightarrow> finish (handshake_messages (su_crypto su) cb (parse_buffer_new app_data) (ks, s))
                        | CtApplicationData \<Rightarrow> finish (cb (SrApplicationData (ad\<lparr>ad_data := app_data\<rparr>)) (ks, s))
                        | CtAlert \<Rightarrow>
                            (case fst (alert_parse (parse_buffer_new app_data)) of
                               Inl e \<Rightarrow> Some (Inl e, buf, ks, s)
                             | Inr alert \<Rightarrow> finish (cb (SrAlert alert) (ks, s)))
                        | _ \<Rightarrow> Some (Inl TlsUnimplemented, buf, ks, s))))
     | _ \<Rightarrow> map_option (\<lambda>(r, s). (r, buf, s)) (cb rcd (ks, s)))"

end
