(* ===== verification/Tls_Handshake.thy ===== *)
theory Tls_Handshake
  imports Tls_Records Tls_Pki
begin

text \<open>
  The handshake of the TLS client: its states (\<open>tools/embedded-tls/src/connection.rs\<close>) and the loop
  that runs them (\<open>open\<close> of \<open>asynch.rs\<close>). The blocking variants take the same steps. Random numbers are
  inputs; a panic is \<open>None\<close>, and so is a handshake that never ends.
\<close>

section \<open>State\<close>

datatype State =
    StClientHello | StServerHello | StServerVerify | StClientCert | StClientCertVerify | StClientFinished | StApplicationData

text \<open>The transcript kept for the application keys, the ephemeral secret and the request for a certificate.\<close>

record Handshake =
  hs_traffic_hash :: "u8 list option"
  hs_secret :: "u8 list option"
  hs_certificate_request :: "u8 list option"

definition handshake_new :: Handshake where
  "handshake_new = \<lparr>hs_traffic_hash = None, hs_secret = None, hs_certificate_request = None\<rparr>"

text \<open>
  What the client brings: a verifier, if it has one (the provider without one skips all checks of
  certificates), a signer and a certificate of its own.
\<close>

record crypto_provider =
  cp_verifier :: "CertVerifier option"
  cp_signer :: "TlsError + SignatureScheme \<times> (u8 list \<Rightarrow> u8 list)"
  cp_client_cert :: "u8 list option"

datatype FlushPolicy = Relaxed | Strict

definition flush_transport_policy :: "FlushPolicy \<Rightarrow> bool" where
  "flush_transport_policy p \<longleftrightarrow> p = Strict"

record DecryptedBufferInfo =
  di_offset :: nat
  di_len :: nat
  di_consumed :: nat

record 't TlsConnection =
  tls_delegate :: 't
  tls_opened :: bool
  tls_key_schedule :: KeySchedule
  tls_record_reader :: RecordReader
  tls_write_buf :: WriteBuffer
  tls_decrypted :: DecryptedBufferInfo
  tls_flush_policy :: FlushPolicy

definition tls_connection_new :: "tls_crypto \<Rightarrow> 't \<Rightarrow> u8 list \<Rightarrow> u8 list \<Rightarrow> 't TlsConnection" where
  "tls_connection_new tc delegate record_read_buf record_write_buf =
     \<lparr>tls_delegate = delegate, tls_opened = False, tls_key_schedule = key_schedule_new tc,
      tls_record_reader = record_reader_new record_read_buf, tls_write_buf = write_buffer_new record_write_buf,
      tls_decrypted = \<lparr>di_offset = 0, di_len = 0, di_consumed = 0\<rparr>, tls_flush_policy = Strict\<rparr>"

text \<open>Records of the connection, written into its buffer and read from its transport.\<close>

definition con_write_record :: "tls_suite \<Rightarrow> ClientRecord \<Rightarrow> 't TlsConnection \<Rightarrow> ((TlsError + u8 list) \<times> 't TlsConnection) option" where
  "con_write_record su rcd con =
     map_option (\<lambda>(r, wb, ks). (r, con\<lparr>tls_write_buf := wb, tls_key_schedule := ks\<rparr>))
       (write_record su rcd (tls_write_buf con, tls_key_schedule con))"

definition con_read_record ::
  "tls_crypto \<Rightarrow> 't transport \<Rightarrow> 't TlsConnection \<Rightarrow> ((TlsError + ServerRecord) \<times> 't TlsConnection) option" where
  "con_read_record tc tr con =
     map_option (\<lambda>(r, rr, t, ks). (r, con\<lparr>tls_record_reader := rr, tls_delegate := t, tls_key_schedule := ks\<rparr>))
       (rr_read tc tr (tls_record_reader con, tls_delegate con, tls_key_schedule con))"

definition count_sent :: "KeySchedule \<Rightarrow> KeySchedule option" where
  "count_sent ks = map_option (\<lambda>st. ks\<lparr>ks_client := st\<rparr>) (increment_counter (ks_client ks))"

definition con_flush :: "'t transport \<Rightarrow> 't TlsConnection \<Rightarrow> (TlsError + unit) \<times> 't TlsConnection" where
  "con_flush tr con = (case tr_flush tr (tls_delegate con) of (r, t) \<Rightarrow> (result_map_err TlsIo r, con\<lparr>tls_delegate := t\<rparr>))"

definition respond :: "'t transport \<Rightarrow> u8 list \<Rightarrow> 't TlsConnection \<Rightarrow> ((TlsError + unit) \<times> 't TlsConnection) option" where
  "respond tr tx con =
     (case tr_write_all tr (tls_delegate con) tx of
        (Inl e, t) \<Rightarrow> Some (Inl (TlsIo e), con\<lparr>tls_delegate := t\<rparr>)
      | (Inr _, t) \<Rightarrow>
          map_option (\<lambda>ks. con_flush tr (con\<lparr>tls_delegate := t, tls_key_schedule := ks\<rparr>)) (count_sent (tls_key_schedule con)))"

section \<open>The hello messages\<close>

text \<open>The random number and the ephemeral secret are inputs.\<close>

definition client_hello ::
  "tls_suite \<Rightarrow> TlsConfig \<Rightarrow> u8 list \<Rightarrow> u8 list \<Rightarrow> 't TlsConnection \<times> Handshake \<Rightarrow>
   ((TlsError + State \<times> u8 list) \<times> 't TlsConnection \<times> Handshake) option" where
  "client_hello su config random secret = (\<lambda>(con, hs).
     case initialize_early_secret (su_crypto su) (map_option fst (cfg_psk config)) (tls_key_schedule con) of
       (Inl e, ks) \<Rightarrow> Some (Inl e, con\<lparr>tls_key_schedule := ks\<rparr>, hs)
     | (Inr _, ks) \<Rightarrow>
         op_bind (con_write_record su (record_client_hello config random secret) (con\<lparr>tls_key_schedule := ks\<rparr>))
           (\<lambda>slice con. Some (Inr (StServerHello, slice), con, hs\<lparr>hs_secret := Some secret\<rparr>)) (\<lambda>con. (con, hs)))"

definition calculate_shared_secret :: "tls_suite \<Rightarrow> u8 list \<Rightarrow> ServerHelloExtension list \<Rightarrow> u8 list option" where
  "calculate_shared_secret su secret server_hello =
     Option.bind (key_share server_hello) (\<lambda>server_key_share. su_diffie_hellman su secret (ks_opaque server_key_share))"

definition process_server_hello ::
  "tls_suite \<Rightarrow> ServerRecord \<Rightarrow> KeySchedule \<times> Handshake \<Rightarrow> (TlsError + State) \<times> KeySchedule \<times> Handshake" where
  "process_server_hello su rcd = (\<lambda>(ks, hs).
     case rcd of
       SrHandshake (ShServerHello server_hello) \<Rightarrow>
         (case hs_secret hs of
            None \<Rightarrow> (Inl InvalidHandshake, ks, hs)
          | Some secret \<Rightarrow>
              let hs = hs\<lparr>hs_secret := None\<rparr>
              in (case calculate_shared_secret su secret server_hello of
                   None \<Rightarrow> (Inl InvalidKeyShare, ks, hs)
                 | Some shared \<Rightarrow>
                     (case initialize_handshake_secret (su_crypto su) shared ks of
                        (Inl e, ks) \<Rightarrow> (Inl e, ks, hs) | (Inr _, ks) \<Rightarrow> (Inr StServerVerify, ks, hs))))
     | SrHandshake _ \<Rightarrow> (Inl InvalidHandshake, ks, hs)
     | SrAlert alert \<Rightarrow> (Inl (HandshakeAborted (al_level alert) (al_description alert)), ks, hs)
     | _ \<Rightarrow> (Inl InvalidRecord, ks, hs))"

section \<open>The messages of the server\<close>

type_synonym verifying = "State \<times> Handshake \<times> CertVerifier option"

text \<open>A check of the verifier, or nothing when there is none.\<close>

definition check_with ::
  "(CertVerifier \<Rightarrow> ((TlsError + unit) \<times> CertVerifier) option) \<Rightarrow> KeySchedule \<times> verifying \<Rightarrow>
   ((TlsError + unit) \<times> KeySchedule \<times> verifying) option" where
  "check_with op = (\<lambda>(ks, st, hs, verifier).
     case verifier of
       None \<Rightarrow> Some (Inr (), ks, st, hs, None)
     | Some v \<Rightarrow> map_option (\<lambda>(r, v). (r, ks, st, hs, Some v)) (op v))"

definition server_finished :: "tls_crypto \<Rightarrow> Finished \<Rightarrow> KeySchedule \<times> verifying \<Rightarrow> (TlsError + unit) \<times> KeySchedule \<times> verifying" where
  "server_finished tc finished = (\<lambda>(ks, st, hs, verifier).
     case verify_server_finished tc ks finished of
       Inl e \<Rightarrow> (Inl e, ks, st, hs, verifier)
     | Inr ok \<Rightarrow>
         if \<not> ok then (Inl TlsInvalidSignature, ks, st, hs, verifier)
         else if hs_certificate_request hs \<noteq> None then (Inr (), ks, StClientCert, hs, verifier)
         else (Inr (), ks, StClientFinished, hs\<lparr>hs_traffic_hash := Some (ks_transcript_hash ks)\<rparr>, verifier))"

fun server_verify_handler :: "tls_suite \<Rightarrow> pki_lib \<Rightarrow> verifying handler" where
  "server_verify_handler su lib (SrHandshake ShEncryptedExtensions) s = Some (Inr (), s)"
| "server_verify_handler su lib (SrHandshake (ShCertificate certificate)) s =
     check_with (\<lambda>v. Some (verifier_verify_certificate lib (ks_transcript_hash (fst s)) certificate v)) s"
| "server_verify_handler su lib (SrHandshake (ShCertificateVerify verify)) s =
     check_with (verifier_verify_signature lib (tc_hash (su_crypto su)) verify) s"
| "server_verify_handler su lib (SrHandshake (ShCertificateRequest request)) (ks, st, hs, verifier) =
     Some (case owned_certificate_request request of
       Inl e \<Rightarrow> (Inl e, ks, st, hs, verifier)
     | Inr r \<Rightarrow> (Inr (), ks, st, hs\<lparr>hs_certificate_request := Some r\<rparr>, verifier))"
| "server_verify_handler su lib (SrHandshake (ShFinished finished)) s = Some (server_finished (su_crypto su) finished s)"
| "server_verify_handler su lib (SrHandshake _) s = Some (Inl InvalidHandshake, s)"
| "server_verify_handler su lib SrChangeCipherSpec s = Some (Inr (), s)"
| "server_verify_handler su lib _ s = Some (Inl InvalidRecord, s)"

definition process_server_verify ::
  "tls_suite \<Rightarrow> pki_lib \<Rightarrow> ServerRecord \<Rightarrow> u8 list \<times> KeySchedule \<times> Handshake \<times> CertVerifier option \<Rightarrow>
   ((TlsError + State) \<times> u8 list \<times> KeySchedule \<times> Handshake \<times> CertVerifier option) option" where
  "process_server_verify su lib rcd = (\<lambda>(buf, ks, hs, verifier).
     op_bind (decrypt_record su (server_verify_handler su lib) rcd (buf, ks, StServerVerify, hs, verifier))
       (\<lambda>_ (buf, ks, st, hs, verifier). Some (Inr st, buf, ks, hs, verifier))
       (\<lambda>(buf, ks, _, hs, verifier). (buf, ks, hs, verifier)))"

section \<open>The answers of the client\<close>

definition client_cert ::
  "tls_suite \<Rightarrow> crypto_provider \<Rightarrow> 't TlsConnection \<times> Handshake \<Rightarrow>
   ((TlsError + State \<times> u8 list) \<times> 't TlsConnection \<times> Handshake) option" where
  "client_cert su provider = (\<lambda>(con, hs).
     let hs = hs\<lparr>hs_traffic_hash := Some (ks_transcript_hash (tls_key_schedule con))\<rparr>
     in case hs_certificate_request hs of
          None \<Rightarrow> Some (Inl InvalidHandshake, con, hs)
        | Some request_context \<Rightarrow>
            let (certs, next_state) = (case cp_client_cert provider of
                  Some cert \<Rightarrow> ([cert], StClientCertVerify) | None \<Rightarrow> ([], StClientFinished))
            in op_bind (con_write_record su (CrHandshake (ChClientCert request_context certs) True) con)
                 (\<lambda>slice con. Some (Inr (next_state, slice), con, hs)) (\<lambda>con. (con, hs)))"

definition SIGNATURE_SIZE :: nat where [const_defs]: "SIGNATURE_SIZE = 104"

definition CLIENT_CONTEXT :: "u8 list" where
  "CLIENT_CONTEXT = map of_char ''TLS 1.3, client CertificateVerify'' @ [0]"

text \<open>Without a signer the client sends an alert and fails with the error of the signer afterwards.\<close>

definition client_cert_verify ::
  "tls_suite \<Rightarrow> crypto_provider \<Rightarrow> 't TlsConnection \<Rightarrow>
   ((TlsError + (TlsError + State) \<times> u8 list) \<times> 't TlsConnection) option" where
  "client_cert_verify su provider con =
     (case cp_signer provider of
        Inl e \<Rightarrow>
          op_bind (con_write_record su (CrAlert \<lparr>al_level = AlertWarning, al_description = CloseNotify\<rparr> True) con)
            (\<lambda>slice con. Some (Inr (Inl e, slice), con)) (\<lambda>con. con)
      | Inr (scheme, sign) \<Rightarrow>
          let msg = replicate 64 0x20 @ CLIENT_CONTEXT @ tc_hash (su_crypto su) (ks_transcript_hash (tls_key_schedule con));
              signature = sign msg
          in if 146 < length msg then Some (Inl EncodeError, con)
             else if SIGNATURE_SIZE < length signature then None
             else op_bind (con_write_record su (CrHandshake (ChClientCertVerify
                    \<lparr>cv_signature_scheme = scheme, cv_signature = signature\<rparr>) True) con)
                  (\<lambda>slice con. Some (Inr (Inr StClientFinished, slice), con)) (\<lambda>con. con))"

definition client_finished :: "tls_suite \<Rightarrow> 't TlsConnection \<Rightarrow> ((TlsError + u8 list) \<times> 't TlsConnection) option" where
  "client_finished su con =
     (case create_client_finished (su_crypto su) (tls_key_schedule con) of
        Inl _ \<Rightarrow> Some (Inl InvalidHandshake, con)
      | Inr finished \<Rightarrow> con_write_record su (CrHandshake (ChFinished finished) True) con)"

definition client_finished_finalize :: "tls_crypto \<Rightarrow> KeySchedule \<times> Handshake \<Rightarrow> (TlsError + State) \<times> KeySchedule \<times> Handshake" where
  "client_finished_finalize tc = (\<lambda>(ks, hs).
     case hs_traffic_hash hs of
       None \<Rightarrow> (Inl InvalidHandshake, ks, hs)
     | Some transcript \<Rightarrow>
         (case initialize_master_secret tc (ks\<lparr>ks_transcript_hash := transcript\<rparr>) of
            (r, ks) \<Rightarrow> (result_bind r (\<lambda>_. Inr StApplicationData), ks, hs\<lparr>hs_traffic_hash := None\<rparr>)))"

section \<open>The states in turn\<close>

type_synonym 't open_state = "'t TlsConnection \<times> Handshake \<times> crypto_provider"

text \<open>An error that aborts the handshake is told to the server, in a record that is not encrypted.\<close>

definition handle_processing_error ::
  "tls_suite \<Rightarrow> 't transport \<Rightarrow> TlsError + State \<Rightarrow> 't TlsConnection \<Rightarrow> ((TlsError + State) \<times> 't TlsConnection) option" where
  "handle_processing_error su tr result con =
     (case result of
        Inl (AbortHandshake level description) \<Rightarrow>
          op_bind (con_write_record su (CrAlert \<lparr>al_level = level, al_description = description\<rparr> False) con)
            (\<lambda>tx con. op_bind (respond tr tx con) (\<lambda>_ con. Some (result, con)) (\<lambda>con. con)) (\<lambda>con. con)
      | _ \<Rightarrow> Some (result, con))"

text \<open>A record was prepared with the next state; it is sent, and that state is next.\<close>

definition send_step ::
  "'t transport \<Rightarrow> ((TlsError + State \<times> u8 list) \<times> 't TlsConnection \<times> Handshake) option \<Rightarrow> crypto_provider \<Rightarrow>
   ((TlsError + State) \<times> 't open_state) option" where
  "send_step tr prepared provider =
     op_bind prepared (\<lambda>(st, tx) (con, hs).
       op_bind (respond tr tx con) (\<lambda>_ con. Some (Inr st, con, hs, provider)) (\<lambda>con. (con, hs, provider)))
     (\<lambda>(con, hs). (con, hs, provider))"

definition process ::
  "tls_suite \<Rightarrow> pki_lib \<Rightarrow> 't transport \<Rightarrow> TlsConfig \<Rightarrow> u8 list \<Rightarrow> u8 list \<Rightarrow> State \<Rightarrow> 't open_state \<Rightarrow>
   ((TlsError + State) \<times> 't open_state) option" where
  "process su lib tr config random secret st = (\<lambda>(con, hs, provider).
     case st of
       StClientHello \<Rightarrow> send_step tr (client_hello su config random secret (con, hs)) provider
     | StServerHello \<Rightarrow>
         op_bind (con_read_record (su_crypto su) tr con) (\<lambda>rcd con.
           case process_server_hello su rcd (tls_key_schedule con, hs) of
             (result, ks, hs) \<Rightarrow>
               map_option (\<lambda>(r, con). (r, con, hs, provider)) (handle_processing_error su tr result (con\<lparr>tls_key_schedule := ks\<rparr>)))
         (\<lambda>con. (con, hs, provider))
     | StServerVerify \<Rightarrow>
         op_bind (con_read_record (su_crypto su) tr con) (\<lambda>rcd con.
           Option.bind (process_server_verify su lib rcd
               (rr_buf (tls_record_reader con), tls_key_schedule con, hs, cp_verifier provider)) (\<lambda>(result, buf, ks, hs, verifier).
             map_option (\<lambda>(r, con). (r, con, hs, provider\<lparr>cp_verifier := verifier\<rparr>))
               (handle_processing_error su tr result
                 (con\<lparr>tls_key_schedule := ks, tls_record_reader := tls_record_reader con\<lparr>rr_buf := buf\<rparr>\<rparr>))))
         (\<lambda>con. (con, hs, provider))
     | StClientCert \<Rightarrow> send_step tr (client_cert su provider (con, hs)) provider
     | StClientCertVerify \<Rightarrow>
         op_bind (client_cert_verify su provider con) (\<lambda>(result, tx) con.
           op_bind (respond tr tx con) (\<lambda>_ con. Some (result, con, hs, provider)) (\<lambda>con. (con, hs, provider)))
         (\<lambda>con. (con, hs, provider))
     | StClientFinished \<Rightarrow>
         op_bind (client_finished su con) (\<lambda>tx con.
           op_bind (respond tr tx con) (\<lambda>_ con.
             case client_finished_finalize (su_crypto su) (tls_key_schedule con, hs) of
               (r, ks, hs) \<Rightarrow> Some (r, con\<lparr>tls_key_schedule := ks\<rparr>, hs, provider)) (\<lambda>con. (con, hs, provider)))
         (\<lambda>con. (con, hs, provider))
     | StApplicationData \<Rightarrow> Some (Inr StApplicationData, con, hs, provider))"

partial_function (option) open_loop ::
  "tls_suite \<Rightarrow> pki_lib \<Rightarrow> 't transport \<Rightarrow> TlsConfig \<Rightarrow> u8 list \<Rightarrow> u8 list \<Rightarrow> State \<Rightarrow> 't open_state \<Rightarrow>
   ((TlsError + unit) \<times> 't open_state) option" where
  "open_loop su lib tr config random secret st s =
     (if st = StApplicationData then Some (Inr (), s)
      else Option.bind (process su lib tr config random secret st s) (\<lambda>(r, s).
        case r of Inl e \<Rightarrow> Some (Inl e, s) | Inr next_state \<Rightarrow> open_loop su lib tr config random secret next_state s))"

definition tls_open ::
  "tls_suite \<Rightarrow> pki_lib \<Rightarrow> 't transport \<Rightarrow> TlsConfig \<Rightarrow> u8 list \<Rightarrow> u8 list \<Rightarrow> 't TlsConnection \<times> crypto_provider \<Rightarrow>
   ((TlsError + unit) \<times> 't TlsConnection \<times> crypto_provider) option" where
  "tls_open su lib tr config random secret = (\<lambda>(con, provider).
     let (checked, verifier) = (case (cp_verifier provider, cfg_server_name config) of
           (Some v, Some server_name) \<Rightarrow> (case set_hostname_verification server_name v of (r, v) \<Rightarrow> (r, Some v))
         | _ \<Rightarrow> (Inr (), cp_verifier provider));
         provider = provider\<lparr>cp_verifier := verifier\<rparr>
     in case checked of
          Inl e \<Rightarrow> Some (Inl e, con, provider)
        | Inr _ \<Rightarrow>
            op_bind (open_loop su lib tr config random secret StClientHello (con, handshake_new, provider))
              (\<lambda>_ (con, hs, provider). Some (Inr (), con\<lparr>tls_opened := True\<rparr>, provider))
              (\<lambda>(con, hs, provider). (con, provider)))"

end
