(* ===== verification/Tls_Opening.thy ===== *)
theory Tls_Opening
  imports Tls_Handshake
begin

text \<open>
  What an open connection of the TLS client rests on: the exchange of keys and the \<open>Finished\<close> message
  of the server, over the transcript the application keys come from; and what it does not rest on.
\<close>

section \<open>What reading leaves alone\<close>

lemma handshake_read_ks:
  "handshake_read tc b ks = (Inr h, b', ks') \<Longrightarrow> \<exists>bs. ks' = ks\<lparr>ks_transcript_hash := ks_transcript_hash ks @ bs\<rparr>"
  by (auto simp: handshake_read_def server_handshake_read_def st_bind_Inr_iff Let_def split: sum.splits prod.splits)

text \<open>A \<open>Finished\<close> message that was just read is at the end of the transcript and has the hash of what came before.\<close>

definition just_read :: "tls_crypto \<Rightarrow> KeySchedule \<Rightarrow> ServerRecord \<Rightarrow> bool" where
  "just_read tc ks rcd \<longleftrightarrow> (\<forall>f. rcd = SrHandshake (ShFinished f) \<longrightarrow>
     (\<exists>before len. length len = 3 \<and> ks_transcript_hash ks = before @ [20] @ len @ fin_verify f \<and>
       fin_hash f = Some (tc_hash tc before)))"

lemma pb_take_slice: "pb_take n b = (Inr bs, b') \<Longrightarrow>
  b' = b\<lparr>pb_pos := pb_pos b + n\<rparr> \<and> length bs = n \<and> drop (pb_pos b) (pb_buffer b) = bs @ drop (pb_pos b + n) (pb_buffer b)"
  by (auto simp: pb_take_def split: if_splits) (metis append_take_drop_id drop_drop add.commute)

lemma finished_message:
  assumes "server_handshake_parse n b = (Inr (ShFinished f), b')"
  shows "fin_hash f = None \<and> (\<exists>len. length len = 3 \<and>
    take (pb_pos b' - pb_pos b) (drop (pb_pos b) (pb_buffer b')) = [20] @ len @ fin_verify f)"
proof -
  obtain t b1 len b2 where t: "handshake_type_parse b = (Inr t, b1)" and l: "read_u24 b1 = (Inr len, b2)"
    and m: "(case t of
         HtServerHello \<Rightarrow> read_map ShServerHello server_hello_parse b2
       | HtNewSessionTicket \<Rightarrow> read_map (\<lambda>_. ShNewSessionTicket) new_session_ticket_parse b2
       | HtEncryptedExtensions \<Rightarrow> read_map (\<lambda>_. ShEncryptedExtensions) encrypted_extensions_parse b2
       | HtCertificate \<Rightarrow> read_map ShCertificate certificate_parse b2
       | HtCertificateRequest \<Rightarrow> read_map ShCertificateRequest certificate_request_parse b2
       | HtCertificateVerify \<Rightarrow> read_map ShCertificateVerify certificate_verify_parse b2
       | HtFinished \<Rightarrow> read_map ShFinished (finished_parse n) b2
       | _ \<Rightarrow> (Inl TlsUnimplemented, b2)) = (Inr (ShFinished f), b')"
    using assms by (auto simp: server_handshake_parse_def st_bind_Inr_iff)
  from m have "t = HtFinished" by (cases t) (auto simp: read_map_def st_bind_Inr_iff)
  with m have v: "pb_take n b2 = (Inr (fin_verify f), b')" "fin_hash f = None"
    by (auto simp: read_map_def finished_parse_def pb_fill_def st_bind_Inr_iff)
  from l obtain ls where ls: "pb_take 3 b1 = (Inr ls, b2)" by (auto simp: read_u24_def st_bind_Inr_iff)
  from t \<open>t = HtFinished\<close> have b1: "b1 = b\<lparr>pb_pos := pb_pos b + 1\<rparr>" "pb_buffer b ! pb_pos b = 20" "pb_pos b < length (pb_buffer b)"
    by (auto simp: handshake_type_parse_def st_bind_Inr_iff read_u8_def split: if_splits option.splits)
  have "drop (pb_pos b) (pb_buffer b) = 20 # drop (pb_pos b + 1) (pb_buffer b)"
    using b1(2,3) by (metis Cons_nth_drop_Suc Suc_eq_plus1)
  with pb_take_slice [OF ls] pb_take_slice [OF v(1)] b1(1)
  have d: "drop (pb_pos b) (pb_buffer b) = 20 # ls @ fin_verify f @ drop (pb_pos b') (pb_buffer b)"
    and p: "pb_buffer b' = pb_buffer b" "pb_pos b' - pb_pos b = Suc (3 + length (fin_verify f))" "length ls = 3"
    by auto
  have "take (length (20 # ls @ fin_verify f)) ((20 # ls @ fin_verify f) @ drop (pb_pos b') (pb_buffer b)) = 20 # ls @ fin_verify f"
    by (simp only: append_eq_conv_conj [THEN iffD1, OF refl, THEN conjunct1, symmetric])
  then have "take (pb_pos b' - pb_pos b) (drop (pb_pos b) (pb_buffer b')) = 20 # ls @ fin_verify f"
    unfolding p d using p(3) by simp
  with v(2) p(3) show ?thesis by auto
qed

lemma handshake_read_fresh:
  assumes "handshake_read tc b ks = (Inr h, b', ks')"
  shows "just_read tc ks' (SrHandshake h)"
proof -
  obtain h' where h: "server_handshake_parse (tc_hash_len tc) b = (Inr h', b')"
    "h = (case h' of ShFinished f \<Rightarrow> ShFinished (f\<lparr>fin_hash := Some (tc_hash tc (ks_transcript_hash ks))\<rparr>) | h \<Rightarrow> h)"
    "ks' = ks\<lparr>ks_transcript_hash := ks_transcript_hash ks @ take (pb_pos b' - pb_pos b) (drop (pb_pos b) (pb_buffer b'))\<rparr>"
    using assms by (auto simp: handshake_read_def server_handshake_read_def st_bind_Inr_iff Let_def split: sum.splits prod.splits)
  show ?thesis
  proof (cases h')
    case (ShFinished f)
    then show ?thesis using h finished_message [of "tc_hash_len tc" b f b'] by (auto simp: just_read_def)
  qed (use h in \<open>auto simp: just_read_def\<close>)
qed

lemma rr_read_ks:
  assumes "rr_read tc tr (rr, t, ks) = Some (Inr rcd, rr', t', ks')"
  shows "ks_server ks' = ks_server ks \<and> just_read tc ks' rcd"
proof -
  obtain header rr1 rr2 where c: "rr_consume tc header (rr1, ks) = Some (Inr rcd, rr2, ks')"
    using assms by (auto simp: rr_read_def op_bind_Inr_iff split: sum.splits prod.splits)
  then obtain off data where "server_record_decode tc header off data ks = Some (Inr rcd, ks')"
    by (auto simp: rr_consume_def Let_def)
  then show ?thesis
    by (auto simp: server_record_decode_def just_read_def result_bind_Inr_iff split: if_splits option.splits ContentType.splits prod.splits
        dest: handshake_read_ks handshake_read_fresh)
qed

section \<open>Invariants of a decrypted record\<close>

lemma handshake_messages_invariant:
  assumes step: "\<And>h ks s ks' s'. I ks s \<Longrightarrow> just_read tc ks (SrHandshake h) \<Longrightarrow>
      cb (SrHandshake h) (ks, s) = Some (Inr (), ks', s') \<Longrightarrow> I ks' s'"
    and read: "\<And>ks s bs. I ks s \<Longrightarrow> I (ks\<lparr>ks_transcript_hash := ks_transcript_hash ks @ bs\<rparr>) s"
  shows "handshake_messages tc cb b (ks, s) = Some (Inr (), ks', s') \<Longrightarrow> I ks s \<Longrightarrow> I ks' s'"
proof (induction "pb_remaining b" arbitrary: b ks s rule: less_induct)
  case less
  show ?case
  proof (cases "pb_remaining b = 0")
    case True
    with less.prems show ?thesis by (simp add: handshake_messages.simps)
  next
    case False
    with less.prems(1) obtain h b1 ks1 ks2 s2 where h: "handshake_read tc b ks = (Inr h, b1, ks1)"
      "cb (SrHandshake h) (ks1, s) = Some (Inr (), ks2, s2)" "handshake_messages tc cb b1 (ks2, s2) = Some (Inr (), ks', s')"
      by (subst (asm) handshake_messages.simps) (auto simp: op_bind_Inr_iff split: sum.splits prod.splits)
    have "I ks1 s" using handshake_read_ks [OF h(1)] read [OF less.prems(2)] by auto
    then have "I ks2 s2" using step handshake_read_fresh [OF h(1)] h(2) by blast
    with less.hyps [OF handshake_read_shorter [OF h(1)] h(3)] show ?thesis by simp
  qed
qed

lemma decrypt_record_invariant:
  assumes step: "\<And>r ks s ks' s'. I ks s \<Longrightarrow> just_read (su_crypto su) ks r \<Longrightarrow> cb r (ks, s) = Some (Inr (), ks', s') \<Longrightarrow> I ks' s'"
    and read: "\<And>ks s bs. I ks s \<Longrightarrow> I (ks\<lparr>ks_transcript_hash := ks_transcript_hash ks @ bs\<rparr>) s"
    and count: "\<And>ks s st. I ks s \<Longrightarrow> increment_counter (ks_server ks) = Some st \<Longrightarrow> I (ks\<lparr>ks_server := st\<rparr>) s"
    and run: "decrypt_record su cb rcd (buf, ks, s) = Some (Inr (), buf', ks', s')" "just_read (su_crypto su) ks rcd" "I ks s"
  shows "I ks' s'"
proof (cases rcd)
  case (SrApplicationData ad)
  let ?f = "\<lambda>m. op_bind m (\<lambda>_ (ks, s). map_option (\<lambda>st. (Inr (), buf', ks\<lparr>ks_server := st\<rparr>, s)) (increment_counter (ks_server ks)))
    (\<lambda>s. (buf', s)) = Some (Inr (), buf', ks', s')"
  have "\<exists>m. ?f m \<and> (\<exists>d a. m = handshake_messages (su_crypto su) cb (parse_buffer_new d) (ks, s) \<or>
    m = cb (SrApplicationData (ad\<lparr>ad_data := d\<rparr>)) (ks, s) \<or> m = cb (SrAlert a) (ks, s))"
    using run(1) SrApplicationData
    by (auto simp: decrypt_record_def Let_def op_bind_Inr_iff split: option.splits if_splits ContentType.splits sum.splits)
  then obtain m d a where m: "?f m" "m = handshake_messages (su_crypto su) cb (parse_buffer_new d) (ks, s) \<or>
    m = cb (SrApplicationData (ad\<lparr>ad_data := d\<rparr>)) (ks, s) \<or> m = cb (SrAlert a) (ks, s)" by blast
  from m(1) obtain ks1 s1 where s: "m = Some (Inr (), ks1, s1)"
    "map_option (\<lambda>st. (Inr () :: TlsError + unit, buf', ks1\<lparr>ks_server := st\<rparr>, s1)) (increment_counter (ks_server ks1)) =
      Some (Inr (), buf', ks', s')"
    by (auto simp: op_bind_Inr_iff)
  consider (messages) "handshake_messages (su_crypto su) cb (parse_buffer_new d) (ks, s) = Some (Inr (), ks1, s1)"
    | (other) r where "cb r (ks, s) = Some (Inr (), ks1, s1)" "just_read (su_crypto su) ks r"
    using m(2) s(1) by (auto simp: just_read_def)
  then have "I ks1 s1"
  proof cases
    case messages
    show ?thesis by (rule handshake_messages_invariant [where I = I, OF _ _ messages run(3)]) (use step read in blast)+
  next
    case other
    with step run(3) show ?thesis by blast
  qed
  with s(2) count show ?thesis by auto
next
  case (SrHandshake h)
  with run step show ?thesis by (auto simp: decrypt_record_def)
qed (use run step in \<open>auto simp: decrypt_record_def\<close>)

section \<open>The MAC of the server\<close>

text \<open>
  A transcript is covered by a traffic secret when it holds a \<open>Finished\<close> message whose body is the MAC,
  under the key for it derived from the secret, of the hash of everything before that message.
\<close>

definition finished_covers :: "tls_crypto \<Rightarrow> Secret \<Rightarrow> u8 list \<Rightarrow> bool" where
  "finished_covers tc secret transcript \<longleftrightarrow> (\<exists>before len key rest. length len = 3 \<and>
     make_expanded_hkdf_label tc secret (tc_hash_len tc) (ascii_bytes ''finished'') NoContext = Inr key \<and>
     transcript = before @ [20] @ len @ tc_hmac tc key (tc_hash tc before) @ rest)"

lemma finished_covers_append: "finished_covers tc secret t \<Longrightarrow> finished_covers tc secret (t @ rest)"
  unfolding finished_covers_def by (metis append.assoc)

lemma verified_covers:
  assumes "verify_server_finished tc ks f = Inr True" "just_read tc ks (SrHandshake (ShFinished f))"
  shows "finished_covers tc (kst_traffic_secret (ks_server ks)) (ks_transcript_hash ks)"
proof -
  obtain before len where b: "length len = 3" "ks_transcript_hash ks = before @ [20] @ len @ fin_verify f"
    "fin_hash f = Some (tc_hash tc before)" using assms(2) by (auto simp: just_read_def)
  with assms(1) obtain key where
    "make_expanded_hkdf_label tc (kst_traffic_secret (ks_server ks)) (tc_hash_len tc) (ascii_bytes ''finished'') NoContext = Inr key"
    "tc_hmac tc key (tc_hash tc before) = fin_verify f"
    by (auto simp: verify_server_finished_def result_bind_Inr_iff)
  with b show ?thesis unfolding finished_covers_def by (metis append_Nil2)
qed

text \<open>Where the client stands while it reads the messages of the server.\<close>

fun covered :: "tls_crypto \<Rightarrow> Secret \<Rightarrow> KeySchedule \<Rightarrow> verifying \<Rightarrow> bool" where
  "covered tc secret ks (st, hs, verifier) \<longleftrightarrow> kst_traffic_secret (ks_server ks) = secret \<and>
     (st = StServerVerify \<or> st = StClientCert \<and> finished_covers tc secret (ks_transcript_hash ks) \<or>
      st = StClientFinished \<and> (\<exists>t. hs_traffic_hash hs = Some t \<and> finished_covers tc secret t))"

lemma handler_keeps_covered:
  assumes "covered (su_crypto su) secret ks v" "just_read (su_crypto su) ks r"
    and "server_verify_handler su lib r (ks, v) = Some (Inr (), ks', v')"
  shows "covered (su_crypto su) secret ks' v'"
proof -
  obtain st hs verifier where v: "v = (st, hs, verifier)" by (cases v)
  show ?thesis
  proof (cases "\<exists>f. r = SrHandshake (ShFinished f)")
    case True
    then obtain f where r: "r = SrHandshake (ShFinished f)" by blast
    with assms(3) v have "verify_server_finished (su_crypto su) ks f = Inr True"
      by (auto simp: server_finished_def split: sum.splits if_splits)
    from verified_covers [OF this] assms r v show ?thesis
      by (auto simp: server_finished_def split: sum.splits if_splits)
  next
    case False
    with assms v show ?thesis
      by (cases "(su, lib, r, ks, st, hs, verifier)" rule: server_verify_handler.cases)
        (auto simp: check_with_def split: option.splits sum.splits prod.splits)
  qed
qed

lemma process_server_verify_covered:
  assumes "process_server_verify su lib rcd (buf, ks, hs, verifier) = Some (Inr st, buf', ks', hs', verifier')"
    and "just_read (su_crypto su) ks rcd"
  shows "covered (su_crypto su) (kst_traffic_secret (ks_server ks)) ks' (st, hs', verifier')"
proof -
  from assms(1) have run: "decrypt_record su (server_verify_handler su lib) rcd (buf, ks, StServerVerify, hs, verifier) =
      Some (Inr (), buf', ks', st, hs', verifier')"
    by (auto simp: process_server_verify_def op_bind_Inr_iff)
  show ?thesis
  proof (rule decrypt_record_invariant [OF _ _ _ run assms(2),
        where I = "covered (su_crypto su) (kst_traffic_secret (ks_server ks))"])
    show "covered (su_crypto su) (kst_traffic_secret (ks_server ks)) (k\<lparr>ks_transcript_hash := ks_transcript_hash k @ bs\<rparr>) s"
      if "covered (su_crypto su) (kst_traffic_secret (ks_server ks)) k s" for k s bs
      using that by (cases s) (auto intro: finished_covers_append)
    show "covered (su_crypto su) (kst_traffic_secret (ks_server ks)) (k\<lparr>ks_server := x\<rparr>) s"
      if "covered (su_crypto su) (kst_traffic_secret (ks_server ks)) k s" "increment_counter (ks_server k) = Some x" for k s x
      using that by (cases s) (auto simp: increment_counter_def split: if_splits)
  qed (auto intro: handler_keeps_covered)
qed

section \<open>The states of the handshake\<close>

text \<open>The traffic secret of the server after an exchange of keys with the ephemeral secret of the client.\<close>

definition exchanged :: "tls_suite \<Rightarrow> u8 list \<Rightarrow> Secret \<Rightarrow> bool" where
  "exchanged su secret traffic_secret \<longleftrightarrow> (\<exists>point shared ks ks'. su_diffie_hellman su secret point = Some shared \<and>
     initialize_handshake_secret (su_crypto su) shared ks = (Inr (), ks') \<and> kst_traffic_secret (ks_server ks') = traffic_secret)"

text \<open>The client and the server share a traffic secret, and it covers the transcript.\<close>

definition agreed :: "tls_suite \<Rightarrow> u8 list \<Rightarrow> u8 list \<Rightarrow> bool" where
  "agreed su secret transcript \<longleftrightarrow>
     (\<exists>traffic_secret. exchanged su secret traffic_secret \<and> finished_covers (su_crypto su) traffic_secret transcript)"

fun standing :: "tls_suite \<Rightarrow> u8 list \<Rightarrow> State \<Rightarrow> KeySchedule \<Rightarrow> Handshake \<Rightarrow> bool" where
  "standing su secret StClientHello ks hs \<longleftrightarrow> hs_secret hs = None"
| "standing su secret StServerHello ks hs \<longleftrightarrow> hs_secret hs = Some secret"
| "standing su secret StServerVerify ks hs \<longleftrightarrow> exchanged su secret (kst_traffic_secret (ks_server ks))"
| "standing su secret StClientCert ks hs \<longleftrightarrow> agreed su secret (ks_transcript_hash ks)"
| "standing su secret StApplicationData ks hs \<longleftrightarrow> (\<exists>ks'. agreed su secret (ks_transcript_hash ks') \<and>
     initialize_master_secret (su_crypto su) ks' = (Inr (), ks))"
| "standing su secret _ ks hs \<longleftrightarrow> (\<exists>t. hs_traffic_hash hs = Some t \<and> agreed su secret t)"

lemma handle_processing_error_ok:
  "handle_processing_error su tr result con = Some (Inr st, con') \<longleftrightarrow> result = Inr st \<and> con' = con"
  by (auto simp: handle_processing_error_def op_bind_Inr_iff split: sum.splits TlsError.splits)

lemma send_step_ok:
  assumes "send_step tr prepared provider = Some (Inr st, con, hs, provider')"
  obtains tx con1 where "prepared = Some (Inr (st, tx), con1, hs)"
  using assms by (auto simp: send_step_def op_bind_Inr_iff)

lemma process_standing:
  assumes "process su lib tr config random secret st (con, hs, provider) = Some (Inr st', con', hs', provider')"
    and "standing su secret st (tls_key_schedule con) hs"
  shows "standing su secret st' (tls_key_schedule con') hs'"
proof (cases st)
  case StClientHello
  with assms(1) obtain tx con1 where "client_hello su config random secret (con, hs) = Some (Inr (st', tx), con1, hs')"
    by (auto simp: process_def elim: send_step_ok)
  then show ?thesis by (auto simp: client_hello_def op_bind_Inr_iff split: prod.splits sum.splits)
next
  case StServerHello
  with assms(1) obtain rcd con1 where c: "(case process_server_hello su rcd (tls_key_schedule con1, hs) of (result, ks, hs) \<Rightarrow>
      map_option (\<lambda>(r, con). (r, con, hs, provider)) (handle_processing_error su tr result (con1\<lparr>tls_key_schedule := ks\<rparr>))) =
      Some (Inr st', con', hs', provider')"
    by (auto simp: process_def op_bind_Inr_iff)
  obtain result ks h where p: "process_server_hello su rcd (tls_key_schedule con1, hs) = (result, ks, h)" by (rule prod_cases3)
  with c have "process_server_hello su rcd (tls_key_schedule con1, hs) = (Inr st', tls_key_schedule con', hs')"
    by (auto simp: handle_processing_error_ok)
  with assms(2) StServerHello show ?thesis
    by (auto simp: process_server_hello_def calculate_shared_secret_def exchanged_def Let_def bind_eq_Some_conv
        split: ServerRecord.splits ServerHandshake.splits option.splits sum.splits prod.splits)
next
  case StServerVerify
  with assms(1) obtain rcd con1 ks buf where r: "con_read_record (su_crypto su) tr con = Some (Inr rcd, con1)"
    "process_server_verify su lib rcd (rr_buf (tls_record_reader con1), tls_key_schedule con1, hs, cp_verifier provider) =
      Some (Inr st', buf, ks, hs', cp_verifier provider')" "tls_key_schedule con' = ks"
    by (auto simp: process_def op_bind_Inr_iff handle_processing_error_ok bind_eq_Some_conv)
  from r(1) have "ks_server (tls_key_schedule con1) = ks_server (tls_key_schedule con)" "just_read (su_crypto su) (tls_key_schedule con1) rcd"
    by (auto simp: con_read_record_def dest: rr_read_ks)
  with process_server_verify_covered [OF r(2)] assms(2) r(3) StServerVerify show ?thesis
    by (auto simp: agreed_def)
next
  case StClientCert
  with assms(1) obtain tx con1 where "client_cert su provider (con, hs) = Some (Inr (st', tx), con1, hs')"
    by (auto simp: process_def elim: send_step_ok)
  with assms(2) StClientCert show ?thesis
    by (auto simp: client_cert_def op_bind_Inr_iff Let_def split: option.splits)
next
  case StClientCertVerify
  with assms(1) obtain tx con1 where "client_cert_verify su provider con = Some (Inr (Inr st', tx), con1)" "hs' = hs"
    by (auto simp: process_def op_bind_Inr_iff)
  with assms(2) StClientCertVerify show ?thesis
    by (auto simp: client_cert_verify_def op_bind_Inr_iff Let_def split: sum.splits if_splits prod.splits)
next
  case StClientFinished
  with assms(1) obtain con1 where c: "(case client_finished_finalize (su_crypto su) (tls_key_schedule con1, hs) of
      (r, ks, hs) \<Rightarrow> Some (r, con1\<lparr>tls_key_schedule := ks\<rparr>, hs, provider)) = Some (Inr st', con', hs', provider')"
    by (auto simp: process_def op_bind_Inr_iff)
  obtain r ks h where p: "client_finished_finalize (su_crypto su) (tls_key_schedule con1, hs) = (r, ks, h)" by (rule prod_cases3)
  with c have "client_finished_finalize (su_crypto su) (tls_key_schedule con1, hs) = (Inr st', tls_key_schedule con', hs')"
    by auto
  with assms(2) StClientFinished show ?thesis
    by (auto simp: client_finished_finalize_def result_bind_Inr_iff split: option.splits prod.splits)
      (rule exI, rule conjI [rotated], assumption, simp)
next
  case StApplicationData
  with assms show ?thesis by (auto simp: process_def)
qed

lemma open_loop_standing:
  assumes "open_loop su lib tr config random secret st s = Some (Inr (), s')"
    and "standing su secret st (tls_key_schedule (fst s)) (fst (snd s))"
  shows "standing su secret StApplicationData (tls_key_schedule (fst s')) (fst (snd s'))"
proof -
  have "standing su secret st (tls_key_schedule (fst s)) (fst (snd s)) \<longrightarrow> fst y = Inr () \<longrightarrow>
      standing su secret StApplicationData (tls_key_schedule (fst (snd y))) (fst (snd (snd y)))"
    if "open_loop su lib tr config random secret st s = Some y"
    for su lib and tr :: "'a transport" and config random secret st s y
  proof (rule open_loop.raw_induct [where P = "\<lambda>su lib tr config random secret st s y.
        standing su secret st (tls_key_schedule (fst s)) (fst (snd s)) \<longrightarrow> fst y = Inr () \<longrightarrow>
        standing su secret StApplicationData (tls_key_schedule (fst (snd y))) (fst (snd (snd y)))", OF _ that])
    fix loop and su :: tls_suite and lib and tr :: "'a transport" and config random secret st
      and s :: "'a open_state" and y :: "(TlsError + unit) \<times> 'a open_state"
    assume ih: "\<And>su lib tr config random secret st s y. loop su lib tr config random secret st s = Some y \<Longrightarrow>
        standing su secret st (tls_key_schedule (fst s)) (fst (snd s)) \<longrightarrow> fst y = Inr () \<longrightarrow>
        standing su secret StApplicationData (tls_key_schedule (fst (snd y))) (fst (snd (snd y)))"
      and body: "(if st = StApplicationData then Some (Inr (), s)
        else Option.bind (process su lib tr config random secret st s) (\<lambda>(r, s).
          case r of Inl e \<Rightarrow> Some (Inl e, s) | Inr next_state \<Rightarrow> loop su lib tr config random secret next_state s)) = Some y"
    show "standing su secret st (tls_key_schedule (fst s)) (fst (snd s)) \<longrightarrow> fst y = Inr () \<longrightarrow>
        standing su secret StApplicationData (tls_key_schedule (fst (snd y))) (fst (snd (snd y)))"
    proof (cases "st = StApplicationData")
      case True
      with body show ?thesis by auto
    next
      case False
      with body obtain r s1 where p: "process su lib tr config random secret st s = Some (r, s1)"
        "(case r of Inl e \<Rightarrow> Some (Inl e, s1) | Inr next_state \<Rightarrow> loop su lib tr config random secret next_state s1) = Some y"
        by (auto simp: bind_eq_Some_conv)
      show ?thesis
      proof (cases r)
        case (Inr next_state)
        with p ih have n: "standing su secret next_state (tls_key_schedule (fst s1)) (fst (snd s1)) \<longrightarrow> fst y = Inr () \<longrightarrow>
          standing su secret StApplicationData (tls_key_schedule (fst (snd y))) (fst (snd (snd y)))" by simp
        obtain con hs provider where s: "s = (con, hs, provider)" by (cases s)
        obtain con1 hs1 provider1 where s1: "s1 = (con1, hs1, provider1)" by (cases s1)
        from process_standing [of su lib tr config random secret st con hs provider next_state con1 hs1 provider1] p(1) n
        show ?thesis by (simp add: Inr s s1)
      qed (use p in auto)
    qed
  qed
  from this [OF assms(1)] assms(2) show ?thesis by simp
qed

lemma tls_open_agreed:
  assumes "tls_open su lib tr config random secret (con, provider) = Some (Inr (), con', provider')"
  shows "tls_opened con' \<and> (\<exists>ks. agreed su secret (ks_transcript_hash ks) \<and>
    initialize_master_secret (su_crypto su) ks = (Inr (), tls_key_schedule con'))"
proof -
  obtain con1 hs1 provider1 p where "open_loop su lib tr config random secret StClientHello (con, handshake_new, p) =
      Some (Inr (), con1, hs1, provider1)" "con' = con1\<lparr>tls_opened := True\<rparr>"
    using assms by (auto simp: tls_open_def Let_def op_bind_Inr_iff split: prod.splits sum.splits)
  with open_loop_standing [OF this(1)] show ?thesis by (simp add: handshake_new_def)
qed

text \<open>
  C5: Whom an open connection is with. When the handshake of the client succeeds, then the application
  keys are derived over a transcript that holds a message \<open>Finished\<close> whose body is the MAC of all of the
  transcript before it, under a key that comes from an exchange of keys with the ephemeral secret
  of this connection: the peer that answered the exchange has seen the same messages.
\<close>
theorem open_connection_agreed:
  assumes "tls_open su lib tr config random secret (con, provider) = Some (Inr (), con', provider')"
  shows "\<exists>ks. agreed su secret (ks_transcript_hash ks) \<and>
    initialize_master_secret (su_crypto su) ks = (Inr (), tls_key_schedule con')"
  using tls_open_agreed [OF assms] by blast

section \<open>A handshake\<close>

text \<open>
  A suite whose hashes and MACs are a zero byte and whose records are in the clear, a server that
  sends its bytes, and a client with the pinned authority of \<open>b\<close>, for the host \<open>h\<close>.
\<close>

definition plain_suite :: tls_suite where
  "plain_suite = \<lparr>su_code_point = 0x1301,
     su_crypto = \<lparr>tc_hash = \<lambda>_. [0], tc_hmac = \<lambda>_ _. [0], tc_extract = \<lambda>_ _. [0], tc_expand = \<lambda>_ _ n. Some (replicate n 0),
       tc_hash_len = 1, tc_key_len = 1, tc_iv_len = 1\<rparr>,
     su_tag_len = 0, su_seal = \<lambda>_ _ _ plain. Some (plain, []), su_open = \<lambda>_ _ _ cipher. Some cipher,
     su_public_key = \<lambda>secret. secret, su_diffie_hellman = \<lambda>secret point. Some (secret @ point)\<rparr>"

definition byte_stream :: "u8 list transport" where
  "byte_stream = \<lparr>tr_read = \<lambda>t n. (Inr (take n t), drop n t), tr_write_all = \<lambda>t _. (Inr (), t), tr_flush = \<lambda>t. (Inr (), t)\<rparr>"

definition bare_config :: TlsConfig where
  "bare_config = \<lparr>cfg_server_name = Some [104], cfg_alpn_protocols = None, cfg_psk = None, cfg_signature_schemes = [],
     cfg_named_groups = [], cfg_max_fragment_length = None\<rparr>"

definition no_pki :: pki_lib where
  "no_pki = \<lparr>pk_certificate = \<lambda>_. None, pk_header = \<lambda>_. None, pk_ec_key = \<lambda>_ _. False, pk_ec_signature = \<lambda>_ _. False,
     pk_ec_verify = \<lambda>_ _ _ _. False\<rparr>"

definition server_bytes :: "u8 list" where
  "server_bytes =
     [22, 3, 3, 0, 53, 2, 0, 0, 49, 3, 3] @ replicate 32 7 @ [0, 0x13, 0x01, 0, 0, 9, 0, 51, 0, 5, 0, 23, 0, 1, 5] @
     [23, 3, 3, 0, 12] @ [8, 0, 0, 2, 0, 0] @ [20, 0, 0, 1, 0] @ [22]"

definition strict_client :: "u8 list TlsConnection \<times> crypto_provider" where
  "strict_client = (tls_connection_new (su_crypto plain_suite) server_bytes (replicate 60 0) (replicate 80 0),
     \<lparr>cp_verifier = Some (cert_verifier_new (X509 [98])), cp_signer = Inl InvalidPrivateKey, cp_client_cert = None\<rparr>)"

fun succeeded :: "(('e + 'a) \<times> 's) option \<Rightarrow> bool" where
  "succeeded (Some (Inr _, _)) = True"
| "succeeded _ = False"

lemma strict_client_opens: "succeeded (tls_open plain_suite no_pki byte_stream bare_config [1] [2] strict_client)"
  by (code_simp, subst open_loop.simps, code_simp, subst open_loop.simps, code_simp, subst open_loop.simps, code_simp,
      subst open_loop.simps, code_simp, subst open_loop.simps, code_simp)

theorem open_connection_agreed_witness:
  "\<exists>con' provider' ks. tls_open plain_suite no_pki byte_stream bare_config [1] [2] strict_client = Some (Inr (), con', provider') \<and>
     agreed plain_suite [2] (ks_transcript_hash ks) \<and>
     initialize_master_secret (su_crypto plain_suite) ks = (Inr (), tls_key_schedule con')"
proof -
  obtain con provider where c: "strict_client = (con, provider)" by (cases strict_client)
  obtain con' provider' where "tls_open plain_suite no_pki byte_stream bare_config [1] [2] (con, provider) = Some (Inr (), con', provider')"
    using strict_client_opens by (cases "(tls_open plain_suite no_pki byte_stream bare_config [1] [2] strict_client)" rule: succeeded.cases)
      (auto simp: c)
  with open_connection_agreed [OF this] c show ?thesis by auto
qed

text \<open>
  The client accepts a server that shows no certificate at all, whatever verifier it has: nothing asks
  for the messages with the certificate and its signature, and the \<open>Finished\<close> message only proves that
  the peer took part in the exchange of keys.
\<close>

lemma certificate_can_be_left_out:
  assumes "su_open su (kst_key (ks_server ks)) (kst_get_nonce (su_crypto su) (ks_server ks)) (ad_header ad) (ad_data ad) =
      Some ([8, 0, 0, 2, 0, 0] @ [20, 0, 0, 32] @ mac @ [22])" "length mac = tc_hash_len (su_crypto su)"
    and "make_expanded_hkdf_label (su_crypto su) (kst_traffic_secret (ks_server ks)) (tc_hash_len (su_crypto su))
      (ascii_bytes ''finished'') NoContext = Inr key"
    and "mac = tc_hmac (su_crypto su) key (tc_hash (su_crypto su) (ks_transcript_hash ks @ [8, 0, 0, 2, 0, 0]))"
    and "hs_certificate_request hs = None" "kst_counter (ks_server ks) \<noteq> -1"
  shows "\<exists>buf' ks' hs'. process_server_verify su lib (SrApplicationData ad) (buf, ks, hs, verifier) =
    Some (Inr StClientFinished, buf', ks', hs', verifier)"
proof -
  define msgs where "msgs = [8, 0, 0, 2, 0, 0] @ [20, 0, 0, 32] @ mac"
  let ?b = "\<lambda>n. \<lparr>pb_pos = n, pb_buffer = msgs\<rparr>"
  let ?ks = "ks\<lparr>ks_transcript_hash := ks_transcript_hash ks @ [8, 0, 0, 2, 0, 0]\<rparr>"
  have m: "msgs = 8 # 0 # 0 # 2 # 0 # 0 # 20 # 0 # 0 # 32 # mac" by (simp add: msgs_def)
  have e: "handshake_read (su_crypto su) (?b 0) ks = (Inr ShEncryptedExtensions, ?b 6, ?ks)"
    by (simp add: m handshake_read_def server_handshake_read_def server_handshake_parse_def handshake_type_parse_def
        read_u8_def read_u24_def read_u16_def pb_take_def pb_slice_def read_map_def read_checked_def
        encrypted_extensions_parse_def extension_vector_def extension_items.simps pb_is_empty_def parse_buffer_new_def
        u16_from_be_bytes_def)
  have f: "handshake_read (su_crypto su) (?b 6) ?ks =
      (Inr (ShFinished \<lparr>fin_verify = mac, fin_hash = Some (tc_hash (su_crypto su) (ks_transcript_hash ?ks))\<rparr>),
       ?b (10 + length mac), ?ks\<lparr>ks_transcript_hash := ks_transcript_hash ?ks @ [20, 0, 0, 32] @ mac\<rparr>)"
    by (simp add: m handshake_read_def server_handshake_read_def server_handshake_parse_def handshake_type_parse_def
        read_u8_def read_u24_def pb_take_def read_map_def finished_parse_def pb_fill_def assms(2) [symmetric])
  let ?ks1 = "?ks\<lparr>ks_transcript_hash := ks_transcript_hash ?ks @ [20, 0, 0, 32] @ mac\<rparr>"
  have v: "verify_server_finished (su_crypto su) ?ks1 \<lparr>fin_verify = mac, fin_hash = Some (tc_hash (su_crypto su) (ks_transcript_hash ?ks))\<rparr> =
      Inr True"
    using assms(3,4) by (simp add: verify_server_finished_def)
  have stop: "handshake_messages (su_crypto su) cb (?b (10 + length mac)) s = Some (Inr (), s)" for cb :: "verifying handler" and s
    by (cases s) (simp add: handshake_messages.simps pb_remaining_def m)
  have r: "pb_remaining (?b 0) \<noteq> 0" "pb_remaining (?b 6) \<noteq> 0" by (simp_all add: pb_remaining_def m)
  have h: "handshake_messages (su_crypto su) (server_verify_handler su lib) (?b 0) (ks, StServerVerify, hs, verifier) =
      Some (Inr (), ?ks1, StClientFinished, hs\<lparr>hs_traffic_hash := Some (ks_transcript_hash ?ks1)\<rparr>, verifier)"
    by (subst handshake_messages.simps, simp only: r e if_False prod.case sum.case server_verify_handler.simps op_bind_simps,
        subst handshake_messages.simps, simp only: r f if_False prod.case sum.case server_verify_handler.simps op_bind_simps)
      (simp add: server_finished_def v [simplified] assms(5) stop)
  define plain where "plain = [8, 0, 0, 2, 0, 0] @ [20, 0, 0, 32] @ mac @ [22 :: u8]"
  have p: "strip_padding plain = plain" "plain \<noteq> []" "last plain = 22" "butlast plain = msgs"
    by (simp_all add: plain_def strip_padding_def msgs_def butlast_append)
  show ?thesis
    using assms(1,6) h unfolding plain_def [symmetric]
    by (simp add: process_server_verify_def decrypt_record_def p content_type_of_def parse_buffer_new_def increment_counter_def)
qed

text \<open>Two more faults: an encrypted record without content, and the type of an alert in the clear.\<close>

lemma empty_record_panics:
  assumes "su_open su (kst_key (ks_server ks)) (kst_get_nonce (su_crypto su) (ks_server ks)) (ad_header ad) (ad_data ad) = Some []"
  shows "decrypt_record su cb (SrApplicationData ad) (buf, ks, s) = None"
  using assms by (simp add: decrypt_record_def strip_padding_def)

lemma plain_alert_type: "header_content_type (record_header (CrAlert alert False)) = CtChangeCipherSpec"
  by simp

end
