(* ===== verification/Http_Request.thy ===== *)
theory Http_Request
  imports Http_Response Http_Sending Tls_Opening
begin

text \<open>
  Requests of the HTTP client, \<open>tools/reqwless/src\<close>: their construction and their text
  (\<open>request.rs\<close>), and the client that connects and sends them (\<open>client.rs\<close>). The
  parser of URLs, the resolver, the sockets, the buffered writer, Base64 and the random numbers
  are parameters. A panic is \<open>None\<close>.
\<close>

section \<open>Requests\<close>

datatype Auth = Basic string string

text \<open>
  A body is its length, if that is known, and the buffers it hands to \<open>write_all\<close> one after another.
  The implementations of the trait for the empty body, for bytes and for options follow.
\<close>

record RequestBody =
  rb_len :: "nat option"
  rb_pieces :: "u8 list list"

definition unit_body :: RequestBody where
  "unit_body = \<lparr>rb_len = None, rb_pieces = []\<rparr>"

definition slice_body :: "u8 list \<Rightarrow> RequestBody" where
  "slice_body bs = \<lparr>rb_len = Some (length bs), rb_pieces = [bs]\<rparr>"

definition option_body :: "RequestBody option \<Rightarrow> RequestBody" where
  "option_body inner = (case inner of None \<Rightarrow> \<lparr>rb_len = None, rb_pieces = []\<rparr> | Some b \<Rightarrow> \<lparr>rb_len = rb_len b, rb_pieces = rb_pieces b\<rparr>)"

record Request =
  rq_method :: Method
  rq_base_path :: "string option"
  rq_path :: string
  rq_auth :: "Auth option"
  rq_host :: "string option"
  rq_body :: "RequestBody option"
  rq_content_type :: "Http_Response.ContentType option"
  rq_accept :: "Http_Response.ContentType option"
  rq_extra_headers :: "(string \<times> string) list option"

definition request_default :: Request where
  "request_default = \<lparr>rq_method = GET, rq_base_path = None, rq_path = ''/'', rq_auth = None, rq_host = None,
     rq_body = None, rq_content_type = None, rq_accept = None, rq_extra_headers = None\<rparr>"

definition request_new :: "Method \<Rightarrow> string \<Rightarrow> Request" where
  "request_new method path = request_default\<lparr>rq_method := method, rq_path := path\<rparr>"

definition request_get :: "string \<Rightarrow> Request" where "request_get path = request_new GET path"
definition request_post :: "string \<Rightarrow> Request" where "request_post path = request_new POST path"
definition request_put :: "string \<Rightarrow> Request" where "request_put path = request_new PUT path"
definition request_delete :: "string \<Rightarrow> Request" where "request_delete path = request_new DELETE path"
definition request_head :: "string \<Rightarrow> Request" where "request_head path = request_new HEAD path"
definition request_patch :: "string \<Rightarrow> Request" where "request_patch path = request_new PATCH path"
definition request_options :: "string \<Rightarrow> Request" where "request_options path = request_new OPTIONS path"
definition request_connect :: "string \<Rightarrow> Request" where "request_connect path = request_new CONNECT path"
definition request_trace :: "string \<Rightarrow> Request" where "request_trace path = request_new TRACE path"

definition with_headers :: "(string \<times> string) list \<Rightarrow> Request \<Rightarrow> Request" where
  "with_headers headers rq = rq\<lparr>rq_extra_headers := Some headers\<rparr>"

definition with_path :: "string \<Rightarrow> Request \<Rightarrow> Request" where
  "with_path path rq = rq\<lparr>rq_path := path\<rparr>"

definition with_body :: "RequestBody \<Rightarrow> Request \<Rightarrow> Request" where
  "with_body b rq = rq\<lparr>rq_body := Some b\<rparr>"

definition with_host :: "string \<Rightarrow> Request \<Rightarrow> Request" where
  "with_host host rq = rq\<lparr>rq_host := Some host\<rparr>"

definition with_content_type :: "Http_Response.ContentType \<Rightarrow> Request \<Rightarrow> Request" where
  "with_content_type content_type rq = rq\<lparr>rq_content_type := Some content_type\<rparr>"

definition with_accept :: "Http_Response.ContentType \<Rightarrow> Request \<Rightarrow> Request" where
  "with_accept content_type rq = rq\<lparr>rq_accept := Some content_type\<rparr>"

definition with_basic_auth :: "string \<Rightarrow> string \<Rightarrow> Request \<Rightarrow> Request" where
  "with_basic_auth username password rq = rq\<lparr>rq_auth := Some (Basic username password)\<rparr>"

section \<open>The text of a request\<close>

fun method_as_str :: "Method \<Rightarrow> string" where
  "method_as_str POST = ''POST''"
| "method_as_str PUT = ''PUT''"
| "method_as_str GET = ''GET''"
| "method_as_str DELETE = ''DELETE''"
| "method_as_str HEAD = ''HEAD''"
| "method_as_str PATCH = ''PATCH''"
| "method_as_str OPTIONS = ''OPTIONS''"
| "method_as_str CONNECT = ''CONNECT''"
| "method_as_str TRACE = ''TRACE''"

definition CRLF :: string where "CRLF = [CHR 0x0D, CHR 0x0A]"

definition write_str :: "'w writer_ops \<Rightarrow> string \<Rightarrow> 'w \<Rightarrow> (HttpError + unit) \<times> 'w" where
  "write_str wo data c =
     (case wo_write_all wo c (string_bytes data) of (Inl e, c) \<Rightarrow> (Inl (NetworkError e), c) | (Inr _, c) \<Rightarrow> (Inr (), c))"

text \<open>Several calls of \<open>write_str\<close> in a row.\<close>

fun write_strs :: "'w writer_ops \<Rightarrow> string list \<Rightarrow> 'w \<Rightarrow> (HttpError + unit) \<times> 'w" where
  "write_strs wo [] c = (Inr (), c)"
| "write_strs wo (s # ss) c = st_bind (write_str wo s c) (\<lambda>_ c. write_strs wo ss c)"

definition write_header_line :: "'w writer_ops \<Rightarrow> string \<Rightarrow> string \<Rightarrow> 'w \<Rightarrow> (HttpError + unit) \<times> 'w" where
  "write_header_line wo key val c = write_strs wo [key, '': '', val, CRLF] c"

definition write_when :: "('a \<Rightarrow> 'w \<Rightarrow> (HttpError + unit) \<times> 'w) \<Rightarrow> 'a option \<Rightarrow> 'w \<Rightarrow> (HttpError + unit) \<times> 'w" where
  "write_when f x c = (case x of None \<Rightarrow> (Inr (), c) | Some a \<Rightarrow> f a c)"

fun write_header_lines :: "'w writer_ops \<Rightarrow> (string \<times> string) list \<Rightarrow> 'w \<Rightarrow> (HttpError + unit) \<times> 'w" where
  "write_header_lines wo [] c = (Inr (), c)"
| "write_header_lines wo ((key, val) # hs) c = st_bind (write_header_line wo key val c) (\<lambda>_ c. write_header_lines wo hs c)"

text \<open>The credentials go through a string of 128 bytes and a buffer of 256.\<close>

fun write_auth :: "(u8 list \<Rightarrow> string) \<Rightarrow> 'w writer_ops \<Rightarrow> Auth \<Rightarrow> 'w \<Rightarrow> (HttpError + unit) \<times> 'w" where
  "write_auth b64 wo (Basic username password) c =
     (let combined = username @ '':'' @ password
      in if 128 < length combined then (Inl CodecError, c)
         else let authz = b64 (string_bytes combined)
              in if 256 < length authz then (Inl CodecError, c)
                 else write_strs wo [''Authorization: Basic '', authz, CRLF] c)"

definition write_body_header :: "'w writer_ops \<Rightarrow> RequestBody \<Rightarrow> 'w \<Rightarrow> (HttpError + unit) \<times> 'w" where
  "write_body_header wo b c =
     (case rb_len b of
        None \<Rightarrow> write_header_line wo ''Transfer-Encoding'' ''chunked'' c
      | Some len \<Rightarrow>
          let s = dec_digits len
          in if 32 < length s then (Inl CodecError, c) else write_header_line wo ''Content-Length'' s c)"

definition trim_end_slashes :: "string \<Rightarrow> string" where
  "trim_end_slashes s = rev (dropWhile (\<lambda>c. c = CHR ''/'') (rev s))"

definition write_target :: "'w writer_ops \<Rightarrow> Request \<Rightarrow> 'w \<Rightarrow> (HttpError + unit) \<times> 'w" where
  "write_target wo rq c =
     st_bind (write_strs wo [method_as_str (rq_method rq), '' ''] c) (\<lambda>_ c.
     st_bind (write_when (\<lambda>base_path c.
         st_bind (write_str wo (trim_end_slashes base_path) c) (\<lambda>_ c.
           if take 1 (rq_path rq) = ''/'' then (Inr (), c) else write_str wo ''/'' c)) (rq_base_path rq) c) (\<lambda>_ c.
     write_strs wo [rq_path rq, '' HTTP/1.1'' @ CRLF] c))"

definition write_header :: "(u8 list \<Rightarrow> string) \<Rightarrow> 'w writer_ops \<Rightarrow> Request \<Rightarrow> 'w \<Rightarrow> (HttpError + unit) \<times> 'w" where
  "write_header b64 wo rq c =
     st_bind (write_target wo rq c) (\<lambda>_ c.
     st_bind (write_when (write_auth b64 wo) (rq_auth rq) c) (\<lambda>_ c.
     st_bind (write_when (write_header_line wo ''Host'') (rq_host rq) c) (\<lambda>_ c.
     st_bind (write_when (\<lambda>t. write_header_line wo ''Content-Type'' (content_type_as_str t)) (rq_content_type rq) c) (\<lambda>_ c.
     st_bind (write_when (\<lambda>t. write_header_line wo ''Accept'' (content_type_as_str t)) (rq_accept rq) c) (\<lambda>_ c.
     st_bind (write_when (write_body_header wo) (rq_body rq) c) (\<lambda>_ c.
     st_bind (write_when (write_header_lines wo) (rq_extra_headers rq) c) (\<lambda>_ c.
     write_str wo CRLF c)))))))"

section \<open>Connections\<close>

datatype UrlScheme = HTTP | HTTPS | OtherScheme

record Url =
  url_scheme :: UrlScheme
  url_host :: string
  url_port_or_default :: u16
  url_path :: string

datatype TlsVerify =
    VerifyNone
  | VerifyPsk "u8 list" "u8 list"
  | VerifyCertificate "u8 list" "u8 list option" "u8 list option" "RsaVerifier option"

record ClientTls =
  ht_seed :: u64
  ht_read_buffer :: "u8 list"
  ht_write_buffer :: "u8 list"
  ht_verify :: TlsVerify

definition client_tls_new :: "u64 \<Rightarrow> u8 list \<Rightarrow> u8 list \<Rightarrow> TlsVerify \<Rightarrow> ClientTls" where
  "client_tls_new seed read_buffer write_buffer verify =
     \<lparr>ht_seed = seed, ht_read_buffer = read_buffer, ht_write_buffer = write_buffer, ht_verify = verify\<rparr>"

text \<open>
  What the client is built on: the parser of URLs, the resolver, the sockets, the buffered writer,
  the random bytes and the secret drawn from a seed, the reader of private keys, and the TLS library
  with its own parameters.
\<close>

record ('a, 't, 'b) http_env =
  he_parse_url :: "string \<Rightarrow> Url option"
  he_resolve :: "string \<Rightarrow> 'a option"
  he_socket :: "'a \<Rightarrow> u16 \<Rightarrow> NetworkErrorKind + 't"
  he_buffered :: "'t \<Rightarrow> u8 list \<Rightarrow> 'b"
  he_rng :: "u64 \<Rightarrow> u8 list \<times> u8 list"
  he_signing_key :: "u8 list \<Rightarrow> (u8 list \<Rightarrow> u8 list) option"
  he_suite :: tls_suite
  he_pki :: pki_lib
  he_transport :: "'t transport"

datatype ('t, 'b) HttpConnection = HcPlain 't | HcPlainBuffered 'b | HcTls "'t TlsConnection"

text \<open>The provider without certificates, and the one with the pinned authority.\<close>

definition client_signer :: "('a, 't, 'b) http_env \<Rightarrow> u8 list option \<Rightarrow> TlsError + SignatureScheme \<times> (u8 list \<Rightarrow> u8 list)" where
  "client_signer env key =
     (case key of
        None \<Rightarrow> Inl InvalidPrivateKey
      | Some key_der \<Rightarrow>
          (case he_signing_key env key_der of None \<Rightarrow> Inl InvalidPrivateKey | Some sign \<Rightarrow> Inr (EcdsaSecp256r1Sha256, sign)))"

definition unsecure_provider_new :: crypto_provider where
  "unsecure_provider_new = \<lparr>cp_verifier = None, cp_signer = Inl InvalidPrivateKey, cp_client_cert = None\<rparr>"

fun tls_provider :: "('a, 't, 'b) http_env \<Rightarrow> TlsVerify \<Rightarrow> crypto_provider" where
  "tls_provider env (VerifyCertificate ca cert key rsa_verifier) =
     (let verifier = cert_verifier_new (X509 ca);
          verifier = (case rsa_verifier of None \<Rightarrow> verifier | Some rv \<Rightarrow> with_rsa_verifier rv verifier)
      in \<lparr>cp_verifier = Some verifier, cp_signer = client_signer env key, cp_client_cert = cert\<rparr>)"
| "tls_provider env _ = unsecure_provider_new"

fun tls_config_for :: "TlsVerify \<Rightarrow> TlsConfig \<Rightarrow> TlsConfig option" where
  "tls_config_for (VerifyPsk identity psk) config = with_psk psk [identity] config"
| "tls_config_for _ config = Some config"

definition http_connect_tls ::
  "('a, 't, 'b) http_env \<Rightarrow> ClientTls \<Rightarrow> string \<Rightarrow> 't \<Rightarrow> (HttpError + ('t, 'b) HttpConnection) option" where
  "http_connect_tls env tls host conn =
     Option.bind (tls_config_new True) (\<lambda>config.
     Option.bind (tls_config_for (ht_verify tls) (with_server_name (string_bytes host) config)) (\<lambda>config.
       let (random, secret) = he_rng env (ht_seed tls);
           con = tls_connection_new (su_crypto (he_suite env)) conn (ht_read_buffer tls) (ht_write_buffer tls)
       in map_option (\<lambda>(r, con, _). case r of Inl _ \<Rightarrow> Inl HttpError.TlsError | Inr _ \<Rightarrow> Inr (HcTls con))
            (tls_open (he_suite env) (he_pki env) (he_transport env) config random secret
               (con, tls_provider env (ht_verify tls)))))"

definition http_connect ::
  "('a, 't, 'b) http_env \<Rightarrow> ClientTls option \<Rightarrow> Url \<Rightarrow> (HttpError + ('t, 'b) HttpConnection) option" where
  "http_connect env tls url =
     (case he_resolve env (url_host url) of
        None \<Rightarrow> Some (Inl DnsError)
      | Some remote \<Rightarrow>
          (case he_socket env remote (url_port_or_default url) of
             Inl e \<Rightarrow> Some (Inl (NetworkError e))
           | Inr conn \<Rightarrow>
               if url_scheme url = HTTPS then
                 (case tls of
                    Some tls \<Rightarrow> http_connect_tls env tls (url_host url) conn
                  | None \<Rightarrow> Some (Inr (HcPlain conn)))
               else
                 (case tls of
                    Some tls \<Rightarrow> Some (Inr (HcPlainBuffered (he_buffered env conn (ht_write_buffer tls))))
                  | None \<Rightarrow> Some (Inr (HcPlain conn)))))"

text \<open>Requests to a URL, and to resources below one.\<close>

record ('t, 'b) HttpRequestHandle =
  hh_conn :: "('t, 'b) HttpConnection"
  hh_request :: "Request option"

record ('t, 'b) HttpResource =
  hr_conn :: "('t, 'b) HttpConnection"
  hr_host :: string
  hr_base_path :: string

definition http_request ::
  "('a, 't, 'b) http_env \<Rightarrow> ClientTls option \<Rightarrow> Method \<Rightarrow> string \<Rightarrow> (HttpError + ('t, 'b) HttpRequestHandle) option" where
  "http_request env tls method url =
     (case he_parse_url env url of
        None \<Rightarrow> Some (Inl InvalidUrlError)
      | Some u \<Rightarrow> map_option (\<lambda>r. result_bind r (\<lambda>conn.
            Inr \<lparr>hh_conn = conn, hh_request = Some (with_host (url_host u) (request_new method (url_path u)))\<rparr>))
          (http_connect env tls u))"

definition http_resource ::
  "('a, 't, 'b) http_env \<Rightarrow> ClientTls option \<Rightarrow> string \<Rightarrow> (HttpError + ('t, 'b) HttpResource) option" where
  "http_resource env tls resource_url =
     (case he_parse_url env resource_url of
        None \<Rightarrow> Some (Inl InvalidUrlError)
      | Some u \<Rightarrow> map_option (\<lambda>r. result_bind r (\<lambda>conn.
            Inr \<lparr>hr_conn = conn, hr_host = url_host u, hr_base_path = url_path u\<rparr>))
          (http_connect env tls u))"

fun into_buffered :: "('a, 't, 'b) http_env \<Rightarrow> u8 list \<Rightarrow> ('t, 'b) HttpConnection \<Rightarrow> ('t, 'b) HttpConnection" where
  "into_buffered env tx_buf (HcPlain conn) = HcPlainBuffered (he_buffered env conn tx_buf)"
| "into_buffered env tx_buf (HcPlainBuffered conn) = HcPlainBuffered conn"
| "into_buffered env tx_buf (HcTls tls) = HcTls tls"

definition resource_request :: "('t, 'b) HttpResource \<Rightarrow> Method \<Rightarrow> string \<Rightarrow> Request" where
  "resource_request rsc method path = with_host (hr_host rsc) (request_new method path)"

definition resource_based :: "('t, 'b) HttpResource \<Rightarrow> Request \<Rightarrow> Request" where
  "resource_based rsc rq = rq\<lparr>rq_base_path := Some (hr_base_path rsc)\<rparr>"

section \<open>Sending\<close>

text \<open>
  The three kinds of connections as readers and writers, the parts of a buffered writer with the way to
  put them together again and to clear it. The method \<open>write_all\<close> of the connection of the client is
  the one its trait provides on top of \<open>write\<close>.
\<close>

record ('t, 'b) conn_lib =
  cl_plain :: "'t writer_ops"
  cl_buffered :: "'b writer_ops"
  cl_tls :: "'t TlsConnection writer_ops"
  cl_write_all :: "('t, 'b) HttpConnection \<Rightarrow> u8 list \<Rightarrow> (NetworkErrorKind + unit) \<times> ('t, 'b) HttpConnection"
  cl_plain_read :: "'t read_fun"
  cl_buffered_read :: "'b read_fun"
  cl_tls_read :: "'t TlsConnection read_fun"
  cl_tls_fill_buf :: "'t TlsConnection fill_fun"
  cl_tls_consume :: "'t TlsConnection \<Rightarrow> nat \<Rightarrow> 't TlsConnection"
  cl_split :: "'b \<Rightarrow> 't \<times> u8 list \<times> nat"
  cl_joined :: "'b \<Rightarrow> 't \<Rightarrow> u8 list \<Rightarrow> 'b"
  cl_clear :: "'b \<Rightarrow> 'b"
  cl_base64 :: "u8 list \<Rightarrow> string"
  cl_hex :: hex_lib

fun http_read :: "('t, 'b) conn_lib \<Rightarrow> ('t, 'b) HttpConnection read_fun" where
  "http_read lib (HcPlain c) n = map_prod id HcPlain (cl_plain_read lib c n)"
| "http_read lib (HcPlainBuffered b) n = map_prod id HcPlainBuffered (cl_buffered_read lib b n)"
| "http_read lib (HcTls c) n = map_prod id HcTls (cl_tls_read lib c n)"

fun http_write :: "('t, 'b) conn_lib \<Rightarrow> ('t, 'b) HttpConnection \<Rightarrow> u8 list \<Rightarrow> (NetworkErrorKind + nat) \<times> ('t, 'b) HttpConnection" where
  "http_write lib (HcPlain c) buf = map_prod id HcPlain (wo_write (cl_plain lib) c buf)"
| "http_write lib (HcPlainBuffered b) buf = map_prod id HcPlainBuffered (wo_write (cl_buffered lib) b buf)"
| "http_write lib (HcTls c) buf = map_prod id HcTls (wo_write (cl_tls lib) c buf)"

fun http_flush :: "('t, 'b) conn_lib \<Rightarrow> ('t, 'b) HttpConnection \<Rightarrow> (NetworkErrorKind + unit) \<times> ('t, 'b) HttpConnection" where
  "http_flush lib (HcPlain c) = map_prod id HcPlain (wo_flush (cl_plain lib) c)"
| "http_flush lib (HcPlainBuffered b) = map_prod id HcPlainBuffered (wo_flush (cl_buffered lib) b)"
| "http_flush lib (HcTls c) = map_prod id HcTls (wo_flush (cl_tls lib) c)"

definition http_writer :: "('t, 'b) conn_lib \<Rightarrow> ('t, 'b) HttpConnection writer_ops" where
  "http_writer lib = \<lparr>wo_write = http_write lib, wo_write_all = cl_write_all lib, wo_flush = http_flush lib\<rparr>"

text \<open>Only TLS connections have a buffer of their own.\<close>

fun try_fill_buf :: "('t, 'b) conn_lib \<Rightarrow> ('t, 'b) HttpConnection \<Rightarrow> (NetworkErrorKind + u8 list) option \<times> ('t, 'b) HttpConnection" where
  "try_fill_buf lib (HcTls c) = map_prod Some HcTls (cl_tls_fill_buf lib c)"
| "try_fill_buf lib conn = (None, conn)"

fun try_consume :: "('t, 'b) conn_lib \<Rightarrow> nat \<Rightarrow> ('t, 'b) HttpConnection \<Rightarrow> ('t, 'b) HttpConnection" where
  "try_consume lib amt (HcTls c) = HcTls (cl_tls_consume lib c amt)"
| "try_consume lib amt conn = conn"

definition net_err :: "((NetworkErrorKind + 'a) \<times> 's) \<Rightarrow> (HttpError + 'a) \<times> 's" where
  "net_err m = (case m of (Inl e, s) \<Rightarrow> (Inl (NetworkError e), s) | (Inr x, s) \<Rightarrow> (Inr x, s))"

definition write_fixed_body ::
  "('t, 'b) conn_lib \<Rightarrow> nat \<Rightarrow> u8 list list \<Rightarrow> ('t, 'b) HttpConnection \<Rightarrow> ((HttpError + unit) \<times> ('t, 'b) HttpConnection) option" where
  "write_fixed_body lib len pieces conn =
     op_bind (map_option net_err
         (write_pieces (\<lambda>fw p. Some (fixed_write_all (http_writer lib) fw p)) (fixed_writer_new conn) pieces))
       (\<lambda>_ fw. Some (if fw_written fw \<noteq> len then Inl IncorrectBodyWritten else Inr (), fw_conn fw)) fw_conn"

definition write_unbuffered_chunks ::
  "hex_lib \<Rightarrow> 'w writer_ops \<Rightarrow> u8 list list \<Rightarrow> 'w \<Rightarrow> ((HttpError + unit) \<times> 'w) option" where
  "write_unbuffered_chunks hx wo pieces c =
     op_bind (map_option net_err (write_pieces (chunked_write_all hx wo) c pieces))
       (\<lambda>_ c. Some (net_err (chunked_terminate wo c))) (\<lambda>c. c)"

text \<open>The buffer is cleared only when the body was written.\<close>

definition write_buffered_chunks ::
  "('t, 'b) conn_lib \<Rightarrow> u8 list list \<Rightarrow> 'b \<Rightarrow> ((HttpError + unit) \<times> 'b) option" where
  "write_buffered_chunks lib pieces b =
     (case cl_split lib b of
        (conn, buf, unwritten) \<Rightarrow>
          Option.bind (new_with_data conn buf unwritten) (\<lambda>bw.
            map_option (\<lambda>(r, bw). let b = cl_joined lib b (bw_conn bw) (bw_buf bw)
                in case r of Inl e \<Rightarrow> (Inl e, b) | Inr _ \<Rightarrow> (Inr (), cl_clear lib b))
              (op_bind (map_option net_err (write_pieces (buffering_write_all (cl_hex lib) (cl_plain lib)) bw pieces))
                (\<lambda>_ bw. map_option net_err (buffering_terminate (cl_hex lib) (cl_plain lib) bw)) (\<lambda>bw. bw))))"

fun write_chunked_body ::
  "('t, 'b) conn_lib \<Rightarrow> u8 list list \<Rightarrow> ('t, 'b) HttpConnection \<Rightarrow> ((HttpError + unit) \<times> ('t, 'b) HttpConnection) option" where
  "write_chunked_body lib pieces (HcPlain c) =
     map_option (\<lambda>(r, c). (r, HcPlain c)) (write_unbuffered_chunks (cl_hex lib) (cl_plain lib) pieces c)"
| "write_chunked_body lib pieces (HcPlainBuffered b) =
     map_option (\<lambda>(r, b). (r, HcPlainBuffered b)) (write_buffered_chunks lib pieces b)"
| "write_chunked_body lib pieces (HcTls c) =
     map_option (\<lambda>(r, c). (r, HcTls c)) (write_unbuffered_chunks (cl_hex lib) (cl_tls lib) pieces c)"

definition write_request ::
  "('t, 'b) conn_lib \<Rightarrow> Request \<Rightarrow> ('t, 'b) HttpConnection \<Rightarrow> ((HttpError + unit) \<times> ('t, 'b) HttpConnection) option" where
  "write_request lib rq conn =
     op_bind (Some (write_header (cl_base64 lib) (http_writer lib) rq conn)) (\<lambda>_ conn.
       case rq_body rq of
         None \<Rightarrow> Some (Inr (), conn)
       | Some b \<Rightarrow>
           (case rb_len b of
              Some len \<Rightarrow> if len = 0 then Some (Inr (), conn) else write_fixed_body lib len (rb_pieces b) conn
            | None \<Rightarrow> write_chunked_body lib (rb_pieces b) conn)) (\<lambda>conn. conn)"

definition http_send ::
  "(u8 list \<Rightarrow> http_parse) \<Rightarrow> ('t, 'b) conn_lib \<Rightarrow> Request \<Rightarrow> u8 list \<Rightarrow> ('t, 'b) HttpConnection \<Rightarrow>
   ((HttpError + ('t, 'b) HttpConnection Response) \<times> ('t, 'b) HttpConnection) option" where
  "http_send httparse lib rq rx_buf conn =
     op_bind (write_request lib rq conn) (\<lambda>_ conn.
     op_bind (Some (net_err (wo_flush (http_writer lib) conn))) (\<lambda>_ conn.
       Some (response_read httparse (http_read lib) conn (rq_method rq) rx_buf)) (\<lambda>conn. conn)) (\<lambda>conn. conn)"

text \<open>A handle sends its request once.\<close>

definition handle_send ::
  "(u8 list \<Rightarrow> http_parse) \<Rightarrow> ('t, 'b) conn_lib \<Rightarrow> u8 list \<Rightarrow> ('t, 'b) HttpRequestHandle \<Rightarrow>
   ((HttpError + ('t, 'b) HttpConnection Response) \<times> ('t, 'b) HttpRequestHandle) option" where
  "handle_send httparse lib rx_buf h =
     (case hh_request h of
        None \<Rightarrow> Some (Inl AlreadySent, h)
      | Some rq \<Rightarrow> map_option (\<lambda>(r, conn). (r, \<lparr>hh_conn = conn, hh_request = None\<rparr>))
          (http_send httparse lib rq rx_buf (hh_conn h)))"

definition resource_send ::
  "(u8 list \<Rightarrow> http_parse) \<Rightarrow> ('t, 'b) conn_lib \<Rightarrow> Request \<Rightarrow> u8 list \<Rightarrow> ('t, 'b) HttpResource \<Rightarrow>
   ((HttpError + ('t, 'b) HttpConnection Response) \<times> ('t, 'b) HttpResource) option" where
  "resource_send httparse lib rq rx_buf rsc =
     map_option (\<lambda>(r, conn). (r, rsc\<lparr>hr_conn := conn\<rparr>))
       (http_send httparse lib (resource_based rsc rq) rx_buf (hr_conn rsc))"

end
