(* ===== verification/Http_Asking.thy ===== *)
theory Http_Asking
  imports Http_Request
begin

text \<open>
  Properties of the requests of the HTTP client: the text of a request reads back, and a request to an
  HTTPS URL goes over a TLS connection that was agreed with its peer.
\<close>

section \<open>The bytes that are sent\<close>

definition sends :: "('w \<Rightarrow> u8 list) \<Rightarrow> ('w \<Rightarrow> (HttpError + unit) \<times> 'w) \<Rightarrow> string \<Rightarrow> bool" where
  "sends sent m s \<longleftrightarrow> (\<forall>c c'. m c = (Inr (), c') \<longrightarrow> sent c' = sent c @ string_bytes s)"

lemma string_bytes_append: "string_bytes (s @ t) = string_bytes s @ string_bytes t"
  by (simp add: string_bytes_def)

lemma sends_bind: "sends sent m s \<Longrightarrow> sends sent k t \<Longrightarrow> sends sent (\<lambda>c. st_bind (m c) (\<lambda>_ c. k c)) (s @ t)"
  by (auto simp: sends_def string_bytes_append st_bind_Inr_iff)

lemma sends_nothing: "sends sent (\<lambda>c. (Inr (), c)) ''''"
  by (simp add: sends_def string_bytes_def)

lemma sends_when:
  "(\<And>a. x = Some a \<Longrightarrow> sends sent (f a) (g a)) \<Longrightarrow> sends sent (write_when f x) (case x of None \<Rightarrow> '''' | Some a \<Rightarrow> g a)"
  by (cases x) (simp_all add: sends_def write_when_def string_bytes_def)

lemma sends_str: "writer_law wo sent \<Longrightarrow> sends sent (write_str wo s) s"
  by (auto simp: sends_def write_str_def split: prod.splits sum.splits dest!: write_allD)

lemma sends_strs: "writer_law wo sent \<Longrightarrow> sends sent (write_strs wo ss) (concat ss)"
proof (induction ss)
  case (Cons s ss)
  then show ?case using sends_bind [OF sends_str Cons.IH] by (simp add: sends_def)
qed (simp add: sends_def string_bytes_def)

definition field_text :: "string \<times> string \<Rightarrow> string" where
  "field_text = (\<lambda>(key, val). key @ '': '' @ val @ CRLF)"

lemma sends_field: "writer_law wo sent \<Longrightarrow> sends sent (write_header_line wo key val) (field_text (key, val))"
  using sends_strs [of wo sent "[key, '': '', val, CRLF]"] by (simp add: sends_def write_header_line_def field_text_def)

lemma sends_fields: "writer_law wo sent \<Longrightarrow> sends sent (write_header_lines wo hs) (concat (map field_text hs))"
proof (induction hs)
  case (Cons h hs)
  then show ?case using sends_bind [OF sends_field Cons.IH] by (cases h) (simp add: sends_def)
qed (simp add: sends_def string_bytes_def)

text \<open>The fields of a request in the order they are sent, and the whole text.\<close>

definition request_target :: "Request \<Rightarrow> string" where
  "request_target rq = (case rq_base_path rq of None \<Rightarrow> []
     | Some b \<Rightarrow> trim_end_slashes b @ (if take 1 (rq_path rq) = ''/'' then [] else ''/'')) @ rq_path rq"

fun auth_field :: "(u8 list \<Rightarrow> string) \<Rightarrow> Auth \<Rightarrow> string \<times> string" where
  "auth_field b64 (Basic username password) = (''Authorization'', ''Basic '' @ b64 (string_bytes (username @ '':'' @ password)))"

definition body_field :: "RequestBody \<Rightarrow> string \<times> string" where
  "body_field b = (case rb_len b of None \<Rightarrow> (''Transfer-Encoding'', ''chunked'') | Some len \<Rightarrow> (''Content-Length'', dec_digits len))"

definition optional_field :: "('a \<Rightarrow> string \<times> string) \<Rightarrow> 'a option \<Rightarrow> (string \<times> string) list" where
  "optional_field f x = (case x of None \<Rightarrow> [] | Some a \<Rightarrow> [f a])"

definition request_fields :: "(u8 list \<Rightarrow> string) \<Rightarrow> Request \<Rightarrow> (string \<times> string) list" where
  "request_fields b64 rq =
     optional_field (auth_field b64) (rq_auth rq) @ optional_field (\<lambda>h. (''Host'', h)) (rq_host rq) @
     optional_field (\<lambda>t. (''Content-Type'', content_type_as_str t)) (rq_content_type rq) @
     optional_field (\<lambda>t. (''Accept'', content_type_as_str t)) (rq_accept rq) @
     optional_field body_field (rq_body rq) @ (case rq_extra_headers rq of None \<Rightarrow> [] | Some hs \<Rightarrow> hs)"

definition request_text :: "(u8 list \<Rightarrow> string) \<Rightarrow> Request \<Rightarrow> string" where
  "request_text b64 rq = method_as_str (rq_method rq) @ '' '' @ request_target rq @ '' HTTP/1.1'' @ CRLF @
     concat (map field_text (request_fields b64 rq)) @ CRLF"

lemma sends_optional:
  assumes "\<And>a. sends sent (f a) (field_text (g a))"
  shows "sends sent (write_when f x) (concat (map field_text (optional_field g x)))"
  using sends_when [of x sent f "\<lambda>a. field_text (g a)", OF assms] by (cases x) (simp_all add: optional_field_def)

lemma sends_auth:
  assumes "writer_law wo sent"
  shows "sends sent (write_auth b64 wo a) (field_text (auth_field b64 a))"
proof (cases a)
  case (Basic u p)
  then show ?thesis
    using sends_strs [OF assms, of "[''Authorization: Basic '', b64 (string_bytes (u @ '':'' @ p)), CRLF]"]
    by (auto simp: sends_def Let_def field_text_def)
qed

lemma sends_body_field: "writer_law wo sent \<Longrightarrow> sends sent (write_body_header wo b) (field_text (body_field b))"
  using sends_field [of wo sent] by (cases "rb_len b") (simp_all add: write_body_header_def body_field_def sends_def Let_def)

lemma sends_target:
  assumes "writer_law wo sent"
  shows "sends sent (write_target wo rq) (method_as_str (rq_method rq) @ '' '' @ request_target rq @ '' HTTP/1.1'' @ CRLF)"
proof -
  define base where "base = (\<lambda>b c. st_bind (write_str wo (trim_end_slashes b) c) (\<lambda>_ c.
      if take 1 (rq_path rq) = ''/'' then (Inr (), c) else write_str wo ''/'' c))"
  have slash: "sends sent (\<lambda>c. if take 1 (rq_path rq) = ''/'' then (Inr (), c) else write_str wo ''/'' c)
      (if take 1 (rq_path rq) = ''/'' then [] else ''/'')" using sends_nothing sends_str [OF assms] by auto
  have b: "sends sent (base b) (trim_end_slashes b @ (if take 1 (rq_path rq) = ''/'' then [] else ''/''))" for b
    unfolding base_def by (rule sends_bind [OF sends_str [OF assms] slash])
  have "sends sent (\<lambda>c. st_bind (write_strs wo [method_as_str (rq_method rq), '' ''] c) (\<lambda>_ c.
      st_bind (write_when base (rq_base_path rq) c) (\<lambda>_ c. write_strs wo [rq_path rq, '' HTTP/1.1'' @ CRLF] c)))
      (concat [method_as_str (rq_method rq), '' ''] @
      (case rq_base_path rq of None \<Rightarrow> [] | Some b \<Rightarrow> trim_end_slashes b @ (if take 1 (rq_path rq) = ''/'' then [] else ''/'')) @
      concat [rq_path rq, '' HTTP/1.1'' @ CRLF])"
    by (intro sends_bind sends_strs [OF assms] sends_when b)
  then show ?thesis by (simp add: sends_def request_target_def write_target_def base_def)
qed

lemma sends_request:
  assumes "writer_law wo sent"
  shows "sends sent (write_header b64 wo rq) (request_text b64 rq)"
proof -
  have extra: "sends sent (write_when (write_header_lines wo) (rq_extra_headers rq))
      (concat (map field_text (case rq_extra_headers rq of None \<Rightarrow> [] | Some hs \<Rightarrow> hs)))"
    using sends_when [of "rq_extra_headers rq", OF sends_fields [OF assms]]
    by (cases "rq_extra_headers rq") (simp_all add: sends_def write_when_def string_bytes_def)
  show ?thesis
    using sends_bind [OF sends_target [OF assms, of rq]
      sends_bind [OF sends_optional [OF sends_auth [OF assms, of b64], where x = "rq_auth rq"]
      sends_bind [OF sends_optional [OF sends_field [OF assms, of "''Host''"], where x = "rq_host rq"]
      sends_bind [OF sends_optional [of sent "\<lambda>t. write_header_line wo ''Content-Type'' (content_type_as_str t)"
          "\<lambda>t. (''Content-Type'', content_type_as_str t)", OF sends_field [OF assms], where x = "rq_content_type rq"]
      sends_bind [OF sends_optional [of sent "\<lambda>t. write_header_line wo ''Accept'' (content_type_as_str t)"
          "\<lambda>t. (''Accept'', content_type_as_str t)", OF sends_field [OF assms], where x = "rq_accept rq"]
      sends_bind [OF sends_optional [OF sends_body_field [OF assms], where x = "rq_body rq"]
      sends_bind [OF extra sends_str [OF assms, of CRLF]]]]]]]]
    by (simp add: sends_def write_header_def request_text_def request_fields_def)
qed

section \<open>Reading a request\<close>

fun read_line :: "string \<Rightarrow> (string \<times> string) option" where
  "read_line [] = None"
| "read_line [c] = None"
| "read_line (c # d # s) =
     (if c = CHR 0x0D \<and> d = CHR 0x0A then Some ([], s) else map_option (\<lambda>(l, r). (c # l, r)) (read_line (d # s)))"

lemma read_line_append: "CHR 0x0D \<notin> set l \<Longrightarrow> read_line (l @ CRLF @ s) = Some (l, s)"
proof (induction l)
  case (Cons c l)
  then show ?case by (cases l) (auto simp: CRLF_def)
qed (simp add: CRLF_def)

lemma read_line_shorter: "read_line s = Some (l, r) \<Longrightarrow> length r < length s"
  by (induction s arbitrary: l r rule: read_line.induct) (fastforce split: if_splits)+

definition read_field :: "string \<Rightarrow> (string \<times> string) option" where
  "read_field l = (case split_once (CHR '':'') l of
     None \<Rightarrow> None | Some (key, v) \<Rightarrow> if take 1 v = '' '' then Some (key, drop 1 v) else None)"

text \<open>The fields up to the empty line, and what follows it.\<close>

function read_fields :: "string \<Rightarrow> ((string \<times> string) list \<times> string) option" where
  "read_fields s =
     (case read_line s of
        None \<Rightarrow> None
      | Some (l, rest) \<Rightarrow>
          if l = [] then Some ([], rest)
          else Option.bind (read_field l) (\<lambda>f. map_option (\<lambda>(fs, r). (f # fs, r)) (read_fields rest)))"
  by pat_completeness auto
termination by (relation "measure length") (auto dest: read_line_shorter)

declare read_fields.simps [simp del]

definition read_request :: "string \<Rightarrow> (string \<times> string \<times> (string \<times> string) list \<times> string) option" where
  "read_request s =
     Option.bind (read_line s) (\<lambda>(l, rest).
     Option.bind (read_fields rest) (\<lambda>(fs, r).
       case split_on (CHR '' '') l of
         [method, target, version] \<Rightarrow> if version = ''HTTP/1.1'' then Some (method, target, fs, r) else None
       | _ \<Rightarrow> None))"

definition clean_field :: "string \<times> string \<Rightarrow> bool" where
  "clean_field = (\<lambda>(key, val). CHR '':'' \<notin> set key \<and> CHR 0x0D \<notin> set key \<and> CHR 0x0D \<notin> set val)"

lemma read_fields_text: "list_all clean_field fs \<Longrightarrow> read_fields (concat (map field_text fs) @ CRLF @ s) = Some (fs, s)"
proof (induction fs)
  case Nil
  show ?case using read_line_append [of "[]" s] by (subst read_fields.simps) simp
next
  case (Cons f fs)
  obtain key val where f: "f = (key, val)" by (cases f)
  with Cons.prems have c: "CHR '':'' \<notin> set key" "CHR 0x0D \<notin> set (key @ '': '' @ val)" by (simp_all add: clean_field_def)
  have "read_field (key @ '': '' @ val) = Some (key, val)"
    using c(1) split_once_Some_iff [of "CHR '':''" "key @ '': '' @ val" key "'' '' @ val"] by (simp add: read_field_def)
  moreover have "concat (map field_text (f # fs)) @ CRLF @ s = (key @ '': '' @ val) @ CRLF @ (concat (map field_text fs) @ CRLF @ s)"
    by (simp add: f field_text_def)
  ultimately show ?case using Cons read_line_append [OF c(2)]
    by (subst read_fields.simps) (simp add: f)
qed

text \<open>Fields without line breaks, and a target without blanks.\<close>

definition clean_request :: "Request \<Rightarrow> bool" where
  "clean_request rq \<longleftrightarrow>
     (\<forall>c \<in> {CHR 0x0D, CHR '' ''}. c \<notin> set (rq_path rq) \<and> c \<notin> set (case rq_base_path rq of None \<Rightarrow> [] | Some b \<Rightarrow> b)) \<and>
     CHR 0x0D \<notin> set (case rq_host rq of None \<Rightarrow> [] | Some h \<Rightarrow> h) \<and>
     list_all clean_field (case rq_extra_headers rq of None \<Rightarrow> [] | Some hs \<Rightarrow> hs)"

lemma clean_optional: "(\<And>a. x = Some a \<Longrightarrow> clean_field (f a)) \<Longrightarrow> list_all clean_field (optional_field f x)"
  by (cases x) (simp_all add: optional_field_def)

lemma clean_digits: "is_ascii_digit c \<Longrightarrow> c \<noteq> CHR 0x0D"
  by (auto simp: is_ascii_digit_def char_code_def)

lemma request_fields_clean:
  assumes "clean_request rq" "\<forall>bs. CHR 0x0D \<notin> set (b64 bs)"
  shows "list_all clean_field (request_fields b64 rq)"
proof -
  have "clean_field (auth_field b64 a)" for a using assms(2) by (cases a) (auto simp: clean_field_def)
  moreover have "clean_field (''Content-Type'', content_type_as_str t)" "clean_field (''Accept'', content_type_as_str t)" for t
    by (cases t; simp add: clean_field_def)+
  moreover have "clean_field (body_field b)" for b
    using dec_digits_all clean_digits by (cases "rb_len b") (fastforce simp: clean_field_def body_field_def list_all_iff)+
  moreover have "CHR 0x0D \<notin> set h \<Longrightarrow> clean_field (''Host'', h)" for h by (simp add: clean_field_def)
  ultimately show ?thesis using assms(1)
    by (auto simp: request_fields_def clean_request_def intro!: clean_optional)
qed

lemma target_clean:
  assumes "clean_request rq" "c \<in> {CHR 0x0D, CHR '' ''}"
  shows "c \<notin> set (request_target rq)"
proof -
  have "set (trim_end_slashes b) \<subseteq> set b" for b by (auto simp: trim_end_slashes_def dest: set_dropWhileD)
  then show ?thesis using assms by (auto simp: request_target_def clean_request_def split: option.splits if_splits)
qed

lemma request_text_reads_back:
  assumes "clean_request rq" "\<forall>bs. CHR 0x0D \<notin> set (b64 bs)"
  shows "read_request (request_text b64 rq @ s) = Some (method_as_str (rq_method rq), request_target rq, request_fields b64 rq, s)"
proof -
  let ?l = "method_as_str (rq_method rq) @ '' '' @ request_target rq @ '' HTTP/1.1''"
  have m: "CHR 0x0D \<notin> set (method_as_str (rq_method rq))" "CHR '' '' \<notin> set (method_as_str (rq_method rq))"
    by (cases "rq_method rq"; simp)+
  note t = target_clean [OF assms(1)]
  have "read_line (?l @ CRLF @ (concat (map field_text (request_fields b64 rq)) @ CRLF @ s)) =
      Some (?l, concat (map field_text (request_fields b64 rq)) @ CRLF @ s)"
    by (rule read_line_append) (use m t in auto)
  moreover have "split_on (CHR '' '') ?l = [method_as_str (rq_method rq), request_target rq, ''HTTP/1.1'']"
    using split_on_join [of "[method_as_str (rq_method rq), request_target rq, ''HTTP/1.1'']" "CHR '' ''"] m t by simp
  ultimately show ?thesis using read_fields_text [OF request_fields_clean [OF assms], of s]
    by (simp add: read_request_def request_text_def)
qed

section \<open>Requests with their bodies\<close>

lemma fixed_pieces_send:
  assumes "writer_law wo sent"
  shows "write_pieces (\<lambda>fw p. Some (fixed_write_all wo fw p)) fw ps = Some (Inr u, fw') \<Longrightarrow>
    sent (fw_conn fw') = sent (fw_conn fw) @ concat ps \<and> fw_written fw' = fw_written fw + length (concat ps)"
proof (induction ps arbitrary: fw)
  case (Cons p ps)
  then obtain fw1 where f: "fixed_write_all wo fw p = (Inr (), fw1)"
    and r: "write_pieces (\<lambda>fw p. Some (fixed_write_all wo fw p)) fw1 ps = Some (Inr u, fw')"
    by (auto split: sum.splits prod.splits)
  from f have "sent (fw_conn fw1) = sent (fw_conn fw) @ p" "fw_written fw1 = fw_written fw + length p"
    by (auto simp: fixed_write_all_def split: prod.splits sum.splits dest: write_allD [OF assms])
  with Cons.IH [OF r] show ?case by simp
qed auto

lemma net_err_Inr [simp]: "net_err m = (Inr x, s) \<longleftrightarrow> m = (Inr x, s)"
  by (auto simp: net_err_def split: prod.splits sum.splits)

lemma unbuffered_chunks_send:
  assumes "hex_law hx" "writer_law wo sent" "write_unbuffered_chunks hx wo ps c = Some (Inr (), c')"
    and "\<forall>p \<in> set ps. length p < 2 ^ 32"
  shows "\<exists>text. sent c' = sent c @ text \<and> decode_chunks hx text = Inr (concat ps, [])"
proof -
  from assms(3) obtain c1 where p: "write_pieces (chunked_write_all hx wo) c ps = Some (Inr (), c1)"
    and t: "chunked_terminate wo c1 = (Inr (), c')"
    by (auto simp: write_unbuffered_chunks_def op_bind_Inr_iff)
  let ?cs = "filter (\<lambda>p. p \<noteq> []) ps"
  have "sent c1 = sent c @ chunks_text hx ?cs" using chunked_pieces_send [OF assms(1,2), of c ps] p by auto
  moreover have "sent c' = sent c1 @ EMPTY_CHUNK" using t write_allD [OF assms(2)] by (simp add: chunked_terminate_def)
  moreover have "list_all chunk_ok ?cs" using assms(4) by (auto simp: list_all_iff chunk_ok_def)
  moreover have "concat ?cs = concat ps" by (induction ps) auto
  ultimately show ?thesis using decode_chunks_text [OF assms(1), of ?cs "[]"] by auto
qed

text \<open>
  The writers of the connections that send without a buffer of their own agree with what the connection
  of the client has sent.
\<close>

definition conn_law :: "('t, 'b) conn_lib \<Rightarrow> (('t, 'b) HttpConnection \<Rightarrow> u8 list) \<Rightarrow> bool" where
  "conn_law lib sent \<longleftrightarrow> hex_law (cl_hex lib) \<and> writer_law (http_writer lib) sent \<and>
     writer_law (cl_plain lib) (\<lambda>c. sent (HcPlain c)) \<and> writer_law (cl_tls lib) (\<lambda>c. sent (HcTls c)) \<and>
     (\<forall>bs. CHR 0x0D \<notin> set (cl_base64 lib bs))"

text \<open>What the bytes after the fields have to be for a body.\<close>

definition body_sent :: "hex_lib \<Rightarrow> RequestBody option \<Rightarrow> u8 list \<Rightarrow> bool" where
  "body_sent hx rb bs \<longleftrightarrow> (case rb of
     None \<Rightarrow> bs = []
   | Some b \<Rightarrow> (case rb_len b of
       None \<Rightarrow> decode_chunks hx bs = Inr (concat (rb_pieces b), [])
     | Some len \<Rightarrow> length bs = len \<and> (len \<noteq> 0 \<longrightarrow> bs = concat (rb_pieces b))))"

text \<open>
  C35: A request arrives as it was built. When writing a request succeeds, with fields free of carriage
  returns and a target free of blanks, on a connection that is TLS or plain without a buffer (or
  buffered, if the length of the body is known), then the bytes sent are a head that reads back as the
  method, the target below the base path, and the fields in their order, followed by the body: nothing
  without a body, as many bytes as its \<open>Content-Length\<close> says, or chunks that decode to it.
\<close>
theorem request_arrives_as_built:
  assumes "conn_law lib sent" "clean_request rq" "write_request lib rq conn = Some (Inr (), conn')"
    and "\<forall>b. rq_body rq = Some b \<longrightarrow> rb_len b = None \<longrightarrow> (\<forall>c. conn' \<noteq> HcPlainBuffered c) \<and> (\<forall>p \<in> set (rb_pieces b). length p < 2 ^ 32)"
  shows "\<exists>text body. sent conn' = sent conn @ string_bytes text @ body \<and>
    read_request text = Some (method_as_str (rq_method rq), request_target rq, request_fields (cl_base64 lib) rq, []) \<and>
    body_sent (cl_hex lib) (rq_body rq) body"
proof -
  let ?text = "request_text (cl_base64 lib) rq"
  have wo: "writer_law (http_writer lib) sent" and hx: "hex_law (cl_hex lib)" using assms(1) by (simp_all add: conn_law_def)
  from assms(3) obtain conn1 where h: "write_header (cl_base64 lib) (http_writer lib) rq conn = (Inr (), conn1)"
    and b: "(case rq_body rq of None \<Rightarrow> Some (Inr (), conn1)
       | Some b \<Rightarrow> (case rb_len b of
              Some len \<Rightarrow> if len = 0 then Some (Inr (), conn1) else write_fixed_body lib len (rb_pieces b) conn1
            | None \<Rightarrow> write_chunked_body lib (rb_pieces b) conn1)) = Some (Inr (), conn')"
    unfolding write_request_def by (auto simp: op_bind_Inr_iff)
  have s: "sent conn1 = sent conn @ string_bytes ?text" using sends_request [OF wo] h by (simp add: sends_def)
  have "\<exists>body. sent conn' = sent conn1 @ body \<and> body_sent (cl_hex lib) (rq_body rq) body"
  proof (cases "rq_body rq")
    case None
    with b show ?thesis by (simp add: body_sent_def)
  next
    case (Some rb)
    note rb = this
    show ?thesis
    proof (cases "rb_len rb")
      case None
      then show ?thesis using b rb assms(4) unbuffered_chunks_send [OF hx, of "cl_plain lib" "\<lambda>c. sent (HcPlain c)" "rb_pieces rb"]
          unbuffered_chunks_send [OF hx, of "cl_tls lib" "\<lambda>c. sent (HcTls c)" "rb_pieces rb"] assms(1)
        by (cases conn1) (fastforce simp: body_sent_def conn_law_def)+
    next
      case (Some len)
      then show ?thesis using b rb fixed_pieces_send [OF wo, of "fixed_writer_new conn1" "rb_pieces rb"]
        by (auto simp: body_sent_def write_fixed_body_def op_bind_Inr_iff fixed_writer_new_def split: if_splits)
    qed
  qed
  then show ?thesis using s request_text_reads_back [OF assms(2), of "cl_base64 lib" "[]"] assms(1)
    by (auto simp: conn_law_def)
qed

text \<open>A library over lists of bytes, and a request with a body in chunks below a base path.\<close>

fun bytes_sent :: "(u8 list, u8 list) HttpConnection \<Rightarrow> u8 list" where
  "bytes_sent (HcPlain c) = c"
| "bytes_sent (HcPlainBuffered b) = b"
| "bytes_sent (HcTls c) = tls_delegate c"

fun add_bytes :: "u8 list \<Rightarrow> (u8 list, u8 list) HttpConnection \<Rightarrow> (u8 list, u8 list) HttpConnection" where
  "add_bytes bs (HcPlain c) = HcPlain (c @ bs)"
| "add_bytes bs (HcPlainBuffered b) = HcPlainBuffered (b @ bs)"
| "add_bytes bs (HcTls c) = HcTls (c\<lparr>tls_delegate := tls_delegate c @ bs\<rparr>)"

definition list_lib :: "(u8 list, u8 list) conn_lib" where
  "list_lib = \<lparr>cl_plain = sink, cl_buffered = sink,
     cl_tls = \<lparr>wo_write = \<lambda>c bs. (Inr (length bs), c\<lparr>tls_delegate := tls_delegate c @ bs\<rparr>),
       wo_write_all = \<lambda>c bs. (Inr (), c\<lparr>tls_delegate := tls_delegate c @ bs\<rparr>), wo_flush = \<lambda>c. (Inr (), c)\<rparr>,
     cl_write_all = \<lambda>c bs. (Inr (), add_bytes bs c),
     cl_plain_read = \<lambda>c n. (Inr [], c), cl_buffered_read = \<lambda>c n. (Inr [], c), cl_tls_read = \<lambda>c n. (Inr [], c),
     cl_tls_fill_buf = \<lambda>c. (Inr [], c), cl_tls_consume = \<lambda>c n. c,
     cl_split = \<lambda>b. (b, replicate 32 0, 0), cl_joined = \<lambda>b c buf. c, cl_clear = \<lambda>b. b,
     cl_base64 = \<lambda>bs. map (\<lambda>b. if b < 128 then CHR ''A'' else CHR ''B'') bs, cl_hex = hex_crate\<rparr>"

lemma list_lib_law: "conn_law list_lib bytes_sent"
proof -
  have "bytes_sent (add_bytes bs c) = bytes_sent c @ bs" for bs c by (cases c) simp_all
  moreover have "http_write list_lib c bs = (Inr n, c') \<Longrightarrow> n \<le> length bs \<and> bytes_sent c' = bytes_sent c @ take n bs" for c bs n c'
    by (cases c) (auto simp: list_lib_def sink_def)
  moreover have "http_flush list_lib c = (Inr (), c') \<Longrightarrow> bytes_sent c' = bytes_sent c" for c c'
    by (cases c) (auto simp: list_lib_def sink_def)
  ultimately have "writer_law (http_writer list_lib) bytes_sent"
    by (auto simp: writer_law_def http_writer_def list_lib_def)
  then show ?thesis using hex_crate_law sink_law
    by (auto simp: conn_law_def list_lib_def writer_law_def)
qed

definition sample_request :: Request where
  "sample_request = with_headers [(''Accept-Encoding'', ''identity'')]
     (with_body \<lparr>rb_len = None, rb_pieces = [[1, 2], [], [3]]\<rparr> (with_host ''h'' ((request_post ''fw'')\<lparr>rq_base_path := Some ''/api/''\<rparr>)))"

fun sent_of :: "((HttpError + unit) \<times> (u8 list, u8 list) HttpConnection) option \<Rightarrow> u8 list option" where
  "sent_of (Some (Inr _, HcPlain c)) = Some c"
| "sent_of _ = None"

lemma sample_request_sent: "sent_of (write_request list_lib sample_request (HcPlain [7])) \<noteq> None"
  by code_simp

theorem request_arrives_as_built_witness:
  "\<exists>wire text body. write_request list_lib sample_request (HcPlain [7]) = Some (Inr (), HcPlain (7 # wire)) \<and>
     wire = string_bytes text @ body \<and> read_request text = Some (''POST'', ''/api/fw'',
       [(''Host'', ''h''), (''Transfer-Encoding'', ''chunked''), (''Accept-Encoding'', ''identity'')], []) \<and>
     decode_chunks hex_crate body = Inr ([1, 2, 3], [])"
proof -
  obtain wire where w: "write_request list_lib sample_request (HcPlain [7]) = Some (Inr (), HcPlain wire)"
    using sample_request_sent
    by (cases "write_request list_lib sample_request (HcPlain [7])" rule: sent_of.cases) auto
  have "clean_request sample_request" by code_simp
  moreover have "request_target sample_request = ''/api/fw''"
    "request_fields b64 sample_request = [(''Host'', ''h''), (''Transfer-Encoding'', ''chunked''), (''Accept-Encoding'', ''identity'')]"
    "method_as_str (rq_method sample_request) = ''POST''" for b64
    by (simp_all add: request_target_def request_fields_def sample_request_def with_headers_def with_body_def with_host_def
        request_post_def request_new_def request_default_def trim_end_slashes_def optional_field_def body_field_def)
  moreover have "rq_body sample_request = Some \<lparr>rb_len = None, rb_pieces = [[1, 2], [], [3]]\<rparr>" "cl_hex list_lib = hex_crate"
    by (simp_all add: sample_request_def with_headers_def with_body_def list_lib_def)
  ultimately show ?thesis using request_arrives_as_built [OF list_lib_law _ w] w
    by (simp add: body_sent_def) blast
qed

text \<open>Nothing keeps line breaks out of a field, so a value can add fields of its own.\<close>

lemma field_injected:
  "read_request (request_text b64 (with_host (''h'' @ CRLF @ ''X: y'') (request_get ''/''))) =
   Some (''GET'', ''/'', [(''Host'', ''h''), (''X'', ''y'')], [])"
  by (simp add: request_text_def request_target_def request_fields_def optional_field_def with_host_def request_get_def
      request_new_def request_default_def field_text_def CRLF_def read_request_def read_fields.simps read_field_def)

section \<open>Requests over TLS\<close>

lemma opened_only:
  assumes "map_option (\<lambda>(r, con, _). case r of Inl _ \<Rightarrow> Inl e | Inr _ \<Rightarrow> Inr (HcTls con)) m = Some (Inr conn)"
  shows "\<exists>con p. m = Some (Inr (), con, p) \<and> conn = HcTls con"
proof (cases m)
  case (Some x)
  obtain r con p where "x = (r, con, p)" by (cases x)
  with Some assms show ?thesis by (cases r) auto
qed (use assms in simp)

text \<open>
  C34: An HTTPS request never leaves in the clear. With a TLS configuration, a request to an HTTPS URL
  that the client hands out has an open TLS connection, whose keys come from a transcript closed by a
  \<open>Finished\<close> of the peer under the key exchange of this connection, and it names the method, the host
  and the path of the URL.
\<close>
theorem https_request_agreed:
  assumes "http_request env (Some tls) method url = Some (Inr h)" "he_parse_url env url = Some u" "url_scheme u = HTTPS"
  shows "\<exists>con ks. hh_conn h = HcTls con \<and> tls_opened con \<and>
    agreed (he_suite env) (snd (he_rng env (ht_seed tls))) (ks_transcript_hash ks) \<and>
    initialize_master_secret (su_crypto (he_suite env)) ks = (Inr (), tls_key_schedule con) \<and>
    hh_request h = Some (with_host (url_host u) (request_new method (url_path u)))"
proof -
  from assms obtain conn where c: "http_connect env (Some tls) u = Some (Inr conn)" "hh_conn h = conn"
    "hh_request h = Some (with_host (url_host u) (request_new method (url_path u)))"
    by (auto simp: http_request_def result_bind_Inr_iff)
  with assms(3) obtain sock where "http_connect_tls env tls (url_host u) sock = Some (Inr conn)"
    by (auto simp: http_connect_def split: option.splits sum.splits)
  then obtain config con provider con' provider' where "conn = HcTls con'"
    and o: "tls_open (he_suite env) (he_pki env) (he_transport env) config (fst (he_rng env (ht_seed tls)))
       (snd (he_rng env (ht_seed tls))) (con, provider) = Some (Inr (), con', provider')"
    by (cases "he_rng env (ht_seed tls)")
      (auto simp: http_connect_tls_def Let_def bind_eq_Some_conv simp del: map_option_eq_Some dest!: opened_only)
  with tls_open_agreed [OF o] c show ?thesis by auto
qed

text \<open>Without a configuration the same URL is asked in the clear.\<close>

lemma https_without_tls_is_plain:
  assumes "he_resolve env (url_host u) = Some a" "he_socket env a (url_port_or_default u) = Inr c"
  shows "http_connect env None u = Some (Inr (HcPlain c))"
  using assms by (simp add: http_connect_def)

definition plain_env :: "(unit, u8 list, u8 list) http_env" where
  "plain_env = \<lparr>he_parse_url = \<lambda>_. Some \<lparr>url_scheme = HTTPS, url_host = ''h'', url_port_or_default = 443, url_path = ''/fw''\<rparr>,
     he_resolve = \<lambda>_. Some (), he_socket = \<lambda>_ _. Inr server_bytes, he_buffered = \<lambda>c _. c, he_rng = \<lambda>_. ([1], [2]),
     he_signing_key = \<lambda>_. None, he_suite = plain_suite, he_pki = no_pki, he_transport = byte_stream\<rparr>"

definition sample_tls :: ClientTls where
  "sample_tls = client_tls_new 5 (replicate 60 0) (replicate 200 0) (VerifyCertificate [98] None None None)"

fun handed_out :: "(HttpError + 'h) option \<Rightarrow> bool" where
  "handed_out (Some (Inr _)) = True"
| "handed_out _ = False"

lemma sample_request_opens: "handed_out (http_request plain_env (Some sample_tls) GET ''https://h/fw'')"
  by (code_simp, subst open_loop.simps, code_simp, subst open_loop.simps, code_simp, subst open_loop.simps, code_simp,
      subst open_loop.simps, code_simp, subst open_loop.simps, code_simp)

theorem https_request_agreed_witness:
  "\<exists>h con. http_request plain_env (Some sample_tls) GET ''https://h/fw'' = Some (Inr h) \<and> hh_conn h = HcTls con \<and>
     tls_opened con \<and> hh_request h = Some (with_host ''h'' (request_get ''/fw''))"
proof -
  obtain h where h: "http_request plain_env (Some sample_tls) GET ''https://h/fw'' = Some (Inr h)"
    using sample_request_opens by (cases "http_request plain_env (Some sample_tls) GET ''https://h/fw''" rule: handed_out.cases) auto
  from https_request_agreed [OF this] show ?thesis using h by (auto simp: plain_env_def request_get_def)
qed

end
