(* ===== verification/Tls_Session.thy ===== *)
theory Tls_Session
  imports Tls_Handshake
begin

text \<open>
  The open TLS connection, \<open>tools/embedded-tls/src/asynch.rs\<close>: writing, flushing, reading and closing,
  with the view of the decrypted bytes (\<open>read_buffer.rs\<close>, \<open>common/\<close>). The blocking connection and the
  halves of a split connection take the same steps. A panic is \<open>None\<close>, and so is a read that never ends.
\<close>

section \<open>The decrypted bytes\<close>

definition di_remaining :: "DecryptedBufferInfo \<Rightarrow> nat" where
  "di_remaining info = di_len info - di_consumed info"

definition di_is_empty :: "DecryptedBufferInfo \<Rightarrow> bool" where
  "di_is_empty info \<longleftrightarrow> di_remaining info = 0"

text \<open>A read buffer: the bytes, how many are consumed, and whether it was used at all.\<close>

record ReadBuffer =
  rbuf_data :: "u8 list"
  rbuf_consumed :: nat
  rbuf_used :: bool

definition create_read_buffer :: "u8 list \<Rightarrow> DecryptedBufferInfo \<Rightarrow> ReadBuffer" where
  "create_read_buffer buffer info =
     \<lparr>rbuf_data = take (di_remaining info) (drop (di_offset info + di_consumed info) buffer), rbuf_consumed = 0, rbuf_used = False\<rparr>"

definition rbuf_len :: "ReadBuffer \<Rightarrow> nat" where
  "rbuf_len rb = length (rbuf_data rb) - rbuf_consumed rb"

definition rbuf_peek :: "nat \<Rightarrow> ReadBuffer \<Rightarrow> u8 list \<times> ReadBuffer" where
  "rbuf_peek count rb = (take (min (rbuf_len rb) count) (drop (rbuf_consumed rb) (rbuf_data rb)), rb\<lparr>rbuf_used := True\<rparr>)"

definition rbuf_peek_all :: "ReadBuffer \<Rightarrow> u8 list \<times> ReadBuffer" where
  "rbuf_peek_all rb = rbuf_peek (rbuf_len rb) rb"

definition rbuf_pop :: "nat \<Rightarrow> ReadBuffer \<Rightarrow> u8 list \<times> ReadBuffer" where
  "rbuf_pop count rb =
     (let count = min (rbuf_len rb) count
      in (take count (drop (rbuf_consumed rb) (rbuf_data rb)), rb\<lparr>rbuf_consumed := rbuf_consumed rb + count, rbuf_used := True\<rparr>))"

definition rbuf_pop_all :: "ReadBuffer \<Rightarrow> u8 list \<times> ReadBuffer" where
  "rbuf_pop_all rb = rbuf_pop (rbuf_len rb) rb"

text \<open>Filling a buffer of a length gives the bytes copied to it.\<close>

definition rbuf_pop_into :: "nat \<Rightarrow> ReadBuffer \<Rightarrow> u8 list \<times> ReadBuffer" where
  "rbuf_pop_into buf_len rb = rbuf_pop buf_len rb"

text \<open>Dropping a read buffer consumes what was popped, or everything when it was never used.\<close>

definition rbuf_drop :: "ReadBuffer \<Rightarrow> DecryptedBufferInfo \<Rightarrow> DecryptedBufferInfo" where
  "rbuf_drop rb info =
     info\<lparr>di_consumed := di_consumed info + (if rbuf_used rb then rbuf_consumed rb else length (rbuf_data rb))\<rparr>"

section \<open>Records while the connection is open\<close>

text \<open>
  A ticket is ignored, an alert ends the connection with an error, and any other handshake message is
  not implemented: the code panics.
\<close>

fun read_handler :: "(DecryptedBufferInfo \<times> bool) handler" where
  "read_handler (SrApplicationData data) (ks, info, is_open) =
     Some (Inr (), ks, \<lparr>di_offset = ad_offset data, di_len = length (ad_data data), di_consumed = 0\<rparr>, is_open)"
| "read_handler (SrAlert alert) (ks, info, is_open) =
     Some (if al_description alert = CloseNotify then (Inl ConnectionClosed, ks, info, False)
           else (Inl TlsInternalError, ks, info, is_open))"
| "read_handler SrChangeCipherSpec s = Some (Inl TlsInternalError, s)"
| "read_handler (SrHandshake ShNewSessionTicket) s = Some (Inr (), s)"
| "read_handler (SrHandshake _) s = None"

definition read_application_data :: "tls_suite \<Rightarrow> 't transport \<Rightarrow> 't TlsConnection \<Rightarrow> ((TlsError + unit) \<times> 't TlsConnection) option" where
  "read_application_data su tr con =
     op_bind (con_read_record (su_crypto su) tr con) (\<lambda>rcd con.
       map_option (\<lambda>(r, buf, ks, info, is_open).
           (r, con\<lparr>tls_record_reader := tls_record_reader con\<lparr>rr_buf := buf\<rparr>, tls_key_schedule := ks,
                  tls_decrypted := info, tls_opened := is_open\<rparr>))
         (decrypt_record su read_handler rcd
           (rr_buf (tls_record_reader con), tls_key_schedule con, tls_decrypted con, tls_opened con))) (\<lambda>con. con)"

partial_function (option) read_records ::
  "tls_suite \<Rightarrow> 't transport \<Rightarrow> 't TlsConnection \<Rightarrow> ((TlsError + unit) \<times> 't TlsConnection) option" where
  "read_records su tr con =
     (if \<not> di_is_empty (tls_decrypted con) then Some (Inr (), con)
      else Option.bind (read_application_data su tr con) (\<lambda>(r, con).
        case r of Inl e \<Rightarrow> Some (Inl e, con) | Inr _ \<Rightarrow> read_records su tr con))"

definition con_read_buffer :: "'t TlsConnection \<Rightarrow> ReadBuffer" where
  "con_read_buffer con = create_read_buffer (rr_buf (tls_record_reader con)) (tls_decrypted con)"

definition drop_read_buffer :: "ReadBuffer \<Rightarrow> 't TlsConnection \<Rightarrow> 't TlsConnection" where
  "drop_read_buffer rb con = con\<lparr>tls_decrypted := rbuf_drop rb (tls_decrypted con)\<rparr>"

definition read_buffered :: "tls_suite \<Rightarrow> 't transport \<Rightarrow> 't TlsConnection \<Rightarrow> ((TlsError + ReadBuffer) \<times> 't TlsConnection) option" where
  "read_buffered su tr con =
     (if tls_opened con
      then op_bind (read_records su tr con) (\<lambda>_ con. Some (Inr (con_read_buffer con), con)) (\<lambda>con. con)
      else Some (Inl MissingHandshake, con))"

definition tls_read :: "tls_suite \<Rightarrow> 't transport \<Rightarrow> nat \<Rightarrow> 't TlsConnection \<Rightarrow> ((TlsError + u8 list) \<times> 't TlsConnection) option" where
  "tls_read su tr buf_len con =
     (if buf_len = 0 then Some (Inr [], con)
      else op_bind (read_buffered su tr con) (\<lambda>rb con.
        case rbuf_pop_into buf_len rb of (bs, rb) \<Rightarrow> Some (Inr bs, drop_read_buffer rb con)) (\<lambda>con. con))"

definition tls_fill_buf :: "tls_suite \<Rightarrow> 't transport \<Rightarrow> 't TlsConnection \<Rightarrow> ((TlsError + u8 list) \<times> 't TlsConnection) option" where
  "tls_fill_buf su tr con =
     op_bind (read_buffered su tr con) (\<lambda>rb con.
       case rbuf_peek_all rb of (bs, rb) \<Rightarrow> Some (Inr bs, drop_read_buffer rb con)) (\<lambda>con. con)"

definition tls_consume :: "nat \<Rightarrow> 't TlsConnection \<Rightarrow> 't TlsConnection" where
  "tls_consume amt con = drop_read_buffer (snd (rbuf_pop amt (con_read_buffer con))) con"

section \<open>Writing\<close>

text \<open>
  Sending a record: its bytes go to the transport, then the counter moves. A transport that fails
  leaves the counter.
\<close>

definition send_slice :: "'t transport \<Rightarrow> u8 list \<Rightarrow> 't TlsConnection \<Rightarrow> ((TlsError + unit) \<times> 't TlsConnection) option" where
  "send_slice tr tx con =
     (case tr_write_all tr (tls_delegate con) tx of
        (Inl e, t) \<Rightarrow> Some (Inl (TlsIo e), con\<lparr>tls_delegate := t\<rparr>)
      | (Inr _, t) \<Rightarrow>
          map_option (\<lambda>ks. (Inr (), con\<lparr>tls_delegate := t, tls_key_schedule := ks\<rparr>)) (count_sent (tls_key_schedule con)))"

definition tls_flush :: "tls_suite \<Rightarrow> 't transport \<Rightarrow> 't TlsConnection \<Rightarrow> ((TlsError + unit) \<times> 't TlsConnection) option" where
  "tls_flush su tr con =
     (if wb_is_empty (tls_write_buf con) then Some (Inr (), con)
      else op_bind (map_option (\<lambda>(r, wb). (r, con\<lparr>tls_write_buf := wb\<rparr>))
               (close_record su (ks_client (tls_key_schedule con)) (tls_write_buf con))) (\<lambda>tx con.
           op_bind (send_slice tr tx con) (\<lambda>_ con.
             Some (if flush_transport_policy (tls_flush_policy con) then con_flush tr con else (Inr (), con))) (\<lambda>con. con))
         (\<lambda>con. con))"

definition con_start_record :: "'t TlsConnection \<Rightarrow> (TlsError + unit) \<times> 't TlsConnection" where
  "con_start_record con =
     (case start_record HdApplicationData (tls_write_buf con) of (r, wb) \<Rightarrow> (r, con\<lparr>tls_write_buf := wb\<rparr>))"

definition tls_write :: "tls_suite \<Rightarrow> 't transport \<Rightarrow> u8 list \<Rightarrow> 't TlsConnection \<Rightarrow> ((TlsError + nat) \<times> 't TlsConnection) option" where
  "tls_write su tr buf con =
     (if \<not> tls_opened con then Some (Inl MissingHandshake, con)
      else op_bind (if wb_contains HdApplicationData (tls_write_buf con) then Some (Inr (), con)
             else op_bind (tls_flush su tr con) (\<lambda>_ con. Some (con_start_record con)) (\<lambda>con. con)) (\<lambda>_ con.
           case wb_append buf (tls_write_buf con) of
             (buffered, wb) \<Rightarrow>
               let con = con\<lparr>tls_write_buf := wb\<rparr>
               in op_bind (if wb_is_full wb then tls_flush su tr con else Some (Inr (), con))
                    (\<lambda>_ con. Some (Inr buffered, con)) (\<lambda>con. con)) (\<lambda>con. con))"

definition close_internal :: "tls_suite \<Rightarrow> 't transport \<Rightarrow> 't TlsConnection \<Rightarrow> ((TlsError + unit) \<times> 't TlsConnection) option" where
  "close_internal su tr con =
     op_bind (tls_flush su tr con) (\<lambda>_ con.
     op_bind (con_write_record su (close_notify (tls_opened con)) con) (\<lambda>tx con.
     op_bind (send_slice tr tx con) (\<lambda>_ con. Some (con_flush tr con)) (\<lambda>con. con)) (\<lambda>con. con)) (\<lambda>con. con)"

definition tls_close :: "tls_suite \<Rightarrow> 't transport \<Rightarrow> 't TlsConnection \<Rightarrow> (TlsError \<times> 't + 't) option" where
  "tls_close su tr con =
     map_option (\<lambda>(r, con). case r of Inl e \<Rightarrow> Inl (e, tls_delegate con) | Inr _ \<Rightarrow> Inr (tls_delegate con)) (close_internal su tr con)"

text \<open>
  A handshake message or an alert in the clear reaches the handler as it is: anyone on the path can make
  the client panic, or believe that the server closed the connection.
\<close>

lemma plain_handshake_panics:
  assumes "h \<noteq> ShNewSessionTicket"
  shows "decrypt_record su read_handler (SrHandshake h) (buf, ks, info, True) = None"
  using assms by (cases h) (simp_all add: decrypt_record_def)

lemma plain_alert_closes:
  "al_description alert = CloseNotify \<Longrightarrow>
   decrypt_record su read_handler (SrAlert alert) (buf, ks, info, True) = Some (Inl ConnectionClosed, buf, ks, info, False)"
  by (simp add: decrypt_record_def)

end
