(* ===== verification/Tls_Stream.thy ===== *)
theory Tls_Stream
  imports Tls_Session
begin

text \<open>
  What an open TLS connection sends is a stream: its records, decrypted one by one with the keys and the
  counters of the client, hold the bytes it accepted, in order and once.
\<close>

section \<open>Decoding a stream of records\<close>

text \<open>A peer with the same key: the application data of consecutive records.\<close>

function decode_records :: "tls_suite \<Rightarrow> KeyScheduleState \<Rightarrow> u8 list \<Rightarrow> (u8 list \<times> KeyScheduleState) option" where
  "decode_records su st wire =
     (if wire = [] then Some ([], st)
      else let front = take 5 wire; len = record_content_length front; payload = take len (drop 5 wire)
        in if length wire < 5 + len \<or> hd wire \<noteq> content_type_code CtApplicationData then None
           else (case su_open su (kst_key st) (kst_get_nonce (su_crypto su) st) front payload of
             None \<Rightarrow> None
           | Some plain \<Rightarrow>
               if strip_padding plain = [] \<or> last (strip_padding plain) \<noteq> content_type_code CtApplicationData then None
               else (case increment_counter st of
                 None \<Rightarrow> None
               | Some st \<Rightarrow> map_option (\<lambda>(data, st). (butlast (strip_padding plain) @ data, st))
                   (decode_records su st (drop (5 + len) wire)))))"
  by pat_completeness auto
termination by (relation "measure (\<lambda>(_, _, wire). length wire)") auto

declare decode_records.simps [simp del]

lemma decode_records_Nil [simp]: "decode_records su st [] = Some ([], st)"
  by (simp add: decode_records.simps)

lemma decode_records_append:
  "decode_records su st v = Some (d, st') \<Longrightarrow> decode_records su st' w = Some (e, st'') \<Longrightarrow>
   decode_records su st (v @ w) = Some (d @ e, st'')"
proof (induction su st v arbitrary: d rule: decode_records.induct)
  case (1 su st v)
  show ?case
  proof (cases "v = []")
    case True
    with 1 show ?thesis by simp
  next
    case False
    let ?len = "record_content_length (take 5 v)"
    obtain plain st1 d1 where s: "\<not> length v < 5 + ?len" "hd v = content_type_code CtApplicationData"
      "su_open su (kst_key st) (kst_get_nonce (su_crypto su) st) (take 5 v) (take ?len (drop 5 v)) = Some plain"
      "strip_padding plain \<noteq> []" "last (strip_padding plain) = content_type_code CtApplicationData"
      "increment_counter st = Some st1" "decode_records su st1 (drop (5 + ?len) v) = Some (d1, st')"
      "d = butlast (strip_padding plain) @ d1"
      using 1(2) False by (subst (asm) decode_records.simps) (auto simp: Let_def split: if_splits option.splits)
    have "decode_records su st1 (drop (5 + ?len) v @ w) = Some (d1 @ e, st'')"
      by (rule 1(1) [OF False refl refl refl _ s(3) _ s(6,7) 1(3)]) (use s in auto)
    moreover have "take 5 (v @ w) = take 5 v" "take ?len (drop 5 (v @ w)) = take ?len (drop 5 v)"
      "drop (5 + ?len) (v @ w) = drop (5 + ?len) v @ w" using s(1) by auto
    ultimately show ?thesis using s False
      by (subst decode_records.simps) (simp add: Let_def)
  qed
qed

section \<open>One record\<close>

definition aead_law :: "tls_suite \<Rightarrow> bool" where
  "aead_law su \<longleftrightarrow> (\<forall>key nonce aad plain ct tag. su_seal su key nonce aad plain = Some (ct, tag) \<longrightarrow>
     length ct = length plain \<and> length tag = su_tag_len su \<and> su_open su key nonce aad (ct @ tag) = Some plain)"

lemma u16_bytes_roundtrip: "u16_from_be_bytes (ucast (drop_bit 8 w)) (ucast w) = w"
  by (rule bit_word_eqI) (auto simp: u16_from_be_bytes_def bit_simps)

lemma content_length_header: "n < 65536 \<Longrightarrow> record_content_length ([a, b, c] @ u16_to_be_bytes (of_nat n)) = n"
  by (simp add: record_content_length_def u16_to_be_bytes_def u16_bytes_roundtrip unat_of_nat take_bit_nat_eq_self)

text \<open>A write buffer between records, and one with a record of application data that was begun.\<close>

definition wb_idle :: "WriteBuffer \<Rightarrow> bool" where
  "wb_idle wb \<longleftrightarrow> wb_pos wb = 0 \<and> wb_current_header wb = None"

definition wb_holds :: "WriteBuffer \<Rightarrow> u8 list \<Rightarrow> bool" where
  "wb_holds wb p \<longleftrightarrow> wb_current_header wb = Some HdApplicationData \<and> wb_pos wb = 5 + length p \<and>
     5 + length p \<le> wb_max_block_size wb \<and> (\<exists>rest. wb_buffer wb = [23, 3, 3, 0, 0] @ p @ rest)"

definition wb_sized :: "tls_suite \<Rightarrow> WriteBuffer \<Rightarrow> bool" where
  "wb_sized su wb \<longleftrightarrow> 134 \<le> length (wb_buffer wb) \<and> length (wb_buffer wb) \<le> 65536 \<and> su_tag_len su \<le> 122"

lemma start_holds:
  assumes "wb_idle wb" "wb_sized su wb" "start_record HdApplicationData wb = (r, wb')"
  shows "r = Inr () \<and> wb_holds wb' [] \<and> wb_sized su wb'"
proof -
  define x rest where "x = take 5 (wb_buffer wb)" and "rest = drop 5 (wb_buffer wb)"
  then have b: "wb_buffer wb = x @ rest" "length x = 5" using assms(2) by (simp_all add: wb_sized_def)
  from b(2) obtain a b c d e where x: "x = [a, b, c, d, e]" by (auto simp: numeral_eq_Suc length_Suc_conv)
  have l: "134 \<le> 5 + length rest" using assms(2) b by (simp add: wb_sized_def)
  then show ?thesis using assms
    by (auto simp: start_record_def with_buffer_def then_rewind_def on_buffer_def header_encode_def encode_err_def
        header_version_def cb_push_def cb_extend_def cb_space_def cb_capacity_def wrap_with_pos_def push_u16_def
        u16_to_be_bytes_def cb_rewind_def cb_offset_to_def splice_def wb_idle_def wb_holds_def wb_sized_def
        wb_max_block_size_def TLS_RECORD_OVERHEAD_def b x)
qed

lemma splice_middle: "length xs = i \<Longrightarrow> length ys = length new \<Longrightarrow> splice (xs @ ys @ zs) i new = xs @ new @ zs"
  by (simp add: splice_def)

lemma append_holds:
  assumes "wb_holds wb p" "wb_append buf wb = (n, wb')"
  shows "wb_holds wb' (p @ take n buf) \<and> n \<le> length buf \<and> length (wb_buffer wb') = length (wb_buffer wb) \<and>
    (buf \<noteq> [] \<longrightarrow> 5 + length p < wb_max_block_size wb \<longrightarrow> 0 < n)"
proof -
  from assms(1) obtain rest where b: "wb_buffer wb = [23, 3, 3, 0, 0] @ p @ rest" by (auto simp: wb_holds_def)
  have q: "wb_pos wb = 5 + length p" using assms(1) by (simp add: wb_holds_def)
  have n: "n = min (length buf) (wb_max_block_size wb - (5 + length p))"
    using assms(2) by (simp add: wb_append_def wb_space_def q Let_def)
  have w: "wb' = (if 0 < n then wb\<lparr>wb_buffer := splice (wb_buffer wb) (5 + length p) (take n buf), wb_pos := 5 + length p + n\<rparr> else wb)"
    using assms(2) [unfolded wb_append_def wb_space_def q Let_def, folded n] by simp
  have m: "wb_max_block_size wb = length p + length rest + 5 - 128" by (simp add: wb_max_block_size_def TLS_RECORD_OVERHEAD_def b)
  have "n \<le> length rest" using n m assms(1) by (auto simp: wb_holds_def)
  then have s: "splice (wb_buffer wb) (5 + length p) (take n buf) = [23, 3, 3, 0, 0] @ (p @ take n buf) @ drop n rest"
    using n splice_middle [of "[23, 3, 3, 0, 0] @ p" "5 + length p" "take n rest" "take n buf" "drop n rest"] by (simp add: b)
  have w': "wb_buffer wb' = [23, 3, 3, 0, 0] @ (p @ take n buf) @ drop n rest" "wb_pos wb' = 5 + length p + n"
    "wb_current_header wb' = Some HdApplicationData"
    using assms(1) s b q by (simp_all add: w wb_holds_def)
  moreover have nb: "n \<le> length buf" "length p + n + 5 \<le> wb_max_block_size wb" using n assms(1) by (auto simp: wb_holds_def)
  moreover from w' have "wb_max_block_size wb' = wb_max_block_size wb" "length (wb_buffer wb') = length (wb_buffer wb)"
    using \<open>n \<le> length rest\<close> nb(1) by (simp_all add: wb_max_block_size_def b min_absorb2)
  moreover have "buf \<noteq> [] \<longrightarrow> 5 + length p < wb_max_block_size wb \<longrightarrow> 0 < n" using n by simp
  ultimately show ?thesis by (simp add: wb_holds_def)
qed

text \<open>
  Bytes that are sealed records one after the other, each with the nonce it was sealed with: the first
  under the state \<open>st\<close>, and the counter moving by one from record to record until the state \<open>st'\<close>.
\<close>

definition sealed_with :: "tls_suite \<Rightarrow> u8 list \<Rightarrow> u8 list \<times> u8 list \<Rightarrow> bool" where
  "sealed_with su key = (\<lambda>(nonce, rcd). \<exists>plain ct tag.
     su_seal su key nonce (take 5 rcd) plain = Some (ct, tag) \<and> rcd = take 5 rcd @ ct @ tag)"

fun sealed_records :: "tls_suite \<Rightarrow> KeyScheduleState \<Rightarrow> (u8 list \<times> u8 list) list \<Rightarrow> KeyScheduleState \<Rightarrow> bool" where
  "sealed_records su st [] st' \<longleftrightarrow> st' = st"
| "sealed_records su st (r # rs) st' \<longleftrightarrow> fst r = kst_get_nonce (su_crypto su) st \<and> sealed_with su (kst_key st) r \<and>
     (\<exists>st1. increment_counter st = Some st1 \<and> sealed_records su st1 rs st')"

definition protected :: "tls_suite \<Rightarrow> KeyScheduleState \<Rightarrow> u8 list \<Rightarrow> KeyScheduleState \<Rightarrow> bool" where
  "protected su st wire st' \<longleftrightarrow> (\<exists>rs. wire = concat (map snd rs) \<and> sealed_records su st rs st')"

lemma protected_Nil [simp]: "protected su st [] st"
  by (auto simp: protected_def intro: exI [of _ "[]"])

lemma sealed_append:
  "sealed_records su st rs st1 \<Longrightarrow> sealed_records su st1 rs' st' \<Longrightarrow> sealed_records su st (rs @ rs') st'"
  by (induction rs arbitrary: st) auto

lemma protected_append: "protected su st v st1 \<Longrightarrow> protected su st1 w st' \<Longrightarrow> protected su st (v @ w) st'"
  unfolding protected_def using sealed_append by (metis concat_append map_append)

lemma sealed_uses:
  assumes "sealed_records su st rs st'" "i < length rs"
  obtains s where "key_use st i = Some s" "fst (rs ! i) = kst_get_nonce (su_crypto su) s" "sealed_with su (kst_key st) (rs ! i)"
proof -
  have "\<exists>s. key_use st i = Some s \<and> fst (rs ! i) = kst_get_nonce (su_crypto su) s \<and> sealed_with su (kst_key st) (rs ! i)"
    if "sealed_records su st rs st'" "i < length rs" for st i
    using that
  proof (induction rs arbitrary: st i)
    case (Cons r rs)
    then obtain st1 where st1: "increment_counter st = Some st1" "sealed_records su st1 rs st'" by auto
    have k: "kst_key st1 = kst_key st" using st1(1) by (auto simp: increment_counter_def split: if_splits)
    show ?case
    proof (cases i)
      case 0
      with Cons.prems show ?thesis by simp
    next
      case (Suc j)
      have "key_use st (Suc j) = key_use st1 j" by (induction j) (simp_all add: st1(1))
      with Cons.IH [OF st1(2), of j] Cons.prems(2) Suc k show ?thesis by simp
    qed
  qed simp
  with assms that show thesis by blast
qed

text \<open>Closing a record gives its header, the cipher text and the tag; a peer decodes it.\<close>

lemma close_holds:
  assumes "aead_law su" "wb_sized su wb" "wb_holds wb p" "close_record su st wb = Some (Inr tx, wb')" "increment_counter st = Some st'"
  shows "wb_idle wb' \<and> length (wb_buffer wb') = length (wb_buffer wb) \<and> decode_records su st tx = Some (p, st') \<and>
    protected su st tx st'"
proof -
  from assms(3) obtain rest where b: "wb_buffer wb = [23, 3, 3, 0, 0] @ p @ rest" and h: "wb_current_header wb = Some HdApplicationData"
    and q: "wb_pos wb = 5 + length p" and m: "5 + length p \<le> wb_max_block_size wb" by (auto simp: wb_holds_def)
  have r: "123 \<le> length rest" using m by (simp add: wb_max_block_size_def TLS_RECORD_OVERHEAD_def b)
  then obtain x rest' where x: "rest = x # rest'" by (cases rest) auto
  have t: "su_tag_len su \<le> length rest'" using r x assms(2) by (simp add: wb_sized_def)
  define n where "n = length p + 1 + su_tag_len su"
  define front where "front = [23, 3, 3] @ u16_to_be_bytes (of_nat n)"
  have n: "n < 65536" using assms(2) t by (simp add: n_def wb_sized_def b x)
  define c where "c = \<lparr>cb_buf = [23, 3, 3, 0, 0] @ (p @ [23]) @ rest', cb_offset = 5, cb_len = length p + 1\<rparr>"
  then have c [simp]: "cb_buf c = [23, 3, 3, 0, 0] @ (p @ [23]) @ rest'" "cb_offset c = 5" "cb_len c = length p + 1" by simp_all
  have payload: "close_payload su st HdApplicationData (wrap_with_pos (wb_buffer wb) (wb_pos wb)) =
      st_bind (tls_encrypt su st c) (\<lambda>_ c. (Inr (), cb_rewind c))"
    by (simp add: close_payload_def encode_err_def cb_push_def cb_space_def cb_capacity_def wrap_with_pos_def b q x
        cb_offset_to_def HEADER_SIZE_def list_update_append c_def)
  have enc: "tls_encrypt su st c = (case su_seal su (kst_key st) (kst_get_nonce (su_crypto su) st) front (p @ [23]) of
      None \<Rightarrow> (Inl InvalidApplicationData, c)
    | Some (ciphertext, tag) \<Rightarrow> st_map_err (\<lambda>_. InvalidApplicationData) (cb_extend tag (cb_replace ciphertext c)))"
    using t by (simp add: tls_encrypt_def cb_capacity_def cb_as_slice_def front_def n_def Let_def)
  from assms(4) h obtain ct tag where s: "su_seal su (kst_key st) (kst_get_nonce (su_crypto su) st) front (p @ [23]) = Some (ct, tag)"
    by (auto simp: close_record_def with_buffer_def on_buffer_def payload enc split: option.splits prod.splits)
  with assms(1) have l: "length ct = length p + 1" "length tag = su_tag_len su"
    and o: "su_open su (kst_key st) (kst_get_nonce (su_crypto su) st) front (ct @ tag) = Some (p @ [23])"
    by (auto simp: aead_law_def)
  have sp: "splice ([23, 3, 3, 0, 0] @ (p @ [23]) @ rest') 5 ct = [23, 3, 3, 0, 0] @ ct @ rest'"
    "splice ([23, 3, 3, 0, 0] @ ct @ rest') (5 + length ct) tag = [23, 3, 3, 0, 0] @ ct @ tag @ drop (length tag) rest'"
    using l t splice_middle [of "[23, 3, 3, 0, 0]" 5 "p @ [23]" ct rest']
      splice_middle [of "[23, 3, 3, 0, 0] @ ct" "5 + length ct" "take (length tag) rest'" tag "drop (length tag) rest'"] by auto
  have ext: "cb_extend tag (cb_replace ct c) =
      (Inr (), \<lparr>cb_buf = [23, 3, 3, 0, 0] @ ct @ tag @ drop (length tag) rest', cb_offset = 5, cb_len = n\<rparr>)"
    using t l sp by (simp add: cb_extend_def cb_replace_def cb_space_def cb_capacity_def n_def c_def)
  define B where "B = [23, 3, 3, 0, 0] @ ct @ tag @ drop (length tag) rest'"
  define B' where "B' = front @ ct @ tag @ drop (length tag) rest'"
  have cp: "close_payload su st HdApplicationData (wrap_with_pos (wb_buffer wb) (wb_pos wb)) =
      (Inr (), \<lparr>cb_buf = B, cb_offset = 0, cb_len = 5 + n\<rparr>)"
    by (simp add: payload enc s ext cb_rewind_def cb_offset_to_def B_def)
  have B': "splice B 3 (u16_to_be_bytes (of_nat n)) = B'"
    using splice_middle [of "[23, 3, 3]" 3 "[0, 0]" "u16_to_be_bytes (of_nat n)" "ct @ tag @ drop (length tag) rest'"]
    by (simp add: B_def B'_def front_def u16_to_be_bytes_def)
  have "close_record su st wb = Some (Inr (take (5 + n) B'), \<lparr>wb_buffer = B', wb_pos = 0, wb_current_header = None\<rparr>)"
    using B' by (simp add: close_record_def with_buffer_def on_buffer_def h cp HEADER_SIZE_def Let_def)
  moreover have fl: "length front = 5" by (simp add: front_def u16_to_be_bytes_def)
  then have "take (5 + n) B' = front @ ct @ tag" "length B' = length (wb_buffer wb)"
    using t l by (simp_all add: B'_def n_def b x)
  ultimately have tx: "tx = front @ ct @ tag" and w: "wb_idle wb'" "length (wb_buffer wb') = length (wb_buffer wb)"
    using assms(4) by (auto simp: wb_idle_def)
  have f: "length front = 5" "record_content_length front = n" "hd front = 23" "front \<noteq> []"
    using content_length_header [OF n, of 23 3 3] by (simp_all add: front_def u16_to_be_bytes_def)
  have "take 5 tx = front" "drop 5 tx = ct @ tag" "length tx = 5 + n" "hd tx = 23" "tx \<noteq> []"
    using f l by (auto simp: tx n_def)
  then have "decode_records su st tx = Some (p, st')"
    using f o assms(5) l by (subst decode_records.simps) (simp add: strip_padding_def n_def)
  moreover have "protected su st tx st'"
    using s assms(5) \<open>take 5 tx = front\<close> unfolding protected_def
    by (intro exI [of _ "[(kst_get_nonce (su_crypto su) st, tx)]"]) (auto simp: sealed_with_def tx f(1))
  ultimately show ?thesis using w by blast
qed

section \<open>The connection\<close>

text \<open>A transport that keeps what it was given, as far as it accepts it.\<close>

definition writes_out :: "'t transport \<Rightarrow> ('t \<Rightarrow> u8 list) \<Rightarrow> bool" where
  "writes_out tr out \<longleftrightarrow> (\<forall>t bs t'. tr_write_all tr t bs = (Inr (), t') \<longrightarrow> out t' = out t @ bs) \<and>
     (\<forall>t r t'. tr_flush tr t = (r, t') \<longrightarrow> out t' = out t)"

text \<open>
  What is on the wire since the start decodes to a part of the bytes accepted, the rest is in the buffer;
  a full buffer was sent.
\<close>

definition sending :: "tls_suite \<Rightarrow> ('t \<Rightarrow> u8 list) \<Rightarrow> u8 list \<Rightarrow> KeyScheduleState \<Rightarrow> u8 list \<Rightarrow> 't TlsConnection \<Rightarrow> bool" where
  "sending su out base st accepted con \<longleftrightarrow> (\<exists>sent pending wire.
     accepted = sent @ pending \<and> out (tls_delegate con) = base @ wire \<and>
     decode_records su st wire = Some (sent, ks_client (tls_key_schedule con)) \<and>
     protected su st wire (ks_client (tls_key_schedule con)) \<and> wb_sized su (tls_write_buf con) \<and>
     (wb_idle (tls_write_buf con) \<and> pending = [] \<or> wb_holds (tls_write_buf con) pending))"

lemma send_slice_Inr:
  assumes "send_slice tr tx con = Some (Inr u, con')"
  obtains t st where "tr_write_all tr (tls_delegate con) tx = (Inr (), t)" "increment_counter (ks_client (tls_key_schedule con)) = Some st"
    "con' = con\<lparr>tls_delegate := t, tls_key_schedule := (tls_key_schedule con)\<lparr>ks_client := st\<rparr>\<rparr>"
  using assms by (auto simp: send_slice_def count_sent_def split: prod.splits sum.splits)

lemma con_flush_keeps:
  assumes "writes_out tr out" "con_flush tr con = (r, con')"
  shows "out (tls_delegate con') = out (tls_delegate con) \<and> tls_write_buf con' = tls_write_buf con \<and>
    tls_key_schedule con' = tls_key_schedule con \<and> tls_opened con' = tls_opened con"
  using assms by (auto simp: con_flush_def writes_out_def split: prod.splits)

lemma flush_sending:
  assumes "aead_law su" "writes_out tr out" "sending su out base st accepted con" "tls_flush su tr con = Some (Inr (), con')"
  shows "sending su out base st accepted con' \<and> wb_idle (tls_write_buf con')"
proof (cases "wb_is_empty (tls_write_buf con)")
  case True
  with assms(3,4) show ?thesis by (auto simp: tls_flush_def wb_is_empty_def sending_def wb_holds_def)
next
  case False
  obtain sent pending wire where s: "accepted = sent @ pending" "out (tls_delegate con) = base @ wire"
    "decode_records su st wire = Some (sent, ks_client (tls_key_schedule con))" "wb_sized su (tls_write_buf con)"
    "wb_holds (tls_write_buf con) pending" "protected su st wire (ks_client (tls_key_schedule con))"
    using assms(3) False by (auto simp: sending_def wb_idle_def wb_is_empty_def)
  obtain tx wb con1 con2 where c: "close_record su (ks_client (tls_key_schedule con)) (tls_write_buf con) = Some (Inr tx, wb)"
    and sl: "send_slice tr tx (con\<lparr>tls_write_buf := wb\<rparr>) = Some (Inr (), con1)"
    and fl: "(if flush_transport_policy (tls_flush_policy con1) then con_flush tr con1 else (Inr (), con1)) = (Inr (), con')"
    using assms(4) False by (auto simp: tls_flush_def op_bind_Inr_iff)
  from sl obtain t st' where t: "tr_write_all tr (tls_delegate con) tx = (Inr (), t)"
    "increment_counter (ks_client (tls_key_schedule con)) = Some st'"
    and con1: "tls_write_buf con1 = wb" "ks_client (tls_key_schedule con1) = st'" "tls_delegate con1 = t"
    by (rule send_slice_Inr) auto
  have con': "tls_write_buf con' = wb" "ks_client (tls_key_schedule con') = st'" "out (tls_delegate con') = out t"
    using fl con1 con_flush_keeps [OF assms(2), of con1 "Inr ()" con'] by (auto split: if_splits)
  from close_holds [OF assms(1) s(4,5) c t(2)] have w: "wb_idle wb" "length (wb_buffer wb) = length (wb_buffer (tls_write_buf con))"
    "decode_records su (ks_client (tls_key_schedule con)) tx = Some (pending, st')"
    "protected su (ks_client (tls_key_schedule con)) tx st'" by auto
  have "out t = base @ wire @ tx" using assms(2) t(1) s(2) by (auto simp: writes_out_def)
  with w s con' decode_records_append [OF s(3) w(3)] protected_append [OF s(6) w(4)] show ?thesis
    by (auto simp: sending_def wb_sized_def intro!: exI [of _ accepted] exI [of _ "[]"])
qed

lemma write_sending:
  assumes "aead_law su" "writes_out tr out" "sending su out base st accepted con" "tls_write su tr buf con = Some (Inr n, con')"
  shows "sending su out base st (accepted @ take n buf) con'" "n \<le> length buf" "\<not> wb_is_full (tls_write_buf con')"
    "\<not> wb_is_full (tls_write_buf con) \<Longrightarrow> buf \<noteq> [] \<Longrightarrow> 0 < n"
proof -
  obtain con1 where o: "(if wb_contains HdApplicationData (tls_write_buf con) then Some (Inr (), con)
             else op_bind (tls_flush su tr con) (\<lambda>_ con. Some (con_start_record con)) (\<lambda>con. con)) = Some (Inr (), con1)"
    and k: "(case wb_append buf (tls_write_buf con1) of
             (buffered, wb) \<Rightarrow> op_bind (if wb_is_full wb then tls_flush su tr (con1\<lparr>tls_write_buf := wb\<rparr>)
                 else Some (Inr (), con1\<lparr>tls_write_buf := wb\<rparr>)) (\<lambda>_ con. Some (Inr buffered, con)) (\<lambda>con. con)) = Some (Inr n, con')"
    using assms(4) by (auto simp: tls_write_def op_bind_Inr_iff Let_def split: if_splits)
  have "\<exists>sent pending wire. accepted = sent @ pending \<and> out (tls_delegate con1) = base @ wire \<and>
      decode_records su st wire = Some (sent, ks_client (tls_key_schedule con1)) \<and>
      protected su st wire (ks_client (tls_key_schedule con1)) \<and> wb_sized su (tls_write_buf con1) \<and>
      wb_holds (tls_write_buf con1) pending \<and> (\<not> wb_is_full (tls_write_buf con) \<longrightarrow> \<not> wb_is_full (tls_write_buf con1))"
  proof (cases "wb_contains HdApplicationData (tls_write_buf con)")
    case True
    with o have "con1 = con" by simp
    with assms(3) True show ?thesis by (fastforce simp: sending_def wb_contains_def wb_idle_def)
  next
    case False
    with o obtain con0 where f: "tls_flush su tr con = Some (Inr (), con0)" and s: "con_start_record con0 = (Inr (), con1)"
      by (auto simp: op_bind_Inr_iff)
    from flush_sending [OF assms(1,2,3) f] obtain wire where w: "out (tls_delegate con0) = base @ wire"
      "decode_records su st wire = Some (accepted, ks_client (tls_key_schedule con0))" "wb_sized su (tls_write_buf con0)"
      "wb_idle (tls_write_buf con0)" "protected su st wire (ks_client (tls_key_schedule con0))"
      by (auto simp: sending_def wb_holds_def wb_idle_def)
    from s obtain wb where wb: "start_record HdApplicationData (tls_write_buf con0) = (Inr (), wb)" "con1 = con0\<lparr>tls_write_buf := wb\<rparr>"
      by (auto simp: con_start_record_def split: prod.splits)
    from start_holds [OF w(4,3) wb(1)] have h: "wb_holds wb []" "wb_sized su wb" by auto
    then have "\<not> wb_is_full wb" by (auto simp: wb_is_full_def wb_holds_def wb_sized_def wb_max_block_size_def TLS_RECORD_OVERHEAD_def)
    with w h show ?thesis by (auto simp: wb(2) intro!: exI [of _ accepted])
  qed
  then obtain sent pending wire where s: "accepted = sent @ pending" "out (tls_delegate con1) = base @ wire"
    "decode_records su st wire = Some (sent, ks_client (tls_key_schedule con1))"
    "protected su st wire (ks_client (tls_key_schedule con1))" "wb_sized su (tls_write_buf con1)"
    "wb_holds (tls_write_buf con1) pending" "\<not> wb_is_full (tls_write_buf con) \<longrightarrow> \<not> wb_is_full (tls_write_buf con1)" by blast
  obtain wb where a: "wb_append buf (tls_write_buf con1) = (n, wb)"
    and f: "(if wb_is_full wb then tls_flush su tr (con1\<lparr>tls_write_buf := wb\<rparr>) else Some (Inr (), con1\<lparr>tls_write_buf := wb\<rparr>)) = Some (Inr (), con')"
    using k by (auto simp: op_bind_Inr_iff split: prod.splits)
  note h = append_holds [OF s(6) a]
  show "n \<le> length buf" using h by simp
  show "0 < n" if "\<not> wb_is_full (tls_write_buf con)" "buf \<noteq> []"
    using h s(6,7) that by (auto simp: wb_holds_def wb_is_full_def)
  have g: "sending su out base st (accepted @ take n buf) (con1\<lparr>tls_write_buf := wb\<rparr>)"
    using s h by (auto simp: sending_def wb_sized_def intro!: exI [of _ sent])
  show "sending su out base st (accepted @ take n buf) con'"
    using g f flush_sending [OF assms(1,2) g, of con'] by (auto split: if_splits)
  show "\<not> wb_is_full (tls_write_buf con')"
  proof (cases "wb_is_full wb")
    case True
    with f flush_sending [OF assms(1,2) g, of con'] show ?thesis
      by (auto simp: sending_def wb_idle_def wb_is_full_def wb_sized_def wb_max_block_size_def TLS_RECORD_OVERHEAD_def)
  qed (use f in auto)
qed

text \<open>A caller that writes one buffer after another, with the number of bytes accepted from each.\<close>

fun write_each :: "tls_suite \<Rightarrow> 't transport \<Rightarrow> u8 list list \<Rightarrow> 't TlsConnection \<Rightarrow> ((TlsError + nat list) \<times> 't TlsConnection) option" where
  "write_each su tr [] con = Some (Inr [], con)"
| "write_each su tr (buf # bufs) con =
     op_bind (tls_write su tr buf con) (\<lambda>n con.
     op_bind (write_each su tr bufs con) (\<lambda>ns con. Some (Inr (n # ns), con)) (\<lambda>con. con)) (\<lambda>con. con)"

lemma write_each_sending:
  assumes "aead_law su" "writes_out tr out"
  shows "sending su out base st accepted con \<Longrightarrow> \<not> wb_is_full (tls_write_buf con) \<Longrightarrow>
    write_each su tr bufs con = Some (Inr ns, con') \<Longrightarrow>
    sending su out base st (accepted @ concat (map2 take ns bufs)) con' \<and>
    list_all2 (\<lambda>n buf. n \<le> length buf \<and> (buf \<noteq> [] \<longrightarrow> 0 < n)) ns bufs"
proof (induction bufs arbitrary: accepted con ns)
  case (Cons buf bufs)
  from Cons.prems(3) obtain n con1 ns' where w: "tls_write su tr buf con = Some (Inr n, con1)"
    and r: "write_each su tr bufs con1 = Some (Inr ns', con')" and ns: "ns = n # ns'"
    by (auto simp: op_bind_Inr_iff)
  note s = write_sending [OF assms Cons.prems(1) w]
  from Cons.IH [OF s(1,3) r] s(2,4) Cons.prems(2) show ?case by (simp add: ns)
qed simp

text \<open>
  C33: What an open connection sends is what was written to it. When a caller writes buffers one after
  another and flushes at the end, then each write accepts at least a byte of a buffer that is not empty, and
  the bytes that went to the transport are records which a peer with the same key, starting at the same
  counter, decrypts to the bytes accepted, in order, each once; both sides end at the same counter.
\<close>
theorem written_bytes_arrive:
  assumes "aead_law su" "writes_out tr out" "wb_idle (tls_write_buf con)" "wb_sized su (tls_write_buf con)"
    and "write_each su tr bufs con = Some (Inr ns, con1)" "tls_flush su tr con1 = Some (Inr (), con2)"
  shows "list_all2 (\<lambda>n buf. n \<le> length buf \<and> (buf \<noteq> [] \<longrightarrow> 0 < n)) ns bufs \<and>
    (\<exists>wire. out (tls_delegate con2) = out (tls_delegate con) @ wire \<and>
      decode_records su (ks_client (tls_key_schedule con)) wire =
        Some (concat (map2 take ns bufs), ks_client (tls_key_schedule con2)))"
proof -
  have "sending su out (out (tls_delegate con)) (ks_client (tls_key_schedule con)) [] con" "\<not> wb_is_full (tls_write_buf con)"
    using assms(3,4) by (auto simp: sending_def wb_idle_def wb_is_full_def wb_sized_def wb_max_block_size_def TLS_RECORD_OVERHEAD_def)
  from write_each_sending [OF assms(1,2) this assms(5)]
  show ?thesis using flush_sending [OF assms(1,2) _ assms(6)] by (fastforce simp: sending_def wb_idle_def wb_holds_def)
qed

text \<open>A connection with a small buffer, over a cipher that masks the bytes and tags the nonce.\<close>

definition mask_suite :: tls_suite where
  "mask_suite = \<lparr>su_code_point = 0x1301,
     su_crypto = \<lparr>tc_hash = \<lambda>_. [0], tc_hmac = \<lambda>_ _. [0], tc_extract = \<lambda>_ _. [0], tc_expand = \<lambda>_ _ n. Some (replicate n 0),
       tc_hash_len = 1, tc_key_len = 1, tc_iv_len = 8\<rparr>,
     su_tag_len = 1,
     su_seal = \<lambda>_ nonce _ plain. Some (map (\<lambda>b. b XOR 90) plain, [last (0 # nonce)]),
     su_open = \<lambda>_ nonce _ cipher. if cipher = [] \<or> last cipher \<noteq> last (0 # nonce) then None
       else Some (map (\<lambda>b. b XOR 90) (butlast cipher)),
     su_public_key = \<lambda>secret. secret, su_diffie_hellman = \<lambda>secret point. Some (secret @ point)\<rparr>"

definition byte_log :: "u8 list transport" where
  "byte_log = \<lparr>tr_read = \<lambda>t n. (Inr [], t), tr_write_all = \<lambda>t bs. (Inr (), t @ bs), tr_flush = \<lambda>t. (Inr (), t)\<rparr>"

definition small_connection :: "u8 list TlsConnection" where
  "small_connection = (tls_connection_new (su_crypto mask_suite) [1] (replicate 40 0) (replicate 140 0))\<lparr>tls_opened := True\<rparr>"

fun counts_and_log :: "((TlsError + nat list) \<times> u8 list TlsConnection) option \<Rightarrow> (nat list \<times> u8 list) option" where
  "counts_and_log (Some (Inr ns, con)) =
     (case tls_flush mask_suite byte_log con of Some (Inr _, con) \<Rightarrow> Some (ns, tls_delegate con) | _ \<Rightarrow> None)"
| "counts_and_log _ = None"

lemma small_connection_sends:
  "counts_and_log (write_each mask_suite byte_log [[1, 2, 3], [], [4, 5, 6, 7, 8, 9], [10]] small_connection) =
   Some ([3, 0, 4, 1], [1, 23, 3, 3, 0, 9, 91, 88, 89, 94, 95, 92, 93, 77, 0, 23, 3, 3, 0, 3, 80, 77, 1])"
  by code_simp

lemma mask_suite_law: "aead_law mask_suite"
  by (auto simp: aead_law_def mask_suite_def o_def xor.assoc map_idI)

lemma byte_log_writes: "writes_out byte_log (\<lambda>t. t)"
  by (auto simp: writes_out_def byte_log_def)

theorem written_bytes_arrive_witness:
  "\<exists>(con :: u8 list TlsConnection) wire. tls_delegate con = 1 # wire \<and> wire \<noteq> [] \<and>
     decode_records mask_suite (ks_client (tls_key_schedule small_connection)) wire =
       Some ([1, 2, 3, 4, 5, 6, 7, 10], ks_client (tls_key_schedule con))"
proof -
  let ?bufs = "[[1, 2, 3], [], [4, 5, 6, 7, 8, 9], [10]] :: u8 list list"
  obtain con1 con where w: "write_each mask_suite byte_log ?bufs small_connection = Some (Inr [3, 0, 4, 1], con1)"
    and f: "tls_flush mask_suite byte_log con1 = Some (Inr (), con)" and d: "tls_delegate con \<noteq> [1]"
    using small_connection_sends
    by (cases "write_each mask_suite byte_log ?bufs small_connection" rule: counts_and_log.cases)
      (auto split: option.splits prod.splits sum.splits)
  have "wb_idle (tls_write_buf small_connection)" "wb_sized mask_suite (tls_write_buf small_connection)"
    "tls_delegate small_connection = [1]"
    by (simp_all add: small_connection_def tls_connection_new_def write_buffer_new_def wb_idle_def wb_sized_def mask_suite_def)
  with written_bytes_arrive [OF mask_suite_law byte_log_writes _ _ w f] d show ?thesis
    by auto
qed

section \<open>Nonces on the wire\<close>

text \<open>A caller that writes buffers and flushes in any order.\<close>

datatype SendOp = WriteOp "u8 list" | FlushOp

fun send_ops :: "tls_suite \<Rightarrow> 't transport \<Rightarrow> SendOp list \<Rightarrow> 't TlsConnection \<Rightarrow> ((TlsError + unit) \<times> 't TlsConnection) option" where
  "send_ops su tr [] con = Some (Inr (), con)"
| "send_ops su tr (WriteOp buf # ops) con = op_bind (tls_write su tr buf con) (\<lambda>_ con. send_ops su tr ops con) (\<lambda>con. con)"
| "send_ops su tr (FlushOp # ops) con = op_bind (tls_flush su tr con) (\<lambda>_ con. send_ops su tr ops con) (\<lambda>con. con)"

lemma send_ops_sending:
  assumes "aead_law su" "writes_out tr out"
  shows "sending su out base st accepted con \<Longrightarrow> send_ops su tr ops con = Some (Inr (), con') \<Longrightarrow>
    \<exists>accepted'. sending su out base st accepted' con'"
proof (induction ops arbitrary: accepted con)
  case (Cons oper ops)
  show ?case
  proof (cases oper)
    case (WriteOp buf)
    with Cons.prems(2) obtain n con1 where w: "tls_write su tr buf con = Some (Inr n, con1)" "send_ops su tr ops con1 = Some (Inr (), con')"
      by (auto simp: op_bind_Inr_iff)
    show ?thesis by (rule Cons.IH [OF write_sending(1) [OF assms Cons.prems(1) w(1)] w(2)])
  next
    case FlushOp
    with Cons.prems(2) obtain con1 where f: "tls_flush su tr con = Some (Inr (), con1)" "send_ops su tr ops con1 = Some (Inr (), con')"
      by (auto simp: op_bind_Inr_iff)
    show ?thesis using Cons.IH [OF _ f(2)] flush_sending [OF assms Cons.prems(1) f(1)] by blast
  qed
qed auto

text \<open>
  C37: No nonce protects two records. However a caller writes and flushes an open connection, as long as
  every call succeeds, what the transport was given are records of a header, a ciphertext and a tag that
  are sealed with the key of the client, and their nonces are pairwise different: each is the
  initialisation vector with the counter masked into its end, which moves by one from record to record and
  never wraps, as RFC 8446 (5.3) asks. After a call that failed this is false, see
  \<open>failed_write_reuses_nonce\<close>.
\<close>
theorem sent_records_have_distinct_nonces:
  assumes "aead_law su" "writes_out tr out" "wb_idle (tls_write_buf con)" "wb_sized su (tls_write_buf con)"
    and "8 \<le> tc_iv_len (su_crypto su)" "tc_iv_len (su_crypto su) \<le> length iv" "iv = kst_iv (ks_client (tls_key_schedule con))"
    and "send_ops su tr ops con = Some (Inr (), con')"
  shows "\<exists>rs. out (tls_delegate con') = out (tls_delegate con) @ concat (map snd rs) \<and>
    (\<forall>(nonce, rcd) \<in> set rs. \<exists>plain ct tag.
       su_seal su (kst_key (ks_client (tls_key_schedule con))) nonce (take 5 rcd) plain = Some (ct, tag) \<and>
       rcd = take 5 rcd @ ct @ tag) \<and>
    distinct (map fst rs) \<and>
    (\<forall>i < length rs. fst (rs ! i) = map2 (XOR) (take (tc_iv_len (su_crypto su)) iv)
       (replicate (tc_iv_len (su_crypto su) - 8) 0 @
        u64_to_be_bytes (kst_counter (ks_client (tls_key_schedule con)) + of_nat i)))"
proof -
  let ?st = "ks_client (tls_key_schedule con)" and ?tc = "su_crypto su"
  have "sending su out (out (tls_delegate con)) ?st [] con" using assms(3,4) by (auto simp: sending_def)
  from send_ops_sending [OF assms(1,2) this assms(8)] obtain rs where
    wire: "out (tls_delegate con') = out (tls_delegate con) @ concat (map snd rs)"
    and rs: "sealed_records su ?st rs (ks_client (tls_key_schedule con'))"
    by (auto simp: sending_def protected_def)
  have sealed: "sealed_with su (kst_key ?st) r" if "r \<in> set rs" for r
    using that sealed_uses [OF rs] by (metis in_set_conv_nth)
  have nonce: "fst (rs ! i) = map2 (XOR) (take (tc_iv_len ?tc) iv)
      (replicate (tc_iv_len ?tc - 8) 0 @ u64_to_be_bytes (kst_counter ?st + of_nat i))" if i: "i < length rs" for i
  proof -
    obtain s where s: "key_use ?st i = Some s" "fst (rs ! i) = kst_get_nonce ?tc s" by (rule sealed_uses [OF rs i])
    have "kst_counter s = kst_counter ?st + of_nat i" "kst_iv s = kst_iv ?st"
      using key_use_counter [OF s(1)] by (simp_all add: word_unat_eq_iff flip: of_nat_add) (metis of_nat_add of_nat_unat ucast_id)
    then show ?thesis using s(2) nonce_written_out [OF assms(5)] assms(7) by simp
  qed
  have "fst (rs ! i) \<noteq> fst (rs ! j)" if ij: "i < length rs" "j < length rs" "i \<noteq> j" for i j
  proof -
    obtain s where s: "key_use ?st i = Some s" "fst (rs ! i) = kst_get_nonce ?tc s" by (rule sealed_uses [OF rs ij(1)])
    obtain s' where s': "key_use ?st j = Some s'" "fst (rs ! j) = kst_get_nonce ?tc s'" by (rule sealed_uses [OF rs ij(2)])
    show ?thesis using key_use_nonces_distinct [OF assms(5) _ s(1) s'(1) ij(3)] assms(6,7) s(2) s'(2) by simp
  qed
  then have "distinct (map fst rs)" by (simp add: distinct_conv_nth)
  then show ?thesis using wire sealed nonce unfolding sealed_with_def by (intro exI [of _ rs]) auto
qed

fun log_of :: "((TlsError + unit) \<times> u8 list TlsConnection) option \<Rightarrow> u8 list option" where
  "log_of (Some (Inr _, con)) = Some (tls_delegate con)"
| "log_of _ = None"

lemma small_run:
  "log_of (send_ops mask_suite byte_log [WriteOp [1, 2, 3], FlushOp, WriteOp [4], FlushOp] small_connection) =
   Some [1, 23, 3, 3, 0, 5, 91, 88, 89, 77, 0, 23, 3, 3, 0, 3, 94, 77, 1]"
  by code_simp

theorem sent_records_have_distinct_nonces_witness:
  "\<exists>rs. concat (map snd rs) = [23, 3, 3, 0, 5, 91, 88, 89, 77, 0, 23, 3, 3, 0, 3, 94, 77, 1] \<and> distinct (map fst rs) \<and>
    (\<forall>(nonce, rcd) \<in> set rs. \<exists>plain ct tag.
       su_seal mask_suite (kst_key (ks_client (tls_key_schedule small_connection))) nonce (take 5 rcd) plain = Some (ct, tag) \<and>
       rcd = take 5 rcd @ ct @ tag)"
proof -
  obtain con where run: "send_ops mask_suite byte_log [WriteOp [1, 2, 3], FlushOp, WriteOp [4], FlushOp] small_connection = Some (Inr (), con)"
    and log: "tls_delegate con = [1, 23, 3, 3, 0, 5, 91, 88, 89, 77, 0, 23, 3, 3, 0, 3, 94, 77, 1]"
    using small_run
    by (cases "send_ops mask_suite byte_log [WriteOp [1, 2, 3], FlushOp, WriteOp [4], FlushOp] small_connection" rule: log_of.cases) auto
  have start: "wb_idle (tls_write_buf small_connection)" "wb_sized mask_suite (tls_write_buf small_connection)"
    "8 \<le> tc_iv_len (su_crypto mask_suite)"
    "tc_iv_len (su_crypto mask_suite) \<le> length (kst_iv (ks_client (tls_key_schedule small_connection)))"
    and "tls_delegate small_connection = [1]"
    by (simp_all add: small_connection_def tls_connection_new_def write_buffer_new_def wb_idle_def wb_sized_def mask_suite_def
        key_schedule_new_def key_schedule_state_new_def)
  from sent_records_have_distinct_nonces [OF mask_suite_law byte_log_writes start refl run] log this(5) obtain rs where
    "concat (map snd rs) = [23, 3, 3, 0, 5, 91, 88, 89, 77, 0, 23, 3, 3, 0, 3, 94, 77, 1]" "distinct (map fst rs)"
    "\<forall>(nonce, rcd) \<in> set rs. \<exists>plain ct tag.
       su_seal mask_suite (kst_key (ks_client (tls_key_schedule small_connection))) nonce (take 5 rcd) plain = Some (ct, tag) \<and>
       rcd = take 5 rcd @ ct @ tag" by auto
  then show ?thesis by blast
qed

section \<open>After a failed write\<close>

text \<open>
  When the transport fails, the record was already sealed and may be on the wire in whole or in part, but
  the counter has not moved and the connection stays open: the next record is sealed with the same key and
  the same nonce.
\<close>

lemma failed_write_keeps_counter:
  assumes "\<not> wb_is_empty (tls_write_buf con)" "tr_write_all tr (tls_delegate con) tx = (Inl e, t)"
    and "close_record su (ks_client (tls_key_schedule con)) (tls_write_buf con) = Some (Inr tx, wb)"
  shows "tls_flush su tr con = Some (Inl (TlsIo e), con\<lparr>tls_write_buf := wb, tls_delegate := t\<rparr>)"
  using assms by (simp add: tls_flush_def send_slice_def)

text \<open>
  A transport that takes everything and reports an error the first time: the second buffer goes out
  under the nonce of the first.
\<close>

definition failing_once :: "(u8 list \<times> bool) transport" where
  "failing_once = \<lparr>tr_read = \<lambda>t n. (Inr [], t),
     tr_write_all = \<lambda>(bytes, failed) bs. (if failed then Inr () else Inl 0, (bytes @ bs, True)),
     tr_flush = \<lambda>t. (Inr (), t)\<rparr>"

definition failing_connection :: "(u8 list \<times> bool) TlsConnection" where
  "failing_connection =
     (tls_connection_new (su_crypto mask_suite) ([], False) (replicate 40 0) (replicate 140 0))\<lparr>tls_opened := True\<rparr>"

definition two_buffers :: "((TlsError + unit) \<times> (TlsError + unit) \<times> u8 list) option" where
  "two_buffers =
     Option.bind (tls_write mask_suite failing_once [1, 2, 3] failing_connection) (\<lambda>(_, con).
     Option.bind (tls_flush mask_suite failing_once con) (\<lambda>(first_result, con).
     Option.bind (tls_write mask_suite failing_once [4, 5] con) (\<lambda>(_, con).
     map_option (\<lambda>(second_result, con). (first_result, second_result, fst (tls_delegate con)))
       (tls_flush mask_suite failing_once con))))"

lemma failed_write_reuses_nonce:
  "two_buffers = Some (Inl (TlsIo 0), Inr (), [23, 3, 3, 0, 5, 91, 88, 89, 77, 0] @ [23, 3, 3, 0, 4, 94, 95, 77, 0])"
  "map_option fst (decode_records mask_suite (ks_client (tls_key_schedule failing_connection))
     [23, 3, 3, 0, 5, 91, 88, 89, 77, 0]) = Some [1, 2, 3]"
  "map_option fst (decode_records mask_suite (ks_client (tls_key_schedule failing_connection))
     [23, 3, 3, 0, 4, 94, 95, 77, 0]) = Some [4, 5]"
  by code_simp+

end
