(* ===== verification/Net_Input.thy ===== *)
theory Net_Input
  imports App_Bus
begin

text \<open>
  The Wi-Fi side of the firmware, \<open>network.rs\<close> and \<open>tasks/network_supervisor.rs\<close>, the rotary encoder
  (\<open>ui_input.rs\<close>) and the fading LED (\<open>tasks/led_pwm.rs\<close>). What the controller, the pins and the stack
  answer are inputs, in the order the code asks; an empty list of inputs is a task that still waits.
  The build-time settings of the network are arguments.
\<close>

section \<open>Configuration of the network\<close>

record WifiSettings =
  ws_ssid :: string
  ws_password :: string
  ws_channel_hint :: "u8 option"
  ws_bssid_hint :: "u8 list option"
  ws_static_ip :: "u8 list option"
  ws_subnet_prefix :: u8
  ws_gateway_ip :: "u8 list option"
  ws_dns1_ip :: "u8 list option"
  ws_dns2_ip :: "u8 list option"

text \<open>The static configuration of the stack holds at most three name servers; pushing more is ignored.\<close>

record StaticConfigV4 =
  sc_address :: "u8 list \<times> u8"
  sc_gateway :: "u8 list option"
  sc_dns_servers :: "u8 list list"

datatype StackConfig = Dhcpv4 | Ipv4Static StaticConfigV4

definition push_dns :: "u8 list option \<Rightarrow> StaticConfigV4 \<Rightarrow> StaticConfigV4" where
  "push_dns dns cfg =
     (case dns of
        None \<Rightarrow> cfg
      | Some ip \<Rightarrow> if length (sc_dns_servers cfg) < 3 then cfg\<lparr>sc_dns_servers := sc_dns_servers cfg @ [ip]\<rparr> else cfg)"

definition build_stack_config :: "WifiSettings \<Rightarrow> StackConfig" where
  "build_stack_config ws =
     (case ws_static_ip ws of
        None \<Rightarrow> Dhcpv4
      | Some static_ip \<Rightarrow>
          Ipv4Static (push_dns (ws_dns2_ip ws) (push_dns (ws_dns1_ip ws)
            \<lparr>sc_address = (static_ip, ws_subnet_prefix ws), sc_gateway = ws_gateway_ip ws, sc_dns_servers = []\<rparr>)))"

record StationConfig =
  st_ssid :: string
  st_password :: string
  st_channel :: "u8 option"
  st_bssid :: "u8 list option"

definition build_client_config :: "WifiSettings \<Rightarrow> StationConfig" where
  "build_client_config ws =
     (let cfg = \<lparr>st_ssid = ws_ssid ws, st_password = ws_password ws, st_channel = None, st_bssid = None\<rparr>;
          cfg = (case ws_channel_hint ws of None \<Rightarrow> cfg | Some ch \<Rightarrow> cfg\<lparr>st_channel := Some ch\<rparr>)
      in case ws_bssid_hint ws of None \<Rightarrow> cfg | Some bssid \<Rightarrow> cfg\<lparr>st_bssid := Some bssid\<rparr>)"

text \<open>The seed of the stack: two random words, the address of the chip and a constant.\<close>

definition mac_component :: "u8 list \<Rightarrow> u64" where
  "mac_component mac_bytes = foldl (\<lambda>m b. word_rotl 8 m XOR ucast b) 0 mac_bytes"

definition derive_network_seed :: "u32 \<Rightarrow> u32 \<Rightarrow> u8 list \<Rightarrow> u64" where
  "derive_network_seed random1 random2 mac_bytes =
     (push_bit 32 (ucast random1) OR ucast random2) XOR word_rotl 17 (mac_component mac_bytes) XOR 0x9E3779B97F4A7C15"

section \<open>Association\<close>

datatype net_action = SetConfig StationConfig | Connect | WaitSecs nat | AwaitConfigUp

datatype assoc_outcome = ConfigRejected | AssocFailed | Associated

fun connect_until_associated :: "WifiSettings \<Rightarrow> assoc_outcome list \<Rightarrow> (net_action list \<times> assoc_outcome list) option" where
  "connect_until_associated ws [] = None"
| "connect_until_associated ws (ConfigRejected # outcomes) =
     map_option (\<lambda>(acts, rest). (SetConfig (build_client_config ws) # WaitSecs 1 # acts, rest)) (connect_until_associated ws outcomes)"
| "connect_until_associated ws (AssocFailed # outcomes) =
     map_option (\<lambda>(acts, rest). (SetConfig (build_client_config ws) # Connect # WaitSecs 1 # acts, rest)) (connect_until_associated ws outcomes)"
| "connect_until_associated ws (Associated # outcomes) = Some ([SetConfig (build_client_config ws), Connect], outcomes)"

fun reconnect_until_connected :: "bool list \<Rightarrow> (net_action list \<times> bool list) option" where
  "reconnect_until_connected [] = None"
| "reconnect_until_connected (ok # outcomes) =
     (if ok then Some ([Connect], outcomes)
      else map_option (\<lambda>(acts, rest). (Connect # WaitSecs 2 # acts, rest)) (reconnect_until_connected outcomes))"

text \<open>
  Waiting for an address: the flag that the configuration was seen, whether it is up at the first look
  and, after the lock was taken, at the second. The result is what is done and the flag after it.
\<close>

definition wait_for_config_up :: "bool \<Rightarrow> bool \<Rightarrow> bool \<Rightarrow> net_action list \<times> bool" where
  "wait_for_config_up seen up up_locked =
     (if seen \<and> up then ([], seen) else if up_locked then ([], True) else ([AwaitConfigUp], True))"

text \<open>A round of the supervisor: connected or not, and then the outcomes of the attempts.\<close>

definition supervisor_round :: "bool \<Rightarrow> bool \<Rightarrow> bool list \<Rightarrow> bool \<Rightarrow> bool \<Rightarrow> (net_action list \<times> bool) option" where
  "supervisor_round seen is_connected outcomes up up_locked =
     (if is_connected then Some ([WaitSecs 5], seen)
      else map_option (\<lambda>(acts, _). case wait_for_config_up seen up up_locked of
             (wait, seen) \<Rightarrow> (acts @ wait @ [WaitSecs 5], seen)) (reconnect_until_connected outcomes))"

definition supervisor_start :: "WifiSettings \<Rightarrow> bool \<Rightarrow> assoc_outcome list \<Rightarrow> bool \<Rightarrow> bool \<Rightarrow> (net_action list \<times> bool) option" where
  "supervisor_start ws seen outcomes up up_locked =
     map_option (\<lambda>(acts, _). case wait_for_config_up seen up up_locked of (wait, seen) \<Rightarrow> (acts @ wait, seen))
       (connect_until_associated ws outcomes)"

section \<open>Rotary encoder\<close>

text \<open>
  What ends a wait: the switch falls (is it still low after the debounce, and how long until it is
  released), or contact A rises (is B low, and is A still high after the debounce). Times in milliseconds.
\<close>

datatype pin_edge = SwFalling bool nat | ARising bool bool

fun next_event :: "UiEvent \<Rightarrow> UiEvent \<Rightarrow> pin_edge list \<Rightarrow> (UiEvent \<times> nat \<times> pin_edge list) option" where
  "next_event cw ccw [] = None"
| "next_event cw ccw (SwFalling is_low release # edges) =
     (if is_low then Some (Select, 50 + release + 50, edges)
      else map_option (\<lambda>(e, ms, rest). (e, 50 + ms, rest)) (next_event cw ccw edges))"
| "next_event cw ccw (ARising b_at_edge a_high # edges) =
     (if \<not> a_high then map_option (\<lambda>(e, ms, rest). (e, 2 + ms, rest)) (next_event cw ccw edges)
      else Some (if b_at_edge then cw else ccw, 2 + 200, edges))"

section \<open>LED\<close>

text \<open>A round of the LED: fades up and down, each followed by waits while the fade runs, if it was started.\<close>

datatype led_action = StartFade nat nat nat | LedWait nat

definition wait_fade_done :: "nat \<Rightarrow> nat \<Rightarrow> led_action list" where
  "wait_fade_done duration_ms polls = replicate polls (LedWait duration_ms)"

definition led_round :: "bool \<times> nat \<Rightarrow> bool \<times> nat \<Rightarrow> led_action list" where
  "led_round up down =
     [StartFade 0 15 2000] @ (if fst up then wait_fade_done 2000 (snd up) else []) @
     [StartFade 15 0 2000] @ (if fst down then wait_fade_done 2000 (snd down) else [])"

section \<open>Lemmas\<close>

text \<open>Association goes on until it succeeds, with a second of rest after each failure.\<close>

lemma connect_ends:
  "connect_until_associated ws outcomes = None \<longleftrightarrow> Associated \<notin> set outcomes"
  by (induction ws outcomes rule: connect_until_associated.induct) auto

lemma connect_waits:
  "connect_until_associated ws outcomes = Some (acts, rest) \<Longrightarrow>
   length (filter (\<lambda>a. a = WaitSecs 1) acts) + 1 + length rest = length outcomes"
  by (induction ws outcomes arbitrary: acts rule: connect_until_associated.induct) auto

lemma connect_configures:
  "connect_until_associated ws outcomes = Some (acts, rest) \<Longrightarrow> SetConfig c \<in> set acts \<Longrightarrow> c = build_client_config ws"
  by (induction ws outcomes arbitrary: acts rule: connect_until_associated.induct) auto

lemma reconnect_ends: "reconnect_until_connected outcomes = None \<longleftrightarrow> True \<notin> set outcomes"
  by (induction outcomes rule: reconnect_until_connected.induct) auto

text \<open>After waiting for the configuration its flag is set, and a connection in use is left alone.\<close>

lemma config_seen_after_wait: "snd (wait_for_config_up seen up up_locked)"
  by (simp add: wait_for_config_up_def)

lemma connected_left_alone: "supervisor_round seen True outcomes up up_locked = Some ([WaitSecs 5], seen)"
  by (simp add: supervisor_round_def)

text \<open>Different random words give different seeds.\<close>

lemma xor_cancel:
  fixes x :: "'a::len word"
  assumes "x XOR a XOR b = y XOR a XOR b"
  shows "x = y"
proof -
  have "x = (x XOR a XOR b) XOR b XOR a" by (simp add: xor.assoc)
  also have "\<dots> = (y XOR a XOR b) XOR b XOR a" by (simp only: assms)
  also have "\<dots> = y" by (simp add: xor.assoc)
  finally show ?thesis .
qed

lemma seed_random_injective:
  "derive_network_seed r1 r2 mac = derive_network_seed s1 s2 mac \<longleftrightarrow> r1 = s1 \<and> r2 = s2"
proof
  assume "derive_network_seed r1 r2 mac = derive_network_seed s1 s2 mac"
  then have e: "push_bit 32 (ucast r1 :: u64) OR ucast r2 = push_bit 32 (ucast s1) OR ucast s2"
    unfolding derive_network_seed_def by (rule xor_cancel)
  have "bit r1 n = bit s1 n \<and> bit r2 n = bit s2 n" if "n < 32" for n
  proof -
    have "bit (push_bit 32 (ucast r1 :: u64) OR ucast r2) k = bit (push_bit 32 (ucast s1 :: u64) OR ucast s2) k" for k
      using e by simp
    from this [of n] this [of "n + 32"] that show ?thesis by (auto simp: bit_simps dest: bit_imp_le_length)
  qed
  then show "r1 = s1 \<and> r2 = s2" by (auto intro!: bit_word_eqI)
qed simp

text \<open>An event takes a turn that held or a press that held, and its debounce and rest; bounces only take time.\<close>

lemma event_needs_edge:
  "next_event cw ccw edges = Some (e, ms, rest) \<Longrightarrow>
   (\<exists>bounces edge. edges = bounces @ edge # rest \<and> next_event cw ccw bounces = None \<and>
     (edge = ARising True True \<and> e = cw \<and> 202 \<le> ms \<or> edge = ARising False True \<and> e = ccw \<and> 202 \<le> ms \<or>
      (\<exists>release. edge = SwFalling True release \<and> e = Select \<and> 100 + release \<le> ms)))"
proof (induction cw ccw edges arbitrary: e ms rule: next_event.induct)
  case (2 cw ccw is_low release edges)
  show ?case
  proof (cases is_low)
    case True
    with 2(2) show ?thesis by (intro exI [of _ "[]"] exI [of _ "SwFalling True release"]) auto
  next
    case False
    with 2(2) obtain ms' where n: "next_event cw ccw edges = Some (e, ms', rest)" "ms = 50 + ms'" by auto
    from 2(1) [OF False n(1)] obtain bounces edge where "edges = bounces @ edge # rest" "next_event cw ccw bounces = None"
      "edge = ARising True True \<and> e = cw \<and> 202 \<le> ms' \<or> edge = ARising False True \<and> e = ccw \<and> 202 \<le> ms' \<or>
       (\<exists>release. edge = SwFalling True release \<and> e = Select \<and> 100 + release \<le> ms')" by blast
    then show ?thesis using False n(2) by (intro exI [of _ "SwFalling is_low release # bounces"] exI [of _ edge]) auto
  qed
next
  case (3 cw ccw b a edges)
  show ?case
  proof (cases a)
    case True
    with 3(2) show ?thesis by (intro exI [of _ "[]"] exI [of _ "ARising b True"]) (cases b; auto)
  next
    case False
    with 3(2) obtain ms' where n: "next_event cw ccw edges = Some (e, ms', rest)" "ms = 2 + ms'" by auto
    from 3(1) [OF False n(1)] obtain bounces edge where "edges = bounces @ edge # rest" "next_event cw ccw bounces = None"
      "edge = ARising True True \<and> e = cw \<and> 202 \<le> ms' \<or> edge = ARising False True \<and> e = ccw \<and> 202 \<le> ms' \<or>
       (\<exists>release. edge = SwFalling True release \<and> e = Select \<and> 100 + release \<le> ms')" by blast
    then show ?thesis using False n(2) by (intro exI [of _ "ARising b a # bounces"] exI [of _ edge]) auto
  qed
qed simp

end
