(* ===== verification/Spec2Isabelle.thy ===== *)
theory Spec2Isabelle
  imports Eu_Dst Ota_Tasks Rsa_Verify Pulse_Capture Display_Loop Http_Download Http_Sending Tls_Trust Http_Asking Tls_Stream Net_Input
begin

text \<open>
  The firmware of this repository receives a 433 MHz temperature sensor, shows its readings on a
  small display, publishes them over MQTT, and updates itself over the network with signed and
  encrypted images. The development models its logic, theory by theory, and proves what makes the
  parts correct.

  \<^bold>\<open>How the parts work together.\<close> The radio task (\<open>tasks/radio_433.rs\<close>) tunes the CC1101
  (\<open>radio_433.rs\<close>) and captures the gaps between pulses (\<open>pulse_capture*.rs\<close>); the decoder
  (\<open>crates/rubicson\<close>) turns a burst into a reading; the pipeline adapter (\<open>telemetry.rs\<close> over
  \<open>crates/telemetry-core\<close>) drops repeats of a burst and queues the rest; the application bus
  (\<open>app_bus.rs\<close>) routes readings to the MQTT task (\<open>tasks/mqtt\<close>) and settings to the dispatch task;
  the display task (\<open>tasks/display\<close> over \<open>crates/karu-menu\<close>) shows readings and edits settings;
  settings survive deep sleep in retained words (\<open>crates/app-core/src/rtc_schema.rs\<close>); the power
  module (\<open>power\<close>) decides when to sleep. An update manifest that arrives over MQTT goes to the OTA
  task (\<open>tasks/ota.rs\<close>), which checks it (\<open>crates/ota-core\<close>), downloads and decrypts the image
  (\<open>ota/\<close>, over the HTTP client in \<open>tools/reqwless\<close>), writes it to the inactive flash slot and
  resets into it; the new image is confirmed by \<open>tasks/ota_confirm.rs\<close> once it proves healthy.

  \<^bold>\<open>Theories, and what they model.\<close>
  \<^item> \<open>Prelude\<close>: integer types, results and the question-mark operator, clamps, saturation, byte order.
  \<^item> \<open>F32\<close>: \<open>f32\<close> as rationals with infinities and NaN, every operation rounded to nearest even.
  \<^item> \<open>Strings\<close>: splitting, digits and decimal text; a string is its UTF-8 bytes.
  \<^item> \<open>Rubicson\<close>: \<open>crates/rubicson/src/lib.rs\<close>; \<open>Telemetry\<close>: \<open>crates/telemetry-core\<close>, the bounded queue
    and the deduplication cache; \<open>Pipeline\<close>: \<open>telemetry.rs\<close> over both.
  \<^item> \<open>Config_Rules\<close>: \<open>domain.rs\<close>, \<open>config_rules.rs\<close>, \<open>runtime_policy.rs\<close> of app-core; \<open>Rtc_Schema\<close>:
    \<open>rtc_schema.rs\<close>; \<open>Messages\<close>: \<open>messages.rs\<close> and \<open>domain_map.rs\<close>; \<open>Eu_Dst\<close>: \<open>crates/eu-dst\<close>;
    \<open>Time_Sync\<close>: \<open>ntp_servers.rs\<close> and \<open>time_sync.rs\<close>.
  \<^item> \<open>Ota_Core\<close>: \<open>crates/ota-core/src/lib.rs\<close>; \<open>Ota_Encrypted\<close>: \<open>ota/encrypted.rs\<close>; \<open>Ota_Boot\<close>:
    \<open>ota/boot_metadata.rs\<close>; \<open>Ota_Flash\<close>: \<open>ota/flash_write.rs\<close>; \<open>Ota_Update\<close>: the properties of an
    update; \<open>Ota_Tasks\<close>: \<open>tasks/ota.rs\<close>, \<open>tasks/ota_confirm.rs\<close>, \<open>tls_workspace.rs\<close>; \<open>Rsa_Verify\<close>:
    \<open>crates/rsa-verify-core\<close>.
  \<^item> \<open>Power_Policy\<close>: \<open>power/\<close> and \<open>radio_settings.rs\<close>; \<open>App_Bus\<close>: \<open>app_bus.rs\<close>; \<open>Mqtt\<close>: \<open>tasks/mqtt\<close>;
    \<open>Radio_433\<close>: \<open>radio_433.rs\<close>, \<open>tasks/radio_433.rs\<close>. \<open>Pulse_Capture\<close>: \<open>pulse_capture*.rs\<close>
    and the capture tasks.
  \<^item> \<open>Net_Input\<close>: \<open>network.rs\<close>, \<open>tasks/network_supervisor.rs\<close>, \<open>ui_input.rs\<close>, \<open>tasks/led_pwm.rs\<close>, with their lemmas.
  \<^item> \<open>Karu_Menu\<close>: \<open>crates/karu-menu\<close>; \<open>Display_Driver\<close>: \<open>display_driver.rs\<close>; \<open>Display\<close>: \<open>tasks/display.rs\<close>
    and \<open>tasks/display/\<close>; \<open>Settings_Menu\<close>, \<open>Display_Loop\<close>: their lemmas and properties.
  \<^item> The HTTP client \<open>tools/reqwless\<close>: \<open>Http_Body\<close> (\<open>reader.rs\<close>, the bodies of \<open>response/\<close>), \<open>Http_Writer\<close>
    (\<open>body_writer/\<close>), \<open>Http_Response\<close> (\<open>response/mod.rs\<close>, \<open>headers.rs\<close>), \<open>Http_Request\<close> (\<open>request.rs\<close>,
    \<open>client.rs\<close>, over the TLS library); their properties are in \<open>Http_Framing\<close>, \<open>Http_Sending\<close>, \<open>Http_Asking\<close> and
    \<open>Http_Download\<close>, which joins it to the update.
  \<^item> The TLS library \<open>tools/embedded-tls\<close>: \<open>Tls_Parse\<close> (\<open>parse_buffer.rs\<close>, \<open>buffer.rs\<close>, \<open>alert.rs\<close>),
    \<open>Tls_Messages\<close> (\<open>extensions/\<close>, \<open>handshake/\<close>, what a server sends), \<open>Tls_Hello\<close> (\<open>config.rs\<close>, \<open>client_hello.rs\<close>,
    \<open>record.rs\<close>, what a client sends), \<open>Tls_Keys\<close> (\<open>key_schedule.rs\<close>), \<open>Tls_Records\<close> (\<open>write_buffer.rs\<close>,
    \<open>record_reader.rs\<close>, protection of records), \<open>Tls_Handshake\<close> (the states of \<open>connection.rs\<close>, \<open>open\<close> of
    \<open>asynch.rs\<close>), \<open>Tls_Session\<close> (the rest of \<open>asynch.rs\<close>, \<open>read_buffer.rs\<close>), \<open>Tls_Pki\<close> (\<open>pki.rs\<close>,
    \<open>der_certificate.rs\<close>); their properties are in \<open>Tls_Trust\<close>, \<open>Tls_Opening\<close> and \<open>Tls_Stream\<close>. \<open>Hw_Rsa\<close>:
    \<open>ota/hw_rsa.rs\<close>, which verifies RSA signatures for it.

  \<^bold>\<open>Correspondence.\<close> A definition has the name of its function, with the module's name before it where
  two modules share a name. A struct is a record, an enum a datatype, \<open>Result<T, E>\<close> is \<open>E + T\<close>, a
  panic is \<open>None\<close>. Machine integers are words where wrapping or bits matter; lengths and times that
  the source keeps in \<open>usize\<close> or \<open>u64\<close> are naturals with the saturation written out. A task is its
  state and one step per round of its loop; what it awaits (messages, timers, watch values, clock
  readings) are inputs of the step, in the order the code reads them. Loops are structural recursion
  on their input or recursion with a measure; none needs fuel. The loops
  that run until the peer sends the right record (\<open>open_loop\<close>, \<open>read_records\<close>) are partial functions
  whose value is \<open>None\<close> when they do not end. Logging is left out.

  \<^bold>\<open>Parameters.\<close> Third-party code is an argument: SHA-256, AES-CTR and Ed25519, the JSON reader and
  writer, the flash and boot libraries (record \<open>platform\<close> with \<open>platform_laws\<close>), the CC1101 driver
  (\<open>driver_law\<close>), the graphics and panel libraries (\<open>panel_law\<close>), the MQTT client, the connections
  (\<open>connection_law\<close>, \<open>writer_law\<close>, \<open>conn_law\<close>), the sockets and the resolver (record \<open>http_env\<close>), the header parser and the hex digits (\<open>httparse_law\<close>, \<open>hex_law\<close>), the
  RSA accelerator (\<open>rsa_hardware_law\<close>), the DER reader, the curves, HKDF and the
  AEAD (records \<open>pki_lib\<close>, \<open>tls_crypto\<close>, \<open>tls_suite\<close>, with \<open>aead_law\<close>). Each
  law states documented behaviour and is satisfied by a concrete instance in the witnesses.

  \<^bold>\<open>What is shown.\<close> Updates: only a signed, allowed, authenticated image gets selected, only the chunks
  received reach the slot and nothing else is touched, redirects stay on HTTPS with the pinned
  authority, a healthy image is confirmed in bounded time. Telemetry: a burst
  reaches the queue once, nothing is lost silently, the published text states the reading. Settings:
  what is saved is what was shown, valid, and survives a reset; damaged words are refused. Display:
  in runs without update messages, on a panel that works and a clock that stands still within a round, the
  screen is current. TLS: a request to an
  HTTPS URL never leaves in the clear and arrives as it was built, an open connection
  agrees with its peer on the handshake, certificates chain to the pinned authority and name the
  host, nonces do not repeat unless a write fails, what is written arrives, the RSA verifier is that of
  RFC 8017 for signatures below an odd modulus. Time, decoding, menus and signatures: exact functional
  specifications, round trips and bounds. Each property is introduced by its claim number.

  \<^bold>\<open>What modelling showed.\<close> The CTR counters of neighbouring chunks overlap, so their key streams
  repeat (\<open>consecutive_chunks_share_keystream\<close>); a failed second attempt lifts the sleep block of an
  unconfirmed image (\<open>failed_attempt_ends_pending_confirmation\<close>); a forwarded manifest stays retained
  (\<open>forwarded_manifest_stays_retained\<close>); a failed radio command leaves the chip idle
  (\<open>failed_setter_leaves_chip_idle\<close>); an update message can stay on the screen
  (\<open>update_message_stays\<close>); the sub-second part of the NTP time stamps wraps (\<open>ntp_elapsed\<close>).
  After an overrun of the receiver a buffer with an earlier burst is decoded again
  (\<open>stale_buffer_republished\<close>). In the HTTP client, the
  buffering writer panics when three bytes are left (\<open>buffered_writer_panics\<close>), a body of known length
  can be read past its end (\<open>fixed_read_overruns\<close>), a truncated chunk is never reported
  (\<open>truncated_chunk_never_returns\<close>), line breaks in a field add fields (\<open>field_injected\<close>) and an HTTPS URL
  without a TLS configuration is asked in the clear (\<open>https_without_tls_is_plain\<close>). In the TLS library, a
  server that leaves out its certificate is accepted (\<open>certificate_can_be_left_out\<close>), certificates of
  servers can issue certificates (\<open>server_certificate_can_issue\<close>), empty protected records and handshake
  records in the clear panic (\<open>empty_record_panics\<close>, \<open>plain_handshake_panics\<close>), an alert in the clear closes a
  connection (\<open>plain_alert_closes\<close>) and is sent with the wrong type (\<open>plain_alert_type\<close>), the common name
  counts beside alternative names (\<open>common_name_beside_alternative_names\<close>), a long one is an error
  (\<open>long_common_name_fails\<close>); a
  write that fails leaves the counter, so that the next record repeats the nonce
  (\<open>failed_write_reuses_nonce\<close>); RSA signatures beyond the modulus pass (\<open>signature_range_unchecked\<close>).

  \<^bold>\<open>Not modelled.\<close> Start-up and wiring of tasks (\<open>startup/\<close>, \<open>bin/main.rs\<close>, \<open>build.rs\<close>) create
  peripherals and spawn tasks, the hardware self test of SHA (\<open>startup/sha_self_test.rs\<close>) logs whether two
  libraries agree. Of the TLS
  library, \<open>blocking.rs\<close> and the split halves, which repeat the steps of \<open>asynch.rs\<close>, the webpki verifier and
  the parsers only a server needs are left out. The host tools outside Rust are not part of the
  firmware.
\<close>

end
